(* ===== verification/Prelude.thy ===== *)
theory Prelude
  imports Main "HOL-Library.AList" "HOL-Library.Sublist" "HOL-Library.Char_ord"
    "HOL-Library.List_Lexorder"
begin

text \<open>
  Shared vocabulary of the freegate development: result values of fallible Go functions, Go
  strings (byte lists) with the operations of the standard packages strings and bytes that the
  program uses, Go maps as association lists with distinct keys, decimal rendering of integers,
  and the order-preserving deduplication that every catalogue merge of the program performs.
  The generic lemmas proved here are collected in \<open>go_simps\<close>.
\<close>

named_theorems go_simps \<open>rewrite rules for Go strings, maps and results\<close>

section \<open>Results\<close>

text \<open>A pair (value, error) of Go: \<open>Inl e\<close> is a non-nil error, \<open>Inr v\<close> the value with a nil error.\<close>

type_synonym 'a res = "string + 'a"

definition bind_res :: "'e + 'a \<Rightarrow> ('a \<Rightarrow> 'e + 'b) \<Rightarrow> 'e + 'b" where
  "bind_res r f = (case r of Inl e \<Rightarrow> Inl e | Inr v \<Rightarrow> f v)"

lemma bind_res_simps [simp, go_simps]:
  "bind_res (Inl e) f = Inl e"
  "bind_res (Inr v) f = f v"
  by (simp_all add: bind_res_def)

lemma bind_res_Inr_iff [go_simps]:
  "bind_res r f = Inr y \<longleftrightarrow> (\<exists>x. r = Inr x \<and> f x = Inr y)"
  by (cases r) auto

section \<open>Strings\<close>

text \<open>strings.Contains and bytes.Contains.\<close>

fun contains :: "string \<Rightarrow> string \<Rightarrow> bool" where
  "contains [] n = (n = [])"
| "contains (c # cs) n = (prefix n (c # cs) \<or> contains cs n)"

lemma contains_iff_sublist: "contains s n \<longleftrightarrow> sublist n s"
  by (induction s) (auto simp: sublist_Cons_right)

lemma contains_self [simp]: "contains s s"
  by (simp add: contains_iff_sublist)

lemma contains_appendI1: "contains s n \<Longrightarrow> contains (s @ t) n"
  by (auto simp: contains_iff_sublist sublist_append)

lemma contains_appendI2: "contains t n \<Longrightarrow> contains (s @ t) n"
  by (auto simp: contains_iff_sublist sublist_append)

lemma contains_ConsI: "contains t n \<Longrightarrow> contains (c # t) n"
  by simp

text \<open>strings.HasPrefix, strings.HasSuffix, strings.TrimPrefix.\<close>

abbreviation has_prefix :: "string \<Rightarrow> string \<Rightarrow> bool" where
  "has_prefix s p \<equiv> prefix p s"

definition has_suffix :: "string \<Rightarrow> string \<Rightarrow> bool" where
  "has_suffix s p = prefix (rev p) (rev s)"

lemma has_suffix_iff: "has_suffix s p \<longleftrightarrow> (\<exists>t. s = t @ p)"
  unfolding has_suffix_def prefix_def by (metis rev_append rev_rev_ident)

definition trim_prefix :: "string \<Rightarrow> string \<Rightarrow> string" where
  "trim_prefix s p = (if has_prefix s p then drop (length p) s else s)"

text \<open>strings.ToLower on ASCII letters; other bytes are unchanged.\<close>

definition lower_char :: "char \<Rightarrow> char" where
  "lower_char c = (if CHR ''A'' \<le> c \<and> c \<le> CHR ''Z'' then char_of (of_char c + (32::nat)) else c)"

definition to_lower :: "string \<Rightarrow> string" where
  "to_lower s = map lower_char s"

text \<open>strings.TrimSpace: the ASCII white space of Go.\<close>

definition is_space :: "char \<Rightarrow> bool" where
  "is_space c = (c = CHR '' '' \<or> c = CHR 0x09 \<or> c = CHR 0x0A \<or> c = CHR 0x0B \<or> c = CHR 0x0C \<or> c = CHR 0x0D)"

definition trim_space :: "string \<Rightarrow> string" where
  "trim_space s = rev (dropWhile is_space (rev (dropWhile is_space s)))"

lemma trim_space_Nil [simp]: "trim_space [] = []"
  by (simp add: trim_space_def)

lemma dropWhile_idem [simp]: "dropWhile P (dropWhile P xs) = dropWhile P xs"
  by (induction xs) auto

lemma dropWhile_rev_dropWhile:
  "dropWhile P (rev (dropWhile P (rev (dropWhile P xs)))) = rev (dropWhile P (rev (dropWhile P xs)))"
proof (cases "dropWhile P xs")
  case Nil
  show ?thesis by (simp only: Nil) simp
next
  case (Cons y ys)
  then have "\<not> P y" by (metis hd_dropWhile list.sel(1) list.discI)
  then have "rev (dropWhile P (rev (y # ys))) = y # rev (dropWhile P (rev ys))"
    by (simp add: dropWhile_append3)
  with \<open>\<not> P y\<close> Cons show ?thesis by auto
qed

lemma trim_space_idem [simp]: "trim_space (trim_space s) = trim_space s"
  by (simp add: trim_space_def dropWhile_rev_dropWhile)

text \<open>strings.Split on a one-byte separator; the result is never empty.\<close>

fun split_on :: "char \<Rightarrow> string \<Rightarrow> string list" where
  "split_on sep [] = [[]]"
| "split_on sep (c # cs) =
     (if c = sep then [] # split_on sep cs
      else case split_on sep cs of [] \<Rightarrow> [[c]] | w # ws \<Rightarrow> (c # w) # ws)"

lemma split_on_not_Nil [simp]: "split_on sep s \<noteq> []"
  by (cases s) (auto split: list.splits)

lemma split_on_no_sep: "w \<in> set (split_on sep s) \<Longrightarrow> sep \<notin> set w"
proof (induction s arbitrary: w)
  case (Cons c cs)
  then show ?case by (auto split: list.splits if_splits)
qed simp

lemma split_on_single: "sep \<notin> set s \<Longrightarrow> split_on sep s = [s]"
  by (induction s) auto

lemma split_on_append: "sep \<notin> set a \<Longrightarrow> split_on sep (a @ sep # b) = a # split_on sep b"
  by (induction a) auto

text \<open>strings.Join.\<close>

fun join :: "string \<Rightarrow> string list \<Rightarrow> string" where
  "join sep [] = []"
| "join sep [w] = w"
| "join sep (w # v # ws) = w @ sep @ join sep (v # ws)"

section \<open>Decimal rendering (strconv.Itoa, the verb %d)\<close>

definition digit_char :: "nat \<Rightarrow> char" where
  "digit_char d = char_of (48 + d)"

fun show_nat :: "nat \<Rightarrow> string" where
  "show_nat n = (if n < 10 then [digit_char n] else show_nat (n div 10) @ [digit_char (n mod 10)])"

declare show_nat.simps [simp del]

definition is_digit :: "char \<Rightarrow> bool" where
  "is_digit c = (CHR ''0'' \<le> c \<and> c \<le> CHR ''9'')"

definition digit_val :: "char \<Rightarrow> nat" where
  "digit_val c = of_char c - 48"

definition nat_of_digits :: "string \<Rightarrow> nat" where
  "nat_of_digits = foldl (\<lambda>n c. 10 * n + digit_val c) 0"

lemma of_digit_char: "d < 10 \<Longrightarrow> of_char (digit_char d) = (48 + d :: nat)"
  by (simp add: digit_char_def)

lemma digit_val_digit_char [simp]: "d < 10 \<Longrightarrow> digit_val (digit_char d) = d"
  by (simp add: digit_val_def of_digit_char)

lemma is_digit_digit_char [simp]: "d < 10 \<Longrightarrow> is_digit (digit_char d)"
  by (simp add: is_digit_def less_eq_char_def of_digit_char)

lemma show_nat_not_Nil [simp]: "show_nat n \<noteq> []"
  by (subst show_nat.simps) simp

lemma show_nat_digits: "c \<in> set (show_nat n) \<Longrightarrow> is_digit c"
proof (induction n rule: show_nat.induct)
  case (1 n)
  then show ?case by (cases "n < 10") (auto simp: show_nat.simps [of n])
qed

lemma nat_of_digits_show_nat [simp]: "nat_of_digits (show_nat n) = n"
proof (induction n rule: show_nat.induct)
  case (1 n)
  show ?case
  proof (cases "n < 10")
    case True
    then show ?thesis by (simp add: show_nat.simps [of n] nat_of_digits_def)
  next
    case False
    with 1 have "nat_of_digits (show_nat (n div 10)) = n div 10" by simp
    with False show ?thesis by (simp add: show_nat.simps [of n] nat_of_digits_def)
  qed
qed

lemma show_nat_inject [simp]: "show_nat m = show_nat n \<longleftrightarrow> m = n"
  by (metis nat_of_digits_show_nat)

definition show_int :: "int \<Rightarrow> string" where
  "show_int i = (if i < 0 then CHR ''-'' # show_nat (nat (- i)) else show_nat (nat i))"

section \<open>Maps\<close>

text \<open>
  A Go map is an association list with distinct keys. Reading is \<open>map_of\<close>, writing is
  \<open>AList.update\<close> (the entry is replaced, or added at the end), delete is \<open>AList.delete\<close>.
  The order of the list stands for Go's unspecified iteration order.
\<close>

type_synonym ('k, 'v) gomap = "('k \<times> 'v) list"

abbreviation mput :: "'k \<Rightarrow> 'v \<Rightarrow> ('k, 'v) gomap \<Rightarrow> ('k, 'v) gomap" where
  "mput \<equiv> AList.update"

abbreviation mdel :: "'k \<Rightarrow> ('k, 'v) gomap \<Rightarrow> ('k, 'v) gomap" where
  "mdel \<equiv> AList.delete"

definition wf_map :: "('k, 'v) gomap \<Rightarrow> bool" where
  "wf_map m = distinct (map fst m)"

lemma map_of_mput [simp, go_simps]: "map_of (mput k v m) = (map_of m)(k \<mapsto> v)"
  by (rule AList.update_conv')

lemma map_of_mdel [simp, go_simps]: "map_of (mdel k m) = (map_of m)(k := None)"
  by (rule AList.delete_conv')

lemma wf_map_mput [simp, intro]: "wf_map m \<Longrightarrow> wf_map (mput k v m)"
  by (simp add: wf_map_def AList.distinct_update)

lemma wf_map_mdel [simp, intro]: "wf_map m \<Longrightarrow> wf_map (mdel k m)"
  by (simp add: wf_map_def AList.distinct_delete)

lemma wf_map_Nil [simp, intro]: "wf_map []"
  by (simp add: wf_map_def)

lemma wf_map_filter [simp, intro]: "wf_map m \<Longrightarrow> wf_map (filter P m)"
  by (simp add: wf_map_def distinct_map_filter)

lemma length_mput:
  "length (mput k v m) = (if k \<in> fst ` set m then length m else Suc (length m))"
  by (induction m) (auto simp: image_iff)

lemma length_mput_le: "length (mput k v m) \<le> Suc (length m)"
  by (simp add: length_mput)

lemma length_mdel_le: "length (mdel k m) \<le> length m"
  by (simp add: AList.delete_eq)

lemma set_mput_subset: "set (mput k v m) \<subseteq> insert (k, v) (set m)"
  by (induction m) auto

lemma set_mdel_subset: "set (mdel k m) \<subseteq> set m"
  by (auto simp: AList.delete_eq)

lemma map_of_filter_wf:
  "wf_map m \<Longrightarrow> map_of (filter (\<lambda>(k, v). P k v) m) k =
     (case map_of m k of None \<Rightarrow> None | Some v \<Rightarrow> if P k v then Some v else None)"
proof (induction m)
  case (Cons kv m)
  obtain a b where kv: "kv = (a, b)" by fastforce
  have nf: "a \<notin> fst ` set m" using Cons.prems kv by (simp add: wf_map_def)
  then have none: "map_of m a = None" by (simp add: map_of_eq_None_iff)
  have ih: "map_of (filter (\<lambda>(k, v). P k v) m) k =
      (case map_of m k of None \<Rightarrow> None | Some v \<Rightarrow> if P k v then Some v else None)"
    using Cons by (simp add: wf_map_def)
  show ?case using ih none kv by (auto split: option.splits)
qed simp

section \<open>Order-preserving deduplication\<close>

text \<open>
  The loop \<^verbatim>\<open>for _, m := range xs { if !seen[key(m)] { seen[key(m)] = true; out = append(out, m) } }\<close>
  that the catalogue merges of the program share: \<open>seen\<close> is the list of keys seen so far.
\<close>

fun dedup_by :: "('a \<Rightarrow> 'k) \<Rightarrow> 'k list \<Rightarrow> 'a list \<Rightarrow> 'a list" where
  "dedup_by key seen [] = []"
| "dedup_by key seen (x # xs) =
     (if key x \<in> set seen then dedup_by key seen xs
      else x # dedup_by key (key x # seen) xs)"

lemma dedup_by_subset: "set (dedup_by key seen xs) \<subseteq> set xs"
  by (induction key seen xs rule: dedup_by.induct) auto

lemma dedup_by_fresh: "key ` set (dedup_by key seen xs) \<inter> set seen = {}"
  by (induction key seen xs rule: dedup_by.induct) auto

lemma dedup_by_distinct: "distinct (map key (dedup_by key seen xs))"
  using dedup_by_fresh by (induction key seen xs rule: dedup_by.induct) fastforce+

lemma dedup_by_keys: "key ` set (dedup_by key seen xs) = key ` set xs - set seen"
  by (induction key seen xs rule: dedup_by.induct) auto

lemma dedup_by_length: "length (dedup_by key seen xs) \<le> length xs"
  by (induction key seen xs rule: dedup_by.induct) auto

lemma dedup_by_id:
  "distinct (map key xs) \<Longrightarrow> key ` set xs \<inter> set seen = {} \<Longrightarrow> dedup_by key seen xs = xs"
  by (induction xs arbitrary: seen) auto

lemma dedup_by_find:
  "find (\<lambda>x. key x = k) (dedup_by key seen xs) =
     (if k \<in> set seen then None else find (\<lambda>x. key x = k) xs)"
proof (induction key seen xs rule: dedup_by.induct)
  case (2 key seen x xs)
  then show ?case by (auto simp: find_None_iff)
qed simp

lemma dedup_by_append:
  "dedup_by key seen (xs @ ys) =
     dedup_by key seen xs @ dedup_by key (rev (map key (dedup_by key seen xs)) @ seen) ys"
  by (induction key seen xs rule: dedup_by.induct) auto

section \<open>First match\<close>

lemma find_append: "find P (xs @ ys) = (case find P xs of Some x \<Rightarrow> Some x | None \<Rightarrow> find P ys)"
  by (induction xs) auto

lemma find_filter: "find P xs = (case filter P xs of x # _ \<Rightarrow> Some x | [] \<Rightarrow> None)"
  by (induction xs) auto

lemma find_SomeD: "find P xs = Some x \<Longrightarrow> x \<in> set xs \<and> P x"
  by (auto simp: find_Some_iff)

end
