(* ===== verification/GoJson.thy ===== *)
theory GoJson
  imports Prelude Complex_Main "HOL-Library.Multiset"
begin

text \<open>
  The values that encoding/json decodes into \<^verbatim>\<open>any\<close> and \<^verbatim>\<open>map[string]any\<close>, the decoder
  (\<open>json_parse\<close>, json.Unmarshal into an empty interface), the encoder (\<open>json_print\<close>,
  json.Marshal: object keys in byte order, the HTML-safe escapes) and their round trip. Numbers are
  exact rationals instead of float64 (all the numbers the program computes with are token counts and
  the constant 0.95); the encoder writes decimals without an exponent; strings are byte lists, taken
  to be valid UTF-8. The second half gives the accessors that stand for Go's map reads and type
  assertions, and the locale of codecs that the request stages rely on.
\<close>

named_theorems json_simps \<open>reads of updated and of canonical documents\<close>

section \<open>Values\<close>

datatype json =
    JNull
  | JBool bool
  | JNum rat
  | JStr string
  | JArr "json list"
  | JObj "(string \<times> json) list"

section \<open>Encoder\<close>

abbreviation dq :: char where "dq \<equiv> CHR 0x22"
abbreviation bs :: char where "bs \<equiv> CHR 0x5C"

definition hex_char :: "nat \<Rightarrow> char" where
  "hex_char d = (if d < 10 then char_of (48 + d) else char_of (87 + d))"

definition u_escape :: "nat \<Rightarrow> string" where
  "u_escape n = [bs, CHR ''u'', hex_char (n div 4096 mod 16), hex_char (n div 256 mod 16),
                 hex_char (n div 16 mod 16), hex_char (n mod 16)]"

definition esc_char :: "char \<Rightarrow> string" where
  "esc_char c =
     (if c = dq then [bs, dq]
      else if c = bs then [bs, bs]
      else if c = CHR 0x0A then [bs, CHR ''n'']
      else if c = CHR 0x0D then [bs, CHR ''r'']
      else if c = CHR 0x09 then [bs, CHR ''t'']
      else if c = CHR 0x08 then [bs, CHR ''b'']
      else if c = CHR 0x0C then [bs, CHR ''f'']
      else if of_char c < (32::nat) \<or> c = CHR ''<'' \<or> c = CHR ''>'' \<or> c = CHR ''&''
        then u_escape (of_char c)
      else [c])"

text \<open>U+2028 and U+2029 (three bytes each in UTF-8) are escaped, too.\<close>

fun esc_str :: "string \<Rightarrow> string" where
  "esc_str [] = []"
| "esc_str (c # cs) =
     (if c = CHR 0xE2 \<and> take 2 cs = [CHR 0x80, CHR 0xA8] then u_escape 0x2028 @ esc_str (drop 2 cs)
      else if c = CHR 0xE2 \<and> take 2 cs = [CHR 0x80, CHR 0xA9] then u_escape 0x2029 @ esc_str (drop 2 cs)
      else esc_char c @ esc_str cs)"

definition print_str :: "string \<Rightarrow> string" where
  "print_str s = dq # esc_str s @ [dq]"

text \<open>The number of decimal places a denominator needs (float64 needs fewer than 1100).\<close>

fun places :: "nat \<Rightarrow> nat \<Rightarrow> int \<Rightarrow> nat" where
  "places 0 k q = k"
| "places (Suc n) k q = (if 10 ^ k mod q = 0 then k else places n (Suc k) q)"

definition is_decimal :: "rat \<Rightarrow> bool" where
  "is_decimal r = (let q = snd (quotient_of r) in 10 ^ places 1100 0 q mod q = 0)"

definition print_num :: "rat \<Rightarrow> string" where
  "print_num r =
     (let (p, q) = quotient_of r; k = places 1100 0 q;
          ds = show_nat (nat (\<bar>p\<bar> * 10 ^ k div q));
          ps = replicate (Suc k - length ds) (CHR ''0'') @ ds
      in (if p < 0 then [CHR ''-''] else []) @
         (if k = 0 then ps else take (length ps - k) ps @ CHR ''.'' # drop (length ps - k) ps))"

fun print_raw :: "json \<Rightarrow> string" where
  "print_raw JNull = ''null''"
| "print_raw (JBool b) = (if b then ''true'' else ''false'')"
| "print_raw (JNum r) = print_num r"
| "print_raw (JStr s) = print_str s"
| "print_raw (JArr xs) = CHR ''['' # join '','' (map print_raw xs) @ '']''"
| "print_raw (JObj kvs) =
     CHR ''{'' # join '','' (map (\<lambda>(k, v). print_str k @ CHR '':'' # print_raw v) kvs) @ ''}''"

fun canon :: "json \<Rightarrow> json" where
  "canon (JArr xs) = JArr (map canon xs)"
| "canon (JObj kvs) = JObj (sort_key fst (map (\<lambda>(k, v). (k, canon v)) kvs))"
| "canon v = v"

definition json_print :: "json \<Rightarrow> string" where
  "json_print v = print_raw (canon v)"

section \<open>Decoder\<close>

definition is_ws :: "char \<Rightarrow> bool" where
  "is_ws c = (c = CHR '' '' \<or> c = CHR 0x09 \<or> c = CHR 0x0A \<or> c = CHR 0x0D)"

definition skip_ws :: "string \<Rightarrow> string" where
  "skip_ws = dropWhile is_ws"

definition hex_val :: "char \<Rightarrow> nat option" where
  "hex_val c =
     (if is_digit c then Some (of_char c - 48)
      else if CHR ''a'' \<le> c \<and> c \<le> CHR ''f'' then Some (of_char c - 87)
      else if CHR ''A'' \<le> c \<and> c \<le> CHR ''F'' then Some (of_char c - 55)
      else None)"

fun hex4 :: "string \<Rightarrow> nat option" where
  "hex4 [a, b, c, d] =
     (case (hex_val a, hex_val b, hex_val c, hex_val d) of
        (Some w, Some x, Some y, Some z) \<Rightarrow> Some (4096 * w + 256 * x + 16 * y + z)
      | _ \<Rightarrow> None)"
| "hex4 _ = None"

definition utf8 :: "nat \<Rightarrow> string" where
  "utf8 n =
     (if n < 0x80 then [char_of n]
      else if n < 0x800 then [char_of (0xC0 + n div 64), char_of (0x80 + n mod 64)]
      else if n < 0x10000 then
        [char_of (0xE0 + n div 4096), char_of (0x80 + n div 64 mod 64), char_of (0x80 + n mod 64)]
      else [char_of (0xF0 + n div 262144), char_of (0x80 + n div 4096 mod 64),
            char_of (0x80 + n div 64 mod 64), char_of (0x80 + n mod 64)])"

definition unesc :: "char \<Rightarrow> char option" where
  "unesc e =
     (if e = dq \<or> e = bs \<or> e = CHR ''/'' then Some e
      else if e = CHR ''n'' then Some (CHR 0x0A) else if e = CHR ''r'' then Some (CHR 0x0D)
      else if e = CHR ''t'' then Some (CHR 0x09) else if e = CHR ''b'' then Some (CHR 0x08)
      else if e = CHR ''f'' then Some (CHR 0x0C) else None)"

text \<open>A surrogate pair is one code point; a lone surrogate becomes U+FFFD.\<close>

definition low_surrogate :: "string \<Rightarrow> nat option" where
  "low_surrogate ds =
     (if take 2 ds = [bs, CHR ''u'']
      then (case hex4 (take 4 (drop 2 ds)) of
              Some v \<Rightarrow> if 0xDC00 \<le> v \<and> v < 0xE000 then Some v else None
            | None \<Rightarrow> None)
      else None)"

definition prepend :: "string \<Rightarrow> (string \<times> string) option \<Rightarrow> (string \<times> string) option" where
  "prepend w = map_option (\<lambda>(s, r). (w @ s, r))"

fun parse_str :: "string \<Rightarrow> (string \<times> string) option" where
  "parse_str [] = None"
| "parse_str (c # cs) =
     (if c = dq then Some ([], cs)
      else if c = bs then
        (case cs of
           [] \<Rightarrow> None
         | e # ds \<Rightarrow>
             if e = CHR ''u'' then
               (case hex4 (take 4 ds) of
                  None \<Rightarrow> None
                | Some u \<Rightarrow>
                    if 0xD800 \<le> u \<and> u < 0xDC00 then
                      (case low_surrogate (drop 4 ds) of
                         Some v \<Rightarrow> prepend (utf8 (0x10000 + (u - 0xD800) * 1024 + (v - 0xDC00)))
                                     (parse_str (drop 10 ds))
                       | None \<Rightarrow> prepend (utf8 0xFFFD) (parse_str (drop 4 ds)))
                    else if 0xDC00 \<le> u \<and> u < 0xE000
                      then prepend (utf8 0xFFFD) (parse_str (drop 4 ds))
                    else prepend (utf8 u) (parse_str (drop 4 ds)))
             else (case unesc e of None \<Rightarrow> None | Some x \<Rightarrow> prepend [x] (parse_str ds)))
      else if of_char c < (32::nat) then None
      else prepend [c] (parse_str cs))"

definition parse_frac :: "string \<Rightarrow> (string \<times> string) option" where
  "parse_frac s =
     (case s of
        c # cs \<Rightarrow>
          if c = CHR ''.''
          then (let fs = takeWhile is_digit cs in if fs = [] then None else Some (fs, dropWhile is_digit cs))
          else Some ([], s)
      | [] \<Rightarrow> Some ([], s))"

definition parse_exp :: "string \<Rightarrow> (int \<times> string) option" where
  "parse_exp s =
     (case s of
        c # cs \<Rightarrow>
          if c = CHR ''e'' \<or> c = CHR ''E'' then
            (let neg = (take 1 cs = ''-'');
                 ds = (if take 1 cs = ''-'' \<or> take 1 cs = ''+'' then drop 1 cs else cs);
                 es = takeWhile is_digit ds
             in if es = [] then None
                else Some ((if neg then - 1 else 1) * int (nat_of_digits es), dropWhile is_digit ds))
          else Some (0, s)
      | [] \<Rightarrow> Some (0, s))"

definition scale10 :: "rat \<Rightarrow> int \<Rightarrow> rat" where
  "scale10 r e = (if 0 \<le> e then r * 10 ^ nat e else r / 10 ^ nat (- e))"

text \<open>
  Decimals with more than 1100 places are cut there: float64 resolves no more than 1074 of them.
\<close>

definition round_dec :: "nat \<Rightarrow> int \<Rightarrow> rat \<Rightarrow> rat" where
  "round_dec fl e r = (if int fl - e \<le> 1100 then r else of_int \<lfloor>r * 10 ^ 1100\<rfloor> / 10 ^ 1100)"

definition parse_num :: "string \<Rightarrow> (rat \<times> string) option" where
  "parse_num s =
     (let neg = (take 1 s = ''-''); s1 = (if neg then drop 1 s else s);
          ds = takeWhile is_digit s1
      in if ds = [] \<or> (hd ds = CHR ''0'' \<and> 1 < length ds) then None
         else (case parse_frac (dropWhile is_digit s1) of
                 None \<Rightarrow> None
               | Some (fs, r) \<Rightarrow>
                   (case parse_exp r of
                      None \<Rightarrow> None
                    | Some (e, r') \<Rightarrow>
                        let v = round_dec (length fs) e
                                  (scale10 (of_nat (nat_of_digits (ds @ fs)) / 10 ^ length fs) e)
                        in Some ((if neg then - v else v), r'))))"

text \<open>Every call spends one unit of fuel; the length of the input plus one is always enough.\<close>

fun parse_value :: "nat \<Rightarrow> string \<Rightarrow> (json \<times> string) option"
and parse_elems :: "nat \<Rightarrow> json list \<Rightarrow> string \<Rightarrow> (json \<times> string) option"
and parse_members :: "nat \<Rightarrow> (string \<times> json) list \<Rightarrow> string \<Rightarrow> (json \<times> string) option" where
  "parse_value 0 s = None"
| "parse_value (Suc f) s =
     (case skip_ws s of
        [] \<Rightarrow> None
      | c # cs \<Rightarrow>
          if c = CHR ''{'' then
            (case skip_ws cs of
               [] \<Rightarrow> None
             | d # ds \<Rightarrow> if d = CHR ''}'' then Some (JObj [], ds) else parse_members f [] (d # ds))
          else if c = CHR ''['' then
            (case skip_ws cs of
               [] \<Rightarrow> None
             | d # ds \<Rightarrow> if d = CHR '']'' then Some (JArr [], ds) else parse_elems f [] (d # ds))
          else if c = dq then map_option (\<lambda>(w, r). (JStr w, r)) (parse_str cs)
          else if prefix ''true'' (c # cs) then Some (JBool True, drop 4 (c # cs))
          else if prefix ''false'' (c # cs) then Some (JBool False, drop 5 (c # cs))
          else if prefix ''null'' (c # cs) then Some (JNull, drop 4 (c # cs))
          else map_option (\<lambda>(n, r). (JNum n, r)) (parse_num (c # cs)))"
| "parse_elems 0 acc s = None"
| "parse_elems (Suc f) acc s =
     (case parse_value f s of
        None \<Rightarrow> None
      | Some (v, r) \<Rightarrow>
          (case skip_ws r of
             [] \<Rightarrow> None
           | d # ds \<Rightarrow>
               if d = CHR '','' then parse_elems f (acc @ [v]) ds
               else if d = CHR '']'' then Some (JArr (acc @ [v]), ds)
               else None))"
| "parse_members 0 acc s = None"
| "parse_members (Suc f) acc s =
     (case skip_ws s of
        [] \<Rightarrow> None
      | q # qs \<Rightarrow>
          if q \<noteq> dq then None
          else (case parse_str qs of
                  None \<Rightarrow> None
                | Some (k, r) \<Rightarrow>
                    (case skip_ws r of
                       [] \<Rightarrow> None
                     | c # vs \<Rightarrow>
                         if c \<noteq> CHR '':'' then None
                         else (case parse_value f vs of
                                 None \<Rightarrow> None
                               | Some (v, r') \<Rightarrow>
                                   (case skip_ws r' of
                                      [] \<Rightarrow> None
                                    | d # ds \<Rightarrow>
                                        if d = CHR '','' then parse_members f (mput k v acc) ds
                                        else if d = CHR ''}'' then Some (JObj (mput k v acc), ds)
                                        else None)))))"

definition json_parse :: "string \<Rightarrow> json option" where
  "json_parse s =
     (case parse_value (Suc (length s)) s of
        Some (v, r) \<Rightarrow> if skip_ws r = [] then Some v else None
      | None \<Rightarrow> None)"

section \<open>Reads, writes and type assertions on decoded values\<close>

text \<open>
  \<^verbatim>\<open>m[k]\<close> on a value that is not a map reads as absent (Go: the failed assertion to
  \<^verbatim>\<open>map[string]any\<close> gives a nil map). Writes to a nil map never happen in the program:
  every write is guarded by a check that the value is a map.
\<close>

fun jget :: "json \<Rightarrow> string \<Rightarrow> json option" where
  "jget (JObj m) k = map_of m k"
| "jget _ k = None"

fun jset :: "string \<Rightarrow> json \<Rightarrow> json \<Rightarrow> json" where
  "jset k v (JObj m) = JObj (mput k v m)"
| "jset k v x = x"

fun jdel :: "string \<Rightarrow> json \<Rightarrow> json" where
  "jdel k (JObj m) = JObj (mdel k m)"
| "jdel k x = x"

fun is_obj :: "json \<Rightarrow> bool" where
  "is_obj (JObj m) = True"
| "is_obj _ = False"

definition has_key :: "json \<Rightarrow> string \<Rightarrow> bool" where
  "has_key v k = (jget v k \<noteq> None)"

definition str_at :: "json \<Rightarrow> string \<Rightarrow> string" where
  "str_at v k = (case jget v k of Some (JStr s) \<Rightarrow> s | _ \<Rightarrow> [])"

definition arr_at :: "json \<Rightarrow> string \<Rightarrow> json list option" where
  "arr_at v k = (case jget v k of Some (JArr xs) \<Rightarrow> Some xs | _ \<Rightarrow> None)"

definition obj_at :: "json \<Rightarrow> string \<Rightarrow> json option" where
  "obj_at v k = (case jget v k of Some (JObj m) \<Rightarrow> Some (JObj m) | _ \<Rightarrow> None)"

definition bool_at :: "json \<Rightarrow> string \<Rightarrow> bool" where
  "bool_at v k = (case jget v k of Some (JBool b) \<Rightarrow> b | _ \<Rightarrow> False)"

definition num_at :: "json \<Rightarrow> string \<Rightarrow> rat option" where
  "num_at v k = (case jget v k of Some (JNum r) \<Rightarrow> Some r | _ \<Rightarrow> None)"

text \<open>json.Unmarshal into \<^verbatim>\<open>map[string]any\<close>: an object, or null (the nil map); anything else is an error.\<close>

definition unmarshal_map :: "string \<Rightarrow> json option" where
  "unmarshal_map body =
     (case json_parse body of
        Some (JObj m) \<Rightarrow> Some (JObj m)
      | Some JNull \<Rightarrow> Some JNull
      | _ \<Rightarrow> None)"

text \<open>
  The frame that the request stages share: an empty body passes through, an undecodable one is an
  error with the stage's message, otherwise the decoded document goes through \<open>f\<close>, whose
  \<open>None\<close> means that the body is returned as it came and \<open>Some\<close> that the new document is encoded.
\<close>

definition json_stage :: "string \<Rightarrow> (json \<Rightarrow> json option) \<Rightarrow> string \<Rightarrow> string res" where
  "json_stage msg f body =
     (if body = [] then Inr body
      else case unmarshal_map body of
             None \<Rightarrow> Inl msg
           | Some raw \<Rightarrow> (case f raw of None \<Rightarrow> Inr body | Some raw' \<Rightarrow> Inr (json_print raw')))"

text \<open>The document after a stage.\<close>

definition apply_doc :: "(json \<Rightarrow> json option) \<Rightarrow> json \<Rightarrow> json" where
  "apply_doc f v = (case f v of None \<Rightarrow> v | Some r \<Rightarrow> r)"

text \<open>A token between double quotes, as the byte-level fast paths look for it.\<close>

definition quoted :: "string \<Rightarrow> string" where
  "quoted s = dq # s @ [dq]"

section \<open>Well-formedness\<close>

text \<open>Distinct keys in every object, and numbers that a decimal can write.\<close>

fun wf_json :: "json \<Rightarrow> bool" where
  "wf_json (JNum r) = is_decimal r"
| "wf_json (JArr xs) = (\<forall>x \<in> set xs. wf_json x)"
| "wf_json (JObj kvs) = (wf_map kvs \<and> (\<forall>(k, v) \<in> set kvs. wf_json v))"
| "wf_json v = True"

fun fuel_need :: "json \<Rightarrow> nat" where
  "fuel_need (JArr xs) = Suc (sum_list (map (\<lambda>x. Suc (fuel_need x)) xs))"
| "fuel_need (JObj kvs) = Suc (sum_list (map (\<lambda>(k, v). Suc (fuel_need v)) kvs))"
| "fuel_need v = 1"

text \<open>What may follow a number, and what a printed value starts with.\<close>

definition num_stop :: "string \<Rightarrow> bool" where
  "num_stop r = (case r of [] \<Rightarrow> True
     | c # _ \<Rightarrow> \<not> is_digit c \<and> c \<noteq> CHR ''.'' \<and> c \<noteq> CHR ''e'' \<and> c \<noteq> CHR ''E'')"

definition value_start :: "char \<Rightarrow> bool" where
  "value_start c = (\<not> is_ws c \<and> c \<noteq> CHR '']'' \<and> c \<noteq> CHR ''}'' \<and> c \<noteq> CHR '','')"

section \<open>Round trip\<close>

subsection \<open>Strings\<close>

lemma hex_val_hex_char: "d < 16 \<Longrightarrow> hex_val (hex_char d) = Some d"
  by (auto simp: hex_val_def hex_char_def is_digit_def less_eq_char_def)

lemma hex4_u_escape: "n < 65536 \<Longrightarrow> hex4 (drop 2 (u_escape n)) = Some n"
proof -
  assume n: "n < 65536"
  define a where "a = n div 16"
  define b where "b = a div 16"
  have d: "n div 256 = b" "n div 4096 = b div 16" by (simp_all add: a_def b_def flip: div_mult2_eq)
  have "n = 16 * a + n mod 16" "a = 16 * b + a mod 16" "b = 16 * (b div 16) + b mod 16"
    by (simp_all add: a_def b_def)
  then have "4096 * (b div 16) + 256 * (b mod 16) + 16 * (a mod 16) + n mod 16 = n"
    by linarith
  then have "4096 * (n div 4096) + 256 * (n div 256 mod 16) + 16 * (n div 16 mod 16) + n mod 16 = n"
    by (simp add: d a_def)
  with n show ?thesis by (simp add: u_escape_def hex_val_hex_char)
qed

lemma parse_str_u_escape:
  assumes "n < 0xD800"
  shows "parse_str (u_escape n @ s) = prepend (utf8 n) (parse_str s)"
proof -
  let ?h = "[hex_char (n div 4096 mod 16), hex_char (n div 256 mod 16),
     hex_char (n div 16 mod 16), hex_char (n mod 16)]"
  have "hex4 ?h = Some n" using hex4_u_escape [of n] assms by (simp add: u_escape_def)
  then show ?thesis using assms by (simp add: u_escape_def)
qed

lemma utf8_ascii: "of_char c < (128::nat) \<Longrightarrow> utf8 (of_char c) = [c]"
  by (simp add: utf8_def)

lemma parse_str_esc_char:
  "parse_str (esc_char c @ s) = prepend [c] (parse_str s)"
proof (cases "of_char c < (32::nat) \<or> c = CHR ''<'' \<or> c = CHR ''>'' \<or> c = CHR ''&''")
  case True
  then have "of_char c < (128::nat)" by auto
  then have "utf8 (of_char c) = [c]" and "of_char c < (0xD800::nat)" by (simp_all add: utf8_ascii)
  then show ?thesis using True
    by (auto simp: esc_char_def parse_str_u_escape unesc_def)
next
  case False
  then show ?thesis by (auto simp: esc_char_def unesc_def)
qed

lemma utf8_2028: "utf8 0x2028 = [CHR 0xE2, CHR 0x80, CHR 0xA8]"
  "utf8 0x2029 = [CHR 0xE2, CHR 0x80, CHR 0xA9]"
proof -
  have "of_char (CHR 0xE2) = (226::nat)" "of_char (CHR 0x80) = (128::nat)"
    "of_char (CHR 0xA8) = (168::nat)" "of_char (CHR 0xA9) = (169::nat)" by simp_all
  then have "char_of (226::nat) = CHR 0xE2" "char_of (128::nat) = CHR 0x80"
    "char_of (168::nat) = CHR 0xA8" "char_of (169::nat) = CHR 0xA9" by (metis char_of_char)+
  then show "utf8 0x2028 = [CHR 0xE2, CHR 0x80, CHR 0xA8]" "utf8 0x2029 = [CHR 0xE2, CHR 0x80, CHR 0xA9]"
    by (simp_all add: utf8_def)
qed

lemma parse_str_esc_str: "parse_str (esc_str s @ dq # rest) = Some (s, rest)"
proof (induction s rule: esc_str.induct)
  case 1
  then show ?case by simp
next
  case (2 c cs)
  have eq: "cs = take 2 cs @ drop 2 cs" by simp
  consider (a) "c = CHR 0xE2" "take 2 cs = [CHR 0x80, CHR 0xA8]"
    | (b) "c = CHR 0xE2" "take 2 cs = [CHR 0x80, CHR 0xA9]"
    | (z) "\<not> (c = CHR 0xE2 \<and> take 2 cs = [CHR 0x80, CHR 0xA8])"
          "\<not> (c = CHR 0xE2 \<and> take 2 cs = [CHR 0x80, CHR 0xA9])" by blast
  then show ?case
  proof cases
    case a
    with 2 have "parse_str (esc_str (drop 2 cs) @ dq # rest) = Some (drop 2 cs, rest)" by blast
    with a show ?thesis
      by (subst eq, subst (2) eq)
         (simp del: append_take_drop_id parse_str.simps add: parse_str_u_escape utf8_2028 prepend_def)
  next
    case b
    with 2 have "parse_str (esc_str (drop 2 cs) @ dq # rest) = Some (drop 2 cs, rest)" by auto
    with b show ?thesis
      by (subst eq, subst (2) eq)
         (simp del: append_take_drop_id parse_str.simps add: parse_str_u_escape utf8_2028 prepend_def)
  next
    case z
    with 2 have ih: "parse_str (esc_str cs @ dq # rest) = Some (cs, rest)" by blast
    have e: "esc_str (c # cs) = esc_char c @ esc_str cs" using z by auto
    show ?thesis unfolding e by (simp add: parse_str_esc_char ih prepend_def del: esc_str.simps parse_str.simps)
  qed
qed

subsection \<open>Numbers\<close>

lemma nat_of_digits_append:
  "nat_of_digits (a @ b) = nat_of_digits a * 10 ^ length b + nat_of_digits b"
proof (induction b rule: rev_induct)
  case Nil
  then show ?case by (simp add: nat_of_digits_def)
next
  case (snoc c b)
  have step: "nat_of_digits (xs @ [c]) = 10 * nat_of_digits xs + digit_val c" for xs
    by (simp add: nat_of_digits_def)
  show ?case using snoc step [of "a @ b"] step [of b] by (simp add: algebra_simps)
qed

lemma nat_of_digits_zeros [simp]: "nat_of_digits (replicate n (CHR ''0'')) = 0"
  by (induction n) (auto simp: nat_of_digits_def digit_val_def)

lemma show_nat_hd: "n > 0 \<Longrightarrow> hd (show_nat n) \<noteq> CHR ''0''"
proof (induction n rule: show_nat.induct)
  case (1 n)
  show ?case
  proof (cases "n < 10")
    case True
    then have "of_char (hd (show_nat n)) \<noteq> (of_char (CHR ''0'') :: nat)"
      using 1 by (simp add: show_nat.simps [of n] of_digit_char)
    then show ?thesis by metis
  next
    case False
    then show ?thesis using 1 by (simp add: show_nat.simps [of n])
  qed
qed

lemma takeWhile_digits: "\<forall>c\<in>set ds. is_digit c \<Longrightarrow> (r = [] \<or> \<not> is_digit (hd r)) \<Longrightarrow>
    takeWhile is_digit (ds @ r) = ds \<and> dropWhile is_digit (ds @ r) = r"
  by (cases r) (auto simp: takeWhile_append2 dropWhile_append2)

lemma places_dvd: "10 ^ k mod q = 0 \<Longrightarrow> 10 ^ places n k q mod q = 0"
  by (cases n) auto

lemma places_le: "places n k q \<le> n + k"
  by (induction n k q rule: places.induct) auto

lemma places_found:
  "10 ^ j mod q = 0 \<Longrightarrow> k \<le> j \<Longrightarrow> j \<le> n + k \<Longrightarrow> 10 ^ places n k q mod q = 0"
proof (induction n k q rule: places.induct)
  case (2 n k q)
  then show ?case by (cases "k = j") auto
qed simp

lemma is_decimalI: "j \<le> 1100 \<Longrightarrow> is_decimal (of_int i / 10 ^ j)"
proof -
  assume j: "j \<le> 1100"
  define r :: rat where "r = of_int i / 10 ^ j"
  obtain p q where pq: "quotient_of r = (p, q)" by fastforce
  have q0: "q > 0" using pq by (rule quotient_of_denom_pos)
  have "r = of_int p / of_int q" using quotient_of_div [OF pq] .
  then have "of_int p * 10 ^ j = (of_int i * of_int q :: rat)"
    using q0 by (simp add: r_def field_simps)
  then have "of_int (p * 10 ^ j) = (of_int (i * q) :: rat)" by simp
  then have "p * 10 ^ j = i * q" by (simp only: of_int_eq_iff)
  then have "q dvd p * 10 ^ j" by simp
  moreover have "coprime q p" using quotient_of_coprime [OF pq] by (simp add: coprime_commute)
  ultimately have "q dvd 10 ^ j" by (simp add: coprime_dvd_mult_right_iff)
  then have "10 ^ places 1100 0 q mod q = 0" using j by (intro places_found [of j]) auto
  then show ?thesis using pq by (simp add: is_decimal_def Let_def flip: r_def)
qed

lemma is_decimal_int: "is_decimal (of_int i)"
  by (simp add: is_decimal_def quotient_of_int)

lemma minus_not_digit [simp]: "\<not> is_digit (CHR ''-'')"
  by (simp add: is_digit_def)

lemma parse_num_print_num:
  assumes dec: "is_decimal r" and stop: "num_stop rest"
  shows "parse_num (print_num r @ rest) = Some (r, rest)"
proof -
  obtain p q where pq: "quotient_of r = (p, q)" by fastforce
  define k where "k = places 1100 0 q"
  define n where "n = nat (\<bar>p\<bar> * 10 ^ k div q)"
  define ps where "ps = replicate (Suc k - length (show_nat n)) (CHR ''0'') @ show_nat n"
  define ip where "ip = take (length ps - k) ps"
  define fs where "fs = drop (length ps - k) ps"
  have q0: "q > 0" using pq by (rule quotient_of_denom_pos)
  have "q dvd 10 ^ k" using dec pq by (simp add: is_decimal_def k_def Let_def mod_eq_0_iff_dvd)
  then have "q dvd \<bar>p\<bar> * 10 ^ k" by simp
  then have "int n * q = \<bar>p\<bar> * 10 ^ k" using q0 by (simp add: n_def pos_imp_zdiv_nonneg_iff)
  then have "of_int (int n * q) = (of_int (\<bar>p\<bar> * 10 ^ k) :: rat)" by (rule arg_cong)
  then have nv: "of_nat n / 10 ^ k = (\<bar>of_int p\<bar> / of_int q :: rat)"
    using q0 by (simp add: field_simps)
  have dg: "\<forall>c\<in>set ps. is_digit c" using show_nat_digits by (auto simp: ps_def is_digit_def)
  have lps: "length ps \<ge> Suc k" by (simp add: ps_def)
  have lfs: "length fs = k" using lps by (simp add: fs_def)
  have app: "ip @ fs = ps" by (simp add: ip_def fs_def)
  have ip0: "ip \<noteq> []" using lps by (auto simp: ip_def)
  have val: "nat_of_digits (ip @ fs) = n"
    by (simp add: app) (simp add: ps_def nat_of_digits_append)
  have lead: "\<not> (hd ip = CHR ''0'' \<and> 1 < length ip)"
  proof
    assume a: "hd ip = CHR ''0'' \<and> 1 < length ip"
    then have len: "length ps > Suc k" by (auto simp: ip_def)
    then have "ps = show_nat n" by (auto simp: ps_def split: if_splits)
    with a ip0 have h0: "hd (show_nat n) = CHR ''0''" by (metis app hd_append2)
    have "n > 0" using \<open>ps = show_nat n\<close> len by (cases "n = 0") (auto simp: show_nat.simps [of 0])
    with show_nat_hd h0 show False by blast
  qed
  have rt: "rest = [] \<or> \<not> is_digit (hd rest)" using stop by (cases rest) (auto simp: num_stop_def)
  have pe: "parse_exp rest = Some (0, rest)"
    using stop by (cases rest) (auto simp: num_stop_def parse_exp_def)
  define body where "body = (if k = 0 then ps else ip @ CHR ''.'' # fs) @ rest"
  have pr: "print_num r @ rest = (if p < 0 then [CHR ''-''] else []) @ body"
    by (simp add: print_num_def pq Let_def body_def ip_def fs_def ps_def n_def k_def)
  have dgi: "\<forall>c\<in>set ip. is_digit c" "\<forall>c\<in>set fs. is_digit c" using dg app by (metis UnCI set_append)+
  have pf: "takeWhile is_digit body = ip \<and> parse_frac (dropWhile is_digit body) = Some (fs, rest)"
  proof (cases "k = 0")
    case True
    then have "fs = []" using lfs by simp
    moreover have "ip = ps" using app \<open>fs = []\<close> by simp
    moreover have "parse_frac rest = Some ([], rest)"
      using stop by (cases rest) (auto simp: num_stop_def parse_frac_def)
    ultimately show ?thesis using True takeWhile_digits [OF dgi(1) rt] by (simp add: body_def)
  next
    case False
    then have f0: "fs \<noteq> []" using lfs by auto
    have "is_digit (CHR ''.'') = False" by (simp add: is_digit_def)
    then have "takeWhile is_digit body = ip \<and> dropWhile is_digit body = CHR ''.'' # fs @ rest"
      using False takeWhile_digits [OF dgi(1), of "CHR ''.'' # fs @ rest"] by (simp add: body_def)
    then show ?thesis using f0 takeWhile_digits [OF dgi(2) rt] by (simp add: parse_frac_def Let_def)
  qed
  have hb: "take 1 body \<noteq> ''-''"
  proof -
    have "body = hd ip # tl ip @ (if k = 0 then fs else CHR ''.'' # fs) @ rest"
      using ip0 app by (auto simp: body_def)
    moreover have "is_digit (hd ip)" using dgi ip0 by simp
    ultimately show ?thesis by auto
  qed
  have "k \<le> 1100" using places_le [of 1100 0 q] by (simp add: k_def)
  then have v: "round_dec (length fs) 0 (scale10 (of_nat (nat_of_digits (ip @ fs)) / 10 ^ length fs) 0) =
      \<bar>of_int p\<bar> / of_int q"
    by (simp add: val lfs nv scale10_def round_dec_def)
  have rv: "r = of_int p / of_int q" using quotient_of_div [OF pq] by simp
  have core: "parse_num (print_num r @ rest) =
     Some ((if p < 0 then - (\<bar>of_int p\<bar> / of_int q) else \<bar>of_int p\<bar> / of_int q), rest)"
    unfolding pr using hb pf ip0 lead v by (cases "p < 0") (simp_all add: parse_num_def Let_def pe)
  then show ?thesis by (auto simp: rv)
qed

subsection \<open>Values\<close>

lemma print_num_head: "is_decimal r \<Longrightarrow> \<exists>c cs. print_num r = c # cs \<and> (is_digit c \<or> c = CHR ''-'')"
proof -
  obtain p q where pq: "quotient_of r = (p, q)" by fastforce
  define k where "k = places 1100 0 q"
  define ds where "ds = show_nat (nat (\<bar>p\<bar> * 10 ^ k div q))"
  define ps where "ps = replicate (Suc k - length ds) (CHR ''0'') @ ds"
  have "length ps \<ge> Suc k" by (simp add: ps_def)
  then have "take (length ps - k) ps \<noteq> []" "ps \<noteq> []" by auto
  then obtain c cs ds' where c: "ps = c # cs" "take (length ps - k) ps = c # ds'"
    by (metis list.exhaust take_eq_Nil take_Cons' list.inject)
  have "\<forall>c\<in>set ps. is_digit c" using show_nat_digits by (auto simp: ps_def ds_def is_digit_def)
  then have "is_digit c" using c by simp
  moreover have "print_num r = (if p < 0 then [CHR ''-''] else []) @
      (if k = 0 then ps else take (length ps - k) ps @ CHR ''.'' # drop (length ps - k) ps)"
    by (simp add: print_num_def pq Let_def k_def ds_def ps_def)
  ultimately show ?thesis using c by auto
qed

lemma print_raw_head: "wf_json v \<Longrightarrow> \<exists>c cs. print_raw v = c # cs \<and> value_start c"
proof (cases v)
  case (JNum r)
  assume "wf_json v"
  with JNum print_num_head [of r] show ?thesis
    by (auto simp: value_start_def is_ws_def is_digit_def)
qed (auto simp: value_start_def is_ws_def print_str_def)

lemma skip_ws_Cons [simp]: "skip_ws (c # cs) = (if is_ws c then skip_ws cs else c # cs)"
  by (simp add: skip_ws_def)

lemma skip_ws_value: "wf_json v \<Longrightarrow> skip_ws (print_raw v @ r) = print_raw v @ r"
  using print_raw_head [of v] by (auto simp: value_start_def)

lemma is_ws_punct [simp]:
  "\<not> is_ws (CHR '','')" "\<not> is_ws (CHR '']'')" "\<not> is_ws (CHR ''}'')" "\<not> is_ws (CHR '':'')"
  "\<not> is_ws (CHR ''['')" "\<not> is_ws (CHR ''{'')" "\<not> is_ws dq"
  by (simp_all add: is_ws_def)

lemma num_stop_punct [simp]:
  "num_stop (CHR '','' # r)" "num_stop (CHR '']'' # r)" "num_stop (CHR ''}'' # r)" "num_stop []"
  by (simp_all add: num_stop_def is_digit_def)

lemma join_Cons: "join sep (x # xs) = (if xs = [] then x else x @ sep @ join sep xs)"
  by (cases xs) auto

lemma parse_elems_join:
  assumes "\<And>x f r. x \<in> set xs \<Longrightarrow> fuel_need x \<le> f \<Longrightarrow> num_stop r \<Longrightarrow> parse_value f (print_raw x @ r) = Some (x, r)"
    and "xs \<noteq> []" and "sum_list (map (\<lambda>x. Suc (fuel_need x)) xs) \<le> f"
  shows "parse_elems f acc (join '','' (map print_raw xs) @ CHR '']'' # r) = Some (JArr (acc @ xs), r)"
  using assms
proof (induction xs arbitrary: f acc)
  case (Cons x xs)
  then obtain g where g: "f = Suc g" "fuel_need x \<le> g"
    "sum_list (map (\<lambda>x. Suc (fuel_need x)) xs) \<le> g" by (cases f) auto
  show ?case
  proof (cases "xs = []")
    case True
    then show ?thesis using Cons.prems(1) [of x g "CHR '']'' # r"] g by simp
  next
    case False
    let ?rest = "CHR '','' # join '','' (map print_raw xs) @ CHR '']'' # r"
    have "parse_value g (print_raw x @ ?rest) = Some (x, ?rest)"
      using Cons.prems(1) [of x g ?rest] g by simp
    moreover have "parse_elems g (acc @ [x]) (join '','' (map print_raw xs) @ CHR '']'' # r) =
        Some (JArr ((acc @ [x]) @ xs), r)"
      using Cons.prems g False by (intro Cons.IH) auto
    ultimately show ?thesis using g False by (simp add: join_Cons)
  qed
qed simp

abbreviation print_member :: "string \<times> json \<Rightarrow> string" where
  "print_member \<equiv> (\<lambda>(k, v). print_str k @ CHR '':'' # print_raw v)"

lemma mput_fresh: "k \<notin> fst ` set m \<Longrightarrow> mput k v m = m @ [(k, v)]"
  by (induction m) auto

lemma parse_members_join:
  assumes "\<And>k v f r. (k, v) \<in> set kvs \<Longrightarrow> fuel_need v \<le> f \<Longrightarrow> num_stop r \<Longrightarrow> parse_value f (print_raw v @ r) = Some (v, r)"
    and "kvs \<noteq> []" and "sum_list (map (\<lambda>(k, v). Suc (fuel_need v)) kvs) \<le> f"
    and "wf_map (acc @ kvs)"
  shows "parse_members f acc (join '','' (map print_member kvs) @ CHR ''}'' # r) = Some (JObj (acc @ kvs), r)"
  using assms
proof (induction kvs arbitrary: f acc)
  case (Cons kv kvs)
  obtain k v where kv: "kv = (k, v)" by fastforce
  obtain g where g: "f = Suc g" "fuel_need v \<le> g"
    "sum_list (map (\<lambda>(k, v). Suc (fuel_need v)) kvs) \<le> g" using Cons.prems(3) kv by (cases f) auto
  have "k \<notin> fst ` set acc" using Cons.prems(4) kv by (auto simp: wf_map_def)
  then have put: "mput k v acc = acc @ [kv]" by (simp add: mput_fresh kv)
  have head: "print_member kv @ s = dq # esc_str k @ dq # CHR '':'' # print_raw v @ s" for s
    by (simp add: kv print_str_def)
  show ?case
  proof (cases "kvs = []")
    case True
    then show ?thesis
      using Cons.prems(1) [of k v g "CHR ''}'' # r"] g head [of "CHR ''}'' # r"] kv put
      by (simp add: parse_str_esc_str)
  next
    case False
    let ?rest = "CHR '','' # join '','' (map print_member kvs) @ CHR ''}'' # r"
    have "parse_value g (print_raw v @ ?rest) = Some (v, ?rest)"
      using Cons.prems(1) [of k v g ?rest] g kv by simp
    moreover have "parse_members g (acc @ [kv]) (join '','' (map print_member kvs) @ CHR ''}'' # r) =
        Some (JObj ((acc @ [kv]) @ kvs), r)"
      using Cons.prems g False kv by (intro Cons.IH) auto
    ultimately show ?thesis using g False head [of ?rest] put
      by (simp add: join_Cons parse_str_esc_str kv)
  qed
qed simp

lemma parse_value_print_raw:
  "wf_json v \<Longrightarrow> fuel_need v \<le> f \<Longrightarrow> num_stop r \<Longrightarrow> parse_value f (print_raw v @ r) = Some (v, r)"
proof (induction v arbitrary: f r)
  case JNull
  then show ?case by (cases f) (auto simp: is_ws_def)
next
  case (JBool b)
  then show ?case by (cases f) (auto simp: is_ws_def)
next
  case (JNum x)
  then obtain c cs where c: "print_num x = c # cs" "is_digit c \<or> c = CHR ''-''"
    using print_num_head [of x] by auto
  then have "\<not> is_ws c" "c \<noteq> CHR ''{''" "c \<noteq> CHR ''[''" "c \<noteq> dq" "c \<noteq> CHR ''t''" "c \<noteq> CHR ''f''" "c \<noteq> CHR ''n''"
    by (auto simp: is_ws_def is_digit_def)
  moreover have "parse_num (c # cs @ r) = Some (x, r)"
    using parse_num_print_num [of x r] JNum c by simp
  ultimately show ?case using JNum c by (cases f) auto
next
  case (JStr s)
  then show ?case by (cases f) (auto simp: print_str_def parse_str_esc_str)
next
  case (JArr xs)
  then obtain g where g: "f = Suc g" "sum_list (map (\<lambda>x. Suc (fuel_need x)) xs) \<le> g" by (cases f) auto
  show ?case
  proof (cases "xs = []")
    case True
    then show ?thesis using g by simp
  next
    case False
    then have e: "parse_elems g [] (join '','' (map print_raw xs) @ CHR '']'' # r) = Some (JArr xs, r)"
      using parse_elems_join [of xs g "[]" r] JArr g by auto
    obtain x xs' where xs: "xs = x # xs'" using False by (cases xs) auto
    then obtain c cs where c: "print_raw x = c # cs" "value_start c"
      using print_raw_head [of x] JArr.prems by auto
    then obtain cs' where "join '','' (map print_raw xs) = c # cs'"
      by (cases "xs' = []") (auto simp: xs join_Cons)
    then show ?thesis using e g c(2) by (simp add: value_start_def)
  qed
next
  case (JObj kvs)
  then obtain g where g: "f = Suc g" "sum_list (map (\<lambda>(k, v). Suc (fuel_need v)) kvs) \<le> g" by (cases f) auto
  show ?case
  proof (cases "kvs = []")
    case True
    then show ?thesis using g by simp
  next
    case False
    have ih: "parse_value f (print_raw v @ r) = Some (v, r)"
      if "(k, v) \<in> set kvs" "fuel_need v \<le> f" "num_stop r" for k v f r
      using that JObj.IH [of "(k, v)" v f r] JObj.prems by auto
    have e: "parse_members g [] (join '','' (map print_member kvs) @ CHR ''}'' # r) = Some (JObj kvs, r)"
      using parse_members_join [of kvs g "[]" r] ih False g JObj.prems by auto
    obtain kv kvs' where "kvs = kv # kvs'" using False by (cases kvs) auto
    then obtain cs' where "join '','' (map print_member kvs) = dq # cs'"
      by (cases kv, cases "kvs' = []") (auto simp: join_Cons print_str_def)
    then show ?thesis using e g by simp
  qed
qed

lemma length_join: "xs \<noteq> [] \<Longrightarrow> Suc (length (join [c] xs)) = sum_list (map (\<lambda>w. Suc (length w)) xs)"
  by (induction xs) (auto simp: join_Cons)

lemma fuel_need_le: "wf_json v \<Longrightarrow> fuel_need v \<le> length (print_raw v)"
proof (induction v)
  case (JNum x)
  then show ?case using print_num_head [of x] by auto
next
  case (JArr xs)
  have "sum_list (map (\<lambda>x. Suc (fuel_need x)) xs) \<le> sum_list (map (\<lambda>x. Suc (length (print_raw x))) xs)"
    using JArr by (intro sum_list_mono) auto
  then show ?case using length_join [of "map print_raw xs" "CHR '',''"] by (cases "xs = []") (simp_all add: comp_def)
next
  case (JObj kvs)
  have "sum_list (map (\<lambda>(k, v). Suc (fuel_need v)) kvs) \<le> sum_list (map (\<lambda>kv. Suc (length (print_member kv))) kvs)"
    using JObj by (intro sum_list_mono) fastforce
  then show ?case using length_join [of "map print_member kvs" "CHR '',''"] by (cases "kvs = []") (simp_all add: comp_def)
qed (auto simp: print_str_def)

lemma json_parse_print_raw: "wf_json v \<Longrightarrow> json_parse (print_raw v) = Some v"
proof -
  assume w: "wf_json v"
  have "parse_value (Suc (length (print_raw v))) (print_raw v) = Some (v, [])"
    using parse_value_print_raw [OF w, of "Suc (length (print_raw v))" "[]"] fuel_need_le [OF w] by simp
  then show ?thesis by (simp add: json_parse_def skip_ws_def)
qed


subsection \<open>Decoded values are well formed\<close>

lemma is_decimal_uminus: "is_decimal r \<Longrightarrow> is_decimal (- r)"
  by (auto simp: is_decimal_def rat_uminus_code Let_def split: prod.splits)

lemma scale10_decimal:
  assumes "int fl - e \<le> 1100"
  shows "is_decimal (scale10 (of_nat n / 10 ^ fl) e)"
proof (cases "int fl \<le> e")
  case True
  then have "10 ^ nat e = (10 ^ (nat e - fl) * 10 ^ fl :: rat)" by (simp flip: power_add)
  then have "scale10 (of_nat n / 10 ^ fl) e = of_int (int n * 10 ^ (nat e - fl)) / 10 ^ 0"
    using True by (simp add: scale10_def)
  then show ?thesis by (simp only: is_decimalI)
next
  case False
  define j where "j = nat (int fl - e)"
  have "scale10 (of_nat n / 10 ^ fl) e = of_int (int n) / 10 ^ j"
  proof (cases "0 \<le> e")
    case True
    then have "10 ^ fl = (10 ^ nat e * 10 ^ j :: rat)" using False by (simp add: j_def flip: power_add)
    then show ?thesis using True by (simp add: scale10_def)
  next
    case neg: False
    then have "10 ^ j = (10 ^ fl * 10 ^ nat (- e) :: rat)" by (simp add: j_def nat_add_distrib flip: power_add)
    then show ?thesis using neg by (simp add: scale10_def)
  qed
  then show ?thesis using assms by (simp only: is_decimalI j_def)
qed

lemma parse_num_decimal: "parse_num s = Some (x, r) \<Longrightarrow> is_decimal x"
proof -
  have "is_decimal (round_dec fl e (scale10 (of_nat n / 10 ^ fl) e))" for fl e n
    by (cases "int fl - e \<le> 1100") (simp_all only: round_dec_def if_True if_False scale10_decimal is_decimalI order_refl)
  then show "parse_num s = Some (x, r) \<Longrightarrow> is_decimal x"
    by (auto simp: parse_num_def Let_def is_decimal_uminus split: if_splits option.splits)
qed

lemma wf_json_mput: "wf_json v \<Longrightarrow> wf_json (JObj m) \<Longrightarrow> wf_json (JObj (mput k v m))"
  using set_mput_subset [of k v m] by auto

lemma parse_wf:
  "(parse_value f s = Some (v, r) \<longrightarrow> wf_json v) \<and>
   (parse_elems f acc s = Some (v, r) \<longrightarrow> wf_json (JArr acc) \<longrightarrow> wf_json v) \<and>
   (parse_members f m s = Some (v, r) \<longrightarrow> wf_json (JObj m) \<longrightarrow> wf_json v)"
proof (induction f arbitrary: s v r acc m)
  case (Suc f)
  have v: "parse_value f s = Some (v, r) \<Longrightarrow> wf_json v"
    and e: "parse_elems f acc s = Some (v, r) \<Longrightarrow> wf_json (JArr acc) \<Longrightarrow> wf_json v"
    and m: "parse_members f m s = Some (v, r) \<Longrightarrow> wf_json (JObj m) \<Longrightarrow> wf_json v" for s v r acc m
    using Suc by blast+
  show ?case
  proof (intro conjI impI)
    assume "parse_value (Suc f) s = Some (v, r)"
    then show "wf_json v"
      by (auto split: list.splits if_splits dest!: e m parse_num_decimal)
  next
    assume a: "parse_elems (Suc f) acc s = Some (v, r)" "wf_json (JArr acc)"
    then obtain x y where x: "parse_value f s = Some (x, y)" by (auto split: option.splits)
    then have "wf_json (JArr (acc @ [x]))" using a(2) v by auto
    with a x show "wf_json v" by (auto split: list.splits if_splits simp del: wf_json.simps dest: e)
  next
    assume a: "parse_members (Suc f) m s = Some (v, r)" "wf_json (JObj m)"
    then obtain k x y z ds where pv: "parse_value f z = Some (x, y)"
      and alt: "parse_members f (mput k x m) ds = Some (v, r) \<or> v = JObj (mput k x m)"
      by (auto split: list.splits if_splits option.splits simp del: wf_json.simps) metis+
    have "wf_json (JObj (mput k x m))" using v [OF pv] a(2) by (rule wf_json_mput)
    with alt show "wf_json v" using m by blast
  qed
qed simp

lemma json_parse_wf: "json_parse s = Some v \<Longrightarrow> wf_json v"
  using parse_wf [THEN conjunct1, rule_format] by (auto simp del: parse_value.simps simp: json_parse_def split: option.splits if_splits)

section \<open>Canonical documents\<close>

lemma map_of_sort_key: "wf_map m \<Longrightarrow> map_of (sort_key fst m) = map_of m"
  by (rule map_of_inject_set [THEN iffD2]) (simp_all add: wf_map_def distinct_map inj_on_def)

lemma map_of_map_canon: "map_of (map (\<lambda>(k, v). (k, f v)) m) k = map_option f (map_of m k)"
  by (induction m) auto

lemma wf_map_map_canon: "wf_map (map (\<lambda>(k, v). (k, f v)) m) = wf_map m"
  by (simp add: wf_map_def comp_def case_prod_unfold)

lemma wf_map_sort_key: "wf_map (sort_key f m) = wf_map m"
  by (simp add: wf_map_def distinct_map)

lemma wf_json_canon: "wf_json v \<Longrightarrow> wf_json (canon v)"
proof (induction v)
  case (JObj m)
  then have "wf_json (canon b)" if "(a, b) \<in> set m" for a b
    using that JObj.IH [of "(a, b)" b] JObj.prems by auto
  with JObj show ?case by (auto simp: wf_map_sort_key wf_map_map_canon)
qed auto

lemma json_parse_print: "wf_json v \<Longrightarrow> json_parse (json_print v) = Some (canon v)"
  by (simp add: json_print_def json_parse_print_raw wf_json_canon)

lemma jget_canon [json_simps]: "wf_json v \<Longrightarrow> jget (canon v) k = map_option canon (jget v k)"
  by (cases v) (auto simp: map_of_sort_key wf_map_map_canon map_of_map_canon)

lemma is_obj_canon [simp, json_simps]: "is_obj (canon v) = is_obj v"
  by (cases v) auto

lemma canon_eq_simps [simp]:
  "canon v = JNull \<longleftrightarrow> v = JNull" "canon v = JStr s \<longleftrightarrow> v = JStr s"
  "canon v = JBool b \<longleftrightarrow> v = JBool b" "canon v = JNum r \<longleftrightarrow> v = JNum r"
  by (cases v; auto)+

lemma has_key_canon [json_simps]: "wf_json v \<Longrightarrow> has_key (canon v) k = has_key v k"
  by (simp add: has_key_def jget_canon)

lemma str_at_canon [json_simps]: "wf_json v \<Longrightarrow> str_at (canon v) k = str_at v k"
  by (auto simp: str_at_def jget_canon split: option.splits json.splits elim!: canon.elims)

lemma bool_at_canon [json_simps]: "wf_json v \<Longrightarrow> bool_at (canon v) k = bool_at v k"
  by (auto simp: bool_at_def jget_canon split: option.splits json.splits elim!: canon.elims)

lemma num_at_canon [json_simps]: "wf_json v \<Longrightarrow> num_at (canon v) k = num_at v k"
  by (auto simp: num_at_def jget_canon split: option.splits json.splits elim!: canon.elims)

lemma arr_at_canon [json_simps]: "wf_json v \<Longrightarrow> arr_at (canon v) k = map_option (map canon) (arr_at v k)"
  by (auto simp: arr_at_def jget_canon split: option.splits json.splits elim!: canon.elims)

lemma obj_at_canon [json_simps]: "wf_json v \<Longrightarrow> obj_at (canon v) k = map_option canon (obj_at v k)"
  by (auto simp: obj_at_def jget_canon split: option.splits json.splits elim!: canon.elims)

lemma jget_jset [json_simps]:
  "is_obj v \<Longrightarrow> jget (jset k x v) k' = (if k' = k then Some x else jget v k')"
  by (cases v) auto

lemma jget_jdel [json_simps]: "jget (jdel k v) k' = (if k' = k then None else jget v k')"
  by (cases v) auto

lemma is_obj_jset [simp, json_simps]: "is_obj (jset k x v) = is_obj v"
  by (cases v) auto

lemma is_obj_jdel [simp, json_simps]: "is_obj (jdel k v) = is_obj v"
  by (cases v) auto

lemma jget_is_obj: "jget v k = Some x \<Longrightarrow> is_obj v"
  by (cases v) auto

lemma at_is_obj: "arr_at v k = Some xs \<Longrightarrow> is_obj v" "str_at v k \<noteq> [] \<Longrightarrow> is_obj v"
  by (cases v; auto simp: arr_at_def str_at_def)+

lemma str_at_obj: "str_at v k = c # cs \<Longrightarrow> is_obj v"
  by (cases v) (auto simp: str_at_def)

lemma str_at_jset [json_simps]:
  "is_obj v \<Longrightarrow> str_at (jset k x v) k' = (if k' = k then (case x of JStr s \<Rightarrow> s | _ \<Rightarrow> []) else str_at v k')"
  by (simp add: str_at_def jget_jset)

lemma arr_at_jset [json_simps]:
  "is_obj v \<Longrightarrow> arr_at (jset k x v) k' = (if k' = k then (case x of JArr s \<Rightarrow> Some s | _ \<Rightarrow> None) else arr_at v k')"
  by (simp add: arr_at_def jget_jset)

lemma has_key_jset [json_simps]: "is_obj v \<Longrightarrow> has_key (jset k x v) k' = (k' = k \<or> has_key v k')"
  by (simp add: has_key_def jget_jset)

lemma has_key_jdel [json_simps]: "has_key (jdel k v) k' = (k' \<noteq> k \<and> has_key v k')"
  by (simp add: has_key_def jget_jdel)

lemma str_at_jdel [json_simps]: "str_at (jdel k v) k' = (if k' = k then [] else str_at v k')"
  by (simp add: str_at_def jget_jdel)

lemma arr_at_jdel [json_simps]: "arr_at (jdel k v) k' = (if k' = k then None else arr_at v k')"
  by (simp add: arr_at_def jget_jdel)

lemma wf_json_jset [intro]: "wf_json v \<Longrightarrow> wf_json x \<Longrightarrow> wf_json (jset k x v)"
  by (cases v) (simp_all del: wf_json.simps(3) add: wf_json_mput)

lemma wf_json_jdel [intro]: "wf_json v \<Longrightarrow> wf_json (jdel k v)"
  using set_mdel_subset by (cases v) fastforce+

lemma wf_json_jget: "wf_json v \<Longrightarrow> jget v k = Some x \<Longrightarrow> wf_json x"
  by (cases v) (auto dest: map_of_SomeD)

lemma wf_json_arr_at: "wf_json v \<Longrightarrow> arr_at v k = Some xs \<Longrightarrow> x \<in> set xs \<Longrightarrow> wf_json x"
  by (auto simp: arr_at_def split: option.splits json.splits dest: wf_json_jget)

lemma unmarshal_map_wf: "unmarshal_map b = Some raw \<Longrightarrow> wf_json raw"
  by (auto simp: unmarshal_map_def split: option.splits json.splits dest: json_parse_wf)

lemma unmarshal_map_print:
  "wf_json v \<Longrightarrow> is_obj v \<or> v = JNull \<Longrightarrow> unmarshal_map (json_print v) = Some (canon v)"
  by (cases v) (auto simp: unmarshal_map_def json_parse_print)

lemma json_print_not_Nil: "wf_json v \<Longrightarrow> json_print v \<noteq> []"
  using print_raw_head [of "canon v"] wf_json_canon [of v] by (auto simp: json_print_def)

lemma sort_key_set_eq:
  assumes "wf_map m" "wf_map n" "set m = set n"
  shows "sort_key fst m = sort_key fst n"
proof (rule sort_key_inj_key_eq)
  have "distinct m" "distinct n" using assms(1,2) by (auto simp: wf_map_def distinct_map)
  then show "mset m = mset (sort_key fst n)" using assms(3) by (simp add: set_eq_iff_mset_eq_distinct)
  show "inj_on fst (set m)" using assms(1) by (simp add: wf_map_def distinct_map)
qed auto

lemma canon_obj_eqI:
  assumes "wf_map m" "wf_map n" "\<And>k. map_option canon (map_of m k) = map_option canon (map_of n k)"
  shows "canon (JObj m) = canon (JObj n)"
proof -
  let ?g = "map (\<lambda>(k, v). (k, canon v))"
  have w: "wf_map (?g m)" "wf_map (?g n)" using assms by (simp_all add: wf_map_map_canon)
  have "(k, v) \<in> set (?g m) \<longleftrightarrow> (k, v) \<in> set (?g n)" for k v
    using w assms(3) [of k]
    by (metis map_of_eq_Some_iff map_of_map_canon wf_map_def)
  then have "set (?g m) = set (?g n)" by (intro set_eqI) (metis surj_pair)
  with w have "sort_key fst (?g m) = sort_key fst (?g n)" by (rule sort_key_set_eq)
  then show ?thesis by (simp only: canon.simps)
qed

lemma canon_eqI:
  assumes "wf_json v" "wf_json w" "is_obj v" "is_obj w"
    "\<And>k. map_option canon (jget v k) = map_option canon (jget w k)"
  shows "canon v = canon w"
proof (cases v; cases w)
  fix m n assume "v = JObj m" "w = JObj n"
  then show ?thesis using assms canon_obj_eqI [of m n] by simp
qed (use assms in auto)

lemma canon_idem: "wf_json v \<Longrightarrow> canon (canon v) = canon v"
proof (induction v)
  case (JObj m)
  have "map_option canon (map_option canon (map_of m k)) = map_option canon (map_of m k)" for k
    using JObj by (cases "map_of m k") (auto dest!: map_of_SomeD)
  moreover have "wf_json (canon (JObj m))" using JObj by (simp only: wf_json_canon)
  ultimately show ?case
    using JObj.prems by (intro canon_eqI) (auto simp: jget_canon simp del: canon.simps)
qed auto

lemma canon_jset:
  assumes "wf_json v" "wf_json x" "wf_json v'" "wf_json x'" "is_obj v"
    and "canon v = canon v'" "canon x = canon x'"
  shows "canon (jset k x v) = canon (jset k x' v')"
proof -
  have o: "is_obj v'" using assms(5,6) is_obj_canon by metis
  have "map_option canon (jget v j) = map_option canon (jget v' j)" for j
    using assms(1,3,6) by (metis jget_canon)
  then show ?thesis using assms o
    by (intro canon_eqI) (auto simp: jget_jset)
qed

section \<open>What the text of a document contains\<close>

lemma contains_trans: "contains a b \<Longrightarrow> contains b c \<Longrightarrow> contains a c"
  by (meson contains_iff_sublist sublist_order.order.trans)

lemma contains_join: "w \<in> set ws \<Longrightarrow> contains (join sep ws) w"
  by (induction ws) (auto simp: join_Cons contains_appendI1 contains_appendI2)

lemma contains_print_elem: "x \<in> set xs \<Longrightarrow> contains (print_raw (JArr xs)) (print_raw x)"
  using contains_join [of "print_raw x" "map print_raw xs" "'',''"]
  by (auto intro!: contains_appendI1)

lemma contains_print_member:
  assumes "jget v k = Some x"
  shows "contains (print_raw v) (print_raw x)" "contains (print_raw v) (print_str k @ '':'')"
proof -
  obtain m where v: "v = JObj m" and kx: "(k, x) \<in> set m"
    using assms by (cases v) (auto dest: map_of_SomeD)
  have "print_member (k, x) \<in> set (map print_member m)" using kx by force
  then have "contains (print_raw v) (print_member (k, x))"
    unfolding v print_raw.simps by (intro contains_ConsI contains_appendI1 contains_join)
  moreover have "contains (print_member (k, x)) (print_raw x)"
    by (simp add: contains_appendI2)
  moreover have "print_member (k, x) = (print_str k @ '':'') @ print_raw x" by simp
  then have "contains (print_member (k, x)) (print_str k @ '':'')"
    by (metis contains_appendI1 contains_self)
  ultimately show "contains (print_raw v) (print_raw x)" "contains (print_raw v) (print_str k @ '':'')"
    using contains_trans by blast+
qed

lemma contains_print_key: "has_key v k \<Longrightarrow> contains (print_raw v) (print_str k)"
  using contains_print_member(2) contains_trans contains_appendI1 contains_self
  by (metis has_key_def not_None_eq)

text \<open>The same for json.Marshal's text, whose objects are sorted.\<close>

lemma json_print_message:
  assumes "wf_json v" "arr_at v k = Some msgs" "m \<in> set msgs"
  shows "contains (json_print v) (json_print m)"
proof -
  have j: "jget v k = Some (JArr msgs)" using assms(2) by (auto simp: arr_at_def split: option.splits json.splits)
  then have "jget (canon v) k = Some (JArr (map canon msgs))" using assms(1) by (simp add: jget_canon)
  then have "contains (json_print v) (print_raw (JArr (map canon msgs)))"
    unfolding json_print_def by (rule contains_print_member)
  moreover have "contains (print_raw (JArr (map canon msgs))) (json_print m)"
    unfolding json_print_def using assms(3) by (intro contains_print_elem) simp
  ultimately show ?thesis by (rule contains_trans)
qed

lemma json_print_key: "wf_json v \<Longrightarrow> has_key v k \<Longrightarrow> contains (json_print v) (print_str k @ '':'')"
  unfolding json_print_def has_key_def
  by (metis contains_print_member(2) jget_canon option.map_disc_iff option.collapse)

lemma json_print_str:
  "wf_json v \<Longrightarrow> str_at v k = s \<Longrightarrow> s \<noteq> [] \<Longrightarrow> contains (json_print v) (print_str s)"
  unfolding json_print_def
  by (rule contains_print_member(1) [of _ k "JStr s", simplified])
     (auto simp: str_at_def jget_canon split: option.splits json.splits)

lemma print_str_quoted: "(\<forall>c\<in>set s. esc_char c = [c] \<and> c \<noteq> CHR 0xE2) \<Longrightarrow> print_str s = quoted s"
proof -
  assume a: "\<forall>c\<in>set s. esc_char c = [c] \<and> c \<noteq> CHR 0xE2"
  then have "esc_str s = s" by (induction s) auto
  then show ?thesis by (simp add: print_str_def quoted_def)
qed

lemma quoted_tokens:
  "print_str ''developer'' = quoted ''developer''" "print_str ''reasoning'' = quoted ''reasoning''"
  "print_str ''stream'' = quoted ''stream''" "print_str ''messages'' = quoted ''messages''"
  "print_str ''tools'' = quoted ''tools''" "print_str ''content'' = quoted ''content''"
  by (rule print_str_quoted; simp add: esc_char_def)+

section \<open>Stages on encoded documents\<close>

lemma json_print_canon: "wf_json v \<Longrightarrow> json_print (canon v) = json_print v"
  by (simp add: json_print_def canon_idem)

lemma json_stage_apply:
  assumes "wf_json v" "is_obj v"
  shows "json_stage msg f (json_print v) = Inr (json_print (apply_doc f (canon v)))"
  using assms json_print_not_Nil unmarshal_map_print json_print_canon
  by (auto simp: json_stage_def apply_doc_def split: option.splits)

text \<open>
  A document stage: it keeps documents well formed and does not depend on the order of the keys.
  What such a stage does to the bytes of an encoded document is then known exactly.
\<close>

locale doc_stage =
  fixes f :: "json \<Rightarrow> json option"
  assumes stage_wf: "wf_json v \<Longrightarrow> is_obj v \<Longrightarrow> wf_json (apply_doc f v)"
    and stage_obj: "wf_json v \<Longrightarrow> is_obj v \<Longrightarrow> is_obj (apply_doc f v)"
    and stage_order: "wf_json v \<Longrightarrow> is_obj v \<Longrightarrow> canon (apply_doc f (canon v)) = canon (apply_doc f v)"
begin

lemma stage_on_print:
  "wf_json v \<Longrightarrow> is_obj v \<Longrightarrow> json_stage msg f (json_print v) = Inr (json_print (apply_doc f v))"
  by (simp add: json_stage_apply) (simp add: json_print_def stage_order)

end

text \<open>The stages that rewrite the messages one by one when one of them needs it.\<close>

definition messages_doc :: "(json \<Rightarrow> bool) \<Rightarrow> (json \<Rightarrow> json) \<Rightarrow> json \<Rightarrow> json option" where
  "messages_doc p g raw =
     (case arr_at raw ''messages'' of
        None \<Rightarrow> None
      | Some msgs \<Rightarrow> if list_ex p msgs then Some (jset ''messages'' (JArr (map g msgs)) raw) else None)"

locale message_stage =
  fixes p :: "json \<Rightarrow> bool" and g :: "json \<Rightarrow> json"
  assumes msg_wf: "wf_json m \<Longrightarrow> wf_json (g m)"
    and msg_skip: "wf_json m \<Longrightarrow> \<not> p m \<Longrightarrow> g m = m"
    and msg_test: "wf_json m \<Longrightarrow> p (canon m) = p m"
    and msg_order: "wf_json m \<Longrightarrow> canon (g (canon m)) = canon (g m)"
begin

lemma apply_messages:
  assumes "wf_json v" "is_obj v"
  shows "apply_doc (messages_doc p g) v =
    (case arr_at v ''messages'' of None \<Rightarrow> v | Some msgs \<Rightarrow> jset ''messages'' (JArr (map g msgs)) v)"
proof (cases "arr_at v ''messages''")
  case (Some msgs)
  show ?thesis
  proof (cases "list_ex p msgs")
    case False
    then have "g m = m" if "m \<in> set msgs" for m
      using that wf_json_arr_at [OF assms(1) Some that] by (auto simp: list_ex_iff intro: msg_skip)
    then have "map g msgs = msgs" by (simp add: map_idI)
    moreover have "jset ''messages'' (JArr msgs) v = v"
      using Some assms(2) by (cases v) (auto simp: arr_at_def AList.update_triv split: option.splits json.splits)
    ultimately show ?thesis using False Some by (simp add: apply_doc_def messages_doc_def)
  qed (simp add: Some apply_doc_def messages_doc_def)
qed (simp add: apply_doc_def messages_doc_def)

lemma wf_mapped: "wf_json v \<Longrightarrow> arr_at v k = Some msgs \<Longrightarrow> wf_json (JArr (map g msgs))"
  using wf_json_arr_at [of v k msgs] by (auto intro: msg_wf)

sublocale doc_stage "messages_doc p g"
proof
  fix v assume v: "wf_json v" "is_obj v"
  show "wf_json (apply_doc (messages_doc p g) v)"
    using v wf_mapped by (auto simp: apply_messages split: option.splits)
  show "is_obj (apply_doc (messages_doc p g) v)"
    using v by (auto simp: apply_messages split: option.splits)
  show "canon (apply_doc (messages_doc p g) (canon v)) = canon (apply_doc (messages_doc p g) v)"
  proof (cases "arr_at v ''messages''")
    case None
    then show ?thesis using v by (simp add: apply_messages wf_json_canon arr_at_canon canon_idem)
  next
    case (Some msgs)
    have wm: "wf_json m" if "m \<in> set msgs" for m using v(1) Some that by (rule wf_json_arr_at)
    have ca: "arr_at (canon v) ''messages'' = Some (map canon msgs)" using v Some by (simp add: arr_at_canon)
    have "canon (JArr (map g (map canon msgs))) = canon (JArr (map g msgs))"
      using wm by (simp add: msg_order)
    moreover have "wf_json (JArr (map g (map canon msgs)))" "wf_json (JArr (map g msgs))"
      using wm by (auto intro: msg_wf wf_json_canon)
    ultimately have "canon (jset ''messages'' (JArr (map g (map canon msgs))) (canon v)) =
        canon (jset ''messages'' (JArr (map g msgs)) v)"
      using v by (intro canon_jset) (simp_all add: wf_json_canon canon_idem)
    then show ?thesis using v Some ca by (simp add: apply_messages wf_json_canon)
  qed
qed

end

section \<open>Contracts on documents\<close>

text \<open>
  A property of decoded documents that survives re-encoding. For each one, what a stage does to
  the document lifts to what it does to the body; the request stages interpret this locale.
\<close>

locale doc_contract =
  fixes P :: "json \<Rightarrow> bool"
  assumes canon_closed: "wf_json v \<Longrightarrow> P v \<Longrightarrow> P (canon v)"
begin

definition holds_on :: "string \<Rightarrow> bool" where
  "holds_on body = (\<exists>raw. unmarshal_map body = Some raw \<and> P raw)"

lemma stage_lift:
  assumes ok: "json_stage msg f body = Inr out" and raw: "unmarshal_map body = Some raw"
    and keep: "f raw = None \<Longrightarrow> P raw"
    and chg: "\<And>r. f raw = Some r \<Longrightarrow> wf_json r \<and> (is_obj r \<or> r = JNull) \<and> P r"
  shows "holds_on out"
proof (cases "f raw")
  case None
  then show ?thesis using ok raw keep
    by (auto simp: holds_on_def json_stage_def split: if_splits)
next
  case (Some r)
  then have r: "wf_json r" "is_obj r \<or> r = JNull" "P r" using chg by auto
  have "body \<noteq> []" using raw by (auto simp: unmarshal_map_def json_parse_def skip_ws_def)
  then have "out = json_print r" using ok raw Some by (simp add: json_stage_def)
  then show ?thesis using r canon_closed unmarshal_map_print by (auto simp: holds_on_def)
qed

end

end
