(* ===== verification/Prepost_OpenAI.thy ===== *)
theory Prepost_OpenAI
  imports GoJson
begin

text \<open>
  The OpenAI-shaped request normalisations of internal/translate/internal/prepost: developer roles,
  reasoning fields, DeepSeek defaults, stream options, the DSML stop string, unsupported regex
  patterns, thinking configuration, the token budget, and the single-pass
  \<open>PrepareUpstreamWithModel\<close> that combines them. Each stage works on body bytes; its effect on the
  decoded document is a function of its own.
\<close>

section \<open>Constants (config.go)\<close>

definition DefaultMinTokens :: rat where "DefaultMinTokens = 4096"
definition DeepSeekFlashTopP :: rat where "DeepSeekFlashTopP = 95 / 100"

definition AppliedDeveloperSystem :: string where "AppliedDeveloperSystem = ''developer-system''"
definition AppliedReasoningContent :: string where "AppliedReasoningContent = ''reasoning-content''"
definition AppliedStreamOptions :: string where "AppliedStreamOptions = ''stream-options''"
definition AppliedDeepSeekFlashTopP :: string where "AppliedDeepSeekFlashTopP = ''deepseek-flash-top-p''"
definition AppliedDeepSeekToolStop :: string where "AppliedDeepSeekToolStop = ''deepseek-tool-stop''"
definition AppliedClaudeStripEmpty :: string where "AppliedClaudeStripEmpty = ''claude-strip-empty''"
definition AppliedToolPatternDrop :: string where "AppliedToolPatternDrop = ''tool-pattern-drop''"

section \<open>Roles (normalize\_roles.go)\<close>

definition is_developer :: "json \<Rightarrow> bool" where
  "is_developer m = (str_at m ''role'' = ''developer'')"

definition norm_role :: "json \<Rightarrow> json" where
  "norm_role m = (if is_developer m then jset ''role'' (JStr ''system'') m else m)"

definition normalize_roles_doc :: "json \<Rightarrow> json option" where
  "normalize_roles_doc raw =
     (case arr_at raw ''messages'' of
        None \<Rightarrow> None
      | Some msgs \<Rightarrow>
          if list_ex is_developer msgs
          then Some (jset ''messages'' (JArr (map norm_role msgs)) raw)
          else None)"

definition NormalizeRoles :: "string \<Rightarrow> string res" where
  "NormalizeRoles body =
     (if body = [] then Inr body
      else if \<not> contains body (quoted ''developer'') then Inr body
      else json_stage ''prepost: normalize roles'' normalize_roles_doc body)"

section \<open>Reasoning (normalize\_request\_reasoning.go)\<close>

definition is_assistant :: "json \<Rightarrow> bool" where
  "is_assistant m = (str_at m ''role'' = ''assistant'')"

definition wants_copy :: "json \<Rightarrow> bool" where
  "wants_copy m = (is_assistant m \<and> has_key m ''reasoning'' \<and> \<not> has_key m ''reasoning_content'')"

definition copy_reasoning :: "json \<Rightarrow> json" where
  "copy_reasoning m =
     (if wants_copy m
      then (case jget m ''reasoning'' of Some r \<Rightarrow> jset ''reasoning_content'' r m | None \<Rightarrow> m)
      else m)"

definition normalize_reasoning_doc :: "json \<Rightarrow> json option" where
  "normalize_reasoning_doc raw =
     (case arr_at raw ''messages'' of
        None \<Rightarrow> None
      | Some msgs \<Rightarrow>
          if list_ex wants_copy msgs
          then Some (jset ''messages'' (JArr (map copy_reasoning msgs)) raw)
          else None)"

definition NormalizeRequestReasoning :: "string \<Rightarrow> string res" where
  "NormalizeRequestReasoning body =
     (if body = [] then Inr body
      else if \<not> contains body (quoted ''reasoning'' @ '':'') then Inr body
      else json_stage ''prepost: normalize request reasoning'' normalize_reasoning_doc body)"

section \<open>DeepSeek (normalize\_deepseek.go)\<close>

definition IsDeepSeekModel :: "string \<Rightarrow> bool" where
  "IsDeepSeekModel modelID = contains (to_lower modelID) ''deepseek''"

definition IsDeepSeekFlashModel :: "string \<Rightarrow> bool" where
  "IsDeepSeekFlashModel modelID =
     (contains (to_lower modelID) ''deepseek'' \<and> contains (to_lower modelID) ''flash'')"

definition lacks_rc :: "json \<Rightarrow> bool" where
  "lacks_rc m = (is_assistant m \<and> \<not> has_key m ''reasoning_content'')"

definition ensure_rc :: "json \<Rightarrow> json" where
  "ensure_rc m =
     (if lacks_rc m
      then jset ''reasoning_content''
             (case jget m ''reasoning'' of Some r \<Rightarrow> r | None \<Rightarrow> JStr []) m
      else m)"

definition normalize_deepseek_doc :: "string \<Rightarrow> json \<Rightarrow> json option" where
  "normalize_deepseek_doc modelID raw =
     (let (raw1, changed1) =
            (case arr_at raw ''messages'' of
               Some msgs \<Rightarrow>
                 if list_ex lacks_rc msgs
                 then (jset ''messages'' (JArr (map ensure_rc msgs)) raw, True)
                 else (raw, False)
             | None \<Rightarrow> (raw, False));
          (raw2, changed2) =
            (if IsDeepSeekFlashModel modelID \<and> \<not> has_key raw1 ''top_p''
             then (jset ''top_p'' (JNum DeepSeekFlashTopP) raw1, True)
             else (raw1, changed1))
      in if changed2 then Some raw2 else None)"

definition NormalizeDeepSeek :: "string \<Rightarrow> string \<Rightarrow> string res" where
  "NormalizeDeepSeek body modelID =
     (if body = [] then Inr body
      else if \<not> IsDeepSeekModel modelID then Inr body
      else if \<not> contains body (quoted ''messages'') then Inr body
      else json_stage ''prepost: normalize deepseek'' (normalize_deepseek_doc modelID) body)"

section \<open>Stream options (stream\_options.go)\<close>

definition include_usage :: json where
  "include_usage = JObj [(''include_usage'', JBool True)]"

definition stream_options_doc :: "json \<Rightarrow> json option" where
  "stream_options_doc raw =
     (if \<not> bool_at raw ''stream'' then None
      else if has_key raw ''stream_options'' then None
      else Some (jset ''stream_options'' include_usage raw))"

definition EnsureStreamOptions :: "string \<Rightarrow> string res" where
  "EnsureStreamOptions body =
     json_stage ''prepost: ensure stream options'' stream_options_doc body"

section \<open>DSML stop string (dsml\_tool\_stop.go)\<close>

text \<open>The closer uses the fullwidth bar U+FF5C, three bytes in UTF-8.\<close>

definition DSMLToolCallsCloser :: string where
  "DSMLToolCallsCloser =
     ''</'' @ [CHR 0xEF, CHR 0xBD, CHR 0x9C] @ ''DSML'' @ [CHR 0xEF, CHR 0xBD, CHR 0x9C] @ ''tool_calls>''"

definition maxOpenAIStops :: nat where "maxOpenAIStops = 4"

definition ensureDSMLToolStop :: "json \<Rightarrow> json \<times> bool" where
  "ensureDSMLToolStop raw =
     (case jget raw ''stop'' of
        None \<Rightarrow> (jset ''stop'' (JArr [JStr DSMLToolCallsCloser]) raw, True)
      | Some JNull \<Rightarrow> (jset ''stop'' (JArr [JStr DSMLToolCallsCloser]) raw, True)
      | Some (JStr s) \<Rightarrow>
          if s = DSMLToolCallsCloser then (raw, False)
          else (jset ''stop'' (JArr [JStr s, JStr DSMLToolCallsCloser]) raw, True)
      | Some (JArr stop) \<Rightarrow>
          if list_ex (\<lambda>s. s = JStr DSMLToolCallsCloser) stop then (raw, False)
          else if maxOpenAIStops \<le> length stop then (raw, False)
          else (jset ''stop'' (JArr (stop @ [JStr DSMLToolCallsCloser])) raw, True)
      | _ \<Rightarrow> (raw, False))"

section \<open>Unsupported patterns (sanitize\_patterns.go)\<close>

definition hasUnicodePropertyEscape :: "string \<Rightarrow> bool" where
  "hasUnicodePropertyEscape s = (contains s [bs, CHR ''p'', CHR ''{''] \<or> contains s [bs, CHR ''P'', CHR ''{''])"

definition HasUnicodePropertyPattern :: "string \<Rightarrow> bool" where
  "HasUnicodePropertyPattern body =
     (contains body [bs, CHR ''p'', CHR ''{''] \<or> contains body [bs, CHR ''P'', CHR ''{''])"

definition drop_pattern :: "(string \<times> json) list \<Rightarrow> (string \<times> json) list \<times> nat" where
  "drop_pattern m =
     (case map_of m ''pattern'' of
        Some (JStr pat) \<Rightarrow> if hasUnicodePropertyEscape pat then (mdel ''pattern'' m, 1) else (m, 0)
      | _ \<Rightarrow> (m, 0))"

definition drop_pattern_properties :: "(string \<times> json) list \<Rightarrow> (string \<times> json) list \<times> nat" where
  "drop_pattern_properties m =
     (case map_of m ''patternProperties'' of
        Some (JObj pp) \<Rightarrow>
          (mput ''patternProperties'' (JObj (filter (\<lambda>(key, v). \<not> hasUnicodePropertyEscape key) pp)) m,
           length (filter (\<lambda>(key, v). hasUnicodePropertyEscape key) pp))
      | _ \<Rightarrow> (m, 0))"

abbreviation members_size :: "(string \<times> json) list \<Rightarrow> nat" where
  "members_size \<equiv> size_list (size_prod (\<lambda>_. 0) size)"

lemma members_size_filter: "members_size (filter P m) \<le> members_size m"
  by (induction m) auto

lemma members_size_mput:
  "map_of m k = Some w \<Longrightarrow> size v \<le> size w \<Longrightarrow> members_size (mput k v m) \<le> members_size m"
  by (induction m) (auto split: if_splits)

lemma members_size_drops:
  "members_size (fst (drop_pattern_properties (fst (drop_pattern m)))) \<le> members_size m"
proof -
  have "members_size (fst (drop_pattern m)) \<le> members_size m"
    by (auto simp: drop_pattern_def AList.delete_eq members_size_filter split: option.splits json.splits)
  moreover have "members_size (fst (drop_pattern_properties n)) \<le> members_size n" for n
    by (auto simp: drop_pattern_properties_def members_size_filter
        intro!: members_size_mput split: option.splits json.splits)
  ultimately show ?thesis using le_trans by blast
qed

lemma size_member: "(k, v) \<in> set m \<Longrightarrow> size v < Suc (members_size m)"
  by (induction m) auto

text \<open>The walk over a schema: the cleaned value and the number of dropped entries.\<close>

function SanitizeUnsupportedPatterns :: "json \<Rightarrow> json \<times> nat" where
  "SanitizeUnsupportedPatterns (JObj m) =
     (let m1 = drop_pattern m;
          m2 = drop_pattern_properties (fst m1);
          ys = map (\<lambda>(k, v). (k, SanitizeUnsupportedPatterns v)) (fst m2)
      in (JObj (map (\<lambda>(k, y). (k, fst y)) ys),
          snd m1 + snd m2 + sum_list (map (\<lambda>(k, y). snd y) ys)))"
| "SanitizeUnsupportedPatterns (JArr xs) =
     (let ys = map SanitizeUnsupportedPatterns xs
      in (JArr (map fst ys), sum_list (map snd ys)))"
| "SanitizeUnsupportedPatterns JNull = (JNull, 0)"
| "SanitizeUnsupportedPatterns (JBool b) = (JBool b, 0)"
| "SanitizeUnsupportedPatterns (JNum r) = (JNum r, 0)"
| "SanitizeUnsupportedPatterns (JStr s) = (JStr s, 0)"
  by pat_completeness auto
termination
proof (relation "measure size", goal_cases)
  case (2 m m1 m2 x k v)
  then show ?case using size_member [of k v "fst m2"] members_size_drops [of m] by auto
next
  case (3 xs x)
  then show ?case by (induction xs) auto
qed simp

section \<open>The single pass (prepare\_upstream.go)\<close>

definition nonempty_arr :: "json \<Rightarrow> string \<Rightarrow> json list option" where
  "nonempty_arr raw k = (case arr_at raw k of Some (x # xs) \<Rightarrow> Some (x # xs) | _ \<Rightarrow> None)"

definition pu_roles :: "bool \<Rightarrow> json \<times> string list \<Rightarrow> json \<times> string list" where
  "pu_roles hasDeveloper = (\<lambda>(raw, applied).
     if hasDeveloper then
       (case nonempty_arr raw ''messages'' of
          Some msgs \<Rightarrow>
            if list_ex is_developer msgs
            then (jset ''messages'' (JArr (map norm_role msgs)) raw, applied @ [AppliedDeveloperSystem])
            else (raw, applied)
        | None \<Rightarrow> (raw, applied))
     else (raw, applied))"

definition pu_reason_msg :: "bool \<Rightarrow> json \<Rightarrow> json" where
  "pu_reason_msg isDeepSeek m =
     (if \<not> is_assistant m then m
      else case jget m ''reasoning'' of
             Some r \<Rightarrow> if \<not> has_key m ''reasoning_content'' then jset ''reasoning_content'' r m else m
           | None \<Rightarrow> if isDeepSeek \<and> \<not> has_key m ''reasoning_content''
                     then jset ''reasoning_content'' (JStr []) m else m)"

definition pu_reason_changes :: "bool \<Rightarrow> json \<Rightarrow> bool" where
  "pu_reason_changes isDeepSeek m =
     (is_assistant m \<and> \<not> has_key m ''reasoning_content'' \<and> (has_key m ''reasoning'' \<or> isDeepSeek))"

definition pu_reason :: "bool \<Rightarrow> bool \<Rightarrow> bool \<Rightarrow> json \<times> string list \<Rightarrow> json \<times> string list" where
  "pu_reason hasReasoning isDeepSeek hasMessages = (\<lambda>(raw, applied).
     if hasReasoning \<or> (isDeepSeek \<and> hasMessages) then
       (case nonempty_arr raw ''messages'' of
          Some msgs \<Rightarrow>
            if list_ex (pu_reason_changes isDeepSeek) msgs
            then (jset ''messages'' (JArr (map (pu_reason_msg isDeepSeek) msgs)) raw,
                  applied @ [AppliedReasoningContent])
            else (raw, applied)
        | None \<Rightarrow> (raw, applied))
     else (raw, applied))"

definition pu_stream :: "bool \<Rightarrow> json \<times> string list \<Rightarrow> json \<times> string list" where
  "pu_stream hasStream = (\<lambda>(raw, applied).
     if hasStream \<and> bool_at raw ''stream'' \<and> \<not> has_key raw ''stream_options''
     then (jset ''stream_options'' include_usage raw, applied @ [AppliedStreamOptions])
     else (raw, applied))"

definition pu_top_p :: "bool \<Rightarrow> json \<times> string list \<Rightarrow> json \<times> string list" where
  "pu_top_p isFlash = (\<lambda>(raw, applied).
     if isFlash \<and> \<not> has_key raw ''top_p''
     then (jset ''top_p'' (JNum DeepSeekFlashTopP) raw, applied @ [AppliedDeepSeekFlashTopP])
     else (raw, applied))"

definition pu_stop :: "bool \<Rightarrow> json \<times> string list \<Rightarrow> json \<times> string list" where
  "pu_stop isDeepSeek = (\<lambda>(raw, applied).
     if isDeepSeek \<and> nonempty_arr raw ''tools'' \<noteq> None
     then (let (raw', changed) = ensureDSMLToolStop raw
           in if changed then (raw', applied @ [AppliedDeepSeekToolStop]) else (raw, applied))
     else (raw, applied))"

definition sanitize_tools :: "json \<Rightarrow> json \<times> nat" where
  "sanitize_tools raw =
     (case arr_at raw ''tools'' of
        Some tools \<Rightarrow>
          (let ys = map SanitizeUnsupportedPatterns tools
           in (jset ''tools'' (JArr (map fst ys)) raw, sum_list (map snd ys)))
      | None \<Rightarrow> (raw, 0))"

definition pu_patterns :: "bool \<Rightarrow> json \<times> string list \<Rightarrow> json \<times> string list" where
  "pu_patterns hasBadPattern = (\<lambda>(raw, applied).
     if hasBadPattern then
       (let (raw1, d1) = sanitize_tools raw;
            (raw2, d2) = (case obj_at raw1 ''response_format'' of
                            Some rf \<Rightarrow> (let (rf', d) = SanitizeUnsupportedPatterns rf
                                        in (jset ''response_format'' rf' raw1, d))
                          | None \<Rightarrow> (raw1, 0))
        in (raw2, if 0 < d1 + d2 then applied @ [AppliedToolPatternDrop] else applied))
     else (raw, applied))"

definition prepare_upstream_doc :: "string \<Rightarrow> string \<Rightarrow> json \<Rightarrow> json \<times> string list" where
  "prepare_upstream_doc body modelID raw =
     (let isDeepSeek = IsDeepSeekModel modelID; isFlash = IsDeepSeekFlashModel modelID;
          hasDeveloper = contains body (quoted ''developer'');
          hasReasoning = contains body (quoted ''reasoning'' @ '':'');
          hasStream = contains body (quoted ''stream'');
          hasMessages = contains body (quoted ''messages'');
          hasTools = contains body (quoted ''tools'');
          hasResponseFormat = contains body (quoted ''response_format'');
          hasBadPattern = ((hasTools \<or> hasResponseFormat) \<and> HasUnicodePropertyPattern body)
      in pu_patterns hasBadPattern
           (pu_stop isDeepSeek
             (pu_top_p isFlash
               (pu_stream hasStream
                 (pu_reason hasReasoning isDeepSeek hasMessages
                   (pu_roles hasDeveloper (raw, [])))))))"

definition needsParse :: "string \<Rightarrow> string \<Rightarrow> bool" where
  "needsParse body modelID =
     (let isDeepSeek = IsDeepSeekModel modelID; isFlash = IsDeepSeekFlashModel modelID;
          hasMessages = contains body (quoted ''messages'');
          hasTools = contains body (quoted ''tools'');
          hasBadPattern = ((hasTools \<or> contains body (quoted ''response_format'')) \<and>
                           HasUnicodePropertyPattern body)
      in contains body (quoted ''developer'') \<or> contains body (quoted ''reasoning'' @ '':'') \<or>
         contains body (quoted ''stream'') \<or>
         (isFlash \<and> \<not> contains body (quoted ''top_p'') \<and> hasMessages) \<or>
         (isDeepSeek \<and> (hasMessages \<or> hasTools)) \<or> hasBadPattern)"

definition PrepareUpstreamWithModel :: "string \<Rightarrow> string \<Rightarrow> (string \<times> string list) res" where
  "PrepareUpstreamWithModel body modelID =
     (if body = [] then Inr (body, [])
      else if \<not> needsParse body modelID then Inr (body, [])
      else case unmarshal_map body of
             None \<Rightarrow> Inl ''prepost: prepare upstream''
           | Some raw \<Rightarrow>
               (let (raw', applied) = prepare_upstream_doc body modelID raw
                in if applied = [] then Inr (body, []) else Inr (json_print raw', applied)))"

section \<open>Thinking configuration (normalize\_thinking.go)\<close>

definition normalize_thinking_doc :: "json \<Rightarrow> json option" where
  "normalize_thinking_doc raw =
     (case obj_at raw ''thinking'' of
        None \<Rightarrow> None
      | Some thinking \<Rightarrow>
          if str_at thinking ''type'' \<noteq> ''enabled'' then None
          else (case nonempty_arr raw ''messages'' of
                  None \<Rightarrow> None
                | Some msgs \<Rightarrow>
                    if str_at (last msgs) ''role'' = ''user'' then None
                    else Some (jdel ''thinking'' raw)))"

definition NormalizeThinkingConfig :: "string \<Rightarrow> string res" where
  "NormalizeThinkingConfig body =
     json_stage ''prepost: normalize thinking'' normalize_thinking_doc body"

section \<open>Token budget (adjust\_max\_tokens.go)\<close>

definition budget_tokens :: "json \<Rightarrow> rat option" where
  "budget_tokens raw = (case obj_at raw ''thinking'' of Some th \<Rightarrow> num_at th ''budget_tokens'' | None \<Rightarrow> None)"

definition adjusted_max_tokens :: "json \<Rightarrow> rat" where
  "adjusted_max_tokens raw =
     (let hasTools = (nonempty_arr raw ''tools'' \<noteq> None)
      in case num_at raw ''max_tokens'' of
           Some currentMT \<Rightarrow>
             (let newMT = (if hasTools \<and> currentMT < DefaultMinTokens then DefaultMinTokens else currentMT)
              in case budget_tokens raw of
                   Some budget \<Rightarrow> if newMT \<le> budget then budget + 1024 else newMT
                 | None \<Rightarrow> newMT)
         | None \<Rightarrow> if hasTools then DefaultMinTokens else 0)"

definition adjust_max_tokens_doc :: "json \<Rightarrow> json option" where
  "adjust_max_tokens_doc raw =
     (let newMT = adjusted_max_tokens raw
      in case num_at raw ''max_tokens'' of
           Some currentMT \<Rightarrow>
             if newMT = currentMT then None else Some (jset ''max_tokens'' (JNum newMT) raw)
         | None \<Rightarrow> if newMT = 0 then None else Some (jset ''max_tokens'' (JNum newMT) raw))"

definition AdjustMaxTokens :: "string \<Rightarrow> string res" where
  "AdjustMaxTokens body =
     json_stage ''prepost: adjust max tokens'' adjust_max_tokens_doc body"

section \<open>What the stages promise\<close>

text \<open>No message has the developer role; the three plain stages in sequence.\<close>

definition no_developer :: "json \<Rightarrow> bool" where
  "no_developer raw = (case arr_at raw ''messages'' of Some msgs \<Rightarrow> \<not> list_ex is_developer msgs | None \<Rightarrow> True)"

definition plain_ref :: "json \<Rightarrow> json" where
  "plain_ref v = apply_doc stream_options_doc (apply_doc normalize_reasoning_doc (apply_doc normalize_roles_doc v))"

definition thinking_allowed :: "json \<Rightarrow> bool" where
  "thinking_allowed raw =
     (case obj_at raw ''thinking'' of
        Some th \<Rightarrow> str_at th ''type'' = ''enabled'' \<longrightarrow>
          (case nonempty_arr raw ''messages'' of Some msgs \<Rightarrow> str_at (last msgs) ''role'' = ''user'' | None \<Rightarrow> True)
      | None \<Rightarrow> True)"

definition has_dsml_stop :: "json \<Rightarrow> bool" where
  "has_dsml_stop raw =
     (case jget raw ''stop'' of
        Some (JStr s) \<Rightarrow> s = DSMLToolCallsCloser
      | Some (JArr stop) \<Rightarrow> JStr DSMLToolCallsCloser \<in> set stop
      | _ \<Rightarrow> False)"

definition stop_count :: "json \<Rightarrow> nat" where
  "stop_count raw =
     (case jget raw ''stop'' of Some (JArr stop) \<Rightarrow> length stop | Some (JStr s) \<Rightarrow> 1 | _ \<Rightarrow> 0)"

primrec pattern_free :: "json \<Rightarrow> bool" where
  "pattern_free (JObj m) =
     (snd (drop_pattern m) = 0 \<and> snd (drop_pattern_properties m) = 0 \<and>
      list_all id (map snd (map (map_prod id pattern_free) m)))"
| "pattern_free (JArr xs) = list_all id (map pattern_free xs)"
| "pattern_free JNull = True"
| "pattern_free (JBool b) = True"
| "pattern_free (JNum r) = True"
| "pattern_free (JStr s) = True"

definition deepseek_ready :: "string \<Rightarrow> json \<Rightarrow> bool" where
  "deepseek_ready modelID raw =
     ((case arr_at raw ''messages'' of Some msgs \<Rightarrow> \<not> list_ex lacks_rc msgs | None \<Rightarrow> True) \<and>
      (IsDeepSeekFlashModel modelID \<longrightarrow> has_key raw ''top_p''))"

section \<open>The stages meet their contracts\<close>

lemma is_developer_obj: "is_developer m \<Longrightarrow> is_obj m"
  by (auto simp: is_developer_def dest: str_at_obj)

lemma norm_role_developer: "\<not> is_developer (norm_role m)"
  by (auto simp: norm_role_def is_developer_def str_at_jset dest: str_at_obj)

lemma normalize_roles_doc_eq: "normalize_roles_doc = messages_doc is_developer norm_role"
  by (simp add: fun_eq_iff normalize_roles_doc_def messages_doc_def)

interpretation roles: message_stage is_developer norm_role
proof
  fix m assume w: "wf_json m"
  show "wf_json (norm_role m)" using w by (auto simp: norm_role_def)
  show "\<not> is_developer m \<Longrightarrow> norm_role m = m" by (simp add: norm_role_def)
  show t: "is_developer (canon m) = is_developer m" using w by (simp add: is_developer_def str_at_canon)
  show "canon (norm_role (canon m)) = canon (norm_role m)"
    using w t is_developer_obj by (auto simp: norm_role_def canon_idem wf_json_canon intro!: canon_jset)
qed

interpretation developer_free: doc_contract no_developer
proof
  fix v assume "wf_json v" "no_developer v"
  then show "no_developer (canon v)"
    by (auto simp: no_developer_def arr_at_canon list_ex_iff is_developer_def str_at_canon
        dest: wf_json_arr_at split: option.splits)
qed

lemma developer_in_text:
  assumes "wf_json v" "arr_at v ''messages'' = Some msgs" "list_ex is_developer msgs"
  shows "contains (json_print v) (quoted ''developer'')"
proof -
  obtain m where m: "m \<in> set msgs" "str_at m ''role'' = ''developer''"
    using assms(3) by (auto simp: list_ex_iff is_developer_def)
  then have "contains (json_print m) (quoted ''developer'')"
    using wf_json_arr_at [OF assms(1,2)] json_print_str [of m "''role''" "''developer''"] by (simp add: quoted_tokens)
  then show ?thesis using json_print_message [OF assms(1,2) m(1)] contains_trans by blast
qed

lemma NormalizeRoles_print:
  assumes "wf_json v" "is_obj v"
  shows "NormalizeRoles (json_print v) = Inr (json_print (apply_doc normalize_roles_doc v))"
proof (cases "contains (json_print v) (quoted ''developer'')")
  case True
  then show ?thesis using assms roles.stage_on_print json_print_not_Nil
    by (simp add: NormalizeRoles_def normalize_roles_doc_eq)
next
  case False
  then have "apply_doc normalize_roles_doc v = v"
    using developer_in_text assms(1)
    by (auto simp: apply_doc_def normalize_roles_doc_def split: option.splits)
  then show ?thesis using False by (simp add: NormalizeRoles_def)
qed

lemma roles_result: "wf_json v \<Longrightarrow> is_obj v \<Longrightarrow> no_developer (apply_doc normalize_roles_doc v)"
  by (auto simp: normalize_roles_doc_eq roles.apply_messages no_developer_def arr_at_jset list_ex_iff
      norm_role_developer split: option.splits)

section \<open>Reasoning\<close>

lemma wants_copy_obj: "wants_copy m \<Longrightarrow> is_obj m"
  by (auto simp: wants_copy_def is_assistant_def dest: str_at_obj)

lemma normalize_reasoning_doc_eq: "normalize_reasoning_doc = messages_doc wants_copy copy_reasoning"
  by (simp add: fun_eq_iff normalize_reasoning_doc_def messages_doc_def)

lemma is_assistant_canon: "wf_json m \<Longrightarrow> is_assistant (canon m) = is_assistant m"
  by (simp add: is_assistant_def str_at_canon)

interpretation reasoning: message_stage wants_copy copy_reasoning
proof
  fix m assume w: "wf_json m"
  show "wf_json (copy_reasoning m)"
    using w by (auto simp: copy_reasoning_def split: option.splits dest: wf_json_jget)
  show "\<not> wants_copy m \<Longrightarrow> copy_reasoning m = m" by (simp add: copy_reasoning_def)
  show t: "wants_copy (canon m) = wants_copy m"
    using w by (simp add: wants_copy_def is_assistant_canon has_key_canon)
  show "canon (copy_reasoning (canon m)) = canon (copy_reasoning m)"
    using w t wants_copy_obj
    by (auto simp: copy_reasoning_def canon_idem wf_json_canon jget_canon split: option.splits
        intro!: canon_jset dest: wf_json_jget)
qed

lemma copy_in_text:
  assumes "wf_json v" "arr_at v ''messages'' = Some msgs" "list_ex wants_copy msgs"
  shows "contains (json_print v) (quoted ''reasoning'' @ '':'')"
proof -
  obtain m where m: "m \<in> set msgs" "has_key m ''reasoning''"
    using assms(3) by (auto simp: list_ex_iff wants_copy_def)
  then have "contains (json_print m) (quoted ''reasoning'' @ '':'')"
    using wf_json_arr_at [OF assms(1,2)] json_print_key [of m "''reasoning''"] by (simp add: quoted_tokens)
  then show ?thesis using json_print_message [OF assms(1,2) m(1)] contains_trans by blast
qed

lemma NormalizeRequestReasoning_print:
  assumes "wf_json v" "is_obj v"
  shows "NormalizeRequestReasoning (json_print v) = Inr (json_print (apply_doc normalize_reasoning_doc v))"
proof (cases "contains (json_print v) (quoted ''reasoning'' @ '':'')")
  case True
  then show ?thesis using assms reasoning.stage_on_print json_print_not_Nil
    by (simp add: NormalizeRequestReasoning_def normalize_reasoning_doc_eq)
next
  case False
  then have "apply_doc normalize_reasoning_doc v = v"
    using copy_in_text assms(1)
    by (auto simp: apply_doc_def normalize_reasoning_doc_def split: option.splits)
  then show ?thesis using False by (simp add: NormalizeRequestReasoning_def)
qed

interpretation stream_opts: doc_stage stream_options_doc
proof
  fix v assume v: "wf_json v" "is_obj v"
  have iu: "wf_json include_usage" by (simp add: include_usage_def wf_map_def)
  show "wf_json (apply_doc stream_options_doc v)" "is_obj (apply_doc stream_options_doc v)"
    using v iu by (auto simp: apply_doc_def stream_options_doc_def)
  show "canon (apply_doc stream_options_doc (canon v)) = canon (apply_doc stream_options_doc v)"
    using v iu by (auto simp: apply_doc_def stream_options_doc_def bool_at_canon has_key_canon canon_idem
        wf_json_canon intro!: canon_jset)
qed

lemma EnsureStreamOptions_print:
  "wf_json v \<Longrightarrow> is_obj v \<Longrightarrow>
   EnsureStreamOptions (json_print v) = Inr (json_print (apply_doc stream_options_doc v))"
  by (simp add: EnsureStreamOptions_def stream_opts.stage_on_print)

section \<open>The single pass equals the separate stages\<close>

lemma nonempty_arr_list_ex:
  "(case nonempty_arr v k of Some msgs \<Rightarrow> if list_ex p msgs then a msgs else b | None \<Rightarrow> b) =
   (case arr_at v k of Some msgs \<Rightarrow> if list_ex p msgs then a msgs else b | None \<Rightarrow> b)"
  by (auto simp: nonempty_arr_def split: option.splits list.splits)

lemma pu_roles_apply:
  assumes "wf_json v" "body = json_print v"
  shows "fst (pu_roles (contains body (quoted ''developer'')) (v, tks)) = apply_doc normalize_roles_doc v"
  using developer_in_text [OF assms(1)] assms(2)
  by (auto simp: pu_roles_def apply_doc_def normalize_roles_doc_def nonempty_arr_list_ex split: option.splits)

lemma pu_reason_msg_plain: "pu_reason_msg False = copy_reasoning"
  by (auto simp: fun_eq_iff pu_reason_msg_def copy_reasoning_def wants_copy_def has_key_def split: option.splits)

lemma pu_reason_changes_plain: "pu_reason_changes False = wants_copy"
  by (auto simp: pu_reason_changes_def wants_copy_def)

lemma wants_copy_norm_role: "wants_copy (norm_role m) = wants_copy m"
  using is_developer_obj [of m]
  by (auto simp: wants_copy_def norm_role_def is_assistant_def is_developer_def has_key_jset str_at_jset)

lemma wants_copy_map_norm_role: "list_ex wants_copy (map norm_role msgs) = list_ex wants_copy msgs"
  by (simp add: list_ex_iff wants_copy_norm_role)

lemma pu_reason_apply:
  assumes v: "wf_json v" "is_obj v" and w: "w = apply_doc normalize_roles_doc v"
  shows "fst (pu_reason (contains (json_print v) (quoted ''reasoning'' @ '':'')) False b (w, tks)) =
    apply_doc normalize_reasoning_doc w"
proof -
  have "contains (json_print v) (quoted ''reasoning'' @ '':'')"
    if "arr_at w ''messages'' = Some msgs" "list_ex wants_copy msgs" for msgs
    using that v w copy_in_text [OF v(1)]
    by (auto simp: normalize_roles_doc_eq roles.apply_messages arr_at_jset wants_copy_map_norm_role
        split: option.splits)
  then show ?thesis
    by (auto simp: pu_reason_def apply_doc_def normalize_reasoning_doc_def nonempty_arr_list_ex
        pu_reason_changes_plain pu_reason_msg_plain split: option.splits)
qed

lemma untouched_key:
  assumes "wf_json v" "is_obj v" "k \<noteq> ''messages''"
  shows "jget (apply_doc normalize_reasoning_doc (apply_doc normalize_roles_doc v)) k = jget v k"
proof -
  let ?w = "apply_doc normalize_roles_doc v"
  have "wf_json ?w" "is_obj ?w" using assms roles.stage_wf roles.stage_obj by (simp_all add: normalize_roles_doc_eq)
  then have "jget (apply_doc normalize_reasoning_doc ?w) k = jget ?w k"
    using assms(3) by (auto simp: normalize_reasoning_doc_eq reasoning.apply_messages jget_jset split: option.splits)
  moreover have "jget ?w k = jget v k"
    using assms by (auto simp: normalize_roles_doc_eq roles.apply_messages jget_jset split: option.splits)
  ultimately show ?thesis by simp
qed

lemma pu_stream_apply:
  assumes v: "wf_json v" "is_obj v" and s: "jget w ''stream'' = jget v ''stream''"
  shows "fst (pu_stream (contains (json_print v) (quoted ''stream'')) (w, tks)) = apply_doc stream_options_doc w"
proof -
  have "contains (json_print v) (quoted ''stream'')" if "bool_at w ''stream''"
  proof -
    have "has_key v ''stream''" using that s by (auto simp: bool_at_def has_key_def split: option.splits)
    then have "contains (json_print v) (quoted ''stream'' @ '':'')"
      using v json_print_key [of v "''stream''"] by (simp add: quoted_tokens)
    then show ?thesis by (metis contains_appendI1 contains_self contains_trans)
  qed
  then show ?thesis by (auto simp: pu_stream_def apply_doc_def stream_options_doc_def)
qed

lemma pu_plain_unchanged:
  "pu_stream b3 (pu_reason b2 False b4 (pu_roles b1 (raw, []))) = (w, []) \<Longrightarrow> w = raw"
  by (auto simp: pu_stream_def pu_reason_def pu_roles_def split: if_splits option.splits)

lemma prepare_doc_plain:
  assumes "\<not> IsDeepSeekModel model" "\<not> HasUnicodePropertyPattern body"
  shows "prepare_upstream_doc body model raw =
    pu_stream (contains body (quoted ''stream''))
      (pu_reason (contains body (quoted ''reasoning'' @ '':'')) False (contains body (quoted ''messages''))
        (pu_roles (contains body (quoted ''developer'')) (raw, [])))"
proof -
  have "\<not> IsDeepSeekFlashModel model" using assms by (simp add: IsDeepSeekModel_def IsDeepSeekFlashModel_def)
  then show ?thesis using assms
    by (simp add: prepare_upstream_doc_def pu_patterns_def pu_stop_def pu_top_p_def case_prod_unfold)
qed

lemma prepare_doc_plain_ref:
  assumes "wf_json v" "is_obj v" "\<not> IsDeepSeekModel model" "\<not> HasUnicodePropertyPattern (json_print v)"
  shows "fst (prepare_upstream_doc (json_print v) model v) = plain_ref v"
proof -
  let ?b = "json_print v"
  obtain w1 t1 where r1: "pu_roles (contains ?b (quoted ''developer'')) (v, []) = (w1, t1)" by fastforce
  then have w1: "w1 = apply_doc normalize_roles_doc v" using pu_roles_apply [OF assms(1) refl] by (metis fst_conv)
  obtain w2 t2 where r2: "pu_reason (contains ?b (quoted ''reasoning'' @ '':'')) False
      (contains ?b (quoted ''messages'')) (w1, t1) = (w2, t2)" by fastforce
  then have w2: "w2 = apply_doc normalize_reasoning_doc w1"
    using pu_reason_apply [OF assms(1,2) w1] by (metis fst_conv)
  have "jget w2 ''stream'' = jget v ''stream''" using untouched_key [OF assms(1,2)] w1 w2 by simp
  then have "fst (pu_stream (contains ?b (quoted ''stream'')) (w2, t2)) = apply_doc stream_options_doc w2"
    using assms(1,2) by (rule pu_stream_apply [rotated 2])
  then show ?thesis using r1 r2 w1 w2 assms(3,4) by (simp add: prepare_doc_plain plain_ref_def)
qed

lemma apply_doc_unmarked:
  "\<not> contains b (quoted ''developer'') \<Longrightarrow> \<not> contains b (quoted ''reasoning'' @ '':'') \<Longrightarrow>
   \<not> contains b (quoted ''stream'') \<Longrightarrow> \<not> IsDeepSeekModel model \<Longrightarrow> \<not> HasUnicodePropertyPattern b \<Longrightarrow>
   prepare_upstream_doc b model raw = (raw, [])"
  by (simp add: prepare_doc_plain pu_stream_def pu_reason_def pu_roles_def)

lemma plain_ref_facts:
  assumes "wf_json v" "is_obj v"
  shows "wf_json (plain_ref v)" "is_obj (plain_ref v)" "canon (plain_ref (canon v)) = canon (plain_ref v)"
proof -
  note st = normalize_roles_doc_eq normalize_reasoning_doc_eq
  let ?s1 = "apply_doc normalize_roles_doc" and ?s2 = "apply_doc normalize_reasoning_doc"
  have 1: "wf_json (?s1 w)" "is_obj (?s1 w)" if "wf_json w" "is_obj w" for w
    using that roles.stage_wf roles.stage_obj by (simp_all add: st)
  have 2: "wf_json (?s2 w)" "is_obj (?s2 w)" if "wf_json w" "is_obj w" for w
    using that reasoning.stage_wf reasoning.stage_obj by (simp_all add: st)
  show "wf_json (plain_ref v)" "is_obj (plain_ref v)"
    using assms 1 2 stream_opts.stage_wf stream_opts.stage_obj by (simp_all add: plain_ref_def)
  have c: "wf_json (canon v)" "is_obj (canon v)" using assms by (simp_all add: wf_json_canon)
  have "canon (?s1 (canon v)) = canon (?s1 v)" using assms roles.stage_order by (simp add: st)
  then have "canon (?s2 (?s1 (canon v))) = canon (?s2 (?s1 v))"
    using assms c 1 reasoning.stage_order [of "?s1 v"] reasoning.stage_order [of "?s1 (canon v)"] by (simp add: st)
  then show "canon (plain_ref (canon v)) = canon (plain_ref v)"
    using assms c 1 2 stream_opts.stage_order [of "?s2 (?s1 v)"] stream_opts.stage_order [of "?s2 (?s1 (canon v))"]
    by (simp add: plain_ref_def)
qed

lemma prepare_plain_result:
  assumes v: "wf_json v" "is_obj v" and m: "\<not> IsDeepSeekModel model" "\<not> HasUnicodePropertyPattern (json_print v)"
  shows "\<exists>tks. PrepareUpstreamWithModel (json_print v) model = Inr (json_print (plain_ref v), tks)"
proof -
  have c: "wf_json (canon v)" "is_obj (canon v)" using v by (simp_all add: wf_json_canon)
  have pc: "json_print (canon v) = json_print v" using v by (simp add: json_print_canon)
  obtain w tks where w: "prepare_upstream_doc (json_print v) model (canon v) = (w, tks)" by fastforce
  have "fst (prepare_upstream_doc (json_print (canon v)) model (canon v)) = plain_ref (canon v)"
    using c m by (intro prepare_doc_plain_ref) (simp_all add: pc)
  with w have "w = plain_ref (canon v)" by (simp add: pc)
  then have print_w: "json_print w = json_print (plain_ref v)"
    using plain_ref_facts(3) [OF v] by (simp add: json_print_def)
  have un: "json_print v = json_print (plain_ref v)" if "tks = []"
  proof -
    have "w = canon v" using w that m pu_plain_unchanged by (simp add: prepare_doc_plain)
    then show ?thesis using print_w pc by simp
  qed
  have "tks = []" if "\<not> needsParse (json_print v) model"
    using that w m apply_doc_unmarked by (simp add: needsParse_def Let_def)
  then have "PrepareUpstreamWithModel (json_print v) model =
      Inr (if tks = [] then json_print v else json_print w, tks)"
    using w v json_print_not_Nil [OF v(1)] unmarshal_map_print [OF v(1)]
    by (auto simp: PrepareUpstreamWithModel_def)
  moreover have "(if tks = [] then json_print v else json_print w) = json_print (plain_ref v)"
    using print_w un by (cases "tks = []") simp_all
  ultimately show ?thesis by simp
qed


section \<open>Thinking and token budget\<close>

lemma is_decimal_iff: "is_decimal r \<longleftrightarrow> (\<exists>i j. j \<le> 1100 \<and> r = of_int i / 10 ^ j)"
proof
  assume d: "is_decimal r"
  obtain p q where pq: "quotient_of r = (p, q)" by fastforce
  define k where "k = places 1100 0 q"
  have q0: "q > 0" using pq by (rule quotient_of_denom_pos)
  have "q dvd 10 ^ k" using d pq by (simp add: is_decimal_def k_def Let_def mod_eq_0_iff_dvd)
  then obtain c where c: "10 ^ k = q * c" by (auto elim: dvdE)
  then have "of_int (10 ^ k) = (of_int (q * c) :: rat)" by (rule arg_cong)
  then have c': "10 ^ k = (of_int q * of_int c :: rat)" by simp
  then have "c \<noteq> 0" by auto
  then have "r = of_int (p * c) / 10 ^ k" using quotient_of_div [OF pq] q0 c' by simp
  moreover have "k \<le> 1100" using places_le [of 1100 0 q] by (simp add: k_def)
  ultimately show "\<exists>i j. j \<le> 1100 \<and> r = of_int i / 10 ^ j" by blast
qed (auto intro: is_decimalI)

lemma is_decimal_add_int: "is_decimal r \<Longrightarrow> is_decimal (r + of_int n)"
proof -
  assume "is_decimal r"
  then obtain i j where j: "j \<le> 1100" "r = of_int i / 10 ^ j" by (auto simp: is_decimal_iff)
  then have "r + of_int n = of_int (i + n * 10 ^ j) / 10 ^ j" by (simp add: field_simps)
  then show ?thesis using j(1) is_decimalI by metis
qed

lemma num_at_decimal: "wf_json v \<Longrightarrow> num_at v k = Some r \<Longrightarrow> is_decimal r"
  by (auto simp: num_at_def split: option.splits json.splits dest: wf_json_jget)

lemma wf_json_obj_at: "wf_json v \<Longrightarrow> obj_at v k = Some x \<Longrightarrow> wf_json x"
  by (auto simp: obj_at_def split: option.splits json.splits simp del: wf_json.simps dest: wf_json_jget)

lemma nonempty_arr_canon: "wf_json v \<Longrightarrow> nonempty_arr (canon v) k = map_option (map canon) (nonempty_arr v k)"
  by (auto simp: nonempty_arr_def arr_at_canon split: option.splits list.splits)

lemma budget_tokens_canon: "wf_json v \<Longrightarrow> budget_tokens (canon v) = budget_tokens v"
  by (auto simp: budget_tokens_def obj_at_canon num_at_canon wf_json_obj_at split: option.splits)

lemma budget_decimal: "wf_json v \<Longrightarrow> budget_tokens v = Some b \<Longrightarrow> is_decimal b"
  by (auto simp: budget_tokens_def split: option.splits intro: num_at_decimal wf_json_obj_at)

lemma adjusted_canon: "wf_json v \<Longrightarrow> adjusted_max_tokens (canon v) = adjusted_max_tokens v"
  unfolding adjusted_max_tokens_def by (simp only: nonempty_arr_canon num_at_canon budget_tokens_canon) simp

lemma adjusted_decimal: "wf_json v \<Longrightarrow> is_decimal (adjusted_max_tokens v)"
  using is_decimal_int [of 4096] is_decimal_int [of 0] is_decimal_add_int [of _ 1024]
  by (auto simp: adjusted_max_tokens_def DefaultMinTokens_def Let_def dest: num_at_decimal budget_decimal
      split: option.splits)

interpretation max_tokens: doc_stage adjust_max_tokens_doc
proof
  fix v assume v: "wf_json v" "is_obj v"
  have n: "wf_json (JNum (adjusted_max_tokens v))" using v by (simp add: adjusted_decimal)
  show "wf_json (apply_doc adjust_max_tokens_doc v)" "is_obj (apply_doc adjust_max_tokens_doc v)"
    using v n by (auto simp: apply_doc_def adjust_max_tokens_doc_def Let_def split: option.splits)
  have "canon (jset ''max_tokens'' (JNum (adjusted_max_tokens v)) (canon v)) =
      canon (jset ''max_tokens'' (JNum (adjusted_max_tokens v)) v)"
    using v n by (intro canon_jset) (simp_all add: wf_json_canon canon_idem)
  then show "canon (apply_doc adjust_max_tokens_doc (canon v)) = canon (apply_doc adjust_max_tokens_doc v)"
    using v by (auto simp: apply_doc_def adjust_max_tokens_doc_def Let_def num_at_canon adjusted_canon canon_idem
        split: option.splits)
qed

lemma apply_adjust:
  assumes "wf_json v" "is_obj v"
  shows "num_at (apply_doc adjust_max_tokens_doc v) ''max_tokens'' =
    (if num_at v ''max_tokens'' = None \<and> adjusted_max_tokens v = 0 then None else Some (adjusted_max_tokens v))"
  using assms by (auto simp: apply_doc_def adjust_max_tokens_doc_def Let_def num_at_def jget_jset
      split: option.splits json.splits)

lemma AdjustMaxTokens_print:
  assumes "wf_json v" "is_obj v"
  shows "\<exists>d. AdjustMaxTokens (json_print v) = Inr (json_print (apply_doc adjust_max_tokens_doc v)) \<and>
    unmarshal_map (json_print (apply_doc adjust_max_tokens_doc v)) = Some d \<and>
    num_at d ''max_tokens'' = num_at (apply_doc adjust_max_tokens_doc v) ''max_tokens''"
  using max_tokens.stage_on_print [OF assms] max_tokens.stage_wf [OF assms] max_tokens.stage_obj [OF assms]
  by (simp add: AdjustMaxTokens_def unmarshal_map_print num_at_canon)

text \<open>
  When max_tokens and thinking.budget_tokens are both numbers, AdjustMaxTokens leaves a max_tokens
  that is strictly above the thinking budget, never below the given one, and at least 4096 when there
  are tools.
\<close>

theorem adjust_max_tokens_exceeds_budget:
  assumes "wf_json v" "is_obj v" "num_at v ''max_tokens'' = Some mt" "budget_tokens v = Some b"
  shows "\<exists>out d new. AdjustMaxTokens (json_print v) = Inr out \<and> unmarshal_map out = Some d \<and>
    num_at d ''max_tokens'' = Some new \<and> b < new \<and> mt \<le> new \<and>
    (nonempty_arr v ''tools'' \<noteq> None \<longrightarrow> DefaultMinTokens \<le> new)"
proof -
  let ?n = "adjusted_max_tokens v"
  have "b < ?n \<and> mt \<le> ?n \<and> (nonempty_arr v ''tools'' \<noteq> None \<longrightarrow> DefaultMinTokens \<le> ?n)"
    using assms by (auto simp: adjusted_max_tokens_def Let_def)
  moreover have "num_at (apply_doc adjust_max_tokens_doc v) ''max_tokens'' = Some ?n"
    using assms by (simp add: apply_adjust)
  ultimately show ?thesis using AdjustMaxTokens_print [OF assms(1,2)] by auto
qed

text \<open>
  When max_tokens is missing and there are tools, AdjustMaxTokens sets exactly 4096, whatever the
  thinking budget: a budget of 4096 or more is then not below max_tokens.
\<close>

theorem adjust_max_tokens_ignores_budget_when_missing:
  assumes "wf_json v" "is_obj v" "num_at v ''max_tokens'' = None" "nonempty_arr v ''tools'' \<noteq> None"
  shows "\<exists>out d. AdjustMaxTokens (json_print v) = Inr out \<and> unmarshal_map out = Some d \<and>
    num_at d ''max_tokens'' = Some DefaultMinTokens"
proof -
  have "adjusted_max_tokens v = DefaultMinTokens" using assms by (auto simp: adjusted_max_tokens_def Let_def)
  then have "num_at (apply_doc adjust_max_tokens_doc v) ''max_tokens'' = Some DefaultMinTokens"
    using assms by (simp add: apply_adjust DefaultMinTokens_def)
  then show ?thesis using AdjustMaxTokens_print [OF assms(1,2)] by auto
qed

lemma last_role_canon:
  assumes "wf_json v" "nonempty_arr v k = Some msgs"
  shows "str_at (last (map canon msgs)) r = str_at (last msgs) r"
proof -
  have a: "arr_at v k = Some msgs" "msgs \<noteq> []"
    using assms(2) by (auto simp: nonempty_arr_def split: option.splits list.splits)
  then have "wf_json (last msgs)" using wf_json_arr_at [OF assms(1) a(1)] by simp
  then show ?thesis using a(2) by (simp add: last_map str_at_canon)
qed

interpretation thinking: doc_stage normalize_thinking_doc
proof
  fix v assume v: "wf_json v" "is_obj v"
  show "wf_json (apply_doc normalize_thinking_doc v)" "is_obj (apply_doc normalize_thinking_doc v)"
    using v by (auto simp: apply_doc_def normalize_thinking_doc_def split: option.splits)
  have j: "canon (jdel ''thinking'' (canon v)) = canon (jdel ''thinking'' v)"
    using v by (intro canon_eqI) (auto simp: wf_json_canon wf_json_jdel jget_jdel jget_canon canon_idem
        option.map_comp comp_def dest: wf_json_jget intro!: option.map_cong)
  show "canon (apply_doc normalize_thinking_doc (canon v)) = canon (apply_doc normalize_thinking_doc v)"
    using v j last_role_canon by (auto simp: apply_doc_def normalize_thinking_doc_def obj_at_canon nonempty_arr_canon
        str_at_canon wf_json_obj_at canon_idem split: option.splits)
qed

interpretation thinking_ok: doc_contract thinking_allowed
proof
  fix v assume w: "wf_json v" and t: "thinking_allowed v"
  show "thinking_allowed (canon v)"
    using w t last_role_canon by (auto simp: thinking_allowed_def obj_at_canon nonempty_arr_canon str_at_canon wf_json_obj_at
        split: option.splits)
qed

text \<open>
  Whatever NormalizeThinkingConfig returns decodes to a request in which thinking is enabled only when
  the last message is from the user (or there is no message).
\<close>

theorem normalize_thinking_allowed:
  assumes "NormalizeThinkingConfig body = Inr out" "unmarshal_map body = Some raw"
  shows "\<exists>d. unmarshal_map out = Some d \<and> thinking_allowed d"
proof -
  have "thinking_ok.holds_on out"
  proof (rule thinking_ok.stage_lift [OF assms(1) [unfolded NormalizeThinkingConfig_def] assms(2)])
    show "normalize_thinking_doc raw = None \<Longrightarrow> thinking_allowed raw"
      by (auto simp: normalize_thinking_doc_def thinking_allowed_def split: option.splits if_splits)
    show "normalize_thinking_doc raw = Some r \<Longrightarrow> wf_json r \<and> (is_obj r \<or> r = JNull) \<and> thinking_allowed r" for r
    proof -
      assume "normalize_thinking_doc raw = Some r"
      then have "r = jdel ''thinking'' raw" "obj_at raw ''thinking'' \<noteq> None"
        by (auto simp: normalize_thinking_doc_def split: option.splits if_splits)
      moreover from this(2) have "is_obj raw" by (cases raw) (auto simp: obj_at_def)
      ultimately show ?thesis using unmarshal_map_wf [OF assms(2)]
        by (auto simp: wf_json_jdel thinking_allowed_def obj_at_def jget_jdel)
    qed
  qed
  then show ?thesis by (simp add: thinking_ok.holds_on_def)
qed

section \<open>The stop string and the patterns\<close>

text \<open>
  ensureDSMLToolStop reports a change exactly when it makes one; then the closer is among the stop
  strings, exactly one entry was added and the limit of four is kept; a second call changes nothing
  and no other key is touched.
\<close>

theorem dsml_stop_added_within_limit:
  assumes "is_obj raw" "ensureDSMLToolStop raw = (raw', changed)"
  shows "(changed \<longleftrightarrow> raw' \<noteq> raw) \<and>
    (changed \<longrightarrow> has_dsml_stop raw' \<and> stop_count raw' = Suc (stop_count raw) \<and> stop_count raw' \<le> maxOpenAIStops) \<and>
    ensureDSMLToolStop raw' = (raw', False) \<and>
    (\<forall>k. k \<noteq> ''stop'' \<longrightarrow> jget raw' k = jget raw k)"
  using assms
  by (auto simp: ensureDSMLToolStop_def has_dsml_stop_def stop_count_def maxOpenAIStops_def jget_jset list_ex_iff
      split: option.splits json.splits if_splits)

lemma pattern_free_obj:
  "pattern_free (JObj m) \<longleftrightarrow> snd (drop_pattern m) = 0 \<and> snd (drop_pattern_properties m) = 0 \<and>
     (\<forall>(k, v) \<in> set m. pattern_free v)"
  by (auto simp: list_all_iff)

lemma map_of_fst_map: "map_of (map (\<lambda>(k, v). (k, f v)) m) k = map_option f (map_of m k)"
  by (induction m) auto


lemma sanitize_obj:
  "SanitizeUnsupportedPatterns (JObj m) =
    (let n = fst (drop_pattern_properties (fst (drop_pattern m)))
     in (JObj (map (\<lambda>(k, v). (k, fst (SanitizeUnsupportedPatterns v))) n),
         snd (drop_pattern m) + snd (drop_pattern_properties (fst (drop_pattern m))) +
         sum_list (map (\<lambda>(k, v). snd (SanitizeUnsupportedPatterns v)) n)))"
  by (simp add: Let_def case_prod_unfold comp_def)

lemma sanitize_shape [simp]:
  "fst (SanitizeUnsupportedPatterns v) = JStr s \<longleftrightarrow> v = JStr s"
  "fst (SanitizeUnsupportedPatterns v) = JObj n \<Longrightarrow> \<exists>m. v = JObj m"
  by (cases v; auto simp: Let_def)+

lemma drop_pattern_dropped: "snd (drop_pattern (fst (drop_pattern m))) = 0"
  by (auto simp: drop_pattern_def map_of_mdel split: option.splits json.splits)

lemma drop_properties_pattern:
  "map_of (fst (drop_pattern_properties m)) ''pattern'' = map_of m ''pattern''"
  by (auto simp: drop_pattern_properties_def map_of_mput split: option.splits json.splits)

lemma drop_pattern_zero:
  "snd (drop_pattern m) = 0 \<longleftrightarrow>
    (\<forall>s. map_of m ''pattern'' = Some (JStr s) \<longrightarrow> \<not> hasUnicodePropertyEscape s)"
  by (auto simp: drop_pattern_def split: option.splits json.splits)

lemma sanitize_obj_keys:
  "fst (SanitizeUnsupportedPatterns (JObj m)) = JObj n \<Longrightarrow> fst ` set n \<subseteq> fst ` set m"
proof -
  have p: "fst ` set (fst (drop_pattern m)) \<subseteq> fst ` set m" for m
    by (auto simp: drop_pattern_def AList.delete_eq split: option.splits json.splits)
  have q: "fst ` set (fst (drop_pattern_properties m)) \<subseteq> fst ` set m" for m
  proof (cases "\<exists>pp. map_of m ''patternProperties'' = Some (JObj pp)")
    case True
    then have "''patternProperties'' \<in> fst ` set m" by (metis domI dom_map_of_conv_image_fst)
    then show ?thesis using True by (force simp: drop_pattern_properties_def dest!: set_mput_subset [THEN subsetD])
  qed (auto simp: drop_pattern_properties_def split: option.splits json.splits)
  assume "fst (SanitizeUnsupportedPatterns (JObj m)) = JObj n"
  then have "fst ` set n \<subseteq> fst ` set (fst (drop_pattern_properties (fst (drop_pattern m))))"
    unfolding sanitize_obj Let_def by (auto simp: case_prod_unfold)
  then show ?thesis by (rule order_trans [OF _ order_trans [OF q p]])
qed

lemma drop_properties_zero:
  "snd (drop_pattern_properties m) = 0 \<longleftrightarrow>
    (\<forall>pp. map_of m ''patternProperties'' = Some (JObj pp) \<longrightarrow> (\<forall>k \<in> fst ` set pp. \<not> hasUnicodePropertyEscape k))"
  by (auto simp: drop_pattern_properties_def filter_empty_conv split: option.splits json.splits)

lemma drop_properties_dropped:
  "map_of (fst (drop_pattern_properties m)) ''patternProperties'' = Some (JObj pp) \<Longrightarrow>
   k \<in> fst ` set pp \<Longrightarrow> \<not> hasUnicodePropertyEscape k"
  by (auto simp: drop_pattern_properties_def map_of_mput split: option.splits json.splits)

lemma sanitize_pattern_free: "pattern_free (fst (SanitizeUnsupportedPatterns v))"
proof (induction v rule: SanitizeUnsupportedPatterns.induct)
  case (1 m)
  let ?n = "fst (drop_pattern_properties (fst (drop_pattern m)))"
  let ?r = "map (\<lambda>(k, v). (k, fst (SanitizeUnsupportedPatterns v))) ?n"
  have "snd (drop_pattern ?r) = 0"
    using drop_pattern_dropped [of m] by (auto simp: drop_pattern_zero map_of_fst_map drop_properties_pattern)
  moreover have "snd (drop_pattern_properties ?r) = 0"
    unfolding drop_properties_zero
  proof (intro allI impI ballI)
    fix pp k assume "map_of ?r ''patternProperties'' = Some (JObj pp)" and k: "k \<in> fst ` set pp"
    then obtain q where q: "map_of ?n ''patternProperties'' = Some (JObj q)"
      "fst (SanitizeUnsupportedPatterns (JObj q)) = JObj pp"
      unfolding map_of_fst_map map_option_eq_Some using sanitize_shape(2) by blast
    then show "\<not> hasUnicodePropertyEscape k"
      using k sanitize_obj_keys [OF q(2)] drop_properties_dropped [OF q(1)] by blast
  qed
  moreover have "pattern_free (fst (SanitizeUnsupportedPatterns w))" if "(k, w) \<in> set ?n" for k w
    using 1 [OF refl refl that refl] .
  ultimately show ?case unfolding sanitize_obj Let_def fst_conv pattern_free_obj by auto
qed (auto simp: Let_def list_all_iff)

lemma drop_zero_id: "snd (drop_pattern m) = 0 \<Longrightarrow> fst (drop_pattern m) = m"
  "snd (drop_pattern_properties m) = 0 \<Longrightarrow> fst (drop_pattern_properties m) = m"
proof -
  have up: "map_of m k = Some v \<Longrightarrow> mput k v m = m" for k v by (induction m) (auto split: if_splits)
  show "snd (drop_pattern m) = 0 \<Longrightarrow> fst (drop_pattern m) = m"
    by (auto simp: drop_pattern_def split: option.splits json.splits)
  assume z: "snd (drop_pattern_properties m) = 0"
  have "filter (\<lambda>(k, v). \<not> hasUnicodePropertyEscape k) pp = pp"
    if "map_of m ''patternProperties'' = Some (JObj pp)" for pp
    using z that by (auto simp: drop_properties_zero intro!: filter_True)
  then show "fst (drop_pattern_properties m) = m"
    using up by (auto simp: drop_pattern_properties_def split: option.splits json.splits)
qed

lemma sanitize_zero_id: "snd (SanitizeUnsupportedPatterns v) = 0 \<Longrightarrow> fst (SanitizeUnsupportedPatterns v) = v"
proof (induction v rule: SanitizeUnsupportedPatterns.induct)
  case (1 m)
  then have z: "snd (drop_pattern m) = 0" "snd (drop_pattern_properties (fst (drop_pattern m))) = 0"
    by (auto simp: sanitize_obj Let_def simp del: SanitizeUnsupportedPatterns.simps)
  then have id: "fst (drop_pattern_properties (fst (drop_pattern m))) = m" by (simp add: drop_zero_id)
  have "fst (SanitizeUnsupportedPatterns w) = w" if "(k, w) \<in> set m" for k w
    using 1(1) [OF refl refl _ refl, of k w] 1(2) that id
    by (auto simp: sanitize_obj Let_def simp del: SanitizeUnsupportedPatterns.simps)
  then show ?case using id
    by (auto simp: sanitize_obj Let_def simp del: SanitizeUnsupportedPatterns.simps intro!: map_idI)
next
  case (2 xs)
  then show ?case by (auto simp: Let_def intro!: map_idI)
qed auto

lemma pattern_free_zero: "pattern_free v \<Longrightarrow> snd (SanitizeUnsupportedPatterns v) = 0"
proof (induction v rule: SanitizeUnsupportedPatterns.induct)
  case (1 m)
  then have z: "snd (drop_pattern m) = 0" "snd (drop_pattern_properties m) = 0" by (auto simp: pattern_free_obj)
  then have id: "fst (drop_pattern m) = m" "fst (drop_pattern_properties m) = m" by (simp_all add: drop_zero_id)
  have "snd (SanitizeUnsupportedPatterns w) = 0" if "(k, w) \<in> set m" for k w
    using 1(1) [OF refl refl _ refl, of k w] 1(2) that id by (auto simp: pattern_free_obj simp del: pattern_free.simps)
  then show ?case using id z
    by (auto simp: sanitize_obj Let_def simp del: SanitizeUnsupportedPatterns.simps)
qed (auto simp: Let_def list_all_iff)

text \<open>
  SanitizeUnsupportedPatterns returns a schema free of unicode-property patterns at every depth,
  counts zero exactly when the schema was already free of them, returns the schema itself then, and is
  idempotent.
\<close>

theorem sanitize_patterns_correct:
  "pattern_free (fst (SanitizeUnsupportedPatterns v)) \<and>
   (snd (SanitizeUnsupportedPatterns v) = 0 \<longleftrightarrow> pattern_free v) \<and>
   SanitizeUnsupportedPatterns (fst (SanitizeUnsupportedPatterns v)) = (fst (SanitizeUnsupportedPatterns v), 0) \<and>
   (pattern_free v = (SanitizeUnsupportedPatterns v = (v, 0)))"
  using sanitize_pattern_free sanitize_zero_id pattern_free_zero by (metis prod.collapse prod.inject)


section \<open>Roles and DeepSeek on request bodies\<close>

text \<open>
  NormalizeRoles on the encoding of any JSON object succeeds, its output decodes to a document without
  a developer message, every key other than messages keeps its value, and a second run changes
  nothing.
\<close>

theorem normalize_roles_removes_developer:
  assumes "wf_json v" "is_obj v"
  shows "\<exists>out d. NormalizeRoles (json_print v) = Inr out \<and> unmarshal_map out = Some d \<and> no_developer d \<and>
    NormalizeRoles out = Inr out \<and> (\<forall>k. k \<noteq> ''messages'' \<longrightarrow> jget d k = map_option canon (jget v k))"
proof -
  let ?w = "apply_doc normalize_roles_doc v"
  have w: "wf_json ?w" "is_obj ?w" using assms roles.stage_wf roles.stage_obj by (simp_all add: normalize_roles_doc_eq)
  have "apply_doc normalize_roles_doc ?w = ?w"
    using roles_result [OF assms] by (auto simp: apply_doc_def [of _ ?w] normalize_roles_doc_def [of ?w] no_developer_def
        split: option.splits)
  then have "NormalizeRoles (json_print ?w) = Inr (json_print ?w)" using NormalizeRoles_print [OF w] by simp
  moreover have "no_developer (canon ?w)" using developer_free.canon_closed [OF w(1)] roles_result [OF assms] .
  moreover have "jget (canon ?w) k = map_option canon (jget v k)" if "k \<noteq> ''messages''" for k
    using that assms w by (auto simp: jget_canon normalize_roles_doc_eq roles.apply_messages jget_jset split: option.splits)
  ultimately show ?thesis using NormalizeRoles_print [OF assms] unmarshal_map_print [OF w(1)] w(2) by auto
qed

interpretation deepseek_ok: doc_contract "deepseek_ready modelID" for modelID
proof
  fix v assume "wf_json v" "deepseek_ready modelID v"
  then show "deepseek_ready modelID (canon v)"
    by (auto simp: deepseek_ready_def arr_at_canon list_ex_iff lacks_rc_def is_assistant_canon has_key_canon
        dest: wf_json_arr_at split: option.splits)
qed

lemma lacks_rc_obj: "lacks_rc m \<Longrightarrow> is_obj m"
  by (auto simp: lacks_rc_def is_assistant_def dest: str_at_obj)

lemma ensure_rc_done: "\<not> lacks_rc (ensure_rc m)"
  using lacks_rc_obj [of m] by (auto simp: ensure_rc_def lacks_rc_def has_key_jset split: if_splits)

lemma wf_ensure_rc: "wf_json m \<Longrightarrow> wf_json (ensure_rc m)"
  by (auto simp: ensure_rc_def split: option.splits dest: wf_json_jget)

lemma deepseek_top_p: "wf_json (JNum DeepSeekFlashTopP)"
  using is_decimalI [of 2 95] by (simp add: DeepSeekFlashTopP_def)

text \<open>
  For a DeepSeek model and a body that mentions messages, the output of NormalizeDeepSeek decodes to a
  request in which every assistant message has reasoning_content and, for a flash model, top_p is set.
\<close>

theorem normalize_deepseek_ready:
  assumes "NormalizeDeepSeek body modelID = Inr out" "unmarshal_map body = Some raw" "is_obj raw"
    and "IsDeepSeekModel modelID" "contains body (quoted ''messages'')"
  shows "\<exists>d. unmarshal_map out = Some d \<and> deepseek_ready modelID d"
proof -
  have st: "json_stage ''prepost: normalize deepseek'' (normalize_deepseek_doc modelID) body = Inr out"
    using assms(1,4,5) by (auto simp: NormalizeDeepSeek_def json_stage_def split: if_splits)
  have w: "wf_json raw" using unmarshal_map_wf [OF assms(2)] by simp
  have "deepseek_ok.holds_on modelID out"
  proof (rule deepseek_ok.stage_lift [OF st assms(2)])
    show "normalize_deepseek_doc modelID raw = None \<Longrightarrow> deepseek_ready modelID raw"
      by (auto simp: normalize_deepseek_doc_def deepseek_ready_def Let_def split: option.splits if_splits)
    have "\<not> list_ex lacks_rc (map ensure_rc msgs)" for msgs by (simp add: list_ex_iff ensure_rc_done)
    moreover have "wf_json (JArr (map ensure_rc msgs))" if "arr_at raw ''messages'' = Some msgs" for msgs
      using wf_json_arr_at [OF w that] wf_ensure_rc by auto
    ultimately show "normalize_deepseek_doc modelID raw = Some r \<Longrightarrow>
        wf_json r \<and> (is_obj r \<or> r = JNull) \<and> deepseek_ready modelID r" for r
      using w assms(3) deepseek_top_p
      by (auto simp: normalize_deepseek_doc_def deepseek_ready_def Let_def
        arr_at_jset has_key_jset simp del: wf_json.simps split: option.splits if_splits)
  qed
  then show ?thesis by (simp add: deepseek_ok.holds_on_def)
qed

section \<open>The properties at concrete requests\<close>

definition budget_req :: json where
  "budget_req = JObj [(''max_tokens'', JNum 100),
     (''thinking'', JObj [(''type'', JStr ''enabled''), (''budget_tokens'', JNum 5000)])]"

lemma budget_req_wf: "wf_json budget_req" "is_obj budget_req"
  using is_decimal_int [of 100] is_decimal_int [of 5000] by (simp_all add: budget_req_def wf_map_def)

definition dev_req :: json where
  "dev_req = JObj [(''model'', JStr ''m''), (''stream'', JBool True),
     (''messages'', JArr [JObj [(''role'', JStr ''developer''), (''content'', JStr ''x'')],
                          JObj [(''role'', JStr ''assistant''), (''reasoning'', JStr ''y'')]])]"

definition bare_tools_req :: json where
  "bare_tools_req = JObj [(''thinking'', JObj [(''type'', JStr ''enabled''), (''budget_tokens'', JNum 5000)]),
     (''tools'', JArr [JNull])]"

lemma dev_req_wf: "wf_json dev_req" "is_obj dev_req"
  by (simp_all add: dev_req_def wf_map_def)

lemma bare_tools_req_wf: "wf_json bare_tools_req" "is_obj bare_tools_req"
  using is_decimal_int [of 5000] by (simp_all add: bare_tools_req_def wf_map_def)


theorem normalize_roles_removes_developer_witness: "\<exists>out d. NormalizeRoles (json_print dev_req) = Inr out \<and> unmarshal_map out = Some d \<and> no_developer d"
  using normalize_roles_removes_developer [OF dev_req_wf] by blast

theorem adjust_max_tokens_exceeds_budget_witness: "\<exists>out d new. AdjustMaxTokens (json_print budget_req) = Inr out \<and> unmarshal_map out = Some d \<and>
    num_at d ''max_tokens'' = Some new \<and> 5000 < new"
proof -
  have "num_at budget_req ''max_tokens'' = Some 100" "budget_tokens budget_req = Some 5000"
    by (simp_all add: budget_req_def num_at_def budget_tokens_def obj_at_def)
  from adjust_max_tokens_exceeds_budget [OF budget_req_wf this] show ?thesis by blast
qed

theorem adjust_max_tokens_ignores_budget_when_missing_witness: "\<exists>out d. AdjustMaxTokens (json_print bare_tools_req) = Inr out \<and>
    unmarshal_map out = Some d \<and> num_at d ''max_tokens'' = Some 4096 \<and> budget_tokens bare_tools_req = Some 5000"
proof -
  have "num_at bare_tools_req ''max_tokens'' = None" "nonempty_arr bare_tools_req ''tools'' \<noteq> None"
    "budget_tokens bare_tools_req = Some 5000"
    by (simp_all add: bare_tools_req_def num_at_def nonempty_arr_def arr_at_def budget_tokens_def obj_at_def)
  with adjust_max_tokens_ignores_budget_when_missing [OF bare_tools_req_wf] show ?thesis
   by (auto simp: DefaultMinTokens_def)
qed

definition dsml_req :: json where "dsml_req = JObj [(''stop'', JArr [JStr ''a'', JStr ''b'', JStr ''c''])]"

theorem dsml_stop_added_within_limit_witness: "has_dsml_stop (fst (ensureDSMLToolStop dsml_req)) \<and> stop_count (fst (ensureDSMLToolStop dsml_req)) = 4"
proof -
  have "is_obj dsml_req" "ensureDSMLToolStop dsml_req = (fst (ensureDSMLToolStop dsml_req), True)"
   "stop_count dsml_req = 3" by code_simp+
  from dsml_stop_added_within_limit [OF this(1,2)] this(3) show ?thesis by simp
qed

definition thinking_body :: string where
  "thinking_body = json_print (JObj [(''thinking'', JObj [(''type'', JStr ''enabled'')]),
     (''messages'', JArr [JObj [(''role'', JStr ''assistant'')]])])"

theorem normalize_thinking_allowed_witness: "\<exists>out d. NormalizeThinkingConfig thinking_body = Inr out \<and> unmarshal_map out = Some d \<and> thinking_allowed d"
proof -
  have "NormalizeThinkingConfig thinking_body = Inr (projr (NormalizeThinkingConfig thinking_body))"
     "unmarshal_map thinking_body = Some (the (unmarshal_map thinking_body))" by code_simp+
  from normalize_thinking_allowed [OF this] this(1) show ?thesis by blast
qed


definition deepseek_body :: string where
  "deepseek_body = json_print (JObj [(''messages'', JArr [JObj [(''role'', JStr ''assistant'')]])])"

theorem normalize_deepseek_ready_witness:
  "\<exists>out d. NormalizeDeepSeek deepseek_body ''deepseek-flash'' = Inr out \<and> unmarshal_map out = Some d \<and>
    deepseek_ready ''deepseek-flash'' d"
proof -
  let ?m = "''deepseek-flash''"
  have ok: "isl (NormalizeDeepSeek deepseek_body ?m) = False" "unmarshal_map deepseek_body = Some (the (unmarshal_map deepseek_body))"
    "is_obj (the (unmarshal_map deepseek_body))" "IsDeepSeekModel ?m" "contains deepseek_body (quoted ''messages'')"
    by code_simp+
  then obtain out where "NormalizeDeepSeek deepseek_body ?m = Inr out" by (auto simp: isl_def) (metis sum.exhaust)
  from normalize_deepseek_ready [OF this ok(2-5)] this show ?thesis by blast
qed

end
