(* ===== verification/Prepost_Claude.thy ===== *)
theory Prepost_Claude
  imports Prepost_OpenAI
begin

text \<open>
  The Claude-shaped request normalisations of internal/translate/internal/prepost: the blocks the
  Anthropic API rejects, empty messages, the order of tool\_use blocks, the merging of adjacent
  messages, cache\_control, and the two entry points \<open>NormalizeClaudeContent\<close>
  (normalize\_claude.go) and \<open>PrepareClaudeRequest\<close> (prepare\_claude.go).
\<close>

section \<open>Blocks and messages\<close>

definition isRejectableBlock :: "json \<Rightarrow> bool" where
  "isRejectableBlock p =
     (let typ = str_at p ''type'' in
      if typ = ''text'' then str_at p ''text'' = []
      else if typ = ''thinking'' then str_at p ''thinking'' = [] \<and> str_at p ''signature'' = []
      else if typ = ''redacted_thinking'' then str_at p ''data'' = []
      else False)"

text \<open>The blocks of one message: the kept ones, and whether a rejectable block was removed.\<close>

definition strip_message :: "json \<Rightarrow> json \<times> bool" where
  "strip_message m =
     (case nonempty_arr m ''content'' of
        None \<Rightarrow> (m, False)
      | Some content \<Rightarrow>
          (jset ''content'' (JArr (filter (\<lambda>p. is_obj p \<and> \<not> isRejectableBlock p) content)) m,
           list_ex (\<lambda>p. is_obj p \<and> isRejectableBlock p) content))"

definition stripRejectableBlocks :: "json list \<Rightarrow> json list \<times> bool" where
  "stripRejectableBlocks msgs =
     (map (\<lambda>m. fst (strip_message m)) msgs, list_ex (\<lambda>m. snd (strip_message m)) msgs)"

definition block_has_payload :: "json \<Rightarrow> bool" where
  "block_has_payload p =
     (is_obj p \<and>
      (let typ = str_at p ''type'' in
       if typ = ''text'' then str_at p ''text'' \<noteq> []
       else typ = ''tool_use'' \<or> typ = ''tool_result'' \<or> typ = ''image''))"

definition hasValidContent :: "json \<Rightarrow> bool" where
  "hasValidContent m =
     (nonempty_arr m ''tool_calls'' \<noteq> None \<or>
      (case jget m ''content'' of
         Some (JStr c) \<Rightarrow> c \<noteq> []
       | Some (JArr c) \<Rightarrow> list_ex block_has_payload c
       | _ \<Rightarrow> False))"

definition keep_message :: "bool \<Rightarrow> json \<Rightarrow> bool" where
  "keep_message isLast m =
     (is_obj m \<and> (if isLast \<and> str_at m ''role'' = ''assistant'' then True else hasValidContent m))"

fun dropEmptyMessages :: "json list \<Rightarrow> json list" where
  "dropEmptyMessages [] = []"
| "dropEmptyMessages (m # ms) =
     (if keep_message (ms = []) m then m # dropEmptyMessages ms else dropEmptyMessages ms)"

section \<open>Order of tool\_use blocks\<close>

definition is_tool_use :: "json \<Rightarrow> bool" where
  "is_tool_use p = (str_at p ''type'' = ''tool_use'')"

definition is_thinking :: "json \<Rightarrow> bool" where
  "is_thinking p = (str_at p ''type'' = ''thinking'' \<or> str_at p ''type'' = ''redacted_thinking'')"

fun order_content :: "bool \<Rightarrow> json list \<Rightarrow> json list" where
  "order_content foundToolUse [] = []"
| "order_content foundToolUse (p # ps) =
     (if is_tool_use p then p # order_content True ps
      else if is_thinking p then p # order_content foundToolUse ps
      else if \<not> foundToolUse then p # order_content foundToolUse ps
      else order_content foundToolUse ps)"

definition order_message :: "json \<Rightarrow> json" where
  "order_message m =
     (if str_at m ''role'' \<noteq> ''assistant'' then m
      else case arr_at m ''content'' of
             None \<Rightarrow> m
           | Some content \<Rightarrow>
               if list_ex is_tool_use content
               then jset ''content'' (JArr (order_content False content)) m
               else m)"

definition fixToolUseOrderingInPlace :: "json list \<Rightarrow> json list" where
  "fixToolUseOrderingInPlace msgs = map order_message msgs"

section \<open>Merging adjacent messages\<close>

definition isToolResult :: "json \<Rightarrow> bool" where
  "isToolResult p = (str_at p ''type'' = ''tool_result'')"

definition content_list :: "json \<Rightarrow> json list" where
  "content_list m = (case arr_at m ''content'' of Some c \<Rightarrow> c | None \<Rightarrow> [])"

definition mergeInto :: "json \<Rightarrow> json \<Rightarrow> json" where
  "mergeInto dst src =
     (let d = content_list dst; s = content_list src;
          toolResults = filter isToolResult d @ filter isToolResult s;
          other = filter (\<lambda>p. \<not> isToolResult p) d @ filter (\<lambda>p. \<not> isToolResult p) s
      in jset ''content'' (JArr (toolResults @ other)) dst)"

definition text_block :: "string \<Rightarrow> json" where
  "text_block s = JObj [(''type'', JStr ''text''), (''text'', JStr s)]"

definition clone_with_array :: "json \<Rightarrow> json" where
  "clone_with_array m =
     (case jget m ''content'' of
        Some (JArr c) \<Rightarrow> m
      | Some (JStr s) \<Rightarrow> jset ''content'' (JArr (if s = [] then [] else [text_block s])) m
      | _ \<Rightarrow> jset ''content'' (JArr []) m)"

definition merge_step :: "json list \<Rightarrow> json \<Rightarrow> json list" where
  "merge_step out m =
     (if \<not> is_obj m then out @ [m]
      else if out \<noteq> [] \<and> is_obj (last out) \<and> str_at (last out) ''role'' = str_at m ''role''
      then butlast out @ [mergeInto (last out) m]
      else out @ [clone_with_array m])"

definition mergeConsecutiveSameRole :: "json list \<Rightarrow> json list" where
  "mergeConsecutiveSameRole msgs = foldl merge_step [] msgs"

section \<open>cache\_control\<close>

definition ephemeral :: json where
  "ephemeral = JObj [(''type'', JStr ''ephemeral''), (''ttl'', JStr ''1h'')]"

definition recache :: "json list \<Rightarrow> json list" where
  "recache xs =
     (let ys = map (jdel ''cache_control'') xs
      in if ys = [] then [] else butlast ys @ [jset ''cache_control'' ephemeral (last ys)])"

definition recache_at :: "string \<Rightarrow> json \<Rightarrow> json" where
  "recache_at k raw =
     (case nonempty_arr raw k of
        None \<Rightarrow> raw
      | Some xs \<Rightarrow> jset k (JArr (recache xs)) raw)"

definition normalizeSystemCacheControl :: "json \<Rightarrow> json" where
  "normalizeSystemCacheControl raw = recache_at ''system'' raw"

definition normalizeToolsCacheControl :: "json \<Rightarrow> json" where
  "normalizeToolsCacheControl raw = recache_at ''tools'' raw"

section \<open>The two entry points\<close>

definition claude_messages :: "json list \<Rightarrow> json list" where
  "claude_messages msgs =
     mergeConsecutiveSameRole (fixToolUseOrderingInPlace (dropEmptyMessages (fst (stripRejectableBlocks msgs))))"

definition prepare_claude_doc :: "json \<Rightarrow> json" where
  "prepare_claude_doc raw =
     (let raw1 = normalizeSystemCacheControl raw;
          raw2 = (case nonempty_arr raw1 ''messages'' of
                    Some msgs \<Rightarrow> jset ''messages'' (JArr (claude_messages msgs)) raw1
                  | None \<Rightarrow> raw1)
      in normalizeToolsCacheControl raw2)"

definition PrepareClaudeRequest :: "string \<Rightarrow> string res" where
  "PrepareClaudeRequest body =
     json_stage ''prepost: prepare claude'' (\<lambda>raw. Some (prepare_claude_doc raw)) body"

definition mark :: "string \<Rightarrow> string list \<Rightarrow> string list" where
  "mark token applied = (if token \<in> set applied then applied else applied @ [token])"

definition claude_content_tools :: "bool \<Rightarrow> json \<Rightarrow> json \<times> string list" where
  "claude_content_tools hasBadPattern raw =
     (if hasBadPattern
      then (let (raw', dropped) = sanitize_tools raw
            in (raw', if 0 < dropped then mark AppliedToolPatternDrop [] else []))
      else (raw, []))"

definition claude_content_doc :: "bool \<Rightarrow> json \<Rightarrow> json \<times> string list" where
  "claude_content_doc hasBadPattern raw =
     (let (raw1, applied) = claude_content_tools hasBadPattern raw
      in case nonempty_arr raw1 ''messages'' of
           None \<Rightarrow> (raw1, applied)
         | Some msgs \<Rightarrow>
             (let (stripped, changed) = stripRejectableBlocks msgs;
                  applied1 = (if changed then mark AppliedClaudeStripEmpty applied else applied);
                  filtered = dropEmptyMessages stripped;
                  applied2 = (if length filtered \<noteq> length msgs
                              then mark AppliedClaudeStripEmpty applied1 else applied1)
              in (jset ''messages'' (JArr filtered) raw1, applied2)))"

definition NormalizeClaudeContent :: "string \<Rightarrow> (string \<times> string list) res" where
  "NormalizeClaudeContent body =
     (if body = [] then Inr (body, [])
      else let hasContent = contains body (quoted ''content'');
               hasBadPattern = (contains body (quoted ''tools'') \<and> HasUnicodePropertyPattern body)
           in if \<not> hasContent \<and> \<not> hasBadPattern then Inr (body, [])
              else case unmarshal_map body of
                     None \<Rightarrow> Inl ''prepost: normalize claude content''
                   | Some raw \<Rightarrow>
                       (let (raw', applied) = claude_content_doc hasBadPattern raw
                        in if applied = [] then Inr (body, []) else Inr (json_print raw', applied)))"

section \<open>Specifications\<close>

definition good_blocks :: "json list \<Rightarrow> bool" where
  "good_blocks c = (\<forall>p \<in> set c. is_obj p \<and> \<not> isRejectableBlock p)"

definition good_message :: "json \<Rightarrow> bool" where
  "good_message m = (is_obj m \<and> (\<exists>c. arr_at m ''content'' = Some c \<and> good_blocks c))"

definition only_last_cached :: "json \<Rightarrow> string \<Rightarrow> bool" where
  "only_last_cached raw k =
     (case arr_at raw k of Some xs \<Rightarrow> (\<forall>x \<in> set (butlast xs). \<not> has_key x ''cache_control'') | None \<Rightarrow> True)"

definition claude_ready :: "json \<Rightarrow> bool" where
  "claude_ready raw =
     ((case arr_at raw ''messages'' of
         Some msgs \<Rightarrow> (\<forall>m \<in> set msgs. good_message m) \<and> distinct_adj (map (\<lambda>m. str_at m ''role'') msgs)
       | None \<Rightarrow> True) \<and>
      only_last_cached raw ''system'' \<and> only_last_cached raw ''tools'')"

text \<open>What holds of a message between the stages: an object whose blocks, if any, are good.\<close>

definition semi_good :: "json \<Rightarrow> bool" where
  "semi_good m = (is_obj m \<and> (\<forall>c. arr_at m ''content'' = Some c \<longrightarrow> good_blocks c))"

definition merged_ok :: "json list \<Rightarrow> bool" where
  "merged_ok out = ((\<forall>m \<in> set out. good_message m) \<and> distinct_adj (map (\<lambda>m. str_at m ''role'') out))"

definition with_claude_messages :: "json \<Rightarrow> json" where
  "with_claude_messages raw =
     (case nonempty_arr raw ''messages'' of
        Some msgs \<Rightarrow> jset ''messages'' (JArr (claude_messages msgs)) raw | None \<Rightarrow> raw)"

definition role_msg :: "string \<Rightarrow> json \<Rightarrow> json" where
  "role_msg r c = JObj [(''role'', JStr r), (''content'', c)]"

definition no_text_after_tool_use :: "json list \<Rightarrow> bool" where
  "no_text_after_tool_use c =
     (\<forall>i j. i < j \<and> j < length c \<and> is_tool_use (c ! i) \<longrightarrow> is_tool_use (c ! j) \<or> is_thinking (c ! j))"

definition tool_use_block :: json where "tool_use_block = JObj [(''type'', JStr ''tool_use'')]"

definition tools_free :: "json \<Rightarrow> bool" where
  "tools_free raw = (case arr_at raw ''tools'' of Some ts \<Rightarrow> (\<forall>t \<in> set ts. pattern_free t) | None \<Rightarrow> True)"

definition msgs_clean :: "json \<Rightarrow> bool" where
  "msgs_clean raw =
     (case nonempty_arr raw ''messages'' of
        Some ms \<Rightarrow> \<not> snd (stripRejectableBlocks ms) \<and>
                   length (dropEmptyMessages (fst (stripRejectableBlocks ms))) = length ms
      | None \<Rightarrow> True)"

definition thinking_block :: "string \<Rightarrow> string \<Rightarrow> json" where
  "thinking_block t sig = JObj [(''type'', JStr ''thinking''), (''thinking'', JStr t), (''signature'', JStr sig)]"

definition claude_body :: string where
  "claude_body = json_print (JObj [(''messages'', JArr [role_msg ''user'' (JStr ''a''), role_msg ''user'' (JArr [])])])"

definition claude_req :: json where
  "claude_req = JObj [(''messages'', JArr [role_msg ''user'' (JArr [text_block []]), role_msg ''user'' (JStr ''a'')])]"

section \<open>What the API accepts\<close>

section \<open>Stages on messages\<close>

lemma nonempty_arr_eq: "nonempty_arr v k = (case arr_at v k of Some xs \<Rightarrow> if xs = [] then None else Some xs | None \<Rightarrow> None)"
  by (auto simp: nonempty_arr_def split: option.splits list.splits)

lemma set_dropEmpty: "set (dropEmptyMessages ms) \<subseteq> {m \<in> set ms. is_obj m}"
  by (induction ms) (auto simp: keep_message_def)

lemma strip_semi_good: "is_obj m \<Longrightarrow> semi_good (fst (strip_message m))"
  by (auto simp: strip_message_def semi_good_def good_blocks_def nonempty_arr_eq arr_at_jset split: option.splits if_splits)

lemma strip_is_obj [simp]: "is_obj (fst (strip_message m)) = is_obj m"
  by (auto simp: strip_message_def split: option.splits)

lemma dropped_semi_good: "m \<in> set (dropEmptyMessages (fst (stripRejectableBlocks ms))) \<Longrightarrow> semi_good m"
  using set_dropEmpty [of "fst (stripRejectableBlocks ms)"] strip_semi_good
  by (fastforce simp: stripRejectableBlocks_def)

lemma order_content_subset: "set (order_content b ps) \<subseteq> set ps"
  by (induction ps arbitrary: b) auto

lemma order_semi_good: "semi_good m \<Longrightarrow> semi_good (order_message m)"
  using order_content_subset
  by (fastforce simp: order_message_def semi_good_def good_blocks_def arr_at_jset split: option.splits)

lemma role_order [simp]: "str_at (order_message m) ''role'' = str_at m ''role''"
  by (auto simp: order_message_def str_at_jset dest: at_is_obj split: option.splits)

lemma clone_facts:
  assumes "is_obj m"
  shows "str_at (clone_with_array m) ''role'' = str_at m ''role''" "is_obj (clone_with_array m)"
    "content_list (clone_with_array m) =
      (case jget m ''content'' of Some (JArr c) \<Rightarrow> c | Some (JStr s) \<Rightarrow> if s = [] then [] else [text_block s] | _ \<Rightarrow> [])"
    "arr_at (clone_with_array m) ''content'' = Some (content_list (clone_with_array m))"
  using assms
  by (auto simp: clone_with_array_def content_list_def str_at_jset arr_at_jset arr_at_def [of m]
      split: option.splits json.splits)

lemma merge_facts:
  assumes "is_obj d"
  shows "str_at (mergeInto d s) ''role'' = str_at d ''role''" "is_obj (mergeInto d s)"
    "arr_at (mergeInto d s) ''content'' = Some (content_list (mergeInto d s))"
    "mset (content_list (mergeInto d s)) = mset (content_list d) + mset (content_list s)"
proof -
  have c: "content_list (mergeInto d s) = filter isToolResult (content_list d) @ filter isToolResult (content_list s) @
      filter (\<lambda>p. \<not> isToolResult p) (content_list d) @ filter (\<lambda>p. \<not> isToolResult p) (content_list s)"
    using assms by (simp add: mergeInto_def Let_def content_list_def [of "jset _ _ _"] arr_at_jset)
  have p: "filter_mset isToolResult M + {#x \<in># M. \<not> isToolResult x#} = M" for M
    using multiset_partition [of M isToolResult] by simp
  show "mset (content_list (mergeInto d s)) = mset (content_list d) + mset (content_list s)"
    using p [of "mset (content_list d) + mset (content_list s)"] unfolding c by (simp add: add.assoc)
qed (use assms in \<open>auto simp: mergeInto_def Let_def content_list_def str_at_jset arr_at_jset\<close>)

lemma good_text: "s \<noteq> [] \<Longrightarrow> good_blocks [text_block s]"
  by (simp add: good_blocks_def text_block_def isRejectableBlock_def str_at_def)

lemma clone_good: "semi_good m \<Longrightarrow> good_message (clone_with_array m)"
  using clone_facts [of m] good_text
  by (auto simp: semi_good_def good_message_def arr_at_def [of m] good_blocks_def split: option.splits json.splits if_splits)

lemma merge_good: "good_message d \<Longrightarrow> semi_good s \<Longrightarrow> good_message (mergeInto d s)"
proof -
  assume d: "good_message d" and s: "semi_good s"
  then have "set (content_list (mergeInto d s)) = set (content_list d) \<union> set (content_list s)"
    using merge_facts(4) [of d s] by (metis good_message_def set_mset_mset set_mset_union)
  then show ?thesis using d s merge_facts [of d s]
    by (auto simp: good_message_def semi_good_def good_blocks_def content_list_def split: option.splits)
qed

lemma merge_step_ok:
  assumes "merged_ok out" "semi_good m"
  shows "merged_ok (merge_step out m)"
proof (cases "out \<noteq> [] \<and> str_at (last out) ''role'' = str_at m ''role''")
  case True
  then obtain xs x where o: "out = xs @ [x]" by (metis append_butlast_last_id)
  have "good_message x" using assms o by (simp add: merged_ok_def)
  then show ?thesis using assms True o merge_good merge_facts(1) [of x m]
    by (auto simp: merge_step_def merged_ok_def semi_good_def good_message_def distinct_adj_append_iff)
next
  case False
  then show ?thesis using assms clone_good clone_facts(1) [of m]
    by (auto simp: merge_step_def merged_ok_def semi_good_def distinct_adj_append_iff last_map)
qed

lemma merged_ok_fold: "merged_ok out \<Longrightarrow> \<forall>m \<in> set ms. semi_good m \<Longrightarrow> merged_ok (foldl merge_step out ms)"
  by (induction ms arbitrary: out) (auto simp: merge_step_ok)

lemma claude_messages_ok: "merged_ok (claude_messages ms)"
  unfolding claude_messages_def mergeConsecutiveSameRole_def
  by (rule merged_ok_fold) (auto simp: fixToolUseOrderingInPlace_def merged_ok_def dropped_semi_good order_semi_good)

lemma merge_keeps_blocks:
  assumes "\<forall>m \<in> set ms. is_obj m \<and> arr_at m ''content'' \<noteq> None"
    and "\<forall>m \<in> set out. is_obj m"
  shows "mset (concat (map content_list (foldl merge_step out ms))) =
    mset (concat (map content_list out)) + mset (concat (map content_list ms))"
  using assms
proof (induction ms arbitrary: out)
  case (Cons m ms)
  have m: "is_obj m" "clone_with_array m = m"
    using Cons.prems(1) by (auto simp: clone_with_array_def arr_at_def split: option.splits json.splits)
  have "mset (concat (map content_list (merge_step out m))) = mset (concat (map content_list out)) + mset (content_list m)
      \<and> (\<forall>x \<in> set (merge_step out m). is_obj x)"
  proof (cases "out \<noteq> [] \<and> str_at (last out) ''role'' = str_at m ''role''")
    case True
    then obtain xs x where o: "out = xs @ [x]" by (metis append_butlast_last_id)
    then show ?thesis using m True Cons.prems(2) merge_facts [of x m] by (auto simp: merge_step_def)
  next
    case False
    then show ?thesis using m Cons.prems(2) by (auto simp: merge_step_def)
  qed
  then show ?case using Cons.IH [of "merge_step out m"] Cons.prems(1) by (simp add: add.assoc)
qed simp

section \<open>Well-formedness and key order\<close>

lemma wf_sub: "\<forall>x \<in> set xs. wf_json x \<Longrightarrow> set ys \<subseteq> set xs \<Longrightarrow> wf_json (JArr ys)"
  by auto

lemma wf_content: "wf_json m \<Longrightarrow> p \<in> set (content_list m) \<Longrightarrow> wf_json p"
  by (cases "arr_at m ''content''") (auto simp: content_list_def dest: wf_json_arr_at)

lemma nonempty_arr_Some: "nonempty_arr v k = Some xs \<longleftrightarrow> arr_at v k = Some xs \<and> xs \<noteq> []"
  by (auto simp: nonempty_arr_eq split: option.splits)

lemma wf_strip: "wf_json m \<Longrightarrow> wf_json (fst (strip_message m))"
  by (auto simp: strip_message_def nonempty_arr_Some split: option.splits intro!: wf_json_jset dest: wf_json_arr_at)

lemma wf_order: "wf_json m \<Longrightarrow> wf_json (order_message m)"
  using order_content_subset
  by (fastforce simp: order_message_def split: option.splits intro!: wf_json_jset dest: wf_json_arr_at)

lemma wf_clone: "wf_json m \<Longrightarrow> wf_json (clone_with_array m)"
  by (auto simp: clone_with_array_def text_block_def wf_map_def split: option.splits json.splits intro!: wf_json_jset)

lemma wf_merge: "wf_json d \<Longrightarrow> wf_json s \<Longrightarrow> wf_json (mergeInto d s)"
  by (auto simp: mergeInto_def Let_def intro!: wf_json_jset dest: wf_content)

lemma wf_merge_step: "\<forall>x \<in> set out. wf_json x \<Longrightarrow> wf_json m \<Longrightarrow> x \<in> set (merge_step out m) \<Longrightarrow> wf_json x"
  by (auto simp: merge_step_def wf_clone wf_merge dest: in_set_butlastD split: if_splits)

lemma wf_merge_fold: "\<forall>x \<in> set out. wf_json x \<Longrightarrow> \<forall>x \<in> set ms. wf_json x \<Longrightarrow> x \<in> set (foldl merge_step out ms) \<Longrightarrow> wf_json x"
proof (induction ms arbitrary: out)
  case (Cons m ms)
  then show ?case using wf_merge_step [of out m] by auto
qed simp

lemma wf_claude_messages:
  assumes "\<forall>x \<in> set ms. wf_json x" "x \<in> set (claude_messages ms)" shows "wf_json x"
  using assms(2) unfolding claude_messages_def mergeConsecutiveSameRole_def
  by (rule wf_merge_fold [rotated 2])
    (use assms(1) set_dropEmpty in \<open>fastforce simp: fixToolUseOrderingInPlace_def stripRejectableBlocks_def wf_strip wf_order\<close>)+

lemma wf_recache: "\<forall>x \<in> set xs. wf_json x \<Longrightarrow> x \<in> set (recache xs) \<Longrightarrow> wf_json x"
  by (auto simp: recache_def Let_def ephemeral_def wf_map_def wf_json_jdel last_map split: if_splits
      intro!: wf_json_jset dest!: in_set_butlastD)

lemma recache_only_last: "x \<in> set (butlast (recache xs)) \<Longrightarrow> \<not> has_key x ''cache_control''"
  by (auto simp: recache_def Let_def butlast_append has_key_jdel split: if_splits dest!: in_set_butlastD)

lemma arr_at_overwrite: "arr_at v k = Some xs \<Longrightarrow> arr_at (jset k (JArr ys) v) k = Some ys"
  by (simp add: arr_at_jset at_is_obj(1))

lemma recache_at_facts:
  assumes "wf_json v"
  shows "wf_json (recache_at j v)" "is_obj (recache_at j v) = is_obj v" "only_last_cached (recache_at j v) j"
    "k \<noteq> j \<Longrightarrow> jget (recache_at j v) k = jget v k"
proof -
  have c: "nonempty_arr v j = None \<Longrightarrow> arr_at v j = None \<or> arr_at v j = Some []"
    by (auto simp: nonempty_arr_eq split: option.splits if_splits)
  have "wf_json (JArr (recache xs))" if "nonempty_arr v j = Some xs" for xs
    using that wf_recache wf_json_arr_at [OF assms] by (simp add: nonempty_arr_Some) blast
  then show "wf_json (recache_at j v)" using assms
    by (auto simp: recache_at_def simp del: wf_json.simps split: option.splits intro!: wf_json_jset)
  show "is_obj (recache_at j v) = is_obj v" by (auto simp: recache_at_def split: option.splits)
  show "only_last_cached (recache_at j v) j" using c recache_only_last
    by (auto simp: recache_at_def only_last_cached_def nonempty_arr_Some arr_at_overwrite split: option.splits)
  show "k \<noteq> j \<Longrightarrow> jget (recache_at j v) k = jget v k"
    by (auto simp: recache_at_def nonempty_arr_Some jget_jset split: option.splits dest: at_is_obj)
qed

lemma only_last_cached_cong: "jget v k = jget w k \<Longrightarrow> only_last_cached v k = only_last_cached w k"
  by (simp add: only_last_cached_def arr_at_def)

lemma arr_at_cong: "jget v k = jget w k \<Longrightarrow> arr_at v k = arr_at w k"
  by (simp add: arr_at_def)

lemma with_claude_messages_facts:
  assumes "wf_json v"
  shows "wf_json (with_claude_messages v)" "is_obj (with_claude_messages v) = is_obj v"
    "k \<noteq> ''messages'' \<Longrightarrow> jget (with_claude_messages v) k = jget v k"
    "arr_at (with_claude_messages v) ''messages'' = Some msgs \<Longrightarrow> merged_ok msgs"
proof -
  have "wf_json (JArr (claude_messages ms))" if "nonempty_arr v ''messages'' = Some ms" for ms
    using that wf_claude_messages wf_json_arr_at [OF assms] by (simp add: nonempty_arr_Some) blast
  then show "wf_json (with_claude_messages v)" using assms
    by (auto simp: with_claude_messages_def simp del: wf_json.simps split: option.splits intro!: wf_json_jset)
  show "is_obj (with_claude_messages v) = is_obj v" by (auto simp: with_claude_messages_def split: option.splits)
  show "k \<noteq> ''messages'' \<Longrightarrow> jget (with_claude_messages v) k = jget v k"
    by (auto simp: with_claude_messages_def nonempty_arr_Some jget_jset split: option.splits dest: at_is_obj)
  show "arr_at (with_claude_messages v) ''messages'' = Some msgs \<Longrightarrow> merged_ok msgs"
    using claude_messages_ok claude_messages_ok [of "[]"]
    by (auto simp: with_claude_messages_def nonempty_arr_eq arr_at_overwrite merged_ok_def [of "[]"]
        split: option.splits if_splits)
qed

lemma prepare_claude_doc_eq:
  "prepare_claude_doc raw = recache_at ''tools'' (with_claude_messages (recache_at ''system'' raw))"
  by (simp add: prepare_claude_doc_def with_claude_messages_def normalizeSystemCacheControl_def
      normalizeToolsCacheControl_def Let_def)

lemma prepare_claude_doc_facts:
  assumes w: "wf_json v"
  shows "wf_json (prepare_claude_doc v)" "is_obj (prepare_claude_doc v) = is_obj v" "claude_ready (prepare_claude_doc v)"
proof -
  let ?a = "recache_at ''system'' v" let ?b = "with_claude_messages ?a"
  note a = recache_at_facts [OF w, where j = "''system''"] note b = with_claude_messages_facts [OF a(1)]
  note c = recache_at_facts [OF b(1), where j = "''tools''"]
  show "wf_json (prepare_claude_doc v)" "is_obj (prepare_claude_doc v) = is_obj v"
    using a b c by (simp_all add: prepare_claude_doc_eq)
  have "jget (prepare_claude_doc v) ''system'' = jget ?a ''system''"
    using b(3) [of "''system''"] c(4) [of "''system''"] by (simp add: prepare_claude_doc_eq)
  then have "only_last_cached (prepare_claude_doc v) ''system''"
    using a(3) only_last_cached_cong by blast
  moreover have "arr_at (prepare_claude_doc v) ''messages'' = arr_at ?b ''messages''"
    unfolding prepare_claude_doc_eq by (rule arr_at_cong) (simp add: c(4))
  ultimately show "claude_ready (prepare_claude_doc v)"
    using b(4) c(3) by (auto simp: claude_ready_def merged_ok_def prepare_claude_doc_eq split: option.splits)
qed

lemma isRejectable_canon: "wf_json p \<Longrightarrow> isRejectableBlock (canon p) = isRejectableBlock p"
  by (simp add: isRejectableBlock_def str_at_canon)

lemma good_blocks_canon: "\<forall>p \<in> set c. wf_json p \<Longrightarrow> good_blocks (map canon c) = good_blocks c"
  by (auto simp: good_blocks_def isRejectable_canon)

lemma good_message_canon: "wf_json m \<Longrightarrow> good_message m \<Longrightarrow> good_message (canon m)"
  using wf_json_arr_at [of m] by (fastforce simp: good_message_def arr_at_canon good_blocks_canon)

lemma only_last_cached_canon: "wf_json v \<Longrightarrow> only_last_cached v k \<Longrightarrow> only_last_cached (canon v) k"
  by (auto simp: only_last_cached_def arr_at_canon has_key_canon map_butlast [symmetric] split: option.splits
      dest: wf_json_arr_at in_set_butlastD)

interpretation claude: doc_contract claude_ready
proof
  fix v assume w: "wf_json v" and r: "claude_ready v"
  have "map (\<lambda>m. str_at (canon m) ''role'') msgs = map (\<lambda>m. str_at m ''role'') msgs"
    if "arr_at v ''messages'' = Some msgs" for msgs
    using wf_json_arr_at [OF w that] by (simp add: str_at_canon)
  then show "claude_ready (canon v)"
    using w r only_last_cached_canon good_message_canon
    by (auto simp: claude_ready_def arr_at_canon comp_def simp del: map_eq_conv split: option.splits
        dest: wf_json_arr_at)
qed

text \<open>
  PrepareClaudeRequest succeeds on every body that decodes to an object or null, and its output
  decodes to a request in which every message is an object whose content is an array free of blocks
  the API rejects, no two adjacent messages have the same role, and cache_control is on at most the
  last system block and the last tool.
\<close>

theorem prepare_claude_ready:
  assumes "unmarshal_map body = Some raw"
  shows "\<exists>out d. PrepareClaudeRequest body = Inr out \<and> unmarshal_map out = Some d \<and> claude_ready d"
proof -
  have w: "wf_json raw" using unmarshal_map_wf [OF assms] .
  have "body \<noteq> []" using assms by (auto simp: unmarshal_map_def json_parse_def skip_ws_def)
  then have ok: "PrepareClaudeRequest body = Inr (json_print (prepare_claude_doc raw))"
    using assms by (simp add: PrepareClaudeRequest_def json_stage_def)
  have "is_obj (prepare_claude_doc raw) \<or> prepare_claude_doc raw = JNull"
  proof (cases "is_obj raw")
    case False
    then have "raw = JNull" using assms by (auto simp: unmarshal_map_def split: option.splits json.splits)
    then show ?thesis by (simp add: prepare_claude_doc_eq recache_at_def with_claude_messages_def nonempty_arr_def arr_at_def)
  qed (simp add: prepare_claude_doc_facts [OF w])
  then have "claude.holds_on (json_print (prepare_claude_doc raw))"
    using claude.stage_lift [OF ok [unfolded PrepareClaudeRequest_def] assms] prepare_claude_doc_facts [OF w] by auto
  then show ?thesis using ok by (auto simp: claude.holds_on_def)
qed

section \<open>What merging loses and what ordering does not ensure\<close>

text \<open>
  When the content of every message is an array, mergeConsecutiveSameRole neither loses nor duplicates
  a content block: the multiset of blocks of the conversation is unchanged.
\<close>

theorem merge_preserves_blocks:
  assumes "\<forall>m \<in> set ms. is_obj m \<and> arr_at m ''content'' \<noteq> None"
  shows "mset (concat (map content_list (mergeConsecutiveSameRole ms))) = mset (concat (map content_list ms))"
  using merge_keeps_blocks [OF assms, of "[]"] by (simp add: mergeConsecutiveSameRole_def)

text \<open>
  Two adjacent messages of one role with string contents are merged into a message that has only the
  text of the first: mergeInto reads the second message's content as an array and drops the string.
\<close>

theorem merge_drops_string_content:
  "mergeConsecutiveSameRole [role_msg r (JStr (c # cs)), role_msg r (JStr b)] =
    [role_msg r (JArr [text_block (c # cs)])]"
  by (simp add: mergeConsecutiveSameRole_def merge_step_def role_msg_def clone_with_array_def mergeInto_def
      content_list_def arr_at_def str_at_def Let_def isToolResult_def text_block_def)

lemma order_content_found: "\<forall>p \<in> set (order_content True ps). is_tool_use p \<or> is_thinking p"
  by (induction ps) auto

lemma no_text_Cons:
  "no_text_after_tool_use (p # ps) \<longleftrightarrow>
    (is_tool_use p \<longrightarrow> (\<forall>q \<in> set ps. is_tool_use q \<or> is_thinking q)) \<and> no_text_after_tool_use ps"
  (is "?l = ?r")
proof
  assume l: ?l
  have "is_tool_use q \<or> is_thinking q" if "is_tool_use p" "q \<in> set ps" for q
    using l that by (force simp: no_text_after_tool_use_def in_set_conv_nth dest: spec [of _ 0])
  moreover have "is_tool_use (ps ! j) \<or> is_thinking (ps ! j)" if "i < j" "j < length ps" "is_tool_use (ps ! i)" for i j
    using l [unfolded no_text_after_tool_use_def, rule_format, of "Suc i" "Suc j"] that by simp
  ultimately show ?r by (auto simp: no_text_after_tool_use_def)
next
  assume ?r
  then show ?l by (auto simp: no_text_after_tool_use_def less_Suc_eq_0_disj nth_Cons split: nat.splits)
qed

lemma order_content_no_text: "no_text_after_tool_use (order_content b ps)"
proof (induction ps arbitrary: b)
  case Nil then show ?case by (simp add: no_text_after_tool_use_def)
next
  case (Cons p ps)
  then show ?case using order_content_found [of ps] by (simp add: no_text_Cons)
qed

text \<open>
  After fixToolUseOrderingInPlace the content of an assistant message has no block after a tool_use
  block other than tool_use and thinking blocks, keeps every tool_use and thinking block in order, and
  keeps everything before the first tool_use.
\<close>

theorem ordering_drops_late_text:
  assumes "str_at m ''role'' = ''assistant''" "arr_at m ''content'' = Some c"
  shows "\<exists>c'. arr_at (order_message m) ''content'' = Some c' \<and> no_text_after_tool_use c' \<and>
    filter (\<lambda>p. is_tool_use p \<or> is_thinking p) c' = filter (\<lambda>p. is_tool_use p \<or> is_thinking p) c \<and>
    prefix (takeWhile (\<lambda>p. \<not> is_tool_use p) c) c'"
proof (cases "list_ex is_tool_use c")
  case True
  have "filter (\<lambda>p. is_tool_use p \<or> is_thinking p) (order_content b ps) = filter (\<lambda>p. is_tool_use p \<or> is_thinking p) ps"
    for b ps by (induction ps arbitrary: b) auto
  moreover have "prefix (takeWhile (\<lambda>p. \<not> is_tool_use p) ps) (order_content False ps)" for ps
    by (induction ps) auto
  ultimately show ?thesis using True assms order_content_no_text
    by (simp add: order_message_def arr_at_overwrite)
next
  case False
  then have "no_text_after_tool_use c" by (auto simp: no_text_after_tool_use_def list_ex_length)
  then show ?thesis using False assms by (simp add: order_message_def takeWhile_is_prefix)
qed

text \<open>
  The order that fixToolUseOrderingInPlace establishes is not kept by the later merge: there are
  messages for which the pipeline of PrepareClaudeRequest returns an assistant message with a text
  block after a tool_use block.
\<close>

theorem merge_breaks_tool_use_order:
  "\<exists>msgs m c. claude_messages msgs = [m] \<and> arr_at m ''content'' = Some c \<and> \<not> no_text_after_tool_use c"
proof -
  let ?msgs = "[role_msg ''assistant'' (JArr [tool_use_block]), role_msg ''assistant'' (JArr [text_block ''x''])]"
  let ?c = "[tool_use_block, text_block ''x'']"
  have "claude_messages ?msgs = [role_msg ''assistant'' (JArr ?c)]" by code_simp
  moreover have "arr_at (role_msg ''assistant'' (JArr ?c)) ''content'' = Some ?c" by (simp add: role_msg_def arr_at_def)
  moreover have "\<not> no_text_after_tool_use ?c"
    by (simp add: no_text_Cons tool_use_block_def text_block_def is_tool_use_def is_thinking_def str_at_def)
  ultimately show ?thesis by blast
qed

section \<open>NormalizeClaudeContent is idempotent\<close>

lemma canon_obj_keys: "canon v = JObj pp \<Longrightarrow> \<exists>q. v = JObj q \<and> fst ` set pp = fst ` set q"
  by (cases v) (force simp: image_image case_prod_unfold)+

lemma pattern_free_canon:
  assumes "wf_json v" "pattern_free v" shows "pattern_free (canon v)"
  using assms
proof (induction v rule: canon.induct)
  case (2 m)
  let ?n = "sort_key fst (map (\<lambda>(k, v). (k, canon v)) m)"
  have mo: "map_of ?n k = map_option canon (map_of m k)" for k
    using 2(2) by (simp add: map_of_sort_key wf_map_map_canon map_of_map_canon)
  have "snd (drop_pattern ?n) = 0" using 2(3) unfolding pattern_free_obj drop_pattern_zero mo by auto
  moreover have "snd (drop_pattern_properties ?n) = 0"
    unfolding drop_properties_zero mo
  proof (intro allI impI ballI)
    fix pp k assume "map_option canon (map_of m ''patternProperties'') = Some (JObj pp)" and k: "k \<in> fst ` set pp"
    then obtain w where w: "map_of m ''patternProperties'' = Some w" "canon w = JObj pp"
      unfolding map_option_eq_Some by blast
    then obtain q where "map_of m ''patternProperties'' = Some (JObj q)" "k \<in> fst ` set q"
      using canon_obj_keys [OF w(2)] k by auto
    then show "\<not> hasUnicodePropertyEscape k"
      using 2(3) [unfolded pattern_free_obj, THEN conjunct2, THEN conjunct1, unfolded drop_properties_zero] by blast
  qed
  moreover have "pattern_free (canon w)" if "(k, w) \<in> set m" for k w
    using 2(1) [OF that refl] 2(2,3) that by (auto simp: pattern_free_obj simp del: pattern_free.simps)
  ultimately show ?case unfolding canon.simps pattern_free_obj by auto
qed (auto simp: list_all_iff)

lemma esc_str_keeps_escape:
  "x = CHR ''p'' \<or> x = CHR ''P'' \<Longrightarrow> contains s [bs, x, CHR ''{''] \<Longrightarrow> contains (esc_str s) [bs, x, CHR ''{'']"
proof (induction s rule: esc_str.induct)
  case (2 c cs)
  show ?case
  proof (cases "prefix [bs, x, CHR ''{''] (c # cs)")
    case True
    then obtain r where r: "c = bs" "cs = x # CHR ''{'' # r" by (auto simp: prefix_def)
    have "esc_str (x # CHR ''{'' # r) = x # CHR ''{'' # esc_str r"
      using 2(4) by (elim disjE) (simp_all add: esc_char_def)
    then show ?thesis by (simp add: r esc_char_def)
  next
    case False
    then have t: "contains cs [bs, x, CHR ''{'']" using 2(5) unfolding contains.simps by blast
    have "contains (drop 2 cs) [bs, x, CHR ''{'']" if "take 2 cs = [CHR 0x80, d]" "d \<noteq> bs" for d
    proof -
      have "cs = CHR 0x80 # d # drop 2 cs" using that(1) by (metis append_Cons append_Nil append_take_drop_id)
      then have "contains (CHR 0x80 # d # drop 2 cs) [bs, x, CHR ''{'']" using t by simp
      then show ?thesis using that(2) by simp
    qed
    then show ?thesis using 2(1-4) t by (auto intro: contains_appendI2)
  qed
qed simp

lemma escape_in_print: "hasUnicodePropertyEscape s \<Longrightarrow> HasUnicodePropertyPattern (print_str s)"
  unfolding hasUnicodePropertyEscape_def HasUnicodePropertyPattern_def print_str_def
  by (auto intro!: contains_ConsI contains_appendI1 dest: esc_str_keeps_escape [rotated] simp del: contains.simps)

lemma HasUnicode_contains: "contains a b \<Longrightarrow> HasUnicodePropertyPattern b \<Longrightarrow> HasUnicodePropertyPattern a"
  unfolding HasUnicodePropertyPattern_def using contains_trans by blast

lemma contains_print_member_set:
  assumes "(k, x) \<in> set m"
  shows "contains (print_raw (JObj m)) (print_raw x)" "contains (print_raw (JObj m)) (print_str k)"
proof -
  let ?p = "print_str k @ CHR '':'' # print_raw x"
  have "contains (print_raw (JObj m)) ?p"
    unfolding print_raw.simps by (intro contains_ConsI contains_appendI1 contains_join) (use assms in force)
  moreover have "contains ?p (print_raw x)" "contains ?p (print_str k)"
    by (simp_all add: contains_appendI1 contains_appendI2 contains_ConsI)
  ultimately show "contains (print_raw (JObj m)) (print_raw x)" "contains (print_raw (JObj m)) (print_str k)"
    using contains_trans by blast+
qed

lemma pattern_in_text: "\<not> pattern_free v \<Longrightarrow> HasUnicodePropertyPattern (print_raw v)"
proof (induction v)
  case (JArr xs)
  then obtain x where "x \<in> set xs" "\<not> pattern_free x" by (auto simp: list_all_iff)
  then show ?case using JArr.IH contains_print_elem HasUnicode_contains by blast
next
  case (JObj m)
  note sub = contains_print_member_set [THEN HasUnicode_contains]
  consider (pat) s where "map_of m ''pattern'' = Some (JStr s)" "hasUnicodePropertyEscape s"
    | (props) pp k where "map_of m ''patternProperties'' = Some (JObj pp)" "k \<in> fst ` set pp" "hasUnicodePropertyEscape k"
    | (inner) k w where "(k, w) \<in> set m" "\<not> pattern_free w"
    using JObj.prems unfolding pattern_free_obj drop_pattern_zero drop_properties_zero by blast
  then show ?case
  proof cases
    case pat
    then show ?thesis using sub(1) [OF map_of_SomeD [OF pat(1)]] escape_in_print by simp
  next
    case props
    then obtain w where "(k, w) \<in> set pp" by auto
    then have "HasUnicodePropertyPattern (print_raw (JObj pp))" using sub(2) escape_in_print props(3) by blast
    then show ?thesis using sub(1) [OF map_of_SomeD [OF props(1)]] by blast
  next
    case inner
    then show ?thesis using JObj.IH [of "(k, w)" w] sub(1) by simp
  qed
qed simp_all

lemma jset_same: "jget v k = Some x \<Longrightarrow> jset k x v = v"
proof (cases v)
  case (JObj m)
  have "map_of m k = Some x \<Longrightarrow> mput k x m = m" by (induction m) (auto split: if_splits)
  then show "jget v k = Some x \<Longrightarrow> ?thesis" using JObj by simp
qed simp_all

lemma arr_at_Some: "arr_at v k = Some xs \<longleftrightarrow> jget v k = Some (JArr xs)"
  by (auto simp: arr_at_def split: option.splits json.splits)

lemma sanitize_tools_facts:
  assumes "wf_json v"
  shows "is_obj (fst (sanitize_tools v)) = is_obj v"
    "tools_free (fst (sanitize_tools v))" "k \<noteq> ''tools'' \<Longrightarrow> jget (fst (sanitize_tools v)) k = jget v k"
    "tools_free v \<Longrightarrow> sanitize_tools v = (v, 0)"
  using assms
proof -
  show "tools_free v \<Longrightarrow> sanitize_tools v = (v, 0)"
  proof (cases "arr_at v ''tools''")
    case (Some ts)
    assume "tools_free v"
    then have t: "SanitizeUnsupportedPatterns t = (t, 0)" if "t \<in> set ts" for t
      using Some that sanitize_zero_id [of t] pattern_free_zero [of t] by (simp add: tools_free_def prod_eq_iff)
    then have "map (\<lambda>t. fst (SanitizeUnsupportedPatterns t)) ts = ts" "map (\<lambda>t. snd (SanitizeUnsupportedPatterns t)) ts = map (\<lambda>_. 0) ts"
      by (auto intro!: map_idI)
    moreover have "jset ''tools'' (JArr ts) v = v" using Some by (simp add: arr_at_Some jset_same)
    ultimately show ?thesis using Some
      by (simp add: sanitize_tools_def Let_def comp_def del: map_eq_conv)
  qed (simp add: sanitize_tools_def)
qed (auto simp: sanitize_tools_def tools_free_def Let_def arr_at_overwrite jget_jset sanitize_pattern_free
       split: option.splits dest: at_is_obj)

lemma hasValidContent_strip:
  "hasValidContent (fst (strip_message m)) =
    (nonempty_arr m ''tool_calls'' \<noteq> None \<or>
      (case jget m ''content'' of Some (JStr c) \<Rightarrow> c \<noteq> []
       | Some (JArr c) \<Rightarrow> list_ex block_has_payload (filter (\<lambda>p. is_obj p \<and> \<not> isRejectableBlock p) c) | _ \<Rightarrow> False))"
proof (cases "nonempty_arr m ''content''")
  case None
  then show ?thesis
    by (auto simp: strip_message_def hasValidContent_def nonempty_arr_eq arr_at_def split: option.splits json.splits if_splits)
next
  case (Some c)
  then have j: "jget m ''content'' = Some (JArr c)" "is_obj m" by (auto simp: nonempty_arr_Some arr_at_Some dest: jget_is_obj)
  then show ?thesis using Some
    by (simp add: strip_message_def hasValidContent_def jget_jset nonempty_arr_eq arr_at_jset)
qed

lemma role_strip [simp]: "str_at (fst (strip_message m)) ''role'' = str_at m ''role''"
  by (auto simp: strip_message_def nonempty_arr_Some str_at_jset split: option.splits dest: at_is_obj)

lemma dropEmpty_length_cong:
  "list_all2 (\<lambda>x y. \<forall>b. keep_message b x = keep_message b y) xs ys \<Longrightarrow>
   length (dropEmptyMessages xs) = length (dropEmptyMessages ys)"
proof (induction rule: list_all2_induct)
  case (Cons x xs y ys)
  then have "xs = [] \<longleftrightarrow> ys = []" by auto
  then show ?case using Cons by simp
qed simp

lemma dropEmpty_idem: "dropEmptyMessages (dropEmptyMessages ms) = dropEmptyMessages ms"
proof (induction ms)
  case (Cons m ms)
  then show ?case by (cases "ms = []") (auto simp: keep_message_def)
qed simp

lemma strip_idem: "strip_message (fst (strip_message m)) = (fst (strip_message m), False)"
proof (cases "nonempty_arr m ''content''")
  case None
  then show ?thesis by (simp add: strip_message_def)
next
  case (Some c)
  let ?c = "filter (\<lambda>p. is_obj p \<and> \<not> isRejectableBlock p) c"
  let ?m = "jset ''content'' (JArr ?c) m"
  have s: "fst (strip_message m) = ?m" using Some by (simp add: strip_message_def)
  have a: "arr_at ?m ''content'' = Some ?c" using Some by (simp add: nonempty_arr_Some arr_at_overwrite)
  then have "jset ''content'' (JArr ?c) ?m = ?m" by (simp add: arr_at_Some jset_same)
  moreover have "\<not> list_ex (\<lambda>p. is_obj p \<and> isRejectableBlock p) ?c" by (simp add: list_ex_iff)
  ultimately show ?thesis using a unfolding s strip_message_def [of ?m]
    by (simp add: nonempty_arr_eq)
qed

lemma stripped_clean:
  assumes "filtered = dropEmptyMessages (fst (stripRejectableBlocks ms))"
  shows "\<not> snd (stripRejectableBlocks filtered)" "dropEmptyMessages (fst (stripRejectableBlocks filtered)) = filtered"
proof -
  have s: "strip_message x = (x, False)" if "x \<in> set filtered" for x
    using that set_dropEmpty [of "fst (stripRejectableBlocks ms)"] assms strip_idem
    by (auto simp: stripRejectableBlocks_def)
  then show "\<not> snd (stripRejectableBlocks filtered)" by (auto simp: stripRejectableBlocks_def list_ex_iff)
  have "fst (stripRejectableBlocks filtered) = filtered" using s by (auto simp: stripRejectableBlocks_def intro!: map_idI)
  then show "dropEmptyMessages (fst (stripRejectableBlocks filtered)) = filtered" using assms by (simp add: dropEmpty_idem)
qed

lemma claude_content_doc_clean:
  assumes "wf_json v" "b \<Longrightarrow> tools_free v" "msgs_clean v"
  shows "snd (claude_content_doc b v) = []"
proof -
  have "claude_content_tools b v = (v, [])"
    using assms(2) sanitize_tools_facts(4) [OF assms(1)] by (auto simp: claude_content_tools_def)
  then show ?thesis using assms(3)
    by (auto simp: claude_content_doc_def msgs_clean_def Let_def case_prod_unfold split: option.splits)
qed

lemma wf_sanitize: "wf_json v \<Longrightarrow> wf_json (fst (SanitizeUnsupportedPatterns v))"
proof (induction v rule: SanitizeUnsupportedPatterns.induct)
  case (1 m)
  let ?p = "fst (drop_pattern m)" let ?n = "fst (drop_pattern_properties ?p)"
  have p: "wf_json (JObj ?p)" using 1(2) wf_json_jdel [of "JObj m" "''pattern''"]
    by (auto simp: drop_pattern_def simp del: wf_json.simps split: option.splits json.splits)
  have f: "wf_json (JObj (filter P pp))" if "wf_json (JObj pp)" for P pp
    using that by (auto simp: wf_map_def distinct_map_filter)
  have n: "wf_json (JObj ?n)"
    using p f wf_json_jget [OF p, of "''patternProperties''"]
      wf_json_jset [OF p, of _ "''patternProperties''"]
    by (auto simp: drop_pattern_properties_def simp del: wf_json.simps split: option.splits json.splits)
  then have "wf_json (fst (SanitizeUnsupportedPatterns w))" if "(k, w) \<in> set ?n" for k w
    using 1(1) [OF refl refl that refl] that by auto
  then show ?case using n unfolding sanitize_obj Let_def by (auto simp: wf_map_map_canon)
qed auto

lemma claude_content_doc_facts:
  assumes w: "wf_json v"
  shows "wf_json (fst (claude_content_doc b v))" "is_obj (fst (claude_content_doc b v)) = is_obj v"
    "msgs_clean (fst (claude_content_doc b v))" "b \<or> tools_free v \<Longrightarrow> tools_free (fst (claude_content_doc b v))"
proof -
  let ?t = "fst (claude_content_tools b v)"
  have "wf_json (fst (sanitize_tools v))" using w wf_sanitize [OF wf_json_arr_at [OF w]]
    by (auto simp: sanitize_tools_def Let_def split: option.splits intro!: wf_json_jset)
  then have t: "wf_json ?t" "is_obj ?t = is_obj v" "b \<or> tools_free v \<Longrightarrow> tools_free ?t"
    using w sanitize_tools_facts [OF w] by (auto simp: claude_content_tools_def case_prod_unfold Let_def)
  let ?f = "\<lambda>ms. dropEmptyMessages (fst (stripRejectableBlocks ms))"
  have d: "fst (claude_content_doc b v) =
      (case nonempty_arr ?t ''messages'' of None \<Rightarrow> ?t | Some ms \<Rightarrow> jset ''messages'' (JArr (?f ms)) ?t)"
    by (simp add: claude_content_doc_def Let_def case_prod_unfold split: option.splits)
  have "wf_json (JArr (?f ms))" if "nonempty_arr ?t ''messages'' = Some ms" for ms
  proof -
    have "wf_json m" if "m \<in> set ms" for m
      using that \<open>nonempty_arr ?t ''messages'' = Some ms\<close> wf_json_arr_at [OF t(1)] by (auto simp: nonempty_arr_Some)
    then have "wf_json m" if "m \<in> set (fst (stripRejectableBlocks ms))" for m
      using that by (auto simp: stripRejectableBlocks_def wf_strip)
    then show ?thesis using set_dropEmpty by auto
  qed
  then show "wf_json (fst (claude_content_doc b v))" "is_obj (fst (claude_content_doc b v)) = is_obj v"
    using t unfolding d by (auto simp del: wf_json.simps split: option.splits intro!: wf_json_jset)
  show "msgs_clean (fst (claude_content_doc b v))"
    using stripped_clean [OF refl] unfolding d
    by (auto simp: msgs_clean_def nonempty_arr_eq arr_at_overwrite split: option.splits if_splits)
  show "b \<or> tools_free v \<Longrightarrow> tools_free (fst (claude_content_doc b v))"
    using t(3) unfolding d tools_free_def
    by (auto simp: nonempty_arr_Some arr_at_jset split: option.splits dest: at_is_obj)
qed

lemma block_payload_canon: "wf_json p \<Longrightarrow> block_has_payload (canon p) = block_has_payload p"
  by (simp add: block_has_payload_def str_at_canon)

lemma strip_canon:
  assumes w: "wf_json m"
  shows "snd (strip_message (canon m)) = snd (strip_message m)"
    "keep_message b (fst (strip_message (canon m))) = keep_message b (fst (strip_message m))"
proof -
  have p: "wf_json p" if "jget m ''content'' = Some (JArr c)" "p \<in> set c" for p c
    using wf_json_arr_at [OF w] that by (simp add: arr_at_Some)
  show "snd (strip_message (canon m)) = snd (strip_message m)"
  proof (cases "nonempty_arr m ''content''")
    case (Some c)
    then have "wf_json p" if "p \<in> set c" for p using p that by (simp add: nonempty_arr_Some arr_at_Some)
    then show ?thesis using w Some by (auto simp: strip_message_def nonempty_arr_canon list_ex_iff isRejectable_canon)
  qed (use w in \<open>simp add: strip_message_def nonempty_arr_canon\<close>)
  have "hasValidContent (fst (strip_message (canon m))) = hasValidContent (fst (strip_message m))"
    using w p by (auto simp: hasValidContent_strip nonempty_arr_canon jget_canon list_ex_iff isRejectable_canon
        block_payload_canon split: option.splits json.splits)
  then show "keep_message b (fst (strip_message (canon m))) = keep_message b (fst (strip_message m))"
    using w by (simp add: keep_message_def str_at_canon)
qed

lemma msgs_clean_canon:
  assumes "wf_json v" "msgs_clean v" shows "msgs_clean (canon v)"
proof (cases "nonempty_arr v ''messages''")
  case None
  then show ?thesis using assms(1) by (simp add: msgs_clean_def nonempty_arr_canon)
next
  case (Some ms)
  then have w: "wf_json m" if "m \<in> set ms" for m
    using that wf_json_arr_at [OF assms(1)] by (auto simp: nonempty_arr_Some)
  then have "length (dropEmptyMessages (fst (stripRejectableBlocks (map canon ms)))) =
      length (dropEmptyMessages (fst (stripRejectableBlocks ms)))"
    by (intro dropEmpty_length_cong) (simp add: stripRejectableBlocks_def list_all2_map1 list_all2_map2 strip_canon
        list_all2_same)
  then show ?thesis using assms Some w
    by (auto simp: msgs_clean_def nonempty_arr_canon stripRejectableBlocks_def list_ex_iff strip_canon)
qed

lemma tools_free_canon: "wf_json v \<Longrightarrow> tools_free v \<Longrightarrow> tools_free (canon v)"
  by (auto simp: tools_free_def arr_at_canon pattern_free_canon split: option.splits dest: wf_json_arr_at)

lemma tools_free_text:
  assumes w: "wf_json v"
    and n: "\<not> (contains (json_print v) (quoted ''tools'') \<and> HasUnicodePropertyPattern (json_print v))"
  shows "tools_free (canon v)"
proof (rule ccontr)
  assume "\<not> ?thesis"
  then obtain ts t where t: "arr_at v ''tools'' = Some ts" "t \<in> set ts" "\<not> pattern_free (canon t)"
    using w by (auto simp: tools_free_def arr_at_canon split: option.splits)
  have "HasUnicodePropertyPattern (json_print v)"
    using pattern_in_text [OF t(3)] json_print_message [OF w t(1,2)] HasUnicode_contains by (simp add: json_print_def)
  moreover have "has_key v ''tools''" using t(1) by (auto simp: arr_at_Some has_key_def)
  then have "contains (json_print v) (quoted ''tools'')"
    using json_print_key [OF w, of "''tools''"] by (metis contains_appendI1 contains_self contains_trans quoted_tokens(5))
  ultimately show False using n by simp
qed

text \<open>
  NormalizeClaudeContent succeeds on the encoding of every JSON object and is idempotent on its
  output: the second run returns the same bytes and no token, and when the first run applied
  something, its output has no rejectable block, no empty message and no unicode-property pattern in
  its tools.
\<close>

theorem normalize_claude_content_idempotent:
  assumes "wf_json v" "is_obj v"
  shows "\<exists>out tokens. NormalizeClaudeContent (json_print v) = Inr (out, tokens) \<and>
    NormalizeClaudeContent out = Inr (out, []) \<and>
    (\<exists>d. unmarshal_map out = Some d \<and> (tokens \<noteq> [] \<longrightarrow> msgs_clean d \<and> tools_free d))"
proof -
  let ?b = "json_print v" let ?c = "canon v"
  define h where "h = (contains ?b (quoted ''tools'') \<and> HasUnicodePropertyPattern ?b)"
  have c: "wf_json ?c" "is_obj ?c" using assms by (simp_all add: wf_json_canon)
  have um: "unmarshal_map ?b = Some ?c" using assms unmarshal_map_print by blast
  note nn = json_print_not_Nil [OF assms(1)]
  obtain r toks where r: "claude_content_doc h ?c = (r, toks)" by fastforce
  show ?thesis
  proof (cases "(\<not> contains ?b (quoted ''content'') \<and> \<not> h) \<or> toks = []")
    case True
    then have "NormalizeClaudeContent ?b = Inr (?b, [])"
      using um r nn by (auto simp: NormalizeClaudeContent_def Let_def h_def)
    then show ?thesis using um by auto
  next
    case False
    then have ok: "NormalizeClaudeContent ?b = Inr (json_print r, toks)"
      using um r nn by (auto simp: NormalizeClaudeContent_def Let_def h_def)
    have f: "wf_json r" "is_obj r" "msgs_clean r" "h \<or> tools_free ?c \<Longrightarrow> tools_free r"
      using claude_content_doc_facts [OF c(1), of h] r c(2) by auto
    moreover have "h \<or> tools_free ?c" using tools_free_text [OF assms(1)] by (auto simp: h_def)
    ultimately have t: "msgs_clean (canon r)" "tools_free (canon r)"
      using msgs_clean_canon tools_free_canon by blast+
    have ur: "unmarshal_map (json_print r) = Some (canon r)" using f unmarshal_map_print by blast
    have "snd (claude_content_doc b (canon r)) = []" for b
      using claude_content_doc_clean [OF wf_json_canon [OF f(1)]] t by blast
    then have "NormalizeClaudeContent (json_print r) = Inr (json_print r, [])"
      using ur by (auto simp: NormalizeClaudeContent_def Let_def case_prod_unfold)
    then show ?thesis using ok ur t by blast
  qed
qed

section \<open>Signed thinking and the properties at concrete requests\<close>

text \<open>
  The doc comment of NormalizeClaudeContent says that signed thinking blocks are preserved; a message before the
  last one whose only block is a signed thinking block is dropped nevertheless, since hasValidContent does not
  count thinking blocks.
\<close>

theorem signed_thinking_message_dropped:
  "\<not> isRejectableBlock (thinking_block t (c # cs)) \<and>
   dropEmptyMessages (fst (stripRejectableBlocks
     [role_msg ''assistant'' (JArr [thinking_block t (c # cs)]), role_msg ''user'' (JStr (d # ds))])) =
   [role_msg ''user'' (JStr (d # ds))]"
  by (simp add: stripRejectableBlocks_def strip_message_def nonempty_arr_def arr_at_def role_msg_def thinking_block_def
      isRejectableBlock_def str_at_def keep_message_def hasValidContent_def block_has_payload_def Let_def)

theorem prepare_claude_ready_witness:
  "\<exists>out d. PrepareClaudeRequest claude_body = Inr out \<and> unmarshal_map out = Some d \<and> claude_ready d"
proof -
  have "unmarshal_map claude_body = Some (the (unmarshal_map claude_body))" by code_simp
  from prepare_claude_ready [OF this] show ?thesis .
qed

theorem normalize_claude_content_idempotent_witness:
  "\<exists>out tokens. NormalizeClaudeContent (json_print claude_req) = Inr (out, tokens) \<and>
    NormalizeClaudeContent out = Inr (out, [])"
proof -
  have "wf_json claude_req" "is_obj claude_req"
    by (simp_all add: claude_req_def role_msg_def text_block_def wf_map_def)
  from normalize_claude_content_idempotent [OF this] show ?thesis by blast
qed

theorem merge_preserves_blocks_witness:
  "mset (concat (map content_list (mergeConsecutiveSameRole
      [role_msg ''user'' (JArr [text_block ''a'']), role_msg ''user'' (JArr [text_block ''b''])]))) =
    {#text_block ''a'', text_block ''b''#}"
proof -
  let ?ms = "[role_msg ''user'' (JArr [text_block ''a'']), role_msg ''user'' (JArr [text_block ''b''])]"
  have "\<forall>m \<in> set ?ms. is_obj m \<and> arr_at m ''content'' \<noteq> None" by (simp add: role_msg_def arr_at_def)
  from merge_preserves_blocks [OF this] show ?thesis by (simp add: content_list_def role_msg_def arr_at_def)
qed

theorem ordering_drops_late_text_witness:
  "\<exists>c'. arr_at (order_message (role_msg ''assistant'' (JArr [tool_use_block, text_block ''a'']))) ''content'' = Some c' \<and>
    no_text_after_tool_use c'"
proof -
  let ?m = "role_msg ''assistant'' (JArr [tool_use_block, text_block ''a''])"
  have "str_at ?m ''role'' = ''assistant''" "arr_at ?m ''content'' = Some [tool_use_block, text_block ''a'']"
    by (simp_all add: role_msg_def str_at_def arr_at_def)
  from ordering_drops_late_text [OF this] show ?thesis by blast
qed

end
