(* ===== verification/Prepost_Tools.thy ===== *)
theory Prepost_Tools
  imports Prepost_Claude
begin

text \<open>
  The tool-call stages of internal/translate/internal/prepost: ids that match the Anthropic pattern
  (ensure\_ids.go), synthetic responses for calls that have none (fix\_missing.go), and orphaned tool
  interactions at the edges of a truncated history (sanitize\_history.go).
\<close>

section \<open>Tool-call ids (ensure\_ids.go)\<close>

definition is_id_char :: "char \<Rightarrow> bool" where
  "is_id_char c =
     ((CHR ''a'' \<le> c \<and> c \<le> CHR ''z'') \<or> (CHR ''A'' \<le> c \<and> c \<le> CHR ''Z'') \<or> is_digit c \<or>
      c = CHR ''_'' \<or> c = CHR ''-'')"

definition toolIDPattern :: "string \<Rightarrow> bool" where
  "toolIDPattern s = (s \<noteq> [] \<and> list_all is_id_char s)"

definition strip_invalid :: "string \<Rightarrow> string" where
  "strip_invalid s = filter is_id_char s"

definition ensureID :: "string \<Rightarrow> string \<Rightarrow> nat \<Rightarrow> nat \<Rightarrow> string" where
  "ensureID ident name msgIdx tcIdx =
     (if ident \<noteq> [] \<and> toolIDPattern ident then ident
      else if ident \<noteq> [] \<and> strip_invalid ident \<noteq> [] then strip_invalid ident
      else let safeName = strip_invalid name
           in ''call_msg'' @ show_nat msgIdx @ ''_tc'' @ show_nat tcIdx @
              (if safeName \<noteq> [] then CHR ''_'' # safeName else []))"

record id_state =
  toolCallSeenCount :: "(string, nat) gomap"
  toolCallMap :: "(string, string list) gomap"
  toolResultSeenCount :: "(string, nat) gomap"

definition id_init :: id_state where
  "id_init = \<lparr>toolCallSeenCount = [], toolCallMap = [], toolResultSeenCount = []\<rparr>"

definition count_at :: "(string, nat) gomap \<Rightarrow> string \<Rightarrow> nat" where
  "count_at m k = (case map_of m k of Some n \<Rightarrow> n | None \<Rightarrow> 0)"

definition list_at :: "(string, string list) gomap \<Rightarrow> string \<Rightarrow> string list" where
  "list_at m k = (case map_of m k of Some l \<Rightarrow> l | None \<Rightarrow> [])"

definition numbered :: "string \<Rightarrow> nat \<Rightarrow> string" where
  "numbered s seen = (if seen = 0 then s else s @ CHR ''_'' # show_nat seen)"

text \<open>The two id assignments: of a call (with its default id), and of a result.\<close>

definition call_id :: "string \<Rightarrow> id_state \<Rightarrow> string \<times> id_state" where
  "call_id defID st =
     (let seen = count_at (toolCallSeenCount st) defID; finalID = numbered defID seen
      in (finalID,
          st\<lparr>toolCallSeenCount := mput defID (seen + 1) (toolCallSeenCount st),
             toolCallMap := mput defID (list_at (toolCallMap st) defID @ [finalID]) (toolCallMap st)\<rparr>))"

definition result_id :: "string \<Rightarrow> id_state \<Rightarrow> string \<times> id_state" where
  "result_id resID st =
     (let seen = count_at (toolResultSeenCount st) resID; mappedList = list_at (toolCallMap st) resID
      in (if seen < length mappedList then mappedList ! seen else numbered resID seen,
          st\<lparr>toolResultSeenCount := mput resID (seen + 1) (toolResultSeenCount st)\<rparr>))"

text \<open>A loop that walks a list with an index, rewrites the elements and threads the state.\<close>

fun map_state :: "(nat \<Rightarrow> 's \<Rightarrow> 'a \<Rightarrow> 'a \<times> 's) \<Rightarrow> nat \<Rightarrow> 's \<Rightarrow> 'a list \<Rightarrow> 'a list \<times> 's" where
  "map_state f i s [] = ([], s)"
| "map_state f i s (x # xs) =
     (let (y, s1) = f i s x; (ys, s2) = map_state f (Suc i) s1 xs in (y # ys, s2))"

definition ensure_call :: "nat \<Rightarrow> nat \<Rightarrow> id_state \<Rightarrow> json \<Rightarrow> json \<times> id_state" where
  "ensure_call i j st tc =
     (if \<not> is_obj tc then (tc, st)
      else let name = (case obj_at tc ''function'' of Some fn \<Rightarrow> str_at fn ''name'' | None \<Rightarrow> []);
               (finalID, st') = call_id (ensureID (str_at tc ''id'') name i j) st
           in (jset ''id'' (JStr finalID) tc, st'))"

definition ensure_part :: "nat \<Rightarrow> nat \<Rightarrow> id_state \<Rightarrow> json \<Rightarrow> json \<times> id_state" where
  "ensure_part i k st part =
     (if \<not> is_obj part then (part, st)
      else if str_at part ''type'' = ''tool_use'' then
        (let (finalID, st') = call_id (ensureID (str_at part ''id'') (str_at part ''name'') i k) st
         in (jset ''id'' (JStr finalID) part, st'))
      else if str_at part ''type'' = ''tool_result'' \<and> str_at part ''tool_use_id'' \<noteq> [] then
        (let (finalID, st') = result_id (ensureID (str_at part ''tool_use_id'') [] i k) st
         in (jset ''tool_use_id'' (JStr finalID) part, st'))
      else (part, st))"

definition ensure_tool_calls :: "nat \<Rightarrow> id_state \<Rightarrow> json \<Rightarrow> json \<times> id_state" where
  "ensure_tool_calls i st m =
     (case arr_at m ''tool_calls'' of
        Some tcs \<Rightarrow> (let (tcs', st') = map_state (ensure_call i) 0 st tcs in (jset ''tool_calls'' (JArr tcs') m, st'))
      | None \<Rightarrow> (m, st))"

definition ensure_tool_role :: "nat \<Rightarrow> id_state \<Rightarrow> json \<Rightarrow> json \<times> id_state" where
  "ensure_tool_role i st m =
     (if str_at m ''role'' = ''tool'' \<and> str_at m ''tool_call_id'' \<noteq> [] then
        (let (finalID, st') = result_id (ensureID (str_at m ''tool_call_id'') [] i 0) st
         in (jset ''tool_call_id'' (JStr finalID) m, st'))
      else (m, st))"

definition ensure_content :: "nat \<Rightarrow> id_state \<Rightarrow> json \<Rightarrow> json \<times> id_state" where
  "ensure_content i st m =
     (case arr_at m ''content'' of
        Some ps \<Rightarrow> (let (ps', st') = map_state (ensure_part i) 0 st ps in (jset ''content'' (JArr ps') m, st'))
      | None \<Rightarrow> (m, st))"

definition ensure_message :: "nat \<Rightarrow> id_state \<Rightarrow> json \<Rightarrow> json \<times> id_state" where
  "ensure_message i st m =
     (if \<not> is_obj m then (m, st)
      else let (m1, st1) = ensure_tool_calls i st m; (m2, st2) = ensure_tool_role i st1 m1
           in ensure_content i st2 m2)"

definition ensure_ids_doc :: "json \<Rightarrow> json option" where
  "ensure_ids_doc raw =
     (case arr_at raw ''messages'' of
        None \<Rightarrow> None
      | Some msgs \<Rightarrow> Some (jset ''messages'' (JArr (fst (map_state ensure_message 0 id_init msgs))) raw))"

definition EnsureToolCallIds :: "string \<Rightarrow> string res" where
  "EnsureToolCallIds body = json_stage ''prepost: ensure tool call ids'' ensure_ids_doc body"

section \<open>Missing tool responses (fix\_missing.go)\<close>

definition SyntheticToolContent :: string where
  "SyntheticToolContent = ''[Tool result not available '' @ [CHR 0xE2, CHR 0x80, CHR 0x94] @
     '' execution context was lost]''"

definition collectRespondedIDs :: "json \<Rightarrow> string list" where
  "collectRespondedIDs msg =
     (if str_at msg ''role'' = ''tool'' \<and> str_at msg ''tool_call_id'' \<noteq> [] then [str_at msg ''tool_call_id''] else []) @
     (case arr_at msg ''content'' of
        Some ps \<Rightarrow> filter (\<lambda>s. s \<noteq> []) (map (\<lambda>p. str_at p ''tool_use_id'') (filter isToolResult ps))
      | None \<Rightarrow> [])"

fun scan_responded :: "json list \<Rightarrow> string list" where
  "scan_responded [] = []"
| "scan_responded (n # ns) =
     (if \<not> is_obj n then scan_responded ns
      else let role = str_at n ''role''
           in if role \<noteq> ''tool'' \<and> role \<noteq> ''user'' then []
              else collectRespondedIDs n @ (if role = ''user'' then [] else scan_responded ns))"

definition wanted_ids :: "json \<Rightarrow> string list" where
  "wanted_ids m =
     (if is_assistant m
      then (case arr_at m ''tool_calls'' of
              Some tcs \<Rightarrow> filter (\<lambda>s. s \<noteq> []) (map (\<lambda>tc. str_at tc ''id'') tcs)
            | None \<Rightarrow> [])
      else [])"

definition synthetic_tool :: "string \<Rightarrow> json" where
  "synthetic_tool ident =
     JObj [(''role'', JStr ''tool''), (''tool_call_id'', JStr ident), (''content'', JStr SyntheticToolContent)]"

fun fix_missing :: "json list \<Rightarrow> json list" where
  "fix_missing [] = []"
| "fix_missing (m # ms) =
     m # map synthetic_tool (filter (\<lambda>s. s \<notin> set (scan_responded ms)) (wanted_ids m)) @ fix_missing ms"

definition fix_missing_doc :: "json \<Rightarrow> json option" where
  "fix_missing_doc raw =
     (case nonempty_arr raw ''messages'' of
        None \<Rightarrow> None
      | Some msgs \<Rightarrow> Some (jset ''messages'' (JArr (fix_missing msgs)) raw))"

definition FixMissingToolResponses :: "string \<Rightarrow> string res" where
  "FixMissingToolResponses body = json_stage ''prepost: fix missing tool responses'' fix_missing_doc body"

section \<open>Orphans at the edges (sanitize\_history.go)\<close>

definition isOnlyToolResults :: "json \<Rightarrow> bool" where
  "isOnlyToolResults m =
     (case nonempty_arr m ''content'' of
        None \<Rightarrow> False
      | Some ps \<Rightarrow> list_all (\<lambda>p. is_obj p \<and> isToolResult p) ps)"

definition leading_tool :: "json \<Rightarrow> bool" where
  "leading_tool m = (is_obj m \<and> str_at m ''role'' = ''tool'')"

definition leading_results :: "json \<Rightarrow> bool" where
  "leading_results m = (is_obj m \<and> str_at m ''role'' = ''user'' \<and> isOnlyToolResults m)"

definition strip_leading :: "json list \<Rightarrow> json list" where
  "strip_leading msgs = dropWhile leading_results (dropWhile leading_tool msgs)"

definition truncated_calls :: "json \<Rightarrow> json" where
  "truncated_calls m =
     (let m' = jdel ''tool_calls'' m
      in if hasValidContent m' then m'
         else jset ''content'' (JStr ''[Previous tool invocations were truncated from context]'') m')"

definition responded_in :: "json list \<Rightarrow> bool" where
  "responded_in after = list_ex (\<lambda>n. is_obj n \<and> collectRespondedIDs n \<noteq> []) after"

text \<open>The backward walk: the messages still to look at in reverse, and those already passed.\<close>

fun strip_trailing :: "json list \<Rightarrow> json list \<Rightarrow> json list \<times> bool" where
  "strip_trailing [] after = (after, False)"
| "strip_trailing (m # before) after =
     (if \<not> is_assistant m then strip_trailing before (m # after)
      else if nonempty_arr m ''tool_calls'' = None then (rev before @ m # after, False)
      else if responded_in after then (rev before @ m # after, False)
      else (rev before @ truncated_calls m # after, True))"

definition sanitize_history_doc :: "json \<Rightarrow> json option" where
  "sanitize_history_doc raw =
     (case nonempty_arr raw ''messages'' of
        None \<Rightarrow> None
      | Some msgs \<Rightarrow>
          (let kept = strip_leading msgs;
               (out, changed) = strip_trailing (rev kept) []
           in if length kept \<noteq> length msgs \<or> changed
              then Some (jset ''messages'' (JArr out) raw) else None))"

definition SanitizeToolHistory :: "string \<Rightarrow> string res" where
  "SanitizeToolHistory body = json_stage ''prepost: sanitize tool history'' sanitize_history_doc body"

section \<open>Specifications\<close>

fun answered :: "json list \<Rightarrow> bool" where
  "answered [] = True"
| "answered (m # ms) = (set (wanted_ids m) \<subseteq> set (scan_responded ms) \<and> answered ms)"

definition history_answered :: "json \<Rightarrow> bool" where
  "history_answered raw = (case arr_at raw ''messages'' of Some msgs \<Rightarrow> answered msgs | None \<Rightarrow> True)"

definition valid_call :: "json \<Rightarrow> bool" where
  "valid_call tc = (is_obj tc \<longrightarrow> toolIDPattern (str_at tc ''id''))"

definition valid_part :: "json \<Rightarrow> bool" where
  "valid_part p =
     ((is_tool_use p \<longrightarrow> toolIDPattern (str_at p ''id'')) \<and>
      (isToolResult p \<and> str_at p ''tool_use_id'' \<noteq> [] \<longrightarrow> toolIDPattern (str_at p ''tool_use_id'')))"

definition valid_ids :: "json \<Rightarrow> bool" where
  "valid_ids m =
     ((\<forall>tcs. arr_at m ''tool_calls'' = Some tcs \<longrightarrow> (\<forall>tc \<in> set tcs. valid_call tc)) \<and>
      (str_at m ''role'' = ''tool'' \<and> str_at m ''tool_call_id'' \<noteq> [] \<longrightarrow> toolIDPattern (str_at m ''tool_call_id'')) \<and>
      (\<forall>ps. arr_at m ''content'' = Some ps \<longrightarrow> (\<forall>p \<in> set ps. valid_part p)))"

definition request_ids_valid :: "json \<Rightarrow> bool" where
  "request_ids_valid raw = (case arr_at raw ''messages'' of Some msgs \<Rightarrow> (\<forall>m \<in> set msgs. valid_ids m) | None \<Rightarrow> True)"

text \<open>The state between assignments: every id recorded for a call matches the pattern.\<close>

definition id_inv :: "id_state \<Rightarrow> bool" where
  "id_inv st = (\<forall>k. \<forall>s \<in> set (list_at (toolCallMap st) k). toolIDPattern s)"

definition call_ids_of :: "json \<Rightarrow> string list" where
  "call_ids_of tc = (if is_obj tc then [str_at tc ''id''] else [])"

definition part_calls :: "json \<Rightarrow> string list" where
  "part_calls p = (if is_tool_use p then [str_at p ''id''] else [])"

definition part_results :: "json \<Rightarrow> string list" where
  "part_results p = (if isToolResult p \<and> str_at p ''tool_use_id'' \<noteq> [] then [str_at p ''tool_use_id''] else [])"

text \<open>The ids of the calls and of the results of a message, in the order of the walk.\<close>

definition message_calls :: "json \<Rightarrow> string list" where
  "message_calls m =
     (case arr_at m ''tool_calls'' of Some tcs \<Rightarrow> concat (map call_ids_of tcs) | None \<Rightarrow> []) @
     (case arr_at m ''content'' of Some ps \<Rightarrow> concat (map part_calls ps) | None \<Rightarrow> [])"

definition role_results :: "json \<Rightarrow> string list" where
  "role_results m =
     (if str_at m ''role'' = ''tool'' \<and> str_at m ''tool_call_id'' \<noteq> [] then [str_at m ''tool_call_id''] else [])"

definition message_results :: "json \<Rightarrow> string list" where
  "message_results m =
     role_results m @
     (case arr_at m ''content'' of Some ps \<Rightarrow> concat (map part_results ps) | None \<Rightarrow> [])"

definition fresh_ids :: "id_state \<Rightarrow> string set \<Rightarrow> string set \<Rightarrow> bool" where
  "fresh_ids st C R =
     (dom (map_of (toolCallSeenCount st)) \<subseteq> C \<and> dom (map_of (toolResultSeenCount st)) \<subseteq> R \<and>
      (\<forall>k. map_of (toolCallMap st) k = (if k \<in> dom (map_of (toolCallSeenCount st)) then Some [k] else None)))"

definition call_block :: "string \<Rightarrow> json" where
  "call_block s = JObj [(''id'', JStr s)]"

text \<open>The calls of the last assistant message, if it has any, are followed by a response.\<close>

fun trailing_ok :: "json list \<Rightarrow> json list \<Rightarrow> bool" where
  "trailing_ok [] after = True"
| "trailing_ok (m # before) after =
     (if \<not> is_assistant m then trailing_ok before (m # after)
      else nonempty_arr m ''tool_calls'' \<noteq> None \<longrightarrow> responded_in after)"

definition edges_ok :: "json list \<Rightarrow> bool" where
  "edges_ok msgs = (trailing_ok (rev msgs) [] \<and> (msgs \<noteq> [] \<longrightarrow> \<not> leading_results (hd msgs)))"

definition tools_body :: string where
  "tools_body = json_print (JObj [(''messages'', JArr [
     JObj [(''role'', JStr ''assistant''), (''tool_calls'', JArr [JObj [(''id'', JStr ''a'')]])]])])"

definition orphan_req :: json where
  "orphan_req = JObj [(''messages'', JArr [JObj [(''role'', JStr ''tool'')],
     JObj [(''role'', JStr ''assistant''), (''tool_calls'', JArr [JNull])]])]"

section \<open>Missing responses are supplied\<close>

lemma synthetic_facts [simp]:
  "is_obj (synthetic_tool s)" "str_at (synthetic_tool s) ''role'' = ''tool''" "wanted_ids (synthetic_tool s) = []"
  "s \<noteq> [] \<Longrightarrow> collectRespondedIDs (synthetic_tool s) = [s]"
  by (simp_all add: synthetic_tool_def str_at_def wanted_ids_def is_assistant_def collectRespondedIDs_def arr_at_def)

lemma wanted_nonempty: "s \<in> set (wanted_ids m) \<Longrightarrow> s \<noteq> []"
  by (cases "arr_at m ''tool_calls''"; cases "is_assistant m") (simp_all add: wanted_ids_def)

lemma wanted_stops: "wanted_ids m \<noteq> [] \<Longrightarrow> is_obj m \<and> scan_responded (m # ms) = []"
  by (auto simp: wanted_ids_def is_assistant_def dest: str_at_obj split: if_splits)

lemma scan_synthetic: "[] \<notin> set ids \<Longrightarrow> scan_responded (map synthetic_tool ids @ ms) = ids @ scan_responded ms"
  by (induction ids) auto

lemma scan_fix: "scan_responded (fix_missing ms) = scan_responded ms"
proof (induction ms)
  case (Cons m ms)
  show ?case
  proof (cases "wanted_ids m = []")
    case True
    then show ?thesis using Cons by (simp add: Let_def)
  next
    case False
    then have "scan_responded (m # xs) = []" for xs using wanted_stops by blast
    then show ?thesis by (simp only: fix_missing.simps)
  qed
qed simp

lemma answered_synthetic: "answered (map synthetic_tool ids @ ms) = answered ms"
  by (induction ids) auto

lemma answered_fix: "answered (fix_missing ms)"
proof (induction ms)
  case (Cons m ms)
  let ?ids = "filter (\<lambda>s. s \<notin> set (scan_responded ms)) (wanted_ids m)"
  have "[] \<notin> set ?ids" using wanted_nonempty by auto
  then show ?case using Cons by (auto simp: answered_synthetic scan_synthetic scan_fix)
qed simp

lemma fix_answered_id: "answered ms \<Longrightarrow> fix_missing ms = ms"
proof (induction ms)
  case (Cons m ms)
  then have "filter (\<lambda>s. s \<notin> set (scan_responded ms)) (wanted_ids m) = []" by (auto simp: filter_empty_conv)
  with Cons show ?case by simp
qed simp

lemma fix_keeps_messages: "subseq ms (fix_missing ms)"
  by (induction ms) (auto simp: subseq_drop_many)

lemma fix_adds_synthetic: "x \<in> set (fix_missing ms) \<Longrightarrow> x \<in> set ms \<or> (\<exists>s. s \<noteq> [] \<and> x = synthetic_tool s)"
  by (induction ms) (auto dest: wanted_nonempty)

lemma wf_synthetic: "wf_json (synthetic_tool s)"
  by (simp add: synthetic_tool_def wf_map_def)

lemma wf_fix: "\<forall>m \<in> set ms. wf_json m \<Longrightarrow> wf_json (JArr (fix_missing ms))"
  using fix_adds_synthetic wf_synthetic by fastforce

lemma wanted_canon: "wf_json m \<Longrightarrow> wanted_ids (canon m) = wanted_ids m"
  using wf_json_arr_at [of m "''tool_calls''"]
  by (auto simp: wanted_ids_def is_assistant_canon arr_at_canon str_at_canon comp_def split: option.splits
      intro!: arg_cong [of _ _ "filter _"])

lemma isToolResult_canon: "wf_json p \<Longrightarrow> isToolResult (canon p) = isToolResult p"
  by (simp add: isToolResult_def str_at_canon)

lemma collect_canon: "wf_json m \<Longrightarrow> collectRespondedIDs (canon m) = collectRespondedIDs m"
proof -
  assume w: "wf_json m"
  have "map (\<lambda>p. str_at p ''tool_use_id'') (filter isToolResult (map canon ps)) =
      map (\<lambda>p. str_at p ''tool_use_id'') (filter isToolResult ps)" if "\<forall>p \<in> set ps. wf_json p" for ps
    using that by (induction ps) (auto simp: isToolResult_canon str_at_canon)
  then show ?thesis using w wf_json_arr_at [OF w, of "''content''"]
    by (auto simp: collectRespondedIDs_def str_at_canon arr_at_canon split: option.splits)
qed

lemma scan_canon: "\<forall>m \<in> set ms. wf_json m \<Longrightarrow> scan_responded (map canon ms) = scan_responded ms"
  by (induction ms) (auto simp: str_at_canon collect_canon Let_def)

lemma answered_canon: "\<forall>m \<in> set ms. wf_json m \<Longrightarrow> answered (map canon ms) = answered ms"
  by (induction ms) (auto simp: wanted_canon scan_canon)

interpretation answers: doc_contract history_answered
proof
  fix v assume w: "wf_json v" and "history_answered v"
  then show "history_answered (canon v)"
    using answered_canon wf_json_arr_at [OF w] by (auto simp: history_answered_def arr_at_canon split: option.splits)
qed

text \<open>
  FixMissingToolResponses succeeds on every decodable body, and in the request its output decodes to,
  every non-empty id among the tool calls of every assistant message is answered within the window of
  tool and user messages that follows it.
\<close>

theorem fix_missing_answers_every_call:
  assumes "unmarshal_map body = Some raw"
  shows "\<exists>out d. FixMissingToolResponses body = Inr out \<and> unmarshal_map out = Some d \<and> history_answered d"
proof -
  have w: "wf_json raw" using unmarshal_map_wf [OF assms] .
  have ok: "\<exists>out. FixMissingToolResponses body = Inr out"
    using assms by (auto simp: FixMissingToolResponses_def json_stage_def split: option.splits)
  then obtain out where out: "FixMissingToolResponses body = Inr out" by blast
  have "answers.holds_on out"
  proof (rule answers.stage_lift [OF out [unfolded FixMissingToolResponses_def] assms])
    show "fix_missing_doc raw = None \<Longrightarrow> history_answered raw"
      by (auto simp: fix_missing_doc_def history_answered_def nonempty_arr_eq split: option.splits if_splits)
    fix r assume "fix_missing_doc raw = Some r"
    then obtain msgs where m: "arr_at raw ''messages'' = Some msgs" "r = jset ''messages'' (JArr (fix_missing msgs)) raw"
      by (auto simp: fix_missing_doc_def nonempty_arr_Some split: option.splits)
    have "wf_json (JArr (fix_missing msgs))" using wf_json_arr_at [OF w m(1)] by (intro wf_fix) blast
    then show "wf_json r \<and> (is_obj r \<or> r = JNull) \<and> history_answered r"
      using m w at_is_obj(1) [OF m(1)]
      by (simp add: history_answered_def arr_at_overwrite answered_fix wf_json_jset del: wf_json.simps)
  qed
  then show ?thesis using out by (auto simp: answers.holds_on_def)
qed

text \<open>
  FixMissingToolResponses keeps every message in order, adds nothing but synthetic tool responses,
  changes nothing exactly when the history is already answered, and is idempotent.
\<close>

theorem fix_missing_only_adds:
  "subseq ms (fix_missing ms) \<and>
   (\<forall>x \<in> set (fix_missing ms). x \<in> set ms \<or> (\<exists>s. s \<noteq> [] \<and> x = synthetic_tool s)) \<and>
   (answered ms \<longleftrightarrow> fix_missing ms = ms) \<and> fix_missing (fix_missing ms) = fix_missing ms"
  using fix_keeps_messages fix_adds_synthetic fix_answered_id answered_fix by metis

section \<open>Every id matches the pattern\<close>

lemma map_state_induct:
  assumes "I s" "\<And>i s x. x \<in> set xs \<Longrightarrow> I s \<Longrightarrow> P (fst (f i s x)) \<and> I (snd (f i s x))"
  shows "(\<forall>y \<in> set (fst (map_state f i s xs)). P y) \<and> I (snd (map_state f i s xs))"
  using assms
proof (induction xs arbitrary: i s)
  case (Cons x xs)
  have x: "P (fst (f i s x))" "I (snd (f i s x))" using Cons.prems by auto
  have "(\<forall>y \<in> set (fst (map_state f (Suc i) (snd (f i s x)) xs)). P y) \<and> I (snd (map_state f (Suc i) (snd (f i s x)) xs))"
    using x Cons.prems(2) by (intro Cons.IH) auto
  then show ?case using x by (auto simp: case_prod_unfold Let_def)
qed simp

lemma strip_invalid_valid: "strip_invalid s \<noteq> [] \<Longrightarrow> toolIDPattern (strip_invalid s)"
  by (auto simp: strip_invalid_def toolIDPattern_def list_all_iff)

lemma digit_id_char: "is_digit c \<Longrightarrow> is_id_char c"
  by (simp add: is_id_char_def)

lemma show_nat_id_chars: "list_all is_id_char (show_nat n)"
  using show_nat_digits digit_id_char by (auto simp: list_all_iff)

lemma id_char_letters: "list_all is_id_char ''call_msg''" "list_all is_id_char ''_tc''" "is_id_char (CHR ''_'')"
  by code_simp+

lemma ensureID_valid: "toolIDPattern (ensureID s name i j)"
proof -
  have "list_all is_id_char (strip_invalid name)" by (simp add: strip_invalid_def list_all_iff)
  then have "toolIDPattern (''call_msg'' @ show_nat i @ ''_tc'' @ show_nat j @
      (if strip_invalid name \<noteq> [] then CHR ''_'' # strip_invalid name else []))"
    using show_nat_id_chars [of i] show_nat_id_chars [of j] id_char_letters by (simp add: toolIDPattern_def)
  then show ?thesis using strip_invalid_valid [of s] by (simp add: ensureID_def Let_def)
qed

lemma numbered_valid: "toolIDPattern s \<Longrightarrow> toolIDPattern (numbered s n)"
  using show_nat_id_chars [of n] id_char_letters by (auto simp: numbered_def toolIDPattern_def)

lemma call_id_valid:
  assumes "id_inv st" "toolIDPattern s"
  shows "toolIDPattern (fst (call_id s st)) \<and> id_inv (snd (call_id s st))"
  using assms numbered_valid
  by (auto simp: call_id_def Let_def id_inv_def list_at_def map_of_mput split: option.splits if_splits)

lemma result_id_valid:
  assumes "id_inv st" "toolIDPattern s"
  shows "toolIDPattern (fst (result_id s st)) \<and> id_inv (snd (result_id s st))"
  using assms numbered_valid nth_mem
  by (fastforce simp: result_id_def Let_def id_inv_def)

lemma ensure_call_valid:
  assumes "id_inv st" shows "valid_call (fst (ensure_call i j st tc)) \<and> id_inv (snd (ensure_call i j st tc))"
  using assms call_id_valid [OF assms ensureID_valid]
  by (auto simp: ensure_call_def valid_call_def case_prod_unfold Let_def str_at_jset)

lemma ensure_part_valid:
  assumes "id_inv st" shows "valid_part (fst (ensure_part i j st p)) \<and> id_inv (snd (ensure_part i j st p))"
  using assms call_id_valid [OF assms ensureID_valid] result_id_valid [OF assms ensureID_valid]
  by (auto simp: ensure_part_def valid_part_def is_tool_use_def isToolResult_def case_prod_unfold Let_def str_at_jset
      dest: str_at_obj)

lemma ensure_tool_calls_valid:
  assumes "is_obj m" "id_inv st"
  shows "\<forall>tcs. arr_at (fst (ensure_tool_calls i st m)) ''tool_calls'' = Some tcs \<longrightarrow> (\<forall>tc \<in> set tcs. valid_call tc)"
    "id_inv (snd (ensure_tool_calls i st m))" "is_obj (fst (ensure_tool_calls i st m))"
  using assms map_state_induct [of id_inv st _ valid_call "ensure_call i" 0, OF assms(2) ensure_call_valid]
  by (auto simp: ensure_tool_calls_def case_prod_unfold Let_def arr_at_overwrite split: option.splits)

lemma ensure_tool_role_valid:
  assumes "is_obj m" "id_inv st"
  shows "str_at (fst (ensure_tool_role i st m)) ''role'' = ''tool'' \<and>
     str_at (fst (ensure_tool_role i st m)) ''tool_call_id'' \<noteq> [] \<longrightarrow>
     toolIDPattern (str_at (fst (ensure_tool_role i st m)) ''tool_call_id'')"
    "id_inv (snd (ensure_tool_role i st m))" "is_obj (fst (ensure_tool_role i st m))"
    "arr_at (fst (ensure_tool_role i st m)) ''tool_calls'' = arr_at m ''tool_calls''"
  using assms result_id_valid [OF assms(2) ensureID_valid]
  by (auto simp: ensure_tool_role_def case_prod_unfold Let_def str_at_jset arr_at_jset)

lemma ensure_content_valid:
  assumes "is_obj m" "id_inv st"
  shows "\<forall>ps. arr_at (fst (ensure_content i st m)) ''content'' = Some ps \<longrightarrow> (\<forall>p \<in> set ps. valid_part p)"
    "id_inv (snd (ensure_content i st m))" "is_obj (fst (ensure_content i st m))"
    "k \<noteq> ''content'' \<Longrightarrow> jget (fst (ensure_content i st m)) k = jget m k"
  using assms map_state_induct [of id_inv st _ valid_part "ensure_part i" 0, OF assms(2) ensure_part_valid]
  by (auto simp: ensure_content_def case_prod_unfold Let_def arr_at_overwrite jget_jset split: option.splits)

lemma ensure_message_valid:
  assumes "id_inv st" shows "valid_ids (fst (ensure_message i st m)) \<and> id_inv (snd (ensure_message i st m))"
proof (cases "is_obj m")
  case False
  then show ?thesis using assms by (auto simp: ensure_message_def valid_ids_def dest: at_is_obj)
next
  case True
  let ?c = "ensure_tool_calls i st m" let ?r = "ensure_tool_role i (snd ?c) (fst ?c)"
  let ?d = "ensure_content i (snd ?r) (fst ?r)"
  note c = ensure_tool_calls_valid [OF True assms, of i]
  note r = ensure_tool_role_valid [OF c(3,2), of i]
  note d = ensure_content_valid [OF r(3,2), where i = i]
  have "ensure_message i st m = ?d" using True by (simp add: ensure_message_def case_prod_unfold Let_def)
  moreover have "arr_at (fst ?d) ''tool_calls'' = arr_at (fst ?c) ''tool_calls''"
    using r(4) d(4) [of "''tool_calls''"] by (simp add: arr_at_def)
  moreover have "str_at (fst ?d) k = str_at (fst ?r) k" if "k \<noteq> ''content''" for k
    using d(4) [OF that] by (simp add: str_at_def)
  ultimately show ?thesis using c(1) r(1) d(1,2) by (simp add: valid_ids_def)
qed

lemma wf_map_state:
  assumes "\<And>i s x. x \<in> set xs \<Longrightarrow> wf_json (fst (f i s x))"
  shows "wf_json (JArr (fst (map_state f i s xs)))"
  using map_state_induct [of "\<lambda>_. True" s xs wf_json f i] assms by simp

lemma wf_ensure_call: "wf_json tc \<Longrightarrow> wf_json (fst (ensure_call i j st tc))"
  by (auto simp: ensure_call_def case_prod_unfold Let_def)

lemma wf_ensure_part: "wf_json p \<Longrightarrow> wf_json (fst (ensure_part i j st p))"
  by (auto simp: ensure_part_def case_prod_unfold Let_def)

lemma wf_ensure_steps:
  assumes w: "wf_json m"
  shows "wf_json (fst (ensure_tool_calls i st m))" "wf_json (fst (ensure_tool_role i st m))"
    "wf_json (fst (ensure_content i st m))"
proof -
  have "wf_json (JArr (fst (map_state (ensure_call i) 0 st tcs)))" if "arr_at m k = Some tcs" for tcs k
    using wf_json_arr_at [OF w that] by (intro wf_map_state wf_ensure_call)
  moreover have "wf_json (JArr (fst (map_state (ensure_part i) 0 st ps)))" if "arr_at m k = Some ps" for ps k
    using wf_json_arr_at [OF w that] by (intro wf_map_state wf_ensure_part)
  ultimately show "wf_json (fst (ensure_tool_calls i st m))" "wf_json (fst (ensure_tool_role i st m))"
    "wf_json (fst (ensure_content i st m))"
    using w by (auto simp: ensure_tool_calls_def ensure_tool_role_def ensure_content_def case_prod_unfold Let_def
        simp del: wf_json.simps(2) split: option.splits)
qed

lemma wf_ensure_message: "wf_json m \<Longrightarrow> wf_json (fst (ensure_message i st m))"
  by (auto simp: ensure_message_def case_prod_unfold Let_def intro!: wf_ensure_steps)

lemma valid_call_canon: "wf_json tc \<Longrightarrow> valid_call (canon tc) = valid_call tc"
  by (simp add: valid_call_def str_at_canon)

lemma valid_part_canon: "wf_json p \<Longrightarrow> valid_part (canon p) = valid_part p"
  by (simp add: valid_part_def str_at_canon is_tool_use_def isToolResult_canon)

lemma valid_ids_canon:
  assumes w: "wf_json m" and v: "valid_ids m" shows "valid_ids (canon m)"
proof -
  have "\<forall>tc \<in> set (map canon tcs). valid_call tc" if "arr_at m ''tool_calls'' = Some tcs" for tcs
    using v that wf_json_arr_at [OF w that] by (auto simp: valid_ids_def valid_call_canon)
  moreover have "\<forall>p \<in> set (map canon ps). valid_part p" if "arr_at m ''content'' = Some ps" for ps
    using v that wf_json_arr_at [OF w that] by (auto simp: valid_ids_def valid_part_canon)
  ultimately show ?thesis using v w by (auto simp: valid_ids_def arr_at_canon str_at_canon)
qed

lemma json_stage_ok: "unmarshal_map body = Some raw \<Longrightarrow> \<exists>out. json_stage msg f body = Inr out"
  by (cases "f raw") (auto simp: json_stage_def)

interpretation ids: doc_contract request_ids_valid
proof
  fix v assume w: "wf_json v" and "request_ids_valid v"
  then show "request_ids_valid (canon v)"
    using valid_ids_canon wf_json_arr_at [OF w] by (auto simp: request_ids_valid_def arr_at_canon split: option.splits)
qed

text \<open>
  EnsureToolCallIds succeeds on every decodable body, and in the request its output decodes to, every
  id of a tool call (OpenAI or Claude shape) and every non-empty id of a tool result matches the
  Anthropic pattern.
\<close>

theorem ensure_tool_call_ids_valid:
  assumes "unmarshal_map body = Some raw"
  shows "\<exists>out d. EnsureToolCallIds body = Inr out \<and> unmarshal_map out = Some d \<and> request_ids_valid d"
proof -
  have w: "wf_json raw" using unmarshal_map_wf [OF assms] .
  obtain out where out: "EnsureToolCallIds body = Inr out"
    using json_stage_ok [OF assms] by (auto simp: EnsureToolCallIds_def)
  have "ids.holds_on out"
  proof (rule ids.stage_lift [OF out [unfolded EnsureToolCallIds_def] assms])
    show "ensure_ids_doc raw = None \<Longrightarrow> request_ids_valid raw"
      by (auto simp: ensure_ids_doc_def request_ids_valid_def split: option.splits)
    fix r assume "ensure_ids_doc raw = Some r"
    then obtain msgs where m: "arr_at raw ''messages'' = Some msgs"
      "r = jset ''messages'' (JArr (fst (map_state ensure_message 0 id_init msgs))) raw"
      by (auto simp: ensure_ids_doc_def split: option.splits)
    have "wf_json (JArr (fst (map_state ensure_message 0 id_init msgs)))"
      using wf_json_arr_at [OF w m(1)] by (intro wf_map_state wf_ensure_message)
    moreover have "id_inv id_init" by (simp add: id_inv_def id_init_def list_at_def)
    then have "\<forall>x \<in> set (fst (map_state ensure_message 0 id_init msgs)). valid_ids x"
      using map_state_induct [of id_inv id_init msgs valid_ids ensure_message 0] ensure_message_valid by blast
    ultimately show "wf_json r \<and> (is_obj r \<or> r = JNull) \<and> request_ids_valid r"
      using m w at_is_obj(1) [OF m(1)]
      by (simp add: request_ids_valid_def arr_at_overwrite wf_json_jset del: wf_json.simps)
  qed
  then show ?thesis using out by (auto simp: ids.holds_on_def)
qed

section \<open>Valid histories keep their ids\<close>

lemma map_state_fixed:
  assumes step: "\<And>i s x C R. x \<in> set xs \<Longrightarrow> I s C R \<Longrightarrow> distinct (c x) \<Longrightarrow> set (c x) \<inter> C = {} \<Longrightarrow>
      distinct (r x) \<Longrightarrow> set (r x) \<inter> R = {} \<Longrightarrow>
      fst (f i s x) = x \<and> I (snd (f i s x)) (C \<union> set (c x)) (R \<union> set (r x))"
    and "I s C R" "distinct (concat (map c xs))" "set (concat (map c xs)) \<inter> C = {}"
    and "distinct (concat (map r xs))" "set (concat (map r xs)) \<inter> R = {}"
  shows "fst (map_state f i s xs) = xs \<and>
    I (snd (map_state f i s xs)) (C \<union> set (concat (map c xs))) (R \<union> set (concat (map r xs)))"
  using assms
proof (induction xs arbitrary: i s C R)
  case (Cons x xs)
  have x: "fst (f i s x) = x" "I (snd (f i s x)) (C \<union> set (c x)) (R \<union> set (r x))"
    using Cons.prems(1) [of x s C R i] Cons.prems(2-6) by auto
  have "fst (map_state f (Suc i) (snd (f i s x)) xs) = xs \<and>
      I (snd (map_state f (Suc i) (snd (f i s x)) xs)) (C \<union> set (c x) \<union> set (concat (map c xs)))
        (R \<union> set (r x) \<union> set (concat (map r xs)))"
    using x Cons.prems by (intro Cons.IH) auto
  then show ?case using x by (simp add: case_prod_unfold Let_def Un_assoc)
qed simp

lemma call_id_fresh:
  assumes "fresh_ids st C R" "s \<notin> C"
  shows "fst (call_id s st) = s \<and> fresh_ids (snd (call_id s st)) (insert s C) R"
proof -
  have n: "map_of (toolCallSeenCount st) s = None" using assms by (auto simp: fresh_ids_def)
  then have "map_of (toolCallMap st) s = None" using assms by (auto simp: fresh_ids_def)
  then show ?thesis using assms n
    by (auto simp: call_id_def Let_def count_at_def list_at_def numbered_def fresh_ids_def map_of_mput split: if_splits)
qed

lemma result_id_fresh:
  assumes "fresh_ids st C R" "s \<notin> R"
  shows "fst (result_id s st) = s \<and> fresh_ids (snd (result_id s st)) C (insert s R)"
proof -
  have "map_of (toolResultSeenCount st) s = None" using assms by (auto simp: fresh_ids_def)
  moreover have "list_at (toolCallMap st) s = [] \<or> list_at (toolCallMap st) s = [s]"
    using assms by (auto simp: fresh_ids_def list_at_def)
  ultimately show ?thesis using assms
    by (auto simp: result_id_def Let_def count_at_def numbered_def fresh_ids_def map_of_mput split: if_splits)
qed

lemma ensureID_id: "toolIDPattern s \<Longrightarrow> ensureID s n i j = s"
  by (simp add: ensureID_def toolIDPattern_def)

lemma str_at_same: "str_at v k \<noteq> [] \<Longrightarrow> jset k (JStr (str_at v k)) v = v"
  by (rule jset_same) (auto simp: str_at_def split: option.splits json.splits)

lemma arr_at_same: "arr_at v k = Some xs \<Longrightarrow> jset k (JArr xs) v = v"
  by (simp add: arr_at_Some jset_same)

lemma pattern_not_Nil: "toolIDPattern s \<Longrightarrow> s \<noteq> []"
  by (auto simp: toolIDPattern_def)

lemma ensure_call_fixed:
  assumes "valid_call tc" "fresh_ids st C R" "set (call_ids_of tc) \<inter> C = {}"
  shows "fst (ensure_call i j st tc) = tc \<and> fresh_ids (snd (ensure_call i j st tc)) (C \<union> set (call_ids_of tc)) R"
proof (cases "is_obj tc")
  case True
  let ?s = "str_at tc ''id''"
  have v: "toolIDPattern ?s" using assms(1) True by (simp add: valid_call_def)
  then have "fst (call_id ?s st) = ?s" "fresh_ids (snd (call_id ?s st)) (insert ?s C) R"
    using call_id_fresh [OF assms(2)] assms(3) True by (simp_all add: call_ids_of_def)
  then show ?thesis using True v
    by (simp add: ensure_call_def call_ids_of_def case_prod_unfold Let_def ensureID_id str_at_same pattern_not_Nil)
qed (use assms in \<open>simp add: ensure_call_def call_ids_of_def\<close>)

lemma ensure_part_fixed:
  assumes "valid_part p" "fresh_ids st C R" "set (part_calls p) \<inter> C = {}" "set (part_results p) \<inter> R = {}"
  shows "fst (ensure_part i j st p) = p \<and>
    fresh_ids (snd (ensure_part i j st p)) (C \<union> set (part_calls p)) (R \<union> set (part_results p))"
proof -
  let ?s = "str_at p ''id''" let ?t = "str_at p ''tool_use_id''"
  consider (use) "is_tool_use p" | (result) "isToolResult p" "?t \<noteq> []" | (other) "\<not> is_tool_use p" "\<not> (isToolResult p \<and> ?t \<noteq> [])"
    by blast
  then show ?thesis
  proof cases
    case use
    then have u: "str_at p ''type'' = ''tool_use''" "is_obj p" by (auto simp: is_tool_use_def dest: str_at_obj)
    then have v: "toolIDPattern ?s" using assms(1) use by (simp add: valid_part_def)
    then have "fst (call_id ?s st) = ?s" "fresh_ids (snd (call_id ?s st)) (insert ?s C) R"
      using call_id_fresh [OF assms(2)] assms(3) use by (simp_all add: part_calls_def)
    then show ?thesis using u use v by (simp add: ensure_part_def part_calls_def part_results_def isToolResult_def
          case_prod_unfold Let_def ensureID_id str_at_same pattern_not_Nil)
  next
    case result
    then have u: "str_at p ''type'' = ''tool_result''" "is_obj p" by (auto simp: isToolResult_def dest: str_at_obj)
    then have v: "toolIDPattern ?t" using assms(1) result by (simp add: valid_part_def)
    then have "fst (result_id ?t st) = ?t" "fresh_ids (snd (result_id ?t st)) C (insert ?t R)"
      using result_id_fresh [OF assms(2)] assms(4) result by (simp_all add: part_results_def)
    then show ?thesis using u result v by (simp add: ensure_part_def part_calls_def part_results_def is_tool_use_def
          case_prod_unfold Let_def ensureID_id str_at_same)
  next
    case other
    then show ?thesis using assms(2)
      by (auto simp: ensure_part_def part_calls_def part_results_def is_tool_use_def isToolResult_def)
  qed
qed

lemma ensure_tool_role_fixed:
  assumes "role_results m \<noteq> [] \<longrightarrow> toolIDPattern (str_at m ''tool_call_id'')" "fresh_ids st C R"
    and "set (role_results m) \<inter> R = {}"
  shows "fst (ensure_tool_role i st m) = m \<and> fresh_ids (snd (ensure_tool_role i st m)) C (R \<union> set (role_results m))"
proof (cases "role_results m = []")
  case True
  then show ?thesis using assms(2) by (auto simp: ensure_tool_role_def role_results_def split: if_splits)
next
  case False
  let ?t = "str_at m ''tool_call_id''"
  have t: "str_at m ''role'' = ''tool''" "?t \<noteq> []" "role_results m = [?t]"
    using False by (auto simp: role_results_def split: if_splits)
  have "fst (result_id ?t st) = ?t" "fresh_ids (snd (result_id ?t st)) C (insert ?t R)"
    using result_id_fresh [OF assms(2), of ?t] assms(3) t by auto
  then show ?thesis using assms(1) t
    by (simp add: ensure_tool_role_def case_prod_unfold Let_def ensureID_id str_at_same)
qed

lemma ensure_message_fixed:
  assumes v: "valid_ids m" and f: "fresh_ids st C R"
    and c: "distinct (message_calls m)" "set (message_calls m) \<inter> C = {}"
    and r: "distinct (message_results m)" "set (message_results m) \<inter> R = {}"
  shows "fst (ensure_message i st m) = m \<and>
    fresh_ids (snd (ensure_message i st m)) (C \<union> set (message_calls m)) (R \<union> set (message_results m))"
proof (cases "is_obj m")
  case False
  then have "arr_at m k = None" "str_at m k = []" for k by (cases m; simp add: arr_at_def str_at_def)+
  then show ?thesis using f False by (simp add: ensure_message_def message_calls_def message_results_def role_results_def)
next
  case True
  define tcs where "tcs = (case arr_at m ''tool_calls'' of Some tcs \<Rightarrow> tcs | None \<Rightarrow> [])"
  define ps where "ps = content_list m"
  let ?cs = "concat (map call_ids_of tcs)" let ?pc = "concat (map part_calls ps)" let ?pr = "concat (map part_results ps)"
  let ?t = "str_at m ''tool_call_id''"
  let ?tr = "role_results m"
  have mc: "message_calls m = ?cs @ ?pc" and mr: "message_results m = ?tr @ ?pr"
    by (simp_all add: message_calls_def message_results_def tcs_def ps_def content_list_def split: option.splits)
  have 1: "fst (ensure_tool_calls i st m) = m" "fresh_ids (snd (ensure_tool_calls i st m)) (C \<union> set ?cs) R"
  proof -
    have n: "concat (map (\<lambda>_. []) xs) = []" for xs :: "json list" by (induction xs) auto
    have "fst (map_state (ensure_call i) 0 st tcs) = tcs \<and>
        fresh_ids (snd (map_state (ensure_call i) 0 st tcs)) (C \<union> set ?cs) (R \<union> set (concat (map (\<lambda>_. []) tcs)))"
      using f c v mc by (intro map_state_fixed [where I = fresh_ids])
        (auto simp: n tcs_def valid_ids_def ensure_call_fixed split: option.splits)
    then show "fst (ensure_tool_calls i st m) = m" "fresh_ids (snd (ensure_tool_calls i st m)) (C \<union> set ?cs) R"
      using f by (auto simp: n ensure_tool_calls_def tcs_def case_prod_unfold Let_def arr_at_same
          split: option.splits)
  qed
  let ?s1 = "snd (ensure_tool_calls i st m)"
  have 2: "fst (ensure_tool_role i ?s1 m) = m"
    "fresh_ids (snd (ensure_tool_role i ?s1 m)) (C \<union> set ?cs) (R \<union> set ?tr)"
  proof -
    have "role_results m \<noteq> [] \<longrightarrow> toolIDPattern ?t" using v by (simp add: role_results_def valid_ids_def)
    moreover have "set (role_results m) \<inter> R = {}" using r(2) mr by auto
    ultimately show "fst (ensure_tool_role i ?s1 m) = m"
      "fresh_ids (snd (ensure_tool_role i ?s1 m)) (C \<union> set ?cs) (R \<union> set ?tr)"
      using ensure_tool_role_fixed [OF _ 1(2)] by blast+
  qed
  let ?s2 = "snd (ensure_tool_role i ?s1 m)"
  have 3: "fst (ensure_content i ?s2 m) = m"
    "fresh_ids (snd (ensure_content i ?s2 m)) (C \<union> set ?cs \<union> set ?pc) (R \<union> set ?tr \<union> set ?pr)"
  proof -
    have "fst (map_state (ensure_part i) 0 ?s2 ps) = ps \<and>
        fresh_ids (snd (map_state (ensure_part i) 0 ?s2 ps)) (C \<union> set ?cs \<union> set ?pc) (R \<union> set ?tr \<union> set ?pr)"
      using 2 c v r mc mr by (intro map_state_fixed [where I = fresh_ids])
        (auto simp: ps_def content_list_def valid_ids_def ensure_part_fixed split: option.splits if_splits)
    then show "fst (ensure_content i ?s2 m) = m"
      "fresh_ids (snd (ensure_content i ?s2 m)) (C \<union> set ?cs \<union> set ?pc) (R \<union> set ?tr \<union> set ?pr)"
      using 2 by (auto simp: ensure_content_def ps_def content_list_def case_prod_unfold Let_def arr_at_same
          split: option.splits)
  qed
  have "ensure_message i st m = ensure_content i ?s2 m"
    using True 1 2 by (simp add: ensure_message_def case_prod_unfold Let_def)
  then show ?thesis using 3 mc mr by (simp add: Un_assoc)
qed

text \<open>
  On a request whose ids already match the pattern, with distinct call ids and distinct result ids,
  EnsureToolCallIds changes nothing: the output is the encoding of the decoded request.
\<close>

theorem ensure_tool_call_ids_keeps_valid:
  assumes "unmarshal_map body = Some raw" "arr_at raw ''messages'' = Some msgs" "\<forall>m \<in> set msgs. valid_ids m"
    and "distinct (concat (map message_calls msgs))" "distinct (concat (map message_results msgs))"
  shows "EnsureToolCallIds body = Inr (json_print raw)"
proof -
  have "fresh_ids id_init {} {}" by (simp add: fresh_ids_def id_init_def)
  then have "fst (map_state ensure_message 0 id_init msgs) = msgs"
    using map_state_fixed [of msgs fresh_ids message_calls message_results ensure_message id_init "{}" "{}" 0]
      ensure_message_fixed assms(3-5) by simp
  then have "ensure_ids_doc raw = Some raw"
    using assms(2) by (simp add: ensure_ids_doc_def arr_at_same)
  moreover have "body \<noteq> []" using assms(1) by (auto simp: unmarshal_map_def json_parse_def skip_ws_def)
  ultimately show ?thesis using assms(1) by (simp add: EnsureToolCallIds_def json_stage_def)
qed

text \<open>
  The suffix that makes a repeated id unique can collide with an id of the client: the calls a, a, a_1
  become a, a_1, a_1.
\<close>

theorem ensure_ids_suffix_collision:
  "fst (map_state ensure_message 0 id_init
     [JObj [(''tool_calls'', JArr [call_block ''a'', call_block ''a'', call_block ''a_1''])]]) =
   [JObj [(''tool_calls'', JArr [call_block ''a'', call_block ''a_1'', call_block ''a_1''])]]"
  by code_simp

section \<open>The edges of a truncated history\<close>

lemma truncated_facts:
  assumes "is_assistant m"
  shows "is_assistant (truncated_calls m)" "nonempty_arr (truncated_calls m) ''tool_calls'' = None"
    "hasValidContent (truncated_calls m)" "k \<noteq> ''content'' \<Longrightarrow> k \<noteq> ''tool_calls'' \<Longrightarrow> jget (truncated_calls m) k = jget m k"
  using assms str_at_obj [of m "''role''"]
  by (auto simp: truncated_calls_def Let_def is_assistant_def str_at_jset str_at_jdel nonempty_arr_eq arr_at_jset
      arr_at_jdel jget_jset jget_jdel hasValidContent_def)

lemma trailing_ok_append:
  "\<forall>m \<in> set ys. \<not> is_assistant m \<Longrightarrow> trailing_ok (rev ys @ xs) after = trailing_ok xs (ys @ after)"
  by (induction ys arbitrary: after rule: rev_induct) auto

lemma strip_trailing_ok:
  "\<forall>m \<in> set after. \<not> is_assistant m \<Longrightarrow> trailing_ok (rev (fst (strip_trailing before after))) []"
proof (induction before arbitrary: after)
  case Nil
  then show ?case using trailing_ok_append [of after "[]" "[]"] by simp
next
  case (Cons m before)
  show ?case
  proof (cases "is_assistant m")
    case False
    then show ?thesis using Cons by simp
  next
    case True
    then show ?thesis using Cons.prems trailing_ok_append [of after "_ # before" "[]"] truncated_facts [OF True] by auto
  qed
qed

lemma strip_trailing_length: "length (fst (strip_trailing before after)) = length before + length after"
  by (induction before arbitrary: after) auto

lemma strip_trailing_hd:
  assumes "is_assistant m \<longrightarrow> \<not> leading_results m"
  shows "\<exists>y ys. fst (strip_trailing (before @ [m]) after) = y # ys \<and>
    (y = m \<or> (is_assistant m \<and> y = truncated_calls m))"
  by (induction before arbitrary: after) auto

lemma assistant_not_leading: "is_assistant m \<Longrightarrow> \<not> leading_results m"
  by (simp add: is_assistant_def leading_results_def)

text \<open>
  After SanitizeToolHistory the history does not start with a user message of tool results only, the
  last assistant message has tool calls only if a response follows it, only leading messages were
  dropped, and no other key of the request changed.
\<close>

theorem sanitize_history_edges:
  assumes "nonempty_arr raw ''messages'' = Some msgs"
  shows "\<exists>out. arr_at (apply_doc sanitize_history_doc raw) ''messages'' = Some out \<and> edges_ok out \<and>
    length out = length (strip_leading msgs) \<and>
    (\<forall>k. k \<noteq> ''messages'' \<longrightarrow> jget (apply_doc sanitize_history_doc raw) k = jget raw k)"
proof -
  let ?k = "strip_leading msgs" let ?s = "strip_trailing (rev ?k) []"
  have a: "arr_at raw ''messages'' = Some msgs" "is_obj raw" using assms by (auto simp: nonempty_arr_Some dest: at_is_obj)
  have un: "\<not> snd (strip_trailing b c) \<Longrightarrow> fst (strip_trailing b c) = rev b @ c" for b c
    by (induction b arbitrary: c) auto
  have sl: "length ?k = length msgs \<Longrightarrow> ?k = msgs"
    unfolding strip_leading_def
    by (metis append_self_conv2 length_append length_dropWhile_le le_antisym takeWhile_dropWhile_id
        add_cancel_left_left length_0_conv)
  have lead: "?k = [] \<or> \<not> leading_results (hd ?k)" unfolding strip_leading_def by (meson hd_dropWhile)
  have "edges_ok (fst ?s)"
  proof (cases ?k)
    case Nil then show ?thesis by (simp add: edges_ok_def)
  next
    case (Cons m ms)
    then obtain y ys where "fst ?s = y # ys" "y = m \<or> (is_assistant m \<and> y = truncated_calls m)"
      using strip_trailing_hd [of m "rev ms" "[]"] assistant_not_leading by auto
    then show ?thesis using lead Cons truncated_facts(1) [of m] assistant_not_leading strip_trailing_ok [of "[]" "rev ?k"]
      by (auto simp: edges_ok_def)
  qed
  moreover have "arr_at (apply_doc sanitize_history_doc raw) ''messages'' = Some (fst ?s)"
    using assms a un [of "rev ?k" "[]"] sl
    by (auto simp: apply_doc_def sanitize_history_doc_def case_prod_unfold Let_def arr_at_overwrite)
  moreover have "jget (apply_doc sanitize_history_doc raw) k = jget raw k" if "k \<noteq> ''messages''" for k
    using assms a that by (auto simp: apply_doc_def sanitize_history_doc_def case_prod_unfold Let_def jget_jset)
  ultimately show ?thesis by (simp add: strip_trailing_length)
qed

section \<open>The properties at concrete requests\<close>

lemma tools_body_decodes: "unmarshal_map tools_body = Some (JObj [(''messages'', JArr [
     JObj [(''role'', JStr ''assistant''), (''tool_calls'', JArr [JObj [(''id'', JStr ''a'')]])]])])"
  by code_simp

theorem fix_missing_answers_every_call_witness:
  "\<exists>out d. FixMissingToolResponses tools_body = Inr out \<and> unmarshal_map out = Some d \<and> history_answered d"
  by (rule fix_missing_answers_every_call [OF tools_body_decodes])

theorem ensure_tool_call_ids_valid_witness:
  "\<exists>out d. EnsureToolCallIds tools_body = Inr out \<and> unmarshal_map out = Some d \<and> request_ids_valid d"
  by (rule ensure_tool_call_ids_valid [OF tools_body_decodes])

theorem ensure_tool_call_ids_keeps_valid_witness:
  "EnsureToolCallIds tools_body = Inr tools_body"
proof -
  let ?m = "JObj [(''role'', JStr ''assistant''), (''tool_calls'', JArr [JObj [(''id'', JStr ''a'')]])]"
  let ?raw = "JObj [(''messages'', JArr [?m])]"
  have "arr_at ?raw ''messages'' = Some [?m]" by (simp add: arr_at_def)
  moreover have "\<forall>m \<in> set [?m]. valid_ids m"
    by (simp add: valid_ids_def arr_at_def str_at_def valid_call_def toolIDPattern_def is_id_char_def less_eq_char_def)
  moreover have "distinct (concat (map message_calls [?m]))" "distinct (concat (map message_results [?m]))" by code_simp+
  ultimately have "EnsureToolCallIds tools_body = Inr (json_print ?raw)"
    by (rule ensure_tool_call_ids_keeps_valid [OF tools_body_decodes])
  then show ?thesis by (simp only: tools_body_def)
qed

theorem sanitize_history_edges_witness:
  "\<exists>out. arr_at (apply_doc sanitize_history_doc orphan_req) ''messages'' = Some out \<and> edges_ok out \<and> length out = 1"
proof -
  have "nonempty_arr orphan_req ''messages'' = Some [JObj [(''role'', JStr ''tool'')],
     JObj [(''role'', JStr ''assistant''), (''tool_calls'', JArr [JNull])]]"
    "length (strip_leading [JObj [(''role'', JStr ''tool'')],
     JObj [(''role'', JStr ''assistant''), (''tool_calls'', JArr [JNull])]]) = 1" by code_simp+
  from sanitize_history_edges [OF this(1)] this(2) show ?thesis by metis
qed

end
