(* ===== verification/Translate.thy ===== *)
theory Translate
  imports Prepost_OpenAI Prepost_Claude Prepost_Tools
begin

text \<open>
  Format detection (internal/translate/detect.go), the request pipeline (request.go) and how the chat
  handler settles the two formats of a request (internal/delivery/handler/chat.go). The bodies of the
  Claude, Gemini and Responses translators are the functions of the record \<open>translators\<close>.
\<close>

section \<open>Formats (translate.go)\<close>

datatype fmt = FormatOpenAI | FormatClaude | FormatGemini | FormatOpenAIResponses

section \<open>Detection (detect.go)\<close>

definition claude_block :: "json \<Rightarrow> bool" where
  "claude_block b =
     (str_at b ''type'' = ''tool_use'' \<or> str_at b ''type'' = ''tool_result'' \<or>
      (str_at b ''type'' = ''image'' \<and>
       (case obj_at b ''source'' of Some src \<Rightarrow> str_at src ''type'' = ''base64'' | None \<Rightarrow> False)))"

definition hasClaudeContentTypes :: "json list \<Rightarrow> bool" where
  "hasClaudeContentTypes msgs =
     list_ex (\<lambda>m. case arr_at m ''content'' of Some parts \<Rightarrow> list_ex claude_block parts | None \<Rightarrow> False) msgs"

definition string_or_array :: "json option \<Rightarrow> bool" where
  "string_or_array v = (case v of Some (JStr s) \<Rightarrow> True | Some (JArr xs) \<Rightarrow> True | _ \<Rightarrow> False)"

definition detect_doc :: "json \<Rightarrow> fmt" where
  "detect_doc raw =
     (if string_or_array (jget raw ''input'') \<and> \<not> has_key raw ''messages'' then FormatOpenAIResponses
      else if nonempty_arr raw ''contents'' \<noteq> None \<and> \<not> has_key raw ''messages'' then FormatGemini
      else (case nonempty_arr raw ''messages'' of
              None \<Rightarrow> FormatOpenAI
            | Some msgs \<Rightarrow>
                if has_key raw ''anthropic_version'' \<or> string_or_array (jget raw ''system'') \<or> hasClaudeContentTypes msgs
                then FormatClaude else FormatOpenAI))"

definition Detect :: "string \<Rightarrow> fmt" where
  "Detect body =
     (if body = [] then FormatOpenAI
      else case unmarshal_map body of None \<Rightarrow> FormatOpenAI | Some raw \<Rightarrow> detect_doc raw)"

definition DetectByPath :: "string \<Rightarrow> string \<Rightarrow> fmt" where
  "DetectByPath path body =
     (if contains path ''/v1/responses'' then FormatOpenAIResponses
      else if contains path ''/v1/messages'' then FormatClaude
      else Detect body)"

definition ExtractModelID :: "string \<Rightarrow> string" where
  "ExtractModelID body =
     (if body = [] then []
      else case unmarshal_map body of None \<Rightarrow> [] | Some raw \<Rightarrow> str_at raw ''model'')"

text \<open>
  Decoding into a struct matches a key with a field exactly or up to the case of its letters; of several
  matching keys the last one is stored. A string field takes a string, null leaves it as it is, anything
  else is an error. A RawMessage field holds the value, a null included. \<open>struct_field\<close> reads the members
  in the order of the decoded object.
\<close>

definition struct_field :: "string \<Rightarrow> json \<Rightarrow> json option" where
  "struct_field name v =
     (case v of JObj m \<Rightarrow> map_option snd (find (\<lambda>(k, _). to_lower k = name) (rev m)) | _ \<Rightarrow> None)"

definition field_values :: "string \<Rightarrow> json \<Rightarrow> json list" where
  "field_values name v = (case v of JObj m \<Rightarrow> map snd (filter (\<lambda>(k, _). to_lower k = name) m) | _ \<Rightarrow> [])"

definition is_string_value :: "json \<Rightarrow> bool" where
  "is_string_value v = (case v of JStr _ \<Rightarrow> True | JNull \<Rightarrow> True | _ \<Rightarrow> False)"

definition string_field :: "string \<Rightarrow> json \<Rightarrow> string option" where
  "string_field name v =
     (if list_all is_string_value (field_values name v)
      then Some (fold (\<lambda>x acc. case x of JStr s \<Rightarrow> s | _ \<Rightarrow> acc) (field_values name v) [])
      else None)"

record body_probe =
  bpModel :: string
  bpInput :: "json option"
  bpMessages :: "json option"
  bpContents :: "json option"
  bpSystem :: "json option"
  bpAnthropicVersion :: "json option"

definition unmarshal_probe :: "string \<Rightarrow> body_probe option" where
  "unmarshal_probe body =
     (case unmarshal_map body of
        None \<Rightarrow> None
      | Some raw \<Rightarrow>
          map_option (\<lambda>m. \<lparr>bpModel = m, bpInput = struct_field ''input'' raw, bpMessages = struct_field ''messages'' raw,
            bpContents = struct_field ''contents'' raw, bpSystem = struct_field ''system'' raw,
            bpAnthropicVersion = struct_field ''anthropic_version'' raw\<rparr>) (string_field ''model'' raw))"

text \<open>The raw text of a value is an array, and whether it has elements: -1, 0 or 1.\<close>

definition rawArrayNonEmpty :: "json option \<Rightarrow> int" where
  "rawArrayNonEmpty v = (case v of Some (JArr xs) \<Rightarrow> (if xs = [] then 0 else 1) | _ \<Rightarrow> -1)"

definition ProbeBody :: "string \<Rightarrow> fmt \<times> string" where
  "ProbeBody body =
     (if body = [] then (FormatOpenAI, [])
      else case unmarshal_probe body of
             None \<Rightarrow> (FormatOpenAI, [])
           | Some p \<Rightarrow>
               if bpInput p \<noteq> None \<and> bpMessages p = None \<and> string_or_array (bpInput p)
               then (FormatOpenAIResponses, bpModel p)
               else if bpContents p \<noteq> None \<and> bpMessages p = None \<and> 0 < rawArrayNonEmpty (bpContents p)
               then (FormatGemini, bpModel p)
               else if bpMessages p \<noteq> None \<and> 0 < rawArrayNonEmpty (bpMessages p)
               then (if bpAnthropicVersion p \<noteq> None then (FormatClaude, bpModel p)
                     else if string_or_array (bpSystem p) then (FormatClaude, bpModel p)
                     else if \<not> contains body (quoted ''tool_use'') \<and> \<not> contains body (quoted ''tool_result'') \<and>
                       \<not> contains body (quoted ''base64'')
                     then (FormatOpenAI, bpModel p)
                     else (Detect body, bpModel p))
               else (FormatOpenAI, bpModel p))"

definition ProbeByPath :: "string \<Rightarrow> string \<Rightarrow> fmt \<times> string" where
  "ProbeByPath path body =
     (if contains path ''/v1/responses'' then (FormatOpenAIResponses, ExtractModelID body)
      else if contains path ''/v1/messages'' then (FormatClaude, ExtractModelID body)
      else ProbeBody body)"

section \<open>The request pipeline (request.go)\<close>

record translators =
  claude_ToOpenAI :: "string \<Rightarrow> string res"
  gemini_ToOpenAI :: "string \<Rightarrow> string res"
  responses_ToOpenAI :: "string \<Rightarrow> string res"
  claude_FromOpenAI :: "string \<Rightarrow> string res"
  gemini_FromOpenAI :: "string \<Rightarrow> string res"
  responses_FromOpenAI :: "string \<Rightarrow> string res"

definition sourceToOpenAI :: "translators \<Rightarrow> string \<Rightarrow> fmt \<Rightarrow> string res" where
  "sourceToOpenAI tr body source =
     (case source of
        FormatClaude \<Rightarrow> claude_ToOpenAI tr body
      | FormatGemini \<Rightarrow> gemini_ToOpenAI tr body
      | FormatOpenAIResponses \<Rightarrow> responses_ToOpenAI tr body
      | FormatOpenAI \<Rightarrow> Inr body)"

definition openAIToTarget :: "translators \<Rightarrow> string \<Rightarrow> fmt \<Rightarrow> string res" where
  "openAIToTarget tr body target =
     (case target of
        FormatClaude \<Rightarrow> claude_FromOpenAI tr body
      | FormatGemini \<Rightarrow> gemini_FromOpenAI tr body
      | FormatOpenAIResponses \<Rightarrow> responses_FromOpenAI tr body
      | FormatOpenAI \<Rightarrow> Inr body)"

text \<open>The error of a stage is wrapped with a prefix.\<close>

definition wrap_err :: "string \<Rightarrow> 'a res \<Rightarrow> 'a res" where
  "wrap_err msg r = map_sum (\<lambda>e. msg @ '': '' @ e) id r"

definition preprocess :: "string \<Rightarrow> string res" where
  "preprocess body =
     bind_res (wrap_err ''translate: normalize roles'' (NormalizeRoles body)) (\<lambda>b.
     bind_res (wrap_err ''translate: normalize thinking'' (NormalizeThinkingConfig b)) (\<lambda>b.
     bind_res (wrap_err ''translate: sanitize tool history'' (SanitizeToolHistory b)) (\<lambda>b.
     bind_res (wrap_err ''translate: ensure tool call ids'' (EnsureToolCallIds b)) (\<lambda>b.
     bind_res (wrap_err ''translate: fix missing tool responses'' (FixMissingToolResponses b)) (\<lambda>b.
     wrap_err ''translate: adjust max tokens'' (AdjustMaxTokens b))))))"

definition Request :: "translators \<Rightarrow> string \<Rightarrow> fmt \<Rightarrow> fmt \<Rightarrow> string res" where
  "Request tr body source target =
     (if source = target then NormalizeRoles body
      else bind_res (sourceToOpenAI tr body source) (\<lambda>b.
           bind_res (preprocess b) (\<lambda>b.
           bind_res (openAIToTarget tr b target) (\<lambda>b.
           if target = FormatClaude then wrap_err ''translate: prepare claude request'' (PrepareClaudeRequest b)
           else Inr b))))"

text \<open>The format that a context carries, otherwise the detected one.\<close>

definition RequestFormat :: "fmt option \<Rightarrow> string \<Rightarrow> fmt" where
  "RequestFormat ctx body = (case ctx of Some f \<Rightarrow> f | None \<Rightarrow> Detect body)"

section \<open>Formats of a chat request (handler/chat.go)\<close>

definition source_format :: "string \<Rightarrow> fmt \<Rightarrow> fmt" where
  "source_format path f =
     (let g = (if f = FormatOpenAI \<and> has_suffix path ''/messages'' then FormatClaude
               else if f = FormatClaude \<and> has_suffix path ''/chat/completions'' then FormatOpenAI
               else f)
      in if has_suffix path ''/responses'' then FormatOpenAIResponses else g)"

text \<open>The model id without a thinking level in parentheses, in lower case.\<close>

definition before_last :: "char \<Rightarrow> string \<Rightarrow> string option" where
  "before_last c s = (if c \<in> set s then Some (rev (drop 1 (dropWhile (\<lambda>x. x \<noteq> c) (rev s)))) else None)"

definition base_model :: "string \<Rightarrow> string" where
  "base_model modelID =
     to_lower (trim_space
       (case before_last (CHR ''('') modelID of
          Some b \<Rightarrow> if has_suffix modelID '')'' then trim_space b else modelID
        | None \<Rightarrow> modelID))"

definition lower_list :: "string list \<Rightarrow> string list" where
  "lower_list ms = filter (\<lambda>m. m \<noteq> []) (map (\<lambda>m. trim_space (to_lower m)) ms)"

definition SetResponseModels :: "string list \<Rightarrow> string list \<Rightarrow> string list" where
  "SetResponseModels ms old = (if lower_list ms = [] then old else lower_list ms)"

definition targetFormatForModel :: "string list \<Rightarrow> string list \<Rightarrow> string \<Rightarrow> fmt" where
  "targetFormatForModel responseModels messageModels modelID =
     (if list_ex (\<lambda>pat. pat \<noteq> [] \<and> contains (base_model modelID) pat) responseModels then FormatOpenAIResponses
      else if list_ex (\<lambda>pat. pat \<noteq> [] \<and> contains (base_model modelID) pat) messageModels then FormatClaude
      else FormatOpenAI)"

definition extractModelID :: "string \<Rightarrow> string res" where
  "extractModelID body =
     (case unmarshal_map body of
        None \<Rightarrow> Inl ''invalid request body''
      | Some raw \<Rightarrow>
          (case string_field ''model'' raw of
             None \<Rightarrow> Inl ''invalid request body''
           | Some m \<Rightarrow> if m = [] then Inl ''missing required field: model'' else Inr m))"

text \<open>
  What the handler hands to the chat service: the formats, the model, the prepared body and the
  normalisations that fired; or the code and message of a 400 answer. \<open>limit\<close> is the size cap of the
  request body in bytes, above which the answer is 413.
\<close>

record chat_plan =
  srcFormat :: fmt
  dstFormat :: fmt
  planModel :: string
  planBody :: string
  applied :: "string list"

datatype chat_error = TooLarge | BadRequest string string

definition chat_prepare ::
  "translators \<Rightarrow> string list \<Rightarrow> string list \<Rightarrow> nat \<Rightarrow> string \<Rightarrow> string \<Rightarrow> chat_error + chat_plan" where
  "chat_prepare tr responseModels messageModels limit path body =
     (if limit < length body then Inl TooLarge
      else if body = [] then Inl (BadRequest ''bad_request'' ''empty request body'')
      else
        (let (f, probed) = ProbeByPath path body; format = source_format path f
         in case (if probed = [] then extractModelID body else Inr probed) of
              Inl e \<Rightarrow> Inl (BadRequest ''bad_request'' e)
            | Inr modelID \<Rightarrow>
                (let target = targetFormatForModel responseModels messageModels modelID
                 in case (if format \<noteq> target then Request tr body format target else Inr body) of
                      Inl e \<Rightarrow> Inl (BadRequest ''translation_error'' e)
                    | Inr b \<Rightarrow>
                        (case (case target of
                                 FormatOpenAI \<Rightarrow> PrepareUpstreamWithModel b modelID
                               | FormatClaude \<Rightarrow> NormalizeClaudeContent b
                               | _ \<Rightarrow> Inr (b, [])) of
                           Inl e \<Rightarrow> Inl (BadRequest ''bad_request'' e)
                         | Inr (b', tks) \<Rightarrow>
                             Inr \<lparr>srcFormat = format, dstFormat = target, planModel = modelID, planBody = b', applied = tks\<rparr>))))"

section \<open>Specifications\<close>

definition probe_fields :: "string list" where
  "probe_fields = [''model'', ''input'', ''messages'', ''contents'', ''system'', ''anthropic_version'']"

definition exact_keys :: "json \<Rightarrow> bool" where
  "exact_keys v = (case v of JObj m \<Rightarrow> list_all (\<lambda>(k, _). to_lower k \<in> set probe_fields \<longrightarrow> to_lower k = k) m | _ \<Rightarrow> True)"

definition model_is_string :: "json \<Rightarrow> bool" where
  "model_is_string v = (case jget v ''model'' of Some (JStr _) \<Rightarrow> True | Some JNull \<Rightarrow> True | None \<Rightarrow> True | _ \<Rightarrow> False)"

definition has_marker :: "string \<Rightarrow> bool" where
  "has_marker body = (contains body (quoted ''tool_use'') \<or> contains body (quoted ''tool_result'') \<or> contains body (quoted ''base64''))"

definition claude_probe :: json where
  "claude_probe = JObj [(''model'', JStr ''m''), (''messages'', JArr [JObj [(''role'', JStr ''user''),
     (''content'', JArr [JObj [(''type'', JStr ''tool_result'')]])]])]"

definition numeric_model_body :: string where
  "numeric_model_body = json_print (JObj [(''input'', JStr ''hi''), (''model'', JNum 5)])"

definition tools_ready :: "json \<Rightarrow> bool" where
  "tools_ready d = (history_answered d \<and> request_ids_valid d)"

definition plain_translators :: translators where
  "plain_translators = \<lparr>claude_ToOpenAI = Inr, gemini_ToOpenAI = Inr, responses_ToOpenAI = Inr,
     claude_FromOpenAI = Inr, gemini_FromOpenAI = Inr, responses_FromOpenAI = Inr\<rparr>"

section \<open>Struct decoding\<close>

lemma exact_keysD:
  assumes "exact_keys (JObj m)" "name \<in> set probe_fields" "(k, x) \<in> set m"
  shows "to_lower k = name \<longleftrightarrow> k = name"
proof -
  have l: "to_lower name = name" using assms(2) by (auto simp: probe_fields_def to_lower_def lower_char_def)
  then show ?thesis using assms by (auto simp: exact_keys_def list_all_iff)
qed

lemma find_rev_map_of:
  "distinct (map fst m) \<Longrightarrow> map_option snd (find (\<lambda>(k, _). k = name) (rev m)) = map_of m name"
proof (induction m)
  case (Cons p m)
  then have IH: "map_option snd (find (\<lambda>(k, _). k = name) (rev m)) = map_of m name" by simp
  show ?case
  proof (cases "map_of m name")
    case None
    then have "find (\<lambda>(k, _). k = name) (rev m) = None" using IH by simp
    then show ?thesis using None by (cases p) (simp add: find_append)
  next
    case (Some z)
    then have "fst p \<noteq> name" using Cons.prems by (metis distinct.simps(2) list.simps(9) map_of_SomeD set_map fst_conv image_eqI)
    then show ?thesis using Some IH by (cases p) (auto simp: find_append)
  qed
qed simp

lemma struct_field_exact:
  assumes "wf_json v" "exact_keys v" "name \<in> set probe_fields"
  shows "struct_field name v = jget v name"
proof (cases v)
  case (JObj m)
  have "find (\<lambda>(k, _). to_lower k = name) (rev m) = find (\<lambda>(k, _). k = name) (rev m)"
    using exact_keysD [OF assms(2) [unfolded JObj] assms(3)] by (intro find_cong) auto
  then show ?thesis using assms(1) find_rev_map_of [of m name] by (simp add: struct_field_def JObj wf_map_def)
qed (simp_all add: struct_field_def)

lemma filter_key_map_of:
  "distinct (map fst m) \<Longrightarrow> map snd (filter (\<lambda>(k, _). k = name) m) = (case map_of m name of Some x \<Rightarrow> [x] | None \<Rightarrow> [])"
proof (induction m)
  case (Cons p m)
  moreover have "filter (\<lambda>(k, _). k = name) m = []" if "name \<notin> fst ` set m" using that by (force simp: filter_empty_conv)
  ultimately show ?case by (cases p) (auto split: option.splits)
qed simp

lemma field_values_exact:
  assumes "wf_json v" "exact_keys v" "name \<in> set probe_fields"
  shows "field_values name v = (case jget v name of Some x \<Rightarrow> [x] | None \<Rightarrow> [])"
proof (cases v)
  case (JObj m)
  have "filter (\<lambda>(k, _). to_lower k = name) m = filter (\<lambda>(k, _). k = name) m"
    using exact_keysD [OF assms(2) [unfolded JObj] assms(3)] by (intro filter_cong) auto
  then show ?thesis using assms(1) filter_key_map_of [of m name] by (simp add: field_values_def JObj wf_map_def)
qed (simp_all add: field_values_def)

lemma string_field_model:
  assumes "wf_json v" "exact_keys v" "model_is_string v"
  shows "string_field ''model'' v = Some (str_at v ''model'')"
proof -
  have "''model'' \<in> set probe_fields" by (simp add: probe_fields_def)
  then show ?thesis using assms
    by (auto simp: string_field_def field_values_exact model_is_string_def is_string_value_def str_at_def
        split: option.splits json.splits)
qed

section \<open>The markers of Claude content in the text\<close>

lemma claude_tokens:
  "print_str ''tool_use'' = quoted ''tool_use''" "print_str ''tool_result'' = quoted ''tool_result''"
  "print_str ''base64'' = quoted ''base64''"
  by (rule print_str_quoted; simp add: esc_char_def)+

lemma has_marker_contains: "contains a b \<Longrightarrow> has_marker b \<Longrightarrow> has_marker a"
  unfolding has_marker_def using contains_trans by blast

lemma str_at_print: "str_at v k = s \<Longrightarrow> s \<noteq> [] \<Longrightarrow> contains (print_raw v) (print_str s)"
  by (rule contains_print_member(1) [of v k "JStr s", simplified])
     (auto simp: str_at_def split: option.splits json.splits)

lemma claude_block_marker: "claude_block b \<Longrightarrow> has_marker (print_raw b)"
proof -
  assume "claude_block b"
  then consider "str_at b ''type'' = ''tool_use''" | "str_at b ''type'' = ''tool_result''"
    | src where "obj_at b ''source'' = Some src" "str_at src ''type'' = ''base64''"
    by (auto simp: claude_block_def split: option.splits)
  then show ?thesis
  proof cases
    case 3
    then have "jget b ''source'' = Some src" by (auto simp: obj_at_def split: option.splits json.splits)
    then have "contains (print_raw b) (print_raw src)" by (rule contains_print_member)
    moreover have "has_marker (print_raw src)" using str_at_print [OF 3(2)] by (simp add: has_marker_def claude_tokens del: contains.simps)
    ultimately show ?thesis by (rule has_marker_contains)
  qed (auto dest: str_at_print simp: has_marker_def claude_tokens simp del: contains.simps)
qed

lemma arr_at_print: "arr_at v k = Some xs \<Longrightarrow> x \<in> set xs \<Longrightarrow> contains (print_raw v) (print_raw x)"
  by (rule contains_trans [OF contains_print_member(1) contains_print_elem])
     (auto simp: arr_at_def split: option.splits json.splits)

lemma claude_content_marker:
  assumes "arr_at v ''messages'' = Some msgs" "hasClaudeContentTypes msgs"
  shows "has_marker (print_raw v)"
proof -
  obtain m parts b where "m \<in> set msgs" "arr_at m ''content'' = Some parts" "b \<in> set parts" "claude_block b"
    using assms(2) by (auto simp: hasClaudeContentTypes_def list_ex_iff split: option.splits)
  then show ?thesis using assms(1) arr_at_print claude_block_marker has_marker_contains by meson
qed

section \<open>Detection agrees\<close>

lemma probe_canonical:
  assumes "wf_json v" "is_obj v" "exact_keys v" "model_is_string v" "canon v = v"
  shows "ProbeBody (json_print v) = (Detect (json_print v), ExtractModelID (json_print v))"
proof -
  have u: "unmarshal_map (json_print v) = Some v" using assms unmarshal_map_print by simp
  have ne: "json_print v \<noteq> []" by (rule json_print_not_Nil [OF assms(1)])
  have t: "json_print v = print_raw v" using assms(5) by (simp add: json_print_def)
  have f: "struct_field k v = jget v k" if "k \<in> set probe_fields" for k using struct_field_exact assms that by blast
  have r: "0 < rawArrayNonEmpty (jget v k) \<longleftrightarrow> nonempty_arr v k \<noteq> None" for k
    by (auto simp: rawArrayNonEmpty_def nonempty_arr_eq arr_at_def split: option.splits json.splits)
  have n: "nonempty_arr v k \<noteq> None \<Longrightarrow> jget v k \<noteq> None" for k
    by (auto simp: nonempty_arr_eq arr_at_def split: option.splits json.splits)
  have s: "string_or_array (jget v k) \<Longrightarrow> jget v k \<noteq> None" for k by (cases "jget v k") (simp_all add: string_or_array_def)
  have m: "hasClaudeContentTypes msgs \<Longrightarrow> has_marker (print_raw v)" if "nonempty_arr v ''messages'' = Some msgs" for msgs
    using that claude_content_marker by (auto simp: nonempty_arr_Some)
  have p: "unmarshal_probe (json_print v) = Some \<lparr>bpModel = str_at v ''model'', bpInput = jget v ''input'', bpMessages = jget v ''messages'',
      bpContents = jget v ''contents'', bpSystem = jget v ''system'', bpAnthropicVersion = jget v ''anthropic_version''\<rparr>"
    using u string_field_model [OF assms(1,3,4)] by (simp add: unmarshal_probe_def f probe_fields_def)
  have x: "ExtractModelID (json_print v) = str_at v ''model''" using u ne by (simp add: ExtractModelID_def)
  have d: "Detect (json_print v) = detect_doc v" using u ne by (simp add: Detect_def)
  show ?thesis
  proof (cases "jget v ''messages''")
    case None
    then have "nonempty_arr v ''messages'' = None" using n by blast
    then show ?thesis using None ne n [of "''contents''"] s [of "''input''"] r [of "''contents''"]
      by (cases "string_or_array (jget v ''input'')"; cases "nonempty_arr v ''contents''")
        (simp_all add: ProbeBody_def p x d detect_doc_def has_key_def)
  next
    case (Some ms)
    show ?thesis
    proof (cases "nonempty_arr v ''messages''")
      case None
      then show ?thesis using Some ne r [of "''messages''"] by (simp add: ProbeBody_def p x d detect_doc_def has_key_def)
    next
      case (Some msgs)
      then show ?thesis using \<open>jget v ''messages'' = Some ms\<close> ne r [of "''messages''"] m [OF Some]
        by (auto simp: ProbeBody_def p x d detect_doc_def has_key_def t [symmetric] has_marker_def simp del: contains.simps)
    qed
  qed
qed

lemma exact_keys_canon: "exact_keys (canon v) = exact_keys v"
  by (cases v) (auto simp: exact_keys_def list_all_iff)

lemma model_is_string_canon: "wf_json v \<Longrightarrow> model_is_string (canon v) = model_is_string v"
  by (auto simp: model_is_string_def jget_canon split: option.splits json.splits)

text \<open>
  C26:
  On an encoded request whose probed keys are spelled exactly and whose model is a string, null or
  absent, the single-pass ProbeBody gives the format that Detect finds and the id that ExtractModelID
  finds, its byte-level rejection of bodies without Claude markers included.
\<close>

theorem probe_matches_detect:
  assumes "wf_json v" "is_obj v" "exact_keys v" "model_is_string v"
  shows "ProbeBody (json_print v) = (Detect (json_print v), ExtractModelID (json_print v))"
  using probe_canonical [of "canon v"] assms
  by (simp add: wf_json_canon canon_idem json_print_canon exact_keys_canon model_is_string_canon)

theorem probe_matches_detect_witness: "ProbeBody (json_print claude_probe) = (FormatClaude, ''m'')"
proof -
  have "wf_json claude_probe" "is_obj claude_probe" "exact_keys claude_probe" "model_is_string claude_probe"
    by (simp_all add: claude_probe_def wf_map_def exact_keys_def model_is_string_def probe_fields_def to_lower_def lower_char_def)
  moreover have "Detect (json_print claude_probe) = FormatClaude" "ExtractModelID (json_print claude_probe) = ''m''"
    by code_simp+
  ultimately show ?thesis using probe_matches_detect [of claude_probe] by simp
qed

text \<open>
  A Responses request whose model is a number: Detect recognises the format, ProbeBody reports OpenAI
  because the struct decoding fails.
\<close>

theorem probe_differs_on_numeric_model:
  "Detect numeric_model_body = FormatOpenAIResponses \<and> fst (ProbeBody numeric_model_body) = FormatOpenAI"
  by code_simp

section \<open>The pre-processing of the OpenAI body\<close>

lemma stage_decodes:
  assumes "unmarshal_map body = Some raw" "\<And>r. f raw = Some r \<Longrightarrow> wf_json r \<and> is_obj r"
  obtains out where "json_stage msg f body = Inr out"
    "unmarshal_map out = Some (case f raw of None \<Rightarrow> raw | Some r \<Rightarrow> canon r)"
proof -
  have ne: "body \<noteq> []" using assms(1) by (auto simp: unmarshal_map_def json_parse_def skip_ws_def)
  show ?thesis
  proof (cases "f raw")
    case None
    then show ?thesis using assms(1) ne that [of body] by (simp add: json_stage_def)
  next
    case (Some r)
    then show ?thesis using assms ne that [of "json_print r"] unmarshal_map_print [of r] by (simp add: json_stage_def)
  qed
qed

lemma roles_decode:
  assumes "unmarshal_map body = Some raw"
  obtains out d where "NormalizeRoles body = Inr out" "unmarshal_map out = Some d"
proof (cases "contains body (quoted ''developer'')")
  case False
  then show ?thesis using assms that [of body raw] by (simp add: NormalizeRoles_def del: contains.simps)
next
  case True
  have ne: "body \<noteq> []" using assms by (auto simp: unmarshal_map_def json_parse_def skip_ws_def)
  have "wf_json r \<and> is_obj r" if "normalize_roles_doc raw = Some r" for r
  proof -
    have "is_obj raw" using that by (auto simp: normalize_roles_doc_def split: option.splits dest: at_is_obj)
    moreover have "apply_doc normalize_roles_doc raw = r" using that by (simp add: apply_doc_def)
    ultimately show ?thesis using roles.stage_wf roles.stage_obj unmarshal_map_wf [OF assms] by (auto simp: normalize_roles_doc_eq)
  qed
  then show ?thesis using stage_decodes [OF assms] True ne that by (metis NormalizeRoles_def)
qed

lemma thinking_decode:
  assumes "unmarshal_map body = Some raw"
  obtains out d where "NormalizeThinkingConfig body = Inr out" "unmarshal_map out = Some d"
proof -
  have "wf_json r \<and> is_obj r" if "normalize_thinking_doc raw = Some r" for r
  proof -
    have "is_obj raw" using that by (cases raw) (auto simp: normalize_thinking_doc_def obj_at_def)
    moreover have "apply_doc normalize_thinking_doc raw = r" using that by (simp add: apply_doc_def)
    ultimately show ?thesis using thinking.stage_wf thinking.stage_obj unmarshal_map_wf [OF assms] by auto
  qed
  then show ?thesis using stage_decodes [OF assms] that by (metis NormalizeThinkingConfig_def)
qed

lemma wf_truncated: "wf_json m \<Longrightarrow> wf_json (truncated_calls m)"
  by (simp add: truncated_calls_def Let_def wf_json_jset wf_json_jdel)

lemma strip_trailing_set:
  "set (fst (strip_trailing before after)) \<subseteq> set before \<union> set after \<union> truncated_calls ` set before"
proof (induction before arbitrary: after)
  case (Cons m before)
  then show ?case using Cons.IH [of "m # after"] by auto
qed simp

lemma strip_leading_set: "set (strip_leading ms) \<subseteq> set ms"
  unfolding strip_leading_def by (meson order_trans set_dropWhileD subsetI)

lemma sanitize_decode:
  assumes "unmarshal_map body = Some raw"
  obtains out d where "SanitizeToolHistory body = Inr out" "unmarshal_map out = Some d"
proof -
  have w: "wf_json raw" using unmarshal_map_wf [OF assms] .
  have "wf_json r \<and> is_obj r" if sr: "sanitize_history_doc raw = Some r" for r
  proof -
    obtain msgs where m: "arr_at raw ''messages'' = Some msgs"
      "r = jset ''messages'' (JArr (fst (strip_trailing (rev (strip_leading msgs)) []))) raw"
      using sr by (auto simp: sanitize_history_doc_def case_prod_unfold Let_def nonempty_arr_Some split: option.splits if_splits)
    have "wf_json x" if "x \<in> set (fst (strip_trailing (rev (strip_leading msgs)) []))" for x
      using that strip_trailing_set [of "rev (strip_leading msgs)" "[]"] strip_leading_set [of msgs]
        wf_json_arr_at [OF w m(1)] wf_truncated by auto
    then have "wf_json (JArr (fst (strip_trailing (rev (strip_leading msgs)) [])))" by simp
    then show ?thesis using m w at_is_obj(1) [OF m(1)] by (simp add: wf_json_jset del: wf_json.simps)
  qed
  then show ?thesis using stage_decodes [OF assms] that by (metis SanitizeToolHistory_def)
qed

lemma wanted_valid: "valid_ids m \<Longrightarrow> s \<in> set (wanted_ids m) \<Longrightarrow> toolIDPattern s"
proof -
  assume v: "valid_ids m" and s: "s \<in> set (wanted_ids m)"
  from s obtain tcs where t0: "arr_at m ''tool_calls'' = Some tcs" "s \<in> set (filter (\<lambda>s. s \<noteq> []) (map (\<lambda>tc. str_at tc ''id'') tcs))"
    by (cases "is_assistant m"; cases "arr_at m ''tool_calls''") (simp_all add: wanted_ids_def)
  then obtain tc where t: "arr_at m ''tool_calls'' = Some tcs" "tc \<in> set tcs" "str_at tc ''id'' = s" "s \<noteq> []" by auto
  have "is_obj tc" using t(3,4) by (cases tc) (simp_all add: str_at_def)
  then show ?thesis using v t(1-3) by (auto simp: valid_ids_def valid_call_def)
qed

lemma synthetic_valid: "toolIDPattern s \<Longrightarrow> valid_ids (synthetic_tool s)"
  by (simp add: valid_ids_def synthetic_tool_def arr_at_def str_at_def)

lemma fix_keeps_valid: "\<forall>m \<in> set ms. valid_ids m \<Longrightarrow> m \<in> set (fix_missing ms) \<Longrightarrow> valid_ids m"
  by (induction ms) (auto intro: synthetic_valid wanted_valid)

interpretation ready: doc_contract tools_ready
  by unfold_locales (simp add: tools_ready_def answers.canon_closed ids.canon_closed)

lemma fix_ready:
  assumes "unmarshal_map body = Some raw" "request_ids_valid raw"
  obtains out where "FixMissingToolResponses body = Inr out" "ready.holds_on out"
proof -
  have w: "wf_json raw" using unmarshal_map_wf [OF assms(1)] .
  obtain out where out: "FixMissingToolResponses body = Inr out"
    using json_stage_ok [OF assms(1)] by (auto simp: FixMissingToolResponses_def)
  have "ready.holds_on out"
  proof (rule ready.stage_lift [OF out [unfolded FixMissingToolResponses_def] assms(1)])
    show "fix_missing_doc raw = None \<Longrightarrow> tools_ready raw" using assms(2)
      by (auto simp: tools_ready_def fix_missing_doc_def history_answered_def nonempty_arr_eq split: option.splits if_splits)
    fix r assume "fix_missing_doc raw = Some r"
    then obtain msgs where m: "arr_at raw ''messages'' = Some msgs" "r = jset ''messages'' (JArr (fix_missing msgs)) raw"
      by (auto simp: fix_missing_doc_def nonempty_arr_Some split: option.splits)
    have "wf_json (JArr (fix_missing msgs))" using wf_json_arr_at [OF w m(1)] by (intro wf_fix) blast
    then show "wf_json r \<and> (is_obj r \<or> r = JNull) \<and> tools_ready r"
      using m w at_is_obj(1) [OF m(1)] assms(2) fix_keeps_valid [of msgs]
      by (simp add: tools_ready_def history_answered_def request_ids_valid_def arr_at_overwrite answered_fix wf_json_jset
          del: wf_json.simps)
  qed
  then show ?thesis using out that by blast
qed

lemma adjust_ready:
  assumes "ready.holds_on body"
  obtains out where "AdjustMaxTokens body = Inr out" "ready.holds_on out"
proof -
  obtain raw where raw: "unmarshal_map body = Some raw" "tools_ready raw" using assms by (auto simp: ready.holds_on_def)
  have w: "wf_json raw" using unmarshal_map_wf [OF raw(1)] .
  obtain out where out: "AdjustMaxTokens body = Inr out"
    using json_stage_ok [OF raw(1)] by (auto simp: AdjustMaxTokens_def)
  have "ready.holds_on out"
  proof (rule ready.stage_lift [OF out [unfolded AdjustMaxTokens_def] raw(1)])
    show "tools_ready raw" by (rule raw(2))
    fix r assume a: "adjust_max_tokens_doc raw = Some r"
    then have r: "r = jset ''max_tokens'' (JNum (adjusted_max_tokens raw)) raw"
      by (auto simp: adjust_max_tokens_doc_def Let_def split: option.splits if_splits)
    have m: "arr_at r ''messages'' = arr_at raw ''messages''"
      unfolding r by (cases raw) (simp_all add: arr_at_def)
    have "wf_json r" unfolding r using w adjusted_decimal by (simp add: wf_json_jset)
    moreover have "is_obj r \<or> r = JNull"
    proof (cases "is_obj raw")
      case False
      then show ?thesis using r raw(1) by (auto simp: unmarshal_map_def split: option.splits json.splits)
    qed (simp add: r)
    ultimately show "wf_json r \<and> (is_obj r \<or> r = JNull) \<and> tools_ready r"
      using raw(2) m by (simp add: tools_ready_def history_answered_def request_ids_valid_def)
  qed
  then show ?thesis using out that by blast
qed

lemma wrap_err_Inr [simp]: "wrap_err msg (Inr x) = Inr x"
  by (simp add: wrap_err_def)

lemma preprocess_ready:
  assumes "unmarshal_map body = Some raw"
  obtains out where "preprocess body = Inr out" "ready.holds_on out"
proof -
  obtain b1 d1 where 1: "NormalizeRoles body = Inr b1" "unmarshal_map b1 = Some d1" using roles_decode [OF assms] .
  obtain b2 d2 where 2: "NormalizeThinkingConfig b1 = Inr b2" "unmarshal_map b2 = Some d2" using thinking_decode [OF 1(2)] .
  obtain b3 d3 where 3: "SanitizeToolHistory b2 = Inr b3" "unmarshal_map b3 = Some d3" using sanitize_decode [OF 2(2)] .
  obtain b4 d4 where 4: "EnsureToolCallIds b3 = Inr b4" "unmarshal_map b4 = Some d4" "request_ids_valid d4"
    using ensure_tool_call_ids_valid [OF 3(2)] by blast
  obtain b5 where 5: "FixMissingToolResponses b4 = Inr b5" "ready.holds_on b5" using fix_ready [OF 4(2,3)] .
  obtain b6 where 6: "AdjustMaxTokens b5 = Inr b6" "ready.holds_on b6" using adjust_ready [OF 5(2)] .
  show ?thesis using 6(2) by (rule that [rotated]) (simp add: preprocess_def 1 2 3 4 5 6)
qed

text \<open>
  Whenever the source translator gives a decodable OpenAI body, the request pipeline towards OpenAI
  succeeds, and in the request it returns every tool call is answered and every tool-call id matches
  the Anthropic pattern, the later stages keeping what the earlier ones established.
\<close>

theorem translated_request_ready:
  assumes "source \<noteq> FormatOpenAI" "sourceToOpenAI tr body source = Inr b" "unmarshal_map b = Some raw"
  shows "\<exists>out d. Request tr body source FormatOpenAI = Inr out \<and> unmarshal_map out = Some d \<and>
    history_answered d \<and> request_ids_valid d"
proof -
  obtain out where "preprocess b = Inr out" "ready.holds_on out" using preprocess_ready [OF assms(3)] .
  then show ?thesis using assms(1,2) by (auto simp: Request_def openAIToTarget_def ready.holds_on_def tools_ready_def)
qed


theorem translated_request_ready_witness:
  "\<exists>out d. Request plain_translators tools_body FormatClaude FormatOpenAI = Inr out \<and> unmarshal_map out = Some d \<and>
    history_answered d \<and> request_ids_valid d"
  by (rule translated_request_ready [OF _ _ tools_body_decodes]) (simp_all add: sourceToOpenAI_def plain_translators_def)


end
