(* ===== verification/Observability.thy ===== *)
theory Observability
  imports Prelude "HOL-Library.Word"
begin

text \<open>
  What backs the dashboard: the generic ring buffer (internal/infrastructure/ringbuffer), the request
  counters (internal/infrastructure/metrics) and the recorder that keeps the last requests and the
  sampled time series (internal/infrastructure/recorder). The bounded log is an interface of its own:
  the recorder's properties are proved from its laws and hold of the ring buffer by interpretation.
\<close>

section \<open>Ring buffer (ringbuffer.go)\<close>

record 'a ring =
  rdata :: "'a list"
  rhead :: nat
  rsize :: nat
  rcap :: nat

text \<open>\<open>zero\<close> is Go's zero value of the element type, which fills the slice that \<open>make\<close> returns.\<close>

definition New :: "'a \<Rightarrow> int \<Rightarrow> 'a ring" where
  "New zero capacity =
     (let c = nat (if capacity \<le> 0 then 1 else capacity)
      in \<lparr>rdata = replicate c zero, rhead = 0, rsize = 0, rcap = c\<rparr>)"

definition Push :: "'a \<Rightarrow> 'a ring \<Rightarrow> 'a ring" where
  "Push item r =
     r\<lparr>rdata := (rdata r)[rhead r := item],
       rhead := (rhead r + 1) mod rcap r,
       rsize := (if rsize r < rcap r then rsize r + 1 else rsize r)\<rparr>"

definition Snapshot :: "'a ring \<Rightarrow> 'a list" where
  "Snapshot r =
     (if rsize r = 0 then []
      else let start = (rhead r + rcap r - rsize r) mod rcap r
           in map (\<lambda>i. rdata r ! ((start + i) mod rcap r)) [0..<rsize r])"

definition Len :: "'a ring \<Rightarrow> nat" where "Len r = rsize r"

definition Cap :: "'a ring \<Rightarrow> nat" where "Cap r = rcap r"

definition Clear :: "'a ring \<Rightarrow> 'a ring" where "Clear r = r\<lparr>rhead := 0, rsize := 0\<rparr>"

section \<open>Counters (counter.go)\<close>

text \<open>Counters are 64-bit; the snapshot is a map whose values are integers or the per-upstream map.\<close>

record metrics =
  TotalRequests :: "64 word"
  UpstreamErrors :: "64 word"
  InputTokens :: "64 word"
  OutputTokens :: "64 word"
  perUp :: "(string, 64 word) gomap"

datatype mval = MInt "64 word" | MMap "(string, 64 word) gomap"

definition metrics_new :: metrics where
  "metrics_new = \<lparr>TotalRequests = 0, UpstreamErrors = 0, InputTokens = 0, OutputTokens = 0, perUp = []\<rparr>"

definition IncrUpstream :: "string \<Rightarrow> metrics \<Rightarrow> metrics" where
  "IncrUpstream name m =
     (let m1 = (if map_of (perUp m) name = None then m\<lparr>perUp := mput name 0 (perUp m)\<rparr> else m)
      in case map_of (perUp m1) name of
           Some c \<Rightarrow> m1\<lparr>perUp := mput name (c + 1) (perUp m1)\<rparr>
         | None \<Rightarrow> m1)"

definition metrics_snapshot :: "metrics \<Rightarrow> (string, mval) gomap" where
  "metrics_snapshot m =
     [(''total_requests'', MInt (TotalRequests m)), (''upstream_errors'', MInt (UpstreamErrors m)),
      (''input_tokens'', MInt (InputTokens m)), (''output_tokens'', MInt (OutputTokens m)),
      (''per_upstream'', MMap (perUp m))]"

section \<open>Recorder (recorder.go)\<close>

record request_log_entry =
  ts :: int
  req_method :: string
  path :: string
  log_model :: string
  upstream :: string
  log_status :: int
  duration_ms :: int
  ip :: string
  log_error :: string
  prompt_tokens :: int
  completion_tokens :: int
  total_tokens :: int

record timeseries_entry =
  sample_ts :: int
  total_requests :: "64 word"
  sample_errors :: "64 word"
  input_tokens :: "64 word"
  output_tokens :: "64 word"
  per_upstream :: "(string, 64 word) gomap"

definition TimeseriesCapacity :: int where "TimeseriesCapacity = 360"

definition zero_entry :: request_log_entry where
  "zero_entry = \<lparr>ts = 0, req_method = [], path = [], log_model = [], upstream = [], log_status = 0, duration_ms = 0,
     ip = [], log_error = [], prompt_tokens = 0, completion_tokens = 0, total_tokens = 0\<rparr>"

definition zero_sample :: timeseries_entry where
  "zero_sample = \<lparr>sample_ts = 0, total_requests = 0, sample_errors = 0, input_tokens = 0, output_tokens = 0,
     per_upstream = []\<rparr>"

record recorder =
  requests :: "request_log_entry ring"
  timeseries :: "timeseries_entry ring"
  startedAt :: int

text \<open>\<open>now\<close> is the clock; a time stamp of 0 stands for Go's zero time.\<close>

definition NewRecorderWithDeps :: "int \<Rightarrow> recorder" where
  "NewRecorderWithDeps now =
     \<lparr>requests = New zero_entry 100, timeseries = New zero_sample TimeseriesCapacity, startedAt = now\<rparr>"

definition stamped :: "int \<Rightarrow> request_log_entry \<Rightarrow> request_log_entry" where
  "stamped now e = (if ts e = 0 then e\<lparr>ts := now\<rparr> else e)"

definition RecordRequestLog :: "int \<Rightarrow> request_log_entry \<Rightarrow> recorder \<Rightarrow> recorder" where
  "RecordRequestLog now e r = r\<lparr>requests := Push (stamped now e) (requests r)\<rparr>"

definition Requests :: "recorder \<Rightarrow> request_log_entry list" where
  "Requests r = Snapshot (requests r)"

definition Timeseries :: "recorder \<Rightarrow> timeseries_entry list" where
  "Timeseries r = Snapshot (timeseries r)"

definition Int64 :: "mval option \<Rightarrow> 64 word" where
  "Int64 v = (case v of Some (MInt n) \<Rightarrow> n | _ \<Rightarrow> 0)"

text \<open>One tick of the sampler: \<open>metricsFn\<close> is None when no metrics callback is wired.\<close>

definition sample :: "int \<Rightarrow> (string, mval) gomap option \<Rightarrow> timeseries_entry" where
  "sample t metricsFn =
     (let snap = (case metricsFn of Some m \<Rightarrow> m | None \<Rightarrow> [])
      in \<lparr>sample_ts = t, total_requests = Int64 (map_of snap ''total_requests''),
          sample_errors = Int64 (map_of snap ''upstream_errors''),
          input_tokens = Int64 (map_of snap ''input_tokens''),
          output_tokens = Int64 (map_of snap ''output_tokens''),
          per_upstream = (case map_of snap ''per_upstream'' of Some (MMap m) \<Rightarrow> m | _ \<Rightarrow> [])\<rparr>)"

definition tick :: "int \<Rightarrow> (string, mval) gomap option \<Rightarrow> recorder \<Rightarrow> recorder" where
  "tick t metricsFn r = r\<lparr>timeseries := Push (sample t metricsFn) (timeseries r)\<rparr>"

section \<open>Specifications\<close>

text \<open>The last \<open>n\<close> elements of a list: what a log bounded by \<open>n\<close> keeps.\<close>

definition lastn :: "nat \<Rightarrow> 'a list \<Rightarrow> 'a list" where
  "lastn n xs = drop (length xs - n) xs"

definition ring_inv :: "'a ring \<Rightarrow> bool" where
  "ring_inv r = (0 < rcap r \<and> length (rdata r) = rcap r \<and> rhead r < rcap r \<and> rsize r \<le> rcap r)"

definition ring_start :: "'a ring \<Rightarrow> nat" where
  "ring_start r = (rhead r + rcap r - rsize r) mod rcap r"

text \<open>The operations of the recorder over time, in any interleaving.\<close>

datatype rec_event = Logged int request_log_entry | Ticked int "(string, mval) gomap option"

fun rec_step :: "rec_event \<Rightarrow> recorder \<Rightarrow> recorder" where
  "rec_step (Logged now e) r = RecordRequestLog now e r"
| "rec_step (Ticked t m) r = tick t m r"

fun logged_of :: "rec_event \<Rightarrow> request_log_entry list" where
  "logged_of (Logged now e) = [stamped now e]"
| "logged_of (Ticked t m) = []"

fun samples_of :: "rec_event \<Rightarrow> timeseries_entry list" where
  "samples_of (Logged now e) = []"
| "samples_of (Ticked t m) = [sample t m]"

section \<open>The interface of a bounded log\<close>

lemma lastn_append [simp]: "lastn n (lastn n xs @ ys) = lastn n (xs @ ys)"
  by (cases "length xs \<le> n") (auto simp: lastn_def drop_append add.commute)

lemma lastn_Nil [simp]: "lastn n [] = []"
  by (simp add: lastn_def)

lemma length_lastn [simp]: "length (lastn n xs) = min n (length xs)"
  by (simp add: lastn_def)

locale bounded_log =
  fixes inv :: "'b \<Rightarrow> bool" and empty :: "'b \<Rightarrow> bool" and push :: "'a \<Rightarrow> 'b \<Rightarrow> 'b"
    and contents :: "'b \<Rightarrow> 'a list" and bound :: "'b \<Rightarrow> nat"
  assumes empty_contents: "inv b \<Longrightarrow> empty b \<Longrightarrow> contents b = []"
    and push_inv: "inv b \<Longrightarrow> inv (push x b)"
    and push_bound: "inv b \<Longrightarrow> bound (push x b) = bound b"
    and push_contents: "inv b \<Longrightarrow> contents (push x b) = lastn (bound b) (contents b @ [x])"
begin

lemma pushes:
  assumes "inv b" "contents b = lastn (bound b) old"
  shows "inv (fold push xs b) \<and> bound (fold push xs b) = bound b \<and>
    contents (fold push xs b) = lastn (bound b) (old @ xs)"
  using assms
proof (induction xs arbitrary: b old)
  case (Cons x xs)
  have "inv (push x b)" "bound (push x b) = bound b" "contents (push x b) = lastn (bound b) (old @ [x])"
    using Cons.prems push_inv push_bound push_contents by simp_all
  then show ?case using Cons.IH [of "push x b" "old @ [x]"] by simp
qed simp

lemma recent:
  assumes "inv b" "empty b"
  shows "contents (fold push xs b) = lastn (bound b) xs"
  using pushes [OF assms(1), of "[]" xs] empty_contents [OF assms] by simp

lemma never_exceeds: "inv b \<Longrightarrow> empty b \<Longrightarrow> length (contents (fold push xs b)) \<le> bound b"
  by (simp add: recent)

end

section \<open>The ring buffer is a bounded log\<close>

lemma Snapshot_nth:
  "i < rsize r \<Longrightarrow> Snapshot r ! i = rdata r ! ((ring_start r + i) mod rcap r)" "length (Snapshot r) = rsize r"
  by (auto simp: Snapshot_def ring_start_def Let_def)

lemma mod_shift_inject: "i < c \<Longrightarrow> j < c \<Longrightarrow> (a + i) mod c = (a + j) mod c \<Longrightarrow> i = (j::nat)"
proof (induction i j rule: linorder_wlog)
  case (le i j)
  then have "c dvd j - i" using mod_eq_dvd_iff_nat [of "a + i" "a + j" c] by simp
  moreover have "j - i < c" using le by simp
  ultimately have "j - i = 0" by (metis nat_dvd_not_less neq0_conv)
  then show ?case using le by simp
qed simp

lemma ring_start_end: "ring_inv r \<Longrightarrow> (ring_start r + rsize r) mod rcap r = rhead r"
  by (auto simp: ring_inv_def ring_start_def mod_add_left_eq)

lemma Push_inv: "ring_inv r \<Longrightarrow> ring_inv (Push x r)"
  by (auto simp: ring_inv_def Push_def)

lemma Push_cap [simp]: "rcap (Push x r) = rcap r"
  by (simp add: Push_def)

lemma Push_start:
  assumes "ring_inv r"
  shows "ring_start (Push x r) = (if rsize r < rcap r then ring_start r else (rhead r + 1) mod rcap r)"
proof (cases "rsize r < rcap r")
  case True
  have "(((rhead r + 1) mod rcap r) + (rcap r - (rsize r + 1))) mod rcap r = (rhead r + 1 + (rcap r - (rsize r + 1))) mod rcap r"
    by (simp add: mod_add_left_eq)
  moreover have "rhead r + 1 + (rcap r - (rsize r + 1)) = rhead r + rcap r - rsize r" using True by simp
  ultimately show ?thesis using True by (simp add: ring_start_def Push_def)
next
  case False
  then have "rsize r = rcap r" using assms by (simp add: ring_inv_def)
  then show ?thesis by (simp add: ring_start_def Push_def)
qed

lemma Snapshot_Push:
  assumes inv: "ring_inv r"
  shows "Snapshot (Push x r) = lastn (rcap r) (Snapshot r @ [x])"
proof (cases "rsize r < rcap r")
  case True
  have s: "rsize (Push x r) = Suc (rsize r)" "ring_start (Push x r) = ring_start r"
    using True inv by (simp add: Push_def, simp add: Push_start)
  have "Snapshot (Push x r) = Snapshot r @ [x]"
  proof (rule nth_equalityI)
    fix i assume "i < length (Snapshot (Push x r))"
    then have i: "i \<le> rsize r" using s by (simp add: Snapshot_nth(2))
    let ?j = "(ring_start r + i) mod rcap r"
    have j: "?j < length (rdata r)" using inv by (simp add: ring_inv_def)
    have "?j = rhead r \<longleftrightarrow> i = rsize r"
      using ring_start_end [OF inv] mod_shift_inject [of i "rcap r" "rsize r" "ring_start r"] i True by auto
    then show "Snapshot (Push x r) ! i = (Snapshot r @ [x]) ! i"
      using s i j Snapshot_nth(1) [of i "Push x r"] Snapshot_nth(1) [of i r]
      by (auto simp: nth_append Snapshot_nth(2) Push_def nth_list_update)
  qed (simp add: Snapshot_nth(2) s)
  then show ?thesis using True by (simp add: lastn_def Snapshot_nth(2))
next
  case False
  then have f: "rsize r = rcap r" using inv by (simp add: ring_inv_def)
  have s: "rsize (Push x r) = rcap r" "ring_start (Push x r) = (rhead r + 1) mod rcap r" "ring_start r = rhead r"
    using f inv by (simp add: Push_def, simp add: Push_start, simp add: ring_start_def ring_inv_def)
  have l: "lastn (rcap r) (Snapshot r @ [x]) = tl (Snapshot r) @ [x]"
    using f inv by (cases "Snapshot r") (auto simp: lastn_def ring_inv_def Snapshot_nth(2) dest: arg_cong [of _ _ length])
  show ?thesis unfolding l
  proof (rule nth_equalityI)
    fix i assume "i < length (Snapshot (Push x r))"
    then have i: "i < rcap r" using s by (simp add: Snapshot_nth(2))
    let ?j = "(rhead r + Suc i) mod rcap r"
    have e: "((rhead r + 1) mod rcap r + i) mod rcap r = ?j" by (simp add: mod_add_left_eq)
    have j: "?j < length (rdata r)" "rhead r < rcap r" using inv by (simp_all add: ring_inv_def)
    have "?j = rhead r \<longleftrightarrow> Suc i = rcap r"
      using mod_shift_inject [of "Suc i" "rcap r" 0 "rhead r"] i j(2) by (cases "Suc i = rcap r") auto
    then show "Snapshot (Push x r) ! i = (tl (Snapshot r) @ [x]) ! i"
      using s i j e f Snapshot_nth(1) [of i "Push x r"] Snapshot_nth(1) [of "Suc i" r]
      by (auto simp: nth_append Snapshot_nth(2) Push_def nth_list_update nth_tl)
  qed (use inv in \<open>simp add: Snapshot_nth(2) s f ring_inv_def\<close>)
qed

interpretation ring: bounded_log ring_inv "\<lambda>r. rsize r = 0" Push Snapshot rcap
  by unfold_locales (simp_all add: Push_inv Snapshot_Push, simp add: Snapshot_def)

lemma New_facts: "ring_inv (New z c)" "rsize (New z c) = 0" "rcap (New z c) = nat (max 1 c)"
  by (auto simp: New_def ring_inv_def Let_def)

text \<open>
  C28:
  A ring buffer of capacity c (1 when c is not positive) returns, after any sequence of pushes,
  exactly the last c pushed items from oldest to newest; Len and Cap agree with it.
\<close>

theorem ring_keeps_most_recent:
  "Snapshot (fold Push xs (New z c)) = lastn (nat (max 1 c)) xs \<and>
   Len (fold Push xs (New z c)) = min (nat (max 1 c)) (length xs) \<and>
   Cap (fold Push xs (New z c)) = nat (max 1 c)"
proof -
  let ?r = "fold Push xs (New z c)"
  have p: "rcap ?r = nat (max 1 c)" "Snapshot ?r = lastn (nat (max 1 c)) xs"
    using ring.pushes [OF New_facts(1), of z c "[]" xs] ring.empty_contents [OF New_facts(1,2), of z c]
    by (simp_all add: New_facts(3))
  then show ?thesis using Snapshot_nth(2) [of ?r] by (simp add: Len_def Cap_def)
qed

text \<open>
  After Clear the ring buffer behaves like a new one of the same capacity: nothing pushed before is
  returned again.
\<close>

theorem ring_clear_restarts:
  assumes "ring_inv r"
  shows "Snapshot (fold Push xs (Clear r)) = lastn (Cap r) xs"
proof -
  have "ring_inv (Clear r)" "rsize (Clear r) = 0" "rcap (Clear r) = Cap r" using assms
    by (auto simp: Clear_def ring_inv_def Cap_def)
  then show ?thesis using ring.recent by metis
qed

section \<open>Counters and recorder\<close>

lemma perUp_IncrUpstream:
  "map_of (perUp (IncrUpstream n m)) k =
    (if k = n then Some ((case map_of (perUp m) n of Some c \<Rightarrow> c | None \<Rightarrow> 0) + 1) else map_of (perUp m) k)"
  by (auto simp: IncrUpstream_def Let_def map_of_mput split: option.splits)

text \<open>
  After any sequence of IncrUpstream calls the counter of each upstream is the number of its calls
  modulo 2^64, an upstream has a counter exactly when it was counted, and the global counters are
  untouched.
\<close>

theorem metrics_count_requests:
  "(case map_of (perUp (fold IncrUpstream names metrics_new)) n of Some c \<Rightarrow> c | None \<Rightarrow> 0) =
     word_of_nat (count_list names n) \<and>
   (map_of (perUp (fold IncrUpstream names metrics_new)) n = None \<longleftrightarrow> n \<notin> set names) \<and>
   TotalRequests (fold IncrUpstream names metrics_new) = 0"
proof -
  have "(case map_of (perUp (fold IncrUpstream names m)) n of Some c \<Rightarrow> c | None \<Rightarrow> 0) =
      (case map_of (perUp m) n of Some c \<Rightarrow> c | None \<Rightarrow> 0) + word_of_nat (count_list names n)" for m
  proof (induction names arbitrary: m)
    case (Cons a names)
    then show ?case by (simp add: perUp_IncrUpstream)
  qed (simp split: option.split)
  moreover have "map_of (perUp (fold IncrUpstream names m)) n = None \<longleftrightarrow> map_of (perUp m) n = None \<and> n \<notin> set names" for m
    by (induction names arbitrary: m) (auto simp: perUp_IncrUpstream)
  moreover have "TotalRequests (fold IncrUpstream names m) = TotalRequests m" for m
    by (induction names arbitrary: m) (auto simp: IncrUpstream_def Let_def split: option.splits)
  ultimately show ?thesis by (simp add: metrics_new_def)
qed

lemma rec_requests: "requests (fold rec_step evs r) = fold Push (concat (map logged_of evs)) (requests r)"
proof (induction evs arbitrary: r)
  case (Cons e evs)
  then show ?case by (cases e) (simp_all add: RecordRequestLog_def tick_def)
qed simp

lemma rec_timeseries: "timeseries (fold rec_step evs r) = fold Push (concat (map samples_of evs)) (timeseries r)"
proof (induction evs arbitrary: r)
  case (Cons e evs)
  then show ?case by (cases e) (simp_all add: RecordRequestLog_def tick_def)
qed simp

text \<open>
  Under any interleaving of logged requests and sampler ticks, Requests returns the last 100 logged
  requests and Timeseries the last 360 samples, oldest first, and every returned request was logged,
  stamped with the clock if it had no time.
\<close>

theorem recorder_keeps_recent:
  "Requests (fold rec_step evs (NewRecorderWithDeps t)) = lastn 100 (concat (map logged_of evs)) \<and>
   Timeseries (fold rec_step evs (NewRecorderWithDeps t)) = lastn 360 (concat (map samples_of evs))"
proof
  let ?r = "fold rec_step evs (NewRecorderWithDeps t)"
  show "Requests ?r = lastn 100 (concat (map logged_of evs))"
    using ring.recent [OF New_facts(1,2), of "concat (map logged_of evs)" zero_entry 100] New_facts(3) [of zero_entry 100]
    by (simp add: Requests_def rec_requests NewRecorderWithDeps_def)
  show "Timeseries ?r = lastn 360 (concat (map samples_of evs))"
    using ring.recent [OF New_facts(1,2), of "concat (map samples_of evs)" zero_sample TimeseriesCapacity]
      New_facts(3) [of zero_sample TimeseriesCapacity]
    by (simp add: Timeseries_def rec_timeseries NewRecorderWithDeps_def TimeseriesCapacity_def)
qed

text \<open>
  A sample of the metrics snapshot has exactly the counters of the metrics: the untyped map between
  counter.go and recorder.go loses nothing.
\<close>

theorem sample_reads_metrics:
  "sample t (Some (metrics_snapshot m)) =
     \<lparr>sample_ts = t, total_requests = TotalRequests m, sample_errors = UpstreamErrors m,
      input_tokens = InputTokens m, output_tokens = OutputTokens m, per_upstream = perUp m\<rparr>"
  by (simp add: sample_def metrics_snapshot_def Int64_def)

theorem ring_clear_restarts_witness: "Snapshot (fold Push [4, 5, 6::int] (Clear (fold Push [1, 2] (New 0 2)))) = [5, 6]"
proof -
  have "ring_inv (fold Push [1, 2] (New (0::int) 2))" "Cap (fold Push [1, 2] (New (0::int) 2)) = 2"
    by (simp_all add: ring_inv_def Push_def New_def Cap_def)
  from ring_clear_restarts [OF this(1), of "[4, 5, 6]"] this(2) show ?thesis by (simp add: lastn_def)
qed

end
