(* ===== verification/Middleware.thy ===== *)
theory Middleware
  imports Prelude "HOL-Library.Word"
begin

text \<open>
  The request gates of internal/delivery/middleware: the exponential back-off after failed
  authentication (throttle.go), the signed admin session (session.go), the API-key and admin gates
  and the per-IP rate limiter (middleware.go), with the client address they are keyed by
  (internal/httputil/ip.go). Times and durations are integers in nanoseconds, \<open>now\<close> is the clock.
\<close>

section \<open>Client address (ip.go)\<close>

record http_request =
  header :: "string \<Rightarrow> string"
  cookie :: "string option"
  RemoteAddr :: string
  urlPath :: string

text \<open>
  \<open>splitHostPort\<close> is the host part that net.SplitHostPort returns, None when it returns an error;
  \<open>after_last_comma\<close> is the text after the last comma, the whole text when there is none.
\<close>

definition after_last_comma :: "string \<Rightarrow> string" where
  "after_last_comma s = rev (takeWhile (\<lambda>c. c \<noteq> CHR '','') (rev s))"

definition ClientIP :: "(string \<Rightarrow> string option) \<Rightarrow> bool \<Rightarrow> http_request \<Rightarrow> string" where
  "ClientIP splitHostPort trustProxyHeaders r =
     (if trustProxyHeaders \<and> header r ''X-Forwarded-For'' \<noteq> []
      then trim_space (after_last_comma (header r ''X-Forwarded-For''))
      else if trustProxyHeaders \<and> header r ''X-Real-IP'' \<noteq> []
      then trim_space (header r ''X-Real-IP'')
      else case splitHostPort (RemoteAddr r) of Some host \<Rightarrow> host | None \<Rightarrow> RemoteAddr r)"

section \<open>Back-off after failed attempts (throttle.go)\<close>

definition second :: int where "second = 1000000000"

record authAttempt =
  failures :: nat
  nextAllowed :: int
  attemptSeen :: int

record auth_throttle =
  attempts :: "(string, authAttempt) gomap"
  base :: int
  max_wait :: int
  maxEntries :: nat

definition authThrottleBase :: int where "authThrottleBase = 2 * second"
definition authThrottleMax :: int where "authThrottleMax = 300 * second"

definition NewAuthThrottle :: auth_throttle where
  "NewAuthThrottle = \<lparr>attempts = [], base = authThrottleBase, max_wait = authThrottleMax, maxEntries = 4096\<rparr>"

text \<open>A nil throttle is None.\<close>

definition Blocked :: "auth_throttle option \<Rightarrow> int \<Rightarrow> string \<Rightarrow> int" where
  "Blocked t now ip =
     (case t of None \<Rightarrow> 0
      | Some th \<Rightarrow> (case map_of (attempts th) ip of
                     None \<Rightarrow> 0
                   | Some a \<Rightarrow> if 0 < nextAllowed a - now then nextAllowed a - now else 0))"

text \<open>The loop that doubles the wait, with the number of doublings still to do.\<close>

fun double_wait :: "nat \<Rightarrow> int \<Rightarrow> int \<Rightarrow> int" where
  "double_wait 0 mx d = d"
| "double_wait (Suc n) mx d = (if d < mx then double_wait n mx (d * 2) else d)"

definition wait_after :: "auth_throttle \<Rightarrow> nat \<Rightarrow> int" where
  "wait_after th n =
     (let d = double_wait (n - 1) (max_wait th) (base th)
      in if max_wait th < d then max_wait th else d)"

definition prune :: "int \<Rightarrow> auth_throttle \<Rightarrow> (string, authAttempt) gomap" where
  "prune now th = filter (\<lambda>(k, a). \<not> (max_wait th < now - attemptSeen a)) (attempts th)"

definition Fail :: "auth_throttle option \<Rightarrow> int \<Rightarrow> string \<Rightarrow> auth_throttle option \<times> int" where
  "Fail t now ip =
     (case t of None \<Rightarrow> (None, 0)
      | Some th \<Rightarrow>
          (let es = prune now th;
               es1 = (if maxEntries th \<le> length es then [] else es);
               n = (case map_of es1 ip of Some a \<Rightarrow> failures a | None \<Rightarrow> 0) + 1;
               d = wait_after th n;
               a = \<lparr>failures = n, nextAllowed = now + d, attemptSeen = now\<rparr>
           in (Some (th\<lparr>attempts := mput ip a es1\<rparr>), d)))"

definition Reset :: "auth_throttle option \<Rightarrow> string \<Rightarrow> auth_throttle option" where
  "Reset t ip = map_option (\<lambda>th. th\<lparr>attempts := mdel ip (attempts th)\<rparr>) t"

section \<open>Admin session (session.go)\<close>

definition AdminSessionTTL :: int where "AdminSessionTTL = 12 * 3600"

text \<open>
  \<open>mac token payload\<close> is the hex text of the HMAC-SHA256 of the payload; times are Unix seconds.
  \<open>parse_int64\<close> is strconv.ParseInt with base 10 and 64 bits.
\<close>

definition parse_int64 :: "string \<Rightarrow> int option" where
  "parse_int64 s =
     (let neg = (s \<noteq> [] \<and> hd s = CHR ''-''); sgn = (s \<noteq> [] \<and> (hd s = CHR ''-'' \<or> hd s = CHR ''+''));
          ds = (if sgn then tl s else s)
      in if ds = [] \<or> \<not> list_all is_digit ds then None
         else let n = int (nat_of_digits ds); v = (if neg then - n else n)
              in if v < - (2 ^ 63) \<or> 2 ^ 63 - 1 < v then None else Some v)"

definition session_payload :: "string \<Rightarrow> int \<Rightarrow> string" where
  "session_payload nonce expiry = nonce @ ''.'' @ show_int expiry"

definition IssueAdminSession :: "(string \<Rightarrow> string \<Rightarrow> string) \<Rightarrow> string \<Rightarrow> int \<Rightarrow> string \<Rightarrow> string" where
  "IssueAdminSession mac adminToken now nonce =
     (let payload = session_payload nonce (now + AdminSessionTTL)
      in payload @ ''.'' @ mac adminToken payload)"

definition VerifyAdminSession :: "(string \<Rightarrow> string \<Rightarrow> string) \<Rightarrow> string \<Rightarrow> int \<Rightarrow> string \<Rightarrow> bool" where
  "VerifyAdminSession mac adminToken now v =
     (if adminToken = [] then False
      else case split_on (CHR ''.'') v of
             [p0, p1, p2] \<Rightarrow>
               (case parse_int64 p1 of
                  None \<Rightarrow> False
                | Some expiry \<Rightarrow> if expiry < now then False else p2 = mac adminToken (p0 @ ''.'' @ p1))
           | _ \<Rightarrow> False)"

section \<open>The gates (middleware.go)\<close>

datatype verify_result = Verified bool | VerifyCanceled | VerifyError

datatype gate = Pass | Silent | Reply int string | RetryAfter int | Redirect string

definition bearer :: "string \<Rightarrow> string" where
  "bearer auth = (if 7 < length auth \<and> take 7 auth = ''Bearer '' then drop 7 auth else [])"

definition header_key :: "string \<Rightarrow> http_request \<Rightarrow> string" where
  "header_key name r = (if header r name \<noteq> [] then header r name else bearer (header r ''Authorization''))"

definition session_cookie_ok :: "(string \<Rightarrow> string \<Rightarrow> string) \<Rightarrow> string \<Rightarrow> int \<Rightarrow> http_request \<Rightarrow> bool" where
  "session_cookie_ok mac adminToken now r =
     (case cookie r of Some v \<Rightarrow> v \<noteq> [] \<and> VerifyAdminSession mac adminToken now v | None \<Rightarrow> False)"

text \<open>The reply and the keys whose use is recorded; \<open>checker\<close> is None when no key store is wired.\<close>

definition ApiAuthDB ::
  "(string \<Rightarrow> string \<Rightarrow> string) \<Rightarrow> string \<Rightarrow> (string \<Rightarrow> verify_result) option \<Rightarrow> int \<Rightarrow> http_request \<Rightarrow> gate \<times> string list" where
  "ApiAuthDB mac adminToken checker now r =
     (if adminToken = [] \<and> checker = None then (Pass, [])
      else let key = header_key ''X-API-Key'' r;
               finish = (if session_cookie_ok mac adminToken now r then (Pass, []) else (Reply 401 ''unauthorized'', []))
           in if adminToken \<noteq> [] \<and> key = adminToken then (Pass, [])
              else case checker of
                     Some verify \<Rightarrow>
                       if key = [] then finish
                       else (case verify key of
                               VerifyCanceled \<Rightarrow> (Silent, [])
                             | VerifyError \<Rightarrow> (Reply 503 ''auth_unavailable'', [])
                             | Verified valid \<Rightarrow> if valid then (Pass, [key]) else finish)
                   | None \<Rightarrow> finish)"

definition retry_secs :: "int \<Rightarrow> int" where
  "retry_secs wait = (wait + second - 1) div second"

definition AdminAuth ::
  "(string \<Rightarrow> string \<Rightarrow> string) \<Rightarrow> (string \<Rightarrow> string) \<Rightarrow> string \<Rightarrow> int \<Rightarrow> int \<Rightarrow> string \<Rightarrow> http_request \<Rightarrow>
   auth_throttle option \<Rightarrow> gate \<times> auth_throttle option" where
  "AdminAuth mac queryEscape adminToken now unixNow ip r throttle =
     (let wait = Blocked throttle now ip
      in if 0 < wait then (RetryAfter (retry_secs wait), throttle)
         else if session_cookie_ok mac adminToken unixNow r then (Pass, Reset throttle ip)
         else let key = header_key ''X-Admin-Token'' r
              in if key \<noteq> [] \<and> adminToken \<noteq> [] \<and> key = adminToken then (Pass, Reset throttle ip)
                 else let presented = ((cookie r \<noteq> None \<and> cookie r \<noteq> Some []) \<or> key \<noteq> []);
                          throttle' = (if presented then fst (Fail throttle now ip) else throttle)
                      in (if header r ''HX-Request'' = ''true'' \<or> contains (header r ''Accept'') ''application/json''
                          then Reply 401 ''unauthorized''
                          else Redirect (''/login?next='' @ queryEscape (urlPath r)), throttle'))"

section \<open>Rate limiter (middleware.go)\<close>

definition rateLimiterShards :: nat where "rateLimiterShards = 32"
definition rateLimiterMaxPerShard :: nat where "rateLimiterMaxPerShard = 4096"
definition minute :: int where "minute = 60 * second"

record visitor =
  visits :: int
  lastSeen :: int

record rate_limiter =
  shards :: "(string, visitor) gomap list"
  limit :: int

definition NewRateLimiter :: "int \<Rightarrow> rate_limiter" where
  "NewRateLimiter requestsPerMinute = \<lparr>shards = replicate rateLimiterShards [], limit = requestsPerMinute\<rparr>"

text \<open>FNV-1a on 32-bit words.\<close>

fun fnv1a :: "32 word \<Rightarrow> string \<Rightarrow> 32 word" where
  "fnv1a h [] = h"
| "fnv1a h (c # cs) = fnv1a (xor h (of_nat (of_char c)) * 16777619) cs"

definition shardFor :: "string \<Rightarrow> nat" where
  "shardFor ip = unat (fnv1a 2166136261 ip) mod rateLimiterShards"

text \<open>
  \<open>allow\<close> on the shard of the address; Go's map iteration picks an arbitrary victim when the shard is
  full: \<open>victim\<close> is the position it starts at.
\<close>

definition evict :: "nat \<Rightarrow> (string, visitor) gomap \<Rightarrow> (string, visitor) gomap" where
  "evict victim m =
     (if rateLimiterMaxPerShard \<le> length m
      then (if m = [] then m else mdel (fst (m ! (victim mod length m))) m)
      else m)"

definition shard_allow :: "int \<Rightarrow> string \<Rightarrow> int \<Rightarrow> nat \<Rightarrow> (string, visitor) gomap \<Rightarrow> bool \<times> (string, visitor) gomap" where
  "shard_allow lim ip now victim m =
     (case map_of m ip of
        None \<Rightarrow> (True, mput ip \<lparr>visits = 1, lastSeen = now\<rparr> (evict victim m))
      | Some v \<Rightarrow>
          if minute < now - lastSeen v then (True, mput ip \<lparr>visits = 1, lastSeen = now\<rparr> m)
          else if lim \<le> visits v then (False, m)
          else (True, mput ip \<lparr>visits = visits v + 1, lastSeen = now\<rparr> m))"

definition allow :: "string \<Rightarrow> int \<Rightarrow> nat \<Rightarrow> rate_limiter \<Rightarrow> bool \<times> rate_limiter" where
  "allow ip now victim rl =
     (let i = shardFor ip; (ok, m) = shard_allow (limit rl) ip now victim (shards rl ! i)
      in (ok, rl\<lparr>shards := (shards rl)[i := m]\<rparr>))"

definition cleanup :: "int \<Rightarrow> rate_limiter \<Rightarrow> rate_limiter" where
  "cleanup now rl = rl\<lparr>shards := map (filter (\<lambda>(k, v). \<not> (2 * minute < now - lastSeen v))) (shards rl)\<rparr>"

section \<open>Specifications\<close>

definition throttle_inv :: "auth_throttle \<Rightarrow> bool" where
  "throttle_inv th =
     (0 < base th \<and> 0 < max_wait th \<and> wf_map (attempts th) \<and>
      (\<forall>(k, a) \<in> set (attempts th). nextAllowed a \<le> attemptSeen a + max_wait th))"

text \<open>The failures of an address that still count at a time.\<close>

definition live_failures :: "auth_throttle \<Rightarrow> int \<Rightarrow> string \<Rightarrow> nat" where
  "live_failures th now ip =
     (case map_of (attempts th) ip of
        Some a \<Rightarrow> if max_wait th < now - attemptSeen a then 0 else failures a
      | None \<Rightarrow> 0)"

definition overflows :: "auth_throttle \<Rightarrow> int \<Rightarrow> bool" where
  "overflows th now = (maxEntries th \<le> length (prune now th))"

text \<open>The waits that a series of failures of one address at given times gets.\<close>

fun fails :: "auth_throttle option \<Rightarrow> string \<Rightarrow> int list \<Rightarrow> int list" where
  "fails t ip [] = []"
| "fails t ip (now # ts) = snd (Fail t now ip) # fails (fst (Fail t now ip)) ip ts"

fun close_times :: "int \<Rightarrow> int \<Rightarrow> int list \<Rightarrow> bool" where
  "close_times gap t [] = True"
| "close_times gap t (u # us) = (u - t \<le> gap \<and> close_times gap u us)"

definition admin_credential_ok :: "(string \<Rightarrow> string \<Rightarrow> string) \<Rightarrow> string \<Rightarrow> int \<Rightarrow> http_request \<Rightarrow> bool" where
  "admin_credential_ok mac adminToken unixNow r =
     (session_cookie_ok mac adminToken unixNow r \<or>
      (adminToken \<noteq> [] \<and> header_key ''X-Admin-Token'' r = adminToken))"

definition credential_presented :: "http_request \<Rightarrow> bool" where
  "credential_presented r = ((cookie r \<noteq> None \<and> cookie r \<noteq> Some []) \<or> header_key ''X-Admin-Token'' r \<noteq> [])"

definition rl_inv :: "rate_limiter \<Rightarrow> bool" where
  "rl_inv rl =
     (length (shards rl) = rateLimiterShards \<and>
      (\<forall>m \<in> set (shards rl). wf_map m \<and> length m \<le> rateLimiterMaxPerShard))"

datatype rl_event = Req string int nat | Cleanup int

fun ev_time :: "rl_event \<Rightarrow> int" where
  "ev_time (Req a t v) = t"
| "ev_time (Cleanup t) = t"

fun rl_step :: "rl_event \<Rightarrow> rate_limiter \<Rightarrow> bool \<times> rate_limiter" where
  "rl_step (Req a t v) rl = allow a t v rl"
| "rl_step (Cleanup t) rl = (False, cleanup t rl)"

fun is_req :: "string \<Rightarrow> rl_event \<Rightarrow> bool" where
  "is_req a (Req b t v) = (a = b)"
| "is_req a (Cleanup t) = False"

text \<open>The times at which an address is let through in a run, and the state after it.\<close>

fun allowed_at :: "string \<Rightarrow> rl_event list \<Rightarrow> rate_limiter \<Rightarrow> int list" where
  "allowed_at a [] rl = []"
| "allowed_at a (e # es) rl =
     (if is_req a e \<and> fst (rl_step e rl) then [ev_time e] else []) @ allowed_at a es (snd (rl_step e rl))"

definition rl_keys :: "rate_limiter \<Rightarrow> string set" where
  "rl_keys rl = (\<Union>m \<in> set (shards rl). fst ` set m)"

definition rl_lookup :: "rate_limiter \<Rightarrow> string \<Rightarrow> visitor option" where
  "rl_lookup rl a = map_of (shards rl ! shardFor a) a"

definition in_window :: "int \<Rightarrow> int list \<Rightarrow> int list" where
  "in_window t xs = filter (\<lambda>x. t \<le> x \<and> x \<le> t + minute) xs"

text \<open>
  What the state knows of an address whose requests went through at the times \<open>A\<close>, at time \<open>T\<close>: the
  requests of the current run are counted, and every earlier one is more than a minute before them.
\<close>

definition visitor_tracks :: "int \<Rightarrow> visitor option \<Rightarrow> int list \<Rightarrow> int \<Rightarrow> bool" where
  "visitor_tracks lim vo A T =
     ((\<forall>x \<in> set A. x \<le> T) \<and>
      (case vo of
         None \<Rightarrow> \<forall>x \<in> set A. x + minute < T
       | Some v \<Rightarrow> visits v \<le> max 1 lim \<and> (\<forall>x \<in> set A. x \<le> lastSeen v) \<and>
           (\<exists>old cur. A = old @ cur \<and> int (length cur) = visits v \<and> (\<forall>y \<in> set old. \<forall>z \<in> set cur. y + minute < z) \<and>
              cur \<noteq> [])))"

definition window_ok :: "int \<Rightarrow> int list \<Rightarrow> bool" where
  "window_ok lim A = (\<forall>t. int (length (in_window t A)) \<le> max 1 lim)"

fun ev_addr :: "rl_event \<Rightarrow> string set" where
  "ev_addr (Req a t v) = {a}"
| "ev_addr (Cleanup t) = {}"

fun times_from :: "int \<Rightarrow> rl_event list \<Rightarrow> bool" where
  "times_from T [] = True"
| "times_from T (e # es) = (T \<le> ev_time e \<and> times_from (ev_time e) es)"

definition demo_mac :: "string \<Rightarrow> string \<Rightarrow> string" where
  "demo_mac t p = filter (\<lambda>c. c \<noteq> CHR ''.'') (t @ p)"

definition demo_request :: http_request where
  "demo_request = \<lparr>header = (\<lambda>h. if h = ''Authorization'' then ''Bearer key'' else []), cookie = None,
     RemoteAddr = ''1.2.3.4:5'', urlPath = ''/''\<rparr>"

section \<open>Specifications\<close>

section \<open>The back-off\<close>

lemma double_wait_min: "0 < d \<Longrightarrow> min (double_wait n mx d) mx = min (d * 2 ^ n) mx"
proof (induction n arbitrary: d)
  case (Suc n)
  show ?case
  proof (cases "d < mx")
    case True
    then show ?thesis using Suc.IH [of "d * 2"] Suc.prems by (simp add: mult.assoc)
  next
    case False
    have "d * 1 \<le> d * 2 ^ Suc n" using Suc.prems one_le_power [of "2::int" "Suc n"] by (intro mult_left_mono) auto
    then show ?thesis using False by simp
  qed
qed simp

lemma wait_after_eq: "0 < base th \<Longrightarrow> wait_after th n = min (base th * 2 ^ (n - 1)) (max_wait th)"
  using double_wait_min [of "base th" "n - 1" "max_wait th"] by (auto simp: wait_after_def Let_def)

lemma wait_after_pos: "throttle_inv th \<Longrightarrow> 0 < wait_after th n"
  by (simp add: wait_after_eq throttle_inv_def)

lemma map_of_prune:
  "wf_map (attempts th) \<Longrightarrow>
   map_of (prune now th) k =
     (case map_of (attempts th) k of
        Some a \<Rightarrow> if max_wait th < now - attemptSeen a then None else Some a | None \<Rightarrow> None)"
  unfolding prune_def by (subst map_of_filter_wf) (auto split: option.splits)

lemma prune_subset: "set (prune now th) \<subseteq> set (attempts th)" and wf_prune: "wf_map (attempts th) \<Longrightarrow> wf_map (prune now th)"
  by (auto simp: prune_def wf_map_def distinct_map_filter)

lemma Fail_inv:
  assumes "throttle_inv th"
  shows "\<exists>th' d. Fail (Some th) now ip = (Some th', d) \<and> throttle_inv th' \<and> base th' = base th \<and>
    max_wait th' = max_wait th \<and> maxEntries th' = maxEntries th"
proof -
  have "wait_after th n \<le> max_wait th" for n using assms by (simp add: wait_after_eq throttle_inv_def)
  then show ?thesis using assms prune_subset [of now th] wf_prune [of th now]
    by (auto simp: Fail_def Let_def throttle_inv_def wf_map_def distinct_update dest!: set_mput_subset [THEN subsetD])
qed

lemma Blocked_mput:
  "Blocked (Some (th\<lparr>attempts := mput ip a es\<rparr>)) t k =
    (if k = ip then max 0 (nextAllowed a - t) else Blocked (Some (th\<lparr>attempts := es\<rparr>)) t k)"
  by (auto simp: Blocked_def map_of_mput)

text \<open>
  A failed attempt of an address with n failures that still count gets the wait min(base*2^n, max), is
  counted as the next failure, and blocks the address for exactly that wait, as long as the entry
  table does not overflow.
\<close>

theorem fail_wait_doubles:
  assumes "throttle_inv th" "\<not> overflows th now"
  shows "\<exists>th' d. Fail (Some th) now ip = (Some th', d) \<and>
    d = min (base th * 2 ^ live_failures th now ip) (max_wait th) \<and>
    live_failures th' now ip = Suc (live_failures th now ip) \<and>
    (\<forall>t. Blocked (Some th') t ip = max 0 (now + d - t))"
proof -
  have w: "wf_map (attempts th)" using assms(1) by (simp add: throttle_inv_def)
  have "(case map_of (prune now th) ip of Some a \<Rightarrow> failures a | None \<Rightarrow> 0) = live_failures th now ip"
    by (auto simp: map_of_prune [OF w] live_failures_def split: option.splits)
  then show ?thesis using assms
    by (auto simp: Fail_def Let_def overflows_def wait_after_eq throttle_inv_def Blocked_mput live_failures_def map_of_mput)
qed

text \<open>
  A failure of one address never shortens the wait of another one: lazily pruned entries are not
  blocked any more (unless the table overflows, when all are dropped).
\<close>

theorem fail_keeps_other_waits:
  assumes "throttle_inv th" "\<not> overflows th now" "k \<noteq> ip" "now \<le> t"
  shows "Blocked (fst (Fail (Some th) now ip)) t k = Blocked (Some th) t k"
proof -
  have w: "wf_map (attempts th)" using assms(1) by (simp add: throttle_inv_def)
  have "nextAllowed a \<le> t" if "map_of (attempts th) k = Some a" "max_wait th < now - attemptSeen a" for a
    using that assms(1,4) map_of_SomeD [OF that(1)] by (fastforce simp: throttle_inv_def)
  then have "Blocked (Some (th\<lparr>attempts := prune now th\<rparr>)) t k = Blocked (Some th) t k"
    by (auto simp: Blocked_def map_of_prune [OF w] split: option.splits)
  then show ?thesis using assms(2,3) by (simp add: Fail_def Let_def overflows_def Blocked_mput)
qed

lemma fails_from:
  assumes "throttle_inv th" "attempts th = [(ip, a)]" "1 < maxEntries th" "close_times (max_wait th) (attemptSeen a) ts"
  shows "fails (Some th) ip ts = map (\<lambda>k. min (base th * 2 ^ (failures a + k)) (max_wait th)) [0..<length ts]"
  using assms
proof (induction ts arbitrary: th a)
  case (Cons now ts)
  have p: "prune now th = [(ip, a)]" using Cons.prems(2,4) by (simp add: prune_def)
  let ?a = "\<lparr>failures = Suc (failures a), nextAllowed = now + wait_after th (Suc (failures a)), attemptSeen = now\<rparr>"
  have f: "Fail (Some th) now ip = (Some (th\<lparr>attempts := [(ip, ?a)]\<rparr>), wait_after th (Suc (failures a)))"
    using Cons.prems(3) by (simp add: Fail_def p Let_def)
  have "throttle_inv (th\<lparr>attempts := [(ip, ?a)]\<rparr>)" using Fail_inv [OF Cons.prems(1), of now ip] f by auto
  then have "fails (Some (th\<lparr>attempts := [(ip, ?a)]\<rparr>)) ip ts =
      map (\<lambda>k. min (base th * 2 ^ (Suc (failures a) + k)) (max_wait th)) [0..<length ts]"
    using Cons.IH [of "th\<lparr>attempts := [(ip, ?a)]\<rparr>" ?a] Cons.prems by simp
  moreover have "wait_after th (Suc (failures a)) = min (base th * 2 ^ failures a) (max_wait th)"
    using Cons.prems(1) by (simp add: wait_after_eq throttle_inv_def)
  ultimately show ?case using f by (simp add: upt_conv_Cons map_Suc_upt [symmetric] del: upt_Suc)
qed simp

text \<open>
  With the production settings, consecutive failures of an address, each at most five minutes after
  the previous one, get the waits 2s, 4s, 8s, ... capped at five minutes.
\<close>

theorem throttle_backoff_sequence:
  assumes "close_times authThrottleMax now ts"
  shows "fails (Some NewAuthThrottle) ip (now # ts) =
    map (\<lambda>k. min (authThrottleBase * 2 ^ k) authThrottleMax) [0..<Suc (length ts)]"
proof -
  let ?th = NewAuthThrottle
  have i: "throttle_inv ?th"
    by (simp add: throttle_inv_def NewAuthThrottle_def authThrottleBase_def authThrottleMax_def second_def)
  let ?a = "\<lparr>failures = 1, nextAllowed = now + wait_after ?th 1, attemptSeen = now\<rparr>"
  let ?th' = "?th\<lparr>attempts := [(ip, ?a)]\<rparr>"
  have f: "Fail (Some ?th) now ip = (Some ?th', wait_after ?th 1)"
    by (simp add: Fail_def prune_def Let_def NewAuthThrottle_def)
  have "throttle_inv ?th'" using Fail_inv [OF i, of now ip] f by auto
  then have "fails (Some ?th') ip ts = map (\<lambda>k. min (base ?th' * 2 ^ (1 + k)) (max_wait ?th')) [0..<length ts]"
    using fails_from [of ?th' ip ?a ts] assms by (simp add: NewAuthThrottle_def)
  moreover have "wait_after ?th 1 = min (authThrottleBase * 2 ^ 0) authThrottleMax"
    using i by (simp add: wait_after_eq throttle_inv_def) (simp add: NewAuthThrottle_def)
  ultimately show ?thesis using f
    by (simp add: upt_conv_Cons map_Suc_upt [symmetric] NewAuthThrottle_def del: upt_Suc)
qed

lemma Reset_blocked [simp]: "Blocked (Reset t ip) now ip = 0"
  by (cases t) (auto simp: Blocked_def Reset_def map_of_mdel)

section \<open>Sessions\<close>

lemma parse_show_int:
  assumes "0 \<le> n" "n < 2 ^ 63" shows "parse_int64 (show_int n) = Some n"
proof -
  have d: "list_all is_digit (show_nat (nat n))" using show_nat_digits by (auto simp: list_all_iff)
  obtain c cs where c: "show_nat (nat n) = c # cs" by (cases "show_nat (nat n)") auto
  then have "c \<noteq> CHR ''-''" "c \<noteq> CHR ''+''" using d by (auto simp: is_digit_def less_eq_char_def)
  then show ?thesis using assms c d nat_of_digits_show_nat [of "nat n"]
    by (simp add: parse_int64_def show_int_def)
qed

lemma dot_not_show_int: "CHR ''.'' \<notin> set (show_int n)"
proof -
  have "\<not> is_digit (CHR ''.'')" by (simp add: is_digit_def less_eq_char_def)
  then have "CHR ''.'' \<notin> set (show_nat k)" for k using show_nat_digits by blast
  then show ?thesis by (simp add: show_int_def)
qed

text \<open>
  A session value issued at a time verifies with the same token at a time t exactly when the token is
  not empty and t is at most twelve hours after it was issued (the nonce and the MAC text have no dot,
  as hex text has none).
\<close>

theorem session_verifies_until_expiry:
  assumes "CHR ''.'' \<notin> set nonce" "\<And>t p. CHR ''.'' \<notin> set (mac t p)"
    and "0 \<le> now" "now + AdminSessionTTL < 2 ^ 63"
  shows "VerifyAdminSession mac token t (IssueAdminSession mac token now nonce) \<longleftrightarrow>
    token \<noteq> [] \<and> t \<le> now + AdminSessionTTL"
proof -
  let ?e = "now + AdminSessionTTL"
  have p: "parse_int64 (show_int ?e) = Some ?e" using assms(3,4) by (intro parse_show_int) (simp_all add: AdminSessionTTL_def)
  have "split_on (CHR ''.'') (IssueAdminSession mac token now nonce) =
      [nonce, show_int ?e, mac token (session_payload nonce ?e)]"
    using assms(1,2) dot_not_show_int by (simp add: IssueAdminSession_def session_payload_def Let_def split_on_append split_on_single)
  then show ?thesis using p by (auto simp: VerifyAdminSession_def session_payload_def)
qed

lemma split_on_join: "join [c] (split_on c s) = s"
proof (induction s)
  case (Cons a s)
  obtain w ws where w: "split_on c s = w # ws" by (cases "split_on c s") auto
  then show ?case using Cons by (cases ws) auto
qed simp

text \<open>
  Every value that VerifyAdminSession accepts has the form nonce.expiry.mac with the MAC of its own
  nonce and expiry under the token, and has not expired; an empty token accepts nothing.
\<close>

theorem session_accepts_only_signed:
  assumes "VerifyAdminSession mac token t v"
  shows "token \<noteq> [] \<and> (\<exists>nonce e expiry. v = nonce @ ''.'' @ e @ ''.'' @ mac token (nonce @ ''.'' @ e) \<and>
    parse_int64 e = Some expiry \<and> t \<le> expiry)"
proof -
  obtain p0 p1 p2 where s: "split_on (CHR ''.'') v = [p0, p1, p2]"
    using assms by (auto simp: VerifyAdminSession_def split: if_splits list.splits)
  then have v: "v = p0 @ ''.'' @ p1 @ ''.'' @ p2" using split_on_join [of "CHR ''.''" v] by simp
  obtain e where "token \<noteq> []" "parse_int64 p1 = Some e" "t \<le> e" "p2 = mac token (p0 @ ''.'' @ p1)"
    using assms s by (auto simp: VerifyAdminSession_def split: if_splits option.splits)
  then show ?thesis using v by blast
qed

section \<open>The gates\<close>

text \<open>
  With an admin token or a key store configured, ApiAuthDB lets a request through exactly when its key
  is the admin token, or the store verifies its key, or the store was not asked or refused it and the
  session cookie verifies; a use is recorded only for the request's own key, only when it passes, and
  never for the admin token.
\<close>

theorem api_auth_decision:
  assumes "adminToken \<noteq> [] \<or> checker \<noteq> None" "key = header_key ''X-API-Key'' r"
  shows "(fst (ApiAuthDB mac adminToken checker now r) = Pass \<longleftrightarrow>
      (adminToken \<noteq> [] \<and> key = adminToken) \<or>
      (\<exists>verify. checker = Some verify \<and> key \<noteq> [] \<and> verify key = Verified True) \<or>
      ((\<forall>verify. checker = Some verify \<longrightarrow> key = [] \<or> verify key = Verified False) \<and>
       session_cookie_ok mac adminToken now r)) \<and>
    (snd (ApiAuthDB mac adminToken checker now r) \<noteq> [] \<longrightarrow>
      snd (ApiAuthDB mac adminToken checker now r) = [key] \<and>
      fst (ApiAuthDB mac adminToken checker now r) = Pass \<and> key \<noteq> adminToken)"
  using assms by (auto simp: ApiAuthDB_def Let_def split: option.splits verify_result.splits if_splits)

text \<open>
  Without an admin token only a key that the store verifies opens the gate: no session cookie does.
\<close>

theorem api_auth_without_admin_token:
  assumes "fst (ApiAuthDB mac [] (Some verify) now r) = Pass"
  shows "header_key ''X-API-Key'' r \<noteq> [] \<and> verify (header_key ''X-API-Key'' r) = Verified True"
  using assms
  by (auto simp: ApiAuthDB_def Let_def session_cookie_ok_def VerifyAdminSession_def
      split: option.splits verify_result.splits if_splits)

lemma retry_secs_bounds: "0 < wait \<Longrightarrow> wait \<le> retry_secs wait * second \<and> retry_secs wait * second < wait + second \<and> 0 < retry_secs wait"
proof -
  assume w: "0 < wait"
  have s: "0 < second" by (simp add: second_def)
  define x where "x = wait + second - 1"
  have x: "x = x div second * second + x mod second" "0 \<le> x mod second" "x mod second < second" using s by simp_all
  then have "wait \<le> x div second * second" "x div second * second < wait + second" unfolding x_def by linarith+
  moreover from this(1) w s have "0 < x div second" by (metis less_le_trans zero_less_mult_pos2)
  ultimately show ?thesis by (simp add: retry_secs_def x_def)
qed

lemma AdminAuth_cases:
  "AdminAuth mac esc tok now un ip r t =
    (if 0 < Blocked t now ip then (RetryAfter (retry_secs (Blocked t now ip)), t)
     else if admin_credential_ok mac tok un r then (Pass, Reset t ip)
     else (if header r ''HX-Request'' = ''true'' \<or> contains (header r ''Accept'') ''application/json''
           then Reply 401 ''unauthorized'' else Redirect (''/login?next='' @ esc (urlPath r)),
           if credential_presented r then fst (Fail t now ip) else t))"
  by (auto simp: AdminAuth_def Let_def admin_credential_ok_def credential_presented_def)


section \<open>The rate limiter\<close>

lemma shardFor_less: "shardFor a < rateLimiterShards"
  by (simp add: shardFor_def rateLimiterShards_def)

lemma evict_facts:
  "wf_map m \<Longrightarrow> wf_map (evict v m)" "length m \<le> rateLimiterMaxPerShard \<Longrightarrow> length (evict v m) < rateLimiterMaxPerShard"
  "length m < rateLimiterMaxPerShard \<Longrightarrow> evict v m = m" "set (evict v m) \<subseteq> set m"
proof -
  show "wf_map m \<Longrightarrow> wf_map (evict v m)" by (auto simp: evict_def wf_map_def AList.delete_eq distinct_map_filter)
  show "length m < rateLimiterMaxPerShard \<Longrightarrow> evict v m = m" by (simp add: evict_def)
  show "set (evict v m) \<subseteq> set m" by (auto simp: evict_def AList.delete_eq)
  assume l: "length m \<le> rateLimiterMaxPerShard"
  show "length (evict v m) < rateLimiterMaxPerShard"
  proof (cases "rateLimiterMaxPerShard \<le> length m")
    case True
    then have m: "m \<noteq> []" by (auto simp: rateLimiterMaxPerShard_def)
    let ?x = "m ! (v mod length m)"
    have "?x \<in> set m" using m by simp
    then have "length (mdel (fst ?x) m) < length m"
      unfolding AList.delete_eq by (intro length_filter_less [of ?x]) auto
    then show ?thesis using l True m by (simp add: evict_def)
  qed (simp add: evict_def)
qed

lemma shard_allow_facts:
  assumes "wf_map m" "length m \<le> rateLimiterMaxPerShard"
  shows "wf_map (snd (shard_allow lim a t v m))" "length (snd (shard_allow lim a t v m)) \<le> rateLimiterMaxPerShard"
proof -
  have w: "wf_map (mput a x n)" if "wf_map n" for x and n :: "(string, visitor) gomap"
    using that by (simp add: wf_map_def distinct_update)
  show "wf_map (snd (shard_allow lim a t v m))"
    using assms w evict_facts(1) by (auto simp: shard_allow_def split: option.splits)
  have "length (mput a x (evict v m)) \<le> rateLimiterMaxPerShard" for x
    using evict_facts(2) [OF assms(2), of v] length_mput_le [of a x "evict v m"] by simp
  moreover have "length (mput a x m) = length m" if "map_of m a = Some y" for x y
    using that by (metis domI dom_map_of_conv_image_fst length_mput)
  ultimately show "length (snd (shard_allow lim a t v m)) \<le> rateLimiterMaxPerShard"
    using assms(2) by (auto simp: shard_allow_def split: option.splits)
qed

lemma rl_step_inv: "rl_inv rl \<Longrightarrow> rl_inv (snd (rl_step e rl)) \<and> limit (snd (rl_step e rl)) = limit rl"
proof (cases e)
  case (Req a t v)
  assume i: "rl_inv rl"
  then have "shards rl ! shardFor a \<in> set (shards rl)" using shardFor_less by (simp add: rl_inv_def)
  then have "wf_map (snd (shard_allow (limit rl) a t v (shards rl ! shardFor a)))"
    "length (snd (shard_allow (limit rl) a t v (shards rl ! shardFor a))) \<le> rateLimiterMaxPerShard"
    using shard_allow_facts i by (auto simp: rl_inv_def)
  then show ?thesis using i Req by (auto simp: allow_def Let_def case_prod_unfold rl_inv_def dest!: set_update_subset_insert [THEN subsetD])
next
  case (Cleanup t)
  assume "rl_inv rl"
  then show ?thesis using Cleanup
    by (auto simp: cleanup_def rl_inv_def wf_map_def distinct_map_filter intro: le_trans [OF length_filter_le])
qed

text \<open>
  After any run of requests and clean-ups every shard has distinct addresses and at most 4096 of them,
  so the limiter never holds more than 32*4096 entries.
\<close>

theorem rate_limiter_bounded:
  "rl_inv (snd (fold (\<lambda>e (ok, rl). rl_step e rl) es (True, NewRateLimiter n))) \<and>
   sum_list (map length (shards (snd (fold (\<lambda>e (ok, rl). rl_step e rl) es (True, NewRateLimiter n))))) \<le> 32 * 4096"
proof -
  have i: "rl_inv (NewRateLimiter n)" by (simp add: rl_inv_def NewRateLimiter_def wf_map_def)
  have inv: "rl_inv rl \<Longrightarrow> rl_inv (snd (fold (\<lambda>e (ok, rl). rl_step e rl) es (b, rl)))" for rl b
  proof (induction es arbitrary: rl b)
    case (Cons e es)
    then show ?case using rl_step_inv [of rl e] by (cases "rl_step e rl") auto
  qed simp
  have "sum_list (map length (shards rl)) \<le> 32 * 4096" if "rl_inv rl" for rl
  proof -
    have "sum_list (map length (shards rl)) \<le> sum_list (map (\<lambda>_. 4096) (shards rl))"
      using that by (intro sum_list_mono) (simp add: rl_inv_def rateLimiterMaxPerShard_def)
    then show ?thesis using that by (simp add: sum_list_triv rl_inv_def rateLimiterShards_def)
  qed
  then show ?thesis using inv [OF i] by blast
qed

lemma window_snoc:
  assumes "window_ok lim A" "A = old @ cur" "int (length cur) < max 1 lim" "\<forall>y \<in> set old. y + minute < x"
  shows "window_ok lim (A @ [x])"
  unfolding window_ok_def
proof
  fix t
  show "int (length (in_window t (A @ [x]))) \<le> max 1 lim"
  proof (cases "t \<le> x \<and> x \<le> t + minute")
    case True
    then have "in_window t old = []" using assms(4) by (auto simp: in_window_def filter_empty_conv)
    then have "length (in_window t (A @ [x])) = Suc (length (in_window t cur))"
      using True assms(2) by (simp add: in_window_def)
    moreover have "length (in_window t cur) \<le> length cur" by (simp add: in_window_def)
    ultimately show ?thesis using assms(3) by linarith
  next
    case False
    then show ?thesis using assms(1) by (auto simp: in_window_def window_ok_def)
  qed
qed

lemma shard_allow_no_evict:
  assumes "length m < rateLimiterMaxPerShard"
  shows "map_of (snd (shard_allow lim a t v m)) b = (if b = a then map_of (snd (shard_allow lim a t v m)) a else map_of m b)"
  using assms by (auto simp: shard_allow_def evict_facts(3) map_of_mput split: option.splits)

lemma minute_pos: "0 < minute"
  by (simp add: minute_def second_def)

lemma tracks_fresh:
  assumes "\<forall>x \<in> set A. x + minute < t"
  shows "visitor_tracks lim (Some \<lparr>visits = 1, lastSeen = t\<rparr>) (A @ [t]) t"
proof -
  have "\<exists>old cur. A @ [t] = old @ cur \<and> int (length cur) = 1 \<and> (\<forall>y \<in> set old. \<forall>z \<in> set cur. y + minute < z) \<and> cur \<noteq> []"
    using assms by (intro exI [of _ A] exI [of _ "[t]"]) simp
  moreover have "\<forall>x \<in> set (A @ [t]). x \<le> t" using assms minute_pos by fastforce
  ultimately show ?thesis by (simp add: visitor_tracks_def)
qed

lemma visitor_step:
  assumes tr: "visitor_tracks lim (map_of m a) A T" and T: "T \<le> t" and ok: "window_ok lim A"
  shows "let r = shard_allow lim a t v m; B = A @ (if fst r then [t] else [])
    in visitor_tracks lim (map_of (snd r) a) B t \<and> window_ok lim B"
proof (cases "map_of m a")
  case None
  then have "\<forall>x \<in> set A. x + minute < t" using tr T by (auto simp: visitor_tracks_def)
  then have "window_ok lim (A @ [t])" using window_snoc [OF ok, of A "[]" t] by simp
  then show ?thesis using None tracks_fresh \<open>\<forall>x \<in> set A. x + minute < t\<close>
    by (simp add: shard_allow_def Let_def map_of_mput)
next
  case (Some w)
  then obtain old cur where o: "A = old @ cur" "int (length cur) = visits w" "\<forall>y \<in> set old. \<forall>z \<in> set cur. y + minute < z" "cur \<noteq> []"
    and b: "visits w \<le> max 1 lim" "\<forall>x \<in> set A. x \<le> lastSeen w" "\<forall>x \<in> set A. x \<le> T"
    using tr by (auto simp: visitor_tracks_def)
  consider (reset) "minute < t - lastSeen w" | (full) "\<not> minute < t - lastSeen w" "lim \<le> visits w"
    | (more) "\<not> minute < t - lastSeen w" "visits w < lim" by linarith
  then show ?thesis
  proof cases
    case reset
    then have "\<forall>x \<in> set A. x + minute < t" using b(2) by fastforce
    then show ?thesis using Some reset tracks_fresh window_snoc [OF ok, of A "[]" t]
      by (simp add: shard_allow_def Let_def map_of_mput)
  next
    case full
    have "\<forall>x \<in> set A. x \<le> t" using b(3) T by fastforce
    then show ?thesis using Some full tr ok by (simp add: shard_allow_def Let_def visitor_tracks_def)
  next
    case more
    have c: "\<forall>y \<in> set old. y + minute < t"
    proof
      fix y assume "y \<in> set old"
      then show "y + minute < t" using o(1,3,4) b(3) T by (cases cur) fastforce+
    qed
    have "\<exists>old' cur'. A @ [t] = old' @ cur' \<and> int (length cur') = visits w + 1 \<and>
        (\<forall>y \<in> set old'. \<forall>z \<in> set cur'. y + minute < z) \<and> cur' \<noteq> []"
      using o c by (intro exI [of _ old] exI [of _ "cur @ [t]"]) auto
    then have "visitor_tracks lim (Some \<lparr>visits = visits w + 1, lastSeen = t\<rparr>) (A @ [t]) t"
      using b T more by (auto simp: visitor_tracks_def)
    then show ?thesis using Some more o(2) window_snoc [OF ok o(1) _ c] by (simp add: shard_allow_def Let_def map_of_mput)
  qed
qed

lemma rl_lookup_step:
  assumes i: "rl_inv rl" and room: "\<forall>m \<in> set (shards rl). a \<notin> fst ` set m \<longrightarrow> length m < rateLimiterMaxPerShard"
    and e: "e = Req a t v" and b: "b \<noteq> a"
  shows "rl_lookup (snd (rl_step e rl)) b = rl_lookup rl b"
proof (cases "shardFor b = shardFor a")
  case True
  let ?m = "shards rl ! shardFor a"
  have m: "?m \<in> set (shards rl)" "shardFor a < length (shards rl)" using i shardFor_less by (simp_all add: rl_inv_def)
  have "map_of (snd (shard_allow (limit rl) a t v ?m)) b = map_of ?m b"
  proof (cases "a \<in> fst ` set ?m")
    case True
    then obtain w where "map_of ?m a = Some w" by (meson map_of_eq_None_iff not_None_eq)
    then show ?thesis using b by (simp add: shard_allow_def map_of_mput)
  next
    case False
    then show ?thesis using shard_allow_no_evict [of ?m "limit rl" a t v b] room m(1) b by auto
  qed
  then show ?thesis using True e m(2) by (simp add: rl_lookup_def allow_def Let_def case_prod_unfold)
qed (use e in \<open>simp add: rl_lookup_def allow_def Let_def case_prod_unfold\<close>)

lemma rl_lookup_own:
  assumes "rl_inv rl"
  shows "rl_lookup (snd (rl_step (Req a t v) rl)) a = map_of (snd (shard_allow (limit rl) a t v (shards rl ! shardFor a))) a"
    "fst (rl_step (Req a t v) rl) = fst (shard_allow (limit rl) a t v (shards rl ! shardFor a))"
  using assms shardFor_less [of a] by (simp_all add: rl_lookup_def allow_def Let_def case_prod_unfold rl_inv_def)

lemma rl_lookup_cleanup:
  assumes "rl_inv rl"
  shows "rl_lookup (cleanup t rl) a =
    (case rl_lookup rl a of Some v \<Rightarrow> if 2 * minute < t - lastSeen v then None else Some v | None \<Rightarrow> None)"
proof -
  have "wf_map (shards rl ! shardFor a)" "shardFor a < length (shards rl)"
    using assms shardFor_less [of a] by (auto simp: rl_inv_def)
  then show ?thesis by (auto simp: rl_lookup_def cleanup_def map_of_filter_wf split: option.splits)
qed

lemma tracks_later: "visitor_tracks lim vo A T \<Longrightarrow> T \<le> t \<Longrightarrow> visitor_tracks lim vo A t"
  by (fastforce simp: visitor_tracks_def split: option.splits)

lemma rl_keys_step: "rl_inv rl \<Longrightarrow> rl_keys rl \<subseteq> S \<Longrightarrow> (\<And>a t v. e = Req a t v \<Longrightarrow> a \<in> S) \<Longrightarrow> rl_keys (snd (rl_step e rl)) \<subseteq> S"
proof (cases e)
  case (Req a t v)
  assume i: "rl_inv rl" and k: "rl_keys rl \<subseteq> S" and a: "\<And>a t v. e = Req a t v \<Longrightarrow> a \<in> S"
  let ?m = "shards rl ! shardFor a"
  have "?m \<in> set (shards rl)" using i shardFor_less by (simp add: rl_inv_def)
  then have "fst ` set ?m \<subseteq> S" using k by (auto simp: rl_keys_def)
  then have n: "fst ` set (snd (shard_allow (limit rl) a t v ?m)) \<subseteq> insert a S"
    using evict_facts(4) [of v ?m]
    by (auto simp: shard_allow_def dest!: set_mput_subset [THEN subsetD] split: option.splits)
  have "fst ` set m' \<subseteq> S" if "m' \<in> set ((shards rl)[shardFor a := snd (shard_allow (limit rl) a t v ?m)])" for m'
  proof -
    have "m' = snd (shard_allow (limit rl) a t v ?m) \<or> m' \<in> set (shards rl)"
      using set_update_subset_insert [THEN subsetD, OF that] by simp
    then show ?thesis
    proof
      assume "m' \<in> set (shards rl)"
      then have "fst ` set m' \<subseteq> rl_keys rl" unfolding rl_keys_def by blast
      then show ?thesis using k by (rule order_trans)
    qed (use n a [OF Req] in auto)
  qed
  then show ?thesis using Req by (auto simp: allow_def Let_def case_prod_unfold rl_keys_def)
next
  case (Cleanup t)
  assume "rl_keys rl \<subseteq> S"
  then show ?thesis using Cleanup by (auto simp: cleanup_def rl_keys_def)
qed

lemma rl_room:
  assumes i: "rl_inv rl" and k: "rl_keys rl \<subseteq> S" "finite S" "card S \<le> rateLimiterMaxPerShard" and a: "a \<in> S"
    and m: "m \<in> set (shards rl)" "a \<notin> fst ` set m"
  shows "length m < rateLimiterMaxPerShard"
proof -
  have "fst ` set m \<subseteq> S - {a}" using k(1) m unfolding rl_keys_def by blast
  then have "card (fst ` set m) \<le> card (S - {a})" using k(2) by (intro card_mono) auto
  moreover have "card (fst ` set m) = length m"
    using i m(1) by (simp add: rl_inv_def wf_map_def) (metis distinct_card length_map set_map)
  ultimately show ?thesis using k(2,3) a by (metis card_Diff1_less le_less_trans less_le_trans)
qed

lemma tracks_cleanup:
  assumes "rl_inv rl" "visitor_tracks lim (rl_lookup rl a) A T" "T \<le> t"
  shows "visitor_tracks lim (rl_lookup (cleanup t rl) a) A t"
proof (cases "\<exists>w. rl_lookup rl a = Some w \<and> 2 * minute < t - lastSeen w")
  case True
  then obtain w where w: "rl_lookup rl a = Some w" "2 * minute < t - lastSeen w" by blast
  then have "\<forall>x \<in> set A. x \<le> lastSeen w" using assms(2) by (auto simp: visitor_tracks_def)
  then have "\<forall>x \<in> set A. x + minute < t \<and> x \<le> t" using w(2) minute_pos by fastforce
  then show ?thesis using w rl_lookup_cleanup [OF assms(1), of t a] by (simp add: visitor_tracks_def)
next
  case False
  then have "rl_lookup (cleanup t rl) a = rl_lookup rl a"
    using rl_lookup_cleanup [OF assms(1), of t a] by (auto split: option.splits)
  then show ?thesis using tracks_later [OF assms(2,3)] by simp
qed

lemma allowed_window:
  assumes "rl_inv rl" "rl_keys rl \<subseteq> S" "finite S" "card S \<le> rateLimiterMaxPerShard" "\<forall>e \<in> set es. ev_addr e \<subseteq> S"
    and "times_from T es" "visitor_tracks (limit rl) (rl_lookup rl a) A T" "window_ok (limit rl) A"
  shows "window_ok (limit rl) (A @ allowed_at a es rl)"
  using assms
proof (induction es arbitrary: rl A T)
  case (Cons e es)
  let ?rl = "snd (rl_step e rl)" let ?B = "A @ (if is_req a e \<and> fst (rl_step e rl) then [ev_time e] else [])"
  have T: "T \<le> ev_time e" and es: "times_from (ev_time e) es" using Cons.prems(6) by auto
  have s: "rl_inv ?rl" "limit ?rl = limit rl" using rl_step_inv [OF Cons.prems(1)] by auto
  have k: "rl_keys ?rl \<subseteq> S" using Cons.prems(5) by (intro rl_keys_step [OF Cons.prems(1,2)]) auto
  have "visitor_tracks (limit rl) (rl_lookup ?rl a) ?B (ev_time e) \<and> window_ok (limit rl) ?B"
  proof (cases e)
    case (Cleanup t)
    then have "visitor_tracks (limit rl) (rl_lookup ?rl a) A t"
      using tracks_cleanup [OF Cons.prems(1,7)] T by simp
    then show ?thesis using Cleanup Cons.prems(8) by simp
  next
    case (Req b t v)
    show ?thesis
    proof (cases "a = b")
      case True
      have "visitor_tracks (limit rl) (map_of (shards rl ! shardFor a) a) A T" using Cons.prems(7) by (simp add: rl_lookup_def)
      from visitor_step [OF this _ Cons.prems(8), of t v] show ?thesis
        using True Req T rl_lookup_own [OF Cons.prems(1), of a t v] by (auto simp: Let_def split: if_splits)
    next
      case False
      have "\<forall>m \<in> set (shards rl). b \<notin> fst ` set m \<longrightarrow> length m < rateLimiterMaxPerShard"
        using rl_room [OF Cons.prems(1-4)] Cons.prems(5) Req by auto
      then have "rl_lookup ?rl a = rl_lookup rl a" using rl_lookup_step [OF Cons.prems(1) _ Req] False by blast
      then show ?thesis using False Req T Cons.prems(7,8) tracks_later by simp
    qed
  qed
  then have B: "visitor_tracks (limit ?rl) (rl_lookup ?rl a) ?B (ev_time e)" "window_ok (limit ?rl) ?B"
    unfolding s(2) by blast+
  have "window_ok (limit ?rl) (?B @ allowed_at a es ?rl)"
    using Cons.prems(5) by (intro Cons.IH [OF s(1) k Cons.prems(3,4) _ es B]) simp
  then show ?case by (simp only: s(2) allowed_at.simps append_assoc)
qed simp

text \<open>
  C23:
  With at most 4096 addresses, in any run with a monotone clock, no address gets more than max(1,
  limit) requests through in any window of one minute.
\<close>

theorem rate_limiter_window:
  assumes "card (\<Union>e \<in> set es. ev_addr e) \<le> rateLimiterMaxPerShard" "times_from T es"
  shows "int (length (in_window t (allowed_at a es (NewRateLimiter n)))) \<le> max 1 n"
proof -
  let ?S = "\<Union>e \<in> set es. ev_addr e" let ?rl = "NewRateLimiter n"
  have "finite (ev_addr e)" for e by (cases e) auto
  then have f: "finite ?S" by simp
  have i: "rl_inv ?rl" "rl_keys ?rl \<subseteq> ?S" "limit ?rl = n"
    by (auto simp: rl_inv_def NewRateLimiter_def wf_map_def rl_keys_def)
  have "rl_lookup ?rl a = None" using shardFor_less [of a] by (simp add: rl_lookup_def NewRateLimiter_def)
  then have "visitor_tracks (limit ?rl) (rl_lookup ?rl a) [] T" "window_ok (limit ?rl) []"
    by (simp_all add: visitor_tracks_def window_ok_def in_window_def)
  from allowed_window [OF i(1,2) f assms(1) _ assms(2) this] show ?thesis using i(3) by (auto simp: window_ok_def)
qed

lemma steady_run:
  assumes "rl_inv rl" "rl_lookup rl a = Some \<lparr>visits = c, lastSeen = t\<rparr>" "close_times minute t ts"
    and "c \<le> limit rl" "int (length ts) \<le> limit rl - c + 1"
  shows "allowed_at a (map (\<lambda>t. Req a t 0) ts) rl = take (nat (limit rl - c)) ts"
  using assms
proof (induction ts arbitrary: rl c t)
  case (Cons u us)
  let ?rl = "snd (rl_step (Req a u 0) rl)"
  have g: "\<not> minute < u - t" using Cons.prems(3) by simp
  have m: "map_of (shards rl ! shardFor a) a = Some \<lparr>visits = c, lastSeen = t\<rparr>" using Cons.prems(2) by (simp add: rl_lookup_def)
  have s: "rl_inv ?rl" "limit ?rl = limit rl" using rl_step_inv [OF Cons.prems(1), of "Req a u 0"] by auto
  note own = rl_lookup_own [OF Cons.prems(1), of a u 0]
  show ?case
  proof (cases "c < limit rl")
    case True
    then have "fst (rl_step (Req a u 0) rl)" "rl_lookup ?rl a = Some \<lparr>visits = c + 1, lastSeen = u\<rparr>"
      using own m g by (simp_all add: shard_allow_def map_of_mput)
    then have "allowed_at a (map (\<lambda>t. Req a t 0) us) ?rl = take (nat (limit rl - (c + 1))) us"
      using Cons.IH [of ?rl "c + 1" u] s Cons.prems True by simp
    moreover have "nat (limit rl - c) = Suc (nat (limit rl - (c + 1)))" using True by simp
    ultimately show ?thesis using \<open>fst (rl_step (Req a u 0) rl)\<close> by simp
  next
    case False
    then have "us = []" "\<not> fst (rl_step (Req a u 0) rl)" using Cons.prems(4,5) own m g by (simp_all add: shard_allow_def)
    then show ?thesis using False by simp
  qed
qed simp

text \<open>
  The count of an address restarts only after a pause of more than a minute: a client whose requests
  are each at most a minute after the previous one is rejected at its (limit+1)-th request, however
  slow it is, e.g. one request every 59 seconds.
\<close>

theorem rate_limiter_rejects_slow_client:
  assumes "1 \<le> n" "close_times minute t ts" "int (length ts) = n"
  shows "allowed_at a (map (\<lambda>t. Req a t 0) (t # ts)) (NewRateLimiter n) = t # take (nat n - 1) ts"
proof -
  let ?rl = "NewRateLimiter n" let ?rl' = "snd (rl_step (Req a t 0) ?rl)"
  have i: "rl_inv ?rl" by (simp add: rl_inv_def NewRateLimiter_def wf_map_def)
  have m: "map_of (shards ?rl ! shardFor a) a = None" using shardFor_less [of a] by (simp add: NewRateLimiter_def)
  then have "fst (rl_step (Req a t 0) ?rl)" "rl_lookup ?rl' a = Some \<lparr>visits = 1, lastSeen = t\<rparr>"
    using rl_lookup_own [OF i, of a t 0] by (simp_all add: shard_allow_def map_of_mput)
  moreover have "rl_inv ?rl'" "limit ?rl' = n" using rl_step_inv [OF i, of "Req a t 0"] by (auto simp: NewRateLimiter_def)
  ultimately show ?thesis using steady_run [of ?rl' a 1 t ts] assms by (simp add: nat_diff_distrib)
qed

section \<open>The properties at concrete inputs\<close>

lemma new_throttle_inv: "throttle_inv NewAuthThrottle"
  by (simp add: throttle_inv_def NewAuthThrottle_def authThrottleBase_def authThrottleMax_def second_def)

lemma new_throttle_room: "\<not> overflows NewAuthThrottle t"
  by (simp add: overflows_def prune_def NewAuthThrottle_def)

theorem fail_wait_doubles_witness:
  "\<exists>th' d. Fail (Some NewAuthThrottle) 5 ''1.2.3.4'' = (Some th', d) \<and> d = authThrottleBase"
proof -
  have "live_failures NewAuthThrottle 5 ''1.2.3.4'' = 0" by (simp add: live_failures_def NewAuthThrottle_def)
  with fail_wait_doubles [OF new_throttle_inv new_throttle_room, of 5 "''1.2.3.4''"] show ?thesis
    by (auto simp: NewAuthThrottle_def authThrottleBase_def authThrottleMax_def second_def)
qed

theorem fail_keeps_other_waits_witness:
  "Blocked (fst (Fail (Some NewAuthThrottle) 5 ''1.2.3.4'')) 6 ''5.6.7.8'' = Blocked (Some NewAuthThrottle) 6 ''5.6.7.8''"
  by (rule fail_keeps_other_waits [OF new_throttle_inv new_throttle_room]) simp_all

theorem throttle_backoff_sequence_witness:
  "fails (Some NewAuthThrottle) ''1.2.3.4'' [0, second, 2 * second] = [2 * second, 4 * second, 8 * second]"
  using throttle_backoff_sequence [of 0 "[second, 2 * second]" "''1.2.3.4''"]
  by (simp add: authThrottleBase_def authThrottleMax_def second_def upt_rec)

theorem session_verifies_until_expiry_witness:
  "VerifyAdminSession demo_mac ''secret'' 10 (IssueAdminSession demo_mac ''secret'' 5 ''ab'') \<and>
   \<not> VerifyAdminSession demo_mac ''secret'' 43206 (IssueAdminSession demo_mac ''secret'' 5 ''ab'')"
proof -
  have n: "CHR ''.'' \<notin> set (demo_mac t p)" for t p by (simp add: demo_mac_def)
  show ?thesis using session_verifies_until_expiry [of "''ab''" demo_mac 5 "''secret''" 10]
      session_verifies_until_expiry [of "''ab''" demo_mac 5 "''secret''" 43206] n by (simp add: AdminSessionTTL_def)
qed

theorem session_accepts_only_signed_witness:
  "\<exists>nonce e. IssueAdminSession demo_mac ''k'' 5 ''ab'' = nonce @ ''.'' @ e @ ''.'' @ demo_mac ''k'' (nonce @ ''.'' @ e)"
proof -
  have n: "CHR ''.'' \<notin> set (demo_mac t p)" for t p by (simp add: demo_mac_def)
  have "VerifyAdminSession demo_mac ''k'' 10 (IssueAdminSession demo_mac ''k'' 5 ''ab'')"
    using n by (subst session_verifies_until_expiry) (simp_all add: AdminSessionTTL_def)
  from session_accepts_only_signed [OF this] show ?thesis by blast
qed

theorem api_auth_decision_witness:
  "fst (ApiAuthDB demo_mac [] (Some (\<lambda>k. Verified (k = ''key''))) 0 demo_request) = Pass"
  using api_auth_decision [of "[]" "Some (\<lambda>k. Verified (k = ''key''))" _ demo_request demo_mac 0, OF _ refl]
  by (simp add: header_key_def bearer_def demo_request_def)

theorem api_auth_without_admin_token_witness:
  "header_key ''X-API-Key'' demo_request \<noteq> []"
proof -
  have "fst (ApiAuthDB demo_mac [] (Some (\<lambda>k. Verified (k = ''key''))) 0 demo_request) = Pass" by code_simp
  from api_auth_without_admin_token [OF this] show ?thesis by simp
qed


theorem rate_limiter_window_witness:
  "int (length (in_window 0 (allowed_at ''a'' [Req ''a'' 0 0, Req ''b'' 1 0, Req ''a'' 2 0] (NewRateLimiter 1)))) \<le> 1"
proof -
  let ?es = "[Req ''a'' 0 0, Req ''b'' 1 0, Req ''a'' 2 0]"
  have "card (\<Union>e \<in> set ?es. ev_addr e) \<le> rateLimiterMaxPerShard" "times_from 0 ?es"
    by (simp_all add: rateLimiterMaxPerShard_def insert_commute card_insert_if)
  from rate_limiter_window [OF this, of 0 "''a''" 1] show ?thesis by simp
qed

theorem rate_limiter_rejects_slow_client_witness:
  "allowed_at ''a'' (map (\<lambda>t. Req ''a'' t 0) [0, 59 * second, 118 * second]) (NewRateLimiter 2) = [0, 59 * second]"
  using rate_limiter_rejects_slow_client [of 2 0 "[59 * second, 118 * second]" "''a''"]
  by (simp add: minute_def second_def)

end
