(* ===== verification/Database.thy ===== *)
theory Database
  imports Prelude "HOL-Library.Product_Lexorder"
begin

text \<open>
  The interface to the database that internal/infrastructure/registry works through. GORM and SQLite
  are not part of the repository: the operations on one table are the fields of a record, an argument
  of every store operation, and what GORM documents about them is the locale \<open>gorm_laws\<close>. A table is
  the list of its rows. \<open>rows_table\<close> is a concrete table with these operations; it shows that the laws
  can hold.
\<close>

section \<open>Errors (models.go, store.go)\<close>

text \<open>
  An error value is the list of the sentinel errors that errors.Is finds in it; the empty list is an
  error that wraps none of them.
\<close>

datatype sentinel = ErrInvalidArgument | ErrNotFound | ErrConflict | ErrStoreClosed | RecordNotFound | DuplicatedKey

type_synonym store_error = "sentinel list"

type_synonym 'a sres = "store_error + 'a"

definition wrapStoreError :: "'a sres \<Rightarrow> 'a sres" where
  "wrapStoreError r =
     (case r of
        Inr v \<Rightarrow> Inr v
      | Inl e \<Rightarrow>
          if ErrInvalidArgument \<in> set e \<or> ErrNotFound \<in> set e \<or> ErrConflict \<in> set e \<or> ErrStoreClosed \<in> set e then Inl e
          else if RecordNotFound \<in> set e then Inl [ErrNotFound]
          else if DuplicatedKey \<in> set e then Inl [ErrConflict]
          else Inl e)"

lemma wrapStoreError_Inr [simp]: "wrapStoreError r = Inr v \<longleftrightarrow> r = Inr v"
  by (auto simp: wrapStoreError_def split: sum.split)

section \<open>Tables\<close>

record 'r gorm_table =
  gCreate :: "'r \<Rightarrow> 'r list \<Rightarrow> ('r \<times> 'r list) sres"
  gSave :: "'r \<Rightarrow> 'r list \<Rightarrow> 'r list sres"
  gDelete :: "('r \<Rightarrow> bool) \<Rightarrow> 'r list \<Rightarrow> (nat \<times> 'r list) sres"
  gFirst :: "('r \<Rightarrow> bool) \<Rightarrow> 'r list \<Rightarrow> 'r sres"
  gFind :: "('r \<Rightarrow> bool) \<Rightarrow> 'r list \<Rightarrow> 'r list sres"
  gOrdered :: "('r \<Rightarrow> int \<times> string) \<Rightarrow> 'r list \<Rightarrow> 'r list sres"
  gCount :: "('r \<Rightarrow> bool) \<Rightarrow> 'r list \<Rightarrow> nat sres"
  gUpdates :: "('r \<Rightarrow> bool) \<Rightarrow> ('r \<Rightarrow> 'r) \<Rightarrow> 'r list \<Rightarrow> (nat \<times> 'r list) sres"

text \<open>The primary key \<open>rid\<close> and the unique index \<open>rname\<close> of a table.\<close>

definition table_ok :: "('r \<Rightarrow> 'k) \<Rightarrow> ('r \<Rightarrow> 'n) \<Rightarrow> 'r list \<Rightarrow> bool" where
  "table_ok rid rname t = (distinct (map rid t) \<and> distinct (map rname t))"

definition update_rows :: "('r \<Rightarrow> bool) \<Rightarrow> ('r \<Rightarrow> 'r) \<Rightarrow> 'r list \<Rightarrow> 'r list" where
  "update_rows P f t = map (\<lambda>r. if P r then f r else r) t"

lemma set_update_rows: "set (update_rows P f t) = f ` {r \<in> set t. P r} \<union> {r \<in> set t. \<not> P r}"
  by (auto simp: update_rows_def)

lemma image_update_rows:
  assumes "\<And>r. g (f r) = g r"
  shows "g ` set (update_rows P f t) = g ` set t"
proof -
  have "(\<lambda>r. g (if P r then f r else r)) = g" using assms by auto
  then show ?thesis by (simp only: update_rows_def set_map image_image)
qed

text \<open>
  What GORM documents of a successful operation: Create stores the row with a fresh primary key and the
  column defaults (\<open>stored k r\<close>), Save replaces the row with the same key or inserts it, Delete and
  Updates touch the rows of their condition and report how many there were, the queries return rows of
  the table, and no operation leaves a table that violates its indexes. An operation may always fail;
  the error for a missing row is RecordNotFound.
\<close>

locale gorm_laws =
  fixes rid :: "'r \<Rightarrow> 'k" and rname :: "'r \<Rightarrow> string" and stored :: "'k \<Rightarrow> 'r \<Rightarrow> 'r" and T :: "'r gorm_table"
  assumes create: "table_ok rid rname t \<Longrightarrow> gCreate T r t = Inr (r', t') \<Longrightarrow>
      (\<exists>k. k \<notin> rid ` set t \<and> r' = stored k r \<and> rid r' = k) \<and> set t' = insert r' (set t) \<and> table_ok rid rname t'"
    and save: "table_ok rid rname t \<Longrightarrow> gSave T r t = Inr t' \<Longrightarrow>
      set t' = insert r {s \<in> set t. rid s \<noteq> rid r} \<and> table_ok rid rname t'"
    and delete: "table_ok rid rname t \<Longrightarrow> gDelete T P t = Inr (n, t') \<Longrightarrow>
      set t' = {s \<in> set t. \<not> P s} \<and> (n = 0 \<longleftrightarrow> (\<forall>s \<in> set t. \<not> P s)) \<and> table_ok rid rname t'"
    and first: "gFirst T P t = Inr r \<Longrightarrow> r \<in> set t \<and> P r"
    and first_missing: "gFirst T P t = Inl e \<Longrightarrow> RecordNotFound \<in> set e \<Longrightarrow> \<forall>r \<in> set t. \<not> P r"
    and find: "gFind T P t = Inr rs \<Longrightarrow> set rs = {r \<in> set t. P r}" and find_once: "distinct t \<Longrightarrow> gFind T P t = Inr rs \<Longrightarrow> distinct rs"
    and ordered: "gOrdered T key t = Inr rs \<Longrightarrow> set rs = set t \<and> sorted (map key rs)"
    and count: "gCount T P t = Inr n \<Longrightarrow> (n = 0 \<longleftrightarrow> (\<forall>r \<in> set t. \<not> P r))"
    and updates: "table_ok rid rname t \<Longrightarrow> gUpdates T P f t = Inr (n, t') \<Longrightarrow>
      set t' = set (update_rows P f t) \<and> (n = 0 \<longleftrightarrow> (\<forall>r \<in> set t. \<not> P r)) \<and> table_ok rid rname t'"
begin

lemma created_row: "table_ok rid rname t \<Longrightarrow> gCreate T r t = Inr (r', t') \<Longrightarrow> r' \<in> set t' \<and> r' \<notin> set t"
  using create by fastforce

lemma row_by_id: "table_ok rid rname t \<Longrightarrow> r \<in> set t \<Longrightarrow> s \<in> set t \<Longrightarrow> rid r = rid s \<Longrightarrow> r = s"
  by (auto simp: table_ok_def distinct_map dest: inj_onD)

lemma save_row:
  assumes "table_ok rid rname t" "c \<in> set t" "gSave T c' t = Inr t'" "rid c' = rid c"
  shows "set t' = insert c' (set t - {c}) \<and> table_ok rid rname t'"
proof -
  have "{s \<in> set t. rid s \<noteq> rid c'} = set t - {c}" using assms(2,4) row_by_id [OF assms(1)] by auto
  then show ?thesis using save [OF assms(1,3)] by simp
qed

lemma delete_row:
  assumes "table_ok rid rname t" "c \<in> set t" "gDelete T (\<lambda>s. rid s = rid c) t = Inr (n, t')"
  shows "set t' = set t - {c} \<and> table_ok rid rname t'"
proof -
  have "{s \<in> set t. rid s \<noteq> rid c} = set t - {c}" using assms(2) row_by_id [OF assms(1)] by auto
  then show ?thesis using delete [OF assms(1,3)] by simp
qed

lemma row_by_name: "table_ok rid rname t \<Longrightarrow> r \<in> set t \<Longrightarrow> s \<in> set t \<Longrightarrow> rname r = rname s \<Longrightarrow> r = s"
  by (auto simp: table_ok_def distinct_map dest: inj_onD)

end

section \<open>A concrete table\<close>

text \<open>Rows in insertion order; \<open>fresh\<close> picks the next key.\<close>

definition checked :: "('r \<Rightarrow> 'k) \<Rightarrow> ('r \<Rightarrow> string) \<Rightarrow> 'a \<Rightarrow> 'r list \<Rightarrow> ('a \<times> 'r list) sres" where
  "checked rid rname a t = (if table_ok rid rname t then Inr (a, t) else Inl [DuplicatedKey])"

definition rows_table :: "('r \<Rightarrow> 'k) \<Rightarrow> ('r \<Rightarrow> string) \<Rightarrow> ('k \<Rightarrow> 'r \<Rightarrow> 'r) \<Rightarrow> ('k list \<Rightarrow> 'k) \<Rightarrow> 'r gorm_table" where
  "rows_table rid rname stored fresh =
     \<lparr>gCreate = (\<lambda>r t. let r' = stored (fresh (map rid t)) r in checked rid rname r' (t @ [r'])),
      gSave = (\<lambda>r t. map_sum id snd (checked rid rname () (filter (\<lambda>s. rid s \<noteq> rid r) t @ [r]))),
      gDelete = (\<lambda>P t. Inr (length (filter P t), filter (\<lambda>r. \<not> P r) t)),
      gFirst = (\<lambda>P t. case filter P t of r # _ \<Rightarrow> Inr r | [] \<Rightarrow> Inl [RecordNotFound]),
      gFind = (\<lambda>P t. Inr (filter P t)),
      gOrdered = (\<lambda>key t. Inr (sort_key key t)),
      gCount = (\<lambda>P t. Inr (length (filter P t))),
      gUpdates = (\<lambda>P f t. checked rid rname (length (filter P t)) (update_rows P f t))\<rparr>"

definition next_id :: "nat list \<Rightarrow> nat" where
  "next_id ks = Suc (sum_list ks)"

lemma next_id_fresh: "next_id ks \<notin> set ks"
  using member_le_sum_list [of "next_id ks" ks] by (auto simp: next_id_def)

lemma table_ok_filter: "table_ok rid rname t \<Longrightarrow> table_ok rid rname (filter P t)"
  by (simp add: table_ok_def distinct_map_filter)

lemma checked_Inr: "checked rid rname a t = Inr (b, u) \<longleftrightarrow> b = a \<and> u = t \<and> table_ok rid rname t"
  by (auto simp: checked_def)

lemma rows_table_laws:
  assumes "\<And>ks. fresh ks \<notin> set ks" "\<And>k r. rid (stored k r) = k"
  shows "gorm_laws rid rname stored (rows_table rid rname stored fresh)"
proof
  fix t r r' t'
  assume "gCreate (rows_table rid rname stored fresh) r t = Inr (r', t')"
  then show "(\<exists>k. k \<notin> rid ` set t \<and> r' = stored k r \<and> rid r' = k) \<and> set t' = insert r' (set t) \<and> table_ok rid rname t'"
    using assms(1) [of "map rid t"] assms(2) by (auto simp: rows_table_def checked_Inr Let_def)
next
  fix t r t'
  assume "gSave (rows_table rid rname stored fresh) r t = Inr t'"
  then show "set t' = insert r {s \<in> set t. rid s \<noteq> rid r} \<and> table_ok rid rname t'"
    by (auto simp: rows_table_def checked_def split: if_splits)
next
  fix t P n t'
  assume "table_ok rid rname t" "gDelete (rows_table rid rname stored fresh) P t = Inr (n, t')"
  then show "set t' = {s \<in> set t. \<not> P s} \<and> (n = 0 \<longleftrightarrow> (\<forall>s \<in> set t. \<not> P s)) \<and> table_ok rid rname t'"
    by (auto simp: rows_table_def table_ok_filter filter_empty_conv)
next
  fix t P r
  assume "gFirst (rows_table rid rname stored fresh) P t = Inr r"
  then have "r \<in> set (filter P t)" by (auto simp: rows_table_def simp del: set_filter split: list.splits)
  then show "r \<in> set t \<and> P r" by simp
next
  fix t P e
  assume "gFirst (rows_table rid rname stored fresh) P t = Inl e"
  then show "\<forall>r \<in> set t. \<not> P r" by (auto simp: rows_table_def filter_empty_conv split: list.splits)
next
  fix t P f n t'
  assume "gUpdates (rows_table rid rname stored fresh) P f t = Inr (n, t')"
  then show "set t' = set (update_rows P f t) \<and> (n = 0 \<longleftrightarrow> (\<forall>r \<in> set t. \<not> P r)) \<and> table_ok rid rname t'"
    by (auto simp: rows_table_def checked_Inr filter_empty_conv)
qed (auto simp: rows_table_def filter_empty_conv)

end
