(* ===== verification/Registry_Models.thy ===== *)
theory Registry_Models
  imports Database
begin

text \<open>
  Rows of the provider registry and their validation (internal/infrastructure/registry/models.go,
  internal/validation/validation.go). The struct validator is a package outside the repository: the
  record \<open>validator\<close> holds its verdicts, \<open>validator_laws\<close> what the registered functions and the tags
  promise of a value it accepts.
\<close>

section \<open>Registered validation functions (validation.go)\<close>

definition resource_char :: "char \<Rightarrow> bool" where
  "resource_char c = ((CHR ''a'' \<le> c \<and> c \<le> CHR ''z'') \<or> is_digit c \<or> c = CHR ''-'')"

definition resource_name :: "string \<Rightarrow> bool" where
  "resource_name s = (1 \<le> length s \<and> length s \<le> 64 \<and> list_all resource_char s)"

definition proxy_mode :: "string \<Rightarrow> bool" where
  "proxy_mode s = (s = '''' \<or> s = ''direct'' \<or> s = ''pool'' \<or> s = ''global'')"

definition header_name_char :: "char \<Rightarrow> bool" where
  "header_name_char c = ((CHR ''a'' \<le> c \<and> c \<le> CHR ''z'') \<or> (CHR ''A'' \<le> c \<and> c \<le> CHR ''Z'') \<or> is_digit c \<or>
     c \<in> set [CHR ''!'', CHR ''#'', CHR ''$'', CHR ''%'', CHR ''&'', CHR 0x27, CHR ''*'', CHR ''+'', CHR ''-'',
       CHR ''.'', CHR ''^'', CHR ''_'', CHR 0x60, CHR ''|'', CHR ''~''])"

definition validHTTPHeaderName :: "string \<Rightarrow> bool" where
  "validHTTPHeaderName name = (name \<noteq> [] \<and> list_all header_name_char name)"

definition http_headers :: "(string, string) gomap \<Rightarrow> bool" where
  "http_headers hs = list_all (\<lambda>(n, v). validHTTPHeaderName n \<and> CHR 0x0D \<notin> set v \<and> CHR 0x0A \<notin> set v) hs"

section \<open>Rows (models.go)\<close>

record provider =
  pID :: nat
  pName :: string
  BaseURL :: string
  APIKeys :: "string list"
  Headers :: "(string, string) gomap"
  Models :: "string list option"
  RefreshSec :: int
  Priority :: int
  pEnabled :: bool
  ProxyMode :: string
  ProxyPoolID :: "nat option"

record combo_tier =
  tierProvider :: string
  tierModel :: string

record route_combo =
  cID :: nat
  cName :: string
  Tiers :: "combo_tier list"

record proxy_pool =
  lID :: nat
  lName :: string
  ProxyURL :: string
  NoProxy :: string
  StrictProxy :: bool
  lEnabled :: bool
  TestStatus :: string
  LastError :: string

record builtin_proxy =
  bName :: string
  bProxyMode :: string
  bProxyPoolID :: "nat option"

text \<open>The verdicts of the validator on a struct or a field with its rules.\<close>

record validator =
  vProvider :: "provider \<Rightarrow> bool"
  vPool :: "proxy_pool \<Rightarrow> bool"
  vName :: "string \<Rightarrow> bool"
  vMode :: "string \<Rightarrow> bool"
  vTiers :: "combo_tier list \<Rightarrow> bool"

definition ProxyModeGlobal :: string where "ProxyModeGlobal = ''''"
definition ProxyModeDirect :: string where "ProxyModeDirect = ''direct''"
definition ProxyModePool :: string where "ProxyModePool = ''pool''"

definition NormalizeProxyMode :: "string \<Rightarrow> string" where
  "NormalizeProxyMode mode =
     (let m = to_lower (trim_space mode)
      in if m = ProxyModeDirect then ProxyModeDirect else if m = ProxyModePool then ProxyModePool else ProxyModeGlobal)"

definition EffectiveProxyMode :: "provider \<Rightarrow> string" where
  "EffectiveProxyMode p = NormalizeProxyMode (ProxyMode p)"

definition provider_Validate :: "validator \<Rightarrow> provider \<Rightarrow> unit sres" where
  "provider_Validate V p =
     (if \<not> vProvider V p then Inl [ErrInvalidArgument]
      else if pEnabled p \<and> length (filter (\<lambda>k. trim_space k \<noteq> []) (APIKeys p)) = 0 then Inl [ErrInvalidArgument]
      else if NormalizeProxyMode (ProxyMode p) = ProxyModePool \<and> ProxyPoolID p = None then Inl [ErrInvalidArgument]
      else Inr ())"

definition KnownBuiltins :: "string list" where
  "KnownBuiltins = [''opencode'', ''kilo'', ''llm7'']"

definition IsBuiltin :: "string \<Rightarrow> bool" where
  "IsBuiltin name = (name \<in> set KnownBuiltins)"

definition validateResourceName :: "validator \<Rightarrow> string \<Rightarrow> unit sres" where
  "validateResourceName V name = (if vName V name then Inr () else Inl [ErrInvalidArgument])"

definition validateProxyMode :: "validator \<Rightarrow> string \<Rightarrow> unit sres" where
  "validateProxyMode V mode = (if vMode V mode then Inr () else Inl [ErrInvalidArgument])"

definition validTierProvider :: "validator \<Rightarrow> string \<Rightarrow> bool" where
  "validTierProvider V p =
     (IsBuiltin p \<or> (has_prefix p ''custom:'' \<and> validateResourceName V (trim_prefix p ''custom:'') = Inr ()))"

definition validateTiers :: "validator \<Rightarrow> combo_tier list \<Rightarrow> unit sres" where
  "validateTiers V tiers =
     (if \<not> vTiers V tiers then Inl [ErrInvalidArgument]
      else if \<exists>t \<in> set tiers. \<not> validTierProvider V (trim_space (tierProvider t)) then Inl [ErrInvalidArgument]
      else Inr ())"

definition pool_Validate :: "validator \<Rightarrow> proxy_pool \<Rightarrow> unit sres" where
  "pool_Validate V p = (if vPool V p then Inr () else Inl [ErrInvalidArgument])"

text \<open>The loop of NormalizeModels: \<open>seen\<close> holds the ids already kept.\<close>

definition NormalizeModels :: "string list option \<Rightarrow> string list option" where
  "NormalizeModels inp =
     (case inp of
        None \<Rightarrow> None
      | Some ms \<Rightarrow> Some (dedup_by id [] (filter (\<lambda>m. m \<noteq> []) (map trim_space ms))))"

definition mask_key :: "string \<Rightarrow> string" where
  "mask_key k = (if length k \<le> 4 then ''****'' else ''****'' @ drop (length k - 4) k)"

definition MaskKeys :: "string list \<Rightarrow> string list" where
  "MaskKeys keys = map mask_key keys"

text \<open>A validator that checks just the registered functions.\<close>

definition any_value :: validator where
  "any_value =
     \<lparr>vProvider = \<lambda>p. resource_name (pName p) \<and> http_headers (Headers p), vPool = \<lambda>q. resource_name (lName q),
      vName = resource_name, vMode = proxy_mode, vTiers = \<lambda>ts. ts \<noteq> []\<rparr>"

section \<open>What validation promises\<close>

locale validator_laws =
  fixes V :: validator
  assumes vName_registered: "vName V s \<Longrightarrow> resource_name s"
    and vMode_registered: "vMode V s \<Longrightarrow> proxy_mode s"
    and vTiers_min: "vTiers V ts \<Longrightarrow> ts \<noteq> []"
    and vProvider_fields: "vProvider V p \<Longrightarrow> resource_name (pName p) \<and> http_headers (Headers p)"
    and vPool_fields: "vPool V q \<Longrightarrow> resource_name (lName q)"
begin

lemma validateTiers_ok:
  assumes "validateTiers V ts = Inr ()"
  shows "ts \<noteq> [] \<and> (\<forall>t \<in> set ts. IsBuiltin (trim_space (tierProvider t)) \<or>
    (\<exists>n. trim_space (tierProvider t) = ''custom:'' @ n \<and> resource_name n))"
proof -
  have "IsBuiltin s \<or> (\<exists>n. s = ''custom:'' @ n \<and> resource_name n)" if "validTierProvider V s" for s
    using that vName_registered
    by (auto simp: validTierProvider_def validateResourceName_def trim_prefix_def prefix_def split: if_splits)
  then show ?thesis using assms vTiers_min by (auto simp: validateTiers_def split: if_splits)
qed

end

lemma resource_char_no_space: "resource_char c \<Longrightarrow> \<not> is_space c"
  by (auto simp: resource_char_def is_space_def is_digit_def less_eq_char_def)

lemma normalized_mode_cases:
  "NormalizeProxyMode m \<in> {ProxyModeGlobal, ProxyModeDirect, ProxyModePool}"
  by (auto simp: NormalizeProxyMode_def Let_def)

lemma normalize_mode_idem [simp]: "NormalizeProxyMode (NormalizeProxyMode m) = NormalizeProxyMode m"
proof -
  have "NormalizeProxyMode ''direct'' = ''direct''" "NormalizeProxyMode ''pool'' = ''pool''" "NormalizeProxyMode '''' = ''''"
    by code_simp+
  then show ?thesis using normalized_mode_cases [of m]
    by (auto simp: ProxyModeGlobal_def ProxyModeDirect_def ProxyModePool_def)
qed

interpretation registered: validator_laws any_value
  by unfold_locales (simp_all add: any_value_def)

end
