(* ===== verification/Client_Keys.thy ===== *)
theory Client_Keys
  imports Registry_Models "HOL-Library.Word"
begin

text \<open>
  DB-managed client keys (internal/infrastructure/registry/apikey\_cache.go and apikeys.go): the cache of
  verification results with its generation counter, key verification, and the background recorder
  that batches usage counts. \<open>hash\<close> stands for the hex SHA-256 of a raw key, \<open>now\<close> for the clock (in
  nanoseconds) and \<open>query\<close> for the database row that the verify query reads.
\<close>

section \<open>Verification cache (apikey\_cache.go)\<close>

definition clientKeyVerifyTTL :: int where "clientKeyVerifyTTL = 30 * 1000000000"
definition clientKeyVerifyMaxEntries :: nat where "clientKeyVerifyMaxEntries = 10000"

record clientKeyVerifyEntry =
  valid :: bool
  expiresAt :: int

record clientKeyVerifyCache =
  entries :: "(string, clientKeyVerifyEntry) gomap"
  generation :: "64 word"

definition newClientKeyVerifyCache :: clientKeyVerifyCache where
  "newClientKeyVerifyCache = \<lparr>entries = [], generation = 0\<rparr>"

definition cache_get :: "int \<Rightarrow> string \<Rightarrow> clientKeyVerifyCache \<Rightarrow> bool option \<times> clientKeyVerifyCache" where
  "cache_get now h c =
     (case map_of (entries c) h of
        None \<Rightarrow> (None, c)
      | Some e \<Rightarrow>
          if expiresAt e < now then (None, c\<lparr>entries := mdel h (entries c)\<rparr>) else (Some (valid e), c))"

text \<open>
  When the map is full, the first expired entry that the iteration meets goes; without one, the first
  entry of the iteration. The iteration order is arbitrary: \<open>order\<close> is a permutation of the entries.
\<close>

definition cache_evict ::
  "((string, clientKeyVerifyEntry) gomap \<Rightarrow> (string, clientKeyVerifyEntry) gomap) \<Rightarrow> int \<Rightarrow>
   (string, clientKeyVerifyEntry) gomap \<Rightarrow> (string, clientKeyVerifyEntry) gomap" where
  "cache_evict order now m =
     (if clientKeyVerifyMaxEntries \<le> length m
      then (case filter (\<lambda>(k, e). expiresAt e < now) (order m) of
              (k, e) # _ \<Rightarrow> mdel k m
            | [] \<Rightarrow> (case order m of (k, e) # _ \<Rightarrow> mdel k m | [] \<Rightarrow> m))
      else m)"

definition cache_set ::
  "((string, clientKeyVerifyEntry) gomap \<Rightarrow> (string, clientKeyVerifyEntry) gomap) \<Rightarrow> int \<Rightarrow> string \<Rightarrow> bool \<Rightarrow>
   64 word \<Rightarrow> clientKeyVerifyCache \<Rightarrow> clientKeyVerifyCache" where
  "cache_set order now h v gen c =
     (if gen \<noteq> generation c then c
      else c\<lparr>entries := mput h \<lparr>valid = v, expiresAt = now + clientKeyVerifyTTL\<rparr> (cache_evict order now (entries c))\<rparr>)"

definition invalidate :: "string \<Rightarrow> clientKeyVerifyCache \<Rightarrow> clientKeyVerifyCache" where
  "invalidate h c = c\<lparr>entries := mdel h (entries c), generation := generation c + 1\<rparr>"

definition invalidateAll :: "clientKeyVerifyCache \<Rightarrow> clientKeyVerifyCache" where
  "invalidateAll c = c\<lparr>entries := [], generation := generation c + 1\<rparr>"

section \<open>Verification (apikeys.go)\<close>

datatype key_query = NoRow | Row bool | QueryFailed

datatype key_verdict = Verdict bool | StoreFailed

definition VerifyClientKey ::
  "(string \<Rightarrow> string) \<Rightarrow> ((string, clientKeyVerifyEntry) gomap \<Rightarrow> (string, clientKeyVerifyEntry) gomap) \<Rightarrow>
   (string \<Rightarrow> key_query) \<Rightarrow> int \<Rightarrow> string \<Rightarrow> clientKeyVerifyCache \<Rightarrow> key_verdict \<times> clientKeyVerifyCache" where
  "VerifyClientKey hash order query now raw c =
     (if raw = [] then (Verdict False, c)
      else case cache_get now (hash raw) c of
             (Some v, c1) \<Rightarrow> (Verdict v, c1)
           | (None, c1) \<Rightarrow>
               (let gen = generation c1
                in case query (hash raw) of
                     NoRow \<Rightarrow> (Verdict False, cache_set order now (hash raw) False gen c1)
                   | Row enabled \<Rightarrow> (Verdict enabled, cache_set order now (hash raw) enabled gen c1)
                   | QueryFailed \<Rightarrow> (StoreFailed, c1)))"

section \<open>Concurrent verification and revocation\<close>

text \<open>
  The system that VerifyClientKey and the update, delete and create operations form: \<open>kdb\<close> is the set of
  hashes of enabled keys, \<open>jobs\<close> the verifications in flight, each with its snapshot of the generation
  and, once it has queried the database, the verdict it read, and \<open>owed\<close> the invalidations of changes
  that are committed but whose invalidation has not run yet.
\<close>

datatype inval = All | One string

record vjob =
  jhash :: string
  jgen :: "64 word"
  jgot :: "bool option"

record key_sys =
  kdb :: "string \<Rightarrow> bool"
  kcache :: clientKeyVerifyCache
  jobs :: "vjob list"
  owed :: "inval list"

definition key_init :: "(string \<Rightarrow> bool) \<Rightarrow> key_sys" where
  "key_init db = \<lparr>kdb = db, kcache = newClientKeyVerifyCache, jobs = [], owed = []\<rparr>"

inductive key_step :: "key_sys \<Rightarrow> key_sys \<Rightarrow> bool" where
  lookup: "key_step s (s\<lparr>kcache := snd (cache_get now h (kcache s))\<rparr>)"
| start: "key_step s (s\<lparr>jobs := \<lparr>jhash = h, jgen = generation (kcache s), jgot = None\<rparr> # jobs s\<rparr>)"
| query: "i < length (jobs s) \<Longrightarrow> jgot (jobs s ! i) = None \<Longrightarrow>
    key_step s (s\<lparr>jobs := (jobs s)[i := (jobs s ! i)\<lparr>jgot := Some (kdb s (jhash (jobs s ! i)))\<rparr>]\<rparr>)"
| finish: "i < length (jobs s) \<Longrightarrow> jgot (jobs s ! i) = Some v \<Longrightarrow>
    key_step s (s\<lparr>kcache := cache_set order now (jhash (jobs s ! i)) v (jgen (jobs s ! i)) (kcache s),
      jobs := take i (jobs s) @ drop (Suc i) (jobs s)\<rparr>)"
| change: "key_step s (s\<lparr>kdb := db, owed := All # owed s\<rparr>)"
| create: "key_step s (s\<lparr>kdb := (kdb s)(h := True), owed := One h # owed s\<rparr>)"
| inval_all: "All \<in> set (owed s) \<Longrightarrow>
    key_step s (s\<lparr>kcache := invalidateAll (kcache s), owed := remove1 All (owed s)\<rparr>)"
| inval_one: "One h \<in> set (owed s) \<Longrightarrow>
    key_step s (s\<lparr>kcache := invalidate h (kcache s), owed := remove1 (One h) (owed s)\<rparr>)"

text \<open>Reachability, with the number of invalidations so far.\<close>

inductive key_reach :: "(string \<Rightarrow> bool) \<Rightarrow> nat \<Rightarrow> key_sys \<Rightarrow> bool" for db where
  init: "key_reach db 0 (key_init db)"
| step: "key_reach db n s \<Longrightarrow> key_step s t \<Longrightarrow>
    key_reach db (if generation (kcache t) = generation (kcache s) then n else Suc n) t"

section \<open>Usage recorder (apikeys.go)\<close>

definition clientKeyBatchSize :: nat where "clientKeyBatchSize = 64"

record clientKeyUsage =
  ucount :: int
  lastUsed :: int

record usage_row =
  use_count :: int
  last_used_at :: "int option"

record usage_sys =
  uclosed :: bool
  queue :: "string list"
  pending :: "(string, clientKeyUsage) gomap"
  rows :: "string \<rightharpoonup> usage_row"

text \<open>One UPDATE per pending hash, on the row with that hash if there is one.\<close>

definition apply_usage :: "(string \<rightharpoonup> usage_row) \<Rightarrow> (string, clientKeyUsage) gomap \<Rightarrow> string \<rightharpoonup> usage_row" where
  "apply_usage tbl p = (\<lambda>h.
     case (tbl h, map_of p h) of
       (Some r, Some u) \<Rightarrow> Some \<lparr>use_count = use_count r + ucount u, last_used_at = Some (lastUsed u)\<rparr>
     | (r, _) \<Rightarrow> r)"

text \<open>\<open>ok\<close> says whether the transaction commits; the pending map is cleared in either case.\<close>

definition flush :: "bool \<Rightarrow> usage_sys \<Rightarrow> usage_sys" where
  "flush ok s =
     (if pending s = [] then s
      else s\<lparr>rows := (if ok then apply_usage (rows s) (pending s) else rows s), pending := []\<rparr>)"

text \<open>
  Enqueue waits until the channel has room or the request's context is done; \<open>cancelled\<close> says that the
  context won. A send on a channel that Close has closed is recovered into ErrStoreClosed.
\<close>

definition Enqueue :: "bool \<Rightarrow> string \<Rightarrow> usage_sys \<Rightarrow> unit sres \<times> usage_sys" where
  "Enqueue cancelled h s =
     (if uclosed s then (Inl [ErrStoreClosed], s)
      else if cancelled then (Inl [], s)
      else (Inr (), s\<lparr>queue := queue s @ [h]\<rparr>))"

definition TouchClientKey :: "(string \<Rightarrow> string) \<Rightarrow> bool \<Rightarrow> string \<Rightarrow> usage_sys option \<Rightarrow> unit sres \<times> usage_sys option" where
  "TouchClientKey hash cancelled raw u =
     (if raw = [] then (Inr (), u)
      else case u of
             None \<Rightarrow> (Inl [ErrStoreClosed], None)
           | Some s \<Rightarrow> map_prod id Some (Enqueue cancelled (hash raw) s))"

definition count_use :: "int \<Rightarrow> string \<Rightarrow> usage_sys \<Rightarrow> usage_sys" where
  "count_use now h s =
     (let c = (case map_of (pending s) h of Some u \<Rightarrow> ucount u | None \<Rightarrow> 0)
      in s\<lparr>pending := mput h \<lparr>ucount = c + 1, lastUsed = now\<rparr> (pending s)\<rparr>)"

definition receive :: "int \<Rightarrow> bool \<Rightarrow> usage_sys \<Rightarrow> usage_sys" where
  "receive now ok s =
     (case queue s of
        [] \<Rightarrow> s
      | h # q \<Rightarrow>
          (let s1 = count_use now h (s\<lparr>queue := q\<rparr>)
           in if clientKeyBatchSize \<le> length (pending s1) then flush ok s1 else s1))"

text \<open>Close closes the channel once; the recorder then drains the queue and flushes what is left.\<close>

fun drain :: "nat \<Rightarrow> int \<Rightarrow> bool \<Rightarrow> usage_sys \<Rightarrow> usage_sys" where
  "drain 0 now ok s = flush ok s"
| "drain (Suc n) now ok s = drain n now ok (receive now ok s)"

definition usage_close :: "int \<Rightarrow> bool \<Rightarrow> usage_sys \<Rightarrow> usage_sys" where
  "usage_close now ok s = (if uclosed s then s else drain (length (queue s)) now ok (s\<lparr>uclosed := True\<rparr>))"

section \<open>Specifications\<close>

definition owes :: "key_sys \<Rightarrow> string \<Rightarrow> bool" where
  "owes s h = (All \<in> set (owed s) \<or> One h \<in> set (owed s))"

text \<open>Where no invalidation is owed, cached verdicts and the verdicts about to be cached are those of the database.\<close>

definition agrees :: "key_sys \<Rightarrow> bool" where
  "agrees s =
     (\<forall>h. \<not> owes s h \<longrightarrow>
        (\<forall>e. map_of (entries (kcache s)) h = Some e \<longrightarrow> valid e = kdb s h) \<and>
        (\<forall>j \<in> set (jobs s). \<forall>v. jhash j = h \<and> jgen j = generation (kcache s) \<and> jgot j = Some v \<longrightarrow> v = kdb s h))"

definition gens_ok :: "nat \<Rightarrow> key_sys \<Rightarrow> bool" where
  "gens_ok n s =
     (generation (kcache s) = word_of_nat n \<and> (\<forall>j \<in> set (jobs s). \<exists>k \<le> n. jgen j = word_of_nat k))"

definition uses :: "usage_sys \<Rightarrow> string \<Rightarrow> int" where
  "uses s h =
     (case rows s h of Some r \<Rightarrow> use_count r | None \<Rightarrow> 0) +
     (case map_of (pending s) h of Some u \<Rightarrow> ucount u | None \<Rightarrow> 0) + int (count_list (queue s) h)"

definition demo_usage :: usage_sys where
  "demo_usage = \<lparr>uclosed = False, queue = [''k'', ''k''], pending = [(''k'', \<lparr>ucount = 1, lastUsed = 0\<rparr>)],
     rows = [''k'' \<mapsto> \<lparr>use_count = 5, last_used_at = None\<rparr>]\<rparr>"

section \<open>No revoked key is resurrected\<close>

lemma cache_get_facts:
  "generation (snd (cache_get now h c)) = generation c"
  "map_of (entries (snd (cache_get now h c))) k = Some e \<Longrightarrow> map_of (entries c) k = Some e"
  by (auto simp: cache_get_def map_of_mdel split: option.splits if_splits)

lemma cache_evict_sub: "map_of (cache_evict order now m) k = Some e \<Longrightarrow> map_of m k = Some e"
  by (auto simp: cache_evict_def map_of_mdel split: if_splits list.splits prod.splits)

lemma cache_set_facts:
  "generation (cache_set order now h v g c) = generation c"
  "map_of (entries (cache_set order now h v g c)) k = Some e \<Longrightarrow>
     map_of (entries c) k = Some e \<or> (k = h \<and> valid e = v \<and> g = generation c)"
  by (auto simp: cache_set_def map_of_mput dest: cache_evict_sub split: if_splits)

lemma word_gen_eq:
  assumes "Suc n < 2 ^ 64" "k \<le> n" shows "(word_of_nat k :: 64 word) \<noteq> word_of_nat (Suc n)"
proof -
  have "take_bit 64 k = k" "take_bit 64 (Suc n) = Suc n" using assms by (simp_all add: take_bit_nat_eq_self)
  then show ?thesis using assms(2) by (simp add: word_of_nat_eq_iff del: of_nat_Suc)
qed

lemma gens_step: "gens_ok n s \<Longrightarrow> key_step s t \<Longrightarrow>
   gens_ok (if generation (kcache t) = generation (kcache s) then n else Suc n) t"
proof -
  assume g: "gens_ok n s" and st: "key_step s t"
  have up: "\<exists>k \<le> Suc n. j = word_of_nat k" if "\<exists>k \<le> n. j = word_of_nat k" for j :: "64 word"
    using that le_SucI by blast
  from st g show ?thesis
    by cases
      (auto simp: gens_ok_def cache_get_facts(1) cache_set_facts(1) invalidate_def invalidateAll_def up
        intro: exI [of _ n] dest!: in_set_takeD in_set_dropD set_update_subset_insert [THEN subsetD])
qed

lemma agrees_step:
  assumes a: "agrees s" and g: "gens_ok n s" and st: "key_step s t"
    and n: "generation (kcache t) \<noteq> generation (kcache s) \<Longrightarrow> Suc n < 2 ^ 64"
  shows "agrees t"
  using st
proof cases
  case (lookup now h)
  then show ?thesis using a by (auto simp: agrees_def owes_def cache_get_facts(1) dest!: cache_get_facts(2))
next
  case (start h)
  then show ?thesis using a by (auto simp: agrees_def owes_def)
next
  case (query i)
  then show ?thesis using a
    by (fastforce simp: agrees_def owes_def dest!: set_update_subset_insert [THEN subsetD])
next
  case (finish i v order now)
  have "jobs s ! i \<in> set (jobs s)" using finish by simp
  then show ?thesis using a finish cache_set_facts
    by (fastforce simp: agrees_def owes_def dest!: in_set_takeD in_set_dropD)
next
  case (change db)
  then show ?thesis by (simp add: agrees_def owes_def)
next
  case (create h)
  then show ?thesis using a by (auto simp: agrees_def owes_def)
next
  case inval_all
  then have "Suc n < 2 ^ 64" by (intro n) (simp add: invalidateAll_def)
  then have "jgen j \<noteq> generation (kcache s) + 1" if "j \<in> set (jobs s)" for j
    using g that word_gen_eq [of n] by (auto simp: gens_ok_def add.commute)
  then show ?thesis using inval_all by (auto simp: agrees_def invalidateAll_def)
next
  case (inval_one h)
  then have "Suc n < 2 ^ 64" by (intro n) (simp add: invalidate_def)
  then have j: "jgen j \<noteq> generation (kcache s) + 1" if "j \<in> set (jobs s)" for j
    using g that word_gen_eq [of n] by (auto simp: gens_ok_def add.commute)
  have e: "map_of (entries (kcache t)) k = (if k = h then None else map_of (entries (kcache s)) k)"
    "generation (kcache t) = generation (kcache s) + 1" "jobs t = jobs s" "kdb t = kdb s" for k
    using inval_one by (simp_all add: invalidate_def map_of_mdel)
  have "owes t k = owes s k" if "k \<noteq> h" for k
    using that inval_one by (auto simp: owes_def in_set_remove1 dest: notin_set_remove1)
  then show ?thesis using a j unfolding agrees_def e by auto
qed

lemma key_reach_inv: "key_reach db n s \<Longrightarrow> n < 2 ^ 64 \<Longrightarrow> agrees s \<and> gens_ok n s"
proof (induction rule: key_reach.induct)
  case init
  then show ?case by (simp add: agrees_def gens_ok_def key_init_def newClientKeyVerifyCache_def)
next
  case (step n s t)
  have g: "gens_ok n s \<Longrightarrow> gens_ok (if generation (kcache t) = generation (kcache s) then n else Suc n) t"
    using gens_step step.hyps(2) by blast
  have n: "n < 2 ^ 64" using step.prems by (auto split: if_splits)
  then have i: "agrees s" "gens_ok n s" using step.IH by auto
  have "Suc n < 2 ^ 64" if "generation (kcache t) \<noteq> generation (kcache s)" using step.prems that by simp
  then show ?case using agrees_step [OF i step.hyps(2)] g i by simp
qed

lemma cached_verdict:
  assumes "key_reach db n s" "n < 2 ^ 64" "\<not> owes s h" "cache_get now h (kcache s) = (Some v, c)"
  shows "v = kdb s h"
  using key_reach_inv [OF assms(1,2)] assms(3,4)
  by (auto simp: agrees_def cache_get_def split: option.splits if_splits)

text \<open>
  C8:
  In every state that concurrent verifications, key changes and invalidations can reach (with fewer
  than 2^64 invalidations), a verification of a key for which no invalidation is owed returns the
  verdict of the database: a cached or in-flight verdict never resurrects a revoked key.
\<close>

theorem verify_matches_database:
  assumes "key_reach db n s" "n < 2 ^ 64" "\<not> owes s (hash raw)" "raw \<noteq> []"
    and "query (hash raw) = Row (kdb s (hash raw)) \<or> (query (hash raw) = NoRow \<and> \<not> kdb s (hash raw))"
  shows "fst (VerifyClientKey hash order query now raw (kcache s)) = Verdict (kdb s (hash raw))"
proof (cases "cache_get now (hash raw) (kcache s)")
  case (Pair r c)
  show ?thesis
  proof (cases r)
    case None
    then show ?thesis using Pair assms(4,5) by (auto simp: VerifyClientKey_def Let_def split: if_splits)
  next
    case (Some v)
    then show ?thesis using Pair assms(4) cached_verdict [OF assms(1-3)] by (simp add: VerifyClientKey_def)
  qed
qed

text \<open>
  VerifyClientKey keeps the verification cache within 10000 entries with distinct hashes, whatever the
  order in which Go iterates the map.
\<close>

theorem verify_cache_bounded:
  assumes "length (entries c) \<le> clientKeyVerifyMaxEntries" "wf_map (entries c)"
    and "\<And>m. set (order m) = set m"
  shows "length (entries (snd (VerifyClientKey hash order query now raw c))) \<le> clientKeyVerifyMaxEntries \<and>
    wf_map (entries (snd (VerifyClientKey hash order query now raw c)))"
proof -
  have del: "length (mdel k m) < length m" if "(k, e) \<in> set m" for k e and m :: "(string, clientKeyVerifyEntry) gomap"
    unfolding AList.delete_eq using that by (intro length_filter_less) auto
  have ev: "length (cache_evict order now m) < clientKeyVerifyMaxEntries"
    if "length m \<le> clientKeyVerifyMaxEntries" for m
  proof (cases "clientKeyVerifyMaxEntries \<le> length m")
    case True
    then have "m \<noteq> []" by (auto simp: clientKeyVerifyMaxEntries_def)
    then have "set (order m) \<noteq> {}" using assms(3) by simp
    then obtain k e kes where o: "order m = (k, e) # kes" by (cases "order m") auto
    have "\<exists>k e. (k, e) \<in> set m \<and> cache_evict order now m = mdel k m"
    proof (cases "filter (\<lambda>(k, e). expiresAt e < now) (order m)")
      case Nil
      then show ?thesis using True o assms(3) [of m] by (auto simp: cache_evict_def)
    next
      case (Cons x xs)
      then have "x \<in> set (filter (\<lambda>(k, e). expiresAt e < now) (order m))" by simp
      then have "x \<in> set m" using assms(3) [of m] by simp
      then have "(fst x, snd x) \<in> set m" by simp
      moreover have "cache_evict order now m = mdel (fst x) m" using True Cons by (simp add: cache_evict_def split: prod.split)
      ultimately show ?thesis by blast
    qed
    then show ?thesis using del that by (metis less_le_trans)
  qed (simp add: cache_evict_def)
  have wev: "wf_map (cache_evict order now m)" if "wf_map m" for m
    using that by (auto simp: cache_evict_def wf_map_def AList.delete_eq distinct_map_filter split: list.splits)
  have set: "length (entries (cache_set order now h v g d)) \<le> clientKeyVerifyMaxEntries \<and> wf_map (entries (cache_set order now h v g d))"
    if "length (entries d) \<le> clientKeyVerifyMaxEntries" "wf_map (entries d)" for h v g d
  proof -
    have "length (mput h e (cache_evict order now (entries d))) \<le> clientKeyVerifyMaxEntries" for e
      using le_trans [OF length_mput_le Suc_leI [OF ev [OF that(1)]]] .
    then show ?thesis using that wev [OF that(2)] by (auto simp: cache_set_def wf_map_def distinct_update)
  qed
  have get: "length (entries (snd (cache_get now h c))) \<le> clientKeyVerifyMaxEntries \<and> wf_map (entries (snd (cache_get now h c)))" for h
    using assms(1,2) le_trans [OF length_mdel_le [of h "entries c"] assms(1)]
    by (auto simp: cache_get_def wf_map_def distinct_delete split: option.splits)
  show ?thesis
    using assms(1,2) get [of "hash raw"] set
    by (auto simp: VerifyClientKey_def Let_def split: prod.splits option.splits key_query.splits)
qed

section \<open>No use is lost, unless a flush fails\<close>

lemma uses_flush: "rows s h \<noteq> None \<Longrightarrow> uses (flush True s) h = uses s h \<and> rows (flush True s) h \<noteq> None"
  by (auto simp: uses_def flush_def apply_usage_def split: option.splits)

lemma uses_receive: "rows s h \<noteq> None \<Longrightarrow> uses (receive now True s) h = uses s h \<and> rows (receive now True s) h \<noteq> None"
proof (cases "queue s")
  case (Cons k q)
  assume r: "rows s h \<noteq> None"
  let ?s = "count_use now k (s\<lparr>queue := q\<rparr>)"
  have "uses ?s h = uses s h" "rows ?s h \<noteq> None"
    using r Cons by (auto simp: uses_def count_use_def Let_def map_of_mput split: option.splits)
  then show ?thesis using Cons uses_flush [of ?s h] by (simp add: receive_def Let_def)
qed (simp add: receive_def)

lemma queue_receive [simp]: "queue (receive now ok s) = tl (queue s)" "uclosed (receive now ok s) = uclosed s"
  by (auto simp: receive_def Let_def count_use_def flush_def split: list.splits)

text \<open>
  When flushes succeed, closing the recorder empties the queue and the batch, and the stored use count
  of every existing key is its old count plus every use that was pending or queued.
\<close>

theorem usage_drained_on_close:
  assumes "rows s h \<noteq> None" "\<not> uclosed s"
  shows "queue (usage_close now True s) = [] \<and> pending (usage_close now True s) = [] \<and> uclosed (usage_close now True s) \<and>
    (\<exists>r. rows (usage_close now True s) h = Some r \<and> use_count r = uses s h)"
proof -
  have "queue (drain n now True t) = drop n (queue t) \<and> pending (drain n now True t) = [] \<and> uclosed (drain n now True t) = uclosed t \<and>
      uses (drain n now True t) h = uses t h \<and> rows (drain n now True t) h \<noteq> None" if "rows t h \<noteq> None" for n t
    using that
  proof (induction n arbitrary: t)
    case 0
    then show ?case using uses_flush [of t h] by (auto simp: flush_def)
  next
    case (Suc n)
    then show ?case using uses_receive [of t h now] Suc.IH [of "receive now True t"]
      by (simp add: queue_receive drop_Suc)
  qed
  from this [of "s\<lparr>uclosed := True\<rparr>" "length (queue s)"] assms show ?thesis
    by (auto simp: usage_close_def uses_def split: option.splits)
qed

text \<open>
  A flush whose transaction fails drops the batch: the uses it held are in no table, queue or batch
  any more.
\<close>

theorem failed_flush_loses_uses:
  assumes "pending s \<noteq> []"
  shows "pending (flush False s) = [] \<and> rows (flush False s) = rows s \<and>
    (\<forall>h u. map_of (pending s) h = Some u \<longrightarrow> uses (flush False s) h = uses s h - ucount u)"
  using assms by (auto simp: flush_def uses_def)

section \<open>The properties at concrete inputs\<close>

theorem verify_matches_database_witness:
  "fst (VerifyClientKey id id (\<lambda>h. Row (h = ''k'')) 0 ''k'' newClientKeyVerifyCache) = Verdict True"
proof -
  let ?db = "\<lambda>h. h = ''k''"
  have r: "key_reach ?db 0 (key_init ?db)" by (rule key_reach.init)
  have "\<not> owes (key_init ?db) (id ''k'')" by (simp add: owes_def key_init_def)
  with verify_matches_database [of ?db 0 "key_init ?db" id "''k''" "\<lambda>h. Row (h = ''k'')" id 0, OF r] show ?thesis
    by (simp add: key_init_def)
qed

theorem verify_cache_bounded_witness:
  "length (entries (snd (VerifyClientKey id id (\<lambda>h. NoRow) 0 ''k'' newClientKeyVerifyCache))) \<le> clientKeyVerifyMaxEntries"
  using verify_cache_bounded [of newClientKeyVerifyCache id id "\<lambda>h. NoRow" 0 "''k''"]
  by (simp add: newClientKeyVerifyCache_def wf_map_def)

theorem usage_drained_on_close_witness:
  "\<exists>r. rows (usage_close 9 True demo_usage) ''k'' = Some r \<and> use_count r = 8"
proof -
  have "rows demo_usage ''k'' \<noteq> None" "uses demo_usage ''k'' = 8" by (simp_all add: demo_usage_def uses_def)
  moreover have "\<not> uclosed demo_usage" by (simp add: demo_usage_def)
  ultimately show ?thesis using usage_drained_on_close [of demo_usage "''k''" 9] by simp
qed

theorem failed_flush_loses_uses_witness: "uses (flush False demo_usage) ''k'' = 7"
proof -
  have "pending demo_usage \<noteq> []" "uses demo_usage ''k'' = 8" by (simp_all add: demo_usage_def uses_def)
  with failed_flush_loses_uses [OF this(1)] show ?thesis by (simp add: demo_usage_def)
qed

end
