(* ===== verification/Registry.thy ===== *)
theory Registry
  imports Registry_Models
begin

text \<open>
  The provider registry (internal/infrastructure/registry: providers.go, combos.go, pools.go): every
  operation of the store over its four tables. \<open>G\<close> is the database and \<open>V\<close> the struct validator. Each
  operation returns its result and the new contents of the tables.
\<close>

section \<open>The store\<close>

record store =
  providers :: "provider list"
  combos :: "route_combo list"
  pools :: "proxy_pool list"
  builtins :: "builtin_proxy list"

record gorm =
  tProvider :: "provider gorm_table"
  tCombo :: "route_combo gorm_table"
  tPool :: "proxy_pool gorm_table"
  tBuiltin :: "builtin_proxy gorm_table"
  commit :: "store \<Rightarrow> store_error option"

text \<open>A database transaction: its effects are rolled back when the body returns an error or the commit fails.\<close>

definition Transaction :: "gorm \<Rightarrow> (store \<Rightarrow> ('a \<times> store) sres) \<Rightarrow> store \<Rightarrow> 'a sres \<times> store" where
  "Transaction G body s =
     (case body s of
        Inl e \<Rightarrow> (Inl e, s)
      | Inr (a, s') \<Rightarrow> (case commit G s' of Some e \<Rightarrow> (Inl e, s) | None \<Rightarrow> (Inr a, s')))"

definition wrapped :: "'a sres \<times> store \<Rightarrow> 'a sres \<times> store" where
  "wrapped = (\<lambda>(r, s). (wrapStoreError r, s))"

definition unless_error :: "unit sres \<Rightarrow> store \<Rightarrow> ('a sres \<times> store) \<Rightarrow> 'a sres \<times> store" where
  "unless_error check s rest = (case check of Inl e \<Rightarrow> (Inl e, s) | Inr _ \<Rightarrow> rest)"

section \<open>Providers (providers.go)\<close>

definition normalized_provider :: "provider \<Rightarrow> provider" where
  "normalized_provider p =
     p\<lparr>RefreshSec := (if RefreshSec p = 0 then 60 else RefreshSec p),
       Models := NormalizeModels (Models p),
       ProxyMode := NormalizeProxyMode (ProxyMode p),
       ProxyPoolID := (if NormalizeProxyMode (ProxyMode p) \<noteq> ProxyModePool then None else ProxyPoolID p)\<rparr>"

definition ensureProxyPool :: "gorm \<Rightarrow> string \<Rightarrow> nat option \<Rightarrow> store \<Rightarrow> unit sres" where
  "ensureProxyPool G mode poolID s =
     (if NormalizeProxyMode mode \<noteq> ProxyModePool then Inr ()
      else case poolID of
             None \<Rightarrow> Inl [ErrInvalidArgument]
           | Some i \<Rightarrow>
               bind_res (gCount (tPool G) (\<lambda>q. lID q = i) (pools s))
                 (\<lambda>n. if n = 0 then Inl [ErrInvalidArgument, ErrNotFound] else Inr ()))"

definition masked :: "provider \<Rightarrow> provider" where
  "masked p = p\<lparr>APIKeys := MaskKeys (APIKeys p)\<rparr>"

text \<open>GORM replaces a false \<open>enabled\<close> by the column default on insert: the flag is written back afterwards.\<close>

definition CreateProvider :: "gorm \<Rightarrow> validator \<Rightarrow> provider \<Rightarrow> store \<Rightarrow> provider sres \<times> store" where
  "CreateProvider G V p s =
     unless_error (validateProxyMode V (ProxyMode p)) s
      (let p = normalized_provider p
       in unless_error (provider_Validate V p) s
           (let (r, s') = wrapped (Transaction G (\<lambda>s.
                  bind_res (ensureProxyPool G (ProxyMode p) (ProxyPoolID p) s) (\<lambda>_.
                  bind_res (gCreate (tProvider G) (p\<lparr>pID := 0\<rparr>) (providers s)) (\<lambda>(q, t).
                    if pEnabled p then Inr (q, s\<lparr>providers := t\<rparr>)
                    else bind_res (gUpdates (tProvider G) (\<lambda>r. pID r = pID q) (\<lambda>r. r\<lparr>pEnabled := False\<rparr>) t)
                           (\<lambda>(n, t'). Inr (q\<lparr>pEnabled := False\<rparr>, s\<lparr>providers := t'\<rparr>))))) s)
            in (map_sum id masked r, s')))"

definition ListProvidersRaw :: "gorm \<Rightarrow> store \<Rightarrow> provider list sres" where
  "ListProvidersRaw G s = wrapStoreError (gOrdered (tProvider G) (\<lambda>p. (Priority p, pName p)) (providers s))"

definition ListProviders :: "gorm \<Rightarrow> store \<Rightarrow> provider list sres" where
  "ListProviders G s = map_sum id (map masked) (ListProvidersRaw G s)"

definition GetProviderRaw :: "gorm \<Rightarrow> nat \<Rightarrow> store \<Rightarrow> provider sres" where
  "GetProviderRaw G i s = wrapStoreError (gFirst (tProvider G) (\<lambda>p. pID p = i) (providers s))"

definition GetProvider :: "gorm \<Rightarrow> nat \<Rightarrow> store \<Rightarrow> provider sres" where
  "GetProvider G i s = map_sum id masked (GetProviderRaw G i s)"

definition GetProviderByName :: "gorm \<Rightarrow> string \<Rightarrow> store \<Rightarrow> provider sres" where
  "GetProviderByName G name s = wrapStoreError (gFirst (tProvider G) (\<lambda>p. pName p = name) (providers s))"

definition rename_tier :: "string \<Rightarrow> string \<Rightarrow> combo_tier \<Rightarrow> combo_tier" where
  "rename_tier old new t =
     (if tierProvider t = ''custom:'' @ old then t\<lparr>tierProvider := ''custom:'' @ new\<rparr> else t)"

definition names_provider :: "string \<Rightarrow> combo_tier \<Rightarrow> bool" where
  "names_provider name t = (tierProvider t = ''custom:'' @ name)"

text \<open>The loop of UpdateProvider over the combos.\<close>

fun rename_combos :: "gorm \<Rightarrow> string \<Rightarrow> string \<Rightarrow> route_combo list \<Rightarrow> route_combo list \<Rightarrow> route_combo list sres" where
  "rename_combos G old new [] t = Inr t"
| "rename_combos G old new (c # cs) t =
     (if list_ex (names_provider old) (Tiers c)
      then bind_res (gSave (tCombo G) (c\<lparr>Tiers := map (rename_tier old new) (Tiers c)\<rparr>) t) (rename_combos G old new cs)
      else rename_combos G old new cs t)"

definition UpdateProvider :: "gorm \<Rightarrow> validator \<Rightarrow> nat \<Rightarrow> provider \<Rightarrow> store \<Rightarrow> provider sres \<times> store" where
  "UpdateProvider G V i p s =
     unless_error (validateProxyMode V (ProxyMode p)) s
      (let (r, s') = wrapped (Transaction G (\<lambda>s.
             bind_res (gFirst (tProvider G) (\<lambda>r. pID r = i) (providers s)) (\<lambda>cur.
             let p = (normalized_provider p)\<lparr>pID := pID cur\<rparr> in
             bind_res (provider_Validate V p) (\<lambda>_.
             bind_res (ensureProxyPool G (ProxyMode p) (ProxyPoolID p) s) (\<lambda>_.
             bind_res (gSave (tProvider G) p (providers s)) (\<lambda>t.
             if pName p = pName cur then Inr (p, s\<lparr>providers := t\<rparr>)
             else bind_res (gFind (tCombo G) (\<lambda>_. True) (combos s)) (\<lambda>cs.
                  bind_res (rename_combos G (pName cur) (pName p) cs (combos s)) (\<lambda>u.
                  Inr (p, s\<lparr>providers := t, combos := u\<rparr>)))))))) s)
       in (map_sum id masked r, s'))"

text \<open>The loop of DeleteProvider: combos lose the tiers of the provider and vanish when none is left.\<close>

fun drop_tiers :: "gorm \<Rightarrow> string \<Rightarrow> route_combo list \<Rightarrow> route_combo list \<Rightarrow> route_combo list sres" where
  "drop_tiers G name [] t = Inr t"
| "drop_tiers G name (c # cs) t =
     (let kept = filter (\<lambda>tr. \<not> names_provider name tr) (Tiers c)
      in if \<not> list_ex (names_provider name) (Tiers c) then drop_tiers G name cs t
         else if kept = []
         then bind_res (gDelete (tCombo G) (\<lambda>r. cID r = cID c) t) (\<lambda>(n, t'). drop_tiers G name cs t')
         else bind_res (gSave (tCombo G) (c\<lparr>Tiers := kept\<rparr>) t) (drop_tiers G name cs))"

definition DeleteProvider :: "gorm \<Rightarrow> nat \<Rightarrow> store \<Rightarrow> unit sres \<times> store" where
  "DeleteProvider G i s =
     wrapped (Transaction G (\<lambda>s.
       bind_res (gFirst (tProvider G) (\<lambda>r. pID r = i) (providers s)) (\<lambda>cur.
       bind_res (gDelete (tProvider G) (\<lambda>r. pID r = i) (providers s)) (\<lambda>(n, t).
       bind_res (gFind (tCombo G) (\<lambda>_. True) (combos s)) (\<lambda>cs.
       bind_res (drop_tiers G (pName cur) cs (combos s)) (\<lambda>u.
       Inr ((), s\<lparr>providers := t, combos := u\<rparr>)))))) s)"

text \<open>checkTiersExist: every custom tier names an enabled provider.\<close>

fun checkTiersExist :: "gorm \<Rightarrow> combo_tier list \<Rightarrow> store \<Rightarrow> unit sres" where
  "checkTiersExist G [] s = Inr ()"
| "checkTiersExist G (t # ts) s =
     (let p = trim_space (tierProvider t)
      in if IsBuiltin p \<or> \<not> has_prefix p ''custom:'' then checkTiersExist G ts s
         else bind_res (gFirst (tProvider G) (\<lambda>r. pName r = trim_prefix p ''custom:'') (providers s)) (\<lambda>row.
              if \<not> pEnabled row then Inl [ErrInvalidArgument] else checkTiersExist G ts s))"

section \<open>Combos (combos.go)\<close>

definition trim_tiers :: "route_combo \<Rightarrow> route_combo" where
  "trim_tiers c = c\<lparr>Tiers := map (\<lambda>t. t\<lparr>tierProvider := trim_space (tierProvider t)\<rparr>) (Tiers c)\<rparr>"

definition ListCombos :: "gorm \<Rightarrow> store \<Rightarrow> route_combo list sres" where
  "ListCombos G s = wrapStoreError (gOrdered (tCombo G) (\<lambda>c. (0, cName c)) (combos s))"

definition SaveCombo :: "gorm \<Rightarrow> validator \<Rightarrow> route_combo \<Rightarrow> store \<Rightarrow> route_combo sres \<times> store" where
  "SaveCombo G V c s =
     unless_error (validateResourceName V (cName c)) s
      (let c = trim_tiers c
       in unless_error (validateTiers V (Tiers c)) s
           (wrapped (Transaction G (\<lambda>s.
             bind_res (checkTiersExist G (Tiers c) s) (\<lambda>_.
             bind_res (gCreate (tCombo G) (c\<lparr>cID := 0\<rparr>) (combos s)) (\<lambda>(d, t).
             Inr (d, s\<lparr>combos := t\<rparr>)))) s)))"

definition UpdateCombo :: "gorm \<Rightarrow> validator \<Rightarrow> nat \<Rightarrow> route_combo \<Rightarrow> store \<Rightarrow> route_combo sres \<times> store" where
  "UpdateCombo G V i c s =
     unless_error (validateResourceName V (cName c)) s
      (let c = trim_tiers c
       in unless_error (validateTiers V (Tiers c)) s
           (wrapped (Transaction G (\<lambda>s.
             bind_res (gFirst (tCombo G) (\<lambda>r. cID r = i) (combos s)) (\<lambda>cur.
             bind_res (checkTiersExist G (Tiers c) s) (\<lambda>_.
             bind_res (gSave (tCombo G) (c\<lparr>cID := cID cur\<rparr>) (combos s)) (\<lambda>t.
             Inr (c\<lparr>cID := cID cur\<rparr>, s\<lparr>combos := t\<rparr>))))) s)))"

definition DeleteCombo :: "gorm \<Rightarrow> nat \<Rightarrow> store \<Rightarrow> unit sres \<times> store" where
  "DeleteCombo G i s =
     (case gDelete (tCombo G) (\<lambda>r. cID r = i) (combos s) of
        Inl e \<Rightarrow> (wrapStoreError (Inl e), s)
      | Inr (n, t) \<Rightarrow> if n = 0 then (Inl [ErrNotFound], s\<lparr>combos := t\<rparr>) else (Inr (), s\<lparr>combos := t\<rparr>))"

section \<open>Pools and pins (pools.go)\<close>

definition MarkPoolTest :: "gorm \<Rightarrow> nat \<Rightarrow> bool \<Rightarrow> string \<Rightarrow> store \<Rightarrow> unit sres \<times> store" where
  "MarkPoolTest G i ok lastErr s =
     (case gUpdates (tPool G) (\<lambda>q. lID q = i)
             (\<lambda>q. q\<lparr>TestStatus := (if ok then ''active'' else ''error''), LastError := lastErr\<rparr>) (pools s) of
        Inl e \<Rightarrow> (wrapStoreError (Inl e), s)
      | Inr (n, t) \<Rightarrow> if n = 0 then (Inl [ErrNotFound], s\<lparr>pools := t\<rparr>) else (Inr (), s\<lparr>pools := t\<rparr>))"

definition CreatePool :: "gorm \<Rightarrow> validator \<Rightarrow> proxy_pool \<Rightarrow> store \<Rightarrow> proxy_pool sres \<times> store" where
  "CreatePool G V p s =
     unless_error (pool_Validate V p) s
      (wrapped (Transaction G (\<lambda>s.
         bind_res (gCreate (tPool G) (p\<lparr>lID := 0\<rparr>) (pools s)) (\<lambda>(q, t).
           if lEnabled p then Inr (q, s\<lparr>pools := t\<rparr>)
           else bind_res (gUpdates (tPool G) (\<lambda>r. lID r = lID q) (\<lambda>r. r\<lparr>lEnabled := False\<rparr>) t)
                  (\<lambda>(n, t'). Inr (q\<lparr>lEnabled := False\<rparr>, s\<lparr>pools := t'\<rparr>)))) s))"

definition ListPools :: "gorm \<Rightarrow> store \<Rightarrow> proxy_pool list sres" where
  "ListPools G s = wrapStoreError (gOrdered (tPool G) (\<lambda>q. (0, lName q)) (pools s))"

definition GetPool :: "gorm \<Rightarrow> nat \<Rightarrow> store \<Rightarrow> proxy_pool sres" where
  "GetPool G i s = wrapStoreError (gFirst (tPool G) (\<lambda>q. lID q = i) (pools s))"

definition GetPools :: "gorm \<Rightarrow> nat list \<Rightarrow> store \<Rightarrow> (nat, proxy_pool) gomap sres" where
  "GetPools G ids s =
     (if ids = [] then Inr []
      else bind_res (wrapStoreError (gFind (tPool G) (\<lambda>q. lID q \<in> set ids) (pools s)))
             (\<lambda>rows. Inr (fold (\<lambda>q m. mput (lID q) q m) rows [])))"

definition UpdatePool :: "gorm \<Rightarrow> validator \<Rightarrow> nat \<Rightarrow> proxy_pool \<Rightarrow> store \<Rightarrow> proxy_pool sres \<times> store" where
  "UpdatePool G V i p s =
     unless_error (pool_Validate V p) s
      (case gUpdates (tPool G) (\<lambda>q. lID q = i)
              (\<lambda>q. q\<lparr>lName := lName p, ProxyURL := ProxyURL p, NoProxy := NoProxy p, StrictProxy := StrictProxy p,
                 lEnabled := lEnabled p\<rparr>) (pools s) of
         Inl e \<Rightarrow> (wrapStoreError (Inl e), s)
       | Inr (n, t) \<Rightarrow>
           if n = 0 then (Inl [ErrNotFound], s\<lparr>pools := t\<rparr>) else (Inr (p\<lparr>lID := i\<rparr>), s\<lparr>pools := t\<rparr>))"

definition reset_pin :: "provider \<Rightarrow> provider" where
  "reset_pin p = p\<lparr>ProxyMode := ProxyModeGlobal, ProxyPoolID := None\<rparr>"

definition reset_builtin_pin :: "builtin_proxy \<Rightarrow> builtin_proxy" where
  "reset_builtin_pin b = b\<lparr>bProxyMode := ProxyModeGlobal, bProxyPoolID := None\<rparr>"

text \<open>The two UPDATEs that DeletePool and UnpinPool share.\<close>

definition unpin :: "gorm \<Rightarrow> nat \<Rightarrow> store \<Rightarrow> (unit \<times> store) sres" where
  "unpin G i s =
     bind_res (gUpdates (tProvider G) (\<lambda>p. ProxyPoolID p = Some i) reset_pin (providers s)) (\<lambda>(n, t).
     bind_res (gUpdates (tBuiltin G) (\<lambda>b. bProxyPoolID b = Some i) reset_builtin_pin (builtins s)) (\<lambda>(m, u).
     Inr ((), s\<lparr>providers := t, builtins := u\<rparr>)))"

definition DeletePool :: "gorm \<Rightarrow> nat \<Rightarrow> store \<Rightarrow> unit sres \<times> store" where
  "DeletePool G i s =
     wrapped (Transaction G (\<lambda>s.
       bind_res (gDelete (tPool G) (\<lambda>q. lID q = i) (pools s)) (\<lambda>(n, t).
       if n = 0 then Inl [ErrNotFound] else unpin G i (s\<lparr>pools := t\<rparr>))) s)"

definition UnpinPool :: "gorm \<Rightarrow> nat \<Rightarrow> store \<Rightarrow> unit sres \<times> store" where
  "UnpinPool G i s = wrapped (Transaction G (unpin G i) s)"

definition GetBuiltinProxy :: "gorm \<Rightarrow> string \<Rightarrow> store \<Rightarrow> builtin_proxy sres" where
  "GetBuiltinProxy G name s =
     (case gFirst (tBuiltin G) (\<lambda>b. bName b = name) (builtins s) of
        Inl e \<Rightarrow>
          if RecordNotFound \<in> set e then Inr \<lparr>bName = name, bProxyMode = '''', bProxyPoolID = None\<rparr>
          else wrapStoreError (Inl e)
      | Inr b \<Rightarrow>
          (let m = NormalizeProxyMode (bProxyMode b)
           in Inr (b\<lparr>bProxyMode := m, bProxyPoolID := (if m \<noteq> ProxyModePool then None else bProxyPoolID b)\<rparr>)))"

fun list_builtins :: "gorm \<Rightarrow> string list \<Rightarrow> store \<Rightarrow> builtin_proxy list sres" where
  "list_builtins G [] s = Inr []"
| "list_builtins G (n # ns) s =
     bind_res (GetBuiltinProxy G n s) (\<lambda>b. bind_res (list_builtins G ns s) (\<lambda>bs. Inr (b # bs)))"

definition ListBuiltinProxies :: "gorm \<Rightarrow> store \<Rightarrow> builtin_proxy list sres" where
  "ListBuiltinProxies G s = list_builtins G KnownBuiltins s"

definition SetBuiltinProxy :: "gorm \<Rightarrow> validator \<Rightarrow> string \<Rightarrow> string \<Rightarrow> nat option \<Rightarrow> store \<Rightarrow> builtin_proxy sres \<times> store" where
  "SetBuiltinProxy G V name mode poolID s =
     (if \<not> IsBuiltin name then (Inl [ErrInvalidArgument], s)
      else unless_error (validateProxyMode V mode) s
       (let m = NormalizeProxyMode mode; i = (if m \<noteq> ProxyModePool then None else poolID)
        in if m = ProxyModePool \<and> poolID = None then (Inl [ErrInvalidArgument], s)
           else (let b = \<lparr>bName = name, bProxyMode = m, bProxyPoolID = i\<rparr>
                 in wrapped (Transaction G (\<lambda>s.
                      bind_res (ensureProxyPool G m i s) (\<lambda>_.
                      bind_res (gSave (tBuiltin G) b (builtins s)) (\<lambda>t. Inr (b, s\<lparr>builtins := t\<rparr>)))) s))))"

end
