(* ===== verification/Registry_Invariant.thy ===== *)
theory Registry_Invariant
  imports Registry
begin

text \<open>
  The correctness of the provider registry: the invariant of its tables, as a locale \<open>registry_db\<close> over
  the laws of the database and the validator with one preservation lemma per operation, the rollback of
  failed operations, and the exact effect of the operations that touch several tables.
\<close>

section \<open>Specifications\<close>

definition stored_provider :: "nat \<Rightarrow> provider \<Rightarrow> provider" where
  "stored_provider k p = p\<lparr>pID := k, pEnabled := True\<rparr>"

definition stored_combo :: "nat \<Rightarrow> route_combo \<Rightarrow> route_combo" where
  "stored_combo k c = c\<lparr>cID := k\<rparr>"

definition stored_pool :: "nat \<Rightarrow> proxy_pool \<Rightarrow> proxy_pool" where
  "stored_pool k q = q\<lparr>lID := k, lEnabled := True\<rparr>"

definition stored_builtin :: "string \<Rightarrow> builtin_proxy \<Rightarrow> builtin_proxy" where
  "stored_builtin k b = b\<lparr>bName := k\<rparr>"

definition pin_ok :: "string \<Rightarrow> nat option \<Rightarrow> proxy_pool list \<Rightarrow> bool" where
  "pin_ok mode i qs =
     (case i of None \<Rightarrow> mode \<noteq> ProxyModePool | Some k \<Rightarrow> mode = ProxyModePool \<and> k \<in> lID ` set qs)"

definition tier_ok :: "provider list \<Rightarrow> combo_tier \<Rightarrow> bool" where
  "tier_ok ps t = (IsBuiltin (tierProvider t) \<or> (\<exists>p \<in> set ps. names_provider (pName p) t))"

definition combo_ok :: "provider list \<Rightarrow> route_combo \<Rightarrow> bool" where
  "combo_ok ps c = (Tiers c \<noteq> [] \<and> (\<forall>t \<in> set (Tiers c). tier_ok ps t))"

definition tables_ok :: "store \<Rightarrow> bool" where
  "tables_ok s = (table_ok pID pName (providers s) \<and> table_ok cID cName (combos s) \<and>
     table_ok lID lName (pools s) \<and> table_ok bName bName (builtins s))"

definition store_inv :: "store \<Rightarrow> bool" where
  "store_inv s =
     (tables_ok s \<and>
      (\<forall>p \<in> set (providers s). pin_ok (ProxyMode p) (ProxyPoolID p) (pools s)) \<and>
      (\<forall>b \<in> set (builtins s). pin_ok (bProxyMode b) (bProxyPoolID b) (pools s)) \<and>
      (\<forall>c \<in> set (combos s). combo_ok (providers s) c))"

definition pins_ok_but :: "nat \<Rightarrow> store \<Rightarrow> bool" where
  "pins_ok_but i s =
     ((\<forall>p \<in> set (providers s). ProxyPoolID p \<noteq> Some i \<longrightarrow> pin_ok (ProxyMode p) (ProxyPoolID p) (pools s)) \<and>
      (\<forall>b \<in> set (builtins s). bProxyPoolID b \<noteq> Some i \<longrightarrow> pin_ok (bProxyMode b) (bProxyPoolID b) (pools s)))"

definition rename_combo :: "string \<Rightarrow> string \<Rightarrow> route_combo \<Rightarrow> route_combo" where
  "rename_combo old new c = c\<lparr>Tiers := map (rename_tier old new) (Tiers c)\<rparr>"

definition drop_combo :: "string \<Rightarrow> route_combo \<Rightarrow> route_combo" where
  "drop_combo name c = c\<lparr>Tiers := filter (\<lambda>t. \<not> names_provider name t) (Tiers c)\<rparr>"

definition same_rows :: "store \<Rightarrow> store \<Rightarrow> bool" where
  "same_rows s t = (set (providers t) = set (providers s) \<and> set (combos t) = set (combos s) \<and>
     set (pools t) = set (pools s) \<and> set (builtins t) = set (builtins s))"

text \<open>An operation that fails leaves the rows of every table as they were.\<close>

definition clean :: "store \<Rightarrow> 'a sres \<times> store \<Rightarrow> bool" where
  "clean s x = (case x of (Inl e, t) \<Rightarrow> same_rows s t | _ \<Rightarrow> True)"

text \<open>One operation on the store, with its outcome; the value it returns is left out.\<close>

definition outcome :: "'a sres \<Rightarrow> unit sres" where
  "outcome r = map_sum id (\<lambda>_. ()) r"

inductive store_step :: "gorm \<Rightarrow> validator \<Rightarrow> unit sres \<Rightarrow> store \<Rightarrow> store \<Rightarrow> bool" for G V where
  create_provider: "CreateProvider G V p s = (r, t) \<Longrightarrow> store_step G V (outcome r) s t"
| update_provider: "UpdateProvider G V i p s = (r, t) \<Longrightarrow> store_step G V (outcome r) s t"
| delete_provider: "DeleteProvider G i s = (r, t) \<Longrightarrow> store_step G V (outcome r) s t"
| save_combo: "SaveCombo G V c s = (r, t) \<Longrightarrow> store_step G V (outcome r) s t"
| update_combo: "UpdateCombo G V i c s = (r, t) \<Longrightarrow> store_step G V (outcome r) s t"
| delete_combo: "DeleteCombo G i s = (r, t) \<Longrightarrow> store_step G V (outcome r) s t"
| mark_pool: "MarkPoolTest G i ok e s = (r, t) \<Longrightarrow> store_step G V (outcome r) s t"
| create_pool: "CreatePool G V q s = (r, t) \<Longrightarrow> store_step G V (outcome r) s t"
| update_pool: "UpdatePool G V i q s = (r, t) \<Longrightarrow> store_step G V (outcome r) s t"
| delete_pool: "DeletePool G i s = (r, t) \<Longrightarrow> store_step G V (outcome r) s t"
| unpin_pool: "UnpinPool G i s = (r, t) \<Longrightarrow> store_step G V (outcome r) s t"
| set_builtin: "SetBuiltinProxy G V name mode j s = (r, t) \<Longrightarrow> store_step G V (outcome r) s t"

definition empty_store :: store where
  "empty_store = \<lparr>providers = [], combos = [], pools = [], builtins = []\<rparr>"

inductive store_reach :: "gorm \<Rightarrow> validator \<Rightarrow> store \<Rightarrow> bool" for G V where
  init: "store_reach G V empty_store"
| step: "store_reach G V s \<Longrightarrow> store_step G V r s t \<Longrightarrow> store_reach G V t"

definition demo_gorm :: gorm where
  "demo_gorm =
     \<lparr>tProvider = rows_table pID pName stored_provider next_id,
      tCombo = rows_table cID cName stored_combo next_id,
      tPool = rows_table lID lName stored_pool next_id,
      tBuiltin = rows_table bName bName stored_builtin (\<lambda>ks. concat ks @ ''x''),
      commit = \<lambda>s. None\<rparr>"

definition demo_pool :: proxy_pool where
  "demo_pool = \<lparr>lID = 1, lName = ''edge'', ProxyURL = ''https://edge'', NoProxy = [], StrictProxy = False,
     lEnabled = True, TestStatus = [], LastError = []\<rparr>"

definition demo_provider :: provider where
  "demo_provider = \<lparr>pID = 0, pName = ''acme'', BaseURL = ''https://acme'', APIKeys = [''secret-key''], Headers = [],
     Models = None, RefreshSec = 60, Priority = 0, pEnabled = True, ProxyMode = ''pool'', ProxyPoolID = Some 1\<rparr>"

definition demo_combo :: route_combo where
  "demo_combo = \<lparr>cID = 1, cName = ''fast'', Tiers = [\<lparr>tierProvider = ''custom:acme'', tierModel = ''m''\<rparr>]\<rparr>"

definition demo_store :: store where
  "demo_store = \<lparr>providers = [demo_provider\<lparr>pID := 1\<rparr>], combos = [demo_combo], pools = [demo_pool], builtins = []\<rparr>"

lemma snd_wrapped [simp]: "snd (wrapped x) = snd x"
  by (simp add: wrapped_def split: prod.split)

lemma Transaction_keeps:
  assumes "store_inv s" "\<And>a s'. body s = Inr (a, s') \<Longrightarrow> store_inv s'"
  shows "store_inv (snd (wrapped (Transaction G body s)))"
  using assms by (simp add: Transaction_def split: sum.split option.split prod.split)

lemma unless_error_keeps:
  "store_inv s \<Longrightarrow> (check = Inr () \<Longrightarrow> store_inv (snd rest)) \<Longrightarrow> store_inv (snd (unless_error check s rest))"
  by (simp add: unless_error_def split: sum.split)

lemma affected_keeps:
  assumes "store_inv s" "\<And>n t. x = Inr (n, t) \<Longrightarrow> store_inv (f t)"
  shows "store_inv (snd (case x of Inl e \<Rightarrow> (g e, s) | Inr (n, t) \<Rightarrow> if n = (0::nat) then (a, f t) else (b, f t)))"
  using assms by (simp split: sum.split prod.split)

lemma let_pair_keeps: "store_inv (snd x) \<Longrightarrow> store_inv (snd (case x of (r, s') \<Rightarrow> (f r, s')))"
  by (cases x) simp

lemma names_provider_eq: "names_provider a t \<Longrightarrow> names_provider b t \<longleftrightarrow> a = b"
  by (auto simp: names_provider_def)

lemma tier_ok_mono: "pName ` set ps \<subseteq> pName ` set qs \<Longrightarrow> tier_ok ps t \<Longrightarrow> tier_ok qs t"
  unfolding tier_ok_def by (metis image_iff subset_iff)

lemma combo_ok_mono: "pName ` set ps \<subseteq> pName ` set qs \<Longrightarrow> combo_ok ps c \<Longrightarrow> combo_ok qs c"
  unfolding combo_ok_def using tier_ok_mono by blast

lemma pin_ok_mono: "lID ` set qs \<subseteq> lID ` set rs \<Longrightarrow> pin_ok m i qs \<Longrightarrow> pin_ok m i rs"
  by (auto simp: pin_ok_def split: option.splits)

lemma pin_ok_global [simp]: "pin_ok ProxyModeGlobal None qs"
  by (simp add: pin_ok_def ProxyModeGlobal_def ProxyModePool_def)

lemma same_rows_refl [simp]: "same_rows s s"
  by (simp add: same_rows_def)

lemma no_match_update: "\<forall>r \<in> set t. \<not> P r \<Longrightarrow> set (update_rows P f t) = set t"
  by (auto simp: set_update_rows)

lemma clean_intros:
  "clean s (Inl e, s)"
  "clean s (wrapped (Transaction G body s))"
  "clean s rest \<Longrightarrow> clean s (unless_error check s rest)"
  "clean s x \<Longrightarrow> clean s (case x of (r, s') \<Rightarrow> (map_sum id f r, s'))"
  "(Q \<Longrightarrow> clean s y) \<Longrightarrow> (\<not> Q \<Longrightarrow> clean s z) \<Longrightarrow> clean s (if Q then y else z)"
  by (auto simp: clean_def wrapped_def Transaction_def wrapStoreError_def unless_error_def map_sum_def
      split: sum.splits option.splits prod.splits)

lemma clean_affected:
  "(\<And>t. x = Inr (0, t) \<Longrightarrow> same_rows s (f t)) \<Longrightarrow>
   clean s (case x of Inl e \<Rightarrow> (wrapStoreError (Inl e), s) | Inr (n, t) \<Rightarrow> if n = 0 then (a, f t) else (Inr b, f t))"
  by (auto simp: clean_def split: sum.splits prod.splits if_splits)

lemma clean_outcome: "clean s (q, t) \<Longrightarrow> outcome q = Inl e \<Longrightarrow> same_rows s t"
  by (cases q) (auto simp: clean_def outcome_def)

lemma Transaction_ok: "wrapped (Transaction G body s) = (Inr a, t) \<Longrightarrow> body s = Inr (a, t)"
  by (auto simp: wrapped_def Transaction_def wrapStoreError_def split: sum.splits option.splits prod.splits if_splits)

lemma masked_ok: "(case x of (r, s') \<Rightarrow> (map_sum id f r, s')) = (Inr a, t) \<Longrightarrow> \<exists>b. x = (Inr b, t) \<and> a = f b"
  by (cases x; cases "fst x") auto

lemma unless_error_ok: "unless_error check s rest = (Inr a, t) \<Longrightarrow> check = Inr () \<and> rest = (Inr a, t)"
  by (auto simp: unless_error_def split: sum.splits)

lemma rename_same: "rename_combo n n c = c"
proof -
  have "rename_tier n n = id" by (auto simp: rename_tier_def)
  then show ?thesis by (simp add: rename_combo_def)
qed

text \<open>The database with its four tables and the validator.\<close>

locale registry_db =
  P: gorm_laws pID pName stored_provider "tProvider G" +
  C: gorm_laws cID cName stored_combo "tCombo G" +
  L: gorm_laws lID lName stored_pool "tPool G" +
  B: gorm_laws bName bName stored_builtin "tBuiltin G" +
  validator_laws V
  for G :: gorm and V :: validator
begin

lemma ensureProxyPool_ok:
  assumes "ensureProxyPool G m i s = Inr ()" "m = NormalizeProxyMode m" "m \<noteq> ProxyModePool \<Longrightarrow> i = None"
  shows "pin_ok m i (pools s)"
proof (cases "m = ProxyModePool")
  case True
  then obtain k n where i: "i = Some k" and n: "gCount (tPool G) (\<lambda>q. lID q = k) (pools s) = Inr n" "n \<noteq> 0"
    using assms(1,2) by (auto simp: ensureProxyPool_def bind_res_Inr_iff split: option.splits if_splits)
  from L.count [OF n(1)] n(2) show ?thesis using True i by (auto simp: pin_ok_def)
qed (simp add: assms(3) pin_ok_def)

lemma pools_changed:
  assumes "store_inv s" "lID ` set (pools s) \<subseteq> lID ` set t" "table_ok lID lName t"
  shows "store_inv (s\<lparr>pools := t\<rparr>)"
  using assms pin_ok_mono [OF assms(2)] by (simp add: store_inv_def tables_ok_def)

lemma update_ids:
  assumes "table_ok lID lName t" "gUpdates (tPool G) Q f t = Inr (n, t')" "\<And>q. lID (f q) = lID q"
  shows "lID ` set t' = lID ` set t \<and> table_ok lID lName t'"
  using L.updates [OF assms(1,2)] image_update_rows [of lID f Q t, OF assms(3)] by simp

lemma pools_updated:
  assumes "store_inv s" "gUpdates (tPool G) Q f (pools s) = Inr (n, t)" "\<And>q. lID (f q) = lID q"
  shows "store_inv (s\<lparr>pools := t\<rparr>)"
proof -
  have "table_ok lID lName (pools s)" using assms(1) by (simp add: store_inv_def tables_ok_def)
  from update_ids [OF this assms(2,3)] show ?thesis by (simp add: pools_changed [OF assms(1)])
qed

lemma inv_MarkPoolTest: "store_inv s \<Longrightarrow> store_inv (snd (MarkPoolTest G i ok e s))"
  unfolding MarkPoolTest_def by (rule affected_keeps, assumption, erule (1) pools_updated) simp_all

lemma inv_UpdatePool: "store_inv s \<Longrightarrow> store_inv (snd (UpdatePool G V i q s))"
  unfolding UpdatePool_def
  by (rule unless_error_keeps, assumption, rule affected_keeps, assumption, erule (1) pools_updated) simp_all

lemma inv_CreatePool:
  assumes inv: "store_inv s"
  shows "store_inv (snd (CreatePool G V q s))"
proof -
  have ok: "table_ok lID lName (pools s)" using inv by (simp add: store_inv_def tables_ok_def)
  have new: "store_inv (s\<lparr>pools := t\<rparr>)" if "gCreate (tPool G) r (pools s) = Inr (r', t)" for r r' t
    using L.create [OF ok that] by (intro pools_changed [OF inv]) auto
  have "store_inv (s\<lparr>pools := t'\<rparr>)"
    if "gCreate (tPool G) r (pools s) = Inr (r', t)" "gUpdates (tPool G) Q (\<lambda>r. r\<lparr>lEnabled := False\<rparr>) t = Inr (n, t')"
    for r r' t Q n t'
    using pools_updated [OF new [OF that(1)], of Q "\<lambda>r. r\<lparr>lEnabled := False\<rparr>" n t'] that(2) by simp
  then show ?thesis unfolding CreatePool_def
    by (intro unless_error_keeps Transaction_keeps inv) (auto simp: bind_res_Inr_iff dest: new split: if_splits)
qed

lemma inv_tables: "store_inv s \<Longrightarrow> table_ok pID pName (providers s)" "store_inv s \<Longrightarrow> table_ok cID cName (combos s)"
  "store_inv s \<Longrightarrow> table_ok lID lName (pools s)" "store_inv s \<Longrightarrow> table_ok bName bName (builtins s)"
  by (simp_all add: store_inv_def tables_ok_def)

lemma combos_changed:
  "store_inv s \<Longrightarrow> table_ok cID cName t \<Longrightarrow> \<forall>c \<in> set t. combo_ok (providers s) c \<Longrightarrow> store_inv (s\<lparr>combos := t\<rparr>)"
  by (simp add: store_inv_def tables_ok_def)

lemma inv_combos: "store_inv s \<Longrightarrow> c \<in> set (combos s) \<Longrightarrow> combo_ok (providers s) c"
  by (simp add: store_inv_def)

lemma inv_DeleteCombo: "store_inv s \<Longrightarrow> store_inv (snd (DeleteCombo G i s))"
  unfolding DeleteCombo_def
proof (rule affected_keeps)
  fix n t assume inv: "store_inv s" and d: "gDelete (tCombo G) (\<lambda>r. cID r = i) (combos s) = Inr (n, t)"
  then show "store_inv (s\<lparr>combos := t\<rparr>)"
    using C.delete [OF inv_tables(2) [OF inv] d] by (intro combos_changed) (auto simp: inv_combos)
qed

lemma checkTiersExist_ok:
  "checkTiersExist G ts s = Inr () \<Longrightarrow> t \<in> set ts \<Longrightarrow> trim_space (tierProvider t) = ''custom:'' @ n \<Longrightarrow>
   \<not> IsBuiltin (''custom:'' @ n) \<Longrightarrow> \<exists>p \<in> set (providers s). pName p = n"
proof (induction ts)
  case (Cons u ts)
  then show ?case
    by (auto simp: Let_def bind_res_Inr_iff trim_prefix_def dest!: P.first split: if_splits)
qed simp

lemma combo_checked:
  assumes "validateTiers V (Tiers (trim_tiers c)) = Inr ()" "checkTiersExist G (Tiers (trim_tiers c)) s = Inr ()"
  shows "combo_ok (providers s) ((trim_tiers c)\<lparr>cID := k\<rparr>)"
proof -
  have t: "trim_space (tierProvider t) = tierProvider t" if "t \<in> set (Tiers (trim_tiers c))" for t
    using that by (auto simp: trim_tiers_def)
  show ?thesis using validateTiers_ok [OF assms(1)] checkTiersExist_ok [OF assms(2)] t
    unfolding combo_ok_def tier_ok_def names_provider_def by fastforce
qed

lemma inv_SaveCombo:
  assumes inv: "store_inv s"
  shows "store_inv (snd (SaveCombo G V c s))"
proof -
  have "store_inv (s\<lparr>combos := t\<rparr>)"
    if v: "validateTiers V (Tiers (trim_tiers c)) = Inr ()" "checkTiersExist G (Tiers (trim_tiers c)) s = Inr ()"
      and d: "gCreate (tCombo G) ((trim_tiers c)\<lparr>cID := 0\<rparr>) (combos s) = Inr (d, t)" for d t
  proof -
    obtain k where "d = (trim_tiers c)\<lparr>cID := k\<rparr>" "set t = insert d (set (combos s))" "table_ok cID cName t"
      using C.create [OF inv_tables(2) [OF inv] d] by (auto simp: stored_combo_def)
    then show ?thesis using combo_checked [OF v] inv_combos [OF inv] by (intro combos_changed inv) auto
  qed
  then show ?thesis unfolding SaveCombo_def Let_def
    by (intro unless_error_keeps Transaction_keeps inv) (auto simp: bind_res_Inr_iff)
qed

lemma inv_UpdateCombo:
  assumes inv: "store_inv s"
  shows "store_inv (snd (UpdateCombo G V i c s))"
proof -
  have "store_inv (s\<lparr>combos := t\<rparr>)"
    if v: "validateTiers V (Tiers (trim_tiers c)) = Inr ()" "checkTiersExist G (Tiers (trim_tiers c)) s = Inr ()"
      and d: "gSave (tCombo G) ((trim_tiers c)\<lparr>cID := k\<rparr>) (combos s) = Inr t" for k t
    using C.save [OF inv_tables(2) [OF inv] d] combo_checked [OF v] inv_combos [OF inv] by (intro combos_changed inv) auto
  then show ?thesis unfolding UpdateCombo_def Let_def
    by (intro unless_error_keeps Transaction_keeps inv) (auto simp: bind_res_Inr_iff)
qed

lemma inv_SetBuiltinProxy:
  assumes inv: "store_inv s"
  shows "store_inv (snd (SetBuiltinProxy G V name mode j s))"
proof -
  let ?m = "NormalizeProxyMode mode" and ?i = "if NormalizeProxyMode mode \<noteq> ProxyModePool then None else j"
  let ?b = "\<lparr>bName = name, bProxyMode = ?m, bProxyPoolID = ?i\<rparr>"
  have "store_inv (s\<lparr>builtins := t\<rparr>)"
    if e: "ensureProxyPool G ?m ?i s = Inr ()" and d: "gSave (tBuiltin G) ?b (builtins s) = Inr t" for t
  proof -
    have "pin_ok ?m ?i (pools s)" using ensureProxyPool_ok [OF e] by simp
    then show ?thesis using inv B.save [OF inv_tables(4) [OF inv] d] by (auto simp: store_inv_def tables_ok_def)
  qed
  then show ?thesis using inv unfolding SetBuiltinProxy_def Let_def
    by (auto simp: bind_res_Inr_iff simp del: snd_wrapped intro!: unless_error_keeps Transaction_keeps)
qed

lemma unpin_inv:
  assumes t: "tables_ok s" and c: "\<forall>c \<in> set (combos s). combo_ok (providers s) c" and p: "pins_ok_but i s"
    and u: "unpin G i s = Inr (x, s')"
  shows "store_inv s'"
proof -
  obtain n m v w where v: "gUpdates (tProvider G) (\<lambda>p. ProxyPoolID p = Some i) reset_pin (providers s) = Inr (n, v)"
    and w: "gUpdates (tBuiltin G) (\<lambda>b. bProxyPoolID b = Some i) reset_builtin_pin (builtins s) = Inr (m, w)"
    and s': "s' = s\<lparr>providers := v, builtins := w\<rparr>"
    using u by (auto simp: unpin_def bind_res_Inr_iff)
  have V: "set v = reset_pin ` {p \<in> set (providers s). ProxyPoolID p = Some i} \<union> {p \<in> set (providers s). ProxyPoolID p \<noteq> Some i}"
    "table_ok pID pName v" using P.updates [OF _ v] t by (simp_all add: tables_ok_def set_update_rows)
  have W: "set w = reset_builtin_pin ` {b \<in> set (builtins s). bProxyPoolID b = Some i} \<union> {b \<in> set (builtins s). bProxyPoolID b \<noteq> Some i}"
    "table_ok bName bName w" using B.updates [OF _ w] t by (simp_all add: tables_ok_def set_update_rows)
  have "pName ` set (providers s) \<subseteq> pName ` set v"
    using P.updates [OF _ v] t by (simp add: tables_ok_def image_update_rows reset_pin_def)
  then have "\<forall>c \<in> set (combos s). combo_ok v c" using c combo_ok_mono by blast
  moreover have "\<forall>q \<in> set v. pin_ok (ProxyMode q) (ProxyPoolID q) (pools s)"
    using p unfolding V(1) pins_ok_but_def by (auto simp: reset_pin_def)
  moreover have "\<forall>b \<in> set w. pin_ok (bProxyMode b) (bProxyPoolID b) (pools s)"
    using p unfolding W(1) pins_ok_but_def by (auto simp: reset_builtin_pin_def)
  ultimately show ?thesis using t V(2) W(2) by (simp add: s' store_inv_def tables_ok_def)
qed

lemma inv_UnpinPool: "store_inv s \<Longrightarrow> store_inv (snd (UnpinPool G i s))"
  unfolding UnpinPool_def
  by (rule Transaction_keeps, assumption, erule unpin_inv [rotated 3]) (auto simp: store_inv_def pins_ok_but_def)

lemma inv_DeletePool:
  assumes inv: "store_inv s"
  shows "store_inv (snd (DeletePool G i s))"
proof -
  have "store_inv s'"
    if d: "gDelete (tPool G) (\<lambda>q. lID q = i) (pools s) = Inr (n, t)" and u: "unpin G i (s\<lparr>pools := t\<rparr>) = Inr (x, s')" for n t x s'
  proof -
    have t: "set t = {q \<in> set (pools s). lID q \<noteq> i}" "table_ok lID lName t"
      using L.delete [OF inv_tables(3) [OF inv] d] by simp_all
    have "pin_ok m j t" if "pin_ok m j (pools s)" "j \<noteq> Some i" for m j
      using that by (auto simp: pin_ok_def t(1) split: option.splits)
    then have "pins_ok_but i (s\<lparr>pools := t\<rparr>)" using inv by (simp add: pins_ok_but_def store_inv_def)
    then show ?thesis using inv t(2) by (intro unpin_inv [OF _ _ _ u]) (simp_all add: store_inv_def tables_ok_def)
  qed
  then show ?thesis unfolding DeletePool_def
    by (intro Transaction_keeps inv) (auto simp: bind_res_Inr_iff split: if_splits)
qed

lemma normalized_pin:
  assumes "ensureProxyPool G (ProxyMode (normalized_provider p)) (ProxyPoolID (normalized_provider p)) s = Inr ()"
  shows "pin_ok (ProxyMode (normalized_provider p)) (ProxyPoolID (normalized_provider p)) (pools s)"
  using ensureProxyPool_ok [OF assms] by (auto simp: normalized_provider_def)

lemma providers_changed:
  assumes "store_inv s" "table_ok pID pName t" "pName ` set (providers s) \<subseteq> pName ` set t"
    "\<forall>p \<in> set t. pin_ok (ProxyMode p) (ProxyPoolID p) (pools s)"
  shows "store_inv (s\<lparr>providers := t\<rparr>)"
  using assms combo_ok_mono [OF assms(3)] by (simp add: store_inv_def tables_ok_def)

lemma inv_CreateProvider:
  assumes inv: "store_inv s"
  shows "store_inv (snd (CreateProvider G V p s))"
proof -
  let ?p = "normalized_provider p"
  have new: "store_inv (s\<lparr>providers := t\<rparr>)"
    if e: "ensureProxyPool G (ProxyMode ?p) (ProxyPoolID ?p) s = Inr ()"
      and d: "gCreate (tProvider G) (?p\<lparr>pID := 0\<rparr>) (providers s) = Inr (q, t)" for q t
  proof -
    obtain k where "q = ?p\<lparr>pID := k, pEnabled := True\<rparr>" "set t = insert q (set (providers s))" "table_ok pID pName t"
      using P.create [OF inv_tables(1) [OF inv] d] by (auto simp: stored_provider_def)
    then show ?thesis using inv normalized_pin [OF e] by (intro providers_changed) (auto simp: store_inv_def)
  qed
  have "store_inv (s\<lparr>providers := t'\<rparr>)"
    if e: "ensureProxyPool G (ProxyMode ?p) (ProxyPoolID ?p) s = Inr ()"
      and d: "gCreate (tProvider G) (?p\<lparr>pID := 0\<rparr>) (providers s) = Inr (q, t)"
      and u: "gUpdates (tProvider G) Q (\<lambda>r. r\<lparr>pEnabled := False\<rparr>) t = Inr (n, t')" for q t Q n t'
  proof -
    have i: "store_inv (s\<lparr>providers := t\<rparr>)" by (rule new [OF e d])
    have t': "set t' = set (update_rows Q (\<lambda>r. r\<lparr>pEnabled := False\<rparr>) t)" "table_ok pID pName t'"
      using P.updates [OF _ u] inv_tables(1) [OF i] by simp_all
    have "pName ` set t \<subseteq> pName ` set t'" by (simp add: t'(1) image_update_rows)
    moreover have "\<forall>p \<in> set t'. pin_ok (ProxyMode p) (ProxyPoolID p) (pools s)"
      using i unfolding t'(1) by (auto simp: store_inv_def set_update_rows)
    ultimately show ?thesis using providers_changed [OF i t'(2)] by simp
  qed
  then show ?thesis unfolding CreateProvider_def Let_def
    by (intro unless_error_keeps let_pair_keeps Transaction_keeps inv) (auto simp: bind_res_Inr_iff dest: new split: if_splits)
qed

lemma rename_combos_rows:
  "rename_combos G old new cs t = Inr t' \<Longrightarrow> table_ok cID cName t \<Longrightarrow> set cs \<subseteq> set t \<Longrightarrow> distinct cs \<Longrightarrow>
   set t' = rename_combo old new ` set cs \<union> (set t - set cs) \<and> table_ok cID cName t'"
proof (induction cs arbitrary: t)
  case (Cons c cs)
  show ?case
  proof (cases "list_ex (names_provider old) (Tiers c)")
    case True
    then obtain u where u: "gSave (tCombo G) (rename_combo old new c) t = Inr u" and r: "rename_combos G old new cs u = Inr t'"
      using Cons.prems(1) by (auto simp: bind_res_Inr_iff rename_combo_def)
    have su: "set u = insert (rename_combo old new c) (set t - {c})" "table_ok cID cName u"
      using C.save_row [OF Cons.prems(2) _ u, of c] Cons.prems(3) by (simp_all add: rename_combo_def)
    have "rename_combo old new c \<notin> set cs"
      using C.row_by_id [OF Cons.prems(2), of "rename_combo old new c" c] Cons.prems(3,4) by (auto simp: rename_combo_def)
    then show ?thesis using Cons.IH [OF r su(2)] Cons.prems(3,4) su(1) by auto
  next
    case False
    then have "map (rename_tier old new) (Tiers c) = Tiers c"
      by (intro map_idI) (auto simp: rename_tier_def names_provider_def list_ex_iff)
    then have "rename_combo old new c = c" by (simp add: rename_combo_def)
    then show ?thesis using Cons.IH [of t] Cons.prems False by auto
  qed
qed simp

lemma rename_combo_ok:
  assumes "combo_ok ps c" "pName ` set ps - {old} \<subseteq> pName ` set qs" "new \<in> pName ` set qs"
  shows "combo_ok qs (rename_combo old new c)"
proof -
  have "tier_ok qs (rename_tier old new t)" if "tier_ok ps t" for t
  proof (cases "names_provider old t")
    case True
    then show ?thesis using assms(3) by (auto simp: tier_ok_def rename_tier_def names_provider_def)
  next
    case False
    then show ?thesis using that assms(2)
      by (fastforce simp: tier_ok_def rename_tier_def names_provider_def image_iff)
  qed
  then show ?thesis using assms(1) by (auto simp: combo_ok_def rename_combo_def)
qed

lemma update_body_inv:
  assumes inv: "store_inv s" and f: "gFirst (tProvider G) (\<lambda>r. pID r = i) (providers s) = Inr cur"
    and q: "q = (normalized_provider p)\<lparr>pID := pID cur\<rparr>"
    and e: "ensureProxyPool G (ProxyMode q) (ProxyPoolID q) s = Inr ()"
    and t: "gSave (tProvider G) q (providers s) = Inr t"
  shows "table_ok pID pName t" "pName ` set (providers s) - {pName cur} \<subseteq> pName ` set t" "pName q \<in> pName ` set t"
    "\<forall>p \<in> set t. pin_ok (ProxyMode p) (ProxyPoolID p) (pools s)"
proof -
  have cur: "cur \<in> set (providers s)" using P.first [OF f] by simp
  have st: "set t = insert q (set (providers s) - {cur})" and ok: "table_ok pID pName t"
    using P.save_row [OF inv_tables(1) [OF inv] cur t] q by simp_all
  show "table_ok pID pName t" by (rule ok)
  show "pName ` set (providers s) - {pName cur} \<subseteq> pName ` set t" "pName q \<in> pName ` set t" using st by auto
  show "\<forall>p \<in> set t. pin_ok (ProxyMode p) (ProxyPoolID p) (pools s)"
    using normalized_pin [of p s] e inv st unfolding q by (auto simp: store_inv_def)
qed

lemma inv_UpdateProvider:
  assumes inv: "store_inv s"
  shows "store_inv (snd (UpdateProvider G V i p s))"
proof -
  have same: "store_inv (s\<lparr>providers := t\<rparr>)"
    if "gFirst (tProvider G) (\<lambda>r. pID r = i) (providers s) = Inr cur" "q = (normalized_provider p)\<lparr>pID := pID cur\<rparr>"
      "ensureProxyPool G (ProxyMode q) (ProxyPoolID q) s = Inr ()" "gSave (tProvider G) q (providers s) = Inr t"
      "pName q = pName cur" for cur q t
    using update_body_inv [OF inv that(1-4)] that(5) by (intro providers_changed inv) auto
  have renamed: "store_inv (s\<lparr>providers := t, combos := u\<rparr>)"
    if b: "gFirst (tProvider G) (\<lambda>r. pID r = i) (providers s) = Inr cur" "q = (normalized_provider p)\<lparr>pID := pID cur\<rparr>"
      "ensureProxyPool G (ProxyMode q) (ProxyPoolID q) s = Inr ()" "gSave (tProvider G) q (providers s) = Inr t"
      and cs: "gFind (tCombo G) (\<lambda>_. True) (combos s) = Inr cs"
      and u: "rename_combos G (pName cur) (pName q) cs (combos s) = Inr u" for cur q t cs u
  proof -
    note t = update_body_inv [OF inv b]
    have "distinct cs" using C.find_once [OF _ cs] inv_tables(2) [OF inv] by (simp add: table_ok_def distinct_map)
    then have u: "set u = rename_combo (pName cur) (pName q) ` set (combos s)" "table_ok cID cName u"
      using rename_combos_rows [OF u inv_tables(2) [OF inv]] C.find [OF cs] by auto
    have "combo_ok t c" if "c \<in> set u" for c
      using that rename_combo_ok [OF inv_combos [OF inv] t(2,3)] by (auto simp: u(1))
    then show ?thesis using inv t(1,4) u(2) by (simp add: store_inv_def tables_ok_def)
  qed
  show ?thesis unfolding UpdateProvider_def Let_def
    by (intro unless_error_keeps let_pair_keeps Transaction_keeps inv)
      (auto simp: bind_res_Inr_iff intro: same renamed split: if_splits)
qed

lemma drop_tiers_rows:
  "drop_tiers G name cs t = Inr t' \<Longrightarrow> table_ok cID cName t \<Longrightarrow> set cs \<subseteq> set t \<Longrightarrow> distinct cs \<Longrightarrow>
   \<forall>c \<in> set cs. Tiers c \<noteq> [] \<Longrightarrow>
   set t' = {d \<in> drop_combo name ` set cs. Tiers d \<noteq> []} \<union> (set t - set cs) \<and> table_ok cID cName t'"
proof (induction cs arbitrary: t)
  case (Cons c cs)
  let ?d = "drop_combo name c"
  have IH: "set t' = {d \<in> drop_combo name ` set cs. Tiers d \<noteq> []} \<union> (set u - set cs) \<and> table_ok cID cName t'"
    if "drop_tiers G name cs u = Inr t'" "table_ok cID cName u" "set cs \<subseteq> set u" for u
    using Cons.IH [OF that] Cons.prems(4,5) by simp
  have c: "c \<in> set t" "c \<notin> set cs" using Cons.prems by auto
  show ?case
  proof (cases "list_ex (names_provider name) (Tiers c)")
    case False
    then have "?d = c" by (auto simp: drop_combo_def list_ex_iff intro!: filter_True)
    then show ?thesis using IH [of t] Cons.prems False by auto
  next
    case True
    show ?thesis
    proof (cases "Tiers ?d = []")
      case True
      then obtain n u where u: "gDelete (tCombo G) (\<lambda>r. cID r = cID c) t = Inr (n, u)" and r: "drop_tiers G name cs u = Inr t'"
        using Cons.prems(1) \<open>list_ex _ _\<close> by (auto simp: bind_res_Inr_iff Let_def drop_combo_def)
      have "set u = set t - {c}" "table_ok cID cName u" using C.delete_row [OF Cons.prems(2) c(1) u] by simp_all
      then show ?thesis using IH [OF r] Cons.prems(3) c True by auto
    next
      case False
      then obtain u where u: "gSave (tCombo G) ?d t = Inr u" and r: "drop_tiers G name cs u = Inr t'"
        using Cons.prems(1) \<open>list_ex _ _\<close> by (auto simp: bind_res_Inr_iff Let_def drop_combo_def)
      have su: "set u = insert ?d (set t - {c})" "table_ok cID cName u"
        using C.save_row [OF Cons.prems(2) c(1) u] by (simp_all add: drop_combo_def)
      have "?d \<notin> set cs"
        using C.row_by_id [OF Cons.prems(2), of ?d c] Cons.prems(3) c by (auto simp: drop_combo_def)
      then show ?thesis using IH [OF r su(2)] Cons.prems(3,5) c su(1) False by auto
    qed
  qed
qed simp

lemma inv_DeleteProvider:
  assumes inv: "store_inv s"
  shows "store_inv (snd (DeleteProvider G i s))"
proof -
  have "store_inv (s\<lparr>providers := t, combos := u\<rparr>)"
    if f: "gFirst (tProvider G) (\<lambda>r. pID r = i) (providers s) = Inr cur"
      and d: "gDelete (tProvider G) (\<lambda>r. pID r = i) (providers s) = Inr (n, t)"
      and cs: "gFind (tCombo G) (\<lambda>_. True) (combos s) = Inr cs"
      and u: "drop_tiers G (pName cur) cs (combos s) = Inr u" for cur n t cs u
  proof -
    have cur: "cur \<in> set (providers s)" "pID cur = i" using P.first [OF f] by simp_all
    have t: "set t = set (providers s) - {cur}" "table_ok pID pName t"
      using P.delete_row [OF inv_tables(1) [OF inv] cur(1)] d cur(2) by auto
    have cs': "set cs = set (combos s)" using C.find [OF cs] by simp
    have "distinct cs" using C.find_once [OF _ cs] inv_tables(2) [OF inv] by (simp add: table_ok_def distinct_map)
    then have u: "set u = {d \<in> drop_combo (pName cur) ` set (combos s). Tiers d \<noteq> []}" "table_ok cID cName u"
      using drop_tiers_rows [OF u inv_tables(2) [OF inv]] inv_combos [OF inv] cs' by (auto simp: combo_ok_def)
    have "tier_ok t tr" if "tier_ok (providers s) tr" "\<not> names_provider (pName cur) tr" for tr
      using that unfolding tier_ok_def t(1) by auto
    then have "combo_ok t c" if "c \<in> set u" for c
      using that inv_combos [OF inv] by (auto simp: u(1) combo_ok_def drop_combo_def)
    then show ?thesis using inv t u(2) by (auto simp: store_inv_def tables_ok_def)
  qed
  then show ?thesis unfolding DeleteProvider_def
    by (intro Transaction_keeps inv) (auto simp: bind_res_Inr_iff)
qed

lemmas store_op_inv = inv_CreateProvider inv_UpdateProvider inv_DeleteProvider inv_SaveCombo inv_UpdateCombo inv_DeleteCombo
  inv_MarkPoolTest inv_CreatePool inv_UpdatePool inv_DeletePool inv_UnpinPool inv_SetBuiltinProxy

lemma inv_step:
  assumes "store_step G V r s t" "store_inv s"
  shows "store_inv t"
  using assms(1) store_op_inv [OF assms(2)] by cases (metis snd_conv)+

lemma inv_reach: "store_reach G V s \<Longrightarrow> store_inv s"
proof (induction rule: store_reach.induct)
  case init
  then show ?case by (simp add: store_inv_def tables_ok_def table_ok_def empty_store_def)
qed (rule inv_step)

lemma clean_ops:
  assumes "tables_ok s"
  shows "clean s (CreateProvider G V p s)" "clean s (UpdateProvider G V i p s)" "clean s (DeleteProvider G i s)"
    "clean s (SaveCombo G V c s)" "clean s (UpdateCombo G V i c s)" "clean s (DeleteCombo G i s)"
    "clean s (MarkPoolTest G i ok m s)" "clean s (CreatePool G V q s)" "clean s (UpdatePool G V i q s)"
    "clean s (DeletePool G i s)" "clean s (UnpinPool G i s)" "clean s (SetBuiltinProxy G V name mode j s)"
proof -
  have L: "same_rows s (s\<lparr>pools := u\<rparr>)" if "gUpdates (tPool G) Q f (pools s) = Inr (0, u)" for Q f u
    using L.updates [OF _ that] assms by (simp add: tables_ok_def no_match_update same_rows_def)
  have C: "same_rows s (s\<lparr>combos := u\<rparr>)" if "gDelete (tCombo G) Q (combos s) = Inr (0, u)" for Q u
    using C.delete [OF _ that] assms by (auto simp: tables_ok_def same_rows_def)
  note defs = CreateProvider_def UpdateProvider_def DeleteProvider_def SaveCombo_def UpdateCombo_def DeleteCombo_def
    MarkPoolTest_def CreatePool_def UpdatePool_def DeletePool_def UnpinPool_def SetBuiltinProxy_def
  show "clean s (CreateProvider G V p s)" "clean s (UpdateProvider G V i p s)" "clean s (DeleteProvider G i s)"
    "clean s (SaveCombo G V c s)" "clean s (UpdateCombo G V i c s)" "clean s (DeleteCombo G i s)"
    "clean s (MarkPoolTest G i ok m s)" "clean s (CreatePool G V q s)" "clean s (UpdatePool G V i q s)"
    "clean s (DeletePool G i s)" "clean s (UnpinPool G i s)" "clean s (SetBuiltinProxy G V name mode j s)"
    unfolding defs Let_def by (intro clean_intros clean_affected impI; erule L C)+
qed

lemma error_keeps_rows:
  assumes "store_step G V r s t" "r = Inl e" "tables_ok s"
  shows "same_rows s t"
  using assms(1,2) clean_ops [OF assms(3)] by cases (metis clean_outcome)+

lemma delete_pool_result:
  assumes "tables_ok s" "DeletePool G i s = (Inr (), t)"
  shows "set (pools t) = {q \<in> set (pools s). lID q \<noteq> i}"
    "set (providers t) = set (update_rows (\<lambda>p. ProxyPoolID p = Some i) reset_pin (providers s))"
    "set (builtins t) = set (update_rows (\<lambda>b. bProxyPoolID b = Some i) reset_builtin_pin (builtins s))"
    "combos t = combos s"
proof -
  obtain n u where d: "gDelete (tPool G) (\<lambda>q. lID q = i) (pools s) = Inr (n, u)" and p: "unpin G i (s\<lparr>pools := u\<rparr>) = Inr ((), t)"
    using Transaction_ok [OF assms(2) [unfolded DeletePool_def]] by (auto simp: bind_res_Inr_iff split: if_splits)
  obtain m v k w where v: "gUpdates (tProvider G) (\<lambda>p. ProxyPoolID p = Some i) reset_pin (providers s) = Inr (m, v)"
    and w: "gUpdates (tBuiltin G) (\<lambda>b. bProxyPoolID b = Some i) reset_builtin_pin (builtins s) = Inr (k, w)"
    and t: "t = s\<lparr>pools := u, providers := v, builtins := w\<rparr>"
    using p by (auto simp: unpin_def bind_res_Inr_iff)
  show "set (pools t) = {q \<in> set (pools s). lID q \<noteq> i}" "combos t = combos s"
    "set (providers t) = set (update_rows (\<lambda>p. ProxyPoolID p = Some i) reset_pin (providers s))"
    "set (builtins t) = set (update_rows (\<lambda>b. bProxyPoolID b = Some i) reset_builtin_pin (builtins s))"
    using L.delete [OF _ d] P.updates [OF _ v] B.updates [OF _ w] assms(1) by (simp_all add: t tables_ok_def)
qed

lemma update_provider_result:
  assumes "tables_ok s" "UpdateProvider G V i p s = (Inr r, t)"
  shows "\<exists>cur \<in> set (providers s). pID cur = i \<and> r = masked ((normalized_provider p)\<lparr>pID := i\<rparr>) \<and>
    set (providers t) = insert ((normalized_provider p)\<lparr>pID := i\<rparr>) (set (providers s) - {cur}) \<and>
    set (combos t) = rename_combo (pName cur) (pName p) ` set (combos s)"
proof -
  let ?q = "(normalized_provider p)\<lparr>pID := i\<rparr>"
  have ok: "table_ok pID pName (providers s)" "table_ok cID cName (combos s)" using assms(1) by (simp_all add: tables_ok_def)
  have n: "pName (normalized_provider p) = pName p" by (simp add: normalized_provider_def)
  obtain cur v where cur: "gFirst (tProvider G) (\<lambda>r. pID r = i) (providers s) = Inr cur"
    and v: "gSave (tProvider G) ((normalized_provider p)\<lparr>pID := pID cur\<rparr>) (providers s) = Inr v"
    and r: "r = masked ((normalized_provider p)\<lparr>pID := pID cur\<rparr>)"
    and t: "(pName p = pName cur \<and> t = s\<lparr>providers := v\<rparr>) \<or>
      (\<exists>cs u. gFind (tCombo G) (\<lambda>_. True) (combos s) = Inr cs \<and>
        rename_combos G (pName cur) (pName p) cs (combos s) = Inr u \<and> t = s\<lparr>providers := v, combos := u\<rparr>)"
    using assms(2) unfolding UpdateProvider_def Let_def
    by (auto dest!: unless_error_ok masked_ok Transaction_ok simp: bind_res_Inr_iff n split: if_splits)
  have c: "cur \<in> set (providers s)" "pID cur = i" using P.first [OF cur] by simp_all
  have sv: "set v = insert ?q (set (providers s) - {cur})" using P.save_row [OF ok(1) c(1) v] c(2) by simp
  have "set (combos t) = rename_combo (pName cur) (pName p) ` set (combos s)"
    using t
  proof (elim disjE exE conjE)
    fix cs u
    assume cs: "gFind (tCombo G) (\<lambda>_. True) (combos s) = Inr cs"
      and u: "rename_combos G (pName cur) (pName p) cs (combos s) = Inr u" and t: "t = s\<lparr>providers := v, combos := u\<rparr>"
    have "distinct cs" using C.find_once [OF _ cs] ok(2) by (simp add: table_ok_def distinct_map)
    then show ?thesis using rename_combos_rows [OF u ok(2)] C.find [OF cs] by (simp add: t)
  qed (simp add: rename_same)
  then show ?thesis using c r sv t by auto
qed

lemma create_provider_result:
  assumes "tables_ok s" "CreateProvider G V p s = (Inr r, t)"
  shows "\<exists>k. k \<notin> pID ` set (providers s) \<and> r = masked ((normalized_provider p)\<lparr>pID := k\<rparr>) \<and>
    set (providers t) = insert ((normalized_provider p)\<lparr>pID := k\<rparr>) (set (providers s))"
proof -
  let ?p = "normalized_provider p"
  have ok: "table_ok pID pName (providers s)" using assms(1) by (simp add: tables_ok_def)
  obtain q u where q: "gCreate (tProvider G) (?p\<lparr>pID := 0\<rparr>) (providers s) = Inr (q, u)"
    and t: "(pEnabled ?p \<and> r = masked q \<and> providers t = u) \<or>
      (\<not> pEnabled ?p \<and> r = masked (q\<lparr>pEnabled := False\<rparr>) \<and>
       (\<exists>n. gUpdates (tProvider G) (\<lambda>r. pID r = pID q) (\<lambda>r. r\<lparr>pEnabled := False\<rparr>) u = Inr (n, providers t)))"
    using assms(2) unfolding CreateProvider_def Let_def
    by (cases "pEnabled ?p") (auto dest!: unless_error_ok masked_ok Transaction_ok simp: bind_res_Inr_iff)
  obtain k where k: "k \<notin> pID ` set (providers s)" "q = ?p\<lparr>pID := k, pEnabled := True\<rparr>"
    and u: "set u = insert q (set (providers s))" "table_ok pID pName u"
    using P.create [OF ok q] by (auto simp: stored_provider_def)
  show ?thesis
  proof (cases "pEnabled ?p")
    case True
    then have "q = ?p\<lparr>pID := k\<rparr>" using k(2) by simp
    then show ?thesis using True k(1) u(1) t by blast
  next
    case False
    then have q': "q\<lparr>pEnabled := False\<rparr> = ?p\<lparr>pID := k\<rparr>" using k(2) by simp
    obtain n where "gUpdates (tProvider G) (\<lambda>r. pID r = pID q) (\<lambda>r. r\<lparr>pEnabled := False\<rparr>) u = Inr (n, providers t)"
      using t False by blast
    note up = P.updates [OF u(2) this]
    have "{r \<in> set u. pID r = pID q} = {q}" "{r \<in> set u. pID r \<noteq> pID q} = set (providers s)" using k u(1) by auto
    then have "set (providers t) = insert (?p\<lparr>pID := k\<rparr>) (set (providers s))"
      using up unfolding q' [symmetric] by (simp add: set_update_rows)
    moreover have "r = masked (?p\<lparr>pID := k\<rparr>)" using t False unfolding q' [symmetric] by blast
    ultimately show ?thesis using k(1) by blast
  qed
qed

end

text \<open>
  C1:
  In every state that any sequence of store operations reaches from empty tables, ids and names are
  unique in every table, every pool pin of a provider or builtin names an existing pool and goes with
  mode pool, and every combo has at least one tier, each of a builtin or of an existing provider.
\<close>

theorem registry_invariant:
  assumes "registry_db G V" "store_reach G V s"
  shows "store_inv s"
  using registry_db.inv_reach [OF assms] .

text \<open>
  C36:
  A store operation that returns an error leaves the rows of all four tables as they were, whether the
  error comes from validation, a missing row, a unique index, the database or the commit.
\<close>

theorem store_error_atomic:
  assumes "registry_db G V" "store_reach G V s" "store_step G V (Inl e) s t"
  shows "same_rows s t"
proof -
  have "tables_ok s" using registry_db.inv_reach [OF assms(1,2)] by (simp add: store_inv_def)
  then show ?thesis using registry_db.error_keeps_rows [OF assms(1,3)] by simp
qed

text \<open>
  A successful DeletePool removes exactly that pool and resets exactly the providers and builtins
  pinned to it to the global rotation; combos are untouched.
\<close>

theorem delete_pool_clears_pins:
  assumes "registry_db G V" "tables_ok s" "DeletePool G i s = (Inr (), t)"
  shows "set (pools t) = {q \<in> set (pools s). lID q \<noteq> i} \<and>
    set (providers t) = set (update_rows (\<lambda>p. ProxyPoolID p = Some i) reset_pin (providers s)) \<and>
    set (builtins t) = set (update_rows (\<lambda>b. bProxyPoolID b = Some i) reset_builtin_pin (builtins s)) \<and>
    combos t = combos s"
  using registry_db.delete_pool_result [OF assms] by blast

text \<open>
  A successful UpdateProvider replaces exactly the row with that id by the normalised provider,
  returns it with masked keys, and renames the provider in the tiers of every combo, in place and in
  order, leaving other tiers alone.
\<close>

theorem update_provider_renames_tiers:
  assumes "registry_db G V" "tables_ok s" "UpdateProvider G V i p s = (Inr r, t)"
  shows "\<exists>cur \<in> set (providers s). pID cur = i \<and> r = masked ((normalized_provider p)\<lparr>pID := i\<rparr>) \<and>
    set (providers t) = insert ((normalized_provider p)\<lparr>pID := i\<rparr>) (set (providers s) - {cur}) \<and>
    set (combos t) = rename_combo (pName cur) (pName p) ` set (combos s)"
  by (rule registry_db.update_provider_result [OF assms])

text \<open>
  A successful CreateProvider adds exactly one row, with a fresh id and the normalised fields; the
  enabled flag is the requested one although the database replaces false by the column default on
  insert, and the returned row has masked keys.
\<close>

theorem create_provider_stored:
  assumes "registry_db G V" "tables_ok s" "CreateProvider G V p s = (Inr r, t)"
  shows "\<exists>k. k \<notin> pID ` set (providers s) \<and> r = masked ((normalized_provider p)\<lparr>pID := k\<rparr>) \<and>
    set (providers t) = insert ((normalized_provider p)\<lparr>pID := k\<rparr>) (set (providers s))"
  by (rule registry_db.create_provider_result [OF assms])

lemma concat_fresh: "concat ks @ ''x'' \<notin> set (ks :: string list)"
proof
  assume "concat ks @ ''x'' \<in> set ks"
  then have "length (concat ks @ ''x'') \<le> sum_list (map length ks)" by (intro member_le_sum_list) (auto intro: rev_image_eqI)
  then show False by (simp add: length_concat)
qed

interpretation demo: registry_db demo_gorm any_value
proof -
  note laws = rows_table_laws [OF next_id_fresh] rows_table_laws [OF concat_fresh]
  show "registry_db demo_gorm any_value"
    unfolding registry_db_def demo_gorm_def
    by (simp add: laws stored_provider_def stored_combo_def stored_pool_def stored_builtin_def registered.validator_laws_axioms)
qed

theorem registry_invariant_witness: "store_inv (snd (CreatePool demo_gorm any_value demo_pool empty_store))"
proof (rule registry_invariant [OF demo.registry_db_axioms])
  let ?x = "CreatePool demo_gorm any_value demo_pool empty_store"
  show "store_reach demo_gorm any_value (snd ?x)"
    using store_reach.step [OF store_reach.init store_step.create_pool [of demo_gorm any_value demo_pool empty_store "fst ?x" "snd ?x"]]
    by simp
qed

theorem store_error_atomic_witness: "same_rows empty_store (snd (DeletePool demo_gorm 7 empty_store))"
proof (rule store_error_atomic [OF demo.registry_db_axioms store_reach.init])
  have "DeletePool demo_gorm 7 empty_store = (Inl [ErrNotFound], empty_store)" by code_simp
  then show "store_step demo_gorm any_value (Inl [ErrNotFound]) empty_store (snd (DeletePool demo_gorm 7 empty_store))"
    using store_step.delete_pool [of demo_gorm 7 empty_store "Inl [ErrNotFound]" empty_store any_value] by (simp add: outcome_def)
qed

theorem delete_pool_clears_pins_witness:
  "\<exists>t. DeletePool demo_gorm 1 demo_store = (Inr (), t) \<and> set (providers t) = {reset_pin (demo_provider\<lparr>pID := 1\<rparr>)}"
proof -
  have d: "DeletePool demo_gorm 1 demo_store = (Inr (), snd (DeletePool demo_gorm 1 demo_store))" by code_simp
  have "tables_ok demo_store" by code_simp
  from delete_pool_clears_pins [OF demo.registry_db_axioms this d] d show ?thesis
    by (intro exI [of _ "snd (DeletePool demo_gorm 1 demo_store)"]) (simp add: demo_store_def update_rows_def demo_provider_def)
qed

theorem update_provider_renames_tiers_witness:
  "\<exists>r t. UpdateProvider demo_gorm any_value 1 (demo_provider\<lparr>pName := ''new''\<rparr>) demo_store = (Inr r, t) \<and>
     set (combos t) = {rename_combo ''acme'' ''new'' demo_combo}"
proof -
  let ?u = "UpdateProvider demo_gorm any_value 1 (demo_provider\<lparr>pName := ''new''\<rparr>) demo_store"
  have "case ?u of (Inr r, t) \<Rightarrow> True | _ \<Rightarrow> False" by code_simp
  then obtain r t where u: "?u = (Inr r, t)" by (auto split: prod.splits sum.splits)
  have "tables_ok demo_store" by code_simp
  from update_provider_renames_tiers [OF demo.registry_db_axioms this u]
  have "set (combos t) = {rename_combo ''acme'' ''new'' demo_combo}" by (auto simp: demo_store_def demo_provider_def)
  then show ?thesis using u by blast
qed

theorem create_provider_stored_witness:
  "\<exists>r t k. CreateProvider demo_gorm any_value (demo_provider\<lparr>pName := ''beta'', pEnabled := False\<rparr>) demo_store = (Inr r, t) \<and>
     (normalized_provider (demo_provider\<lparr>pName := ''beta'', pEnabled := False\<rparr>))\<lparr>pID := k\<rparr> \<in> set (providers t)"
proof -
  let ?u = "CreateProvider demo_gorm any_value (demo_provider\<lparr>pName := ''beta'', pEnabled := False\<rparr>) demo_store"
  have "case ?u of (Inr r, t) \<Rightarrow> True | _ \<Rightarrow> False" by code_simp
  then obtain r t where u: "?u = (Inr r, t)" by (auto split: prod.splits sum.splits)
  have "tables_ok demo_store" by code_simp
  from create_provider_stored [OF demo.registry_db_axioms this u] u show ?thesis by auto
qed

end
