(* ===== verification/Client_Key_Admin.thy ===== *)
theory Client_Key_Admin
  imports Client_Keys
begin

text \<open>
  Administration of DB-managed client keys (internal/infrastructure/registry/apikeys.go): creating,
  listing, revealing, updating and deleting keys, each with the invalidation of the verification cache
  it performs, over the table interface of Database. The operations refine the abstract system of
  Client\_Keys, and a revoked key is rejected at once.
\<close>

section \<open>Keys and their operations (apikeys.go)\<close>

record client_key =
  kID :: nat
  kName :: string
  KeyHash :: string
  Plaintext :: string
  Prefix :: string
  kEnabled :: bool
  UseCount :: int
  LastUsed :: "int option"

record key_store =
  krows :: "client_key list"
  verifyCache :: clientKeyVerifyCache

definition clientKeyPrefix :: string where "clientKeyPrefix = ''fg_''"

definition hex_digit :: "nat \<Rightarrow> char" where
  "hex_digit d = (if d < 10 then digit_char d else char_of (d + 87))"

definition hex_encode :: "nat list \<Rightarrow> string" where
  "hex_encode bs = concat (map (\<lambda>b. [hex_digit (b div 16 mod 16), hex_digit (b mod 16)]) bs)"

text \<open>\<open>rnd\<close> is what rand.Read delivers, None when it fails; \<open>hash\<close> is the hex SHA-256.\<close>

definition GenerateClientKey :: "(string \<Rightarrow> string) \<Rightarrow> nat list option \<Rightarrow> (string \<times> string \<times> string) sres" where
  "GenerateClientKey hash rnd =
     (case rnd of
        None \<Rightarrow> Inl []
      | Some bs \<Rightarrow> (let raw = clientKeyPrefix @ hex_encode bs in Inr (raw, hash raw, take (length clientKeyPrefix + 8) raw)))"

definition CreateClientKey ::
  "client_key gorm_table \<Rightarrow> validator \<Rightarrow> (string \<Rightarrow> string) \<Rightarrow> nat list option \<Rightarrow> string \<Rightarrow> key_store \<Rightarrow>
   (client_key \<times> string) sres \<times> key_store" where
  "CreateClientKey T V hash rnd name s =
     (case validateResourceName V name of
        Inl e \<Rightarrow> (Inl e, s)
      | Inr _ \<Rightarrow>
          (case GenerateClientKey hash rnd of
             Inl e \<Rightarrow> (Inl e, s)
           | Inr (raw, h, pfx) \<Rightarrow>
               (let row = \<lparr>kID = 0, kName = name, KeyHash = h, Plaintext = raw, Prefix = pfx, kEnabled = True,
                      UseCount = 0, LastUsed = None\<rparr>
                in case gCreate T row (krows s) of
                     Inl e \<Rightarrow> (wrapStoreError (Inl e), s)
                   | Inr (r, t) \<Rightarrow> (Inr (r, raw), s\<lparr>krows := t, verifyCache := invalidate h (verifyCache s)\<rparr>))))"

definition without_secret :: "client_key \<Rightarrow> client_key" where
  "without_secret r = r\<lparr>KeyHash := [], Plaintext := []\<rparr>"

definition ListClientKeys :: "client_key gorm_table \<Rightarrow> key_store \<Rightarrow> client_key list sres" where
  "ListClientKeys T s = map_sum id (map without_secret) (wrapStoreError (gOrdered T (\<lambda>r. (0, kName r)) (krows s)))"

definition GetClientKey :: "client_key gorm_table \<Rightarrow> nat \<Rightarrow> key_store \<Rightarrow> client_key sres" where
  "GetClientKey T i s = map_sum id without_secret (wrapStoreError (gFirst T (\<lambda>r. kID r = i) (krows s)))"

definition RevealClientKey :: "client_key gorm_table \<Rightarrow> nat \<Rightarrow> key_store \<Rightarrow> string sres" where
  "RevealClientKey T i s =
     bind_res (wrapStoreError (gFirst T (\<lambda>r. kID r = i) (krows s)))
       (\<lambda>r. if Plaintext r = [] then Inl [ErrInvalidArgument] else Inr (Plaintext r))"

definition UpdateClientKey ::
  "client_key gorm_table \<Rightarrow> validator \<Rightarrow> nat \<Rightarrow> string \<Rightarrow> bool \<Rightarrow> key_store \<Rightarrow> client_key sres \<times> key_store" where
  "UpdateClientKey T V i name enabled s =
     (case validateResourceName V name of
        Inl e \<Rightarrow> (Inl e, s)
      | Inr _ \<Rightarrow>
          (case gUpdates T (\<lambda>r. kID r = i) (\<lambda>r. r\<lparr>kName := name, kEnabled := enabled\<rparr>) (krows s) of
             Inl e \<Rightarrow> (wrapStoreError (Inl e), s)
           | Inr (n, t) \<Rightarrow>
               if n = 0 then (Inl [ErrNotFound], s\<lparr>krows := t\<rparr>)
               else (let s' = s\<lparr>krows := t, verifyCache := invalidateAll (verifyCache s)\<rparr> in (GetClientKey T i s', s'))))"

definition DeleteClientKey :: "client_key gorm_table \<Rightarrow> nat \<Rightarrow> key_store \<Rightarrow> unit sres \<times> key_store" where
  "DeleteClientKey T i s =
     (case gDelete T (\<lambda>r. kID r = i) (krows s) of
        Inl e \<Rightarrow> (wrapStoreError (Inl e), s)
      | Inr (n, t) \<Rightarrow>
          if n = 0 then (Inl [ErrNotFound], s\<lparr>krows := t\<rparr>)
          else (Inr (), s\<lparr>krows := t, verifyCache := invalidateAll (verifyCache s)\<rparr>))"

text \<open>The row that the query of VerifyClientKey reads.\<close>

definition key_row :: "client_key gorm_table \<Rightarrow> client_key list \<Rightarrow> string \<Rightarrow> key_query" where
  "key_row T t h =
     (case gFirst T (\<lambda>r. KeyHash r = h) t of
        Inr r \<Rightarrow> Row (kEnabled r)
      | Inl e \<Rightarrow> if RecordNotFound \<in> set e then NoRow else QueryFailed)"

definition VerifyStored ::
  "client_key gorm_table \<Rightarrow> (string \<Rightarrow> string) \<Rightarrow> ((string, clientKeyVerifyEntry) gomap \<Rightarrow> (string, clientKeyVerifyEntry) gomap) \<Rightarrow>
   int \<Rightarrow> string \<Rightarrow> key_store \<Rightarrow> key_verdict \<times> key_store" where
  "VerifyStored T hash order now raw s =
     (case VerifyClientKey hash order (key_row T (krows s)) now raw (verifyCache s) of (v, c) \<Rightarrow> (v, s\<lparr>verifyCache := c\<rparr>))"

section \<open>Specifications\<close>

text \<open>A row as the database stores it: with its id and the column default of enabled.\<close>

definition stored_key :: "nat \<Rightarrow> client_key \<Rightarrow> client_key" where
  "stored_key k r = r\<lparr>kID := k, kEnabled := True\<rparr>"

text \<open>The abstract state of a key store: which hashes are enabled, no verification in flight, nothing owed.\<close>

definition key_abs :: "key_store \<Rightarrow> key_sys" where
  "key_abs s = \<lparr>kdb = \<lambda>h. \<exists>r \<in> set (krows s). KeyHash r = h \<and> kEnabled r, kcache = verifyCache s, jobs = [], owed = []\<rparr>"

definition demo_table :: "client_key gorm_table" where
  "demo_table = rows_table kID kName stored_key next_id"

definition demo_keys :: key_store where
  "demo_keys = \<lparr>krows = [\<lparr>kID = 1, kName = ''ci'', KeyHash = ''k'', Plaintext = ''k'', Prefix = ''k'', kEnabled = True,
     UseCount = 0, LastUsed = None\<rparr>], verifyCache = newClientKeyVerifyCache\<rparr>"

section \<open>Refinement of the verification system\<close>

interpretation key_table: gorm_laws kID kName stored_key demo_table
  unfolding demo_table_def by (rule rows_table_laws [OF next_id_fresh]) (simp add: stored_key_def)

lemma two_steps: "key_step a b \<Longrightarrow> key_step b c \<Longrightarrow> key_step\<^sup>*\<^sup>* a c"
  by (rule converse_rtranclp_into_rtranclp) auto

lemma change_then_inval:
  "key_step\<^sup>*\<^sup>* (key_abs s) (key_abs (s\<lparr>krows := t, verifyCache := invalidateAll (verifyCache s)\<rparr>))"
proof -
  let ?db = "\<lambda>h. \<exists>r \<in> set t. KeyHash r = h \<and> kEnabled r"
  let ?m = "(key_abs s)\<lparr>kdb := ?db, owed := All # owed (key_abs s)\<rparr>"
  have "key_step ?m (?m\<lparr>kcache := invalidateAll (kcache ?m), owed := remove1 All (owed ?m)\<rparr>)"
    by (rule key_step.inval_all) simp
  moreover have "?m\<lparr>kcache := invalidateAll (kcache ?m), owed := remove1 All (owed ?m)\<rparr>
      = key_abs (s\<lparr>krows := t, verifyCache := invalidateAll (verifyCache s)\<rparr>)"
    by (simp add: key_abs_def)
  ultimately have "key_step ?m (key_abs (s\<lparr>krows := t, verifyCache := invalidateAll (verifyCache s)\<rparr>))" by simp
  then show ?thesis by (rule two_steps [OF key_step.change])
qed

lemma create_then_inval:
  assumes "\<And>k. (\<exists>r \<in> set t. KeyHash r = k \<and> kEnabled r) \<longleftrightarrow> k = h \<or> (\<exists>r \<in> set (krows s). KeyHash r = k \<and> kEnabled r)"
  shows "key_step\<^sup>*\<^sup>* (key_abs s) (key_abs (s\<lparr>krows := t, verifyCache := invalidate h (verifyCache s)\<rparr>))"
proof -
  let ?m = "(key_abs s)\<lparr>kdb := (kdb (key_abs s))(h := True), owed := One h # owed (key_abs s)\<rparr>"
  have "key_step ?m (?m\<lparr>kcache := invalidate h (kcache ?m), owed := remove1 (One h) (owed ?m)\<rparr>)"
    by (rule key_step.inval_one) simp
  moreover have "?m\<lparr>kcache := invalidate h (kcache ?m), owed := remove1 (One h) (owed ?m)\<rparr>
      = key_abs (s\<lparr>krows := t, verifyCache := invalidate h (verifyCache s)\<rparr>)"
    using assms by (auto simp: key_abs_def fun_eq_iff)
  ultimately have "key_step ?m (key_abs (s\<lparr>krows := t, verifyCache := invalidate h (verifyCache s)\<rparr>))" by simp
  then show ?thesis by (rule two_steps [OF key_step.create])
qed

lemma key_abs_same_rows: "set t = set (krows s) \<Longrightarrow> key_abs (s\<lparr>krows := t\<rparr>) = key_abs s"
  by (simp add: key_abs_def)


lemma verify_uncached:
  assumes "map_of (entries c) (hash raw) = None" "raw \<noteq> []"
  shows "fst (VerifyClientKey hash order query now raw c) =
    (case query (hash raw) of NoRow \<Rightarrow> Verdict False | Row v \<Rightarrow> Verdict v | QueryFailed \<Rightarrow> StoreFailed)"
  using assms by (simp add: VerifyClientKey_def cache_get_def Let_def split: key_query.split)

text \<open>
  After a successful UpdateClientKey that disables a key, or a successful DeleteClientKey, the next
  verification of that key does not accept it, whatever the cache held before.
\<close>

theorem revoked_key_rejected:
  assumes "gorm_laws kID kName stored_key T" "table_ok kID kName (krows s)" "distinct (map KeyHash (krows s))"
    and "r \<in> set (krows s)" "KeyHash r = hash raw" "kID r = i"
    and "(\<exists>k name. UpdateClientKey T V i name False s = (Inr k, t)) \<or> DeleteClientKey T i s = (Inr (), t)"
  shows "fst (VerifyStored T hash order now raw t) \<noteq> Verdict True"
proof -
  have uniq: "q = r" if "q \<in> set (krows s)" "KeyHash q = hash raw" for q
    using that assms(3-5) unfolding distinct_map by (metis inj_onD)
  have t: "verifyCache t = invalidateAll (verifyCache s) \<and> (\<forall>q \<in> set (krows t). KeyHash q = hash raw \<longrightarrow> \<not> kEnabled q)"
    using assms(7)
  proof (elim disjE exE)
    fix k name assume u: "UpdateClientKey T V i name False s = (Inr k, t)"
    then obtain n v where v: "gUpdates T (\<lambda>r. kID r = i) (\<lambda>r. r\<lparr>kName := name, kEnabled := False\<rparr>) (krows s) = Inr (n, v)"
      and t: "t = s\<lparr>krows := v, verifyCache := invalidateAll (verifyCache s)\<rparr>"
      by (auto simp: UpdateClientKey_def Let_def split: sum.splits prod.splits if_splits)
    show ?thesis
      using gorm_laws.updates [OF assms(1,2) v] uniq assms(6) by (auto simp: t set_update_rows)
  next
    assume d: "DeleteClientKey T i s = (Inr (), t)"
    then obtain n v where v: "gDelete T (\<lambda>r. kID r = i) (krows s) = Inr (n, v)"
      and t: "t = s\<lparr>krows := v, verifyCache := invalidateAll (verifyCache s)\<rparr>"
      by (auto simp: DeleteClientKey_def split: sum.splits prod.splits if_splits)
    show ?thesis
      using gorm_laws.delete [OF assms(1,2) v] uniq assms(6) by (auto simp: t)
  qed
  show ?thesis
  proof (cases "raw = []")
    case False
    have "map_of (entries (verifyCache t)) (hash raw) = None" using t by (simp add: invalidateAll_def)
    moreover have "key_row T (krows t) (hash raw) \<noteq> Row True"
      using t by (auto simp: key_row_def split: sum.splits if_splits dest!: gorm_laws.first [OF assms(1)])
    ultimately show ?thesis using False verify_uncached [of "verifyCache t" hash raw order "key_row T (krows t)" now]
      by (auto simp: VerifyStored_def split: prod.splits key_query.splits)
  qed (simp add: VerifyStored_def VerifyClientKey_def)
qed


section \<open>The properties at concrete inputs\<close>


theorem revoked_key_rejected_witness:
  "fst (VerifyStored demo_table id id 5 ''k'' (snd (DeleteClientKey demo_table 1 demo_keys))) \<noteq> Verdict True"
proof (rule revoked_key_rejected [OF key_table.gorm_laws_axioms])
  show "table_ok kID kName (krows demo_keys)" "distinct (map KeyHash (krows demo_keys))" by code_simp+
  show "hd (krows demo_keys) \<in> set (krows demo_keys)" "KeyHash (hd (krows demo_keys)) = id ''k''" "kID (hd (krows demo_keys)) = 1"
    by (simp_all add: demo_keys_def)
  have "DeleteClientKey demo_table 1 demo_keys = (Inr (), snd (DeleteClientKey demo_table 1 demo_keys))" by code_simp
  then show "(\<exists>k name. UpdateClientKey demo_table any_value 1 name False demo_keys = (Inr k, snd (DeleteClientKey demo_table 1 demo_keys))) \<or>
    DeleteClientKey demo_table 1 demo_keys = (Inr (), snd (DeleteClientKey demo_table 1 demo_keys))" ..
qed

end
