(* ===== verification/Catalog.thy ===== *)
theory Catalog
  imports Registry_Models
begin

text \<open>
  Model catalogues and routing: internal/domain/model.go, and cache.go, custom.go, upstream.go and
  combo.go of internal/infrastructure/upstream, with the catalogue aggregation of
  internal/application/models.go. An upstream is the record of what the routers ask of the Go interface
  domain.Upstream: its name, which model ids it matches, and its cached catalogue.
\<close>

section \<open>Models and the model cache (model.go, cache.go)\<close>

record model =
  mID :: string
  mObject :: string
  Created :: int
  OwnedBy :: string
  IsFree :: bool
  mProvider :: string

record model_cache =
  cached :: "model list option"
  cindex :: "string set"

definition NewModelCache :: model_cache where
  "NewModelCache = \<lparr>cached = None, cindex = {}\<rparr>"

definition cache_Set :: "model list \<Rightarrow> model_cache \<Rightarrow> model_cache" where
  "cache_Set ms c = c\<lparr>cached := Some ms, cindex := set (map mID ms)\<rparr>"

definition cache_Get :: "model_cache \<Rightarrow> model list" where
  "cache_Get c = (case cached c of None \<Rightarrow> [] | Some ms \<Rightarrow> ms)"

definition cache_Len :: "model_cache \<Rightarrow> nat" where
  "cache_Len c = length (cache_Get c)"

definition cache_Has :: "string \<Rightarrow> model_cache \<Rightarrow> bool" where
  "cache_Has i c = (i \<in> cindex c)"

section \<open>Custom upstreams (custom.go)\<close>

text \<open>\<open>selected = None\<close> is the legacy mode; otherwise \<open>selected\<close> lists the selection in stored order.\<close>

record custom_upstream =
  cuName :: string
  selected :: "string list option"
  cuCache :: model_cache

definition bare_model :: "string \<Rightarrow> string \<Rightarrow> model" where
  "bare_model name i = \<lparr>mID = i, mObject = ''model'', Created = 0, OwnedBy = [], IsFree = False, mProvider = ''custom:'' @ name\<rparr>"

definition selection_order :: "string list \<Rightarrow> string list" where
  "selection_order ms = dedup_by id [] (filter (\<lambda>m. m \<noteq> []) (map trim_space ms))"

definition SetSelected :: "string list option \<Rightarrow> custom_upstream \<Rightarrow> custom_upstream" where
  "SetSelected ms u =
     (case ms of
        None \<Rightarrow> u\<lparr>selected := None\<rparr>
      | Some l \<Rightarrow>
          (let order = selection_order l
           in u\<lparr>selected := Some order, cuCache := cache_Set (map (bare_model (cuName u)) order) (cuCache u)\<rparr>))"

definition NewCustomUpstream :: "string \<Rightarrow> string list option \<Rightarrow> custom_upstream" where
  "NewCustomUpstream name ms = SetSelected ms \<lparr>cuName = name, selected = Some [], cuCache = NewModelCache\<rparr>"

text \<open>The map from ids to the first model with that id, among the selected ones.\<close>

definition first_by_id :: "(string \<Rightarrow> bool) \<Rightarrow> model list \<Rightarrow> string \<Rightarrow> model option" where
  "first_by_id keep ms i = (if keep i then find (\<lambda>m. mID m = i) ms else None)"

definition overlay :: "string \<Rightarrow> (string \<Rightarrow> model option) \<Rightarrow> (string \<Rightarrow> model option) \<Rightarrow> string \<Rightarrow> model" where
  "overlay name fresh old i =
     (case fresh i of Some m \<Rightarrow> m | None \<Rightarrow> (case old i of Some m \<Rightarrow> m | None \<Rightarrow> bare_model name i))"

definition RestoreKept :: "model list \<Rightarrow> custom_upstream \<Rightarrow> custom_upstream" where
  "RestoreKept old u =
     (case selected u of
        None \<Rightarrow> u
      | Some order \<Rightarrow>
          (let keep = (\<lambda>i. i \<in> set order)
           in u\<lparr>cuCache := cache_Set (map (overlay (cuName u) (first_by_id keep old)
                  (first_by_id keep (cache_Get (cuCache u)))) order) (cuCache u)\<rparr>))"

definition custom_Match :: "string \<Rightarrow> custom_upstream \<Rightarrow> bool" where
  "custom_Match i u = (case selected u of None \<Rightarrow> True | Some order \<Rightarrow> i \<in> set order)"

definition custom_Models :: "custom_upstream \<Rightarrow> model list" where
  "custom_Models u = cache_Get (cuCache u)"

definition SeedModels :: "model list \<Rightarrow> custom_upstream \<Rightarrow> custom_upstream" where
  "SeedModels ms u = u\<lparr>cuCache := cache_Set ms (cuCache u)\<rparr>"

text \<open>An entry of the fetched catalogue, and the model built from it.\<close>

record catalog_entry =
  eID :: string
  eObject :: string
  eCreated :: int
  eOwnedBy :: string

definition entry_model :: "string \<Rightarrow> catalog_entry \<Rightarrow> model" where
  "entry_model name e =
     \<lparr>mID = eID e, mObject = (if eObject e = [] then ''model'' else eObject e), Created = eCreated e,
      OwnedBy = (if eOwnedBy e = [] then ''custom:'' @ name else eOwnedBy e), IsFree = True, mProvider = ''custom:'' @ name\<rparr>"

definition fetched_models :: "string \<Rightarrow> catalog_entry list \<Rightarrow> model list" where
  "fetched_models name es = map (entry_model name) (dedup_by eID [] (filter (\<lambda>e. eID e \<noteq> []) es))"

text \<open>
  \<open>fetch\<close> is the decoded catalogue, Inl when the fetch or its parsing fails. The map iteration of the Go
  code is over the selection order.
\<close>

definition ListModels :: "'e + catalog_entry list \<Rightarrow> custom_upstream \<Rightarrow> ('e + model list) \<times> custom_upstream" where
  "ListModels fetch u =
     (case fetch of
        Inl e \<Rightarrow> (Inl e, u)
      | Inr es \<Rightarrow>
          (let fresh = fetched_models (cuName u) es;
               out = (case selected u of
                        None \<Rightarrow> fresh
                      | Some order \<Rightarrow>
                          map (overlay (cuName u) (first_by_id (\<lambda>_. True) fresh)
                            (first_by_id (\<lambda>i. i \<in> set order) (cache_Get (cuCache u)))) order)
           in (Inr out, u\<lparr>cuCache := cache_Set out (cuCache u)\<rparr>)))"

section \<open>Routers (upstream.go, combo.go)\<close>

record upstream =
  uName :: string
  uMatch :: "string \<Rightarrow> bool"
  uModels :: "model list"

record router =
  upstreams :: "upstream list"
  defaultUpstream :: upstream

definition router_Select :: "router \<Rightarrow> string \<Rightarrow> upstream" where
  "router_Select r i = (case find (\<lambda>u. uMatch u i) (upstreams r) of Some u \<Rightarrow> u | None \<Rightarrow> defaultUpstream r)"

definition router_AllModels :: "router \<Rightarrow> model list" where
  "router_AllModels r = dedup_by mID [] (concat (map uModels (upstreams r)) @ uModels (defaultUpstream r))"

definition router_IsReady :: "router \<Rightarrow> bool" where
  "router_IsReady r = (list_ex (\<lambda>u. uModels u \<noteq> []) (upstreams r) \<or> uModels (defaultUpstream r) \<noteq> [])"

text \<open>A combo is known to the router by its name and its tiers.\<close>

record combo_upstream =
  coName :: string
  coTiers :: "(upstream \<times> string) list"

definition combo_models :: "combo_upstream \<Rightarrow> model list" where
  "combo_models c =
     [\<lparr>mID = coName c, mObject = ''model'', Created = 0, OwnedBy = ''combo'', IsFree = True, mProvider = ''combo:'' @ coName c\<rparr>]"

definition combo_as_upstream :: "combo_upstream \<Rightarrow> upstream" where
  "combo_as_upstream c = \<lparr>uName = ''combo:'' @ coName c, uMatch = (\<lambda>i. i = coName c), uModels = combo_models c\<rparr>"

definition custom_as_upstream :: "custom_upstream \<Rightarrow> upstream" where
  "custom_as_upstream u = \<lparr>uName = ''custom:'' @ cuName u, uMatch = (\<lambda>i. custom_Match i u), uModels = custom_Models u\<rparr>"

record combo_row =
  rowName :: string
  rowProviders :: "string list"
  rowTiers :: "combo_tier list"

record combo_router =
  legacy :: "router option"
  combos_by_name :: "(string, combo_upstream) gomap"
  customs :: "upstream list"

definition row_tiers :: "combo_row \<Rightarrow> combo_tier list" where
  "row_tiers r =
     (if rowTiers r = [] \<and> rowProviders r \<noteq> [] then map (\<lambda>p. \<lparr>tierProvider = p, tierModel = []\<rparr>) (rowProviders r) else rowTiers r)"

definition resolved_tiers :: "(string \<Rightarrow> upstream option) \<Rightarrow> combo_row \<Rightarrow> (upstream \<times> string) list" where
  "resolved_tiers lookup r =
     concat (map (\<lambda>t. case lookup (tierProvider t) of Some u \<Rightarrow> [(u, tierModel t)] | None \<Rightarrow> []) (row_tiers r))"

definition add_row :: "(string \<Rightarrow> upstream option) \<Rightarrow> combo_row \<Rightarrow> (string, combo_upstream) gomap \<Rightarrow> (string, combo_upstream) gomap" where
  "add_row lookup r m =
     (if rowName r = [] \<or> resolved_tiers lookup r = [] then m
      else mput (rowName r) \<lparr>coName = rowName r, coTiers = resolved_tiers lookup r\<rparr> m)"

definition RebuildCombos :: "combo_row list \<Rightarrow> (string \<Rightarrow> upstream option) \<Rightarrow> combo_router \<Rightarrow> combo_router" where
  "RebuildCombos rows lookup c = c\<lparr>combos_by_name := fold (add_row lookup) rows []\<rparr>"

definition SetCustoms :: "upstream list \<Rightarrow> combo_router \<Rightarrow> combo_router" where
  "SetCustoms us c = c\<lparr>customs := us\<rparr>"

definition SelectChain :: "combo_router \<Rightarrow> string \<Rightarrow> upstream list" where
  "SelectChain c i =
     (case map_of (combos_by_name c) i of
        Some co \<Rightarrow> [combo_as_upstream co]
      | None \<Rightarrow>
          (case filter (\<lambda>u. uMatch u i) (customs c) of
             u # us \<Rightarrow> u # us
           | [] \<Rightarrow> (case legacy c of Some r \<Rightarrow> [router_Select r i] | None \<Rightarrow> [])))"

definition combo_Select :: "combo_router \<Rightarrow> string \<Rightarrow> upstream option" where
  "combo_Select c i = (case SelectChain c i of u # _ \<Rightarrow> Some u | [] \<Rightarrow> None)"

definition combo_entries :: "combo_router \<Rightarrow> model list" where
  "combo_entries c =
     concat (map (\<lambda>n. case map_of (combos_by_name c) n of Some co \<Rightarrow> combo_models co | None \<Rightarrow> [])
       (sort (map fst (combos_by_name c))))"

definition combo_AllModels :: "combo_router \<Rightarrow> model list" where
  "combo_AllModels c =
     dedup_by mID []
       (combo_entries c @ concat (map uModels (customs c)) @
        (case legacy c of Some r \<Rightarrow> router_AllModels r | None \<Rightarrow> []))"

definition combo_IsReady :: "combo_router \<Rightarrow> bool" where
  "combo_IsReady c =
     ((case legacy c of Some r \<Rightarrow> router_IsReady r | None \<Rightarrow> False) \<or> list_ex (\<lambda>u. uModels u \<noteq> []) (customs c))"

section \<open>Aggregation (application/models.go)\<close>

text \<open>A registry is known by the catalogue it returns and its readiness.\<close>

type_synonym router_registry = "model list \<times> bool"

definition service_AllModels :: "router_registry list \<Rightarrow> model list" where
  "service_AllModels rs = dedup_by mID [] (concat (map fst rs))"

definition service_IsReady :: "router_registry list \<Rightarrow> bool" where
  "service_IsReady rs = list_ex snd rs"

section \<open>Specifications\<close>

inductive custom_reach :: "custom_upstream \<Rightarrow> bool" where
  new: "custom_reach (NewCustomUpstream name ms)"
| set_selected: "custom_reach u \<Longrightarrow> custom_reach (SetSelected ms u)"
| restore: "custom_reach u \<Longrightarrow> custom_reach (RestoreKept old u)"
| list_models: "custom_reach u \<Longrightarrow> custom_reach (snd (ListModels (fetch :: unit + catalog_entry list) u))"

definition custom_inv :: "custom_upstream \<Rightarrow> bool" where
  "custom_inv u =
     (case selected u of
        None \<Rightarrow> True
      | Some order \<Rightarrow> distinct order \<and> [] \<notin> set order \<and> map mID (custom_Models u) = order)"

text \<open>An upstream that matches exactly the models it lists.\<close>

definition lists_matches :: "upstream \<Rightarrow> bool" where
  "lists_matches u = (\<forall>i. uMatch u i \<longleftrightarrow> i \<in> mID ` set (uModels u))"

definition combos_named :: "combo_router \<Rightarrow> bool" where
  "combos_named c = (\<forall>n co. map_of (combos_by_name c) n = Some co \<longrightarrow> coName co = n)"

definition legacy_model :: model where
  "legacy_model = \<lparr>mID = ''m'', mObject = ''model'', Created = 0, OwnedBy = ''b'', IsFree = True, mProvider = ''custom:b''\<rparr>"

definition shadowed_router :: combo_router where
  "shadowed_router =
     \<lparr>legacy = None, combos_by_name = [],
      customs = [custom_as_upstream (NewCustomUpstream ''a'' None),
        custom_as_upstream (snd (ListModels (Inr [\<lparr>eID = ''m'', eObject = [], eCreated = 0, eOwnedBy = ''b''\<rparr>] :: unit + catalog_entry list)
          (NewCustomUpstream ''b'' (Some [''m'']))))]\<rparr>"

definition curated_router :: combo_router where
  "curated_router =
     \<lparr>legacy = Some \<lparr>upstreams = [], defaultUpstream = \<lparr>uName = ''opencode'', uMatch = \<lambda>i. True, uModels = []\<rparr>\<rparr>,
      combos_by_name = [], customs = [custom_as_upstream (NewCustomUpstream ''b'' (Some [''m'']))]\<rparr>"

section \<open>The catalogue of a custom upstream\<close>

lemma cache_Get_Set [simp]: "cache_Get (cache_Set ms c) = ms"
  by (simp add: cache_Get_def cache_Set_def)

lemma selection_order_facts: "distinct (selection_order ms)" "[] \<notin> set (selection_order ms)"
  using dedup_by_distinct [of id "[]"] by (auto simp: selection_order_def dest: subsetD [OF dedup_by_subset])

lemma overlay_id:
  "(\<And>m. fresh i = Some m \<Longrightarrow> mID m = i) \<Longrightarrow> (\<And>m. old i = Some m \<Longrightarrow> mID m = i) \<Longrightarrow> mID (overlay name fresh old i) = i"
  by (simp add: overlay_def bare_model_def split: option.split)

lemma first_by_id_id: "first_by_id keep ms i = Some m \<Longrightarrow> mID m = i"
  by (auto simp: first_by_id_def find_Some_iff split: if_splits)

lemma overlay_ids: "map (mID \<circ> overlay name (first_by_id k ms) (first_by_id k' ns)) order = order"
  by (rule map_idI) (auto intro: overlay_id first_by_id_id)

lemma bare_ids: "map (mID \<circ> bare_model name) order = order"
  by (rule map_idI) (simp add: bare_model_def)

lemma custom_reach_inv: "custom_reach u \<Longrightarrow> custom_inv u"
proof (induction rule: custom_reach.induct)
  case (new name ms)
  then show ?case
    by (simp add: NewCustomUpstream_def SetSelected_def custom_inv_def custom_Models_def selection_order_facts bare_ids Let_def split: option.split)
next
  case (set_selected u ms)
  then show ?case
    by (simp add: SetSelected_def custom_inv_def custom_Models_def selection_order_facts bare_ids Let_def split: option.split)
next
  case (restore u old)
  then show ?case by (auto simp: RestoreKept_def custom_inv_def custom_Models_def overlay_ids Let_def split: option.splits)
next
  case (list_models u fetch)
  then show ?case by (auto simp: ListModels_def custom_inv_def custom_Models_def overlay_ids Let_def split: option.splits sum.splits)
qed

text \<open>
  However a custom provider is rebuilt, re-selected and refreshed, with whatever catalogue its
  endpoint returns, in curated mode it lists exactly the stored selection in its order, and it matches
  exactly the models it lists.
\<close>

theorem custom_catalog_is_selection:
  assumes "custom_reach u" "selected u = Some order"
  shows "map mID (custom_Models u) = order \<and> lists_matches (custom_as_upstream u)"
  using custom_reach_inv [OF assms(1)] assms(2)
  by (auto simp: custom_inv_def lists_matches_def custom_as_upstream_def custom_Match_def)

section \<open>The catalogue shows the upstream that serves\<close>

lemma dedup_first: "m \<in> set (dedup_by mID [] xs) \<Longrightarrow> find (\<lambda>x. mID x = mID m) xs = Some m"
proof -
  assume m: "m \<in> set (dedup_by mID [] xs)"
  have "find (\<lambda>x. mID x = mID m) (dedup_by mID [] xs) = Some m"
  proof (cases "find (\<lambda>x. mID x = mID m) (dedup_by mID [] xs)")
    case None
    then show ?thesis using m by (auto simp: find_None_iff)
  next
    case (Some y)
    then have "y \<in> set (dedup_by mID [] xs)" "mID y = mID m" by (auto simp: find_Some_iff)
    then show ?thesis using Some m dedup_by_distinct [of mID "[]" xs] by (auto simp: distinct_map dest: inj_onD)
  qed
  then show ?thesis by (simp add: dedup_by_find)
qed

lemma find_concat_models:
  assumes "\<forall>u \<in> set us. lists_matches u"
  shows "find (\<lambda>x. mID x = i) (concat (map uModels us)) =
    (case find (\<lambda>u. uMatch u i) us of Some u \<Rightarrow> find (\<lambda>x. mID x = i) (uModels u) | None \<Rightarrow> None)"
  using assms
proof (induction us)
  case (Cons u us)
  have "(find (\<lambda>x. mID x = i) (uModels u) = None) \<longleftrightarrow> \<not> uMatch u i"
    using Cons.prems by (auto simp: lists_matches_def find_None_iff)
  then show ?case using Cons by (auto simp: find_append split: option.split)
qed simp

lemma combo_entries_iff:
  "x \<in> set (combo_entries c) \<longleftrightarrow> (\<exists>n co. map_of (combos_by_name c) n = Some co \<and> x \<in> set (combo_models co))"
proof -
  let ?f = "\<lambda>n. case map_of (combos_by_name c) n of Some co \<Rightarrow> combo_models co | None \<Rightarrow> []"
  have "x \<in> set (combo_entries c) \<longleftrightarrow> (\<exists>n \<in> fst ` set (combos_by_name c). x \<in> set (?f n))" by (simp add: combo_entries_def)
  also have "\<dots> \<longleftrightarrow> (\<exists>n co. map_of (combos_by_name c) n = Some co \<and> x \<in> set (combo_models co))"
    by (metis (no_types, lifting) empty_iff empty_set map_of_eq_None_iff option.case_eq_if option.collapse option.sel option.distinct(1))
  finally show ?thesis .
qed

lemma combo_entries_member:
  assumes "combos_named c" "x \<in> set (combo_entries c)"
  shows "\<exists>co. map_of (combos_by_name c) (mID x) = Some co \<and> x \<in> set (combo_models co)"
proof -
  obtain n co where n: "map_of (combos_by_name c) n = Some co" "x \<in> set (combo_models co)"
    using assms(2) by (auto simp: combo_entries_iff)
  then have "coName co = n" using assms(1) by (simp add: combos_named_def)
  moreover have "mID x = coName co" using n(2) by (simp add: combo_models_def)
  ultimately show ?thesis using n by auto
qed

lemma combo_entries_find:
  assumes "combos_named c"
  shows "find (\<lambda>x. mID x = i) (combo_entries c) = (case map_of (combos_by_name c) i of Some co \<Rightarrow> Some (hd (combo_models co)) | None \<Rightarrow> None)"
proof (cases "find (\<lambda>x. mID x = i) (combo_entries c)")
  case None
  have False if co: "map_of (combos_by_name c) i = Some co" for co
  proof -
    have "coName co = i" using co assms by (simp add: combos_named_def)
    moreover have "hd (combo_models co) \<in> set (combo_models co)" by (simp add: combo_models_def)
    ultimately have "hd (combo_models co) \<in> set (combo_entries c)" "mID (hd (combo_models co)) = i"
      using co by (auto simp: combo_entries_iff combo_models_def)
    then show False using None by (auto simp: find_None_iff)
  qed
  then show ?thesis using None by (cases "map_of (combos_by_name c) i") auto
next
  case (Some x)
  then have "x \<in> set (combo_entries c)" "mID x = i" by (auto simp: find_Some_iff)
  then show ?thesis using Some combo_entries_member [OF assms, of x] by (auto simp: combo_models_def)
qed

lemma legacy_serves:
  assumes "\<forall>u \<in> set (upstreams r). lists_matches u" "find (\<lambda>x. mID x = i) (router_AllModels r) = Some m"
  shows "m \<in> set (uModels (router_Select r i))"
proof -
  have f: "find (\<lambda>x. mID x = i) (concat (map uModels (upstreams r)) @ uModels (defaultUpstream r)) = Some m"
    using assms(2) by (simp add: router_AllModels_def dedup_by_find)
  show ?thesis
  proof (cases "find (\<lambda>u. uMatch u i) (upstreams r)")
    case None
    then show ?thesis using f by (simp add: router_Select_def find_append find_concat_models [OF assms(1)]) (auto dest: find_SomeD)
  next
    case (Some u)
    then have "u \<in> set (upstreams r)" "uMatch u i" by (auto dest: find_SomeD)
    then have "find (\<lambda>x. mID x = i) (uModels u) \<noteq> None" using assms(1) by (auto simp: lists_matches_def find_None_iff)
    then obtain y where "find (\<lambda>x. mID x = i) (uModels u) = Some y" by blast
    then show ?thesis using f Some
      by (simp add: router_Select_def find_append find_concat_models [OF assms(1)]) (auto dest: find_SomeD)
  qed
qed

text \<open>
  C27:
  When every custom and builtin upstream before the default matches exactly the models it lists, each
  entry of the merged catalogue belongs to the upstream that SelectChain tries first for that model,
  so the provider shown is the one that serves.
\<close>

theorem catalog_shows_serving_upstream:
  assumes "combos_named c" "\<forall>u \<in> set (customs c). lists_matches u"
    and "\<And>r. legacy c = Some r \<Longrightarrow> \<forall>u \<in> set (upstreams r). lists_matches u"
    and "m \<in> set (combo_AllModels c)"
  shows "\<exists>u us. SelectChain c (mID m) = u # us \<and> m \<in> set (uModels u)"
proof -
  let ?P = "\<lambda>x. mID x = mID m"
  have f: "find ?P (combo_entries c @ concat (map uModels (customs c)) @ (case legacy c of Some r \<Rightarrow> router_AllModels r | None \<Rightarrow> [])) = Some m"
    using dedup_first [OF assms(4) [unfolded combo_AllModels_def]] .
  show ?thesis
  proof (cases "map_of (combos_by_name c) (mID m)")
    case (Some co)
    then have "m = hd (combo_models co)" using f by (simp add: find_append combo_entries_find [OF assms(1)])
    then show ?thesis using Some by (simp add: SelectChain_def combo_as_upstream_def combo_models_def)
  next
    case None
    note g = f [unfolded find_append combo_entries_find [OF assms(1)] find_concat_models [OF assms(2)]]
    show ?thesis
    proof (cases "find (\<lambda>u. uMatch u (mID m)) (customs c)")
      case (Some u)
      then obtain us where us: "filter (\<lambda>u. uMatch u (mID m)) (customs c) = u # us" by (auto simp: find_filter split: list.splits)
      have "u \<in> set (customs c)" "uMatch u (mID m)" using Some by (auto dest: find_SomeD)
      then have "find ?P (uModels u) \<noteq> None" using assms(2) by (auto simp: lists_matches_def find_None_iff)
      then obtain y where "find ?P (uModels u) = Some y" by blast
      then have "find ?P (uModels u) = Some m" using g None Some by simp
      then show ?thesis using None us by (simp add: SelectChain_def) (auto dest: find_SomeD)
    next
      case n: None
      then obtain r where r: "legacy c = Some r" "find ?P (router_AllModels r) = Some m"
        using g None by (auto split: option.splits)
      have "filter (\<lambda>u. uMatch u (mID m)) (customs c) = []" using n by (simp add: find_filter split: list.splits)
      then show ?thesis using legacy_serves [OF assms(3) [OF r(1)] r(2)] None r(1) by (simp add: SelectChain_def)
    qed
  qed
qed

text \<open>
  A custom provider in legacy mode, which matches every model, takes the traffic of a model that only
  a later provider lists, while the catalogue shows the later provider.
\<close>

theorem catalog_shadowed_by_legacy_provider:
  "combo_AllModels shadowed_router = [legacy_model] \<and> uName (hd (SelectChain shadowed_router (mID legacy_model))) = ''custom:a''"
  by code_simp

section \<open>The properties at concrete inputs\<close>

theorem custom_catalog_is_selection_witness:
  "map mID (custom_Models (NewCustomUpstream ''b'' (Some ['' m '', ''m'', ''n'']))) = [''m'', ''n'']"
proof -
  have "selected (NewCustomUpstream ''b'' (Some ['' m '', ''m'', ''n''])) = Some [''m'', ''n'']" by code_simp
  from custom_catalog_is_selection [OF custom_reach.new this] show ?thesis by simp
qed

theorem catalog_shows_serving_upstream_witness:
  "\<exists>u us. SelectChain curated_router ''m'' = u # us \<and> bare_model ''b'' ''m'' \<in> set (uModels u)"
proof -
  have s: "selected (NewCustomUpstream ''b'' (Some [''m''])) = Some [''m'']" by code_simp
  have l: "lists_matches (custom_as_upstream (NewCustomUpstream ''b'' (Some [''m''])))"
    using custom_reach_inv [OF custom_reach.new, of "''b''" "Some [''m'']"] s
    by (auto simp: custom_inv_def lists_matches_def custom_as_upstream_def custom_Match_def)
  have "bare_model ''b'' ''m'' \<in> set (combo_AllModels curated_router)" by code_simp
  moreover have "mID (bare_model ''b'' ''m'') = ''m''" by (simp add: bare_model_def)
  ultimately show ?thesis
    using catalog_shows_serving_upstream [of curated_router "bare_model ''b'' ''m''"] l by (simp add: curated_router_def combos_named_def)
qed

end
