(* ===== verification/Http_Client.thy ===== *)
theory Http_Client
  imports Registry_Models "HOL-Library.Word" "HOL-Library.Multiset"
begin

text \<open>
  The HTTP client of the upstreams (internal/infrastructure/upstream): key rotation with cooldowns and
  failover on 429 (client.go), edge relays (relay.go) and the refresh loop (refresher.go). Times are
  integers in nanoseconds. The network is the parameter \<open>net\<close>: the answer to a request, given the
  requests sent before it.
\<close>

section \<open>Relays (relay.go)\<close>

record relay_pool =
  poolURL :: string
  poolNoProxy :: string
  Strict :: bool

text \<open>None follows the global rotation, the empty list is a direct connection.\<close>

definition ResolveRelayPools :: "(nat \<Rightarrow> proxy_pool sres) \<Rightarrow> string \<Rightarrow> nat option \<Rightarrow> relay_pool list option" where
  "ResolveRelayPools getPool mode poolID =
     (let m = NormalizeProxyMode mode
      in if m = ProxyModeDirect then Some []
         else if m = ProxyModePool
         then (case poolID of
                 None \<Rightarrow> None
               | Some i \<Rightarrow>
                   (case getPool i of
                      Inl _ \<Rightarrow> None
                    | Inr p \<Rightarrow>
                        if \<not> lEnabled p then Some []
                        else Some [\<lparr>poolURL = ProxyURL p, poolNoProxy = NoProxy p, Strict = StrictProxy p\<rparr>]))
         else None)"

definition bypass_entry :: "string \<Rightarrow> string \<Rightarrow> bool" where
  "bypass_entry host p =
     (p \<noteq> [] \<and>
      (p = ''*'' \<or>
       (has_prefix p ''.'' \<and> (has_suffix host p \<or> host = drop 1 p)) \<or>
       host = p \<or> has_suffix host (''.'' @ p)))"

definition shouldBypassHost :: "string \<Rightarrow> string \<Rightarrow> string \<Rightarrow> bool" where
  "shouldBypassHost host fallback noProxy =
     (let h = (if host = [] then fallback else host)
      in list_ex (\<lambda>p. bypass_entry h (to_lower (trim_space p))) (split_on (CHR '','') noProxy))"

record url =
  scheme :: string
  host :: string
  hostname :: string
  upath :: string
  rawQuery :: string
  ustring :: string

definition ShouldBypassNoProxy :: "(string \<Rightarrow> url option) \<Rightarrow> string \<Rightarrow> string \<Rightarrow> bool" where
  "ShouldBypassNoProxy parse targetURL noProxy =
     (let np = trim_space noProxy
      in if np = [] then False
         else if np = ''*'' then True
         else case parse targetURL of
                None \<Rightarrow> False
              | Some u \<Rightarrow> shouldBypassHost (to_lower (hostname u)) (to_lower targetURL) np)"

record relay_selector =
  rpools :: "relay_pool list"
  strategy :: string
  idx :: "64 word"

definition NewRelaySelector :: relay_selector where
  "NewRelaySelector = \<lparr>rpools = [], strategy = [], idx = 0\<rparr>"

definition SetPools :: "relay_pool list \<Rightarrow> relay_selector \<Rightarrow> relay_selector" where
  "SetPools ps s = s\<lparr>rpools := ps\<rparr>"

definition SetStrategy :: "string \<Rightarrow> relay_selector \<Rightarrow> relay_selector" where
  "SetStrategy st s =
     (let t = to_lower (trim_space st)
      in if t \<in> {''random'', ''none'', ''round-robin'', []} then s\<lparr>strategy := t\<rparr> else s)"

text \<open>\<open>rnd\<close> is what the random strategy draws below the number of pools.\<close>

definition Next :: "nat \<Rightarrow> relay_selector \<Rightarrow> relay_pool option \<times> relay_selector" where
  "Next rnd s =
     (let n = length (rpools s)
      in if n = 0 then (None, s)
         else if strategy s = ''random'' then (Some (rpools s ! (rnd mod n)), s)
         else if strategy s = ''none'' then (Some (rpools s ! 0), s)
         else (Some (rpools s ! (unat (idx s + 1) mod n)), s\<lparr>idx := idx s + 1\<rparr>))"

section \<open>Requests\<close>

text \<open>Header names are canonicalised by net/http: the map is keyed by the name in lower case.\<close>

type_synonym headers = "(string, string) gomap"

definition hset :: "string \<Rightarrow> string \<Rightarrow> headers \<Rightarrow> headers" where
  "hset k v h = mput (to_lower k) v h"

definition hget :: "string \<Rightarrow> headers \<Rightarrow> string" where
  "hget k h = (case map_of h (to_lower k) of Some v \<Rightarrow> v | None \<Rightarrow> [])"

definition hdel :: "string \<Rightarrow> headers \<Rightarrow> headers" where
  "hdel k h = mdel (to_lower k) h"

record request =
  rURL :: url
  rHost :: string
  rHeader :: headers
  rBody :: string

definition relay_path :: "url \<Rightarrow> string" where
  "relay_path u =
     (let p = (if upath u = [] then ''/'' else upath u)
      in if rawQuery u \<noteq> [] then p @ ''?'' @ rawQuery u else p)"

definition relay_target :: "url \<Rightarrow> string" where
  "relay_target u = scheme u @ ''://'' @ host u"

definition BuildEdgeRelayHeaders :: "(string \<Rightarrow> url option) \<Rightarrow> string \<Rightarrow> headers \<Rightarrow> headers" where
  "BuildEdgeRelayHeaders parse targetURL existing =
     (case parse targetURL of
        None \<Rightarrow> existing
      | Some u \<Rightarrow> mput ''x-relay-path'' (relay_path u) (mput ''x-relay-target'' (relay_target u) existing))"

text \<open>(strict, applied), the rewritten request and the selector.\<close>

definition ApplyStrict ::
  "(string \<Rightarrow> url option) \<Rightarrow> nat \<Rightarrow> request \<Rightarrow> relay_selector \<Rightarrow> (bool \<times> bool) \<times> request \<times> relay_selector" where
  "ApplyStrict parse rnd req s =
     (case Next rnd s of
        (None, s') \<Rightarrow> ((False, False), req, s')
      | (Some pool, s') \<Rightarrow>
          (let relayURL = trim_space (poolURL pool); u = rURL req
           in if relayURL = [] then ((False, False), req, s')
              else if poolNoProxy pool \<noteq> [] \<and>
                shouldBypassHost (to_lower (hostname u)) (to_lower (ustring u)) (trim_space (poolNoProxy pool))
              then ((False, False), req, s')
              else (case parse relayURL of
                      None \<Rightarrow> ((False, False), req, s')
                    | Some p \<Rightarrow>
                        ((Strict pool, True),
                         req\<lparr>rHeader := hset ''x-relay-path'' (relay_path u) (hset ''x-relay-target'' (relay_target u) (rHeader req)),
                           rURL := u\<lparr>scheme := scheme p, host := host p, hostname := hostname p, upath := upath p,
                             rawQuery := rawQuery p, ustring := ustring p\<rparr>,
                           rHost := host p\<rparr>, s'))))"

definition Apply :: "(string \<Rightarrow> url option) \<Rightarrow> nat \<Rightarrow> request \<Rightarrow> relay_selector \<Rightarrow> bool" where
  "Apply parse rnd req s = snd (fst (ApplyStrict parse rnd req s))"

section \<open>Key cooldowns and rotation (client.go)\<close>

definition keyCooldownTTL :: int where "keyCooldownTTL = 60 * 1000000000"

record key_cooldown =
  until :: "(string, int) gomap"
  ttl :: int

definition newKeyCooldown :: "int \<Rightarrow> key_cooldown" where
  "newKeyCooldown t = \<lparr>until = [], ttl = t\<rparr>"

definition mark_key :: "int \<Rightarrow> string \<Rightarrow> key_cooldown \<Rightarrow> key_cooldown" where
  "mark_key now key k = k\<lparr>until := mput key (now + ttl k) (until k)\<rparr>"

text \<open>An expired entry is deleted; at the very instant of expiry the key still counts as limited.\<close>

definition isLimited :: "int \<Rightarrow> string \<Rightarrow> key_cooldown \<Rightarrow> bool \<times> key_cooldown" where
  "isLimited now key k =
     (case map_of (until k) key of
        None \<Rightarrow> (False, k)
      | Some u \<Rightarrow>
          if now < u then (True, k)
          else if u < now then (False, k\<lparr>until := mdel key (until k)\<rparr>)
          else (True, k))"

record http_client =
  baseURL :: string
  apiKeys :: "string list"
  nextKey :: "64 word"
  cheaders :: headers
  cooldown :: key_cooldown

definition take_key :: "http_client \<Rightarrow> string \<times> http_client" where
  "take_key c = (apiKeys c ! (unat (nextKey c) mod length (apiKeys c)), c\<lparr>nextKey := nextKey c + 1\<rparr>)"

definition try_key :: "int \<Rightarrow> http_client \<Rightarrow> (string \<times> bool) \<times> http_client" where
  "try_key now c =
     (let (key, c1) = take_key c; (lim, k) = isLimited now key (cooldown c1)
      in ((key, lim), c1\<lparr>cooldown := k\<rparr>))"

fun scan_keys :: "nat \<Rightarrow> int \<Rightarrow> http_client \<Rightarrow> string option \<times> http_client" where
  "scan_keys 0 now c = (None, c)"
| "scan_keys (Suc n) now c =
     (case try_key now c of ((key, lim), c') \<Rightarrow> if \<not> lim then (Some key, c') else scan_keys n now c')"

definition currentKey :: "int \<Rightarrow> http_client \<Rightarrow> string \<times> http_client" where
  "currentKey now c =
     (if apiKeys c = [] then ([], c)
      else if length (apiKeys c) = 1 then (apiKeys c ! 0, c)
      else (case scan_keys (length (apiKeys c)) now c of
              (Some key, c') \<Rightarrow> (key, c')
            | (None, c') \<Rightarrow> take_key c'))"

section \<open>Sending (client.go)\<close>

record response =
  StatusCode :: int
  rspHeader :: headers
  rspBody :: string

type_synonym network = "request list \<Rightarrow> request \<Rightarrow> string + response"

definition add_headers :: "headers \<Rightarrow> headers \<Rightarrow> headers" where
  "add_headers extra h = fold (\<lambda>(k, v). hset k v) extra h"

definition with_key :: "string \<Rightarrow> headers \<Rightarrow> headers \<Rightarrow> request \<Rightarrow> request" where
  "with_key key hs extra req =
     req\<lparr>rHeader := add_headers extra (add_headers hs (hset ''Authorization'' (''Bearer '' @ key) (rHeader req)))\<rparr>"

definition sync_api_key :: "string \<Rightarrow> headers \<Rightarrow> headers" where
  "sync_api_key key h =
     (let h1 = (if key \<noteq> [] \<and> key \<noteq> ''public'' \<and> to_lower (hget ''x-api-key'' h) = ''public''
                then hset ''x-api-key'' key h else h)
      in if (key = [] \<or> key = ''public'') \<and> (hget ''x-api-key'' h1 = [] \<or> to_lower (hget ''x-api-key'' h1) = ''public'')
         then hdel ''x-api-key'' h1 else h1)"

text \<open>
  One attempt: the keyed request through the relay, then directly when a non-strict relay fails. The
  result has the answer, the key used last, and the requests sent so far.
\<close>

record send_state =
  client :: http_client
  relay :: relay_selector
  sent :: "request list"

definition send :: "network \<Rightarrow> request \<Rightarrow> send_state \<Rightarrow> (string + response) \<times> send_state" where
  "send net req s = (net (sent s) req, s\<lparr>sent := sent s @ [req]\<rparr>)"

definition attempt ::
  "(string \<Rightarrow> url option) \<Rightarrow> network \<Rightarrow> int \<Rightarrow> nat \<Rightarrow> headers \<Rightarrow> request \<Rightarrow> send_state \<Rightarrow>
   ((string + response) \<times> string) \<times> send_state" where
  "attempt parse net now rnd extra built s =
     (let (key, c) = currentKey now (client s);
          req = with_key key (cheaders c) extra built;
          req = req\<lparr>rHeader := sync_api_key key (rHeader req)\<rparr>;
          ((strict, applied), req, sel) = ApplyStrict parse rnd req (relay s);
          (r, s1) = send net req (s\<lparr>client := c, relay := sel\<rparr>)
      in case r of
           Inr rsp \<Rightarrow> ((Inr rsp, key), s1)
         | Inl e \<Rightarrow>
             if applied \<and> \<not> strict
             then (let (key2, c2) = currentKey now (client s1);
                       (r2, s2) = send net (with_key key2 (cheaders c2) extra built) (s1\<lparr>client := c2\<rparr>)
                   in ((r2, key2), s2))
             else ((Inl e, key), s1))"

text \<open>The loop of doWithHeaders; \<open>n\<close> is the number of attempts left. \<open>built\<close> is what the build function returns.\<close>

fun do_attempts ::
  "nat \<Rightarrow> (string \<Rightarrow> url option) \<Rightarrow> network \<Rightarrow> int \<Rightarrow> nat \<Rightarrow> headers \<Rightarrow> string + request \<Rightarrow> send_state \<Rightarrow>
   (string + response) \<times> send_state" where
  "do_attempts 0 parse net now rnd extra built s = (Inl ''unreachable: no attempt returned a response'', s)"
| "do_attempts (Suc n) parse net now rnd extra built s =
     (case built of
        Inl e \<Rightarrow> (Inl e, s)
      | Inr req \<Rightarrow>
          (case attempt parse net now rnd extra req s of
             ((Inl e, key), s') \<Rightarrow> (Inl e, s')
           | ((Inr rsp, key), s') \<Rightarrow>
               if StatusCode rsp = 429 \<and> 1 < length (apiKeys (client s')) \<and> 0 < n
               then do_attempts n parse net now rnd extra built
                      (s'\<lparr>client := (client s')\<lparr>cooldown := mark_key now key (cooldown (client s'))\<rparr>\<rparr>)
               else (Inr rsp, s')))"

definition doWithHeaders ::
  "(string \<Rightarrow> url option) \<Rightarrow> network \<Rightarrow> int \<Rightarrow> nat \<Rightarrow> headers \<Rightarrow> string + request \<Rightarrow> send_state \<Rightarrow>
   (string + response) \<times> send_state" where
  "doWithHeaders parse net now rnd extra built s =
     do_attempts (max 1 (length (apiKeys (client s)))) parse net now rnd extra built s"

section \<open>The refresh loop (refresher.go)\<close>

definition InitialBackoff :: int where "InitialBackoff = 1000000000"
definition MaxBackoff :: int where "MaxBackoff = 300 * 1000000000"
definition ModelRefreshInterval :: int where "ModelRefreshInterval = 60 * 1000000000"

record refresher =
  interval :: int
  backoff :: int
  maxBackoff :: int

definition NewRefresher :: "int \<Rightarrow> refresher" where
  "NewRefresher i =
     \<lparr>interval = (if i \<le> 0 then ModelRefreshInterval else i), backoff = InitialBackoff, maxBackoff = MaxBackoff\<rparr>"

text \<open>The waits of Run for a sequence of refresh outcomes (True is success), from the current backoff.\<close>

fun run_waits :: "refresher \<Rightarrow> int \<Rightarrow> bool list \<Rightarrow> int list" where
  "run_waits r b [] = []"
| "run_waits r b (ok # oks) =
     (if ok then interval r # run_waits r (backoff r) oks
      else b # run_waits r (min (b * 2) (maxBackoff r)) oks)"

definition Run :: "refresher \<Rightarrow> bool list \<Rightarrow> int list" where
  "Run r oks = run_waits r (backoff r) oks"

section \<open>Specifications\<close>

definition limited :: "int \<Rightarrow> http_client \<Rightarrow> string \<Rightarrow> bool" where
  "limited now c key = fst (isLimited now key (cooldown c))"

definition key_at :: "http_client \<Rightarrow> nat \<Rightarrow> string" where
  "key_at c j = apiKeys c ! ((unat (nextKey c) + j) mod length (apiKeys c))"

definition no_auth :: "headers \<Rightarrow> bool" where
  "no_auth h = (\<forall>(k, v) \<in> set h. to_lower k \<noteq> ''authorization'')"

definition bearers :: "request list \<Rightarrow> string set" where
  "bearers rs = (\<lambda>q. hget ''authorization'' (rHeader q)) ` set rs"

definition rotation_ready :: "int \<Rightarrow> headers \<Rightarrow> nat \<Rightarrow> send_state \<Rightarrow> bool" where
  "rotation_ready now extra n s =
     (rpools (relay s) = [] \<and> no_auth (cheaders (client s)) \<and> no_auth extra \<and> 0 < ttl (cooldown (client s)) \<and>
      1 < length (apiKeys (client s)) \<and> distinct (apiKeys (client s)) \<and>
      unat (nextKey (client s)) + n * length (apiKeys (client s)) < 2 ^ 64)"

definition marked_client :: http_client where
  "marked_client = \<lparr>baseURL = ''https://zen'', apiKeys = [''sk-1''], nextKey = 0, cheaders = [(''x-api-key'', ''public'')],
     cooldown = newKeyCooldown keyCooldownTTL\<rparr>"

definition flaky_relay :: relay_selector where
  "flaky_relay = \<lparr>rpools = [\<lparr>poolURL = ''https://edge'', poolNoProxy = [], Strict = False\<rparr>], strategy = [], idx = 0\<rparr>"

definition demo_url :: "string \<Rightarrow> url" where
  "demo_url h = \<lparr>scheme = ''https'', host = h, hostname = h, upath = ''/v1'', rawQuery = [], ustring = ''https://'' @ h @ ''/v1''\<rparr>"

definition demo_post :: request where
  "demo_post = \<lparr>rURL = demo_url ''zen'', rHost = ''zen'', rHeader = [], rBody = ''{}''\<rparr>"

definition down_then_up :: network where
  "down_then_up = (\<lambda>before req. if before = [] then Inl ''dial error'' else Inr \<lparr>StatusCode = 200, rspHeader = [], rspBody = []\<rparr>)"

fun picks :: "nat \<Rightarrow> relay_selector \<Rightarrow> relay_pool list" where
  "picks 0 s = []"
| "picks (Suc n) s = (case Next 0 s of (Some p, s') \<Rightarrow> p # picks n s' | (None, s') \<Rightarrow> [])"

definition two_keys :: http_client where
  "two_keys = \<lparr>baseURL = ''https://zen'', apiKeys = [''a'', ''b''], nextKey = 0, cheaders = [],
     cooldown = newKeyCooldown keyCooldownTTL\<rparr>"

definition always_429 :: network where
  "always_429 = (\<lambda>before req. Inr \<lparr>StatusCode = 429, rspHeader = [], rspBody = []\<rparr>)"

definition two_pools :: "relay_pool list" where
  "two_pools = [\<lparr>poolURL = ''x'', poolNoProxy = [], Strict = True\<rparr>, \<lparr>poolURL = ''y'', poolNoProxy = [], Strict = False\<rparr>]"

section \<open>Key rotation\<close>

lemma isLimited_other: "fst (isLimited now k (snd (isLimited now key kc))) = fst (isLimited now k kc)"
  by (auto simp: isLimited_def split: option.splits)

lemma take_key_facts:
  "fst (take_key c) = key_at c 0" "apiKeys (snd (take_key c)) = apiKeys c" "cheaders (snd (take_key c)) = cheaders c"
  "limited now (snd (take_key c)) = limited now c" "nextKey (snd (take_key c)) = nextKey c + 1"
  by (simp_all add: take_key_def key_at_def limited_def fun_eq_iff)

lemma try_key_facts:
  assumes "try_key now c = ((key, lim), c')"
  shows "key = key_at c 0" "lim = limited now c key" "apiKeys c' = apiKeys c" "cheaders c' = cheaders c"
    "limited now c' = limited now c" "nextKey c' = nextKey c + 1"
proof -
  obtain kc where kc: "isLimited now key (cooldown c) = (lim, kc)" and c': "c' = c\<lparr>nextKey := nextKey c + 1, cooldown := kc\<rparr>"
    using assms by (auto simp: try_key_def take_key_def Let_def split: prod.splits)
  show "limited now c' = limited now c"
    using isLimited_other [of now _ key "cooldown c"] kc by (simp add: c' limited_def fun_eq_iff)
  show "key = key_at c 0" "lim = limited now c key" "apiKeys c' = apiKeys c" "cheaders c' = cheaders c" "nextKey c' = nextKey c + 1"
    using assms kc c' by (auto simp: try_key_def take_key_def key_at_def limited_def Let_def split: prod.splits)
qed

lemma scan_keys_facts:
  "scan_keys n now c = (r, c') \<Longrightarrow> apiKeys c' = apiKeys c \<and> cheaders c' = cheaders c \<and> limited now c' = limited now c \<and>
     (\<forall>key. r = Some key \<longrightarrow> apiKeys c \<noteq> [] \<longrightarrow> key \<in> set (apiKeys c) \<and> \<not> limited now c key)"
proof (induction n arbitrary: c)
  case (Suc n)
  obtain key lim c1 where t: "try_key now c = ((key, lim), c1)" by (metis surj_pair)
  note f = try_key_facts [OF t]
  have "apiKeys c \<noteq> [] \<Longrightarrow> key \<in> set (apiKeys c)" by (simp add: f(1) key_at_def)
  then show ?case using Suc.prems t f Suc.IH [of c1] by (cases lim) auto
qed simp

lemma scan_keys_None:
  "scan_keys n now c = (None, c') \<Longrightarrow> unat (nextKey c) + n < 2 ^ 64 \<Longrightarrow> j < n \<Longrightarrow> limited now c (key_at c j)"
proof (induction n arbitrary: c j)
  case (Suc n)
  obtain key lim c1 where t: "try_key now c = ((key, lim), c1)" by (metis surj_pair)
  note f = try_key_facts [OF t]
  have lim: lim using Suc.prems(1) t by (auto split: if_splits)
  have u: "unat (nextKey c + 1) = unat (nextKey c) + 1"
    using Suc.prems(2) by (simp add: unat_word_ariths)
  show ?case
  proof (cases j)
    case 0
    then show ?thesis using lim f(1,2) by simp
  next
    case (Suc i)
    have "key_at c1 i = key_at c j" using f(3,6) u Suc by (simp add: key_at_def)
    then show ?thesis using Suc.IH [of c1 i] Suc.prems t lim f(5,6) u \<open>j = Suc i\<close> by simp
  qed
qed simp

lemma residues_covered:
  assumes "k < n" shows "\<exists>j < n. (a + j) mod n = (k::nat)"
proof -
  let ?x = "k + n - a mod n"
  have "a mod n \<le> n" using assms by (simp add: less_imp_le)
  moreover have "n * (a div n) + a mod n = a" by simp
  ultimately have "a + ?x = k + n * Suc (a div n)" unfolding mult_Suc_right by linarith
  then have "(a + ?x mod n) mod n = k mod n" by (simp only: mod_add_right_eq mod_mult_self2)
  then show ?thesis using assms by (intro exI [of _ "?x mod n"]) simp
qed

text \<open>
  With several keys, as long as one of them is not cooling down, key rotation selects a configured key
  that is not cooling down (until the 64-bit counter would wrap).
\<close>

theorem current_key_avoids_cooldown:
  assumes "unat (nextKey c) + length (apiKeys c) < 2 ^ 64" "1 < length (apiKeys c)"
    and "k \<in> set (apiKeys c)" "\<not> limited now c k"
  shows "fst (currentKey now c) \<in> set (apiKeys c) \<and> \<not> limited now c (fst (currentKey now c))"
proof -
  let ?n = "length (apiKeys c)"
  obtain r c' where s: "scan_keys ?n now c = (r, c')" by (metis surj_pair)
  obtain i where i: "i < ?n" "apiKeys c ! i = k" using assms(3) by (auto simp: in_set_conv_nth)
  obtain j where j: "j < ?n" "key_at c j = k" using residues_covered [OF i(1), of "unat (nextKey c)"] i(2) by (auto simp: key_at_def)
  have "r \<noteq> None" using scan_keys_None [of _ now c c', OF _ assms(1) j(1)] s j(2) assms(4) by (cases r) auto
  then show ?thesis using scan_keys_facts [OF s] s assms(2) by (auto simp: currentKey_def)
qed

lemma currentKey_member: "apiKeys c \<noteq> [] \<Longrightarrow> fst (currentKey now c) \<in> set (apiKeys c)"
proof -
  assume k: "apiKeys c \<noteq> []"
  obtain r c' where s: "scan_keys (length (apiKeys c)) now c = (r, c')" by (metis surj_pair)
  have "fst (take_key c') \<in> set (apiKeys c)" using k scan_keys_facts [OF s] by (simp add: take_key_facts(1) key_at_def)
  then show ?thesis using k scan_keys_facts [OF s] s by (auto simp: currentKey_def split: option.splits)
qed

lemma currentKey_keeps: "apiKeys (snd (currentKey now c)) = apiKeys c" "cheaders (snd (currentKey now c)) = cheaders c"
proof -
  obtain r c' where s: "scan_keys (length (apiKeys c)) now c = (r, c')" by (metis surj_pair)
  show "apiKeys (snd (currentKey now c)) = apiKeys c" "cheaders (snd (currentKey now c)) = cheaders c"
    using scan_keys_facts [OF s] s by (auto simp: currentKey_def take_key_facts split: option.splits)
qed

lemma scan_keys_next:
  "scan_keys n now c = (r, c') \<Longrightarrow> unat (nextKey c) + n < 2 ^ 64 \<Longrightarrow>
   unat (nextKey c') \<le> unat (nextKey c) + n \<and> ttl (cooldown c') = ttl (cooldown c)"
proof (induction n arbitrary: c)
  case (Suc n)
  obtain key lim c1 where t: "try_key now c = ((key, lim), c1)" by (metis surj_pair)
  have ttl: "ttl (cooldown c1) = ttl (cooldown c)"
    using t by (auto simp: try_key_def take_key_def isLimited_def Let_def split: prod.splits option.splits if_splits)
  have u: "unat (nextKey c1) = unat (nextKey c) + 1"
    using Suc.prems(2) try_key_facts(6) [OF t] by (simp add: unat_word_ariths)
  show ?case
  proof (cases lim)
    case True
    then show ?thesis using Suc.IH [of c1] Suc.prems t u ttl by simp
  next
    case False
    then show ?thesis using Suc.prems t u ttl by simp
  qed
qed simp

lemma currentKey_fresh:
  assumes "unat (nextKey c) + length (apiKeys c) < 2 ^ 64" "1 < length (apiKeys c)"
    and "\<exists>k \<in> set (apiKeys c). \<not> limited now c k" and "currentKey now c = (key, c')"
  shows "key \<in> set (apiKeys c)" "\<not> limited now c key" "limited now c' = limited now c"
    "unat (nextKey c') \<le> unat (nextKey c) + length (apiKeys c)" "ttl (cooldown c') = ttl (cooldown c)"
proof -
  obtain r d where s: "scan_keys (length (apiKeys c)) now c = (r, d)" by (metis surj_pair)
  have k: "key \<in> set (apiKeys c) \<and> \<not> limited now c key" using current_key_avoids_cooldown [OF assms(1,2)] assms(3,4) by fastforce
  then show "key \<in> set (apiKeys c)" "\<not> limited now c key" by simp_all
  have "r \<noteq> None"
  proof
    assume "r = None"
    then have n: "limited now c (key_at c j)" if "j < length (apiKeys c)" for j using scan_keys_None [OF _ assms(1) that] s by simp
    obtain k where k: "k \<in> set (apiKeys c)" "\<not> limited now c k" using assms(3) by blast
    obtain i where i: "i < length (apiKeys c)" "apiKeys c ! i = k" using k(1) by (auto simp: in_set_conv_nth)
    show False using residues_covered [OF i(1), of "unat (nextKey c)"] n i(2) k(2) by (auto simp: key_at_def)
  qed
  moreover have "apiKeys c \<noteq> []" "length (apiKeys c) \<noteq> 1" using assms(2) by auto
  ultimately have "c' = d" using assms(4) s by (auto simp: currentKey_def split: if_splits)
  then show "limited now c' = limited now c" "unat (nextKey c') \<le> unat (nextKey c) + length (apiKeys c)" "ttl (cooldown c') = ttl (cooldown c)"
    using scan_keys_facts [OF s] scan_keys_next [OF s assms(1)] by simp_all
qed

lemma limited_mark:
  "0 < ttl (cooldown c) \<Longrightarrow>
   limited now (c\<lparr>cooldown := mark_key now key (cooldown c)\<rparr>) k \<longleftrightarrow> k = key \<or> limited now c k"
  by (auto simp: limited_def mark_key_def isLimited_def split: option.split)

section \<open>Failover on 429\<close>

lemma no_relay: "rpools sel = [] \<Longrightarrow> ApplyStrict parse rnd req sel = ((False, False), req, sel)"
  by (simp add: ApplyStrict_def Next_def)

lemma hget_hset: "hget k (hset k' v h) = (if to_lower k = to_lower k' then v else hget k h)"
  by (simp add: hget_def hset_def)

lemma hget_hdel: "hget k (hdel k' h) = (if to_lower k = to_lower k' then [] else hget k h)"
  by (simp add: hget_def hdel_def)

lemma hget_add_headers: "\<forall>(k', v) \<in> set extra. to_lower k' \<noteq> to_lower k \<Longrightarrow> hget k (add_headers extra h) = hget k h"
  by (induction extra arbitrary: h) (auto simp: add_headers_def hget_hset)

lemma lower_names: "to_lower ''authorization'' = ''authorization''" "to_lower ''Authorization'' = ''authorization''" "to_lower ''x-api-key'' = ''x-api-key''"
  by code_simp+

lemma sync_keeps_bearer: "hget ''authorization'' (sync_api_key key h) = hget ''authorization'' h"
  by (simp add: sync_api_key_def Let_def hget_hset hget_hdel lower_names)

lemma attempt_direct:
  assumes "rpools (relay s) = []" "no_auth (cheaders (client s))" "no_auth extra"
    and "attempt parse net now rnd extra req s = ((r, key), s')"
  shows "\<exists>c q. currentKey now (client s) = (key, c) \<and> client s' = c \<and> relay s' = relay s \<and> sent s' = sent s @ [q] \<and>
    r = net (sent s) q \<and> hget ''authorization'' (rHeader q) = ''Bearer '' @ key"
proof -
  obtain k c where c: "currentKey now (client s) = (k, c)" by (metis surj_pair)
  let ?q = "(with_key k (cheaders c) extra req)\<lparr>rHeader := sync_api_key k (rHeader (with_key k (cheaders c) extra req))\<rparr>"
  have "cheaders c = cheaders (client s)" using currentKey_keeps(2) [of now "client s"] c by simp
  then have a: "hget ''authorization'' (rHeader ?q) = ''Bearer '' @ k"
    using assms(2,3) by (simp add: sync_keeps_bearer with_key_def hget_add_headers no_auth_def hget_hset lower_names)
  have "((r, key), s') = ((net (sent s) ?q, k), s\<lparr>client := c, sent := sent s @ [?q]\<rparr>)"
    using assms(4) c no_relay [OF assms(1)] by (auto simp: attempt_def Let_def send_def split: sum.splits)
  then show ?thesis using c a by auto
qed

text \<open>With \<open>n\<close> attempts left, \<open>n\<close> keys are free and the others have been used.\<close>

lemma do_attempts_429:
  assumes "do_attempts n parse net now rnd extra (Inr req) s = (Inr rsp, s')" "StatusCode rsp = 429" "0 < n"
    and "rotation_ready now extra n s" "card {k \<in> set (apiKeys (client s)). \<not> limited now (client s) k} = n"
  shows "\<exists>rs. sent s' = sent s @ rs \<and> length rs = n \<and>
    (\<lambda>k. ''Bearer '' @ k) ` {k \<in> set (apiKeys (client s)). \<not> limited now (client s) k} \<subseteq> bearers rs"
  using assms
proof (induction n arbitrary: s)
  case (Suc n)
  let ?c = "client s" and ?free = "{k \<in> set (apiKeys (client s)). \<not> limited now (client s) k}"
  obtain r key s1 where a: "attempt parse net now rnd extra req s = ((r, key), s1)" by (metis surj_pair)
  obtain c q where c: "currentKey now ?c = (key, c)" "client s1 = c" "relay s1 = relay s" "sent s1 = sent s @ [q]"
    and q: "hget ''authorization'' (rHeader q) = ''Bearer '' @ key"
    using attempt_direct [OF _ _ _ a] Suc.prems(4) by (auto simp: rotation_ready_def)
  have two: "1 < length (apiKeys ?c)" and room: "unat (nextKey ?c) + length (apiKeys ?c) < 2 ^ 64"
    using Suc.prems(4) by (simp_all add: rotation_ready_def)
  have ne: "\<exists>k \<in> set (apiKeys ?c). \<not> limited now ?c k" using Suc.prems(5) by (metis (no_types, lifting) Collect_empty_eq card.empty nat.distinct(1))
  note f = currentKey_fresh [OF room two ne c(1)]
  have keys: "apiKeys c = apiKeys ?c" "cheaders c = cheaders ?c" using currentKey_keeps [of now ?c] c(1) by simp_all
  let ?t = "s1\<lparr>client := (client s1)\<lparr>cooldown := mark_key now key (cooldown (client s1))\<rparr>\<rparr>"
  have k1: "apiKeys (client s1) = apiKeys ?c" using c(2) keys(1) by simp
  have step: "(Inr rsp, s') = (case r of Inl e \<Rightarrow> (Inl e, s1) | Inr p \<Rightarrow>
      if StatusCode p = 429 \<and> 0 < n then do_attempts n parse net now rnd extra (Inr req) ?t else (Inr p, s1))"
    using Suc.prems(1) two by (cases r) (auto simp: a k1)
  show ?case
  proof (cases "n = 0")
    case True
    then have "s' = s1" using step by (simp split: sum.splits)
    moreover have "?free = {key}"
    proof -
      have "card ?free = 1" using Suc.prems(5) True by simp
      then obtain x where x: "?free = {x}" by (rule card_1_singletonE)
      moreover have "key \<in> ?free" using f(1,2) by simp
      ultimately show ?thesis by simp
    qed
    ultimately show ?thesis using q c(4) True by (simp add: bearers_def)
  next
    case False
    then have d: "do_attempts n parse net now rnd extra (Inr req) ?t = (Inr rsp, s')"
      using step Suc.prems(2) by (simp split: sum.splits if_splits)
    have ttl: "0 < ttl (cooldown c)" using f(5) Suc.prems(4) by (simp add: rotation_ready_def)
    have lim: "limited now (client ?t) k \<longleftrightarrow> k = key \<or> limited now ?c k" for k using limited_mark [OF ttl] f(3) c(2) by simp
    have free: "{k \<in> set (apiKeys (client ?t)). \<not> limited now (client ?t) k} = ?free - {key}" unfolding lim by (auto simp: k1)
    have "rotation_ready now extra n ?t"
      using Suc.prems(4) f(4) ttl c(2,3) keys by (simp add: rotation_ready_def mark_key_def)
    moreover have "card (?free - {key}) = n" using Suc.prems(5) f(1,2) by simp
    ultimately obtain rs where rs: "sent s' = sent s1 @ rs" "length rs = n" "(\<lambda>k. ''Bearer '' @ k) ` (?free - {key}) \<subseteq> bearers rs"
      using Suc.IH [OF d Suc.prems(2), unfolded free] False by auto
    then have "sent s' = sent s @ q # rs" "(\<lambda>k. ''Bearer '' @ k) ` ?free \<subseteq> bearers (q # rs)" using c(4) q by (auto simp: bearers_def)
    then show ?thesis using rs(2) by (intro exI [of _ "q # rs"]) simp
  qed
qed simp


section \<open>Authentication headers\<close>

text \<open>
  The x-api-key header of a keyed attempt: a public marker is replaced by the key in use, or removed
  for anonymous attempts, and an explicit value is left alone.
\<close>

theorem api_key_header_in_sync:
  "hget ''x-api-key'' (sync_api_key key h) =
     (let v = hget ''x-api-key'' h
      in if key = [] \<or> key = ''public'' then (if to_lower v = ''public'' then [] else v)
         else (if to_lower v = ''public'' then key else v))"
  by (auto simp: sync_api_key_def Let_def hget_hset hget_hdel)

text \<open>
  When a non-strict relay fails, the direct retry sends the bearer of a real key together with the
  public x-api-key marker that the relayed attempt had replaced.
\<close>

theorem direct_fallback_keeps_public_marker:
  "\<exists>r s. doWithHeaders (\<lambda>u. Some (demo_url ''edge'')) down_then_up 0 0 [] (Inr demo_post)
       \<lparr>client = marked_client, relay = flaky_relay, sent = []\<rparr> = (Inr r, s) \<and>
     map (\<lambda>q. (hget ''authorization'' (rHeader q), hget ''x-api-key'' (rHeader q))) (sent s) =
       [(''Bearer sk-1'', ''sk-1''), (''Bearer sk-1'', ''public'')]"
proof -
  let ?x = "doWithHeaders (\<lambda>u. Some (demo_url ''edge'')) down_then_up 0 0 [] (Inr demo_post)
       \<lparr>client = marked_client, relay = flaky_relay, sent = []\<rparr>"
  have "(case fst ?x of Inr r \<Rightarrow> True | Inl e \<Rightarrow> False) \<and>
     map (\<lambda>q. (hget ''authorization'' (rHeader q), hget ''x-api-key'' (rHeader q))) (sent (snd ?x)) =
       [(''Bearer sk-1'', ''sk-1''), (''Bearer sk-1'', ''public'')]"
    by code_simp
  then show ?thesis by (cases ?x) (auto split: sum.splits)
qed

section \<open>Relays\<close>

text \<open>
  A relayed request carries the original target and path in its relay headers and the original body,
  goes to a configured pool whose no-proxy list does not cover the target, and the strictness reported
  is that of this pool.
\<close>

theorem relay_keeps_target:
  assumes "ApplyStrict parse rnd req s = ((strict, True), req', s')"
  shows "hget ''x-relay-target'' (rHeader req') = relay_target (rURL req) \<and>
    hget ''x-relay-path'' (rHeader req') = relay_path (rURL req) \<and> rBody req' = rBody req \<and>
    (\<exists>p \<in> set (rpools s). strict = Strict p \<and> (\<exists>u. parse (trim_space (poolURL p)) = Some u \<and> host (rURL req') = host u \<and>
       \<not> (poolNoProxy p \<noteq> [] \<and> shouldBypassHost (to_lower (hostname (rURL req))) (to_lower (ustring (rURL req))) (trim_space (poolNoProxy p)))))"
proof -
  obtain p s1 where n: "Next rnd s = (Some p, s1)"
    using assms by (auto simp: ApplyStrict_def split: prod.splits option.splits)
  have "p \<in> set (rpools s)" using n by (auto simp: Next_def Let_def split: if_splits)
  moreover have "to_lower ''x-relay-target'' \<noteq> to_lower ''x-relay-path''" by code_simp
  ultimately show ?thesis using assms n
    by (auto simp: ApplyStrict_def Let_def hget_hset split: if_splits option.splits)
qed

lemma relay_not_applied: "ApplyStrict parse rnd req s = ((strict, False), req', s') \<Longrightarrow> req' = req \<and> \<not> strict"
  by (auto simp: ApplyStrict_def Let_def split: prod.splits option.splits if_splits)

lemma picks_round_robin:
  "strategy s \<notin> {''random'', ''none''} \<Longrightarrow> rpools s \<noteq> [] \<Longrightarrow> unat (idx s) + n < 2 ^ 64 \<Longrightarrow>
   picks n s = map (\<lambda>j. rpools s ! ((unat (idx s) + 1 + j) mod length (rpools s))) [0..<n]"
proof (induction n arbitrary: s)
  case (Suc n)
  have u: "unat (idx s + 1) = unat (idx s) + 1" using Suc.prems(3) by (simp add: unat_word_ariths)
  have "map (\<lambda>j. rpools s ! ((unat (idx s) + 1 + 1 + j) mod length (rpools s))) [0..<n] =
    map (\<lambda>j. rpools s ! ((unat (idx s) + 1 + j) mod length (rpools s))) [Suc 0..<Suc n]"
    by (simp only: map_Suc_upt [symmetric] map_map o_def) simp
  then show ?case using Suc.IH [of "s\<lparr>idx := idx s + 1\<rparr>"] Suc.prems u
    by (simp add: Next_def upt_conv_Cons del: upt_Suc)
qed simp

text \<open>
  In round-robin mode, as many consecutive selections as there are pools use every pool exactly once
  (until the 64-bit counter would wrap).
\<close>

theorem round_robin_fair:
  assumes "strategy s \<notin> {''random'', ''none''}" "unat (idx s) + length (rpools s) < 2 ^ 64"
  shows "mset (picks (length (rpools s)) s) = mset (rpools s)"
proof (cases "rpools s = []")
  case False
  let ?n = "length (rpools s)"
  let ?f = "\<lambda>j. (unat (idx s) + 1 + j) mod ?n"
  have s: "?f ` {0..<?n} = {0..<?n}"
  proof
    show "?f ` {0..<?n} \<subseteq> {0..<?n}" using False by auto
    show "{0..<?n} \<subseteq> ?f ` {0..<?n}" using residues_covered [of _ ?n "unat (idx s) + 1"] by fastforce
  qed
  then have "inj_on ?f {0..<?n}" by (intro eq_card_imp_inj_on) simp_all
  then have "image_mset ?f (mset_set {0..<?n}) = mset_set {0..<?n}" using s by (simp add: image_mset_mset_set)
  then have "mset (map ?f [0..<?n]) = mset [0..<?n]" by simp
  then have "mset (map ((!) (rpools s)) (map ?f [0..<?n])) = mset (map ((!) (rpools s)) [0..<?n])" by (metis mset_map)
  then show ?thesis using picks_round_robin [OF assms(1) False assms(2)] by (simp add: map_nth o_def)
qed simp

section \<open>Refresh back-off\<close>

lemma run_waits_failures:
  "0 < b \<Longrightarrow> b \<le> maxBackoff r \<Longrightarrow>
   run_waits r b (replicate n False @ oks) =
     map (\<lambda>k. min (b * 2 ^ k) (maxBackoff r)) [0..<n] @ run_waits r (min (b * 2 ^ n) (maxBackoff r)) oks"
proof (induction n arbitrary: b)
  case (Suc n)
  let ?M = "maxBackoff r"
  have m: "min (min (b * 2) ?M * 2 ^ k) ?M = min (b * 2 ^ Suc k) ?M" for k
  proof (cases "b * 2 \<le> ?M")
    case False
    have "(1::int) \<le> 2 ^ k" by simp
    then have "?M \<le> ?M * 2 ^ k" "b * 2 \<le> b * 2 * 2 ^ k" using Suc.prems by (simp_all add: mult_le_cancel_left1)
    then show ?thesis using False by (simp add: min_def mult.assoc)
  qed (simp add: mult.assoc)
  have "0 < min (b * 2) ?M" "min (b * 2) ?M \<le> ?M" using Suc.prems by auto
  from Suc.IH [OF this] have "run_waits r (min (b * 2) ?M) (replicate n False @ oks) =
      map (\<lambda>k. min (b * 2 ^ Suc k) ?M) [0..<n] @ run_waits r (min (b * 2 ^ Suc n) ?M) oks"
    unfolding m .
  moreover have "map (\<lambda>k. min (b * 2 ^ k) ?M) [0..<Suc n] = b # map (\<lambda>k. min (b * 2 ^ Suc k) ?M) [0..<n]"
    using Suc.prems by (simp add: upt_conv_Cons map_Suc_upt [symmetric] o_def del: upt_Suc)
  ultimately show ?case by simp
qed (simp add: min_def)

text \<open>
  The refresh loop waits 1 s after the first of a run of failures and doubles the wait at each further
  one up to 5 minutes; a success waits the refresh interval and resets the back-off.
\<close>

theorem refresher_backoff:
  "Run (NewRefresher i) (replicate n False @ True # oks) =
     map (\<lambda>k. min (InitialBackoff * 2 ^ k) MaxBackoff) [0..<n] @ interval (NewRefresher i) # Run (NewRefresher i) oks"
  using run_waits_failures [of InitialBackoff "NewRefresher i" n "True # oks"]
  by (simp add: Run_def NewRefresher_def InitialBackoff_def MaxBackoff_def)

section \<open>The properties at concrete inputs\<close>

theorem current_key_avoids_cooldown_witness:
  "\<not> limited 5 (two_keys\<lparr>cooldown := mark_key 0 ''a'' (cooldown two_keys)\<rparr>)
     (fst (currentKey 5 (two_keys\<lparr>cooldown := mark_key 0 ''a'' (cooldown two_keys)\<rparr>)))"
proof -
  let ?c = "two_keys\<lparr>cooldown := mark_key 0 ''a'' (cooldown two_keys)\<rparr>"
  have "\<not> limited 5 ?c ''b''" by code_simp
  moreover have "unat (nextKey ?c) + length (apiKeys ?c) < 2 ^ 64" "1 < length (apiKeys ?c)" "''b'' \<in> set (apiKeys ?c)"
    by (simp_all add: two_keys_def)
  ultimately show ?thesis using current_key_avoids_cooldown [of ?c "''b''" 5] by blast
qed


theorem relay_keeps_target_witness:
  "\<exists>strict req' s'. ApplyStrict (\<lambda>u. Some (demo_url ''edge'')) 0 demo_post flaky_relay = ((strict, True), req', s') \<and>
     hget ''x-relay-target'' (rHeader req') = ''https://zen''"
proof -
  let ?x = "ApplyStrict (\<lambda>u. Some (demo_url ''edge'')) 0 demo_post flaky_relay"
  have "snd (fst ?x)" by code_simp
  moreover obtain strict applied req' s' where y: "?x = ((strict, applied), req', s')" by (metis surj_pair)
  ultimately have x: "?x = ((strict, True), req', s')" by simp
  from relay_keeps_target [OF x] have "hget ''x-relay-target'' (rHeader req') = relay_target (rURL demo_post)" by blast
  also have "\<dots> = ''https://zen''" by code_simp
  finally show ?thesis using x by blast
qed

theorem round_robin_fair_witness: "mset (picks 2 (SetPools two_pools NewRelaySelector)) = mset two_pools"
proof -
  let ?s = "SetPools two_pools NewRelaySelector"
  have "length (rpools ?s) = 2" "rpools ?s = two_pools" "strategy ?s \<notin> {''random'', ''none''}" "unat (idx ?s) = 0"
    by (simp_all add: SetPools_def NewRelaySelector_def two_pools_def)
  with round_robin_fair [of ?s] show ?thesis by simp
qed

end
