(* ===== verification/Failover.thy ===== *)
theory Failover
  imports Translate
begin

text \<open>
  Failover between upstreams: which answers warrant it (internal/domain/response.go) and the tier walk of
  a combo with its cooldowns (internal/infrastructure/upstream/combo\_upstream.go). The upstreams, the
  clock and the request context are the fields of \<open>env\<close>, over a world of any type: a call to an upstream
  may change the world, and the clock and the context are read from it.
\<close>

section \<open>Upstream responses (response.go)\<close>

text \<open>
  A response body: the bytes still to come and whether reading them ends with an error instead of the
  end of the stream, or bytes that were peeked at and are replayed before the rest.
\<close>

datatype body = Raw string bool | Peeked string body

fun read_all :: "body \<Rightarrow> string \<times> bool" where
  "read_all (Raw s e) = (s, e)"
| "read_all (Peeked p b) = (p @ fst (read_all b), snd (read_all b))"

text \<open>Reading at most \<open>n\<close> bytes: the bytes, whether an error came first, and the body after it.\<close>

definition read_limited :: "nat \<Rightarrow> body \<Rightarrow> string \<times> bool \<times> body" where
  "read_limited n b =
     (let (s, e) = read_all b in (take n s, e \<and> length s < n, Raw (drop n s) e))"

record uresponse =
  uFormat :: "fmt option"
  uStatus :: int
  uHeader :: "(string, string) gomap"
  uBody :: "body option"

definition freeTierProbeLimit :: nat where "freeTierProbeLimit = 8192"

definition hasFreeTierMarker :: "string \<Rightarrow> bool" where
  "hasFreeTierMarker peek =
     (case unmarshal_map peek of
        None \<Rightarrow> False
      | Some raw \<Rightarrow>
          (case string_field ''type'' raw of
             None \<Rightarrow> False
           | Some t \<Rightarrow>
               (case struct_field ''error'' raw of
                  None \<Rightarrow> t = ''FreeTierError''
                | Some JNull \<Rightarrow> t = ''FreeTierError''
                | Some (JObj e) \<Rightarrow>
                    (case string_field ''type'' (JObj e) of
                       None \<Rightarrow> False
                     | Some et \<Rightarrow> t = ''FreeTierError'' \<or> et = ''FreeTierError'')
                | Some _ \<Rightarrow> False)))"

definition IsFreeTierRejection :: "uresponse \<Rightarrow> bool \<times> uresponse" where
  "IsFreeTierRejection resp =
     (case uBody resp of
        None \<Rightarrow> (False, resp)
      | Some b \<Rightarrow>
          (let (peek, err, rest) = read_limited (freeTierProbeLimit + 1) b;
               resp' = resp\<lparr>uBody := Some (Peeked peek rest)\<rparr>
           in if err then (False, resp')
              else if contains peek ''FreeTierError'' then (True, resp')
              else (hasFreeTierMarker peek, resp')))"

definition IsRetryableStatus :: "uresponse \<Rightarrow> bool \<times> uresponse" where
  "IsRetryableStatus rsp =
     (if uStatus rsp = 429 \<or> 500 \<le> uStatus rsp then (True, rsp)
      else if 400 \<le> uStatus rsp then IsFreeTierRejection rsp
      else (False, rsp))"

section \<open>The world of a request\<close>

text \<open>
  \<open>call\<close> is ChatCompletion of an upstream with the format the context carries: an error, or a response,
  which may be nil. \<open>upFormat\<close> is the optional method that tells which format an upstream wants.
\<close>

record ('u, 'w) env =
  upName :: "'u \<Rightarrow> string"
  upFormat :: "'u \<Rightarrow> (string \<Rightarrow> fmt) option"
  call :: "'u \<Rightarrow> fmt \<Rightarrow> string \<Rightarrow> 'w \<Rightarrow> (string + uresponse option) \<times> 'w"
  clock :: "'w \<Rightarrow> int"
  ctxErr :: "'w \<Rightarrow> string option"

section \<open>Tiers (combo\_upstream.go)\<close>

definition comboTierCooldownTTL :: int where "comboTierCooldownTTL = 30 * 1000000000"

record 'u tier =
  tUpstream :: 'u
  tModel :: string

record 'u combo =
  cname :: string
  tiers :: "'u tier list"

text \<open>
  The decoder reads one value and ignores what follows it; on null the Go code would write to a nil map,
  which the handler excludes: a body without a model is refused. Numbers are kept by value.
\<close>

definition rewriteModel :: "string \<Rightarrow> string \<Rightarrow> string res" where
  "rewriteModel body m =
     (if trim_space m = [] then Inr body
      else case parse_value (Suc (length body)) body of
             Some (JObj o', _) \<Rightarrow> Inr (json_print (jset ''model'' (JStr m) (JObj o')))
           | _ \<Rightarrow> Inl ''decode body for model rewrite'')"

text \<open>The format a tier wants and the body prepared for it.\<close>

definition prepare_tier :: "translators \<Rightarrow> (string \<Rightarrow> fmt) option \<Rightarrow> fmt \<Rightarrow> string \<Rightarrow> string \<Rightarrow> fmt \<times> string res" where
  "prepare_tier tr want source model body =
     (let out = rewriteModel body model;
          target = (case want of Some f \<Rightarrow> f (case out of Inr b \<Rightarrow> b | Inl _ \<Rightarrow> []) | None \<Rightarrow> FormatOpenAI);
          out = bind_res out (\<lambda>b. if source \<noteq> target then Request tr b source target else Inr b);
          out = bind_res out (\<lambda>b. if target = FormatOpenAI then map_sum id fst (PrepareUpstreamWithModel b model) else Inr b);
          out = bind_res out (\<lambda>b. if target = FormatClaude then map_sum id fst (NormalizeClaudeContent b) else Inr b)
      in (target, out))"

text \<open>What happened, in order: calls to tiers, responses received from them, responses closed.\<close>

datatype event = Called nat | Got nat | Closed nat

record 'w run =
  cooled :: "(nat, int) gomap"
  world :: 'w
  events :: "event list"

definition inCooldown :: "nat \<Rightarrow> int \<Rightarrow> (nat, int) gomap \<Rightarrow> bool \<times> (nat, int) gomap" where
  "inCooldown i now c =
     (case map_of c i of
        None \<Rightarrow> (False, c)
      | Some u \<Rightarrow> if u < now then (False, mdel i c) else (True, c))"

definition hasFreshTierFrom :: "nat \<Rightarrow> int \<Rightarrow> nat \<Rightarrow> (nat, int) gomap \<Rightarrow> bool" where
  "hasFreshTierFrom from now n c =
     list_ex (\<lambda>j. case map_of c j of None \<Rightarrow> True | Some u \<Rightarrow> u < now) [from..<n]"

definition markCooldown :: "('u, 'w) env \<Rightarrow> nat \<Rightarrow> 'w run \<Rightarrow> 'w run" where
  "markCooldown ev i s = s\<lparr>cooled := mput i (clock ev (world s) + comboTierCooldownTTL) (cooled s)\<rparr>"

definition clearCooldown :: "nat \<Rightarrow> 'w run \<Rightarrow> 'w run" where
  "clearCooldown i s = s\<lparr>cooled := mdel i (cooled s)\<rparr>"

definition call_tier :: "('u, 'w) env \<Rightarrow> nat \<Rightarrow> 'u \<Rightarrow> fmt \<Rightarrow> string \<Rightarrow> 'w run \<Rightarrow> (string + uresponse option) \<times> 'w run" where
  "call_tier ev i u f body s =
     (let (r, w) = call ev u f body (world s);
          got = (case r of Inr (Some _) \<Rightarrow> [Got i] | _ \<Rightarrow> [])
      in (r, s\<lparr>world := w, events := events s @ [Called i] @ got\<rparr>))"

text \<open>One retry on the same tier after a transport error or a nil response, unless the client is gone.\<close>

definition try_tier :: "('u, 'w) env \<Rightarrow> nat \<Rightarrow> 'u \<Rightarrow> fmt \<Rightarrow> string \<Rightarrow> 'w run \<Rightarrow> (string + uresponse option) \<times> 'w run" where
  "try_tier ev i u f body s =
     (let (r, s1) = call_tier ev i u f body s
      in case r of
           Inr (Some resp) \<Rightarrow> (r, s1)
         | _ \<Rightarrow> if ctxErr ev (world s1) \<noteq> None then (r, s1) else call_tier ev i u f body s1)"

definition with_format :: "fmt \<Rightarrow> uresponse \<Rightarrow> uresponse" where
  "with_format f resp = (if uFormat resp = None then resp\<lparr>uFormat := Some f\<rparr> else resp)"

text \<open>
  The turn of one tier in the loop: go on with the next tier and the last error, or return. \<open>settle\<close> is
  what follows the call, \<open>n\<close> the number of tiers, \<open>Suc i = n\<close> the last turn.
\<close>

datatype 'w turn = Continue string "'w run" | Return "string + uresponse" "'w run"

definition settle :: "('u, 'w) env \<Rightarrow> nat \<Rightarrow> nat \<Rightarrow> fmt \<Rightarrow> string \<Rightarrow> string + uresponse option \<Rightarrow> 'w run \<Rightarrow> 'w turn" where
  "settle ev n i target lastErr r s =
     (case r of
        Inl e \<Rightarrow>
          (case ctxErr ev (world s) of
             Some ce \<Rightarrow> Return (Inl ce) s
           | None \<Rightarrow> if Suc i \<noteq> n then Continue e (markCooldown ev i s) else Return (Inl e) (markCooldown ev i s))
      | Inr None \<Rightarrow>
          if Suc i = n then Return (Inl ''returned nil response'') (markCooldown ev i s)
          else Continue ''returned nil response'' (markCooldown ev i s)
      | Inr (Some resp) \<Rightarrow>
          (let (retry, resp) = IsRetryableStatus resp
           in if retry \<and> Suc i \<noteq> n
              then Continue lastErr (markCooldown ev i (s\<lparr>events := events s @ [Closed i]\<rparr>))
              else Return (Inr (with_format target resp)) (clearCooldown i s)))"

definition take_turn :: "('u, 'w) env \<Rightarrow> translators \<Rightarrow> nat \<Rightarrow> fmt \<Rightarrow> string \<Rightarrow> nat \<Rightarrow> 'u tier \<Rightarrow> string \<Rightarrow> 'w run \<Rightarrow> 'w turn" where
  "take_turn ev tr n source body i t lastErr s =
     (let now = clock ev (world s);
          (cool, c) = inCooldown i now (cooled s);
          s = s\<lparr>cooled := c\<rparr>
      in if cool \<and> hasFreshTierFrom (Suc i) now n c then Continue ''in cooldown'' s
         else case prepare_tier tr (upFormat ev (tUpstream t)) source (tModel t) body of
                (target, Inl e) \<Rightarrow> if Suc i \<noteq> n then Continue e s else Return (Inl e) s
              | (target, Inr out) \<Rightarrow>
                  (case try_tier ev i (tUpstream t) target out s of (r, s) \<Rightarrow> settle ev n i target lastErr r s))"

fun walk :: "('u, 'w) env \<Rightarrow> translators \<Rightarrow> nat \<Rightarrow> fmt \<Rightarrow> string \<Rightarrow> nat \<Rightarrow> 'u tier list \<Rightarrow> string \<Rightarrow> 'w run \<Rightarrow> (string + uresponse) \<times> 'w run" where
  "walk ev tr n source body i [] lastErr s = (Inl lastErr, s)"
| "walk ev tr n source body i (t # ts) lastErr s =
     (case take_turn ev tr n source body i t lastErr s of
        Return r s \<Rightarrow> (r, s)
      | Continue e s \<Rightarrow> walk ev tr n source body (Suc i) ts e s)"

definition ChatCompletion :: "('u, 'w) env \<Rightarrow> translators \<Rightarrow> 'u combo \<Rightarrow> fmt option \<Rightarrow> string \<Rightarrow> 'w run \<Rightarrow> (string + uresponse) \<times> 'w run" where
  "ChatCompletion ev tr c ctx body s =
     (if tiers c = [] then (Inl ''has no tiers'', s)
      else walk ev tr (length (tiers c)) (RequestFormat ctx body) body 0 (tiers c) [] s)"

section \<open>Specifications\<close>

definition calls :: "event list \<Rightarrow> nat list" where
  "calls es = concat (map (\<lambda>e. case e of Called k \<Rightarrow> [k] | _ \<Rightarrow> []) es)"

definition gots :: "event list \<Rightarrow> nat list" where
  "gots es = concat (map (\<lambda>e. case e of Got k \<Rightarrow> [k] | _ \<Rightarrow> []) es)"

definition closes :: "event list \<Rightarrow> nat list" where
  "closes es = concat (map (\<lambda>e. case e of Closed k \<Rightarrow> [k] | _ \<Rightarrow> []) es)"

definition got_event :: "nat \<Rightarrow> string + uresponse option \<Rightarrow> event list" where
  "got_event i r = (case r of Inr (Some _) \<Rightarrow> [Got i] | _ \<Rightarrow> [])"

definition walk_ok :: "nat \<Rightarrow> nat \<Rightarrow> event list \<Rightarrow> string + uresponse \<Rightarrow> bool" where
  "walk_ok i n es r =
     (sorted (calls es) \<and> (\<forall>k \<in> set (calls es). i \<le> k) \<and> (\<forall>k. count_list (calls es) k \<le> 2) \<and>
      sorted (closes es) \<and> distinct (closes es) \<and> (\<forall>k \<in> set (closes es). i \<le> k) \<and>
      (case r of
         Inl _ \<Rightarrow> gots es = closes es
       | Inr resp \<Rightarrow> \<exists>k. i \<le> k \<and> gots es = closes es @ [k] \<and> (\<forall>j \<in> set (closes es). j < k) \<and>
                       (fst (IsRetryableStatus resp) \<longrightarrow> Suc k = n)))"

text \<open>What a turn adds to the events: calls of its tier, and a response that is closed or served.\<close>

definition turn_ok :: "nat \<Rightarrow> nat \<Rightarrow> 'w run \<Rightarrow> 'w turn \<Rightarrow> bool" where
  "turn_ok n i s tn =
     (\<exists>m \<le> 2.
        (case tn of
           Continue e s' \<Rightarrow>
             \<exists>tail. events s' = events s @ replicate m (Called i) @ tail \<and> (tail = [] \<or> tail = [Got i, Closed i])
         | Return (Inl x) s' \<Rightarrow> events s' = events s @ replicate m (Called i)
         | Return (Inr resp) s' \<Rightarrow>
             events s' = events s @ replicate m (Called i) @ [Got i] \<and> (fst (IsRetryableStatus resp) \<longrightarrow> Suc i = n)))"

fun turn_run :: "'w turn \<Rightarrow> 'w run" where
  "turn_run (Continue e s) = s"
| "turn_run (Return r s) = s"

definition cancel_sticks :: "('u, 'w) env \<Rightarrow> bool" where
  "cancel_sticks ev =
     (\<forall>u f b w. ctxErr ev w \<noteq> None \<longrightarrow> (\<exists>e. fst (call ev u f b w) = Inl e) \<and> ctxErr ev (snd (call ev u f b w)) \<noteq> None)"

text \<open>Three tiers: the first is unreachable, the second is rate limited, the third answers.\<close>

definition demo_env :: "(nat, nat) env" where
  "demo_env = \<lparr>upName = show_nat, upFormat = (\<lambda>u. None),
     call = (\<lambda>u f b w. (if u = 0 then Inl ''dial error''
        else Inr (Some \<lparr>uFormat = None, uStatus = (if u = 1 then 429 else 200), uHeader = [], uBody = Some (Raw ''ok'' False)\<rparr>), w + 1)),
     clock = int, ctxErr = (\<lambda>w. None)\<rparr>"

definition gone_env :: "(nat, nat) env" where
  "gone_env = demo_env\<lparr>call := (\<lambda>u f b w. (Inl ''context canceled'', w)), ctxErr := (\<lambda>w. Some ''context canceled'')\<rparr>"

definition three_tiers :: "nat combo" where
  "three_tiers = \<lparr>cname = ''best'', tiers = map (\<lambda>u. \<lparr>tUpstream = u, tModel = []\<rparr>) [0, 1, 2]\<rparr>"

definition demo_run :: "nat run" where
  "demo_run = \<lparr>cooled = [], world = 0, events = []\<rparr>"

lemmas event_defs = calls_def gots_def closes_def

section \<open>The probe does not consume the body\<close>

lemma read_limited_rest:
  "read_limited n b = (p, e, b') \<Longrightarrow> read_all (Peeked p b') = read_all b"
  by (cases "read_all b") (auto simp: read_limited_def Let_def)

lemma probe_body: "map_option read_all (uBody (snd (IsRetryableStatus r))) = map_option read_all (uBody r)"
proof (cases "uBody r")
  case (Some b)
  obtain p e b' where l: "read_limited (freeTierProbeLimit + 1) b = (p, e, b')" by (metis prod_cases3)
  then show ?thesis using Some read_limited_rest [OF l]
    by (simp add: IsRetryableStatus_def IsFreeTierRejection_def Let_def)
qed (simp add: IsRetryableStatus_def IsFreeTierRejection_def)

lemma probe_frame:
  "uStatus (snd (IsRetryableStatus r)) = uStatus r" "uFormat (snd (IsRetryableStatus r)) = uFormat r"
  "uHeader (snd (IsRetryableStatus r)) = uHeader r"
  by (auto simp: IsRetryableStatus_def IsFreeTierRejection_def Let_def case_prod_unfold split: option.splits)

text \<open>
  Deciding whether a response warrants failover does not change what can be read from it: the peeked
  bytes are replayed, with the rest of the body and its read error; status, headers and format stay.
\<close>

theorem probe_lossless:
  "map_option read_all (uBody (snd (IsRetryableStatus r))) = map_option read_all (uBody r) \<and>
   uStatus (snd (IsRetryableStatus r)) = uStatus r \<and> uHeader (snd (IsRetryableStatus r)) = uHeader r \<and>
   uFormat (snd (IsRetryableStatus r)) = uFormat r"
  by (simp add: probe_body probe_frame)

lemma verdict_cong:
  assumes "uStatus a = uStatus b" "map_option read_all (uBody a) = map_option read_all (uBody b)"
  shows "fst (IsRetryableStatus a) = fst (IsRetryableStatus b)"
  using assms
  by (cases "uBody a"; cases "uBody b")
     (auto simp: IsRetryableStatus_def IsFreeTierRejection_def read_limited_def Let_def case_prod_unfold)

lemma with_format_frame [simp]: "uStatus (with_format f r) = uStatus r" "uBody (with_format f r) = uBody r"
  by (simp_all add: with_format_def)

lemma verdict_served: "fst (IsRetryableStatus (with_format f (snd (IsRetryableStatus r)))) = fst (IsRetryableStatus r)"
  by (rule verdict_cong) (simp_all add: probe_body probe_frame)

section \<open>One tier\<close>

lemma call_tier_events:
  "call_tier ev i u f body s = (r, s') \<Longrightarrow> events s' = events s @ Called i # got_event i r \<and> cooled s' = cooled s"
  by (auto simp: call_tier_def got_event_def case_prod_unfold Let_def)

lemma try_tier_events:
  assumes "try_tier ev i u f body s = (r, s')"
  obtains m where "m = 1 \<or> m = 2" "events s' = events s @ replicate m (Called i) @ got_event i r" "cooled s' = cooled s"
proof -
  obtain r1 s1 where 1: "call_tier ev i u f body s = (r1, s1)" by fastforce
  note e1 = call_tier_events [OF 1]
  show ?thesis
  proof (cases "(\<exists>x. r1 = Inr (Some x)) \<or> ctxErr ev (world s1) \<noteq> None")
    case True
    then have "r = r1" "s' = s1" using assms 1 by (auto simp: try_tier_def split: sum.splits option.splits)
    then show ?thesis using e1 that [of 1] by simp
  next
    case False
    then have 2: "call_tier ev i u f body s1 = (r, s')" using assms 1
      by (cases r1 rule: sum.exhaust) (auto simp: try_tier_def split: option.splits)
    have "got_event i r1 = []" using False by (auto simp: got_event_def split: sum.splits option.splits)
    then show ?thesis using e1 call_tier_events [OF 2] that [of 2] by (simp add: numeral_2_eq_2)
  qed
qed

section \<open>The walk\<close>

lemma count_fresh: "\<forall>k \<in> set xs. Suc i \<le> k \<Longrightarrow> count_list xs i = 0"
  by (auto simp: count_list_0_iff)

lemma count_replicate: "count_list (replicate m i) k = (if k = i then m else 0)"
  by (induction m) auto

lemma event_simps [simp]:
  "calls (a @ b) = calls a @ calls b" "gots (a @ b) = gots a @ gots b" "closes (a @ b) = closes a @ closes b"
  "calls [] = []" "gots [] = []" "closes [] = []"
  "calls (Called i # es) = i # calls es" "gots (Called i # es) = gots es" "closes (Called i # es) = closes es"
  "calls (Got i # es) = calls es" "gots (Got i # es) = i # gots es" "closes (Got i # es) = closes es"
  "calls (Closed i # es) = calls es" "gots (Closed i # es) = gots es" "closes (Closed i # es) = i # closes es"
  "calls (replicate m (Called i)) = replicate m i" "gots (replicate m (Called i)) = []" "closes (replicate m (Called i)) = []"
  by (induction m) (simp_all add: event_defs)

lemma walk_ok_failed:
  assumes "m \<le> 2" "walk_ok (Suc i) n es r" "tail = [] \<or> tail = [Got i, Closed i]"
  shows "walk_ok i n (replicate m (Called i) @ tail @ es) r"
proof -
  have c: "calls (replicate m (Called i) @ tail @ es) = replicate m i @ calls es" using assms(3) by auto
  have k: "count_list (calls (replicate m (Called i) @ tail @ es)) k \<le> 2" for k
    using assms(1,2) count_fresh [of "calls es" i] unfolding c by (auto simp: walk_ok_def count_replicate)
  have s: "sorted (calls (replicate m (Called i) @ tail @ es))"
    using assms(2) unfolding c by (auto simp: walk_ok_def sorted_append)
  show ?thesis using assms(2,3) k s unfolding walk_ok_def
    by (auto simp: c Suc_le_eq less_imp_le split: sum.splits)
qed

lemma walk_ok_stop: "m \<le> 2 \<Longrightarrow> walk_ok i n (replicate m (Called i)) (Inl x)"
  by (simp add: walk_ok_def sorted_replicate count_replicate)

lemma walk_ok_served:
  "m \<le> 2 \<Longrightarrow> fst (IsRetryableStatus resp) \<longrightarrow> Suc i = n \<Longrightarrow> walk_ok i n (replicate m (Called i) @ [Got i]) (Inr resp)"
  by (simp add: walk_ok_def sorted_replicate count_replicate)

lemma settle_ok:
  assumes "m \<le> 2" "events s1 = events s @ replicate m (Called i) @ got_event i r"
  shows "turn_ok n i s (settle ev n i target le r s1)"
proof (cases "\<exists>resp. r = Inr (Some resp)")
  case False
  then have "got_event i r = []" by (auto simp: got_event_def split: sum.splits option.splits)
  then show ?thesis using assms False
    by (auto simp: turn_ok_def settle_def markCooldown_def split: sum.splits option.splits)
next
  case True
  then obtain resp where r: "r = Inr (Some resp)" by blast
  obtain rt rp where v: "IsRetryableStatus resp = (rt, rp)" by fastforce
  have "fst (IsRetryableStatus (with_format target rp)) = rt" using verdict_served [of target resp] v by simp
  then show ?thesis using assms r v
    by (auto simp: turn_ok_def settle_def markCooldown_def clearCooldown_def got_event_def)
qed

lemma turn_events: "turn_ok n i s (take_turn ev tr n source body i t le s)"
proof -
  obtain cool c where ic: "inCooldown i (clock ev (world s)) (cooled s) = (cool, c)" by fastforce
  obtain target po where p: "prepare_tier tr (upFormat ev (tUpstream t)) source (tModel t) body = (target, po)" by fastforce
  have idle: "turn_ok n i s (Continue e (s\<lparr>cooled := c\<rparr>))" "turn_ok n i s (Return (Inl e) (s\<lparr>cooled := c\<rparr>))" for e
    by (auto simp: turn_ok_def intro!: exI [of _ 0])
  have call: "turn_ok n i s (settle ev n i target le r s1)" if t: "try_tier ev i (tUpstream t) target out (s\<lparr>cooled := c\<rparr>) = (r, s1)" for r s1 out
  proof -
    obtain m where "m = 1 \<or> m = 2" "events s1 = events (s\<lparr>cooled := c\<rparr>) @ replicate m (Called i) @ got_event i r"
      using try_tier_events [OF t] .
    then show ?thesis by (intro settle_ok [of m]) auto
  qed
  show ?thesis
  proof (cases po)
    case (Inl e)
    then show ?thesis using idle ic p by (simp add: take_turn_def Let_def)
  next
    case (Inr out)
    obtain r s1 where "try_tier ev i (tUpstream t) target out (s\<lparr>cooled := c\<rparr>) = (r, s1)" by fastforce
    then show ?thesis using call idle ic p Inr by (simp add: take_turn_def Let_def)
  qed
qed

lemma walk_events:
  "walk ev tr n source body i ts le s = (r, s') \<Longrightarrow> i + length ts = n \<Longrightarrow>
     \<exists>es. events s' = events s @ es \<and> walk_ok i n es r"
proof (induction ts arbitrary: i le s)
  case Nil
  then show ?case by (auto simp: walk_ok_def)
next
  case (Cons t ts)
  let ?turn = "take_turn ev tr n source body i t le s"
  have ok: "turn_ok n i s ?turn" by (rule turn_events)
  show ?case
  proof (cases ?turn)
    case (Continue e s1)
    then have "walk ev tr n source body (Suc i) ts e s1 = (r, s')" using Cons.prems(1) by simp
    then obtain es where es: "events s' = events s1 @ es" "walk_ok (Suc i) n es r" using Cons by fastforce
    obtain m tail where "m \<le> 2" "events s1 = events s @ replicate m (Called i) @ tail" "tail = [] \<or> tail = [Got i, Closed i]"
      using ok Continue by (auto simp: turn_ok_def)
    then show ?thesis using es walk_ok_failed [OF _ es(2)] by auto
  next
    case (Return x s1)
    then have x: "x = r" "s1 = s'" using Cons.prems by simp_all
    show ?thesis
    proof (cases r)
      case (Inl e)
      then show ?thesis using ok Return x walk_ok_stop [of _ i n e] by (auto simp: turn_ok_def)
    next
      case (Inr resp)
      then show ?thesis using ok Return x walk_ok_served [of _ resp i n] by (fastforce simp: turn_ok_def)
    qed
  qed
qed

text \<open>
  C7:
  A combo calls its tiers in order, each at most twice, and every response it receives is closed
  exactly once, except the one it returns; a returned response is one that does not warrant failover,
  unless it came from the last tier.
\<close>

theorem combo_releases_responses:
  assumes "ChatCompletion ev tr c ctx body s = (r, s')" "tiers c \<noteq> []"
  shows "\<exists>es. events s' = events s @ es \<and> sorted (calls es) \<and> (\<forall>k. count_list (calls es) k \<le> 2) \<and>
    distinct (closes es) \<and>
    (case r of
       Inl _ \<Rightarrow> gots es = closes es
     | Inr resp \<Rightarrow> \<exists>k. gots es = closes es @ [k] \<and> k \<notin> set (closes es) \<and>
         (fst (IsRetryableStatus resp) \<longrightarrow> Suc k = length (tiers c)))"
proof -
  have "walk ev tr (length (tiers c)) (RequestFormat ctx body) body 0 (tiers c) [] s = (r, s')"
    using assms by (simp add: ChatCompletion_def)
  from walk_events [OF this] obtain es where "events s' = events s @ es" "walk_ok 0 (length (tiers c)) es r" by auto
  then show ?thesis by (intro exI [of _ es]) (auto simp: walk_ok_def split: sum.splits)
qed

section \<open>Skipping and attempting\<close>

lemma fresh_iff:
  "hasFreshTierFrom k now n c \<longleftrightarrow> (\<exists>j \<ge> k. j < n \<and> (map_of c j = None \<or> (\<exists>u. map_of c j = Some u \<and> u < now)))"
proof -
  have "(case map_of c j of None \<Rightarrow> True | Some u \<Rightarrow> u < now) \<longleftrightarrow> map_of c j = None \<or> (\<exists>u. map_of c j = Some u \<and> u < now)" for j
    by (cases "map_of c j") auto
  then show ?thesis by (auto simp: hasFreshTierFrom_def list_ex_iff)
qed

text \<open>
  When the first tier is still in cooldown and a later tier is not, the request does not call the
  first tier.
\<close>

theorem combo_skips_cooled_tier:
  assumes "ChatCompletion ev tr c ctx body s = (r, s')" "length (tiers c) = n"
    and cooled: "map_of (cooled s) 0 = Some u" "clock ev (world s) \<le> u"
    and fresh: "0 < j" "j < n" "map_of (cooled s) j = None"
  shows "\<exists>es. events s' = events s @ es \<and> 0 \<notin> set (calls es)"
proof -
  obtain t ts where c: "tiers c = t # ts" using assms(2) fresh(2) by (cases "tiers c") auto
  have "inCooldown 0 (clock ev (world s)) (cooled s) = (True, cooled s)" using cooled by (simp add: inCooldown_def)
  moreover have "hasFreshTierFrom (Suc 0) (clock ev (world s)) n (cooled s)"
    using fresh by (auto simp: fresh_iff Suc_le_eq)
  ultimately have "walk ev tr n (RequestFormat ctx body) body (Suc 0) ts ''in cooldown'' s = (r, s')"
    using assms(1,2) c by (simp add: ChatCompletion_def take_turn_def)
  from walk_events [OF this] show ?thesis using assms(2) c by (fastforce simp: walk_ok_def)
qed

lemma settle_extends: "\<exists>es. events (turn_run (settle ev n i target le r s)) = events s @ es"
  by (cases r rule: sum.exhaust)
     (auto simp: settle_def markCooldown_def clearCooldown_def case_prod_unfold Let_def split: option.splits)

lemma turn_attempts:
  assumes "prepare_tier tr (upFormat ev (tUpstream t)) source (tModel t) body = (target, Inr out)"
    and "inCooldown i (clock ev (world s)) (cooled s) = (cool, c)" "\<not> (cool \<and> hasFreshTierFrom (Suc i) (clock ev (world s)) n c)"
  shows "\<exists>es. events (turn_run (take_turn ev tr n source body i t le s)) = events s @ Called i # es"
proof -
  obtain r s1 where ty: "try_tier ev i (tUpstream t) target out (s\<lparr>cooled := c\<rparr>) = (r, s1)" by fastforce
  obtain m where "m = 1 \<or> m = 2" "events s1 = events (s\<lparr>cooled := c\<rparr>) @ replicate m (Called i) @ got_event i r"
    using try_tier_events [OF ty] .
  then obtain es where "events s1 = events s @ Called i # es" by (auto simp: numeral_2_eq_2)
  moreover have "take_turn ev tr n source body i t le s = settle ev n i target le r s1"
    using assms ty by (auto simp: take_turn_def)
  ultimately show ?thesis using settle_extends [of ev n i target le r s1] by auto
qed

lemma walk_attempts:
  assumes "\<forall>t \<in> set ts. \<exists>target out. prepare_tier tr (upFormat ev (tUpstream t)) source (tModel t) body = (target, Inr out)"
    and "walk ev tr n source body i ts le s = (r, s')" "i + length ts = n" "ts \<noteq> []"
  shows "\<exists>es. events s' = events s @ es \<and> calls es \<noteq> []"
  using assms
proof (induction ts arbitrary: i le s)
  case (Cons t ts)
  let ?now = "clock ev (world s)" let ?turn = "take_turn ev tr n source body i t le s"
  obtain cool c where ic: "inCooldown i ?now (cooled s) = (cool, c)" by fastforce
  show ?case
  proof (cases "cool \<and> hasFreshTierFrom (Suc i) ?now n c")
    case True
    then have "ts \<noteq> []" using Cons.prems(3) by (auto simp: fresh_iff)
    moreover have "walk ev tr n source body (Suc i) ts ''in cooldown'' (s\<lparr>cooled := c\<rparr>) = (r, s')"
      using Cons.prems(2) True ic by (simp add: take_turn_def)
    ultimately show ?thesis using Cons.IH [of "Suc i" "''in cooldown''" "s\<lparr>cooled := c\<rparr>"] Cons.prems(1,3) by auto
  next
    case False
    obtain target out where p: "prepare_tier tr (upFormat ev (tUpstream t)) source (tModel t) body = (target, Inr out)"
      using Cons.prems(1) by auto
    obtain es where es: "events (turn_run ?turn) = events s @ Called i # es" using turn_attempts [OF p ic False] by blast
    show ?thesis
    proof (cases ?turn)
      case (Continue e s1)
      then have "walk ev tr n source body (Suc i) ts e s1 = (r, s')" using Cons.prems(2) by simp
      then obtain es' where "events s' = events s1 @ es'" using walk_events [of ev tr n source body "Suc i" ts] Cons.prems(3) by fastforce
      then show ?thesis using es Continue by auto
    next
      case (Return x s1)
      then show ?thesis using es Cons.prems(2) by auto
    qed
  qed
qed simp

text \<open>
  C31:
  A combo whose tiers all accept the body never fails without calling one of them, whatever the
  cooldowns.
\<close>

theorem combo_always_attempts:
  assumes "ChatCompletion ev tr c ctx body s = (r, s')" "tiers c \<noteq> []"
    and "\<forall>t \<in> set (tiers c). \<exists>target out.
      prepare_tier tr (upFormat ev (tUpstream t)) (RequestFormat ctx body) (tModel t) body = (target, Inr out)"
  shows "\<exists>es. events s' = events s @ es \<and> calls es \<noteq> []"
  using walk_attempts [OF assms(3), of "length (tiers c)" 0 "[]" s r s'] assms(1,2) by (simp add: ChatCompletion_def)

section \<open>Cancelled requests\<close>

lemma try_tier_cancelled:
  assumes "cancel_sticks ev" "ctxErr ev (world s) \<noteq> None"
  obtains e w where "try_tier ev i u f b s = (Inl e, s\<lparr>world := w, events := events s @ [Called i]\<rparr>)" "ctxErr ev w \<noteq> None"
proof -
  obtain e where e: "fst (call ev u f b (world s)) = Inl e" "ctxErr ev (snd (call ev u f b (world s))) \<noteq> None"
    using assms by (metis cancel_sticks_def)
  then have "call_tier ev i u f b s = (Inl e, s\<lparr>world := snd (call ev u f b (world s)), events := events s @ [Called i]\<rparr>)"
    by (simp add: call_tier_def case_prod_unfold)
  then show ?thesis using e that by (auto simp: try_tier_def)
qed

lemma turn_cancelled:
  assumes "cancel_sticks ev" "ctxErr ev (world s) \<noteq> None" "inCooldown i (clock ev (world s)) (cooled s) = (cool, c)"
  shows "(\<exists>e. take_turn ev tr n source body i t le s = Continue e (s\<lparr>cooled := c\<rparr>)) \<or>
    (\<exists>e s1 es. take_turn ev tr n source body i t le s = Return (Inl e) s1 \<and> events s1 = events s @ es \<and>
       length (calls es) \<le> 1 \<and> cooled s1 = c)"
proof (cases "cool \<and> hasFreshTierFrom (Suc i) (clock ev (world s)) n c")
  case False
  obtain target po where p: "prepare_tier tr (upFormat ev (tUpstream t)) source (tModel t) body = (target, po)" by fastforce
  show ?thesis
  proof (cases po)
    case (Inl e)
    then show ?thesis using False assms(3) p by (auto simp: take_turn_def Let_def)
  next
    case (Inr out)
    obtain e w where "try_tier ev i (tUpstream t) target out (s\<lparr>cooled := c\<rparr>) =
        (Inl e, (s\<lparr>cooled := c\<rparr>)\<lparr>world := w, events := events s @ [Called i]\<rparr>)" "ctxErr ev w \<noteq> None"
      using try_tier_cancelled [OF assms(1), of "s\<lparr>cooled := c\<rparr>" i "tUpstream t" target out] assms(2) by auto
    then show ?thesis using False assms(3) p Inr by (auto simp: take_turn_def settle_def Let_def)
  qed
qed (use assms(3) in \<open>simp add: take_turn_def\<close>)

lemma walk_cancelled:
  assumes "cancel_sticks ev" "walk ev tr n source body i ts le s = (r, s')" "ctxErr ev (world s) \<noteq> None"
  shows "\<exists>es. events s' = events s @ es \<and> length (calls es) \<le> 1 \<and> dom (map_of (cooled s')) \<subseteq> dom (map_of (cooled s)) \<and> (\<exists>e. r = Inl e)"
  using assms(2,3)
proof (induction ts arbitrary: i le s)
  case (Cons t ts)
  obtain cool c where ic: "inCooldown i (clock ev (world s)) (cooled s) = (cool, c)" by fastforce
  have d: "dom (map_of c) \<subseteq> dom (map_of (cooled s))"
    using ic by (auto simp: inCooldown_def delete_conv split: option.splits if_splits)
  from turn_cancelled [OF assms(1) Cons.prems(2) ic, of tr n source body t le] show ?case
  proof (elim disjE exE conjE)
    fix e assume "take_turn ev tr n source body i t le s = Continue e (s\<lparr>cooled := c\<rparr>)"
    then show ?thesis using Cons.IH [of "Suc i" e "s\<lparr>cooled := c\<rparr>"] Cons.prems d by auto
  qed (use Cons.prems(1) d in auto)
qed auto

text \<open>
  C33:
  For a request whose context is cancelled, when calls then fail and the context stays cancelled, the
  combo makes at most one call, returns an error and puts no tier into cooldown.
\<close>

theorem cancelled_request_cools_no_tier:
  assumes "cancel_sticks ev" "ChatCompletion ev tr c ctx body s = (r, s')" "ctxErr ev (world s) \<noteq> None"
  shows "\<exists>es. events s' = events s @ es \<and> length (calls es) \<le> 1 \<and>
    dom (map_of (cooled s')) \<subseteq> dom (map_of (cooled s)) \<and> (\<exists>e. r = Inl e)"
proof (cases "tiers c = []")
  case False
  then show ?thesis using walk_cancelled [OF assms(1) _ assms(3)] assms(2) by (simp add: ChatCompletion_def)
qed (use assms(2) in \<open>auto simp: ChatCompletion_def\<close>)

section \<open>The properties at a concrete combo\<close>

theorem combo_releases_responses_witness:
  "\<exists>k resp. fst (ChatCompletion demo_env plain_translators three_tiers None ''{}'' demo_run) = Inr resp \<and>
    gots (events (snd (ChatCompletion demo_env plain_translators three_tiers None ''{}'' demo_run))) =
    closes (events (snd (ChatCompletion demo_env plain_translators three_tiers None ''{}'' demo_run))) @ [k]"
proof -
  let ?x = "ChatCompletion demo_env plain_translators three_tiers None ''{}'' demo_run"
  have "\<not> isl (fst ?x)" "events demo_run = []" by code_simp+
  moreover have "tiers three_tiers \<noteq> []" by (simp add: three_tiers_def)
  ultimately show ?thesis
    using combo_releases_responses [OF surjective_pairing, of three_tiers demo_env plain_translators None "''{}''" demo_run]
    by (cases "fst ?x") auto
qed

theorem combo_skips_cooled_tier_witness:
  "0 \<notin> set (calls (events (snd (ChatCompletion demo_env plain_translators three_tiers None ''{}'' (demo_run\<lparr>cooled := [(0, 5)]\<rparr>)))))"
proof -
  let ?s = "demo_run\<lparr>cooled := [(0, 5)]\<rparr>"
  let ?x = "ChatCompletion demo_env plain_translators three_tiers None ''{}'' ?s"
  have "length (tiers three_tiers) = 3" "map_of (cooled ?s) 0 = Some 5" "clock demo_env (world ?s) \<le> 5" "map_of (cooled ?s) 2 = None"
    by (simp_all add: three_tiers_def demo_run_def demo_env_def)
  from combo_skips_cooled_tier [OF surjective_pairing this(1-3) _ _ this(4)]
  have "\<exists>es. events (snd ?x) = events ?s @ es \<and> 0 \<notin> set (calls es)" by simp
  then show ?thesis by (auto simp: demo_run_def)
qed

theorem combo_always_attempts_witness:
  "calls (events (snd (ChatCompletion demo_env plain_translators three_tiers None ''{}'' demo_run))) \<noteq> []"
proof -
  let ?x = "ChatCompletion demo_env plain_translators three_tiers None ''{}'' demo_run"
  have "prepare_tier plain_translators None (RequestFormat None ''{}'') [] ''{}'' = (FormatOpenAI, Inr ''{}'')" by code_simp
  then have "\<forall>t \<in> set (tiers three_tiers). \<exists>target out.
      prepare_tier plain_translators (upFormat demo_env (tUpstream t)) (RequestFormat None ''{}'') (tModel t) ''{}'' = (target, Inr out)"
    by (auto simp: three_tiers_def demo_env_def)
  moreover have "tiers three_tiers \<noteq> []" by (simp add: three_tiers_def)
  ultimately have "\<exists>es. events (snd ?x) = events demo_run @ es \<and> calls es \<noteq> []"
    using combo_always_attempts [OF surjective_pairing] by blast
  then show ?thesis by (auto simp: demo_run_def)
qed

theorem cancelled_request_cools_no_tier_witness:
  "dom (map_of (cooled (snd (ChatCompletion gone_env plain_translators three_tiers None ''{}'' demo_run)))) = {}"
proof -
  have "cancel_sticks gone_env" "ctxErr gone_env (world demo_run) \<noteq> None" by (simp_all add: cancel_sticks_def gone_env_def)
  from cancelled_request_cools_no_tier [OF this(1) surjective_pairing this(2)] show ?thesis by (fastforce simp: demo_run_def)
qed

end
