(* ===== verification/Chat_Service.thy ===== *)
theory Chat_Service
  imports Failover Observability
begin

text \<open>
  The chat service (internal/application/chat.go): the walk over the upstream candidates, the counters and
  the one log entry per request. The candidates are those of the router (Catalog). Forwarding an upstream
  error and normalising an answer are parameters: the message that the pass-through extracts, and the
  token usage or error of the normalisation. The request is the one of the HTTP handler, never nil.
\<close>

section \<open>State\<close>

definition statusClientClosedRequest :: int where "statusClientClosedRequest = 499"
definition statusBadGateway :: int where "statusBadGateway = 502"

text \<open>The fields of the request that the log entry keeps.\<close>

record http_request =
  hMethod :: string
  hPath :: string
  hIP :: string

record usage =
  uTotal :: int
  uPrompt :: int
  uCompletion :: int

text \<open>\<open>sMetrics\<close> is None when metrics are disabled; \<open>tried\<close> lists the candidates called, \<open>released\<close> those whose answer was closed to go on.\<close>

record 'w service =
  sWorld :: 'w
  sMetrics :: "metrics option"
  sLog :: "request_log_entry list"
  tried :: "nat list"
  released :: "nat list"

definition on_metrics :: "(metrics \<Rightarrow> metrics) \<Rightarrow> 'w service \<Rightarrow> 'w service" where
  "on_metrics f s = s\<lparr>sMetrics := map_option f (sMetrics s)\<rparr>"

definition count_request :: "metrics \<Rightarrow> metrics" where
  "count_request m = m\<lparr>TotalRequests := TotalRequests m + 1\<rparr>"

definition count_error :: "metrics \<Rightarrow> metrics" where
  "count_error m = m\<lparr>UpstreamErrors := UpstreamErrors m + 1\<rparr>"

definition count_tokens :: "usage \<Rightarrow> metrics \<Rightarrow> metrics" where
  "count_tokens u m = m\<lparr>InputTokens := InputTokens m + of_int (uPrompt u), OutputTokens := OutputTokens m + of_int (uCompletion u)\<rparr>"

section \<open>The candidates\<close>

definition candidates :: "('m \<Rightarrow> 'u list) \<Rightarrow> ('m \<Rightarrow> 'u option) \<Rightarrow> 'm \<Rightarrow> 'u list" where
  "candidates chain select modelID =
     (case chain modelID of
        u # us \<Rightarrow> u # us
      | [] \<Rightarrow> (case select modelID of Some u \<Rightarrow> [u] | None \<Rightarrow> []))"

text \<open>What the walk ends with: the error and the status to log, or the response to forward.\<close>

datatype verdict = Failed int string | Answer uresponse

definition call_candidate :: "('u, 'w) env \<Rightarrow> fmt \<Rightarrow> string \<Rightarrow> nat \<Rightarrow> 'u \<Rightarrow> 'w service \<Rightarrow> (string + uresponse option) \<times> 'w service" where
  "call_candidate ev f body i u s =
     (let s = on_metrics (IncrUpstream (upName ev u)) s; (r, w) = call ev u f body (sWorld s)
      in (r, s\<lparr>sWorld := w, tried := tried s @ [i]\<rparr>))"

fun try_candidates :: "('u, 'w) env \<Rightarrow> fmt \<Rightarrow> string \<Rightarrow> nat \<Rightarrow> 'u list \<Rightarrow> 'w service \<Rightarrow> (string \<times> verdict) \<times> 'w service" where
  "try_candidates ev f body i [] s = (([], Failed 0 []), s)"
| "try_candidates ev f body i (u # us) s =
     (case call_candidate ev f body i u s of
        (Inl e, s) \<Rightarrow>
          if ctxErr ev (sWorld s) \<noteq> None
          then ((upName ev u, Failed statusClientClosedRequest (''upstream request: '' @ e)), on_metrics count_error s)
          else if us \<noteq> [] then try_candidates ev f body (Suc i) us s
          else ((upName ev u, Failed statusBadGateway (''upstream request: '' @ e)), on_metrics count_error s)
      | (Inr None, s) \<Rightarrow>
          if us \<noteq> [] then try_candidates ev f body (Suc i) us s
          else ((upName ev u, Failed statusBadGateway (''upstream request: '' @ upName ev u @ '' returned nil response'')), on_metrics count_error s)
      | (Inr (Some resp), s) \<Rightarrow>
          (let (retry, resp) = IsRetryableStatus resp
           in if retry \<and> us \<noteq> [] then try_candidates ev f body (Suc i) us (s\<lparr>released := released s @ [i]\<rparr>)
              else ((upName ev u, Answer resp), s)))"

section \<open>One request\<close>

definition log_entry :: "int \<Rightarrow> int \<Rightarrow> http_request \<Rightarrow> string \<Rightarrow> string \<Rightarrow> int \<Rightarrow> string \<Rightarrow> usage \<Rightarrow> request_log_entry" where
  "log_entry start dur r modelID up st err us =
     \<lparr>ts = start, req_method = hMethod r, path = hPath r, log_model = modelID, upstream = up, log_status = st,
      duration_ms = dur, ip = hIP r, log_error = err, prompt_tokens = uPrompt us, completion_tokens = uCompletion us, total_tokens = uTotal us\<rparr>"

definition no_usage :: usage where "no_usage = \<lparr>uTotal = 0, uPrompt = 0, uCompletion = 0\<rparr>"

text \<open>
  \<open>pass\<close> is the message of an upstream error that is passed through, \<open>normalise\<close> the usage of a forwarded
  answer or the error of its normalisation. The result is the error that ProxyChat returns, if any.
\<close>

definition ProxyChat ::
  "('u, 'w) env \<Rightarrow> (uresponse \<Rightarrow> string) \<Rightarrow> (uresponse \<Rightarrow> string + usage) \<Rightarrow> (string \<Rightarrow> 'u list) \<Rightarrow> (string \<Rightarrow> 'u option) \<Rightarrow> int \<Rightarrow> int \<Rightarrow>
   http_request \<Rightarrow> fmt \<Rightarrow> string \<Rightarrow> string \<Rightarrow> 'w service \<Rightarrow> string option \<times> 'w service" where
  "ProxyChat ev pass normalise chain select start dur r f modelID body s =
     (let s = on_metrics count_request s;
          cands = candidates chain select modelID;
          done = (\<lambda>up st err us s. s\<lparr>sLog := sLog s @ [log_entry start dur r modelID up st err us]\<rparr>)
      in if cands = []
         then (let e = ''select upstream: no upstream for model'' in (Some e, done [] statusBadGateway e no_usage (on_metrics count_error s)))
         else
           (case try_candidates ev f body 0 cands s of
              ((up, Failed st e), s) \<Rightarrow> (Some e, done up st e no_usage s)
            | ((up, Answer resp), s) \<Rightarrow>
                if 400 \<le> uStatus resp
                then (None, done up (uStatus resp) (if pass resp \<noteq> [] then ''upstream: '' @ pass resp else []) no_usage (on_metrics count_error s))
                else (case normalise resp of
                        Inl _ \<Rightarrow> (None, done up (uStatus resp) [] no_usage s)
                      | Inr us \<Rightarrow> (None, done up (uStatus resp) [] us (if 0 < uTotal us then on_metrics (count_tokens us) s else s)))))"

section \<open>Specifications\<close>

definition counted :: "metrics \<Rightarrow> 64 word \<Rightarrow> 64 word \<Rightarrow> 'w service \<Rightarrow> bool" where
  "counted m t e s =
     (\<exists>m'. sMetrics s = Some m' \<and> TotalRequests m' = TotalRequests m + t \<and> UpstreamErrors m' = UpstreamErrors m + e)"

definition walk_result :: "('u, 'w) env \<Rightarrow> nat \<Rightarrow> 'u list \<Rightarrow> 'w service \<Rightarrow> string \<Rightarrow> verdict \<Rightarrow> 'w service \<Rightarrow> bool" where
  "walk_result ev i us s up v s' =
     ((\<exists>k. k < length us \<and> tried s' = tried s @ [i..<Suc (i + k)] \<and> up = upName ev (us ! k) \<and>
        (case v of Failed st e \<Rightarrow> 400 \<le> st | Answer resp \<Rightarrow> fst (IsRetryableStatus resp) \<longrightarrow> Suc k = length us)) \<and>
      sLog s' = sLog s \<and>
      (\<forall>m a b. counted m a b s \<longrightarrow> counted m a (case v of Failed _ _ \<Rightarrow> b + 1 | Answer _ \<Rightarrow> b) s'))"

definition demo_service :: "nat service" where
  "demo_service = \<lparr>sWorld = 0, sMetrics = Some metrics_new, sLog = [], tried = [], released = []\<rparr>"

definition demo_chat :: "string option \<times> nat service" where
  "demo_chat = ProxyChat demo_env (\<lambda>r. []) (\<lambda>r. Inr no_usage) (\<lambda>m. [0, 1, 2]) (\<lambda>m. None) 7 3
     \<lparr>hMethod = ''POST'', hPath = ''/v1/chat/completions'', hIP = ''::1''\<rparr> FormatOpenAI ''best'' ''{}'' demo_service"

lemma incr_frame [simp]: "TotalRequests (IncrUpstream n m) = TotalRequests m" "UpstreamErrors (IncrUpstream n m) = UpstreamErrors m"
  by (auto simp: IncrUpstream_def Let_def split: option.splits)

lemma counted_count_error: "counted m a b s \<Longrightarrow> counted m a (b + 1) (on_metrics count_error s)"
  by (auto simp: counted_def on_metrics_def count_error_def)

lemma counted_count_request: "sMetrics s = Some m \<Longrightarrow> counted m 1 0 (on_metrics count_request s)"
  by (auto simp: counted_def on_metrics_def count_request_def)

lemma counted_count_tokens: "counted m a b s \<Longrightarrow> counted m a b (on_metrics (count_tokens u) s)"
  by (auto simp: counted_def on_metrics_def count_tokens_def)

lemma counted_frame [simp]:
  "counted m a b (s\<lparr>sLog := l\<rparr>) = counted m a b s" "counted m a b (s\<lparr>released := x\<rparr>) = counted m a b s"
  by (simp_all add: counted_def)

lemma call_candidate_frame:
  assumes "call_candidate ev f body i u s = (r, s1)"
  shows "tried s1 = tried s @ [i]" "sLog s1 = sLog s" "released s1 = released s" "counted m a b s \<Longrightarrow> counted m a b s1"
  using assms by (auto simp: call_candidate_def on_metrics_def counted_def case_prod_unfold Let_def)

lemma walk_result_next:
  assumes "walk_result ev (Suc i) us s1 up v s'" "tried s1 = tried s @ [i]" "sLog s1 = sLog s"
    "\<And>m a b. counted m a b s \<Longrightarrow> counted m a b s1"
  shows "walk_result ev i (u # us) s up v s'"
proof -
  obtain k where k: "k < length us" "tried s' = tried s1 @ [Suc i..<Suc (Suc i + k)]" "up = upName ev (us ! k)"
    "case v of Failed st e \<Rightarrow> 400 \<le> st | Answer resp \<Rightarrow> fst (IsRetryableStatus resp) \<longrightarrow> Suc k = length us"
    using assms(1) by (auto simp: walk_result_def)
  have "tried s' = tried s @ [i..<Suc (i + Suc k)]" using k(2) assms(2) by (simp add: upt_conv_Cons)
  then have "\<exists>j. j < length (u # us) \<and> tried s' = tried s @ [i..<Suc (i + j)] \<and> up = upName ev ((u # us) ! j) \<and>
      (case v of Failed st e \<Rightarrow> 400 \<le> st | Answer resp \<Rightarrow> fst (IsRetryableStatus resp) \<longrightarrow> Suc j = length (u # us))"
    using k by (intro exI [of _ "Suc k"]) (auto split: verdict.splits)
  then show ?thesis using assms unfolding walk_result_def by auto
qed

lemma walk_result_here:
  assumes "tried s1 = tried s @ [i]" "sLog s1 = sLog s"
    "case v of Failed st e \<Rightarrow> 400 \<le> st | Answer resp \<Rightarrow> fst (IsRetryableStatus resp) \<longrightarrow> us = []"
    "\<And>m a b. counted m a b s \<Longrightarrow> counted m a (case v of Failed _ _ \<Rightarrow> b + 1 | Answer _ \<Rightarrow> b) s1"
  shows "walk_result ev i (u # us) s (upName ev u) v s1"
  using assms unfolding walk_result_def
  by (intro conjI exI [of _ 0]) (auto split: verdict.splits)

lemma verdict_probe: "fst (IsRetryableStatus (snd (IsRetryableStatus r))) = fst (IsRetryableStatus r)"
  by (rule verdict_cong) (simp_all add: probe_body probe_frame)

lemma on_metrics_frame [simp]: "tried (on_metrics g s) = tried s" "sLog (on_metrics g s) = sLog s"
  by (simp_all add: on_metrics_def)

lemma try_candidates_result:
  "us \<noteq> [] \<Longrightarrow> try_candidates ev f body i us s = ((up, v), s') \<Longrightarrow> walk_result ev i us s up v s'"
proof (induction us arbitrary: i s)
  case (Cons u us)
  obtain r s1 where c: "call_candidate ev f body i u s = (r, s1)" by fastforce
  note fr = call_candidate_frame [OF c]
  have step: "walk_result ev i (u # us) s up v s'"
    if "us \<noteq> []" "try_candidates ev f body (Suc i) us s2 = ((up, v), s')" "s2 = s1 \<or> s2 = s1\<lparr>released := x\<rparr>" for s2 x
    using walk_result_next [OF Cons.IH [OF that(1,2)]] that(3) fr by auto
  have fail: "walk_result ev i (u # us) s (upName ev u) (Failed st e) (on_metrics count_error s1)" if "400 \<le> st" for st e
    using that fr by (intro walk_result_here) (auto intro: counted_count_error)
  show ?case
  proof (cases r)
    case (Inl e)
    then show ?thesis using Cons.prems(2) c step [of s1] fail
      by (auto simp: statusClientClosedRequest_def statusBadGateway_def split: if_splits)
  next
    case (Inr ro)
    show ?thesis
    proof (cases ro)
      case None
      then show ?thesis using Inr Cons.prems(2) c step [of s1] fail
        by (auto simp: statusBadGateway_def split: if_splits)
    next
      case (Some resp)
      obtain rt rp where v: "IsRetryableStatus resp = (rt, rp)" by fastforce
      have "fst (IsRetryableStatus rp) = rt" using verdict_probe [of resp] v by simp
      then have "rt \<longrightarrow> us = [] \<Longrightarrow> walk_result ev i (u # us) s (upName ev u) (Answer rp) s1"
        using fr by (intro walk_result_here) auto
      then show ?thesis using Inr Some Cons.prems(2) c v step [of "s1\<lparr>released := released s1 @ [i]\<rparr>" "released s1 @ [i]"]
        by (auto split: if_splits)
    qed
  qed
qed simp

text \<open>
  C30:
  Every chat request adds exactly one log entry, for the requested model; it counts one request, and
  one upstream error exactly when the logged status is 400 or above, and an error returned to the
  handler is always logged with such a status.
\<close>

theorem proxy_chat_accounts:
  assumes "ProxyChat ev pass normalise chain select start dur r f modelID body s = (err, s')" "sMetrics s = Some m"
  shows "\<exists>e. sLog s' = sLog s @ [e] \<and> log_model e = modelID \<and> (err \<noteq> None \<longrightarrow> 400 \<le> log_status e) \<and>
    counted m 1 (if 400 \<le> log_status e then 1 else 0) s'"
proof (cases "candidates chain select modelID = []")
  case True
  have "counted m 1 1 (on_metrics count_error (on_metrics count_request s))"
    using counted_count_error [OF counted_count_request [OF assms(2)]] by simp
  then show ?thesis using assms(1) True by (auto simp: ProxyChat_def log_entry_def statusBadGateway_def Let_def)
next
  case False
  let ?s0 = "on_metrics count_request s"
  obtain up v s1 where t: "try_candidates ev f body 0 (candidates chain select modelID) ?s0 = ((up, v), s1)" by (metis prod.exhaust)
  have w: "walk_result ev 0 (candidates chain select modelID) ?s0 up v s1" using try_candidates_result [OF False t] .
  have c: "counted m 1 (case v of Failed _ _ \<Rightarrow> 1 | Answer _ \<Rightarrow> 0) s1" and l: "sLog s1 = sLog s"
    using w counted_count_request [OF assms(2)] unfolding walk_result_def by (fastforce split: verdict.splits)+
  show ?thesis
  proof (cases v)
    case (Failed st e)
    then have "400 \<le> st" using w by (auto simp: walk_result_def)
    then show ?thesis using assms(1) False t c l Failed by (auto simp: ProxyChat_def log_entry_def)
  next
    case (Answer resp)
    then have "counted m 1 0 s1" using c by simp
    then show ?thesis using assms(1) False t l Answer counted_count_error [of m 1 0 s1] counted_count_tokens [of m 1 0 s1]
      by (auto simp: ProxyChat_def log_entry_def Let_def split: if_splits sum.splits)
  qed
qed

text \<open>
  The candidates are called in order, without a gap and each once, up to the one that ends the
  request, whose name is the one in the log entry.
\<close>

theorem proxy_chat_tries_in_order:
  assumes "ProxyChat ev pass normalise chain select start dur r f modelID body s = (err, s')"
    "candidates chain select modelID = us" "us \<noteq> []"
  shows "\<exists>k e. k < length us \<and> tried s' = tried s @ [0..<Suc k] \<and> last (sLog s') = e \<and> upstream e = upName ev (us ! k)"
proof -
  let ?s0 = "on_metrics count_request s"
  obtain up v s1 where t: "try_candidates ev f body 0 us ?s0 = ((up, v), s1)" by (metis prod.exhaust)
  from try_candidates_result [OF assms(3) this] obtain k where "k < length us" "tried s1 = tried s @ [0..<Suc k]" "up = upName ev (us ! k)"
    by (auto simp: walk_result_def)
  moreover have "tried s' = tried s1" "upstream (last (sLog s')) = up"
    using assms t by (auto simp: ProxyChat_def log_entry_def Let_def split: verdict.splits if_splits sum.splits)
  ultimately show ?thesis by auto
qed

section \<open>The properties at a concrete request\<close>

lemma demo_chat_eq:
  "ProxyChat demo_env (\<lambda>r. []) (\<lambda>r. Inr no_usage) (\<lambda>m. [0, 1, 2]) (\<lambda>m. None) 7 3
     \<lparr>hMethod = ''POST'', hPath = ''/v1/chat/completions'', hIP = ''::1''\<rparr> FormatOpenAI ''best'' ''{}'' demo_service =
     (fst demo_chat, snd demo_chat)"
  by (simp add: demo_chat_def)

theorem proxy_chat_accounts_witness:
  "\<exists>e. sLog (snd demo_chat) = [e] \<and> log_model e = ''best'' \<and> log_status e = 200 \<and> counted metrics_new 1 0 (snd demo_chat)"
proof -
  have "sMetrics demo_service = Some metrics_new" by (simp add: demo_service_def)
  from proxy_chat_accounts [OF demo_chat_eq this] obtain e where
    e: "sLog (snd demo_chat) = sLog demo_service @ [e]" "log_model e = ''best''" "counted metrics_new 1 (if 400 \<le> log_status e then 1 else 0) (snd demo_chat)"
    by blast
  moreover have "map log_status (sLog (snd demo_chat)) = [200]" by code_simp
  ultimately show ?thesis by (auto simp: demo_service_def)
qed

theorem proxy_chat_tries_in_order_witness:
  "\<exists>k < 3. tried (snd demo_chat) = [0..<Suc k]"
proof -
  have "candidates (\<lambda>m. [0, 1, 2]) (\<lambda>m. None) ''best'' = [0, 1, 2 :: nat]" by (simp add: candidates_def)
  from proxy_chat_tries_in_order [OF demo_chat_eq this] obtain k where "k < length [0, 1, 2 :: nat]" "tried (snd demo_chat) = tried demo_service @ [0..<Suc k]"
    by blast
  then show ?thesis by (intro exI [of _ k]) (simp add: demo_service_def)
qed

end
