(* ===== verification/Manager.thy ===== *)
theory Manager
  imports Registry_Invariant Catalog Http_Client
begin

text \<open>
  The provider manager (internal/infrastructure/upstream/manager.go): the custom upstreams rebuilt from the
  registry with their relays, and the background refreshers. A refresher is a number; \<open>mLive\<close> holds those
  that run, with the provider and the run context they belong to. The lock makes every method one step.
\<close>

section \<open>Clients (client.go)\<close>

definition NewHTTPClientWithTransport :: "string \<Rightarrow> string list \<Rightarrow> (string, string) gomap \<Rightarrow> http_client" where
  "NewHTTPClientWithTransport url keys hs =
     \<lparr>baseURL = (if has_suffix url ''/'' then butlast url else url), apiKeys = keys, nextKey = 0, cheaders = hs,
      cooldown = newKeyCooldown keyCooldownTTL\<rparr>"

text \<open>None follows the shared selector.\<close>

definition SetRelayPools :: "relay_pool list option \<Rightarrow> relay_selector option" where
  "SetRelayPools ps = map_option (\<lambda>l. SetPools l NewRelaySelector) ps"

definition relayOrShared :: "relay_selector \<Rightarrow> relay_selector option \<Rightarrow> relay_selector" where
  "relayOrShared shared r = (case r of Some s \<Rightarrow> s | None \<Rightarrow> shared)"

section \<open>The manager\<close>

record managed =
  mUpstream :: custom_upstream
  mClient :: http_client
  mRelay :: "relay_selector option"

record manager =
  mCustoms :: "(string, managed) gomap"
  mIntervals :: "(string, int) gomap"
  mRunCtx :: "nat option"
  mRuns :: "(string, nat) gomap"
  mLive :: "(nat \<times> string \<times> nat) list"
  mNext :: nat

definition NewProviderManager :: manager where
  "NewProviderManager = \<lparr>mCustoms = [], mIntervals = [], mRunCtx = None, mRuns = [], mLive = [], mNext = 0\<rparr>"

definition refreshInterval :: "int \<Rightarrow> int" where
  "refreshInterval sec = (if sec \<le> 0 \<or> 3600 < sec then 60 * 1000000000 else sec * 1000000000)"

definition relayPoolsCached :: "(nat, proxy_pool) gomap \<Rightarrow> provider \<Rightarrow> relay_pool list option" where
  "relayPoolsCached poolsByID p =
     ResolveRelayPools (\<lambda>i. case map_of poolsByID i of Some q \<Rightarrow> Inr q | None \<Rightarrow> Inl [ErrNotFound]) (ProxyMode p) (ProxyPoolID p)"

definition pinned_ids :: "provider list \<Rightarrow> nat list" where
  "pinned_ids rows =
     dedup_by id [] (concat (map (\<lambda>r.
       if \<not> pEnabled r \<or> NormalizeProxyMode (ProxyMode r) \<noteq> ProxyModePool then []
       else case ProxyPoolID r of Some i \<Rightarrow> [i] | None \<Rightarrow> []) rows))"

text \<open>A fresh upstream for a row, with what the previous generation knows of the models that are kept.\<close>

definition fresh_upstream :: "(nat, proxy_pool) gomap \<Rightarrow> (string, managed) gomap \<Rightarrow> provider \<Rightarrow> managed" where
  "fresh_upstream poolsByID old p =
     (let u = NewCustomUpstream (pName p) (Models p)
      in \<lparr>mUpstream = (case map_of old (pName p) of Some o' \<Rightarrow> RestoreKept (custom_Models (mUpstream o')) u | None \<Rightarrow> u),
          mClient = NewHTTPClientWithTransport (BaseURL p) (APIKeys p) (Headers p),
          mRelay = SetRelayPools (relayPoolsCached poolsByID p)\<rparr>)"

definition cancel_run :: "nat \<Rightarrow> manager \<Rightarrow> manager" where
  "cancel_run i m = m\<lparr>mLive := filter (\<lambda>(j, _). j \<noteq> i) (mLive m)\<rparr>"

definition startOne :: "nat \<Rightarrow> string \<Rightarrow> manager \<Rightarrow> manager" where
  "startOne ctx name m =
     m\<lparr>mRuns := mput name (mNext m) (mRuns m), mLive := mLive m @ [(mNext m, name, ctx)], mNext := Suc (mNext m)\<rparr>"

text \<open>The two loops of reconcile: refreshers of removed providers, then a restart of every present one.\<close>

definition drop_run :: "string \<Rightarrow> manager \<Rightarrow> manager" where
  "drop_run name m =
     (if name \<in> fst ` set (mCustoms m) then m
      else case map_of (mRuns m) name of
             Some i \<Rightarrow> (cancel_run i m)\<lparr>mRuns := mdel name (mRuns m)\<rparr>
           | None \<Rightarrow> m)"

definition restart_run :: "nat \<Rightarrow> string \<Rightarrow> manager \<Rightarrow> manager" where
  "restart_run ctx name m =
     startOne ctx name (case map_of (mRuns m) name of Some i \<Rightarrow> cancel_run i m | None \<Rightarrow> m)"

definition reconcile :: "manager \<Rightarrow> manager" where
  "reconcile m =
     (let m = fold drop_run (map fst (mRuns m)) m
      in case mRunCtx m of None \<Rightarrow> m | Some ctx \<Rightarrow> fold (restart_run ctx) (map fst (mCustoms m)) m)"

definition Rebuild :: "gorm \<Rightarrow> store \<Rightarrow> manager \<Rightarrow> unit sres \<times> manager" where
  "Rebuild G s m =
     (case ListProvidersRaw G s of
        Inl e \<Rightarrow> (Inl e, m)
      | Inr rows \<Rightarrow>
          (case (if pinned_ids rows = [] then Inr [] else GetPools G (pinned_ids rows) s) of
             Inl e \<Rightarrow> (Inl e, m)
           | Inr poolsByID \<Rightarrow>
               (let on = filter pEnabled rows;
                    m' = m\<lparr>mCustoms := fold (\<lambda>p. mput (pName p) (fresh_upstream poolsByID (mCustoms m) p)) on [],
                      mIntervals := fold (\<lambda>p. mput (pName p) (refreshInterval (RefreshSec p))) on []\<rparr>
                in (Inr (), if mRunCtx m' \<noteq> None then reconcile m' else m'))))"

definition manager_Start :: "manager \<Rightarrow> manager" where
  "manager_Start m =
     (let ctx = mNext m
      in fold (startOne ctx) (map fst (mCustoms m)) (m\<lparr>mRunCtx := Some ctx, mNext := Suc ctx\<rparr>))"

definition manager_Stop :: "manager \<Rightarrow> manager" where
  "manager_Stop m =
     (let m1 = fold (\<lambda>(name, i). cancel_run i) (mRuns m) m
      in m1\<lparr>mRuns := [], mRunCtx := None,
            mLive := (case mRunCtx m of Some ctx \<Rightarrow> filter (\<lambda>(_, _, c). c \<noteq> ctx) (mLive m1) | None \<Rightarrow> mLive m1)\<rparr>)"

definition Warm :: "('e + catalog_entry list) \<Rightarrow> string \<Rightarrow> manager \<Rightarrow> (string + ('e + model list)) \<times> manager" where
  "Warm fetch name m =
     (case map_of (mCustoms m) name of
        None \<Rightarrow> (Inl ''unknown custom provider'', m)
      | Some u \<Rightarrow>
          (case ListModels fetch (mUpstream u) of
             (r, cu) \<Rightarrow> (Inr r, m\<lparr>mCustoms := mput name (u\<lparr>mUpstream := cu\<rparr>) (mCustoms m)\<rparr>)))"

definition manager_All :: "manager \<Rightarrow> managed list" where
  "manager_All m = sort_key (\<lambda>u. ''custom:'' @ cuName (mUpstream u)) (map snd (mCustoms m))"

section \<open>Specifications\<close>

text \<open>The refreshers of the run context \<open>c\<close> are exactly those that the cancel functions reach.\<close>

definition runs_ok :: "nat \<Rightarrow> manager \<Rightarrow> bool" where
  "runs_ok c m =
     (distinct (map fst (mLive m)) \<and> (\<forall>x \<in> set (mLive m). fst x < mNext m \<and> snd (snd x) = c) \<and>
      (\<forall>n i. map_of (mRuns m) n = Some i \<longleftrightarrow> (i, n, c) \<in> set (mLive m)))"

definition manager_inv :: "manager \<Rightarrow> bool" where
  "manager_inv m =
     (case mRunCtx m of
        None \<Rightarrow> mLive m = [] \<and> mRuns m = []
      | Some c \<Rightarrow> runs_ok c m \<and> dom (map_of (mRuns m)) = fst ` set (mCustoms m))"

inductive manager_reach :: "manager \<Rightarrow> bool" where
  init: "manager_reach NewProviderManager"
| rebuild: "manager_reach m \<Longrightarrow> manager_reach (snd (Rebuild G s m))"
| start: "manager_reach m \<Longrightarrow> mRunCtx m = None \<Longrightarrow> manager_reach (manager_Start m)"
| stop: "manager_reach m \<Longrightarrow> manager_reach (manager_Stop m)"
| warm: "manager_reach m \<Longrightarrow> manager_reach (snd (Warm (fetch :: string + catalog_entry list) name m))"

definition live_names :: "manager \<Rightarrow> string list" where
  "live_names m = map (\<lambda>(i, n, c). n) (mLive m)"

definition customs_ok :: "manager \<Rightarrow> bool" where
  "customs_ok m = (distinct (map fst (mCustoms m)) \<and> manager_inv m)"

definition pinned_relay :: "proxy_pool \<Rightarrow> relay_selector" where
  "pinned_relay q =
     SetPools (if lEnabled q then [\<lparr>poolURL = ProxyURL q, poolNoProxy = NoProxy q, Strict = StrictProxy q\<rparr>] else []) NewRelaySelector"

section \<open>Refreshers\<close>

lemma run_frame [simp]:
  "mCustoms (cancel_run i m) = mCustoms m" "mRunCtx (cancel_run i m) = mRunCtx m"
  "mRuns (cancel_run i m) = mRuns m" "mNext (cancel_run i m) = mNext m"
  "mCustoms (startOne c n m) = mCustoms m" "mRunCtx (startOne c n m) = mRunCtx m"
  "mCustoms (drop_run n m) = mCustoms m" "mRunCtx (drop_run n m) = mRunCtx m"
  "mCustoms (restart_run c n m) = mCustoms m" "mRunCtx (restart_run c n m) = mRunCtx m"
  by (simp_all add: cancel_run_def startOne_def drop_run_def restart_run_def split: option.splits)

lemma start_ok:
  assumes "runs_ok c m" "map_of (mRuns m) n = None"
  shows "runs_ok c (startOne c n m)" "dom (map_of (mRuns (startOne c n m))) = insert n (dom (map_of (mRuns m)))"
proof -
  have "(j, n, c) \<notin> set (mLive m)" for j using assms by (metis option.distinct(1) runs_ok_def)
  then show "runs_ok c (startOne c n m)" "dom (map_of (mRuns (startOne c n m))) = insert n (dom (map_of (mRuns m)))"
    using assms by (auto simp: runs_ok_def startOne_def)
qed

lemma cancel_ok:
  assumes "runs_ok c m" "map_of (mRuns m) n = Some i"
  shows "runs_ok c ((cancel_run i m)\<lparr>mRuns := mdel n (mRuns m)\<rparr>)"
proof -
  have "(i, n, c) \<in> set (mLive m)" using assms by (simp add: runs_ok_def)
  then have "k = n" if "(i, k, c) \<in> set (mLive m)" for k
    using that assms(1) eq_key_imp_eq_value [of "mLive m" i "(n, c)" "(k, c)"] by (simp add: runs_ok_def)
  moreover have iff: "map_of (mRuns m) k = Some j \<longleftrightarrow> (j, k, c) \<in> set (mLive m)" for k j using assms(1) by (simp add: runs_ok_def)
  ultimately have "(k \<noteq> n \<and> map_of (mRuns m) k = Some j) \<longleftrightarrow> (j, k, c) \<in> set (mLive m) \<and> j \<noteq> i" for k j
    using assms(2) by (metis option.inject)
  then show ?thesis using assms(1) by (simp add: runs_ok_def cancel_run_def delete_conv distinct_map_filter) blast
qed

lemma drop_ok:
  assumes "runs_ok c m"
  shows "runs_ok c (drop_run n m)"
    "dom (map_of (mRuns (drop_run n m))) = dom (map_of (mRuns m)) - (if n \<in> fst ` set (mCustoms m) then {} else {n})"
  using assms cancel_ok by (auto simp: drop_run_def delete_conv split: option.splits if_splits)

lemma restart_ok:
  assumes "runs_ok c m"
  shows "runs_ok c (restart_run c n m)" "dom (map_of (mRuns (restart_run c n m))) = insert n (dom (map_of (mRuns m)))"
proof -
  have "runs_ok c (restart_run c n m) \<and> dom (map_of (mRuns (restart_run c n m))) = insert n (dom (map_of (mRuns m)))"
  proof (cases "map_of (mRuns m) n")
    case None
    then show ?thesis using start_ok [OF assms] by (simp add: restart_run_def)
  next
    case (Some i)
    let ?m = "(cancel_run i m)\<lparr>mRuns := mdel n (mRuns m)\<rparr>"
    have "runs_ok c (startOne c n ?m)" using start_ok(1) [OF cancel_ok [OF assms Some]] by (simp add: delete_conv)
    moreover have "runs_ok c (restart_run c n m) = runs_ok c (startOne c n ?m)"
      using Some by (simp add: restart_run_def startOne_def runs_ok_def cancel_run_def delete_conv)
    ultimately show ?thesis using Some by (auto simp: restart_run_def startOne_def)
  qed
  then show "runs_ok c (restart_run c n m)" "dom (map_of (mRuns (restart_run c n m))) = insert n (dom (map_of (mRuns m)))" by auto
qed

lemma fold_drop_ok:
  "runs_ok c m \<Longrightarrow> runs_ok c (fold drop_run ns m) \<and> mCustoms (fold drop_run ns m) = mCustoms m \<and>
     mRunCtx (fold drop_run ns m) = mRunCtx m \<and>
     dom (map_of (mRuns (fold drop_run ns m))) = dom (map_of (mRuns m)) - (set ns - fst ` set (mCustoms m))"
proof (induction ns arbitrary: m)
  case (Cons n ns)
  then show ?case using drop_ok [OF Cons.prems, of n] Cons.IH [of "drop_run n m"] by auto
qed simp

lemma fold_restart_ok:
  "runs_ok c m \<Longrightarrow> runs_ok c (fold (restart_run c) ns m) \<and> mCustoms (fold (restart_run c) ns m) = mCustoms m \<and>
     mRunCtx (fold (restart_run c) ns m) = mRunCtx m \<and>
     dom (map_of (mRuns (fold (restart_run c) ns m))) = dom (map_of (mRuns m)) \<union> set ns"
proof (induction ns arbitrary: m)
  case (Cons n ns)
  then show ?case using restart_ok [OF Cons.prems, of n] Cons.IH [of "restart_run c n m"] by auto
qed simp

lemma fold_start_ok:
  "runs_ok c m \<Longrightarrow> distinct ns \<Longrightarrow> set ns \<inter> dom (map_of (mRuns m)) = {} \<Longrightarrow>
     runs_ok c (fold (startOne c) ns m) \<and> mCustoms (fold (startOne c) ns m) = mCustoms m \<and>
     mRunCtx (fold (startOne c) ns m) = mRunCtx m \<and> dom (map_of (mRuns (fold (startOne c) ns m))) = dom (map_of (mRuns m)) \<union> set ns"
proof (induction ns arbitrary: m)
  case (Cons n ns)
  have "map_of (mRuns m) n = None" using Cons.prems(3) by auto
  note s = start_ok [OF Cons.prems(1) this]
  have "set ns \<inter> dom (map_of (mRuns (startOne c n m))) = {}" using s(2) Cons.prems(2,3) by auto
  then show ?case using s Cons.IH [OF s(1)] Cons.prems(2) by auto
qed simp

lemma reconcile_ok:
  assumes "runs_ok c m" "mRunCtx m = Some c"
  shows "manager_inv (reconcile m)" "mCustoms (reconcile m) = mCustoms m"
proof -
  let ?d = "fold drop_run (map fst (mRuns m)) m"
  have d: "runs_ok c ?d" "mCustoms ?d = mCustoms m" "mRunCtx ?d = Some c" "dom (map_of (mRuns ?d)) \<subseteq> fst ` set (mCustoms m)"
    using fold_drop_ok [OF assms(1), of "map fst (mRuns m)"] assms(2) by (auto simp: dom_map_of_conv_image_fst)
  have "reconcile m = fold (restart_run c) (map fst (mCustoms m)) ?d" using d by (simp add: reconcile_def)
  then show "manager_inv (reconcile m)" "mCustoms (reconcile m) = mCustoms m"
    using fold_restart_ok [OF d(1), of "map fst (mCustoms m)"] d by (auto simp: manager_inv_def)
qed

lemma fold_mput_keys: "fst ` set (fold (\<lambda>p. mput (k p) (v p)) ps m) = fst ` set m \<union> k ` set ps"
  by (induction ps arbitrary: m) (auto simp: dom_update)

lemma fold_mput_distinct: "distinct (map fst m) \<Longrightarrow> distinct (map fst (fold (\<lambda>p. mput (k p) (v p)) ps m))"
  by (induction ps arbitrary: m) (auto simp: distinct_update)

lemma fold_mput_map_of:
  "inj_on k (set ps) \<Longrightarrow> p \<in> set ps \<Longrightarrow> map_of (fold (\<lambda>p. mput (k p) (v p)) ps m) (k p) = Some (v p)"
proof (induction ps rule: rev_induct)
  case (snoc q ps)
  then show ?case by (cases "k q = k p") (auto dest: inj_onD intro: inj_on_subset)
qed simp

lemma Rebuild_Inr:
  assumes "Rebuild G s m = (Inr (), m')"
  obtains rows byID on m1 where "ListProvidersRaw G s = Inr rows" "(if pinned_ids rows = [] then Inr [] else GetPools G (pinned_ids rows) s) = Inr byID"
    "on = filter pEnabled rows" "m1 = m\<lparr>mCustoms := fold (\<lambda>p. mput (pName p) (fresh_upstream byID (mCustoms m) p)) on [],
       mIntervals := fold (\<lambda>p. mput (pName p) (refreshInterval (RefreshSec p))) on []\<rparr>"
    "m' = (if mRunCtx m \<noteq> None then reconcile m1 else m1)"
  using assms by (auto simp: Rebuild_def Let_def split: sum.splits if_splits)

lemma Rebuild_cases: "snd (Rebuild G s m) = m \<or> fst (Rebuild G s m) = Inr ()"
  by (simp add: Rebuild_def Let_def split: sum.splits)

lemma rebuild_inv:
  assumes "customs_ok m"
  shows "customs_ok (snd (Rebuild G s m))"
proof (cases "snd (Rebuild G s m) = m")
  case False
  then have r: "Rebuild G s m = (Inr (), snd (Rebuild G s m))" using Rebuild_cases by (metis prod.collapse)
  obtain on byID m1 where m1: "m1 = m\<lparr>mCustoms := fold (\<lambda>p. mput (pName p) (fresh_upstream byID (mCustoms m) p)) on [],
       mIntervals := fold (\<lambda>p. mput (pName p) (refreshInterval (RefreshSec p))) on []\<rparr>"
    "snd (Rebuild G s m) = (if mRunCtx m \<noteq> None then reconcile m1 else m1)" using Rebuild_Inr [OF r] by blast
  have d: "distinct (map fst (mCustoms m1))" unfolding m1(1) using fold_mput_distinct [of "[]"] by simp
  show ?thesis
  proof (cases "mRunCtx m")
    case None
    then show ?thesis using assms m1 d by (simp add: customs_ok_def manager_inv_def)
  next
    case (Some c)
    then have "runs_ok c m1" "mRunCtx m1 = Some c" using assms m1(1) by (simp_all add: customs_ok_def manager_inv_def runs_ok_def)
    from reconcile_ok [OF this] show ?thesis using m1(2) Some d by (simp add: customs_ok_def)
  qed
qed (use assms in simp)

lemma start_inv:
  assumes "customs_ok m" "mRunCtx m = None"
  shows "customs_ok (manager_Start m)"
proof -
  let ?m = "m\<lparr>mRunCtx := Some (mNext m), mNext := Suc (mNext m)\<rparr>"
  have e: "mLive m = []" "mRuns m = []" using assms by (auto simp: customs_ok_def manager_inv_def)
  have "runs_ok (mNext m) ?m" using e by (simp add: runs_ok_def)
  from fold_start_ok [OF this, of "map fst (mCustoms m)"] show ?thesis
    using assms e by (simp add: manager_Start_def Let_def customs_ok_def manager_inv_def)
qed

lemma stop_frame: "mCustoms (fold (\<lambda>(n, i). cancel_run i) rs m) = mCustoms m"
    "set (mLive (fold (\<lambda>(n, i). cancel_run i) rs m)) \<subseteq> set (mLive m)"
proof (induction rs arbitrary: m)
  case (Cons r rs)
  { case 1 then show ?case using Cons.IH(1) by (cases r) simp }
  { case 2 show ?case using Cons.IH(2) [of "cancel_run (snd r) m"] by (cases r) (auto simp: cancel_run_def) }
qed simp_all

lemma stop_inv:
  assumes "customs_ok m"
  shows "customs_ok (manager_Stop m)"
proof -
  let ?l = "mLive (fold (\<lambda>(n, i). cancel_run i) (mRuns m) m)"
  have "(case mRunCtx m of Some ctx \<Rightarrow> filter (\<lambda>(_, _, c). c \<noteq> ctx) ?l | None \<Rightarrow> ?l) = []"
  proof (cases "mRunCtx m")
    case None
    then show ?thesis using assms stop_frame(2) [of "mRuns m" m] by (simp add: customs_ok_def manager_inv_def)
  next
    case (Some c)
    then have "snd (snd x) = c" if "x \<in> set ?l" for x
      using that assms stop_frame(2) [of "mRuns m" m] by (auto simp: customs_ok_def manager_inv_def runs_ok_def)
    then show ?thesis using Some by (auto simp: filter_empty_conv)
  qed
  then show ?thesis using assms stop_frame(1) [of "mRuns m" m]
    by (simp add: customs_ok_def manager_inv_def manager_Stop_def Let_def)
qed

lemma warm_inv:
  assumes "customs_ok m"
  shows "customs_ok (snd (Warm fetch name m))"
proof (cases "map_of (mCustoms m) name")
  case (Some u)
  obtain r cu where l: "ListModels fetch (mUpstream u) = (r, cu)" by fastforce
  have "fst ` set (mput name v (mCustoms m)) = fst ` set (mCustoms m)" for v
    using map_of_SomeD [OF Some] by (force simp: dom_update)
  then show ?thesis using assms Some l
    by (simp add: Warm_def customs_ok_def manager_inv_def runs_ok_def distinct_update split: option.splits)
qed (use assms in \<open>simp add: Warm_def\<close>)

lemma reach_inv: "manager_reach m \<Longrightarrow> customs_ok m"
proof (induction rule: manager_reach.induct)
  case init
  then show ?case by (simp add: customs_ok_def manager_inv_def NewProviderManager_def)
qed (simp_all add: rebuild_inv start_inv stop_inv warm_inv)

text \<open>
  C9:
  In every state the manager reaches by rebuilds, warm-ups, stops, and starts while stopped: when it
  is stopped no refresher runs; when it runs there is exactly one refresher per custom provider, of
  the current run context, and the stored cancel function of the provider is the one of its refresher.
\<close>

theorem refreshers_match_providers:
  assumes "manager_reach m"
  shows "(mRunCtx m = None \<longrightarrow> mLive m = []) \<and>
    (\<forall>c. mRunCtx m = Some c \<longrightarrow> distinct (live_names m) \<and> set (live_names m) = fst ` set (mCustoms m) \<and>
      (\<forall>(i, n, c') \<in> set (mLive m). c' = c \<and> map_of (mRuns m) n = Some i))"
proof -
  have inv: "manager_inv m" using reach_inv [OF assms] by (simp add: customs_ok_def)
  have "distinct (live_names m) \<and> set (live_names m) = fst ` set (mCustoms m) \<and>
      (\<forall>(i, n, c') \<in> set (mLive m). c' = c \<and> map_of (mRuns m) n = Some i)" if "mRunCtx m = Some c" for c
  proof -
    have r: "runs_ok c m" "dom (map_of (mRuns m)) = fst ` set (mCustoms m)" using inv that by (simp_all add: manager_inv_def)
    have e: "c' = c \<and> map_of (mRuns m) n = Some i" if "(i, n, c') \<in> set (mLive m)" for i n c' using r(1) that by (auto simp: runs_ok_def)
    have "inj_on (\<lambda>(i, n, c). n) (set (mLive m))"
    proof (rule inj_onI)
      fix x y assume "x \<in> set (mLive m)" "y \<in> set (mLive m)" "(\<lambda>(i, n, c). n) x = (\<lambda>(i, n, c). n) y"
      moreover obtain i n a j k b where "x = (i, n, a)" "y = (j, k, b)" by (metis prod_cases3)
      ultimately show "x = y" using e [of i n a] e [of j k b] by simp
    qed
    moreover have "distinct (mLive m)" using r(1) by (simp add: runs_ok_def distinct_map)
    moreover have "set (live_names m) = dom (map_of (mRuns m))"
    proof
      show "set (live_names m) \<subseteq> dom (map_of (mRuns m))" using e by (auto simp: live_names_def)
      show "dom (map_of (mRuns m)) \<subseteq> set (live_names m)"
      proof
        fix n assume "n \<in> dom (map_of (mRuns m))"
        then obtain i where "(i, n, c) \<in> set (mLive m)" using r(1) by (auto simp: runs_ok_def)
        then show "n \<in> set (live_names m)" by (force simp: live_names_def)
      qed
    qed
    ultimately show ?thesis using e r(2) by (auto simp: live_names_def distinct_map)
  qed
  then show ?thesis using inv by (auto simp: manager_inv_def)
qed

section \<open>Relays of the rebuilt upstreams\<close>

lemma reconcile_customs: "mCustoms (reconcile m) = mCustoms m"
proof -
  have "mCustoms (fold drop_run ns m) = mCustoms m" for ns m by (induction ns arbitrary: m) simp_all
  moreover have "mCustoms (fold (restart_run c) ns m) = mCustoms m" for c ns m by (induction ns arbitrary: m) simp_all
  ultimately show ?thesis by (simp add: reconcile_def Let_def split: option.split)
qed

lemma wrap_Inr [simp]: "wrapStoreError r = Inr x \<longleftrightarrow> r = Inr x"
  by (cases r) (simp_all add: wrapStoreError_def)

lemma dedup_nats: "set (dedup_by id [] xs) = set xs" for xs :: "nat list"
  using dedup_by_keys [of id "[]" xs] by simp

context registry_db
begin

lemma listed_rows: "ListProvidersRaw G s = Inr rows \<Longrightarrow> set rows = set (providers s)"
  using P.ordered by (auto simp: ListProvidersRaw_def)

lemma fetched_pool:
  assumes "tables_ok s" "GetPools G ids s = Inr byID" "i \<in> set ids" "q \<in> set (pools s)" "lID q = i"
  shows "map_of byID i = Some q"
proof -
  obtain rows where r: "gFind (tPool G) (\<lambda>q. lID q \<in> set ids) (pools s) = Inr rows" "byID = fold (\<lambda>q. mput (lID q) q) rows []"
    using assms(2,3) by (auto simp: GetPools_def bind_res_def split: sum.splits if_splits)
  have f: "set rows = {q \<in> set (pools s). lID q \<in> set ids}" using L.find [OF r(1)] .
  have "inj_on lID (set rows)" unfolding f using assms(1) by (auto simp: tables_ok_def table_ok_def distinct_map intro: inj_on_subset)
  moreover have "q \<in> set rows" using f assms(3-5) by simp
  ultimately show ?thesis using fold_mput_map_of [of lID rows q "\<lambda>q. q" "[]"] r(2) assms(5) by simp
qed

lemma rebuild_customs:
  assumes "tables_ok s" "Rebuild G s m = (Inr (), m')"
  obtains byID where "fst ` set (mCustoms m') = pName ` {p \<in> set (providers s). pEnabled p}"
    "\<And>p. p \<in> set (providers s) \<Longrightarrow> pEnabled p \<Longrightarrow> map_of (mCustoms m') (pName p) = Some (fresh_upstream byID (mCustoms m) p)"
    "\<And>p i q. p \<in> set (providers s) \<Longrightarrow> pEnabled p \<Longrightarrow> NormalizeProxyMode (ProxyMode p) = ProxyModePool \<Longrightarrow>
       ProxyPoolID p = Some i \<Longrightarrow> q \<in> set (pools s) \<Longrightarrow> lID q = i \<Longrightarrow> map_of byID i = Some q"
proof -
  obtain rows byID on m1 where r: "ListProvidersRaw G s = Inr rows"
    "(if pinned_ids rows = [] then Inr [] else GetPools G (pinned_ids rows) s) = Inr byID" "on = filter pEnabled rows"
    "m1 = m\<lparr>mCustoms := fold (\<lambda>p. mput (pName p) (fresh_upstream byID (mCustoms m) p)) on [],
       mIntervals := fold (\<lambda>p. mput (pName p) (refreshInterval (RefreshSec p))) on []\<rparr>"
    "m' = (if mRunCtx m \<noteq> None then reconcile m1 else m1)" using Rebuild_Inr [OF assms(2)] .
  have on: "set on = {p \<in> set (providers s). pEnabled p}" using r(3) listed_rows [OF r(1)] by auto
  have c: "mCustoms m' = fold (\<lambda>p. mput (pName p) (fresh_upstream byID (mCustoms m) p)) on []"
    using r(4,5) by (simp add: reconcile_customs)
  have "inj_on pName (set on)" unfolding on using assms(1) by (auto simp: tables_ok_def table_ok_def distinct_map intro: inj_on_subset)
  then have "map_of (mCustoms m') (pName p) = Some (fresh_upstream byID (mCustoms m) p)" if "p \<in> set on" for p
    unfolding c using that by (rule fold_mput_map_of)
  moreover have "fst ` set (mCustoms m') = pName ` set on" unfolding c by (simp add: fold_mput_keys)
  moreover have "map_of byID i = Some q" if "p \<in> set on" "NormalizeProxyMode (ProxyMode p) = ProxyModePool"
      "ProxyPoolID p = Some i" "q \<in> set (pools s)" "lID q = i" for p i q
  proof -
    have "i \<in> set (concat (map (\<lambda>r. if \<not> pEnabled r \<or> NormalizeProxyMode (ProxyMode r) \<noteq> ProxyModePool then []
        else case ProxyPoolID r of Some i \<Rightarrow> [i] | None \<Rightarrow> []) rows))"
      using that(1-3) r(3) by force
    then have "i \<in> set (pinned_ids rows)"
      using dedup_nats unfolding pinned_ids_def by blast
    then show ?thesis using r(2) fetched_pool [OF assms(1) _ _ that(4,5)] by (auto split: if_splits)
  qed
  ultimately show ?thesis using that on by simp
qed

end

lemma normal_pool: "NormalizeProxyMode ProxyModePool = ProxyModePool"
  by code_simp

text \<open>
  From a store reached by the registry's operations, a successful Rebuild has exactly the enabled
  providers, and a provider pinned to a pool uses exactly that pool, or a direct connection when the
  pool is disabled; it never falls back to the global rotation.
\<close>

theorem rebuild_pins_relays:
  assumes "registry_db G V" "store_reach G V s" "Rebuild G s m = (Inr (), m')"
  shows "fst ` set (mCustoms m') = pName ` {p \<in> set (providers s). pEnabled p} \<and>
    (\<forall>p \<in> set (providers s). \<forall>i. pEnabled p \<and> ProxyPoolID p = Some i \<longrightarrow>
       (\<exists>q \<in> set (pools s). lID q = i \<and> map_option mRelay (map_of (mCustoms m') (pName p)) = Some (Some (pinned_relay q))))"
proof -
  have inv: "store_inv s" using registry_db.inv_reach [OF assms(1,2)] .
  then have "tables_ok s" by (simp add: store_inv_def)
  from registry_db.rebuild_customs [OF assms(1) this assms(3)] obtain byID where
    c: "fst ` set (mCustoms m') = pName ` {p \<in> set (providers s). pEnabled p}"
    "\<And>p. p \<in> set (providers s) \<Longrightarrow> pEnabled p \<Longrightarrow> map_of (mCustoms m') (pName p) = Some (fresh_upstream byID (mCustoms m) p)"
    "\<And>p i q. p \<in> set (providers s) \<Longrightarrow> pEnabled p \<Longrightarrow> NormalizeProxyMode (ProxyMode p) = ProxyModePool \<Longrightarrow>
       ProxyPoolID p = Some i \<Longrightarrow> q \<in> set (pools s) \<Longrightarrow> lID q = i \<Longrightarrow> map_of byID i = Some q" by blast
  have "\<exists>q \<in> set (pools s). lID q = i \<and> map_option mRelay (map_of (mCustoms m') (pName p)) = Some (Some (pinned_relay q))"
    if p: "p \<in> set (providers s)" "pEnabled p" "ProxyPoolID p = Some i" for p i
  proof -
    have "pin_ok (ProxyMode p) (Some i) (pools s)" using inv p by (auto simp: store_inv_def)
    then obtain q where q: "ProxyMode p = ProxyModePool" "q \<in> set (pools s)" "lID q = i" by (auto simp: pin_ok_def)
    have "map_of byID i = Some q" using c(3) [OF p(1,2) _ p(3) q(2,3)] q(1) normal_pool by simp
    then have "mRelay (fresh_upstream byID (mCustoms m) p) = Some (pinned_relay q)"
      using p(3) q(1) normal_pool
      by (simp add: fresh_upstream_def relayPoolsCached_def ResolveRelayPools_def SetRelayPools_def pinned_relay_def Let_def
          ProxyModePool_def ProxyModeDirect_def)
    then show ?thesis using c(2) [OF p(1,2)] q by auto
  qed
  then show ?thesis using c(1) by blast
qed

lemma demo_store_reach: "store_reach demo_gorm any_value (snd (CreateProvider demo_gorm any_value demo_provider
    (snd (CreatePool demo_gorm any_value demo_pool empty_store))))"
  using store_reach.step [OF store_reach.step [OF store_reach.init store_step.create_pool [OF surjective_pairing]]
      store_step.create_provider [OF surjective_pairing]] .

theorem rebuild_pins_relays_witness:
  "\<exists>m' q. Rebuild demo_gorm (snd (CreateProvider demo_gorm any_value demo_provider
      (snd (CreatePool demo_gorm any_value demo_pool empty_store)))) NewProviderManager = (Inr (), m') \<and>
    fst ` set (mCustoms m') = {''acme''} \<and> map_option mRelay (map_of (mCustoms m') ''acme'') = Some (Some (pinned_relay q))"
proof -
  let ?s = "snd (CreateProvider demo_gorm any_value demo_provider (snd (CreatePool demo_gorm any_value demo_pool empty_store)))"
  have "fst (Rebuild demo_gorm ?s NewProviderManager) = Inr ()" by code_simp
  then obtain m' where x: "Rebuild demo_gorm ?s NewProviderManager = (Inr (), m')" by (metis prod.collapse)
  let ?p = "demo_provider\<lparr>pID := 1\<rparr>"
  have p: "providers ?s = [?p]" by code_simp
  have d: "pEnabled ?p" "ProxyPoolID ?p = Some 1" "pName ?p = ''acme''" by (simp_all add: demo_provider_def)
  note r = rebuild_pins_relays [OF demo.registry_db_axioms demo_store_reach x, unfolded p]
  have "{p \<in> set [?p]. pEnabled p} = {?p}" using d(1) by auto
  then have "fst ` set (mCustoms m') = {''acme''}" using r d(3) by simp
  moreover have "\<exists>q. map_option mRelay (map_of (mCustoms m') ''acme'') = Some (Some (pinned_relay q))"
    using r d by (metis list.set_intros(1))
  ultimately show ?thesis using x by blast
qed

theorem refreshers_match_providers_witness:
  "distinct (live_names (manager_Start (snd (Rebuild demo_gorm demo_store NewProviderManager)))) \<and>
   set (live_names (manager_Start (snd (Rebuild demo_gorm demo_store NewProviderManager)))) = {''acme''}"
proof -
  let ?m = "manager_Start (snd (Rebuild demo_gorm demo_store NewProviderManager))"
  have "mRunCtx (snd (Rebuild demo_gorm demo_store NewProviderManager)) = None" "mRunCtx ?m = Some 0" "map fst (mCustoms ?m) = [''acme'']"
    by code_simp+
  moreover from this(1) have "manager_reach ?m" by (intro manager_reach.intros)
  ultimately show ?thesis using refreshers_match_providers [of ?m] by (metis list.set(1) list.simps(15) set_map)
qed

end
