(* ===== verification/Tool_Args.thy ===== *)
theory Tool_Args
  imports GoJson
begin

text \<open>
  Repair of tool-call arguments (internal/translate/claude/stream.go, from splitToolArgs on): models emit
  argument texts that are concatenated, badly quoted, truncated or doubly encoded. Decoding with UseNumber
  keeps a number by its value.
\<close>

section \<open>Repairs of the text\<close>

text \<open>A quote inside a string closes it when the text ends or a structural character follows.\<close>

definition closes_string :: "string \<Rightarrow> bool" where
  "closes_string rest =
     (case dropWhile (\<lambda>c. c \<in> {CHR '' '', CHR 0x09, CHR 0x0D, CHR 0x0A}) rest of
        [] \<Rightarrow> True
      | c # _ \<Rightarrow> c \<in> {CHR '':'', CHR '','', CHR ''}'', CHR '']''})"

definition escape_control :: "char \<Rightarrow> string" where
  "escape_control c =
     (if c = CHR 0x0A then [bs, CHR ''n'']
      else if c = CHR 0x0D then [bs, CHR ''r'']
      else if c = CHR 0x09 then [bs, CHR ''t'']
      else if of_char c < (0x20 :: nat) then u_escape (of_char c)
      else [c])"

fun repair_quotes :: "bool \<Rightarrow> bool \<Rightarrow> string \<Rightarrow> string" where
  "repair_quotes inStr escaped [] = []"
| "repair_quotes inStr escaped (c # cs) =
     (if escaped then c # repair_quotes inStr False cs
      else if c = bs then c # repair_quotes inStr True cs
      else if c = dq then
        (if \<not> inStr then c # repair_quotes True False cs
         else if closes_string cs then c # repair_quotes False False cs
         else [bs, dq] @ repair_quotes True False cs)
      else (if inStr then escape_control c else [c]) @ repair_quotes inStr False cs)"

definition repairUnescapedQuotes :: "string \<Rightarrow> string" where
  "repairUnescapedQuotes s = repair_quotes False False s"

fun repairTrailingCommas :: "string \<Rightarrow> string" where
  "repairTrailingCommas [] = []"
| "repairTrailingCommas (c # cs) =
     (if c = CHR '','' \<and>
         (case dropWhile (\<lambda>c. c \<in> {CHR '' '', CHR 0x09, CHR 0x0D, CHR 0x0A}) cs of
            d # _ \<Rightarrow> d = CHR ''}'' \<or> d = CHR '']''
          | [] \<Rightarrow> False)
      then repairTrailingCommas cs
      else c # repairTrailingCommas cs)"

text \<open>The open containers, innermost first, and whether a string is open, at the end of a text.\<close>

fun open_at_end :: "string \<Rightarrow> bool \<Rightarrow> bool \<Rightarrow> string \<Rightarrow> string \<times> bool" where
  "open_at_end stack inStr escaped [] = (stack, inStr)"
| "open_at_end stack inStr escaped (c # cs) =
     (if escaped then open_at_end stack inStr False cs
      else if c = bs then open_at_end stack inStr True cs
      else if c = dq then open_at_end stack (\<not> inStr) False cs
      else if inStr then open_at_end stack inStr False cs
      else if c = CHR ''{'' \<or> c = CHR ''['' then open_at_end (c # stack) inStr False cs
      else if c = CHR ''}'' \<or> c = CHR '']'' then open_at_end (drop 1 stack) inStr False cs
      else open_at_end stack inStr False cs)"

definition repairUnterminated :: "string \<Rightarrow> string" where
  "repairUnterminated s =
     (case open_at_end [] False False s of
        (stack, inStr) \<Rightarrow>
          if stack = [] \<and> \<not> inStr then []
          else s @ (if inStr \<and> \<not> (s \<noteq> [] \<and> last s = bs) then [dq] else []) @
               map (\<lambda>c. if c = CHR ''{'' then CHR ''}'' else CHR '']'') stack)"

section \<open>Repair\<close>

definition ensureObjectJSON :: "json \<Rightarrow> string" where
  "ensureObjectJSON v =
     (case v of
        JObj m \<Rightarrow> json_print (JObj m)
      | JStr t \<Rightarrow> (case json_parse t of Some inner \<Rightarrow> json_print inner | None \<Rightarrow> ''{}'')
      | _ \<Rightarrow> ''{}'')"

definition repair_text :: "string \<Rightarrow> string" where
  "repair_text s =
     (let fixed = repairUnescapedQuotes s; closed = repairUnterminated fixed
      in repairTrailingCommas (if closed \<noteq> [] then closed else fixed))"

definition repairToolArgs :: "string \<Rightarrow> string" where
  "repairToolArgs s =
     (if s = [] then ''{}''
      else case json_parse s of
             Some v \<Rightarrow> ensureObjectJSON v
           | None \<Rightarrow>
               (case parse_value (Suc (length (repair_text s))) (repair_text s) of
                  Some (v, _) \<Rightarrow> ensureObjectJSON v
                | None \<Rightarrow> ''{}''))"

section \<open>Concatenated objects\<close>

text \<open>
  The scan of splitToolArgs: \<open>seg\<close> is the text from the start of the current segment to the position of
  the scan. At a boundary the opening brace of the next object is skipped.
\<close>

fun split_scan :: "int \<Rightarrow> bool \<Rightarrow> bool \<Rightarrow> string \<Rightarrow> string \<Rightarrow> string list" where
  "split_scan depth inStr escaped seg [] = (if seg = [] then [] else [repairToolArgs seg])"
| "split_scan depth inStr escaped seg (c # cs) =
     (if escaped then split_scan depth inStr False (seg @ [c]) cs
      else if c = bs then split_scan depth inStr True (seg @ [c]) cs
      else if c = dq then split_scan depth (\<not> inStr) False (seg @ [c]) cs
      else if inStr then split_scan depth inStr False (seg @ [c]) cs
      else if c = CHR ''{'' then split_scan (depth + 1) inStr False (if depth = 0 then [c] else seg @ [c]) cs
      else if c = CHR ''}'' then
        (case cs of
           d # ds \<Rightarrow>
             if depth - 1 = 0 \<and> d = CHR ''{''
             then repairToolArgs (seg @ [c]) # split_scan 0 inStr False [d] ds
             else split_scan (depth - 1) inStr False (seg @ [c]) cs
         | [] \<Rightarrow> split_scan (depth - 1) inStr False (seg @ [c]) cs)
      else split_scan depth inStr False (seg @ [c]) cs)"

definition splitToolArgs :: "string \<Rightarrow> string list" where
  "splitToolArgs s =
     (if s = [] then [''{}'']
      else let parts = split_scan 0 False False [] s
           in remdups_adj (if parts = [] then [repairToolArgs s] else parts))"

section \<open>Specifications\<close>

text \<open>The value that the repair decodes, if any.\<close>

definition decoded :: "string \<Rightarrow> json option" where
  "decoded s =
     (if s = [] then None
      else case json_parse s of
             Some v \<Rightarrow> Some v
           | None \<Rightarrow> map_option fst (parse_value (Suc (length (repair_text s))) (repair_text s)))"

definition encoded_array :: string where
  "encoded_array = print_str ''[1]''"

definition two_calls :: string where
  "two_calls = json_print (JObj [(''a'', JNum 1)]) @ json_print (JObj [(''b'', JObj [(''x'', JNum 2)])])"

section \<open>The result is JSON\<close>

lemma ensure_object_parses:
  assumes "wf_json v"
  shows "\<exists>w. json_parse (ensureObjectJSON v) = Some w \<and>
    (is_obj w \<or> (\<exists>t u. v = JStr t \<and> json_parse t = Some u \<and> \<not> is_obj u \<and> w = canon u))"
proof -
  have e: "json_parse ''{}'' = Some (JObj [])" by code_simp
  show ?thesis
  proof (cases v)
    case (JStr t)
    then show ?thesis
      using e json_parse_print [OF json_parse_wf, of t] by (cases "json_parse t") (auto simp: ensureObjectJSON_def)
  next
    case (JObj m)
    then show ?thesis using assms json_parse_print [of v] by (auto simp: ensureObjectJSON_def)
  qed (use e in \<open>auto simp: ensureObjectJSON_def\<close>)
qed

lemma repair_decoded: "repairToolArgs s = (case decoded s of Some v \<Rightarrow> ensureObjectJSON v | None \<Rightarrow> ''{}'')"
  by (auto simp: repairToolArgs_def decoded_def simp del: parse_value.simps split: option.splits)

lemma decoded_wf: "decoded s = Some v \<Longrightarrow> wf_json v"
  using parse_wf [THEN conjunct1, rule_format] json_parse_wf
  by (auto simp: decoded_def simp del: parse_value.simps split: option.splits if_splits)

text \<open>
  Whatever text a model emits as arguments, repairToolArgs returns valid JSON; it is an object unless
  the text decodes to a string that itself encodes something other than an object.
\<close>

theorem repair_gives_json:
  "\<exists>v. json_parse (repairToolArgs s) = Some v \<and>
     (is_obj v \<or> (\<exists>t u. decoded s = Some (JStr t) \<and> json_parse t = Some u \<and> \<not> is_obj u))"
proof (cases "decoded s")
  case None
  have "json_parse ''{}'' = Some (JObj [])" by code_simp
  then show ?thesis using None by (simp add: repair_decoded)
next
  case (Some v)
  then show ?thesis using ensure_object_parses [OF decoded_wf [OF Some]] by (auto simp: repair_decoded)
qed

lemma repair_object:
  assumes "wf_json v" "is_obj v"
  shows "repairToolArgs (json_print v) = json_print v"
proof -
  have "json_parse (json_print v) = Some (canon v)" "json_print v \<noteq> []"
    using assms(1) by (simp_all add: json_parse_print json_print_not_Nil)
  moreover obtain m where "canon v = JObj m" using assms(2) by (cases v) auto
  ultimately show ?thesis using json_print_canon [OF assms(1)] by (simp add: repairToolArgs_def ensureObjectJSON_def)
qed

text \<open>
  A doubly encoded array is handed on as an array, although the result is documented to be an object.
\<close>

theorem repair_returns_array: "repairToolArgs encoded_array = ''[1]''"
  by code_simp

text \<open>
  Of two concatenated calls whose second has a nested object, splitToolArgs returns the nested object
  as the arguments of the second call.
\<close>

theorem split_loses_nested_arguments:
  "splitToolArgs two_calls = [json_print (JObj [(''a'', JNum 1)]), json_print (JObj [(''x'', JNum 2)])]"
  by code_simp

section \<open>One object is one segment\<close>

lemma scan_plain:
  "\<forall>c \<in> set w. c \<notin> {bs, dq, CHR ''{'', CHR ''}''} \<Longrightarrow>
     split_scan d False False seg (w @ rest) = split_scan d False False (seg @ w) rest"
  by (induction w arbitrary: seg) simp_all

lemma scan_in_string:
  "\<forall>c \<in> set w. c \<notin> {bs, dq} \<Longrightarrow> split_scan d True False seg (w @ rest) = split_scan d True False (seg @ w) rest"
  by (induction w arbitrary: seg) simp_all

lemma scan_escape:
  "\<forall>c \<in> set w. c \<notin> {bs, dq} \<Longrightarrow>
     split_scan d True False seg ((bs # x # w) @ rest) = split_scan d True False (seg @ bs # x # w) rest"
  using scan_in_string [of w d "seg @ [bs, x]" rest] by simp

lemma hex_char_plain: "n < 16 \<Longrightarrow> hex_char n \<notin> {bs, dq}"
proof -
  assume "n < 16"
  then have "n \<in> set [0..<16]" by simp
  moreover have "list_all (\<lambda>n. hex_char n \<notin> {bs, dq}) [0..<16]" by code_simp
  ultimately show ?thesis by (metis list_all_iff)
qed

lemma scan_u_escape: "split_scan d True False seg (u_escape n @ rest) = split_scan d True False (seg @ u_escape n) rest"
  unfolding u_escape_def by (rule scan_escape) (use hex_char_plain in auto)

lemma scan_esc_char: "split_scan d True False seg (esc_char c @ rest) = split_scan d True False (seg @ esc_char c) rest"
  using scan_escape [of "[]" d seg _ rest] by (simp add: esc_char_def scan_u_escape)

lemma scan_esc_str: "split_scan d True False seg (esc_str s @ rest) = split_scan d True False (seg @ esc_str s) rest"
proof (induction s arbitrary: seg rule: esc_str.induct)
  case (2 c cs)
  then show ?case
    by (simp only: esc_str.simps append_assoc scan_u_escape scan_esc_char split: if_split) (metis append_assoc)
qed simp

lemma scan_print_str:
  "split_scan d False False seg (print_str s @ rest) = split_scan d False False (seg @ print_str s) rest"
  using scan_esc_str [of d "seg @ [dq]" s "dq # rest"] by (simp add: print_str_def)

lemma digit_plain: "is_digit c \<Longrightarrow> c \<notin> {bs, dq, CHR ''{'', CHR ''}''}"
  by (auto simp: is_digit_def less_eq_char_def)

lemma scan_print_num: "split_scan d False False seg (print_num r @ rest) = split_scan d False False (seg @ print_num r) rest"
proof (rule scan_plain)
  have "set (print_num r) \<subseteq> {CHR ''-'', CHR ''.'', CHR ''0''} \<union> {c. is_digit c}"
    by (auto simp: print_num_def Let_def case_prod_unfold dest!: in_set_takeD in_set_dropD show_nat_digits split: if_splits)
  then show "\<forall>c\<in>set (print_num r). c \<notin> {bs, dq, CHR ''{'', CHR ''}''}" using digit_plain by fastforce
qed

text \<open>A value inside an object is scanned without a boundary.\<close>

lemma scan_join:
  assumes "\<And>x seg rest. x \<in> set ws \<Longrightarrow> split_scan d False False seg (x @ rest) = split_scan d False False (seg @ x) rest"
  shows "split_scan d False False seg (join '','' ws @ rest) = split_scan d False False (seg @ join '','' ws) rest"
  using assms
proof (induction ws arbitrary: seg)
  case (Cons w ws)
  show ?case
  proof (cases ws)
    case vs: (Cons v vs)
    have "split_scan d False False seg (join '','' (w # ws) @ rest) = split_scan d False False (seg @ w @ '','') (join '','' ws @ rest)"
      using Cons.prems vs by (simp add: join_Cons)
    then show ?thesis using Cons.IH Cons.prems vs by (simp add: join_Cons)
  qed (use Cons.prems in simp)
qed simp

lemma scan_member:
  assumes "\<And>seg rest. split_scan d False False seg (print_raw x @ rest) = split_scan d False False (seg @ print_raw x) rest"
  shows "split_scan d False False seg ((print_str k @ CHR '':'' # print_raw x) @ rest) =
    split_scan d False False (seg @ print_str k @ CHR '':'' # print_raw x) rest"
  using scan_print_str [of d seg k "CHR '':'' # print_raw x @ rest"] assms [of "seg @ print_str k @ '':''" rest] by simp

lemma scan_members:
  assumes "\<And>k x seg rest. (k, x) \<in> set m \<Longrightarrow> split_scan d False False seg (print_raw x @ rest) = split_scan d False False (seg @ print_raw x) rest"
  shows "split_scan d False False seg (join '','' (map (\<lambda>(k, v). print_str k @ CHR '':'' # print_raw v) m) @ rest) =
    split_scan d False False (seg @ join '','' (map (\<lambda>(k, v). print_str k @ CHR '':'' # print_raw v) m)) rest"
proof (rule scan_join)
  fix w seg rest assume "w \<in> set (map (\<lambda>(k, v). print_str k @ CHR '':'' # print_raw v) m)"
  then obtain k x where kx: "(k, x) \<in> set m" "w = print_str k @ CHR '':'' # print_raw x" by auto
  show "split_scan d False False seg (w @ rest) = split_scan d False False (seg @ w) rest"
    unfolding kx(2) by (rule scan_member [OF assms [OF kx(1)]])
qed

lemma scan_value:
  "1 \<le> d \<Longrightarrow> split_scan d False False seg (print_raw v @ rest) = split_scan d False False (seg @ print_raw v) rest"
proof (induction v arbitrary: d seg rest)
  case (JNum r)
  then show ?case by (simp add: scan_print_num)
next
  case (JStr s)
  then show ?case by (simp add: scan_print_str)
next
  case (JArr xs)
  have "split_scan d False False (seg @ ''['') (join '','' (map print_raw xs) @ CHR '']'' # rest) =
      split_scan d False False ((seg @ ''['') @ join '','' (map print_raw xs)) (CHR '']'' # rest)"
    by (rule scan_join) (use JArr in auto)
  then show ?case by simp
next
  case (JObj m)
  let ?ms = "join '','' (map (\<lambda>(k, v). print_str k @ CHR '':'' # print_raw v) m)"
  have "split_scan (d + 1) False False (seg @ ''{'') (?ms @ CHR ''}'' # rest) =
      split_scan (d + 1) False False ((seg @ ''{'') @ ?ms) (CHR ''}'' # rest)"
    by (rule scan_members) (use JObj in auto)
  then show ?case using JObj.prems by (cases rest) simp_all
qed (use scan_plain [of _ d] in auto)

lemma split_one_object:
  assumes "wf_json v" "is_obj v"
  shows "splitToolArgs (json_print v) = [json_print v]"
proof -
  obtain m where m: "canon v = JObj m" using assms(2) by (cases v) auto
  let ?ms = "join '','' (map (\<lambda>(k, v). print_str k @ CHR '':'' # print_raw v) m)"
  have p: "json_print v = CHR ''{'' # ?ms @ ''}''" using m by (simp add: json_print_def)
  have "split_scan 1 False False ''{'' (?ms @ ''}'') = split_scan 1 False False (''{'' @ ?ms) ''}''"
    by (rule scan_members) (simp add: scan_value)
  then have "split_scan 0 False False [] (json_print v) = [repairToolArgs (json_print v)]" by (simp add: p)
  then show ?thesis using repair_object assms by (simp add: splitToolArgs_def json_print_not_Nil)
qed

text \<open>
  The encoding of one object, whatever its strings and nested objects contain, is one segment and
  comes back unchanged.
\<close>

theorem split_keeps_one_object:
  assumes "wf_json v" "is_obj v"
  shows "splitToolArgs (json_print v) = [json_print v]"
  by (rule split_one_object [OF assms])

theorem split_keeps_one_object_witness:
  "splitToolArgs (json_print (JObj [(''cmd'', JStr ''a}{b''), (''opt'', JObj [])])) = [json_print (JObj [(''cmd'', JStr ''a}{b''), (''opt'', JObj [])])]"
  by (rule split_keeps_one_object) (simp_all add: wf_map_def)

end
