(* ===== verification/Claude_Request.thy ===== *)
theory Claude_Request
  imports Tool_Args Translate
begin

text \<open>
  The translation of a Claude request to OpenAI (internal/translate/claude/request.go): system prompt,
  messages with tool calls and tool results, images, tools, tool choice and the thinking settings. Decoded
  strings are valid UTF-8.
\<close>

section \<open>Helpers\<close>

text \<open>\<^verbatim>\<open>m[k]\<close> as a value: nil when the key is absent, which the encoder writes as null.\<close>

definition nil_at :: "json \<Rightarrow> string \<Rightarrow> json" where
  "nil_at v k = (case jget v k of Some x \<Rightarrow> x | None \<Rightarrow> JNull)"

definition copyField :: "json \<Rightarrow> string \<Rightarrow> string \<Rightarrow> json \<Rightarrow> json" where
  "copyField src srcKey dstKey dst = (case jget src srcKey of Some v \<Rightarrow> jset dstKey v dst | None \<Rightarrow> dst)"

text \<open>One underscore per character outside the set; a continuation byte belongs to the character before it.\<close>

definition scrub_char :: "char \<Rightarrow> string" where
  "scrub_char c =
     (if is_id_char c then [c] else if 0x80 \<le> (of_char c :: nat) \<and> (of_char c :: nat) < 0xC0 then [] else ''_'')"

definition scrubToolID :: "string \<Rightarrow> string" where
  "scrubToolID s = concat (map scrub_char s)"

definition idString :: "json \<Rightarrow> string" where
  "idString v = (case v of JStr s \<Rightarrow> s | _ \<Rightarrow> [])"

definition mustJSON :: "json \<Rightarrow> string" where
  "mustJSON v =
     (case v of
        JObj m \<Rightarrow>
          (case map_of m ''__unparsedToolInput'' of
             Some u \<Rightarrow> (case jget u ''raw'' of Some (JStr raw) \<Rightarrow> repairToolArgs raw | _ \<Rightarrow> ''{}'')
           | None \<Rightarrow> repairToolArgs (json_print (JObj m)))
      | JStr s \<Rightarrow>
          (let t = trim_space s
           in if json_parse t \<noteq> None \<and> t \<noteq> [] \<and> hd t = CHR ''{'' then t else ''{}'')
      | _ \<Rightarrow> ''{}'')"

text \<open>The verb %v of a float64: the shortest digits, with an exponent below -4 or from 6 on.\<close>

definition fmt_v :: "rat \<Rightarrow> string" where
  "fmt_v r =
     (let (p, q) = quotient_of r; k = places 1100 0 q;
          ds = show_nat (nat (\<bar>p\<bar> * 10 ^ k div q));
          e = int (length ds) - 1 - int k;
          sig = rev (dropWhile (\<lambda>c. c = CHR ''0'') (rev ds));
          ex = show_nat (nat \<bar>e\<bar>)
      in if r = 0 then ''0''
         else if e < - 4 \<or> 6 \<le> e
         then (if p < 0 then ''-'' else []) @ take 1 sig @ (if length sig = 1 then [] else CHR ''.'' # drop 1 sig) @ ''e'' @
              (if e < 0 then ''-'' else ''+'') @ (if length ex = 1 then ''0'' @ ex else ex)
         else print_num r)"

definition item_text :: "json \<Rightarrow> string list" where
  "item_text item =
     (case item of
        JObj m \<Rightarrow> (case map_of m ''text'' of Some (JStr t) \<Rightarrow> [t] | _ \<Rightarrow> [])
      | JStr s \<Rightarrow> [s]
      | _ \<Rightarrow> [])"

definition contentToString :: "json \<Rightarrow> string" where
  "contentToString raw =
     (case raw of
        JStr s \<Rightarrow> s
      | JArr items \<Rightarrow> join [CHR 0x0A] (concat (map item_text items))
      | JObj m \<Rightarrow> (case map_of m ''text'' of Some (JStr t) \<Rightarrow> t | _ \<Rightarrow> mustJSON (JObj m))
      | JNull \<Rightarrow> ''<nil>''
      | JBool b \<Rightarrow> if b then ''true'' else ''false''
      | JNum r \<Rightarrow> fmt_v r)"

section \<open>Messages\<close>

definition imageBlockToURL :: "json \<Rightarrow> string" where
  "imageBlockToURL block =
     (case obj_at block ''source'' of
        None \<Rightarrow> []
      | Some src \<Rightarrow>
          if str_at src ''type'' = ''url'' then str_at src ''url''
          else if str_at src ''data'' = [] then []
          else ''data:'' @ (if str_at src ''media_type'' = [] then ''image/png'' else str_at src ''media_type'') @
               '';base64,'' @ str_at src ''data'')"

definition convert_block :: "json \<Rightarrow> json list" where
  "convert_block b =
     (if \<not> is_obj b then [b]
      else if str_at b ''type'' = ''text'' then [JObj [(''type'', JStr ''text''), (''text'', nil_at b ''text'')]]
      else if str_at b ''type'' = ''image'' \<and> imageBlockToURL b \<noteq> []
      then [JObj [(''type'', JStr ''image_url''), (''image_url'', JObj [(''url'', JStr (imageBlockToURL b))])]]
      else [])"

definition convertClaudeContentBlocks :: "json list \<Rightarrow> json" where
  "convertClaudeContentBlocks blocks =
     (case concat (map convert_block blocks) of
        [] \<Rightarrow> JStr []
      | [r] \<Rightarrow> (if str_at r ''type'' = ''text'' then (case jget r ''text'' of Some (JStr t) \<Rightarrow> JStr t | _ \<Rightarrow> JArr [r]) else JArr [r])
      | rs \<Rightarrow> JArr rs)"

definition text_parts :: "string \<Rightarrow> json list \<Rightarrow> string list" where
  "text_parts typ blocks =
     filter (\<lambda>t. t \<noteq> []) (map (\<lambda>b. str_at b typ) (filter (\<lambda>b. is_obj b \<and> str_at b ''type'' = typ) blocks))"

definition tool_message :: "json \<Rightarrow> json" where
  "tool_message block =
     JObj [(''role'', JStr ''tool''), (''tool_call_id'', JStr (scrubToolID (str_at block ''tool_use_id''))),
       (''content'', JStr (contentToString (nil_at block ''content'')))]"

definition convertClaudeUserMessage :: "json \<Rightarrow> json list" where
  "convertClaudeUserMessage msg =
     (case arr_at msg ''content'' of
        None \<Rightarrow> [msg]
      | Some blocks \<Rightarrow>
          (let results = filter (\<lambda>b. is_obj b \<and> isToolResult b) blocks; texts = text_parts ''text'' blocks
           in if results = [] then [jset ''content'' (convertClaudeContentBlocks blocks) msg]
              else map tool_message results @
                   (if texts = [] then [] else [JObj [(''role'', JStr ''user''), (''content'', JStr (join [CHR 0x0A] texts))]])))"

definition tool_call :: "json \<Rightarrow> json" where
  "tool_call block =
     JObj [(''id'', JStr (scrubToolID (idString (nil_at block ''id'')))), (''type'', JStr ''function''),
       (''function'', JObj [(''name'', nil_at block ''name''), (''arguments'', JStr (mustJSON (nil_at block ''input'')))])]"

definition convertClaudeAssistantMessage :: "json \<Rightarrow> json" where
  "convertClaudeAssistantMessage msg =
     (case arr_at msg ''content'' of
        None \<Rightarrow> msg
      | Some blocks \<Rightarrow>
          (let uses = filter (\<lambda>b. is_obj b \<and> is_tool_use b) blocks; thoughts = text_parts ''thinking'' blocks;
               m1 = (if uses \<noteq> []
                     then jset ''tool_calls'' (JArr (map tool_call uses)) (jset ''content'' (JStr (concat (text_parts ''text'' blocks))) msg)
                     else jset ''content'' (convertClaudeContentBlocks blocks) msg);
               m2 = (if thoughts \<noteq> [] \<and> \<not> has_key m1 ''reasoning_content''
                     then jset ''reasoning_content'' (JStr (concat thoughts)) m1 else m1)
           in jset ''role'' (JStr ''assistant'') m2))"

definition convert_message :: "json \<Rightarrow> json list" where
  "convert_message m =
     (if \<not> is_obj m then [m]
      else let role = str_at m ''role''
           in if role = ''user'' then convertClaudeUserMessage m
              else if role = ''assistant'' then [convertClaudeAssistantMessage m]
              else if role = ''tool'' then
                [case jget m ''tool_call_id'' of Some (JStr t) \<Rightarrow> jset ''tool_call_id'' (JStr (scrubToolID t)) m | _ \<Rightarrow> m]
              else [m])"

definition convertClaudeMessages :: "json list \<Rightarrow> json list" where
  "convertClaudeMessages msgs = concat (map convert_message msgs)"

section \<open>The request\<close>

definition mapEffort :: "string \<Rightarrow> string" where
  "mapEffort effort =
     (let e = to_lower (trim_space effort)
      in if e \<in> {''minimal'', ''low'', ''medium'', ''high'', ''xhigh'', ''max''} then e else [])"

definition copyThinking :: "json \<Rightarrow> json \<Rightarrow> json" where
  "copyThinking claude openai =
     (let o1 = (case obj_at claude ''thinking'' of
                  Some th \<Rightarrow> if str_at th ''type'' = ''enabled'' \<or> str_at th ''type'' = ''disabled'' then jset ''thinking'' th openai else openai
                | None \<Rightarrow> openai)
      in case obj_at claude ''output_config'' of
           Some oc \<Rightarrow> if str_at oc ''effort'' \<noteq> [] \<and> mapEffort (str_at oc ''effort'') \<noteq> []
                      then jset ''reasoning_effort'' (JStr (mapEffort (str_at oc ''effort''))) o1 else o1
         | None \<Rightarrow> o1)"

definition system_text :: "json \<Rightarrow> string" where
  "system_text claude =
     (case jget claude ''system'' of
        Some (JStr s) \<Rightarrow> s
      | Some (JArr blks) \<Rightarrow> join [CHR 0x0A] (text_parts ''text'' blks)
      | _ \<Rightarrow> [])"

definition convertClaudeTool :: "json \<Rightarrow> json option" where
  "convertClaudeTool tool =
     (if str_at tool ''name'' = [] then None
      else Some (JObj [(''type'', JStr ''function''),
        (''function'', JObj [(''name'', JStr (str_at tool ''name'')), (''description'', JStr (str_at tool ''description'')),
          (''parameters'', if nil_at tool ''input_schema'' = JNull
             then JObj [(''type'', JStr ''object''), (''properties'', JObj [])] else nil_at tool ''input_schema'')])]))"

definition convertClaudeToolChoice :: "json \<Rightarrow> json" where
  "convertClaudeToolChoice tc =
     (if str_at tc ''type'' = ''any'' then JStr ''required''
      else if str_at tc ''type'' = ''tool''
      then (case jget tc ''name'' of
              Some (JStr n) \<Rightarrow> JObj [(''type'', JStr ''function''), (''function'', JObj [(''name'', JStr n)])]
            | _ \<Rightarrow> JStr ''auto'')
      else JStr ''auto'')"

definition openai_messages :: "json \<Rightarrow> json list" where
  "openai_messages claude =
     (if system_text claude = [] then [] else [JObj [(''role'', JStr ''system''), (''content'', JStr (system_text claude))]]) @
     (case arr_at claude ''messages'' of Some ms \<Rightarrow> convertClaudeMessages ms | None \<Rightarrow> [])"

definition openai_tools :: "json \<Rightarrow> json list" where
  "openai_tools claude =
     (case arr_at claude ''tools'' of
        Some ts \<Rightarrow> concat (map (\<lambda>t. case convertClaudeTool t of Some ot \<Rightarrow> [ot] | None \<Rightarrow> []) (filter is_obj ts))
      | None \<Rightarrow> [])"

definition set_unless_empty :: "string \<Rightarrow> json list \<Rightarrow> json \<Rightarrow> json" where
  "set_unless_empty k xs v = (if xs = [] then v else jset k (JArr xs) v)"

definition copied_fields :: "json \<Rightarrow> json" where
  "copied_fields claude =
     fold (\<lambda>(s, d). copyField claude s d)
       [(''model'', ''model''), (''max_tokens'', ''max_tokens''), (''temperature'', ''temperature''), (''top_p'', ''top_p''),
        (''stream'', ''stream''), (''stop_sequences'', ''stop''), (''top_k'', ''top_k'')] (JObj [])"

definition to_openai_doc :: "json \<Rightarrow> json" where
  "to_openai_doc claude =
     (let o2 = copyThinking claude (copied_fields claude);
          o3 = (case obj_at claude ''metadata'' of
                  Some meta \<Rightarrow> if str_at meta ''user_id'' \<noteq> [] then jset ''user'' (JStr (str_at meta ''user_id'')) o2 else o2
                | None \<Rightarrow> o2);
          o4 = set_unless_empty ''messages'' (openai_messages claude) o3;
          o5 = set_unless_empty ''tools'' (openai_tools claude) o4
      in case obj_at claude ''tool_choice'' of Some tc \<Rightarrow> jset ''tool_choice'' (convertClaudeToolChoice tc) o5 | None \<Rightarrow> o5)"

definition ToOpenAI :: "string \<Rightarrow> string res" where
  "ToOpenAI body =
     (case unmarshal_map body of
        None \<Rightarrow> Inl ''translate: invalid request body''
      | Some claude \<Rightarrow> Inr (json_print (to_openai_doc claude)))"

section \<open>Specifications\<close>

definition use_ids :: "json \<Rightarrow> string list" where
  "use_ids m =
     (if str_at m ''role'' = ''assistant''
      then (case arr_at m ''content'' of Some blocks \<Rightarrow> map (\<lambda>b. idString (nil_at b ''id'')) (filter (\<lambda>b. is_obj b \<and> is_tool_use b) blocks) | None \<Rightarrow> [])
      else [])"

definition result_ids :: "json \<Rightarrow> string list" where
  "result_ids m =
     (if str_at m ''role'' = ''user''
      then (case arr_at m ''content'' of Some blocks \<Rightarrow> map (\<lambda>b. str_at b ''tool_use_id'') (filter (\<lambda>b. is_obj b \<and> isToolResult b) blocks) | None \<Rightarrow> [])
      else [])"

text \<open>The rule of the Anthropic API: the message after one that uses tools holds their results.\<close>

fun paired :: "json list \<Rightarrow> bool" where
  "paired [] = True"
| "paired (m # ms) =
     (set (use_ids m) \<subseteq> set (case ms of n # _ \<Rightarrow> result_ids n | [] \<Rightarrow> []) \<and> \<not> has_key m ''tool_calls'' \<and> paired ms)"

definition claude_turns :: "json list" where
  "claude_turns =
     [JObj [(''role'', JStr ''assistant''), (''content'', JArr [JObj [(''type'', JStr ''tool_use''), (''id'', JStr ''t.1''),
        (''name'', JStr ''ls''), (''input'', JObj [])]])],
      JObj [(''role'', JStr ''user''), (''content'', JArr [JObj [(''type'', JStr ''tool_result''), (''tool_use_id'', JStr ''t.1''),
        (''content'', JStr ''ok'')]])]]"

section \<open>The translated document is well formed\<close>

lemma wf_fields [intro]: "distinct (map fst kvs) \<Longrightarrow> \<forall>p \<in> set kvs. wf_json (snd p) \<Longrightarrow> wf_json (JObj kvs)"
  by (auto simp: wf_map_def)

lemma wf_nil_at: "wf_json v \<Longrightarrow> wf_json (nil_at v k)"
  by (auto simp: nil_at_def split: option.splits dest: wf_json_jget)

lemma wf_obj_at: "wf_json v \<Longrightarrow> obj_at v k = Some x \<Longrightarrow> wf_json x"
  by (auto simp: obj_at_def split: option.splits json.splits dest: wf_json_jget)

lemma wf_convert_block: "wf_json b \<Longrightarrow> r \<in> set (convert_block b) \<Longrightarrow> wf_json r"
  by (auto simp: convert_block_def wf_nil_at wf_map_def split: if_splits)

lemma wf_convert_blocks: "\<forall>b \<in> set blocks. wf_json b \<Longrightarrow> wf_json (convertClaudeContentBlocks blocks)"
proof -
  define rs where "rs = concat (map convert_block blocks)"
  assume "\<forall>b \<in> set blocks. wf_json b"
  then have "\<forall>r \<in> set rs. wf_json r" using wf_convert_block by (auto simp: rs_def)
  then show ?thesis
    unfolding convertClaudeContentBlocks_def rs_def [symmetric] by (auto split: list.split option.split json.split)
qed

lemma wf_tool_call: "wf_json b \<Longrightarrow> wf_json (tool_call b)"
  by (simp add: tool_call_def wf_nil_at wf_map_def)

lemma wf_tool_message: "wf_json (tool_message b)"
  by (simp add: tool_message_def wf_map_def)

lemma wf_user: "wf_json m \<Longrightarrow> r \<in> set (convertClaudeUserMessage m) \<Longrightarrow> wf_json r"
  using wf_json_arr_at [of m "''content''"] wf_convert_blocks
  by (auto simp: convertClaudeUserMessage_def Let_def wf_tool_message wf_map_def split: option.splits if_splits)

lemma wf_assistant: "wf_json m \<Longrightarrow> wf_json (convertClaudeAssistantMessage m)"
  using wf_json_arr_at [of m "''content''"] wf_convert_blocks
  by (auto simp: convertClaudeAssistantMessage_def Let_def wf_tool_call split: option.split intro!: wf_json_jset)

lemma wf_convert: "wf_json m \<Longrightarrow> r \<in> set (convert_message m) \<Longrightarrow> wf_json r"
  by (auto simp: convert_message_def Let_def wf_assistant wf_user split: option.splits if_splits json.splits)

lemma wf_messages:
  assumes "wf_json claude"
  shows "\<forall>r \<in> set (openai_messages claude). wf_json r"
proof (cases "arr_at claude ''messages''")
  case None
  then show ?thesis by (simp add: openai_messages_def wf_map_def)
next
  case (Some ms)
  then have "\<forall>r \<in> set (convertClaudeMessages ms). wf_json r"
    using wf_convert wf_json_arr_at [OF assms Some] by (auto simp: convertClaudeMessages_def)
  with Some show ?thesis by (simp add: openai_messages_def wf_map_def)
qed

lemma wf_tool: "wf_json t \<Longrightarrow> convertClaudeTool t = Some ot \<Longrightarrow> wf_json ot"
  by (auto simp: convertClaudeTool_def wf_nil_at wf_map_def split: if_splits)

lemma wf_tools:
  assumes "wf_json claude"
  shows "\<forall>t \<in> set (openai_tools claude). wf_json t"
proof (cases "arr_at claude ''tools''")
  case (Some ts)
  have "wf_json ot" if "t \<in> set ts" "ot \<in> set (case convertClaudeTool t of Some ot \<Rightarrow> [ot] | None \<Rightarrow> [])" for t ot
    using wf_tool [OF wf_json_arr_at [OF assms Some that(1)]] that(2) by (cases "convertClaudeTool t") simp_all
  with Some show ?thesis by (auto simp add: openai_tools_def)
qed (simp add: openai_tools_def)

lemma wf_copyField: "wf_json src \<Longrightarrow> wf_json dst \<Longrightarrow> wf_json (copyField src s d dst)"
  by (auto simp: copyField_def split: option.split dest: wf_json_jget)

lemma obj_copyField [simp]: "is_obj (copyField src s d dst) = is_obj dst"
  by (simp add: copyField_def split: option.split)

lemma wf_copyThinking: "wf_json src \<Longrightarrow> wf_json dst \<Longrightarrow> wf_json (copyThinking src dst)"
  by (auto simp: copyThinking_def Let_def split: option.split intro!: wf_json_jset dest: wf_obj_at)

lemma obj_copyThinking [simp]: "is_obj (copyThinking src dst) = is_obj dst"
  by (simp add: copyThinking_def Let_def split: option.split)

lemma wf_set_unless: "\<forall>x \<in> set xs. wf_json x \<Longrightarrow> wf_json v \<Longrightarrow> wf_json (set_unless_empty k xs v)"
  by (simp add: set_unless_empty_def wf_json_jset)

lemma obj_set_unless [simp]: "is_obj (set_unless_empty k xs v) = is_obj v"
  by (simp add: set_unless_empty_def)

lemma wf_choice: "wf_json (convertClaudeToolChoice tc)"
  by (simp add: convertClaudeToolChoice_def wf_map_def split: option.split json.split)

lemma wf_copied:
  assumes "wf_json claude"
  shows "wf_json (copied_fields claude)"
proof -
  have "wf_json (JObj [])" by (simp add: wf_map_def)
  then have "wf_json (fold (\<lambda>(s, d). copyField claude s d) ps (JObj []))" for ps
    by (induction ps rule: rev_induct) (auto simp: wf_copyField [OF assms] simp del: wf_json.simps)
  then show ?thesis unfolding copied_fields_def .
qed

lemma obj_copied [simp]: "is_obj (copied_fields claude)"
  by (simp add: copied_fields_def)

lemma wf_doc:
  assumes "wf_json claude"
  shows "wf_json (to_openai_doc claude)"
  unfolding to_openai_doc_def Let_def
  using wf_copyThinking [OF assms wf_copied [OF assms]] wf_choice wf_messages [OF assms] wf_tools [OF assms]
  by (simp split: option.split add: wf_json_jset wf_set_unless)

lemma obj_doc: "is_obj (to_openai_doc claude)"
  by (simp add: to_openai_doc_def Let_def split: option.split)

lemma to_openai_decodes:
  assumes "unmarshal_map body = Some claude"
  shows "ToOpenAI body = Inr (json_print (to_openai_doc claude))"
    and "unmarshal_map (json_print (to_openai_doc claude)) = Some (canon (to_openai_doc claude))"
  using assms wf_doc [OF unmarshal_map_wf [OF assms]] obj_doc by (simp_all add: ToOpenAI_def unmarshal_map_print)

text \<open>
  C10:
  Every Claude request whose body decodes is translated, and the request that leaves the pipeline towards an
  OpenAI upstream has every tool call answered and every tool-call id within the accepted characters.
\<close>

theorem claude_request_ready:
  assumes "claude_ToOpenAI tr = ToOpenAI" "unmarshal_map body = Some claude"
  shows "\<exists>out d. Request tr body FormatClaude FormatOpenAI = Inr out \<and> unmarshal_map out = Some d \<and>
    history_answered d \<and> request_ids_valid d"
proof -
  obtain out where "preprocess (json_print (to_openai_doc claude)) = Inr out" "ready.holds_on out"
    using preprocess_ready [OF to_openai_decodes(2) [OF assms(2)]] .
  then show ?thesis
    by (auto simp: Request_def sourceToOpenAI_def openAIToTarget_def assms(1) to_openai_decodes(1) [OF assms(2)]
        ready.holds_on_def tools_ready_def)
qed

section \<open>Tool calls and their results\<close>

lemma scrub_chars: "list_all is_id_char (scrubToolID s)"
  by (induction s) (auto simp: scrubToolID_def scrub_char_def is_id_char_def)

lemma scrub_valid: "toolIDPattern s \<Longrightarrow> scrubToolID s = s"
proof -
  have "list_all is_id_char s \<Longrightarrow> scrubToolID s = s" by (induction s) (auto simp: scrubToolID_def scrub_char_def)
  then show "toolIDPattern s \<Longrightarrow> scrubToolID s = s" by (simp add: toolIDPattern_def)
qed

lemma assistant_calls:
  assumes "arr_at m ''content'' = Some blocks" "\<not> has_key m ''tool_calls''"
  shows "arr_at (convertClaudeAssistantMessage m) ''tool_calls'' =
    (let uses = filter (\<lambda>b. is_obj b \<and> is_tool_use b) blocks in if uses = [] then None else Some (map tool_call uses))"
proof -
  have "is_obj m" by (rule at_is_obj(1) [OF assms(1)])
  moreover have "arr_at m ''tool_calls'' = None" using assms(2) by (simp add: arr_at_def has_key_def split: option.splits)
  ultimately show ?thesis using assms(1) by (simp add: convertClaudeAssistantMessage_def Let_def json_simps)
qed

lemma call_id: "str_at (tool_call b) ''id'' = scrubToolID (idString (nil_at b ''id''))"
  by (simp add: tool_call_def str_at_def)

lemma wanted_none: "arr_at m ''tool_calls'' = None \<Longrightarrow> wanted_ids m = []"
  by (simp add: wanted_ids_def)

lemma converted_id_nonempty: "t \<in> set (wanted_ids m) \<Longrightarrow> t \<noteq> []"
  by (cases "is_assistant m"; cases "arr_at m ''tool_calls''") (auto simp: wanted_ids_def)

lemma wanted_assistant:
  assumes "str_at m ''role'' = ''assistant''" "\<not> has_key m ''tool_calls''"
  shows "set (wanted_ids (convertClaudeAssistantMessage m)) \<subseteq> scrubToolID ` set (use_ids m)"
proof (cases "arr_at m ''content''")
  case None
  have "arr_at m ''tool_calls'' = None" using assms(2) by (simp add: arr_at_def has_key_def split: option.splits)
  with None show ?thesis by (simp add: convertClaudeAssistantMessage_def wanted_none)
next
  case (Some blocks)
  have "set (wanted_ids (convertClaudeAssistantMessage m)) \<subseteq>
      (\<lambda>b. scrubToolID (idString (nil_at b ''id''))) ` set (filter (\<lambda>b. is_obj b \<and> is_tool_use b) blocks)"
    by (cases "is_assistant (convertClaudeAssistantMessage m)"; cases "filter (\<lambda>b. is_obj b \<and> is_tool_use b) blocks = []")
      (auto simp: wanted_ids_def assistant_calls [OF Some assms(2)] Let_def call_id)
  then show ?thesis using Some assms(1) by (auto simp: use_ids_def)
qed

lemma tool_message_fields:
  "is_obj (tool_message b)" "str_at (tool_message b) ''role'' = ''tool''" "arr_at (tool_message b) ''content'' = None"
  "str_at (tool_message b) ''tool_call_id'' = scrubToolID (str_at b ''tool_use_id'')"
  by (simp_all add: tool_message_def str_at_def arr_at_def)

lemma scan_tool_messages:
  "scan_responded (map tool_message rs @ rest) =
     filter (\<lambda>s. s \<noteq> []) (map (\<lambda>b. scrubToolID (str_at b ''tool_use_id'')) rs) @ scan_responded rest"
  by (induction rs) (simp_all add: tool_message_fields collectRespondedIDs_def Let_def)

lemma answered_silent: "\<forall>x \<in> set xs. wanted_ids x = [] \<Longrightarrow> answered (xs @ ys) = answered ys"
  by (induction xs) simp_all

lemma convert_silent:
  assumes "str_at m ''role'' \<noteq> ''assistant''" "x \<in> set (convert_message m)"
  shows "wanted_ids x = []"
proof -
  have "\<not> is_assistant x"
  proof (cases "is_obj m \<and> str_at m ''role'' = ''user''")
    case True
    with assms(2) have "x \<in> set (convertClaudeUserMessage m)" by (simp add: convert_message_def)
    with True show ?thesis
      by (cases "arr_at m ''content''")
        (auto simp: convertClaudeUserMessage_def Let_def is_assistant_def json_simps tool_message_fields str_at_def [of "JObj kvs" for kvs] split: if_splits)
  next
    case False
    with assms show ?thesis
      by (auto simp: convert_message_def Let_def is_assistant_def json_simps split: if_splits option.splits json.splits)
  qed
  then show ?thesis by (simp add: wanted_ids_def)
qed

lemma scan_results:
  assumes "s \<in> set (result_ids n)" "scrubToolID s \<noteq> []"
  shows "scrubToolID s \<in> set (scan_responded (convert_message n @ rest))"
proof -
  obtain blocks where n: "str_at n ''role'' = ''user''" "arr_at n ''content'' = Some blocks"
      "s \<in> (\<lambda>b. str_at b ''tool_use_id'') ` set (filter (\<lambda>b. is_obj b \<and> isToolResult b) blocks)"
    using assms(1) by (cases "str_at n ''role'' = ''user''"; cases "arr_at n ''content''") (auto simp: result_ids_def)
  have o: "is_obj n" by (rule at_is_obj(1) [OF n(2)])
  let ?rs = "filter (\<lambda>b. is_obj b \<and> isToolResult b) blocks"
  have "?rs \<noteq> []"
  proof
    assume e: "?rs = []"
    show False using n(3) unfolding e by simp
  qed
  then have "\<exists>tail. convert_message n = map tool_message ?rs @ tail"
    using n(1,2) o by (simp add: convert_message_def convertClaudeUserMessage_def Let_def)
  then obtain tail where "convert_message n = map tool_message ?rs @ tail" ..
  then show ?thesis using n(3) assms(2) by (auto simp: scan_tool_messages)
qed

lemma answered_convert: "paired ms \<Longrightarrow> answered (convertClaudeMessages ms)"
proof (induction ms)
  case Nil
  then show ?case by (simp add: convertClaudeMessages_def)
next
  case (Cons m ms)
  have rest: "answered (convertClaudeMessages ms)" using Cons by simp
  have eq: "convertClaudeMessages (m # ms) = convert_message m @ convertClaudeMessages ms"
    by (simp add: convertClaudeMessages_def)
  show ?case
  proof (cases "str_at m ''role'' = ''assistant''")
    case False
    then show ?thesis using rest convert_silent [OF False] unfolding eq by (simp add: answered_silent)
  next
    case True
    have "is_obj m" using True at_is_obj(2) [of m "''role''"] by simp
    then have one: "convert_message m = [convertClaudeAssistantMessage m]" using True by (simp add: convert_message_def)
    have "t \<in> set (scan_responded (convertClaudeMessages ms))" if "t \<in> set (wanted_ids (convertClaudeAssistantMessage m))" for t
    proof -
      have "t \<noteq> []" using that by (rule converted_id_nonempty)
      have "\<not> has_key m ''tool_calls''" using Cons.prems by simp
      then have "t \<in> scrubToolID ` set (use_ids m)" using wanted_assistant [OF True] that by blast
      then obtain s where s: "s \<in> set (use_ids m)" "t = scrubToolID s" by blast
      then obtain n ns where "ms = n # ns" "s \<in> set (result_ids n)" using Cons.prems by (auto split: list.splits)
      with scan_results [OF this(2)] s \<open>t \<noteq> []\<close> show ?thesis by (simp add: convertClaudeMessages_def)
    qed
    then show ?thesis unfolding eq one using rest by auto
  qed
qed

text \<open>
  C32:
  A Claude history in which every message that uses tools is followed by the message with their results is
  translated to an OpenAI history in which every call already has its tool message, ids scrubbed alike on both
  sides: FixMissingToolResponses adds nothing to it.
\<close>

theorem paired_history_kept: "paired ms \<Longrightarrow> fix_missing (convertClaudeMessages ms) = convertClaudeMessages ms"
  by (rule fix_answered_id) (rule answered_convert)

text \<open>
  The arguments written for a tool use with an object as its input decode to that same object.
\<close>

theorem tool_input_roundtrip:
  assumes "wf_json v" "is_obj v" "\<not> has_key v ''__unparsedToolInput''"
  shows "json_parse (mustJSON v) = Some (canon v)"
proof -
  obtain m where m: "v = JObj m" using assms(2) by (cases v) auto
  then have "map_of m ''__unparsedToolInput'' = None" using assms(3) by (simp add: has_key_def)
  with m have "mustJSON v = json_print v" using repair_object [OF assms(1,2)] by (simp add: mustJSON_def)
  then show ?thesis using assms(1) by (simp add: json_parse_print)
qed

text \<open>
  A tool result without content reaches the OpenAI upstream as a tool message whose text is "<nil>".
\<close>

theorem tool_result_without_content:
  "tool_message (JObj [(''type'', JStr ''tool_result''), (''tool_use_id'', JStr t)]) =
   JObj [(''role'', JStr ''tool''), (''tool_call_id'', JStr (scrubToolID t)), (''content'', JStr ''<nil>'')]"
  by (simp add: tool_message_def nil_at_def contentToString_def str_at_def)

text \<open>
  An image beside a tool result in the same user message is not translated at all.
\<close>

theorem image_beside_result_lost:
  "convertClaudeUserMessage
     (JObj [(''role'', JStr ''user''), (''content'', JArr [
        JObj [(''type'', JStr ''tool_result''), (''tool_use_id'', JStr t), (''content'', JStr c)],
        JObj [(''type'', JStr ''image''), (''source'', src)]])]) =
   [JObj [(''role'', JStr ''tool''), (''tool_call_id'', JStr (scrubToolID t)), (''content'', JStr c)]]"
  by (simp add: convertClaudeUserMessage_def Let_def arr_at_def text_parts_def isToolResult_def str_at_def tool_message_def
      nil_at_def contentToString_def)

section \<open>Instances\<close>

theorem claude_request_ready_witness:
  "\<exists>out d. Request (plain_translators\<lparr>claude_ToOpenAI := ToOpenAI\<rparr>) tools_body FormatClaude FormatOpenAI = Inr out \<and>
    unmarshal_map out = Some d \<and> history_answered d \<and> request_ids_valid d"
  by (rule claude_request_ready [OF _ tools_body_decodes]) simp

theorem paired_history_kept_witness: "fix_missing (convertClaudeMessages claude_turns) = convertClaudeMessages claude_turns"
  by (rule paired_history_kept) code_simp

theorem tool_input_roundtrip_witness:
  "json_parse (mustJSON (JObj [(''path'', JStr ''<a>'')])) = Some (canon (JObj [(''path'', JStr ''<a>'')]))"
  by (rule tool_input_roundtrip) (simp_all add: wf_map_def has_key_def)

end
