(* ===== verification/Go_Regexp.thy ===== *)
theory Go_Regexp
  imports Prelude
begin

text \<open>
  The part of Go's package regexp that the program uses: a matcher that lists the ways to match in order of
  preference (its head is the leftmost-first match of Go), search, submatches and deletion of all matches.
  Strings are the bytes of UTF-8, so a rune outside ASCII is a sequence of classes; letter case is ASCII.
\<close>

section \<open>Expressions and matches\<close>

datatype re =
    Eps
  | Cls "char \<Rightarrow> bool"
  | Cat re re
  | Alt re re
  | Star bool re
  | Grp nat re
  | EndText
  | EndLine

type_synonym caps = "(nat \<times> string) list"
type_synonym matcher = "caps \<Rightarrow> string \<Rightarrow> (caps \<times> string) list"

text \<open>An iteration that consumes nothing ends the loop, so the length of the text is enough fuel.\<close>

fun star_loop :: "matcher \<Rightarrow> bool \<Rightarrow> nat \<Rightarrow> matcher" where
  "star_loop f greedy 0 e s = [(e, s)]"
| "star_loop f greedy (Suc n) e s =
     (let more = concat (map (\<lambda>(e', s'). if length s' < length s then star_loop f greedy n e' s' else []) (f e s))
      in if greedy then more @ [(e, s)] else (e, s) # more)"

primrec matches :: "re \<Rightarrow> matcher" where
  "matches Eps e s = [(e, s)]"
| "matches (Cls p) e s = (case s of [] \<Rightarrow> [] | c # cs \<Rightarrow> if p c then [(e, cs)] else [])"
| "matches (Cat a b) e s = concat (map (\<lambda>(e', s'). matches b e' s') (matches a e s))"
| "matches (Alt a b) e s = matches a e s @ matches b e s"
| "matches (Star greedy a) e s = star_loop (matches a) greedy (length s) e s"
| "matches (Grp n a) e s = map (\<lambda>(e', s'). ((n, take (length s - length s') s) # e', s')) (matches a e s)"
| "matches EndText e s = (if s = [] then [(e, s)] else [])"
| "matches EndLine e s = (case s of [] \<Rightarrow> [(e, s)] | c # cs \<Rightarrow> if c = CHR 0x0A then [(e, s)] else [])"

text \<open>A group that took no part in the match is the empty string.\<close>

definition group_text :: "caps \<Rightarrow> nat \<Rightarrow> string" where
  "group_text e n = (case map_of e n of Some w \<Rightarrow> w | None \<Rightarrow> [])"

section \<open>Search and deletion\<close>

text \<open>The text before the leftmost match, its submatches, and the text after it.\<close>

fun find_re :: "re \<Rightarrow> string \<Rightarrow> (string \<times> caps \<times> string) option" where
  "find_re r [] = (case matches r [] [] of [] \<Rightarrow> None | (e, t) # _ \<Rightarrow> Some ([], e, t))"
| "find_re r (c # cs) =
     (case matches r [] (c # cs) of
        (e, t) # _ \<Rightarrow> Some ([], e, t)
      | [] \<Rightarrow> map_option (\<lambda>(b, e, t). (c # b, e, t)) (find_re r cs))"

definition match_string :: "re \<Rightarrow> string \<Rightarrow> bool" where
  "match_string r s = (find_re r s \<noteq> None)"

text \<open>FindAllStringSubmatch: the submatches of the successive matches.\<close>

fun find_all :: "nat \<Rightarrow> re \<Rightarrow> string \<Rightarrow> caps list" where
  "find_all 0 r s = []"
| "find_all (Suc n) r s = (case find_re r s of Some (b, e, t) \<Rightarrow> e # find_all n r t | None \<Rightarrow> [])"

text \<open>
  ReplaceAllString with the empty replacement. With \<open>lines\<close> a match must start a line; \<open>bol\<close> says whether
  the current position does.
\<close>

function strip_from :: "re \<Rightarrow> bool \<Rightarrow> bool \<Rightarrow> string \<Rightarrow> string" where
  "strip_from r lines bol [] = []"
| "strip_from r lines bol (c # cs) =
     (case (if lines \<and> \<not> bol then [] else matches r [] (c # cs)) of
        (e, t) # _ \<Rightarrow>
          if length t < length (c # cs)
          then strip_from r lines (last (take (length (c # cs) - length t) (c # cs)) = CHR 0x0A) t
          else c # strip_from r lines (c = CHR 0x0A) cs
      | [] \<Rightarrow> c # strip_from r lines (c = CHR 0x0A) cs)"
  by pat_completeness auto
termination
  by (relation "measure (\<lambda>(r, lines, bol, s). length s)") auto

definition strip_all :: "re \<Rightarrow> string \<Rightarrow> string" where
  "strip_all r s = strip_from r False True s"

definition strip_lines :: "re \<Rightarrow> string \<Rightarrow> string" where
  "strip_lines r s = strip_from r True True s"

section \<open>Building expressions\<close>

fun seqs :: "re list \<Rightarrow> re" where
  "seqs [] = Eps"
| "seqs [r] = r"
| "seqs (r # rs) = Cat r (seqs rs)"

fun alts :: "re list \<Rightarrow> re" where
  "alts [] = Cls (\<lambda>_. False)"
| "alts [r] = r"
| "alts (r # rs) = Alt r (alts rs)"

definition lit :: "string \<Rightarrow> re" where
  "lit s = seqs (map (\<lambda>c. Cls (\<lambda>d. d = c)) s)"

text \<open>A literal under \<^verbatim>\<open>(?i)\<close>.\<close>

definition lit_i :: "string \<Rightarrow> re" where
  "lit_i s = seqs (map (\<lambda>c. Cls (\<lambda>d. lower_char d = lower_char c)) s)"

definition opt :: "re \<Rightarrow> re" where
  "opt r = Alt r Eps"

definition blanks :: re where
  "blanks = Star True (Cls (\<lambda>c. c \<in> {CHR '' '', CHR 0x09, CHR 0x0A, CHR 0x0C, CHR 0x0D}))"

definition anything_lazy :: re where
  "anything_lazy = Star False (Cls (\<lambda>_. True))"

definition no_gt :: re where
  "no_gt = Star True (Cls (\<lambda>c. c \<noteq> CHR ''>''))"

section \<open>Laws of the matcher\<close>

lemma star_loop_suffix:
  assumes "\<And>e s e' s'. (e', s') \<in> set (f e s) \<Longrightarrow> suffix s' s"
  shows "(e', s') \<in> set (star_loop f greedy n e s) \<Longrightarrow> suffix s' s"
proof (induction n arbitrary: e s)
  case (Suc n)
  show ?case
  proof (cases "(e', s') = (e, s)")
    case False
    then obtain e1 s1 where "(e1, s1) \<in> set (f e s)" "(e', s') \<in> set (star_loop f greedy n e1 s1)"
      using Suc.prems by (auto simp: Let_def split: if_splits)
    then show ?thesis using assms Suc.IH suffix_order.trans by blast
  qed simp
qed simp

lemma matches_suffix: "(e', s') \<in> set (matches r e s) \<Longrightarrow> suffix s' s"
proof (induction r arbitrary: e s e' s')
  case (Cls p)
  then show ?case by (auto split: list.splits if_splits intro: suffix_ConsI)
next
  case (Cat a b)
  then obtain e1 s1 where "(e1, s1) \<in> set (matches a e s)" "(e', s') \<in> set (matches b e1 s1)" by auto
  then show ?case using Cat.IH suffix_order.trans by blast
next
  case (Star greedy a)
  then show ?case using star_loop_suffix [of "matches a"] by (metis matches.simps(5))
qed (auto split: list.splits if_splits)

lemma find_re_split: "find_re r s = Some (b, e, t) \<Longrightarrow> \<exists>m. s = b @ m @ t"
proof (induction s arbitrary: b)
  case Nil
  then have "(e, t) \<in> set (matches r [] [])" "b = []" by (auto split: list.splits)
  then show ?case using matches_suffix by fastforce
next
  case (Cons c cs)
  show ?case
  proof (cases "matches r [] (c # cs)")
    case Nil
    then obtain b' where "find_re r cs = Some (b', e, t)" "b = c # b'" using Cons.prems by auto
    then show ?thesis using Cons.IH by fastforce
  next
    case m: (Cons x xs)
    then have "x = (e, t)" "b = []" using Cons.prems by (auto split: prod.splits)
    then have "suffix t (c # cs)" using m matches_suffix [of e t r "[]"] by simp
    then show ?thesis using \<open>b = []\<close> by (auto simp: suffix_def)
  qed
qed

lemma matches_class_shorter: "(e', s') \<in> set (matches (Cat (Cls p) r) e s) \<Longrightarrow> length s' < length s"
  using matches_suffix [THEN suffix_length_le, of e' s' r] by (cases s) (auto split: if_splits simp: less_Suc_eq_le)

lemma find_class_shorter: "find_re (Cat (Cls p) r) s = Some (b, e, t) \<Longrightarrow> length t < length s"
proof (induction s arbitrary: b)
  case Nil
  then show ?case by simp
next
  case (Cons c cs)
  show ?case
  proof (cases "matches (Cat (Cls p) r) [] (c # cs)")
    case Nil
    then obtain b' where "find_re (Cat (Cls p) r) cs = Some (b', e, t)" using Cons.prems by (auto simp del: matches.simps)
    then show ?thesis using Cons.IH by fastforce
  next
    case m: (Cons x xs)
    then have "x = (e, t)" using Cons.prems by (auto split: prod.splits simp del: matches.simps)
    then show ?thesis using m matches_class_shorter [of e t p r "[]" "c # cs"] by simp
  qed
qed

lemma find_re_length: "find_re r s = Some (b, e, t) \<Longrightarrow> length t \<le> length s"
  using find_re_split by fastforce

text \<open>Deleting matches leaves a subsequence of the text.\<close>

lemma strip_from_subseq: "subseq (strip_from r lines bol s) s"
proof (induction r lines bol s rule: strip_from.induct)
  case (2 r lines bol c cs)
  show ?case
  proof (cases "if lines \<and> \<not> bol then [] else matches r [] (c # cs)")
    case Nil
    then show ?thesis using 2 by simp
  next
    case (Cons x xs)
    obtain e t where x: "x = (e, t)" by fastforce
    show ?thesis
    proof (cases "length t < length (c # cs)")
      case True
      have "suffix t (c # cs)" using Cons x matches_suffix [of e t r "[]"] by (cases "lines \<and> \<not> bol") auto
      then have "subseq t (c # cs)" by (rule suffix_imp_subseq)
      moreover have "subseq (strip_from r lines (last (take (length (c # cs) - length t) (c # cs)) = CHR 0x0A) t) t"
        using 2(2) [OF Cons x [symmetric] True] .
      ultimately show ?thesis using Cons x True subseq_order.trans by (simp del: take_Cons')
    next
      case False
      then show ?thesis using 2(3) [OF Cons x [symmetric] False] Cons x by simp
    qed
  qed
qed simp

lemma strip_all_subseq: "subseq (strip_all r s) s" "subseq (strip_lines r s) s"
  by (simp_all add: strip_all_def strip_lines_def strip_from_subseq)

end
