(* ===== verification/Json_Encoder.thy ===== *)
theory Json_Encoder
  imports GoJson
begin

text \<open>
  The encoder of encoding/json over any way to write strings: json.Marshal escapes HTML, json.Encoder with
  SetEscapeHTML(false) does not. A string encoder that the decoder reads back gives a value encoder that it
  reads back.
\<close>

section \<open>Encoders\<close>

fun print_with :: "(string \<Rightarrow> string) \<Rightarrow> json \<Rightarrow> string" where
  "print_with enc JNull = ''null''"
| "print_with enc (JBool b) = (if b then ''true'' else ''false'')"
| "print_with enc (JNum r) = print_num r"
| "print_with enc (JStr s) = dq # enc s @ [dq]"
| "print_with enc (JArr xs) = CHR ''['' # join '','' (map (print_with enc) xs) @ '']''"
| "print_with enc (JObj kvs) =
     CHR ''{'' # join '','' (map (\<lambda>(k, v). dq # enc k @ [dq] @ CHR '':'' # print_with enc v) kvs) @ ''}''"

definition esc_plain_char :: "char \<Rightarrow> string" where
  "esc_plain_char c = (if c = CHR ''<'' \<or> c = CHR ''>'' \<or> c = CHR ''&'' then [c] else esc_char c)"

fun esc_plain :: "string \<Rightarrow> string" where
  "esc_plain [] = []"
| "esc_plain (c # cs) =
     (if c = CHR 0xE2 \<and> take 2 cs = [CHR 0x80, CHR 0xA8] then u_escape 0x2028 @ esc_plain (drop 2 cs)
      else if c = CHR 0xE2 \<and> take 2 cs = [CHR 0x80, CHR 0xA9] then u_escape 0x2029 @ esc_plain (drop 2 cs)
      else esc_plain_char c @ esc_plain cs)"

text \<open>json.Encoder with SetEscapeHTML(false), without the newline it appends.\<close>

definition print_plain :: "json \<Rightarrow> string" where
  "print_plain v = print_with esc_plain (canon v)"

section \<open>Reading back\<close>

locale string_encoder =
  fixes enc :: "string \<Rightarrow> string"
  assumes parse_enc: "parse_str (enc s @ dq # rest) = Some (s, rest)"
begin

lemma head: "wf_json v \<Longrightarrow> \<exists>c cs. print_with enc v = c # cs \<and> value_start c"
proof (cases v)
  case (JNum r)
  assume "wf_json v"
  with JNum print_num_head [of r] show ?thesis by (auto simp: value_start_def is_ws_def is_digit_def)
qed (auto simp: value_start_def is_ws_def)

lemma elems:
  assumes "\<And>x f r. x \<in> set xs \<Longrightarrow> fuel_need x \<le> f \<Longrightarrow> num_stop r \<Longrightarrow> parse_value f (print_with enc x @ r) = Some (x, r)"
    and "xs \<noteq> []" and "sum_list (map (\<lambda>x. Suc (fuel_need x)) xs) \<le> f"
  shows "parse_elems f acc (join '','' (map (print_with enc) xs) @ CHR '']'' # r) = Some (JArr (acc @ xs), r)"
  using assms
proof (induction xs arbitrary: f acc)
  case (Cons x xs)
  then obtain g where g: "f = Suc g" "fuel_need x \<le> g"
    "sum_list (map (\<lambda>x. Suc (fuel_need x)) xs) \<le> g" by (cases f) auto
  let ?rest = "CHR '','' # join '','' (map (print_with enc) xs) @ CHR '']'' # r"
  show ?case
  proof (cases "xs = []")
    case True
    then show ?thesis using Cons.prems(1) [of x g "CHR '']'' # r"] g by simp
  next
    case False
    have "parse_value g (print_with enc x @ ?rest) = Some (x, ?rest)" using Cons.prems(1) [of x g ?rest] g by simp
    moreover have "parse_elems g (acc @ [x]) (join '','' (map (print_with enc) xs) @ CHR '']'' # r) =
        Some (JArr ((acc @ [x]) @ xs), r)"
      using Cons.prems g False by (intro Cons.IH) auto
    ultimately show ?thesis using g False by (simp add: join_Cons)
  qed
qed simp

lemma members:
  assumes "\<And>k v f r. (k, v) \<in> set kvs \<Longrightarrow> fuel_need v \<le> f \<Longrightarrow> num_stop r \<Longrightarrow> parse_value f (print_with enc v @ r) = Some (v, r)"
    and "kvs \<noteq> []" and "sum_list (map (\<lambda>(k, v). Suc (fuel_need v)) kvs) \<le> f"
    and "wf_map (acc @ kvs)"
  shows "parse_members f acc (join '','' (map (\<lambda>(k, v). dq # enc k @ [dq] @ CHR '':'' # print_with enc v) kvs) @ CHR ''}'' # r) =
    Some (JObj (acc @ kvs), r)"
  using assms
proof (induction kvs arbitrary: f acc)
  case (Cons kv kvs)
  obtain k v where kv: "kv = (k, v)" by fastforce
  obtain g where g: "f = Suc g" "fuel_need v \<le> g"
    "sum_list (map (\<lambda>(k, v). Suc (fuel_need v)) kvs) \<le> g" using Cons.prems(3) kv by (cases f) auto
  have "k \<notin> fst ` set acc" using Cons.prems(4) kv by (auto simp: wf_map_def)
  then have put: "mput k v acc = acc @ [kv]" by (simp add: mput_fresh kv)
  let ?tail = "join '','' (map (\<lambda>(k, v). dq # enc k @ [dq] @ CHR '':'' # print_with enc v) kvs) @ CHR ''}'' # r"
  show ?case
  proof (cases "kvs = []")
    case True
    then show ?thesis using Cons.prems(1) [of k v g "CHR ''}'' # r"] g kv put by (simp add: parse_enc)
  next
    case False
    have "parse_value g (print_with enc v @ CHR '','' # ?tail) = Some (v, CHR '','' # ?tail)"
      using Cons.prems(1) [of k v g "CHR '','' # ?tail"] g kv by simp
    moreover have "parse_members g (acc @ [kv]) ?tail = Some (JObj ((acc @ [kv]) @ kvs), r)"
      using Cons.prems g False kv by (intro Cons.IH) auto
    ultimately show ?thesis using g False put by (simp add: join_Cons parse_enc kv)
  qed
qed simp

lemma value_back:
  "wf_json v \<Longrightarrow> fuel_need v \<le> f \<Longrightarrow> num_stop r \<Longrightarrow> parse_value f (print_with enc v @ r) = Some (v, r)"
proof (induction v arbitrary: f r)
  case JNull
  then show ?case by (cases f) (auto simp: is_ws_def)
next
  case (JBool b)
  then show ?case by (cases f) (auto simp: is_ws_def)
next
  case (JNum x)
  then show ?case using parse_value_print_raw [of "JNum x" f r] by simp
next
  case (JStr s)
  then show ?case by (cases f) (auto simp: parse_enc)
next
  case (JArr xs)
  then obtain g where g: "f = Suc g" "sum_list (map (\<lambda>x. Suc (fuel_need x)) xs) \<le> g" by (cases f) auto
  show ?case
  proof (cases "xs = []")
    case False
    then have e: "parse_elems g [] (join '','' (map (print_with enc) xs) @ CHR '']'' # r) = Some (JArr xs, r)"
      using elems [of xs g "[]" r] JArr g by auto
    obtain x xs' where xs: "xs = x # xs'" using False by (cases xs) auto
    then obtain c cs where c: "print_with enc x = c # cs" "value_start c" using head [of x] JArr.prems by auto
    then obtain cs' where "join '','' (map (print_with enc) xs) = c # cs'"
      by (cases "xs' = []") (auto simp: xs join_Cons)
    then show ?thesis using e g c(2) by (simp add: value_start_def)
  qed (use g in simp)
next
  case (JObj kvs)
  then obtain g where g: "f = Suc g" "sum_list (map (\<lambda>(k, v). Suc (fuel_need v)) kvs) \<le> g" by (cases f) auto
  show ?case
  proof (cases "kvs = []")
    case False
    have ih: "parse_value f (print_with enc v @ r) = Some (v, r)"
      if "(k, v) \<in> set kvs" "fuel_need v \<le> f" "num_stop r" for k v f r
      using that JObj.IH [of "(k, v)" v f r] JObj.prems by auto
    have e: "parse_members g [] (join '','' (map (\<lambda>(k, v). dq # enc k @ [dq] @ CHR '':'' # print_with enc v) kvs) @ CHR ''}'' # r) =
        Some (JObj kvs, r)"
      using members [of kvs g "[]" r] ih False g JObj.prems by auto
    obtain kv kvs' where "kvs = kv # kvs'" using False by (cases kvs) auto
    then obtain cs' where "join '','' (map (\<lambda>(k, v). dq # enc k @ [dq] @ CHR '':'' # print_with enc v) kvs) = dq # cs'"
      by (cases kv, cases "kvs' = []") (auto simp: join_Cons)
    then show ?thesis using e g by simp
  qed (use g in simp)
qed

lemma need_le: "wf_json v \<Longrightarrow> fuel_need v \<le> length (print_with enc v)"
proof (induction v)
  case (JNum x)
  then show ?case using print_num_head [of x] by auto
next
  case (JArr xs)
  have "sum_list (map (\<lambda>x. Suc (fuel_need x)) xs) \<le> sum_list (map (\<lambda>x. Suc (length (print_with enc x))) xs)"
    using JArr by (intro sum_list_mono) auto
  then show ?case using length_join [of "map (print_with enc) xs" "CHR '',''"] by (cases "xs = []") (simp_all add: comp_def)
next
  case (JObj kvs)
  let ?m = "\<lambda>(k, v). dq # enc k @ [dq] @ CHR '':'' # print_with enc v"
  have "sum_list (map (\<lambda>(k, v). Suc (fuel_need v)) kvs) \<le> sum_list (map (\<lambda>kv. Suc (length (?m kv))) kvs)"
    using JObj by (intro sum_list_mono) fastforce
  then show ?case using length_join [of "map ?m kvs" "CHR '',''"] by (cases "kvs = []") (simp_all add: comp_def)
qed auto

lemma parse_back: "wf_json v \<Longrightarrow> json_parse (print_with enc v) = Some v"
  using value_back [of v "Suc (length (print_with enc v))" "[]"] need_le [of v]
  by (simp add: json_parse_def skip_ws_def)

lemma decode_back:
  "wf_json v \<Longrightarrow> parse_value (Suc (length (print_with enc v))) (print_with enc v) = Some (v, [])"
  using value_back [of v "Suc (length (print_with enc v))" "[]"] need_le [of v] by simp

end

section \<open>The two encoders of the package\<close>

interpretation html: string_encoder esc_str
  by unfold_locales (rule parse_str_esc_str)

lemma parse_str_plain_char: "parse_str (esc_plain_char c @ s) = prepend [c] (parse_str s)"
  using parse_str_esc_char [of c s] by (auto simp: esc_plain_char_def)

lemma parse_str_esc_plain: "parse_str (esc_plain s @ dq # rest) = Some (s, rest)"
proof (induction s rule: esc_plain.induct)
  case 1
  then show ?case by simp
next
  case (2 c cs)
  have eq: "cs = take 2 cs @ drop 2 cs" by simp
  consider (a) "c = CHR 0xE2" "take 2 cs = [CHR 0x80, CHR 0xA8]"
    | (b) "c = CHR 0xE2" "take 2 cs = [CHR 0x80, CHR 0xA9]"
    | (z) "\<not> (c = CHR 0xE2 \<and> take 2 cs = [CHR 0x80, CHR 0xA8])"
          "\<not> (c = CHR 0xE2 \<and> take 2 cs = [CHR 0x80, CHR 0xA9])" by blast
  then show ?case
  proof cases
    case a
    with 2 have "parse_str (esc_plain (drop 2 cs) @ dq # rest) = Some (drop 2 cs, rest)" by blast
    with a show ?thesis
      by (subst eq, subst (2) eq)
         (simp del: append_take_drop_id parse_str.simps add: parse_str_u_escape utf8_2028 prepend_def)
  next
    case b
    with 2 have "parse_str (esc_plain (drop 2 cs) @ dq # rest) = Some (drop 2 cs, rest)" by auto
    with b show ?thesis
      by (subst eq, subst (2) eq)
         (simp del: append_take_drop_id parse_str.simps add: parse_str_u_escape utf8_2028 prepend_def)
  next
    case z
    with 2 have ih: "parse_str (esc_plain cs @ dq # rest) = Some (cs, rest)" by blast
    have e: "esc_plain (c # cs) = esc_plain_char c @ esc_plain cs" using z by auto
    show ?thesis unfolding e by (simp add: parse_str_plain_char ih prepend_def del: esc_plain.simps parse_str.simps)
  qed
qed

interpretation plain: string_encoder esc_plain
  by unfold_locales (rule parse_str_esc_plain)

lemma print_raw_html: "print_raw v = print_with esc_str v"
proof (induction v)
  case (JArr xs)
  then have "map print_raw xs = map (print_with esc_str) xs" by simp
  then show ?case by (simp only: print_raw.simps print_with.simps)
next
  case (JObj kvs)
  then have "map (\<lambda>(k, v). print_str k @ CHR '':'' # print_raw v) kvs =
      map (\<lambda>(k, v). dq # esc_str k @ [dq] @ CHR '':'' # print_with esc_str v) kvs"
    by (auto simp: print_str_def)
  then show ?case by (simp only: print_raw.simps print_with.simps)
qed (simp_all add: print_str_def)

lemma json_parse_print_plain: "wf_json v \<Longrightarrow> json_parse (print_plain v) = Some (canon v)"
  by (simp add: print_plain_def plain.parse_back wf_json_canon)

end
