(* ===== verification/Claude_Sanitize.thy ===== *)
theory Claude_Sanitize
  imports Go_Regexp Tool_Args Json_Encoder
begin

text \<open>
  Cleaning of what a model emits (internal/translate/claude): agentic scaffolding in its text
  (sanitize\_response.go), DSML markup inside tool arguments (sanitize\_args.go), and tool calls that arrive as
  DSML blocks in the text (orphan\_invoke.go).
\<close>

section \<open>Scaffolding in text (sanitize\_response.go)\<close>

text \<open>The class of ASCII and fullwidth (U+FF5C) pipes.\<close>

definition wide_pipe :: string where
  "wide_pipe = [CHR 0xEF, CHR 0xBD, CHR 0x9C]"

definition pipe :: re where
  "pipe = Alt (lit ''|'') (lit wide_pipe)"

definition sigil :: "re \<Rightarrow> re" where
  "sigil p = seqs [p, lit_i ''DSML'', p]"

text \<open>An opening tag, a closing tag, and either of them with an optional slash at the end.\<close>

definition open_tag :: "re \<Rightarrow> re" where
  "open_tag tag = seqs [lit ''<'', blanks, tag, blanks, lit ''>'']"

definition close_tag :: "re \<Rightarrow> re" where
  "close_tag tag = seqs [lit ''</'', blanks, tag, blanks, lit ''>'']"

definition single_tag :: "re \<Rightarrow> re" where
  "single_tag tag = seqs [lit ''<'', blanks, opt (lit ''/''), blanks, tag, blanks, opt (lit ''/''), blanks, lit ''>'']"

definition dash :: re where
  "dash = Cls (\<lambda>c. c = CHR ''-'' \<or> c = CHR ''_'')"

definition scaffoldTagNames :: "re list" where
  "scaffoldTagNames =
     [lit_i ''system-reminder'', lit_i ''reminder'', lit_i ''feature-flag'', lit_i ''feature-flag-name'',
      lit_i ''feature-flag-enabled'', lit_i ''feature-flag-description'',
      seqs [lit_i ''extremely'', dash, lit_i ''important''], seqs [lit_i ''subagent'', dash, lit_i ''stop'']]"

definition scaffoldPairedRes :: "re list" where
  "scaffoldPairedRes = map (\<lambda>tag. seqs [open_tag tag, anything_lazy, close_tag tag]) scaffoldTagNames"

definition scaffoldSingleRes :: "re list" where
  "scaffoldSingleRes = map single_tag scaffoldTagNames"

definition dsml_paired :: "re \<Rightarrow> re" where
  "dsml_paired p =
     seqs [lit ''<'', blanks, sigil p, no_gt, lit ''>'', anything_lazy, lit ''</'', blanks, sigil p, no_gt, lit ''>'']"

definition dsmlPairedRes :: "re list" where
  "dsmlPairedRes = map dsml_paired [lit ''|'', lit wide_pipe, pipe]"

definition systemReminderMismatchRe :: re where
  "systemReminderMismatchRe = seqs [open_tag (lit_i ''system-reminder''), anything_lazy, close_tag (lit_i ''reminder'')]"

definition dsmlSingleRe :: re where
  "dsmlSingleRe = seqs [lit ''<'', blanks, opt (lit ''/''), blanks, sigil pipe, no_gt, lit ''>'']"

definition dsmlUnterminatedRe :: re where
  "dsmlUnterminatedRe = seqs [lit ''<'', blanks, sigil pipe, no_gt, EndText]"

definition planSingleRe :: re where
  "planSingleRe = single_tag (lit_i ''plan'')"

definition orphanTagRe :: re where
  "orphanTagRe = seqs [opt (lit '']]''),
     single_tag (alts (map lit_i [''tool_calls'', ''tool-calls'', ''toolcall'', ''invoke'', ''parameter'', ''tool_input_cp_reminder'']))]"

definition gitNoNewlineRe :: re where
  "gitNoNewlineRe = seqs [lit (bs # '' No newline at end of file''), blanks, opt (lit [CHR 0x0D]), EndLine]"

text \<open>\<^verbatim>\<open>multiBlankRe\<close>: three or more line ends become two.\<close>

function collapse_blank :: "string \<Rightarrow> string" where
  "collapse_blank [] = []"
| "collapse_blank (c # cs) =
     (if c = CHR 0x0A \<and> 2 \<le> length (takeWhile (\<lambda>d. d = CHR 0x0A) cs)
      then [CHR 0x0A, CHR 0x0A] @ collapse_blank (dropWhile (\<lambda>d. d = CHR 0x0A) cs)
      else c # collapse_blank cs)"
  by pat_completeness auto
termination
  by (relation "measure length") (auto simp: less_Suc_eq_le length_dropWhile_le)

definition scaffoldMarkers :: "string list" where
  "scaffoldMarkers =
     [''DSML'', ''dsml'', ''No newline at end of file'', ''feature-flag'', ''system-reminder'', ''reminder'',
      ''SUBAGENT'', ''subagent'', ''EXTREMELY'', ''extremely'', ''<plan'', ''plan>'']"

definition scaffoldMarkersLower :: "string list" where
  "scaffoldMarkersLower =
     [''dsml'', ''no newline at end of file'', ''feature-flag'', ''system-reminder'', ''subagent'', ''extremely'',
      ''<plan'', ''plan>'', ''tool_calls'', ''tool-calls'', ''tool_input'', ''invoke>'', ''parameter>'']"

definition containsScaffoldMarker :: "string \<Rightarrow> bool" where
  "containsScaffoldMarker s =
     (list_ex (contains s) scaffoldMarkers \<or>
      (contains s ''<'' \<or> contains s (bs # '' No newline'')) \<and> list_ex (contains (to_lower s)) scaffoldMarkersLower)"

text \<open>The deletions in the order of the code; the paired tags twice.\<close>

definition strip_each :: "re list \<Rightarrow> string \<Rightarrow> string" where
  "strip_each rs s = fold strip_all rs s"

definition strip_scaffold :: "string \<Rightarrow> string" where
  "strip_scaffold s =
     strip_lines gitNoNewlineRe
       (strip_each (dsmlPairedRes @ scaffoldPairedRes @ scaffoldPairedRes @ [systemReminderMismatchRe] @ scaffoldSingleRes @
          [dsmlSingleRe, planSingleRe, orphanTagRe, dsmlUnterminatedRe]) s)"

definition SanitizeAssistantText :: "string \<Rightarrow> string" where
  "SanitizeAssistantText s =
     (if s = [] \<or> \<not> containsScaffoldMarker s then s
      else let t = strip_scaffold s in if t = s then s else trim_space (collapse_blank t))"

section \<open>Markup in arguments (sanitize\_args.go)\<close>

definition dsmlSigilRe :: re where
  "dsmlSigilRe = seqs [Alt (lit ''<'') (lit_i (bs # ''u003c'')), opt (lit ''/''), pipe, lit_i ''DSML'']"

definition cut_string :: "string \<Rightarrow> string" where
  "cut_string e =
     (case find_re dsmlSigilRe e of
        Some (b, _, _) \<Rightarrow> rev (dropWhile is_ws (rev b))
      | None \<Rightarrow> e)"

fun truncateValuesAtDsml :: "json \<Rightarrow> json" where
  "truncateValuesAtDsml (JStr e) = JStr (cut_string e)"
| "truncateValuesAtDsml (JArr xs) = JArr (map truncateValuesAtDsml xs)"
| "truncateValuesAtDsml (JObj m) = JObj (map (\<lambda>(k, v). (k, truncateValuesAtDsml v)) m)"
| "truncateValuesAtDsml v = v"

text \<open>Whether the truncation changes a value below an object or array.\<close>

fun sigil_inside :: "json \<Rightarrow> bool" where
  "sigil_inside (JStr e) = match_string dsmlSigilRe e"
| "sigil_inside (JArr xs) = list_ex sigil_inside xs"
| "sigil_inside (JObj m) = list_ex (\<lambda>(k, v). sigil_inside v) m"
| "sigil_inside v = False"

definition SanitizeToolArgs :: "string \<Rightarrow> string" where
  "SanitizeToolArgs s =
     (if s = [] \<or> \<not> match_string dsmlSigilRe s then s
      else case parse_value (Suc (length s)) s of
             Some (JObj m, _) \<Rightarrow>
               if sigil_inside (JObj m) then print_plain (truncateValuesAtDsml (JObj m)) else s
           | _ \<Rightarrow> s)"

section \<open>Tool calls in text (orphan\_invoke.go)\<close>

record orphan_call =
  ocName :: string
  ocInput :: string

definition opt_sigil :: re where
  "opt_sigil = opt (seqs [sigil pipe, blanks])"

definition quoted_name :: re where
  "quoted_name = seqs [Cls (\<lambda>c. c \<in> {CHR '' '', CHR 0x09, CHR 0x0A, CHR 0x0C, CHR 0x0D}), blanks, lit_i ''name='', lit [dq],
     Grp 1 (seqs [Cls (\<lambda>c. c \<noteq> dq), Star True (Cls (\<lambda>c. c \<noteq> dq))]), lit [dq]]"

definition orphanInvokeOpenRe :: re where
  "orphanInvokeOpenRe = seqs [lit ''<'', blanks, opt_sigil, lit_i ''invoke'', quoted_name, blanks, lit ''>'']"

definition orphanInvokeCloseRe :: re where
  "orphanInvokeCloseRe = seqs [lit ''</'', blanks, opt_sigil, lit_i ''invoke'', blanks, lit ''>'']"

definition orphanParamRe :: re where
  "orphanParamRe =
     seqs [lit ''<'', blanks, opt_sigil, lit_i ''parameter'', quoted_name,
       opt (seqs [Cls (\<lambda>c. c \<in> {CHR '' '', CHR 0x09, CHR 0x0A, CHR 0x0C, CHR 0x0D}), blanks, lit_i ''string='', lit [dq],
         Grp 2 (Alt (lit_i ''true'') (lit_i ''false'')), lit [dq]]),
       blanks, lit ''>'', Grp 3 anything_lazy,
       lit ''</'', blanks, opt_sigil, lit_i ''parameter'', blanks, lit ''>'']"

definition orphanInvokeOpenerRe :: re where
  "orphanInvokeOpenerRe =
     seqs [lit ''<'', blanks, opt (lit ''/''), blanks,
       opt (seqs [pipe, blanks, lit_i ''DSML'', blanks, pipe, blanks]),
       alts (map lit_i [''invoke'', ''parameter'', ''tool_calls'', ''tool-calls''])]"

definition orphanConvertValue :: "string \<Rightarrow> string \<Rightarrow> json" where
  "orphanConvertValue raw attr =
     (if attr = ''false''
      then (case json_parse raw of Some (JStr _) \<Rightarrow> JStr raw | Some v \<Rightarrow> v | None \<Rightarrow> JStr raw)
      else JStr raw)"

text \<open>A wrapper that holds an object, or a string that decodes to one (null decodes to the empty map).\<close>

definition unwrapped :: "json option \<Rightarrow> (string \<times> json) list option" where
  "unwrapped v =
     (case v of
        Some (JObj m) \<Rightarrow> Some m
      | Some (JStr s) \<Rightarrow> (case unmarshal_map s of Some (JObj m) \<Rightarrow> Some m | Some _ \<Rightarrow> Some [] | None \<Rightarrow> None)
      | _ \<Rightarrow> None)"

definition unwrapSingleWrapper :: "(string \<times> json) list \<Rightarrow> (string \<times> json) list" where
  "unwrapSingleWrapper params =
     (case unwrapped (map_of params ''arguments'') of
        Some m \<Rightarrow> m
      | None \<Rightarrow> (case unwrapped (map_of params ''input'') of Some m \<Rightarrow> m | None \<Rightarrow> params))"

definition orphan_params :: "string \<Rightarrow> (string \<times> json) list" where
  "orphan_params inner =
     fold (\<lambda>e m. mput (group_text e 1) (orphanConvertValue (group_text e 3) (group_text e 2)) m)
       (find_all (Suc (length inner)) orphanParamRe inner) []"

definition orphanParamsToJSON :: "string \<Rightarrow> string" where
  "orphanParamsToJSON inner =
     (let params = orphan_params inner; ps = (if length params = 1 then unwrapSingleWrapper params else params)
      in if ps = [] then ''{}'' else repairToolArgs (json_print (JObj ps)))"

text \<open>The complete blocks of a text, each with the text before it, and what remains.\<close>

function invoke_blocks :: "string \<Rightarrow> (string \<times> orphan_call) list \<times> string" where
  "invoke_blocks text =
     (case find_re orphanInvokeOpenRe text of
        None \<Rightarrow> ([], text)
      | Some (before, e, t) \<Rightarrow>
          (case find_re orphanInvokeCloseRe t of
             None \<Rightarrow> ([], text)
           | Some (inner, _, rest) \<Rightarrow>
               (let (blks, r) = invoke_blocks rest
                in ((before, \<lparr>ocName = group_text e 1, ocInput = orphanParamsToJSON inner\<rparr>) # blks, r))))"
  by pat_completeness auto

lemma invoke_shorter:
  assumes "find_re orphanInvokeOpenRe s = Some (b, e, t)" "find_re orphanInvokeCloseRe t = Some (i, u, rest)"
  shows "length rest < length s"
proof -
  have "length t < length s"
    by (rule find_class_shorter) (use assms(1) in \<open>simp add: orphanInvokeOpenRe_def lit_def\<close>)
  then show ?thesis using find_re_length [OF assms(2)] by simp
qed

termination invoke_blocks
  by (relation "measure length") (auto dest: invoke_shorter)

declare invoke_blocks.simps [simp del]

definition ExtractOrphanInvokes :: "string \<Rightarrow> string \<times> orphan_call list \<times> string" where
  "ExtractOrphanInvokes text =
     (if text = [] \<or> \<not> contains text ''invoke'' \<and> \<not> contains text ''INVOKE'' \<and> \<not> contains text ''Invoke''
      then ([], [], text)
      else case invoke_blocks text of
             ([], _) \<Rightarrow> ([], [], text)
           | ((prose, c) # blks, rest) \<Rightarrow> (prose, c # map snd blks, rest))"

definition HasInvokeOpener :: "string \<Rightarrow> bool" where
  "HasInvokeOpener s = match_string orphanInvokeOpenerRe s"

section \<open>Sanitized text\<close>

lemma takeWhile_two:
  assumes "2 \<le> length (takeWhile (\<lambda>d. d = a) cs)"
  shows "\<exists>ns. cs = a # ns @ dropWhile (\<lambda>d. d = a) cs"
proof -
  obtain d ns where ns: "takeWhile (\<lambda>d. d = a) cs = d # ns" using assms by (cases "takeWhile (\<lambda>d. d = a) cs") auto
  then have "d = a" using set_takeWhileD [of d "\<lambda>d. d = a" cs] by simp
  moreover have "cs = takeWhile (\<lambda>d. d = a) cs @ dropWhile (\<lambda>d. d = a) cs" by simp
  ultimately show ?thesis using ns by (metis append_Cons)
qed

lemma collapse_subseq: "subseq (collapse_blank s) s"
proof (induction s rule: collapse_blank.induct)
  case (2 c cs)
  show ?case
  proof (cases "c = CHR 0x0A \<and> 2 \<le> length (takeWhile (\<lambda>d. d = CHR 0x0A) cs)")
    case True
    define rest where "rest = dropWhile (\<lambda>d. d = CHR 0x0A) cs"
    have "2 \<le> length (takeWhile (\<lambda>d. d = CHR 0x0A) cs)" using True by simp
    from takeWhile_two [OF this] obtain ns where cs: "cs = CHR 0x0A # ns @ rest" unfolding rest_def ..
    have "subseq (collapse_blank rest) (ns @ rest)" using 2(1) [OF True] unfolding rest_def by (rule list_emb_append2)
    then have "subseq (CHR 0x0A # CHR 0x0A # collapse_blank rest) (c # cs)" unfolding cs using True by simp
    moreover have "collapse_blank (c # cs) = CHR 0x0A # CHR 0x0A # collapse_blank rest" using True by (simp add: rest_def)
    ultimately show ?thesis by simp
  next
    case False
    then show ?thesis using 2(2) by auto
  qed
qed simp

lemma strip_each_subseq: "subseq (strip_each rs s) s"
proof (induction rs arbitrary: s)
  case (Cons r rs)
  then show ?case using strip_all_subseq(1) subseq_order.trans by (fastforce simp: strip_each_def)
qed (simp add: strip_each_def)

lemma trim_subseq: "subseq (trim_space s) s"
proof -
  have "prefix (rev (dropWhile is_space (rev t))) t" for t
    using suffix_dropWhile [of is_space "rev t"] by (simp add: suffix_to_prefix)
  then show ?thesis unfolding trim_space_def
    using prefix_imp_subseq suffix_imp_subseq [OF suffix_dropWhile] subseq_order.trans by blast
qed

text \<open>
  Sanitizing text never invents or reorders anything: the result is a subsequence of the text.
\<close>

theorem sanitize_only_deletes: "subseq (SanitizeAssistantText s) s"
proof -
  have "subseq (strip_scaffold s) s"
    unfolding strip_scaffold_def using strip_all_subseq(2) strip_each_subseq subseq_order.trans by blast
  moreover have "subseq (trim_space (collapse_blank t)) t" for t
    using trim_subseq collapse_subseq subseq_order.trans by blast
  ultimately show ?thesis unfolding SanitizeAssistantText_def Let_def using subseq_order.trans by auto
qed

text \<open>
  Sanitizing is not idempotent: a tag cut by another tag is put together by the deletion, and only a second
  pass would remove it.
\<close>

theorem sanitize_not_idempotent:
  "SanitizeAssistantText ''<pl<plan>an>'' = ''<plan>'' \<and> SanitizeAssistantText ''<plan>'' = []"
  by code_simp

section \<open>Recovered calls\<close>

lemma wf_convert_value: "wf_json (orphanConvertValue raw attr)"
proof (cases "json_parse raw")
  case (Some v)
  then have "wf_json v" by (rule json_parse_wf)
  with Some show ?thesis by (cases v) (simp_all add: orphanConvertValue_def)
qed (simp add: orphanConvertValue_def)

lemma wf_put_all: "wf_json (JObj m) \<Longrightarrow>
    wf_json (JObj (fold (\<lambda>e m. mput (group_text e 1) (orphanConvertValue (group_text e 3) (group_text e 2)) m) es m))"
proof (induction es arbitrary: m)
  case (Cons e es)
  then show ?case using wf_json_mput [OF wf_convert_value Cons.prems] by (simp del: wf_json.simps)
qed simp

lemma wf_orphan_params: "wf_json (JObj (orphan_params inner))"
  unfolding orphan_params_def by (rule wf_put_all) (simp add: wf_map_def)

lemma wf_unwrapped: "unwrapped v = Some m \<Longrightarrow> (\<And>w. v = Some w \<Longrightarrow> wf_json w) \<Longrightarrow> wf_json (JObj m)"
  by (auto simp: unwrapped_def wf_map_def simp del: wf_json.simps(3) split: option.splits json.splits dest: unmarshal_map_wf)
     (auto)

lemma wf_unwrap:
  assumes "wf_json (JObj ps)"
  shows "wf_json (JObj (unwrapSingleWrapper ps))"
proof -
  have "wf_json (JObj m)" if "unwrapped (map_of ps k) = Some m" for k m
    using wf_unwrapped [OF that] wf_json_jget [OF assms, of k] by simp
  then show ?thesis using assms by (simp add: unwrapSingleWrapper_def del: wf_json.simps split: option.split)
qed

text \<open>
  The arguments of a tool call recovered from a DSML block are always a JSON object.
\<close>

theorem orphan_arguments_object: "\<exists>m. json_parse (orphanParamsToJSON inner) = Some (JObj m)"
proof -
  define ps where "ps = (if length (orphan_params inner) = 1 then unwrapSingleWrapper (orphan_params inner) else orphan_params inner)"
  have w: "wf_json (JObj ps)" using wf_orphan_params wf_unwrap by (simp add: ps_def del: wf_json.simps)
  have e: "json_parse ''{}'' = Some (JObj [])" by code_simp
  have "orphanParamsToJSON inner = (if ps = [] then ''{}'' else repairToolArgs (json_print (JObj ps)))"
    by (simp add: orphanParamsToJSON_def Let_def ps_def)
  also have "\<dots> = (if ps = [] then ''{}'' else json_print (JObj ps))" using repair_object [OF w] by simp
  finally show ?thesis using e json_parse_print [OF w] by auto
qed

lemma blocks_rest: "invoke_blocks tx = (blks, rest) \<Longrightarrow> invoke_blocks rest = ([], rest) \<and> suffix rest tx"
proof (induction tx arbitrary: blks rest rule: invoke_blocks.induct)
  case (1 tx)
  show ?case
  proof (cases "find_re orphanInvokeOpenRe tx")
    case None
    then show ?thesis using "1.prems" by (simp add: invoke_blocks.simps)
  next
    case (Some x)
    obtain b e t where x: "x = (b, e, t)" by (cases x)
    show ?thesis
    proof (cases "find_re orphanInvokeCloseRe t")
      case None
      then show ?thesis using "1.prems" Some x by (simp add: invoke_blocks.simps)
    next
      case c: (Some y)
      obtain i u r where y: "y = (i, u, r)" by (cases y)
      obtain bl r' where r: "invoke_blocks r = (bl, r')" by fastforce
      have "rest = r'" using "1.prems" Some x c y r by (simp add: invoke_blocks.simps [of tx])
      moreover have "invoke_blocks r' = ([], r') \<and> suffix r' r"
        using "1.IH" [OF Some x [symmetric] refl c y [symmetric] refl r] .
      moreover have "suffix r tx"
        using find_re_split [of _ tx b e t] find_re_split [of _ t i u r] Some x c y by (fastforce simp: suffix_def)
      ultimately show ?thesis using suffix_order.trans by blast
    qed
  qed
qed

text \<open>
  One extraction takes every complete block: what it leaves has none, and is shorter than the text whenever a
  call was found.
\<close>

theorem extract_is_complete:
  "case ExtractOrphanInvokes tx of
     (prose, calls, rest) \<Rightarrow> fst (snd (ExtractOrphanInvokes rest)) = [] \<and> suffix rest tx"
proof -
  obtain blks r where r: "invoke_blocks tx = (blks, r)" by fastforce
  show ?thesis using blocks_rest [OF r] r
    by (cases blks) (auto simp: ExtractOrphanInvokes_def split: prod.splits)
qed

lemma extract_shorter:
  assumes "ExtractOrphanInvokes tx = (prose, calls, rest)" "calls \<noteq> []"
  shows "length rest < length tx"
proof -
  obtain blks r where r: "invoke_blocks tx = (blks, r)" by fastforce
  from assms have "blks \<noteq> []" "rest = r" using r
    by (auto simp: ExtractOrphanInvokes_def split: if_splits list.splits prod.splits)
  with r show ?thesis
    by (auto simp: invoke_blocks.simps [of tx] split: option.splits prod.splits)
      (meson blocks_rest invoke_shorter le_less_trans suffix_length_le)
qed

section \<open>Specifications\<close>

definition is_sigil :: "string \<Rightarrow> bool" where
  "is_sigil w =
     (\<exists>b sl p d. w = b @ sl @ p @ d \<and> (b = ''<'' \<or> map lower_char b = bs # ''u003c'') \<and> (sl = ''/'' \<or> sl = []) \<and>
        (p = ''|'' \<or> p = wide_pipe) \<and> map lower_char d = ''dsml'')"

definition has_sigil :: "string \<Rightarrow> bool" where
  "has_sigil s = (\<exists>a w t. s = a @ w @ t \<and> is_sigil w)"

definition plain_char :: "char \<Rightarrow> bool" where
  "plain_char c = (esc_char c = [c] \<and> c \<noteq> CHR 0xE2)"

definition leaked_args :: string where
  "leaked_args = json_print (JObj [(''path'', JStr ''/tmp</|DSML|>x'')])"

section \<open>Sanitized arguments\<close>

lemma seqs_Cons: "matches (seqs (r # rs)) e s = concat (map (\<lambda>(e', s'). matches (seqs rs) e' s') (matches r e s))"
proof (cases rs)
  case Nil
  have "concat (map (\<lambda>(e', s'). [(e', s')]) xs) = xs" for xs :: "(caps \<times> string) list" by (induction xs) auto
  then show ?thesis using Nil by simp
qed simp

lemma matches_lit: "matches (lit w) e s = (if prefix w s then [(e, drop (length w) s)] else [])"
proof (induction w arbitrary: s)
  case Nil
  then show ?case by (simp add: lit_def)
next
  case (Cons c w)
  have "lit (c # w) = seqs (Cls (\<lambda>d. d = c) # map (\<lambda>c. Cls (\<lambda>d. d = c)) w)" by (simp add: lit_def)
  then have "matches (lit (c # w)) e s = concat (map (\<lambda>(e', s'). matches (lit w) e' s') (matches (Cls (\<lambda>d. d = c)) e s))"
    by (simp only: seqs_Cons lit_def)
  then show ?case using Cons by (cases s) auto
qed

lemma matches_lit_i:
  "matches (lit_i w) e s = (if map lower_char w = map lower_char (take (length w) s) then [(e, drop (length w) s)] else [])"
proof (induction w arbitrary: s)
  case Nil
  then show ?case by (simp add: lit_i_def)
next
  case (Cons c w)
  have "lit_i (c # w) = seqs (Cls (\<lambda>d. lower_char d = lower_char c) # map (\<lambda>c. Cls (\<lambda>d. lower_char d = lower_char c)) w)"
    by (simp add: lit_i_def)
  then have "matches (lit_i (c # w)) e s =
      concat (map (\<lambda>(e', s'). matches (lit_i w) e' s') (matches (Cls (\<lambda>d. lower_char d = lower_char c)) e s))"
    by (simp only: seqs_Cons lit_i_def)
  then show ?case using Cons by (cases s) auto
qed

lemma matches_Cat: "x \<in> set (matches (Cat a b) e s) \<longleftrightarrow> (\<exists>e1 s1. (e1, s1) \<in> set (matches a e s) \<and> x \<in> set (matches b e1 s1))"
  by auto

lemma lower_DSML: "map lower_char ''DSML'' = ''dsml''" "map lower_char (bs # ''u003c'') = bs # ''u003c''"
  by code_simp+

lemma matches_u003c:
  "matches (lit_i (bs # ''u003c'')) e s = (if map lower_char (take 6 s) = bs # ''u003c'' then [(e, drop 6 s)] else [])"
  "matches (lit_i ''DSML'') e s = (if map lower_char (take 4 s) = ''dsml'' then [(e, drop 4 s)] else [])"
proof -
  have "length (bs # ''u003c'') = 6" "length ''DSML'' = 4" by simp_all
  then show "matches (lit_i (bs # ''u003c'')) e s = (if map lower_char (take 6 s) = bs # ''u003c'' then [(e, drop 6 s)] else [])"
    "matches (lit_i ''DSML'') e s = (if map lower_char (take 4 s) = ''dsml'' then [(e, drop 4 s)] else [])"
    unfolding matches_lit_i lower_DSML by metis+
qed

lemma is_sigilE:
  assumes "is_sigil w"
  obtains b sl p d where "w = b @ sl @ p @ d" "b = ''<'' \<or> map lower_char b = bs # ''u003c''" "sl = ''/'' \<or> sl = []"
    "p = ''|'' \<or> p = wide_pipe" "map lower_char d = ''dsml''"
  using assms unfolding is_sigil_def by (elim exE conjE)

lemma sigil_matches: "is_sigil w \<Longrightarrow> matches dsmlSigilRe [] (w @ t) \<noteq> []"
proof -
  assume "is_sigil w"
  then obtain b sl p d where w: "w = b @ sl @ p @ d" "b = ''<'' \<or> map lower_char b = bs # ''u003c''" "sl = ''/'' \<or> sl = []"
    "p = ''|'' \<or> p = wide_pipe" "map lower_char d = ''dsml''" by (rule is_sigilE)
  have lb: "length b = 6" if "map lower_char b = bs # ''u003c''" using arg_cong [OF that, of length] by simp
  have ld: "length d = 4" using arg_cong [OF w(5), of length] by simp
  have 1: "([], sl @ p @ d @ t) \<in> set (matches (Alt (lit ''<'') (lit_i (bs # ''u003c''))) [] (w @ t))"
    using w(2)
  proof
    assume "b = ''<''"
    then show ?thesis by (simp add: w(1) matches_lit)
  next
    assume "map lower_char b = bs # ''u003c''"
    then show ?thesis using lb by (simp add: w(1) matches_u003c)
  qed
  have 2: "([], p @ d @ t) \<in> set (matches (opt (lit ''/'')) [] (sl @ p @ d @ t))"
    using w(3) by (auto simp: opt_def matches_lit)
  have 3: "([], d @ t) \<in> set (matches pipe [] (p @ d @ t))"
    using w(4) by (auto simp: pipe_def matches_lit wide_pipe_def)
  have 4: "([], t) \<in> set (matches (lit_i ''DSML'') [] (d @ t))"
    using w(5) ld by (simp add: matches_u003c)
  have "([], t) \<in> set (matches dsmlSigilRe [] (w @ t))"
    unfolding dsmlSigilRe_def seqs.simps matches_Cat using 1 2 3 4 by blast
  then show ?thesis by auto
qed

lemma set_if_one: "x \<in> set (if P then [y] else []) \<longleftrightarrow> P \<and> x = y"
  by (cases P) auto

lemma matches_sigil:
  assumes "(e, t) \<in> set (matches dsmlSigilRe e0 s)"
  shows "\<exists>w. s = w @ t \<and> is_sigil w"
proof -
  from assms obtain s1 s2 s3 e1 e2 e3 where
    1: "(e1, s1) \<in> set (matches (Alt (lit ''<'') (lit_i (bs # ''u003c''))) e0 s)" and
    2: "(e2, s2) \<in> set (matches (opt (lit ''/'')) e1 s1)" and
    3: "(e3, s3) \<in> set (matches pipe e2 s2)" and
    4: "(e, t) \<in> set (matches (lit_i ''DSML'') e3 s3)"
    unfolding dsmlSigilRe_def seqs.simps matches_Cat by blast
  have "\<exists>b. s = b @ s1 \<and> (b = ''<'' \<or> map lower_char b = bs # ''u003c'')"
    using 1 unfolding matches.simps(4) set_append Un_iff matches_lit matches_u003c set_if_one
  proof (elim disjE conjE)
    assume "prefix ''<'' s" "(e1, s1) = (e0, drop (length ''<'') s)"
    then show ?thesis by (auto simp: prefix_def)
  next
    assume m: "map lower_char (take 6 s) = bs # ''u003c''" "(e1, s1) = (e0, drop 6 s)"
    have "s = take 6 s @ s1" using m(2) by (simp only: prod.inject append_take_drop_id)
    then show ?thesis using m(1) by (intro exI conjI disjI2)
  qed
  then obtain b where b: "s = b @ s1" "b = ''<'' \<or> map lower_char b = bs # ''u003c''" by (elim exE conjE)
  have "\<exists>sl. s1 = sl @ s2 \<and> (sl = ''/'' \<or> sl = [])"
    using 2 by (auto simp: opt_def matches_lit prefix_def split: if_splits)
  then obtain sl where sl: "s1 = sl @ s2" "sl = ''/'' \<or> sl = []" by blast
  have "\<exists>p. s2 = p @ s3 \<and> (p = ''|'' \<or> p = wide_pipe)"
    using 3 by (auto simp: pipe_def matches_lit prefix_def split: if_splits)
  then obtain p where p: "s2 = p @ s3" "p = ''|'' \<or> p = wide_pipe" by blast
  have "map lower_char (take 4 s3) = ''dsml''" "s3 = take 4 s3 @ t"
    using 4 unfolding matches_u003c set_if_one by (simp_all only: prod.inject append_take_drop_id)
  then show ?thesis
    using b sl p unfolding is_sigil_def by (intro exI [of _ "b @ sl @ p @ take 4 s3"]) (metis append.assoc)
qed

lemma find_re_leftmost:
  "find_re r s = Some (b, e, t) \<Longrightarrow>
   \<exists>u. s = b @ u \<and> (e, t) \<in> set (matches r [] u) \<and> (\<forall>a c. b = a @ c \<and> c \<noteq> [] \<longrightarrow> matches r [] (c @ u) = [])"
proof (induction s arbitrary: b)
  case Nil
  then show ?case by (auto split: list.splits)
next
  case (Cons x xs)
  show ?case
  proof (cases "matches r [] (x # xs)")
    case Nil
    then obtain b' where b: "find_re r xs = Some (b', e, t)" "b = x # b'" using Cons.prems by auto
    then obtain u where u: "xs = b' @ u" "(e, t) \<in> set (matches r [] u)"
      "\<forall>a c. b' = a @ c \<and> c \<noteq> [] \<longrightarrow> matches r [] (c @ u) = []" using Cons.IH by blast
    have "matches r [] (c @ u) = []" if "b = a @ c" "c \<noteq> []" for a c
    proof (cases a)
      case Nil
      then have "c @ u = x # xs" using that b(2) u(1) by simp
      then show ?thesis using \<open>matches r [] (x # xs) = []\<close> by simp
    next
      case (Cons y ys)
      then show ?thesis using that b u(3) by auto
    qed
    then show ?thesis using u b by auto
  next
    case m: (Cons y ys)
    then show ?thesis using Cons.prems by (auto split: prod.splits)
  qed
qed

lemma find_re_None: "find_re r (a @ u) = None \<Longrightarrow> matches r [] u = []"
proof (induction a)
  case Nil
  then show ?case by (cases u) (auto split: list.splits)
qed (auto split: list.splits)

lemma match_sigil: "match_string dsmlSigilRe s \<longleftrightarrow> has_sigil s"
proof
  assume "match_string dsmlSigilRe s"
  then obtain b e t where "find_re dsmlSigilRe s = Some (b, e, t)" by (auto simp: match_string_def)
  then obtain u where "s = b @ u" "(e, t) \<in> set (matches dsmlSigilRe [] u)" using find_re_leftmost by blast
  then show "has_sigil s" using matches_sigil unfolding has_sigil_def by blast
next
  assume "has_sigil s"
  then show "match_string dsmlSigilRe s"
    using sigil_matches find_re_None unfolding has_sigil_def match_string_def by blast
qed

lemma cut_clean: "\<not> has_sigil (cut_string s)"
proof (cases "find_re dsmlSigilRe s")
  case None
  then show ?thesis using match_sigil [of s] by (simp add: cut_string_def match_string_def)
next
  case (Some x)
  obtain b e t where x: "x = (b, e, t)" by (cases x)
  with Some obtain u where u: "\<forall>a c. b = a @ c \<and> c \<noteq> [] \<longrightarrow> matches dsmlSigilRe [] (c @ u) = []"
    using find_re_leftmost by blast
  have "\<not> has_sigil b"
  proof
    assume "has_sigil b"
    then obtain a w r where w: "b = a @ w @ r" "is_sigil w" by (auto simp: has_sigil_def)
    have "w \<noteq> []" using w(2) by (auto simp: is_sigil_def)
    then have "matches dsmlSigilRe [] ((w @ r) @ u) = []" using u w(1) by blast
    then show False using sigil_matches [OF w(2), of "r @ u"] by simp
  qed
  moreover have "prefix (rev (dropWhile is_ws (rev b))) b"
    using suffix_dropWhile [of is_ws "rev b"] by (simp add: suffix_to_prefix)
  ultimately show ?thesis using Some x by (auto simp: cut_string_def has_sigil_def prefix_def) (metis append.assoc)
qed

section \<open>Sigils in encoded text\<close>

lemma has_sigil_app: "has_sigil s \<Longrightarrow> has_sigil (x @ s @ y)"
  unfolding has_sigil_def by (metis append.assoc)

lemma has_sigil_left: "has_sigil s \<Longrightarrow> has_sigil (s @ y)"
  using has_sigil_app [of s "[]" y] by simp

lemma has_sigil_right: "has_sigil s \<Longrightarrow> has_sigil (x @ s)"
  using has_sigil_app [of s x "[]"] by simp

lemma has_sigil_Cons: "has_sigil s \<Longrightarrow> has_sigil (c # s)"
  using has_sigil_right [of s "[c]"] by simp

lemma has_sigil_join: "x \<in> set xs \<Longrightarrow> has_sigil x \<Longrightarrow> has_sigil (join sep xs)"
proof (induction xs)
  case (Cons y ys)
  then show ?case
    by (cases "x = y"; cases "ys = []") (auto simp: join_Cons intro: has_sigil_left has_sigil_right)
qed simp

lemma esc_str_plain: "list_all plain_char w \<Longrightarrow> esc_str (w @ t) = w @ esc_str t"
  by (induction w) (auto simp: plain_char_def)

lemma lower_plain: "lower_char c \<in> set ''dsmlu03c'' \<Longrightarrow> plain_char c"
proof -
  have "\<forall>c. lower_char c \<in> set ''dsmlu03c'' \<longrightarrow> plain_char c" by code_simp
  then show "lower_char c \<in> set ''dsmlu03c'' \<Longrightarrow> plain_char c" by blast
qed

lemma esc_split: "of_char c < (128 :: nat) \<Longrightarrow> esc_str (a @ c # r) = esc_str a @ esc_str (c # r)"
proof (induction a rule: esc_str.induct)
  case (2 x xs)
  have n: "c \<noteq> CHR 0x80" "c \<noteq> CHR 0xA8" "c \<noteq> CHR 0xA9" using 2(4) by auto
  consider (long) "2 \<le> length xs" | (none) "xs = []" | (one) y where "xs = [y]"
    by (cases xs; cases "tl xs") (auto simp: Suc_le_eq)
  then have t: "(take 2 (xs @ c # r) = [CHR 0x80, y]) = (take 2 xs = [CHR 0x80, y])" if "y = CHR 0xA8 \<or> y = CHR 0xA9" for y
    using n that by cases auto
  have len: "2 \<le> length xs" if "take 2 xs = [y, z]" for y z using arg_cong [OF that, of length] by simp
  consider (a) "x = CHR 0xE2" "take 2 xs = [CHR 0x80, CHR 0xA8]"
    | (b) "x = CHR 0xE2" "take 2 xs = [CHR 0x80, CHR 0xA9]"
    | (z) "\<not> (x = CHR 0xE2 \<and> take 2 xs = [CHR 0x80, CHR 0xA8])" "\<not> (x = CHR 0xE2 \<and> take 2 xs = [CHR 0x80, CHR 0xA9])"
    by blast
  then show ?case
  proof cases
    case a
    then have "drop 2 (xs @ c # r) = drop 2 xs @ c # r" using len by simp
    then show ?thesis using a 2(1) 2(4) t by (simp del: drop_append take_append)
  next
    case b
    then have "drop 2 (xs @ c # r) = drop 2 xs @ c # r" using len by simp
    then show ?thesis using b 2(2) 2(4) t by (simp del: drop_append take_append)
  next
    case z
    have "\<not> (x = CHR 0xE2 \<and> take 2 (xs @ c # r) = [CHR 0x80, CHR 0xA8])"
      "\<not> (x = CHR 0xE2 \<and> take 2 (xs @ c # r) = [CHR 0x80, CHR 0xA9])" using z t by blast+
    then have "esc_str (x # (xs @ c # r)) = esc_char x @ esc_str (xs @ c # r)" by (simp only: esc_str.simps if_False)
    moreover have "esc_str (x # xs) = esc_char x @ esc_str xs" using z by (simp only: esc_str.simps if_False)
    ultimately show ?thesis using 2(3) [OF z 2(4)] by (simp only: append_Cons append.assoc)
  qed
qed simp

lemma lower_in:
  assumes "map lower_char w = v" "set v \<subseteq> set ''dsmlu03c''"
  shows "list_all plain_char w"
proof -
  have "plain_char c" if "c \<in> set w" for c
  proof -
    have "lower_char c \<in> set v" using that assms(1) by (metis image_eqI list.set_map)
    then show ?thesis by (intro lower_plain subsetD [OF assms(2)])
  qed
  then show ?thesis by (simp add: list_all_iff)
qed

lemma sigil_tail:
  assumes "sl = ''/'' \<or> sl = []" "p = ''|'' \<or> p = wide_pipe" "map lower_char d = ''dsml''"
  shows "list_all plain_char (sl @ p @ d)"
proof -
  have "list_all plain_char d" using assms(3) by (rule lower_in) simp
  moreover have "list_all plain_char sl" "list_all plain_char p"
    using assms(1,2) by (auto simp: plain_char_def esc_char_def wide_pipe_def)
  ultimately show ?thesis by simp
qed

lemma is_sigilI:
  "b = ''<'' \<or> map lower_char b = bs # ''u003c'' \<Longrightarrow> sl = ''/'' \<or> sl = [] \<Longrightarrow> p = ''|'' \<or> p = wide_pipe \<Longrightarrow>
   map lower_char d = ''dsml'' \<Longrightarrow> is_sigil (b @ sl @ p @ d)"
  unfolding is_sigil_def by (intro exI conjI) (rule refl)

lemma has_sigilI: "is_sigil w \<Longrightarrow> has_sigil (x @ w @ y)"
  unfolding has_sigil_def by (intro exI conjI) (rule refl)

lemma sigil_in_esc: "has_sigil s \<Longrightarrow> has_sigil (esc_str s)"
proof -
  assume "has_sigil s"
  then obtain a w t where s: "s = a @ w @ t" "is_sigil w" by (auto simp: has_sigil_def)
  obtain b sl p d where w: "w = b @ sl @ p @ d" "b = ''<'' \<or> map lower_char b = bs # ''u003c''" "sl = ''/'' \<or> sl = []"
    "p = ''|'' \<or> p = wide_pipe" "map lower_char d = ''dsml''" using s(2) by (rule is_sigilE)
  have tail: "esc_str (sl @ p @ d @ t) = sl @ p @ d @ esc_str t"
    using esc_str_plain [OF sigil_tail [OF w(3-5)], of t] by simp
  show ?thesis
    using w(2)
  proof
    assume b: "b = ''<''"
    have "esc_str s = esc_str a @ esc_str (CHR ''<'' # sl @ p @ d @ t)" unfolding s(1) w(1) b using esc_split by simp
    also have "esc_str (CHR ''<'' # sl @ p @ d @ t) = (bs # ''u003c'') @ sl @ p @ d @ esc_str t"
    proof -
      have "esc_char (CHR ''<'') = bs # ''u003c''" by code_simp
      moreover have "esc_str (CHR ''<'' # r) = esc_char (CHR ''<'') @ esc_str r" for r by simp
      ultimately show ?thesis by (simp only: tail)
    qed
    finally have e: "esc_str s = esc_str a @ ((bs # ''u003c'') @ sl @ p @ d) @ esc_str t" by simp
    have "is_sigil ((bs # ''u003c'') @ sl @ p @ d)" by (rule is_sigilI [OF disjI2 [OF lower_DSML(2)] w(3-5)])
    then show ?thesis unfolding e by (rule has_sigilI)
  next
    assume b: "map lower_char b = bs # ''u003c''"
    then obtain x u where x: "b = x # u" "lower_char x = bs" "map lower_char u = ''u003c''" by (cases b) auto
    have "x = bs"
    proof -
      have "\<forall>c. lower_char c = bs \<longrightarrow> c = bs" by code_simp
      then show ?thesis using x(2) by blast
    qed
    have "list_all plain_char u" using x(3) by (rule lower_in) simp
    then have u: "esc_str (u @ sl @ p @ d @ t) = u @ sl @ p @ d @ esc_str t" using esc_str_plain tail by simp
    have "esc_str s = esc_str a @ esc_str (bs # u @ sl @ p @ d @ t)" unfolding s(1) w(1) x(1) \<open>x = bs\<close> using esc_split by simp
    also have "esc_str (bs # u @ sl @ p @ d @ t) = [bs] @ (bs # u) @ sl @ p @ d @ esc_str t"
      using u by (simp add: esc_char_def)
    finally have e: "esc_str s = (esc_str a @ [bs]) @ ((bs # u) @ sl @ p @ d) @ esc_str t" by simp
    have "map lower_char (bs # u) = bs # ''u003c''" using b x(1) \<open>x = bs\<close> by simp
    then have "is_sigil ((bs # u) @ sl @ p @ d)" by (intro is_sigilI disjI2 w(3-5))
    then show ?thesis unfolding e by (rule has_sigilI)
  qed
qed

lemma sigil_in_print: "sigil_inside v \<Longrightarrow> has_sigil (print_raw v)"
proof (induction v)
  case (JStr s)
  then show ?case using match_sigil sigil_in_esc by (auto simp: print_str_def intro: has_sigil_Cons has_sigil_left)
next
  case (JArr xs)
  then obtain x where "x \<in> set xs" "has_sigil (print_raw x)" by (auto simp: list_ex_iff)
  then have "has_sigil (join '','' (map print_raw xs))" by (intro has_sigil_join [of "print_raw x"]) auto
  then show ?case by (auto intro: has_sigil_Cons has_sigil_left)
next
  case (JObj m)
  then obtain k v where v: "(k, v) \<in> set m" "has_sigil (print_raw v)" by (fastforce simp: list_ex_iff)
  let ?f = "\<lambda>(k, v). print_str k @ CHR '':'' # print_raw v"
  have "has_sigil (?f (k, v))" using v(2) by (auto intro: has_sigil_Cons has_sigil_right)
  then have "has_sigil (join '','' (map ?f m))" using v(1) by (intro has_sigil_join [of "?f (k, v)"]) force+
  then show ?case by (auto intro: has_sigil_Cons has_sigil_left)
qed simp_all

lemma truncate_clean: "\<not> sigil_inside (truncateValuesAtDsml v)"
proof (induction v)
  case (JStr s)
  then show ?case using cut_clean match_sigil by simp
qed (auto simp: list_ex_iff)

lemma sigil_canon: "sigil_inside (canon v) = sigil_inside v"
proof (induction v)
  case (JObj m)
  then have "sigil_inside (canon b) = sigil_inside b" if "(a, b) \<in> set m" for a b using that by simp
  then show ?case by (force simp: list_ex_iff)
qed (auto simp: list_ex_iff)

lemma wf_truncate: "wf_json v \<Longrightarrow> wf_json (truncateValuesAtDsml v)"
proof (induction v)
  case (JObj m)
  then have "wf_json (truncateValuesAtDsml b)" if "(a, b) \<in> set m" for a b using that by fastforce
  with JObj show ?case by (auto simp: wf_map_map_canon)
qed auto

lemma sanitize_printed:
  assumes "wf_json v"
  shows "\<exists>w. json_parse (SanitizeToolArgs (json_print v)) = Some w \<and> is_obj w = is_obj v \<and> (is_obj w \<longrightarrow> \<not> sigil_inside w)"
proof -
  have same: "json_parse (json_print v) = Some (canon v)" using assms by (rule json_parse_print)
  have wc: "wf_json (canon v)" using assms by (rule wf_json_canon)
  have dec: "parse_value (Suc (length (json_print v))) (json_print v) = Some (canon v, [])"
    using html.decode_back [OF wc] by (simp add: json_print_def print_raw_html)
  have obj: "is_obj (canon v) = is_obj v" by (cases v) auto
  have clean: "\<not> sigil_inside (canon v)" if "\<not> match_string dsmlSigilRe (json_print v)"
    using that sigil_in_print [of "canon v"] match_sigil by (auto simp: json_print_def)
  show ?thesis
  proof (cases "match_string dsmlSigilRe (json_print v) \<and> is_obj v \<and> sigil_inside (canon v)")
    case True
    then obtain m where m: "canon v = JObj m" by (cases v) auto
    let ?t = "truncateValuesAtDsml (JObj m)"
    have "SanitizeToolArgs (json_print v) = print_plain ?t"
      using True m dec json_print_not_Nil [OF assms] by (simp add: SanitizeToolArgs_def del: parse_value.simps truncateValuesAtDsml.simps)
    moreover have "json_parse (print_plain ?t) = Some (canon ?t)"
      using wf_truncate wc m by (metis json_parse_print_plain)
    moreover have "\<not> sigil_inside (canon ?t)" using truncate_clean sigil_canon by blast
    ultimately show ?thesis using True by auto
  next
    case False
    then have "SanitizeToolArgs (json_print v) = json_print v"
      using dec obj by (cases "canon v") (auto simp: SanitizeToolArgs_def simp del: parse_value.simps)
    then show ?thesis using same obj clean False by auto
  qed
qed

lemma ensure_printed: "wf_json v \<Longrightarrow> \<exists>v'. wf_json v' \<and> ensureObjectJSON v = json_print v'"
proof -
  assume w: "wf_json v"
  have e: "''{}'' = json_print (JObj [])" "wf_json (JObj [])" by (code_simp, simp add: wf_map_def)
  consider (obj) "is_obj v" | (str) t u where "v = JStr t" "json_parse t = Some u" | (other) "ensureObjectJSON v = ''{}''"
  proof (cases v)
    case (JStr t)
    then show ?thesis using that by (cases "json_parse t") (auto simp: ensureObjectJSON_def)
  qed (use that in \<open>auto simp: ensureObjectJSON_def\<close>)
  then show ?thesis
  proof cases
    case obj
    then have "ensureObjectJSON v = json_print v" by (cases v) (auto simp: ensureObjectJSON_def)
    with w show ?thesis by blast
  next
    case str
    then show ?thesis using json_parse_wf [OF str(2)] by (intro exI [of _ u]) (simp add: ensureObjectJSON_def)
  next
    case other
    with e show ?thesis by metis
  qed
qed

lemma repair_printed: "\<exists>v. wf_json v \<and> repairToolArgs s = json_print v"
proof (cases "decoded s")
  case None
  have "''{}'' = json_print (JObj [])" "wf_json (JObj [])" by (code_simp, simp add: wf_map_def)
  then show ?thesis using None by (metis option.simps(4) repair_decoded)
next
  case (Some v)
  then show ?thesis using ensure_printed [OF decoded_wf [OF Some]] by (simp add: repair_decoded)
qed



end
