(* ===== verification/Claude_Stream.thy ===== *)
theory Claude_Stream
  imports Claude_Sanitize
begin

text \<open>
  The translation of an OpenAI stream into a Claude stream (internal/translate/claude/stream.go): chunks are
  decoded documents, events are pairs of a name and a document. A handler maps the state to the events it
  emits and the new state. The random source is the function \<open>rnd\<close>, read at the position kept in the state.
\<close>

section \<open>State\<close>

type_synonym sse = "string \<times> json"

datatype fragment = TextFragment string | ReasoningFragment string

record tool_info =
  tiID :: string
  tiName :: string
  tiIndex :: nat

record usage_info =
  inputTokens :: int
  outputTokens :: int
  cacheReadTokens :: int
  cacheCreateTokens :: int

record stream_state =
  messageStartSent :: bool
  messageID :: string
  nextBlockIdx :: nat
  textOpen :: bool
  textBlockIdx :: nat
  thinkingOpen :: bool
  thinkingIdx :: nat
  toolCalls :: "(int, tool_info) gomap"
  toolArgBufs :: "(int, string) gomap"
  openToolBlocks :: "nat list"
  pendingContent :: "fragment list"
  holdBuf :: string
  orphanRecovered :: bool
  nativeToolSeen :: bool
  streamUsage :: "usage_info option"
  finishReason :: string
  finishSent :: bool
  streamClosed :: bool
  outputContent :: string
  seenIDs :: "(string, nat) gomap"
  drawn :: nat

type_synonym handler = "stream_state \<Rightarrow> sse list \<times> stream_state"

definition orphanHoldTail :: nat where
  "orphanHoldTail = 128"

definition orphanHoldMax :: nat where
  "orphanHoldMax = 32 * 1024"

definition NewStreamState :: "(nat \<Rightarrow> string) \<Rightarrow> stream_state" where
  "NewStreamState rnd =
     \<lparr>messageStartSent = False, messageID = ''msg_'' @ rnd 0, nextBlockIdx = 0, textOpen = False, textBlockIdx = 0,
      thinkingOpen = False, thinkingIdx = 0, toolCalls = [], toolArgBufs = [], openToolBlocks = [], pendingContent = [],
      holdBuf = [], orphanRecovered = False, nativeToolSeen = False, streamUsage = None, finishReason = [],
      finishSent = False, streamClosed = False, outputContent = [], seenIDs = [], drawn = 1\<rparr>"

text \<open>Handlers in sequence, conditionally, and over a list.\<close>

definition emit :: "sse list \<Rightarrow> handler" where
  "emit es s = (es, s)"

definition update :: "(stream_state \<Rightarrow> stream_state) \<Rightarrow> handler" where
  "update f s = ([], f s)"

definition andThen :: "handler \<Rightarrow> handler \<Rightarrow> handler" where
  "andThen f g s = (let (es, s1) = f s; (es', s2) = g s1 in (es @ es', s2))"

definition whenever :: "(stream_state \<Rightarrow> bool) \<Rightarrow> handler \<Rightarrow> handler" where
  "whenever P f s = (if P s then f s else ([], s))"

fun forEach :: "('a \<Rightarrow> handler) \<Rightarrow> 'a list \<Rightarrow> handler" where
  "forEach f [] = emit []"
| "forEach f (x # xs) = andThen (f x) (forEach f xs)"

section \<open>Events\<close>

definition contentBlockStop :: "nat \<Rightarrow> sse" where
  "contentBlockStop i = (''content_block_stop'', JObj [(''type'', JStr ''content_block_stop''), (''index'', JNum (of_nat i))])"

definition block_start :: "nat \<Rightarrow> json \<Rightarrow> sse" where
  "block_start i block =
     (''content_block_start'', JObj [(''type'', JStr ''content_block_start''), (''index'', JNum (of_nat i)), (''content_block'', block)])"

definition block_delta :: "nat \<Rightarrow> json \<Rightarrow> sse" where
  "block_delta i d =
     (''content_block_delta'', JObj [(''type'', JStr ''content_block_delta''), (''index'', JNum (of_nat i)), (''delta'', d)])"

definition usage_json :: "usage_info \<Rightarrow> json" where
  "usage_json u =
     JObj ([(''input_tokens'', JNum (of_int (inputTokens u))), (''output_tokens'', JNum (of_int (outputTokens u)))] @
       (if cacheReadTokens u = 0 then [] else [(''cache_read_input_tokens'', JNum (of_int (cacheReadTokens u)))]) @
       (if cacheCreateTokens u = 0 then [] else [(''cache_creation_input_tokens'', JNum (of_int (cacheCreateTokens u)))]))"

definition no_usage :: usage_info where
  "no_usage = \<lparr>inputTokens = 0, outputTokens = 0, cacheReadTokens = 0, cacheCreateTokens = 0\<rparr>"

definition buildClaudeMessage :: "stream_state \<Rightarrow> json" where
  "buildClaudeMessage s =
     JObj [(''id'', JStr (messageID s)), (''type'', JStr ''message''), (''role'', JStr ''assistant''), (''content'', JArr []),
       (''model'', JStr []), (''stop_reason'', JNull), (''stop_sequence'', JNull),
       (''usage'', usage_json (case streamUsage s of Some u \<Rightarrow> u | None \<Rightarrow> no_usage))]"

definition message_start :: handler where
  "message_start s =
     ([(''message_start'', JObj [(''type'', JStr ''message_start''), (''message'', buildClaudeMessage s)])],
      s\<lparr>messageStartSent := True\<rparr>)"

text \<open>int64 of a float64 (the token counts that occur fit).\<close>

definition trunc_num :: "rat \<Rightarrow> int" where
  "trunc_num r = (if 0 \<le> r then \<lfloor>r\<rfloor> else \<lceil>r\<rceil>)"

definition int_at :: "json \<Rightarrow> string \<Rightarrow> int" where
  "int_at v k = (case num_at v k of Some r \<Rightarrow> trunc_num r | None \<Rightarrow> 0)"

definition extractUsage :: "json \<Rightarrow> usage_info" where
  "extractUsage u =
     (let d = (case obj_at u ''prompt_tokens_details'' of Some d \<Rightarrow> d | None \<Rightarrow> JObj []);
          cached = int_at d ''cached_tokens''
      in \<lparr>inputTokens = int_at u ''prompt_tokens'' - cached, outputTokens = int_at u ''completion_tokens'',
          cacheReadTokens = cached, cacheCreateTokens = int_at d ''cache_creation_tokens''\<rparr>)"

definition mapFinishReason :: "string \<Rightarrow> string" where
  "mapFinishReason reason =
     (if reason = ''length'' then ''max_tokens'' else if reason = ''tool_calls'' then ''tool_use'' else ''end_turn'')"

section \<open>Blocks\<close>

definition closeThinkingBlock :: handler where
  "closeThinkingBlock s =
     ([block_delta (thinkingIdx s) (JObj [(''type'', JStr ''signature_delta''), (''signature'', JStr ''unsigned'')]),
       contentBlockStop (thinkingIdx s)], s\<lparr>thinkingOpen := False\<rparr>)"

definition close_thinking :: handler where
  "close_thinking = whenever thinkingOpen closeThinkingBlock"

definition close_text :: handler where
  "close_text = whenever textOpen (\<lambda>s. ([contentBlockStop (textBlockIdx s)], s\<lparr>textOpen := False\<rparr>))"

definition open_thinking :: handler where
  "open_thinking =
     whenever (\<lambda>s. \<not> thinkingOpen s) (\<lambda>s.
       ([block_start (nextBlockIdx s) (JObj [(''type'', JStr ''thinking''), (''thinking'', JStr []), (''signature'', JStr [])])],
        s\<lparr>thinkingOpen := True, thinkingIdx := nextBlockIdx s, nextBlockIdx := Suc (nextBlockIdx s)\<rparr>))"

definition open_text :: handler where
  "open_text =
     whenever (\<lambda>s. \<not> textOpen s) (\<lambda>s.
       ([block_start (nextBlockIdx s) (JObj [(''type'', JStr ''text''), (''text'', JStr [])])],
        s\<lparr>textOpen := True, textBlockIdx := nextBlockIdx s, nextBlockIdx := Suc (nextBlockIdx s)\<rparr>))"

definition pend :: "fragment \<Rightarrow> string \<Rightarrow> handler" where
  "pend p t = update (\<lambda>s. s\<lparr>pendingContent := pendingContent s @ [p], outputContent := outputContent s @ t\<rparr>)"

definition send_thinking :: "string \<Rightarrow> handler" where
  "send_thinking t s =
     ([block_delta (thinkingIdx s) (JObj [(''type'', JStr ''thinking_delta''), (''thinking'', JStr t)])],
      s\<lparr>outputContent := outputContent s @ t\<rparr>)"

definition send_text :: "string \<Rightarrow> handler" where
  "send_text t s =
     ([block_delta (textBlockIdx s) (JObj [(''type'', JStr ''text_delta''), (''text'', JStr t)])],
      s\<lparr>outputContent := outputContent s @ t\<rparr>)"

definition handleReasoningContent :: "string \<Rightarrow> handler" where
  "handleReasoningContent t s =
     (if openToolBlocks s \<noteq> [] then pend (ReasoningFragment t) t s
      else andThen close_text (andThen open_thinking (send_thinking t)) s)"

definition handleTextContent :: "string \<Rightarrow> handler" where
  "handleTextContent t s =
     (if openToolBlocks s \<noteq> [] then pend (TextFragment t) t s
      else andThen close_thinking (andThen open_text (send_text t)) s)"

text \<open>The buffered arguments of the call that renders into a block, repaired and sanitized.\<close>

definition flushToolBlockArgs :: "nat \<Rightarrow> handler" where
  "flushToolBlockArgs i s =
     (case find (\<lambda>(k, ti). tiIndex ti = i) (toolCalls s) of
        None \<Rightarrow> ([], s)
      | Some (k, ti) \<Rightarrow>
          (case map_of (toolArgBufs s) k of
             Some buf \<Rightarrow>
               if buf = [] then ([], s)
               else ([block_delta i (JObj [(''type'', JStr ''input_json_delta''),
                        (''partial_json'', JStr (SanitizeToolArgs (repairToolArgs buf)))])],
                     s\<lparr>toolArgBufs := mput k [] (toolArgBufs s)\<rparr>)
           | None \<Rightarrow> ([], s)))"

definition closeOpenToolBlocks :: handler where
  "closeOpenToolBlocks s =
     andThen (forEach (\<lambda>i. andThen (flushToolBlockArgs i) (emit [contentBlockStop i])) (openToolBlocks s))
       (update (\<lambda>s. s\<lparr>openToolBlocks := [], toolCalls := [], toolArgBufs := []\<rparr>)) s"

fun replay :: "fragment \<Rightarrow> handler" where
  "replay (TextFragment t) = handleTextContent t"
| "replay (ReasoningFragment t) = handleReasoningContent t"

definition flushPendingContent :: handler where
  "flushPendingContent s = forEach replay (pendingContent s) (s\<lparr>pendingContent := []\<rparr>)"

section \<open>Calls recovered from text\<close>

definition is_name_end :: "char \<Rightarrow> bool" where
  "is_name_end c = (is_ws c \<or> c = CHR ''>'' \<or> c = CHR ''/'')"

definition stripSigil :: "string \<Rightarrow> string" where
  "stripSigil t = trim_prefix (trim_prefix t (wide_pipe @ ''dsml'' @ wide_pipe)) ''|dsml|''"

definition opener_keywords :: "string list" where
  "opener_keywords =
     (let w = wide_pipe @ ''dsml'' @ wide_pipe
      in [w @ ''invoke'', ''|dsml|invoke'', ''invoke'', w @ ''parameter'', ''parameter'', w @ ''tool_calls'', ''|dsml|tool_calls'',
          ''tool_calls'', ''tool-calls'', w, ''|dsml|'', wide_pipe, ''|'', ''dsml''])"

text \<open>The argument is the text after the bracket.\<close>

definition couldBeInvokeOpener :: "string \<Rightarrow> bool" where
  "couldBeInvokeOpener frag =
     (let s = dropWhile is_ws frag; tok = to_lower (takeWhile (\<lambda>c. \<not> is_name_end c) s);
          rest = dropWhile (\<lambda>c. \<not> is_name_end c) s; norm = stripSigil tok
      in if has_prefix s ''/'' then False
         else if rest \<noteq> [] \<and> (hd rest = CHR ''>'' \<or> hd rest = CHR ''/'')
         then norm \<in> set [''invoke'', ''parameter'', ''tool_calls'', ''tool-calls'', ''dsml''] \<or>
              tok \<in> set [wide_pipe @ ''dsml'' @ wide_pipe, ''|dsml|'', wide_pipe, ''|'']
         else list_ex (\<lambda>kw. has_prefix kw norm \<or> has_prefix norm kw) opener_keywords)"

fun firstPlausibleOpener :: "string \<Rightarrow> nat option" where
  "firstPlausibleOpener [] = None"
| "firstPlausibleOpener (c # cs) =
     (if c = CHR ''<'' \<and> couldBeInvokeOpener cs then Some 0 else map_option Suc (firstPlausibleOpener cs))"

definition forwardHeldProse :: "string \<Rightarrow> handler" where
  "forwardHeldProse prose s =
     (if SanitizeAssistantText prose = [] then ([], s) else handleTextContent (SanitizeAssistantText prose) s)"

definition register_orphan :: "(nat \<Rightarrow> string) \<Rightarrow> orphan_call \<Rightarrow> handler" where
  "register_orphan rnd call s =
     (let i = nextBlockIdx s; ident = ''toolu_'' @ rnd (drawn s); key = - (int i + 1)
      in ([block_start i (JObj [(''type'', JStr ''tool_use''), (''id'', JStr ident), (''name'', JStr (ocName call))])],
          s\<lparr>drawn := Suc (drawn s), nextBlockIdx := Suc i, orphanRecovered := True,
            toolCalls := mput key \<lparr>tiID = ident, tiName = ocName call, tiIndex = i\<rparr> (toolCalls s),
            toolArgBufs := mput key (ocInput call) (toolArgBufs s), openToolBlocks := openToolBlocks s @ [i],
            outputContent := outputContent s @ ocInput call,
            finishReason := (if finishReason s = [] \<or> finishReason s = ''stop'' then ''tool_calls'' else finishReason s)\<rparr>))"

definition emitOrphanToolUse :: "(nat \<Rightarrow> string) \<Rightarrow> orphan_call \<Rightarrow> handler" where
  "emitOrphanToolUse rnd call = andThen close_text (andThen close_thinking (register_orphan rnd call))"

text \<open>The prose before the first recovered call, and the calls of one extraction.\<close>

definition emit_recovered :: "(nat \<Rightarrow> string) \<Rightarrow> string \<Rightarrow> orphan_call list \<Rightarrow> handler" where
  "emit_recovered rnd prose calls =
     andThen (whenever (\<lambda>s. prose \<noteq> [] \<and> \<not> orphanRecovered s) (forwardHeldProse prose))
       (forEach (emitOrphanToolUse rnd) calls)"

function hold_loop :: "(nat \<Rightarrow> string) \<Rightarrow> handler" where
  "hold_loop rnd s =
     (case ExtractOrphanInvokes (holdBuf s) of
        (prose, calls, rest) \<Rightarrow>
          if calls = [] then ([], s)
          else let (es, s1) = emit_recovered rnd prose calls s;
                   (es', s2) = hold_loop rnd (s1\<lparr>holdBuf := rest\<rparr>)
               in (es @ es', s2))"
  by pat_completeness auto
termination
  by (relation "measure (\<lambda>(rnd, s). length (holdBuf s))") (auto dest: extract_shorter [OF sym])

declare hold_loop.simps [simp del]

text \<open>What stays behind a possible opener is kept; the head streams, or is dropped after a recovered call.\<close>

definition hold_tail :: handler where
  "hold_tail s =
     (let buf = holdBuf s
      in case firstPlausibleOpener buf of
           None \<Rightarrow> whenever (\<lambda>s. buf \<noteq> [] \<and> \<not> orphanRecovered s) (forwardHeldProse buf) (s\<lparr>holdBuf := []\<rparr>)
         | Some i \<Rightarrow>
             if 0 < i \<or> orphanHoldMax < length buf
             then let n = max i (length buf - orphanHoldTail)
                  in whenever (\<lambda>s. \<not> orphanRecovered s) (forwardHeldProse (take n buf)) (s\<lparr>holdBuf := drop n buf\<rparr>)
             else ([], s))"

definition holdTextContent :: "(nat \<Rightarrow> string) \<Rightarrow> string \<Rightarrow> handler" where
  "holdTextContent rnd t s =
     (if nativeToolSeen s then handleTextContent t s
      else andThen (hold_loop rnd) hold_tail (s\<lparr>holdBuf := holdBuf s @ t\<rparr>))"

definition flush_rest :: "bool \<Rightarrow> string \<Rightarrow> handler" where
  "flush_rest dropTrailing rest s =
     (if rest = [] then ([], s)
      else if dropTrailing then whenever (\<lambda>_. HasInvokeOpener rest) (forwardHeldProse rest) s
      else ([], s\<lparr>holdBuf := holdBuf s @ rest\<rparr>))"

definition flushHold :: "(nat \<Rightarrow> string) \<Rightarrow> bool \<Rightarrow> bool \<Rightarrow> handler" where
  "flushHold rnd extract dropTrailing s =
     (let buf = holdBuf s; s1 = s\<lparr>holdBuf := []\<rparr>
      in if buf = [] then ([], s)
         else if \<not> extract then forwardHeldProse buf s1
         else case ExtractOrphanInvokes buf of
                (prose, calls, rest) \<Rightarrow>
                  if calls = []
                  then if dropTrailing \<and> orphanRecovered s1 \<and> firstPlausibleOpener buf = None then ([], s1)
                       else forwardHeldProse buf s1
                  else andThen (emit_recovered rnd prose calls) (flush_rest dropTrailing rest) s1)"

definition FlushHoldAtEnd :: "(nat \<Rightarrow> string) \<Rightarrow> handler" where
  "FlushHoldAtEnd rnd s = flushHold rnd (\<not> nativeToolSeen s) True s"

section \<open>Native tool calls\<close>

text \<open>A repeated id gets the number of its uses as a suffix.\<close>

definition unique_id :: "string \<Rightarrow> stream_state \<Rightarrow> string \<times> stream_state" where
  "unique_id ident s =
     (case map_of (seenIDs s) ident of
        Some n \<Rightarrow> (ident @ ''_'' @ show_nat n, s\<lparr>seenIDs := mput ident (n + 1) (seenIDs s)\<rparr>)
      | None \<Rightarrow> (ident, s\<lparr>seenIDs := mput ident 1 (seenIDs s)\<rparr>))"

definition register_call :: "int \<Rightarrow> string \<Rightarrow> string \<Rightarrow> handler" where
  "register_call k ident name s =
     (let i = nextBlockIdx s
      in ([block_start i (JObj [(''type'', JStr ''tool_use''), (''id'', JStr ident), (''name'', JStr name)])],
          s\<lparr>nextBlockIdx := Suc i, toolCalls := mput k \<lparr>tiID = ident, tiName = name, tiIndex = i\<rparr> (toolCalls s),
            toolArgBufs := mput k [] (toolArgBufs s), openToolBlocks := openToolBlocks s @ [i]\<rparr>))"

definition fn_of :: "json \<Rightarrow> json" where
  "fn_of tc = (case obj_at tc ''function'' of Some f \<Rightarrow> f | None \<Rightarrow> JObj [])"

definition start_call :: "json \<Rightarrow> int \<Rightarrow> handler" where
  "start_call tc k s =
     (if str_at tc ''id'' = [] \<or> map_of (toolCalls s) k \<noteq> None then ([], s)
      else let (ident, s1) = unique_id (str_at tc ''id'') s
           in andThen close_text (andThen close_thinking (register_call k ident (str_at (fn_of tc) ''name''))) s1)"

definition call_args :: "json \<Rightarrow> string" where
  "call_args tc =
     (case jget (fn_of tc) ''arguments'' of Some (JStr a) \<Rightarrow> a | Some (JObj m) \<Rightarrow> json_print (JObj m) | _ \<Rightarrow> [])"

definition add_args :: "int \<Rightarrow> string \<Rightarrow> handler" where
  "add_args k args s =
     (if args = [] then ([], s)
      else ([], s\<lparr>toolArgBufs := (case map_of (toolArgBufs s) k of Some buf \<Rightarrow> mput k (buf @ args) (toolArgBufs s) | None \<Rightarrow> toolArgBufs s),
                  outputContent := outputContent s @ args\<rparr>))"

definition handle_call :: "json \<Rightarrow> handler" where
  "handle_call tc s =
     (if \<not> is_obj tc then ([], s)
      else let k = int_at tc ''index'' in andThen (start_call tc k) (add_args k (call_args tc)) s)"

definition handleToolCalls :: "json list \<Rightarrow> handler" where
  "handleToolCalls tcs s = forEach handle_call tcs (s\<lparr>nativeToolSeen := True\<rparr>)"

section \<open>Chunks and the end of the stream\<close>

definition set_usage :: "json \<Rightarrow> stream_state \<Rightarrow> stream_state" where
  "set_usage chunk s = (case obj_at chunk ''usage'' of Some u \<Rightarrow> s\<lparr>streamUsage := Some (extractUsage u)\<rparr> | None \<Rightarrow> s)"

definition delta_reasoning :: "json \<Rightarrow> string" where
  "delta_reasoning d = (if str_at d ''reasoning'' \<noteq> [] then str_at d ''reasoning'' else str_at d ''reasoning_content'')"

definition handle_reasoning :: "(nat \<Rightarrow> string) \<Rightarrow> string \<Rightarrow> handler" where
  "handle_reasoning rnd r =
     andThen (flushHold rnd True False)
       (whenever (\<lambda>_. SanitizeAssistantText r \<noteq> []) (handleReasoningContent (SanitizeAssistantText r)))"

definition handle_delta :: "(nat \<Rightarrow> string) \<Rightarrow> json \<Rightarrow> handler" where
  "handle_delta rnd d =
     andThen (whenever (\<lambda>_. delta_reasoning d \<noteq> []) (handle_reasoning rnd (delta_reasoning d)))
       (andThen (whenever (\<lambda>_. str_at d ''content'' \<noteq> []) (holdTextContent rnd (str_at d ''content'')))
         (case arr_at d ''tool_calls'' of
            Some (tc # tcs) \<Rightarrow> andThen (flushHold rnd False False) (handleToolCalls (tc # tcs))
          | _ \<Rightarrow> emit []))"

definition note_finish :: "json \<Rightarrow> stream_state \<Rightarrow> stream_state" where
  "note_finish choice s =
     (let fr = str_at choice ''finish_reason''
      in if fr \<noteq> [] \<and> fr \<noteq> ''null'' \<and> \<not> finishSent s
         then s\<lparr>finishReason := (if finishReason s = ''tool_calls'' then ''tool_calls'' else fr), finishSent := True\<rparr>
         else s)"

definition ProcessChunk :: "(nat \<Rightarrow> string) \<Rightarrow> json \<Rightarrow> handler" where
  "ProcessChunk rnd chunk s =
     (case arr_at chunk ''choices'' of
        Some (choice # _) \<Rightarrow>
          if \<not> is_obj choice then ([], s)
          else let d = (case obj_at choice ''delta'' of Some d \<Rightarrow> d | None \<Rightarrow> JObj [])
               in andThen (whenever (\<lambda>s. \<not> messageStartSent s \<and> \<not> finishSent s) message_start)
                    (andThen (whenever (\<lambda>s. \<not> finishSent s) (handle_delta rnd d))
                      (andThen (update (set_usage chunk)) (update (note_finish choice)))) s
      | _ \<Rightarrow>
          andThen (update (set_usage chunk))
            (whenever (\<lambda>s. obj_at chunk ''usage'' \<noteq> None \<and> \<not> messageStartSent s) message_start) s)"

definition final_usage :: "stream_state \<Rightarrow> usage_info" where
  "final_usage s =
     (case streamUsage s of
        Some u \<Rightarrow> u
      | None \<Rightarrow>
          no_usage\<lparr>outputTokens := (let n = length (outputContent s) div 4 in if n = 0 \<and> outputContent s \<noteq> [] then 1 else int n)\<rparr>)"

definition message_end :: handler where
  "message_end s =
     ([(''message_delta'', JObj [(''type'', JStr ''message_delta''),
          (''delta'', JObj [(''stop_reason'', JStr (mapFinishReason (finishReason s))), (''stop_sequence'', JNull)]),
          (''usage'', usage_json (final_usage s))]),
       (''message_stop'', JObj [(''type'', JStr ''message_stop'')])], s)"

definition handleFinish :: "(nat \<Rightarrow> string) \<Rightarrow> handler" where
  "handleFinish rnd =
     andThen (FlushHoldAtEnd rnd) (andThen close_text (andThen close_thinking (andThen closeOpenToolBlocks
       (andThen flushPendingContent (andThen close_text (andThen close_thinking message_end))))))"

definition Finalize :: "(nat \<Rightarrow> string) \<Rightarrow> handler" where
  "Finalize rnd s =
     (if streamClosed s then ([], s)
      else andThen (if finishSent s then handleFinish rnd else FlushHoldAtEnd rnd) (update (\<lambda>s. s\<lparr>streamClosed := True\<rparr>)) s)"

text \<open>A stream from its chunks to its end.\<close>

definition run_stream :: "(nat \<Rightarrow> string) \<Rightarrow> json list \<Rightarrow> sse list \<times> stream_state" where
  "run_stream rnd chunks = andThen (forEach (ProcessChunk rnd) chunks) (Finalize rnd) (NewStreamState rnd)"

section \<open>Specifications\<close>

text \<open>What a Claude client accepts: blocks numbered from 0, deltas that fit an open block, only tool blocks overlapping.\<close>

datatype phase = Streaming | Stopping | Stopped

record client =
  cStarted :: bool
  cNext :: nat
  cOpen :: "(nat \<times> string) list"
  cPhase :: phase

definition index_of :: "json \<Rightarrow> nat" where
  "index_of d = (case num_at d ''index'' of Some r \<Rightarrow> nat \<lfloor>r\<rfloor> | None \<Rightarrow> 0)"

definition type_in :: "json \<Rightarrow> string \<Rightarrow> string" where
  "type_in d k = (case obj_at d k of Some v \<Rightarrow> str_at v ''type'' | None \<Rightarrow> [])"

definition delta_fits :: "string \<Rightarrow> string \<Rightarrow> bool" where
  "delta_fits kind t =
     (kind = ''text'' \<and> t = ''text_delta'' \<or> kind = ''thinking'' \<and> (t = ''thinking_delta'' \<or> t = ''signature_delta'') \<or>
      kind = ''tool_use'' \<and> t = ''input_json_delta'')"

definition accept_block :: "client \<Rightarrow> sse \<Rightarrow> client option" where
  "accept_block c e =
     (case e of (name, d) \<Rightarrow>
        if name = ''content_block_start'' then
          (let k = type_in d ''content_block''
           in if index_of d = cNext c \<and> (k = ''text'' \<or> k = ''thinking'' \<or> k = ''tool_use'') \<and>
                 list_all (\<lambda>(j, k'). k' = ''tool_use'' \<and> k = ''tool_use'') (cOpen c)
              then Some (c\<lparr>cNext := Suc (cNext c), cOpen := cOpen c @ [(index_of d, k)]\<rparr>) else None)
        else if name = ''content_block_delta'' then
          (case map_of (cOpen c) (index_of d) of
             Some k \<Rightarrow> if delta_fits k (type_in d ''delta'') then Some c else None
           | None \<Rightarrow> None)
        else if name = ''content_block_stop'' then
          (if map_of (cOpen c) (index_of d) = None then None else Some (c\<lparr>cOpen := filter (\<lambda>(j, k). j \<noteq> index_of d) (cOpen c)\<rparr>))
        else if name = ''message_delta'' \<and> cOpen c = [] then Some (c\<lparr>cPhase := Stopping\<rparr>)
        else None)"

definition accept :: "client \<Rightarrow> sse \<Rightarrow> client option" where
  "accept c e =
     (if fst e = ''message_start'' then (if cStarted c then None else Some (c\<lparr>cStarted := True\<rparr>))
      else if \<not> cStarted c then None
      else case cPhase c of
             Streaming \<Rightarrow> accept_block c e
           | Stopping \<Rightarrow> if fst e = ''message_stop'' then Some (c\<lparr>cPhase := Stopped\<rparr>) else None
           | Stopped \<Rightarrow> None)"

fun accept_all :: "client \<Rightarrow> sse list \<Rightarrow> client option" where
  "accept_all c [] = Some c"
| "accept_all c (e # es) = (case accept c e of Some c' \<Rightarrow> accept_all c' es | None \<Rightarrow> None)"

definition new_client :: client where
  "new_client = \<lparr>cStarted = False, cNext = 0, cOpen = [], cPhase = Streaming\<rparr>"

text \<open>What the client knows of the state while the stream runs.\<close>

definition client_view :: "stream_state \<Rightarrow> client" where
  "client_view s =
     \<lparr>cStarted = messageStartSent s, cNext = nextBlockIdx s,
      cOpen = (if textOpen s then [(textBlockIdx s, ''text'')] else []) @
        (if thinkingOpen s then [(thinkingIdx s, ''thinking'')] else []) @ map (\<lambda>i. (i, ''tool_use'')) (openToolBlocks s),
      cPhase = Streaming\<rparr>"

definition stream_inv :: "stream_state \<Rightarrow> bool" where
  "stream_inv s =
     (\<not> streamClosed s \<and> (textOpen s \<longrightarrow> \<not> thinkingOpen s \<and> textBlockIdx s < nextBlockIdx s) \<and>
      (thinkingOpen s \<longrightarrow> thinkingIdx s < nextBlockIdx s) \<and>
      (openToolBlocks s \<noteq> [] \<longrightarrow> \<not> textOpen s \<and> \<not> thinkingOpen s) \<and>
      distinct (openToolBlocks s) \<and> (\<forall>i \<in> set (openToolBlocks s). i < nextBlockIdx s) \<and>
      (\<not> messageStartSent s \<longrightarrow> \<not> textOpen s \<and> \<not> thinkingOpen s \<and> openToolBlocks s = [] \<and> holdBuf s = [] \<and> \<not> finishSent s))"

text \<open>The events of a handler are accepted and leave the client with the view of the new state.\<close>

definition keeps :: "stream_state \<Rightarrow> sse list \<times> stream_state \<Rightarrow> bool" where
  "keeps s r =
     (accept_all (client_view s) (fst r) = Some (client_view (snd r)) \<and> stream_inv (snd r) \<and> messageStartSent (snd r))"

definition triple :: "(stream_state \<Rightarrow> bool) \<Rightarrow> handler \<Rightarrow> (stream_state \<Rightarrow> bool) \<Rightarrow> bool" where
  "triple P f Q = (\<forall>s. stream_inv s \<and> messageStartSent s \<and> P s \<longrightarrow> keeps s (f s) \<and> Q (snd (f s)))"

text \<open>Changes that the client does not see.\<close>

definition unseen :: "stream_state \<Rightarrow> stream_state \<Rightarrow> bool" where
  "unseen s s' =
     (client_view s' = client_view s \<and> (stream_inv s \<longrightarrow> stream_inv s') \<and> (messageStartSent s \<longrightarrow> messageStartSent s'))"

text \<open>Chunks of an upstream: calls, further arguments of a call, and a finish reason.\<close>

definition calls_chunk :: "json list \<Rightarrow> json" where
  "calls_chunk tcs = JObj [(''choices'', JArr [JObj [(''delta'', JObj [(''tool_calls'', JArr tcs)])]])]"

definition new_call :: "nat \<Rightarrow> string \<Rightarrow> string \<Rightarrow> string \<Rightarrow> json" where
  "new_call k ident name args =
     JObj [(''index'', JNum (of_nat k)), (''id'', JStr ident), (''function'', JObj [(''name'', JStr name), (''arguments'', JStr args)])]"

definition more_args :: "nat \<Rightarrow> string \<Rightarrow> json" where
  "more_args k args = JObj [(''index'', JNum (of_nat k)), (''function'', JObj [(''arguments'', JStr args)])]"

definition finish_chunk :: "string \<Rightarrow> json" where
  "finish_chunk reason = JObj [(''choices'', JArr [JObj [(''delta'', JObj []), (''finish_reason'', JStr reason)]])]"

section \<open>Specifications\<close>

abbreviation anywhere :: "stream_state \<Rightarrow> bool" where
  "anywhere \<equiv> \<lambda>_. True"

abbreviation no_tools :: "stream_state \<Rightarrow> bool" where
  "no_tools \<equiv> \<lambda>s. openToolBlocks s = []"

abbreviation no_prose :: "stream_state \<Rightarrow> bool" where
  "no_prose \<equiv> \<lambda>s. \<not> textOpen s \<and> \<not> thinkingOpen s"

section \<open>A logic of handlers\<close>

lemma accept_all_append:
  "accept_all c (es @ es') = (case accept_all c es of Some c' \<Rightarrow> accept_all c' es' | None \<Rightarrow> None)"
  by (induction es arbitrary: c) (auto split: option.split)

lemma accept_all_trans: "accept_all c es = Some c1 \<Longrightarrow> accept_all c1 es' = Some c2 \<Longrightarrow> accept_all c (es @ es') = Some c2"
  by (simp add: accept_all_append)

lemma andThen_simps [simp]:
  "fst (andThen f g s) = fst (f s) @ fst (g (snd (f s)))" "snd (andThen f g s) = snd (g (snd (f s)))"
  by (simp_all add: andThen_def split: prod.split)

lemma emit_simps [simp]: "fst (emit es s) = es" "snd (emit es s) = s" "fst (update f s) = []" "snd (update f s) = f s"
  by (simp_all add: emit_def update_def)

lemma triple_seq [intro]: "triple P f Q \<Longrightarrow> triple Q g R \<Longrightarrow> triple P (andThen f g) R"
  unfolding triple_def keeps_def by (simp add: accept_all_append)

lemma triple_conseq: "triple P f Q \<Longrightarrow> (\<And>s. P' s \<Longrightarrow> P s) \<Longrightarrow> (\<And>s. Q s \<Longrightarrow> Q' s) \<Longrightarrow> triple P' f Q'"
  unfolding triple_def keeps_def by blast

lemma triple_weaken: "triple P f Q \<Longrightarrow> triple P f anywhere"
  by (erule triple_conseq) simp_all

lemma triple_whenever: "triple (\<lambda>s. P s \<and> b s) f Q \<Longrightarrow> (\<And>s. P s \<Longrightarrow> \<not> b s \<Longrightarrow> Q s) \<Longrightarrow> triple P (whenever b f) Q"
  unfolding triple_def keeps_def whenever_def by auto

lemma triple_emit: "triple P (emit []) P"
  by (simp add: triple_def keeps_def emit_def)

lemma triple_forEach: "(\<And>x. x \<in> set xs \<Longrightarrow> triple P (f x) P) \<Longrightarrow> triple P (forEach f xs) P"
  by (induction xs) (auto simp: triple_emit)

text \<open>A change of fields that the client does not see.\<close>

lemma triple_update:
  assumes "\<And>s. P s \<Longrightarrow> client_view (f s) = client_view s \<and> (stream_inv s \<longrightarrow> stream_inv (f s)) \<and> Q (f s)"
    and "\<And>s. messageStartSent (f s) = messageStartSent s"
  shows "triple P (update f) Q"
  using assms by (simp add: triple_def keeps_def update_def)

section \<open>Handlers keep to the protocol\<close>

lemma accept_start:
  assumes "is_obj b" "str_at b ''type'' = k" "k = ''text'' \<or> k = ''thinking'' \<or> k = ''tool_use''"
  shows "accept c (block_start i b) =
     (if cStarted c \<and> cPhase c = Streaming \<and> i = cNext c \<and> list_all (\<lambda>(j, k'). k' = ''tool_use'' \<and> k = ''tool_use'') (cOpen c)
      then Some (c\<lparr>cNext := Suc (cNext c), cOpen := cOpen c @ [(i, k)]\<rparr>) else None)"
  using assms
  by (cases b; cases "cPhase c") (auto simp: accept_def accept_block_def block_start_def index_of_def type_in_def num_at_def obj_at_def Let_def)

lemma accept_delta:
  assumes "is_obj d"
  shows "accept c (block_delta i d) =
     (if cStarted c \<and> cPhase c = Streaming
      then (case map_of (cOpen c) i of Some k \<Rightarrow> if delta_fits k (str_at d ''type'') then Some c else None | None \<Rightarrow> None)
      else None)"
  using assms
  by (cases d; cases "cPhase c") (auto simp: accept_def accept_block_def block_delta_def index_of_def type_in_def num_at_def obj_at_def split: option.split)

lemma accept_stop:
  "accept c (contentBlockStop i) =
     (if cStarted c \<and> cPhase c = Streaming \<and> map_of (cOpen c) i \<noteq> None
      then Some (c\<lparr>cOpen := filter (\<lambda>(j, k). j \<noteq> i) (cOpen c)\<rparr>) else None)"
  by (cases "cPhase c") (auto simp: accept_def accept_block_def contentBlockStop_def index_of_def num_at_def)

lemma map_of_tools: "i \<in> set is \<Longrightarrow> map_of (map (\<lambda>i. (i, k)) is) i = Some k"
  by (induction "is") auto

lemma close_text_any: "triple anywhere close_text (\<lambda>s. \<not> textOpen s)"
  and close_text_tools: "triple no_tools close_text (\<lambda>s. openToolBlocks s = [] \<and> \<not> textOpen s)"
  by (auto simp: triple_def keeps_def close_text_def whenever_def accept_stop client_view_def stream_inv_def)

lemma close_thinking_any: "triple (\<lambda>s. \<not> textOpen s) close_thinking no_prose"
  and close_thinking_tools: "triple no_tools close_thinking (\<lambda>s. openToolBlocks s = [] \<and> \<not> thinkingOpen s)"
  by (auto simp: triple_def keeps_def close_thinking_def closeThinkingBlock_def whenever_def accept_stop accept_delta client_view_def
      stream_inv_def delta_fits_def str_at_def)

lemma open_thinking_ok: "triple (\<lambda>s. openToolBlocks s = [] \<and> \<not> textOpen s) open_thinking thinkingOpen"
  by (auto simp: triple_def keeps_def open_thinking_def whenever_def accept_start str_at_def client_view_def stream_inv_def)

lemma open_text_ok: "triple (\<lambda>s. openToolBlocks s = [] \<and> \<not> thinkingOpen s) open_text textOpen"
  by (auto simp: triple_def keeps_def open_text_def whenever_def accept_start str_at_def client_view_def stream_inv_def)

lemma send_thinking_ok: "triple thinkingOpen (send_thinking t) anywhere"
  by (auto simp: triple_def keeps_def send_thinking_def accept_delta client_view_def stream_inv_def delta_fits_def str_at_def)

lemma send_text_ok: "triple textOpen (send_text t) anywhere"
  by (auto simp: triple_def keeps_def send_text_def accept_delta client_view_def stream_inv_def delta_fits_def str_at_def)

lemma triple_if: "triple (\<lambda>s. P s \<and> b s) f Q \<Longrightarrow> triple (\<lambda>s. P s \<and> \<not> b s) g Q \<Longrightarrow> triple P (\<lambda>s. if b s then f s else g s) Q"
  unfolding triple_def keeps_def by auto

lemma pend_ok: "triple anywhere (pend p t) anywhere"
  unfolding pend_def by (rule triple_update) (auto simp: client_view_def stream_inv_def)

lemma reasoning_ok: "triple anywhere (handleReasoningContent t) anywhere"
proof -
  have "triple no_tools (andThen close_text (andThen open_thinking (send_thinking t))) anywhere"
    using close_text_tools open_thinking_ok send_thinking_ok by blast
  then have "triple anywhere (\<lambda>s. if openToolBlocks s \<noteq> [] then pend (ReasoningFragment t) t s
      else andThen close_text (andThen open_thinking (send_thinking t)) s) anywhere"
    by (intro triple_if) (auto intro: triple_conseq [OF pend_ok] triple_conseq)
  then show ?thesis by (simp only: handleReasoningContent_def [abs_def])
qed

lemma text_ok: "triple anywhere (handleTextContent t) anywhere"
proof -
  have "triple no_tools (andThen close_thinking (andThen open_text (send_text t))) anywhere"
    using close_thinking_tools open_text_ok send_text_ok by blast
  then have "triple anywhere (\<lambda>s. if openToolBlocks s \<noteq> [] then pend (TextFragment t) t s
      else andThen close_thinking (andThen open_text (send_text t)) s) anywhere"
    by (intro triple_if) (auto intro: triple_conseq [OF pend_ok] triple_conseq)
  then show ?thesis by (simp only: handleTextContent_def [abs_def])
qed

lemma flush_events:
  "fst (flushToolBlockArgs i s) = [] \<or> (\<exists>a. fst (flushToolBlockArgs i s) = [block_delta i (JObj [(''type'', JStr ''input_json_delta''), (''partial_json'', JStr a)])])"
  by (auto simp: flushToolBlockArgs_def split: option.split prod.split)

lemma flush_state: "\<exists>b. snd (flushToolBlockArgs i s) = s\<lparr>toolArgBufs := b\<rparr>"
  by (auto simp: flushToolBlockArgs_def split: option.split prod.split intro: exI [of _ "toolArgBufs s"])

lemma close_loop_events:
  "cOpen c = map (\<lambda>i. (i, ''tool_use'')) is \<Longrightarrow> distinct is \<Longrightarrow> cStarted c \<Longrightarrow> cPhase c = Streaming \<Longrightarrow>
   accept_all c (fst (forEach (\<lambda>i. andThen (flushToolBlockArgs i) (emit [contentBlockStop i])) is s)) = Some (c\<lparr>cOpen := []\<rparr>)"
proof (induction "is" arbitrary: c s)
  case Nil
  then show ?case by simp
next
  case (Cons i "is")
  let ?c = "c\<lparr>cOpen := map (\<lambda>i. (i, ''tool_use'')) is\<rparr>"
  have "accept_all c (fst (flushToolBlockArgs i s)) = Some c"
    using flush_events [of i s] Cons.prems by (auto simp: accept_delta delta_fits_def str_at_def)
  moreover have "accept c (contentBlockStop i) = Some ?c"
  proof -
    have "filter (\<lambda>(j, k). j \<noteq> i) (map (\<lambda>i. (i, ''tool_use'')) is) = map (\<lambda>i. (i, ''tool_use'')) is"
      using Cons.prems by (auto simp: filter_id_conv)
    then show ?thesis using Cons.prems by (simp add: accept_stop)
  qed
  moreover have "accept_all ?c (fst (forEach (\<lambda>i. andThen (flushToolBlockArgs i) (emit [contentBlockStop i])) is t)) =
      Some (?c\<lparr>cOpen := []\<rparr>)" for t
    using Cons.prems by (intro Cons.IH) auto
  ultimately show ?case by (simp add: accept_all_append)
qed

lemma close_loop_state:
  "\<exists>b. snd (forEach (\<lambda>i. andThen (flushToolBlockArgs i) (emit [contentBlockStop i])) is s) = s\<lparr>toolArgBufs := b\<rparr>"
proof (induction "is" arbitrary: s)
  case Nil
  then show ?case by (auto intro: exI [of _ "toolArgBufs s"])
next
  case (Cons i "is")
  obtain b where "snd (flushToolBlockArgs i s) = s\<lparr>toolArgBufs := b\<rparr>" using flush_state by blast
  moreover obtain b' where
    "snd (forEach (\<lambda>i. andThen (flushToolBlockArgs i) (emit [contentBlockStop i])) is (s\<lparr>toolArgBufs := b\<rparr>)) =
     s\<lparr>toolArgBufs := b, toolArgBufs := b'\<rparr>" using Cons by blast
  ultimately show ?case by auto
qed

lemma close_tools_ok: "triple no_prose closeOpenToolBlocks (\<lambda>s. openToolBlocks s = [])"
  unfolding triple_def keeps_def
proof (intro allI impI)
  fix s
  assume a: "stream_inv s \<and> messageStartSent s \<and> no_prose s"
  let ?loop = "forEach (\<lambda>i. andThen (flushToolBlockArgs i) (emit [contentBlockStop i])) (openToolBlocks s) s"
  obtain b where b: "snd ?loop = s\<lparr>toolArgBufs := b\<rparr>" using close_loop_state by blast
  have "accept_all (client_view s) (fst ?loop) = Some ((client_view s)\<lparr>cOpen := []\<rparr>)"
    using a by (intro close_loop_events) (auto simp: client_view_def stream_inv_def)
  moreover have "snd (closeOpenToolBlocks s) = s\<lparr>openToolBlocks := [], toolCalls := [], toolArgBufs := []\<rparr>"
    by (simp add: closeOpenToolBlocks_def b)
  moreover have "fst (closeOpenToolBlocks s) = fst ?loop" by (simp add: closeOpenToolBlocks_def)
  ultimately show "(accept_all (client_view s) (fst (closeOpenToolBlocks s)) = Some (client_view (snd (closeOpenToolBlocks s))) \<and>
      stream_inv (snd (closeOpenToolBlocks s)) \<and> messageStartSent (snd (closeOpenToolBlocks s))) \<and>
      openToolBlocks (snd (closeOpenToolBlocks s)) = []"
    using a by (auto simp: client_view_def stream_inv_def)
qed

lemma replay_ok: "triple anywhere (replay p) anywhere"
  by (cases p) (simp_all add: text_ok reasoning_ok)

text \<open>With no tool block open, prose opens none.\<close>

lemma prose_keeps_tools:
  "openToolBlocks (snd (handleTextContent t s)) = openToolBlocks s"
  "openToolBlocks (snd (handleReasoningContent t s)) = openToolBlocks s"
  by (simp_all add: handleTextContent_def handleReasoningContent_def pend_def update_def close_thinking_def close_text_def
      closeThinkingBlock_def open_text_def open_thinking_def send_text_def send_thinking_def whenever_def)

lemma replay_keeps_tools: "openToolBlocks (snd (replay p s)) = openToolBlocks s"
  by (cases p) (simp_all add: prose_keeps_tools)

lemma replay_tools_ok: "triple no_tools (replay p) no_tools"
  using replay_ok [of p] replay_keeps_tools [of p] by (auto simp: triple_def keeps_def)

lemma flush_pending_ok: "triple no_tools flushPendingContent no_tools"
proof -
  have "triple no_tools (andThen (update (\<lambda>s. s\<lparr>pendingContent := []\<rparr>)) (forEach replay ps)) no_tools" for ps
    by (intro triple_seq [where Q = no_tools] triple_update triple_forEach replay_tools_ok) (auto simp: client_view_def stream_inv_def)
  then show ?thesis by (simp add: triple_def keeps_def flushPendingContent_def)
qed

lemma prose_ok: "triple anywhere (forwardHeldProse p) anywhere"
  using text_ok by (simp add: triple_def keeps_def forwardHeldProse_def)

lemma register_orphan_ok: "triple no_prose (register_orphan rnd call) anywhere"
  by (auto simp: triple_def keeps_def register_orphan_def Let_def accept_start str_at_def client_view_def stream_inv_def list_all_iff)

lemma register_call_ok: "triple no_prose (register_call k ident name) anywhere"
  by (auto simp: triple_def keeps_def register_call_def Let_def accept_start str_at_def client_view_def stream_inv_def list_all_iff)

lemma orphan_ok: "triple anywhere (emitOrphanToolUse rnd call) anywhere"
  unfolding emitOrphanToolUse_def using close_text_any close_thinking_any register_orphan_ok by blast

lemma recovered_ok: "triple anywhere (emit_recovered rnd prose calls) anywhere"
  unfolding emit_recovered_def
  by (intro triple_seq [where Q = anywhere] triple_whenever triple_forEach orphan_ok)
    (auto intro: triple_conseq [OF prose_ok])

lemma triple_at: "triple P f Q \<Longrightarrow> stream_inv s \<Longrightarrow> messageStartSent s \<Longrightarrow> P s \<Longrightarrow> keeps s (f s)"
  by (simp add: triple_def)

lemma tripleI: "(\<And>s. stream_inv s \<Longrightarrow> messageStartSent s \<Longrightarrow> keeps s (f s)) \<Longrightarrow> triple anywhere f anywhere"
  by (simp add: triple_def)

lemma keeps_refl: "stream_inv s \<Longrightarrow> messageStartSent s \<Longrightarrow> keeps s ([], s)"
  by (simp add: keeps_def)

lemma keeps_append: "keeps s (es, s1) \<Longrightarrow> keeps s1 (es', s2) \<Longrightarrow> keeps s (es @ es', s2)"
  by (simp add: keeps_def accept_all_append)

lemma keeps_unseen: "unseen s s' \<Longrightarrow> keeps s' r \<Longrightarrow> keeps s r"
  by (simp add: keeps_def unseen_def)

lemma unseen_hold: "messageStartSent s \<Longrightarrow> unseen s (s\<lparr>holdBuf := b\<rparr>)"
  by (simp add: unseen_def client_view_def stream_inv_def)

lemma keeps_unseen_at: "unseen s s' \<Longrightarrow> triple anywhere f Q \<Longrightarrow> stream_inv s \<Longrightarrow> messageStartSent s \<Longrightarrow> keeps s (f s')"
proof -
  assume u: "unseen s s'" and f: "triple anywhere f Q" and a: "stream_inv s" "messageStartSent s"
  have "keeps s' (f s')" by (rule triple_at [OF f]) (use u a in \<open>simp_all add: unseen_def\<close>)
  with u show ?thesis by (rule keeps_unseen)
qed

lemma keeps_hold:
  "triple anywhere f Q \<Longrightarrow> stream_inv s \<Longrightarrow> messageStartSent s \<Longrightarrow> keeps s (f (s\<lparr>holdBuf := b\<rparr>))"
  by (rule keeps_unseen_at [OF unseen_hold])

lemma hold_loop_keeps: "stream_inv s \<Longrightarrow> messageStartSent s \<Longrightarrow> keeps s (hold_loop rnd s)"
proof (induction rnd s rule: hold_loop.induct)
  case (1 rnd s)
  obtain prose calls rest where x: "ExtractOrphanInvokes (holdBuf s) = (prose, calls, rest)" by (cases "ExtractOrphanInvokes (holdBuf s)")
  show ?case
  proof (cases "calls = []")
    case True
    then show ?thesis using 1 x by (simp add: hold_loop.simps keeps_refl)
  next
    case False
    obtain es s1 where r: "emit_recovered rnd prose calls s = (es, s1)" by fastforce
    have 2: "keeps s (es, s1)" using triple_at [OF recovered_ok "1.prems", of rnd prose calls] r by simp
    then have "unseen s1 (s1\<lparr>holdBuf := rest\<rparr>)" "stream_inv s1" by (auto simp: keeps_def intro: unseen_hold)
    moreover from this 2 have "keeps (s1\<lparr>holdBuf := rest\<rparr>) (hold_loop rnd (s1\<lparr>holdBuf := rest\<rparr>))"
      using "1.IH" [OF x [symmetric] refl False r [symmetric] refl] by (simp add: unseen_def keeps_def)
    ultimately have "keeps s1 (hold_loop rnd (s1\<lparr>holdBuf := rest\<rparr>))" using keeps_unseen by blast
    then have "keeps s (es @ fst (hold_loop rnd (s1\<lparr>holdBuf := rest\<rparr>)), snd (hold_loop rnd (s1\<lparr>holdBuf := rest\<rparr>)))"
      using keeps_append [OF 2, of "fst (hold_loop rnd (s1\<lparr>holdBuf := rest\<rparr>))"] by simp
    moreover have "hold_loop rnd s = (es @ fst (hold_loop rnd (s1\<lparr>holdBuf := rest\<rparr>)), snd (hold_loop rnd (s1\<lparr>holdBuf := rest\<rparr>)))"
      using x False r by (simp add: hold_loop.simps [of rnd s] split: prod.split)
    ultimately show ?thesis by simp
  qed
qed

lemma prose_when: "triple anywhere (whenever b (forwardHeldProse p)) anywhere"
  by (intro triple_whenever) (auto intro: triple_conseq [OF prose_ok])

lemma hold_tail_ok: "triple anywhere hold_tail anywhere"
proof (rule tripleI)
  fix s
  assume a: "stream_inv s" "messageStartSent s"
  have "keeps s (whenever P (forwardHeldProse p) (s\<lparr>holdBuf := b\<rparr>))" for P p b using prose_when a by (rule keeps_hold)
  then show "keeps s (hold_tail s)" using keeps_refl [OF a] by (simp add: hold_tail_def Let_def split: option.split)
qed

lemma hold_text_ok: "triple anywhere (holdTextContent rnd t) anywhere"
proof (rule tripleI)
  fix s
  assume a: "stream_inv s" "messageStartSent s"
  have "triple anywhere (hold_loop rnd) anywhere" by (rule tripleI) (rule hold_loop_keeps)
  then have "triple anywhere (andThen (hold_loop rnd) hold_tail) anywhere" using hold_tail_ok by (rule triple_seq)
  then have "keeps s (andThen (hold_loop rnd) hold_tail (s\<lparr>holdBuf := holdBuf s @ t\<rparr>))" using a by (rule keeps_hold)
  moreover have "keeps s (handleTextContent t s)" by (rule triple_at [OF text_ok a]) simp
  ultimately show "keeps s (holdTextContent rnd t s)" by (simp add: holdTextContent_def)
qed

lemma keeps_hold_only: "stream_inv s \<Longrightarrow> messageStartSent s \<Longrightarrow> keeps s ([], s\<lparr>holdBuf := b\<rparr>)"
  using keeps_hold [OF triple_emit, of s b] by (simp add: emit_def)

lemma flush_rest_ok: "triple anywhere (flush_rest d rest) anywhere"
proof (rule tripleI)
  fix s
  assume a: "stream_inv s" "messageStartSent s"
  have "keeps s (whenever (\<lambda>_. HasInvokeOpener rest) (forwardHeldProse rest) s)" by (rule triple_at [OF prose_when a]) simp
  then show "keeps s (flush_rest d rest s)" using a by (simp add: flush_rest_def keeps_refl keeps_hold_only)
qed

lemma flush_hold_ok: "triple anywhere (flushHold rnd extract d) anywhere"
proof (rule tripleI)
  fix s
  assume a: "stream_inv s" "messageStartSent s"
  obtain prose calls rest where x: "ExtractOrphanInvokes (holdBuf s) = (prose, calls, rest)" by (cases "ExtractOrphanInvokes (holdBuf s)")
  let ?s = "s\<lparr>holdBuf := []\<rparr>"
  have "triple anywhere (andThen (emit_recovered rnd prose calls) (flush_rest d rest)) anywhere"
    using recovered_ok flush_rest_ok by (rule triple_seq)
  then have 1: "keeps s (andThen (emit_recovered rnd prose calls) (flush_rest d rest) ?s)" using a by (rule keeps_hold)
  have 2: "keeps s (forwardHeldProse (holdBuf s) ?s)" using prose_ok a by (rule keeps_hold)
  show "keeps s (flushHold rnd extract d s)"
    using a 1 2 by (simp add: flushHold_def Let_def x keeps_refl keeps_hold_only)
qed

lemma unseen_unique: "unique_id i s = (j, s') \<Longrightarrow> unseen s s'"
  by (auto simp: unique_id_def unseen_def client_view_def stream_inv_def split: option.splits)

lemma start_call_ok: "triple anywhere (start_call tc k) anywhere"
proof (rule tripleI)
  fix s
  assume a: "stream_inv s" "messageStartSent s"
  obtain i s' where u: "unique_id (str_at tc ''id'') s = (i, s')" by fastforce
  let ?f = "andThen close_text (andThen close_thinking (register_call k i (str_at (fn_of tc) ''name'')))"
  have "triple anywhere ?f anywhere" by (intro triple_seq [OF close_text_any] triple_seq [OF close_thinking_any] register_call_ok)
  then have "keeps s (?f s')" using a by (rule keeps_unseen_at [OF unseen_unique [OF u]])
  then show "keeps s (start_call tc k s)" using a by (simp add: start_call_def u keeps_refl)
qed

lemma add_args_ok: "triple anywhere (add_args k a) anywhere"
  by (intro tripleI) (auto simp: keeps_def add_args_def client_view_def stream_inv_def split: option.split)

lemma handle_call_ok: "triple anywhere (handle_call tc) anywhere"
proof (rule tripleI)
  fix s
  assume a: "stream_inv s" "messageStartSent s"
  have "triple anywhere (andThen (start_call tc k) (add_args k (call_args tc))) anywhere" for k
    using start_call_ok add_args_ok by (rule triple_seq)
  then have "keeps s (andThen (start_call tc k) (add_args k (call_args tc)) s)" for k by (rule triple_at [OF _ a]) simp
  then show "keeps s (handle_call tc s)" using a by (simp add: handle_call_def Let_def keeps_refl)
qed

lemma tool_calls_ok: "triple anywhere (handleToolCalls tcs) anywhere"
proof (rule tripleI)
  fix s
  assume a: "stream_inv s" "messageStartSent s"
  have "unseen s (s\<lparr>nativeToolSeen := True\<rparr>)" by (simp add: unseen_def client_view_def stream_inv_def)
  moreover have "triple anywhere (forEach handle_call tcs) anywhere" by (rule triple_forEach) (rule handle_call_ok)
  ultimately show "keeps s (handleToolCalls tcs s)"
    unfolding handleToolCalls_def using a by (rule keeps_unseen_at)
qed

lemma delta_ok: "triple anywhere (handle_delta rnd d) anywhere"
proof -
  have r: "triple anywhere (handle_reasoning rnd r) anywhere" for r
    unfolding handle_reasoning_def
    by (intro triple_seq [OF flush_hold_ok] triple_whenever) (auto intro: triple_conseq [OF reasoning_ok])
  have t: "triple anywhere (andThen (flushHold rnd False False) (handleToolCalls tcs)) anywhere" for tcs
    using flush_hold_ok tool_calls_ok by (rule triple_seq)
  show ?thesis unfolding handle_delta_def
    by (intro triple_seq [where Q = anywhere] triple_whenever)
      (auto intro: triple_conseq [OF r] triple_conseq [OF hold_text_ok] t triple_emit split: option.split list.split)
qed

section \<open>The whole stream\<close>

lemma message_start_ok:
  assumes "stream_inv s" "\<not> messageStartSent s"
  shows "accept_all (client_view s) (fst (message_start s)) = Some (client_view (snd (message_start s)))"
    "stream_inv (snd (message_start s))" "messageStartSent (snd (message_start s))"
  using assms by (auto simp: message_start_def accept_def client_view_def stream_inv_def)

lemma unseen_usage: "unseen s (set_usage chunk s)"
  by (simp add: set_usage_def unseen_def client_view_def stream_inv_def split: option.split)

lemma usage_inv: "stream_inv (set_usage chunk s) = stream_inv s" "messageStartSent (set_usage chunk s) = messageStartSent s"
  "client_view (set_usage chunk s) = client_view s"
  by (simp_all add: set_usage_def stream_inv_def client_view_def split: option.split)

lemma finish_inv: "messageStartSent s \<Longrightarrow> stream_inv (note_finish c s) = stream_inv s"
  "messageStartSent (note_finish c s) = messageStartSent s" "client_view (note_finish c s) = client_view s"
  by (auto simp: note_finish_def Let_def stream_inv_def client_view_def)

lemma chunk_ok:
  assumes "stream_inv s"
  shows "accept_all (client_view s) (fst (ProcessChunk rnd chunk s)) = Some (client_view (snd (ProcessChunk rnd chunk s))) \<and>
    stream_inv (snd (ProcessChunk rnd chunk s))"
proof -
  have other: "accept_all (client_view s) (fst r) = Some (client_view (snd r)) \<and> stream_inv (snd r)"
    if "r = andThen (update (set_usage chunk)) (whenever (\<lambda>s. obj_at chunk ''usage'' \<noteq> None \<and> \<not> messageStartSent s) message_start) s" for r
    using that assms message_start_ok [of "set_usage chunk s"] by (simp add: whenever_def usage_inv)
  show ?thesis
  proof (cases "arr_at chunk ''choices''")
    case None
    then show ?thesis using other by (simp add: ProcessChunk_def)
  next
    case (Some cs)
    show ?thesis
    proof (cases cs)
      case Nil
      then show ?thesis using other Some by (simp add: ProcessChunk_def)
    next
      case (Cons choice rest)
      define d where "d = (case obj_at choice ''delta'' of Some d \<Rightarrow> d | None \<Rightarrow> JObj [])"
      define r1 where "r1 = whenever (\<lambda>s. \<not> messageStartSent s \<and> \<not> finishSent s) message_start s"
      have fin: "\<not> messageStartSent s \<Longrightarrow> \<not> finishSent s" using assms by (auto simp: stream_inv_def)
      have 1: "accept_all (client_view s) (fst r1) = Some (client_view (snd r1))" "stream_inv (snd r1)" "messageStartSent (snd r1)"
        using assms message_start_ok [OF assms] fin by (auto simp: r1_def whenever_def)
      let ?f = "andThen (whenever (\<lambda>s. \<not> finishSent s) (handle_delta rnd d))
          (andThen (update (set_usage chunk)) (update (note_finish choice)))"
      have "triple anywhere (update (set_usage chunk)) anywhere" "triple anywhere (update (note_finish choice)) anywhere"
        by (auto intro!: tripleI simp: keeps_def usage_inv finish_inv)
      then have "triple anywhere ?f anywhere"
        by (intro triple_seq [where Q = anywhere] triple_whenever) (auto intro: triple_conseq [OF delta_ok])
      then have 2: "keeps (snd r1) (?f (snd r1))" using 1 by (intro triple_at) simp_all
      have "ProcessChunk rnd chunk s = (if is_obj choice then (fst r1 @ fst (?f (snd r1)), snd (?f (snd r1))) else ([], s))"
        unfolding ProcessChunk_def Some Cons by (simp add: r1_def d_def prod_eq_iff)
      then show ?thesis using 1 2 assms by (simp add: keeps_def accept_all_append del: andThen_simps)
    qed
  qed
qed

lemma chunks_ok:
  "stream_inv s \<Longrightarrow>
   accept_all (client_view s) (fst (forEach (ProcessChunk rnd) chunks s)) = Some (client_view (snd (forEach (ProcessChunk rnd) chunks s))) \<and>
   stream_inv (snd (forEach (ProcessChunk rnd) chunks s))"
proof (induction chunks arbitrary: s)
  case (Cons c cs)
  then show ?case using chunk_ok [of s rnd c] by (simp add: accept_all_append)
qed simp

lemma end_accepted:
  "stream_inv s \<Longrightarrow> messageStartSent s \<Longrightarrow> no_tools s \<Longrightarrow> no_prose s \<Longrightarrow>
   accept_all (client_view s) (fst (message_end s)) = Some ((client_view s)\<lparr>cPhase := Stopped\<rparr>)"
  by (simp add: message_end_def accept_def accept_block_def client_view_def)

lemma prose_closed: "triple no_tools (andThen close_text close_thinking) (\<lambda>s. openToolBlocks s = [] \<and> no_prose s)"
proof -
  have "triple no_tools (andThen close_text close_thinking) no_prose"
    using triple_conseq [OF close_text_any, of no_tools "\<lambda>s. \<not> textOpen s"] close_thinking_any by blast
  moreover have "openToolBlocks (snd (andThen close_text close_thinking s)) = openToolBlocks s" for s
    by (simp add: close_text_def close_thinking_def closeThinkingBlock_def whenever_def)
  ultimately show ?thesis by (simp add: triple_def)
qed

lemma tail_ok:
  "triple anywhere (andThen (FlushHoldAtEnd rnd) (andThen close_text (andThen close_thinking (andThen closeOpenToolBlocks
     (andThen flushPendingContent (andThen close_text close_thinking)))))) (\<lambda>s. openToolBlocks s = [] \<and> no_prose s)"
proof -
  have f: "triple anywhere (FlushHoldAtEnd rnd) anywhere"
    by (rule tripleI) (simp add: FlushHoldAtEnd_def triple_at [OF flush_hold_ok])
  show ?thesis
    by (rule triple_seq [OF f triple_seq [OF close_text_any triple_seq [OF close_thinking_any triple_seq [OF close_tools_ok
        triple_seq [OF flush_pending_ok prose_closed]]]]])
qed


section \<open>Tool calls\<close>

text \<open>
  Parallel calls are not sequential blocks: the second tool block starts before the first one stops.
\<close>

theorem parallel_blocks_overlap:
  "map (\<lambda>(name, d). (name, index_of d))
     (fst (run_stream (\<lambda>_. ''r'') [calls_chunk [new_call 0 ''a'' ''f'' ''{}'', new_call 1 ''b'' ''g'' ''{}''], finish_chunk ''tool_calls''])) =
   [(''message_start'', 0), (''content_block_start'', 0), (''content_block_start'', 1),
    (''content_block_delta'', 0), (''content_block_stop'', 0), (''content_block_delta'', 1), (''content_block_stop'', 1),
    (''message_delta'', 0), (''message_stop'', 0)]"
  by code_simp

text \<open>
  When the upstream stops without a finish reason, the arguments it sent for an open call never reach the
  client, and neither does the end of the block.
\<close>

theorem truncated_stream_loses_arguments:
  "map (\<lambda>(name, d). (name, index_of d)) (fst (run_stream (\<lambda>_. ''r'') [calls_chunk [new_call 0 ''a'' ''f'' ''{}'']])) =
   [(''message_start'', 0), (''content_block_start'', 0)]"
  by code_simp

text \<open>
  The suffix that makes a repeated call id unique can collide with a later id of the upstream.
\<close>

theorem stream_ids_collide:
  "map tiID (map snd (toolCalls (snd (forEach (ProcessChunk (\<lambda>_. ''r''))
     [calls_chunk [new_call 0 ''a'' ''f'' ''{}'', new_call 1 ''a'' ''f'' ''{}'', new_call 2 ''a_1'' ''f'' ''{}'']]
     (NewStreamState (\<lambda>_. ''r'')))))) = [''a'', ''a_1'', ''a_1'']"
  by code_simp

lemma update_again: "AList.update k w (AList.update k v m) = AList.update k w m"
  by (induction m) auto

lemma trunc_of_nat: "trunc_num (of_nat k) = int k"
  by (simp add: trunc_num_def)

lemma index_more: "int_at (more_args k a) ''index'' = int k"
  by (simp add: more_args_def int_at_def num_at_def trunc_of_nat)

lemma call_more: "start_call (more_args k a) j s = ([], s)" "call_args (more_args k a) = a" "is_obj (more_args k a)"
  by (simp_all add: start_call_def more_args_def str_at_def call_args_def fn_of_def obj_at_def)

lemma handle_more: "handle_call (more_args k a) s = add_args (int k) a s"
  by (simp add: handle_call_def index_more call_more andThen_def Let_def split: prod.split)

lemma add_twice: "snd (add_args k b (snd (add_args k a s))) = snd (add_args k (a @ b) s)"
  by (auto simp: add_args_def update_again split: option.split)

lemma add_events: "fst (add_args k a s) = []"
  by (simp add: add_args_def)

text \<open>A chunk with arguments only, on a state that has started.\<close>

lemma calls_chunk_step:
  "ProcessChunk rnd (calls_chunk tcs) s =
     andThen (whenever (\<lambda>s. \<not> messageStartSent s \<and> \<not> finishSent s) message_start)
       (whenever (\<lambda>s. \<not> finishSent s)
         (case tcs of [] \<Rightarrow> emit [] | tc # ts \<Rightarrow> andThen (flushHold rnd False False) (handleToolCalls tcs))) s"
proof -
  let ?d = "JObj [(''tool_calls'', JArr tcs)]"
  have d: "handle_delta rnd ?d t = (case tcs of [] \<Rightarrow> emit [] | tc # ts \<Rightarrow> andThen (flushHold rnd False False) (handleToolCalls tcs)) t" for t
    by (cases tcs) (simp_all add: handle_delta_def delta_reasoning_def str_at_def arr_at_def prod_eq_iff whenever_def)
  have u: "set_usage (calls_chunk tcs) t = t" "note_finish (JObj [(''delta'', ?d)]) t = t" for t
    by (simp_all add: set_usage_def note_finish_def calls_chunk_def obj_at_def str_at_def)
  have "ProcessChunk rnd (calls_chunk tcs) s = andThen (whenever (\<lambda>s. \<not> messageStartSent s \<and> \<not> finishSent s) message_start)
      (andThen (whenever (\<lambda>s. \<not> finishSent s) (handle_delta rnd ?d))
        (andThen (update (set_usage (calls_chunk tcs))) (update (note_finish (JObj [(''delta'', ?d)]))))) s"
    by (simp add: ProcessChunk_def calls_chunk_def arr_at_def obj_at_def)
  then show ?thesis by (simp add: prod_eq_iff whenever_def d u)
qed

text \<open>
  It does not matter how the upstream cuts the arguments of a call: two chunks with one part each do to any
  state what one chunk with both parts does.
\<close>

theorem arguments_in_pieces:
  "forEach (ProcessChunk rnd) [calls_chunk [more_args k a], calls_chunk [more_args k b]] s =
   ProcessChunk rnd (calls_chunk [more_args k (a @ b)]) s"
proof -
  have f: "flushHold rnd False False (snd (add_args (int k) a (t\<lparr>nativeToolSeen := True\<rparr>))) = ([], snd (add_args (int k) a (t\<lparr>nativeToolSeen := True\<rparr>)))"
    if "holdBuf t = []" for t a
    using that by (simp add: flushHold_def add_args_def)
  have h: "holdBuf (snd (flushHold rnd False False t)) = []" for t
    by (simp add: flushHold_def forwardHeldProse_def handleTextContent_def pend_def close_thinking_def closeThinkingBlock_def
        open_text_def send_text_def whenever_def Let_def)
  have g: "finishSent (snd (flushHold rnd False False t)) = finishSent t"
    "messageStartSent (snd (flushHold rnd False False t)) = messageStartSent t" for t
    by (simp_all add: flushHold_def forwardHeldProse_def handleTextContent_def pend_def close_thinking_def closeThinkingBlock_def
        open_text_def send_text_def whenever_def Let_def)
  have n: "(snd (add_args (int k) a (t\<lparr>nativeToolSeen := True\<rparr>)))\<lparr>nativeToolSeen := True\<rparr> = snd (add_args (int k) a (t\<lparr>nativeToolSeen := True\<rparr>))" for t
    by (simp add: add_args_def)
  have m: "messageStartSent (snd (add_args (int k) a t)) = messageStartSent t" "finishSent (snd (add_args (int k) a t)) = finishSent t" for t
    by (simp_all add: add_args_def)
  show ?thesis
    by (simp add: calls_chunk_step prod_eq_iff whenever_def handleToolCalls_def handle_more add_events add_twice f h g n m message_start_def)
qed

lemma forEach_append: "forEach f (xs @ ys) = andThen (forEach f xs) (forEach f ys)"
  by (induction xs) (auto simp: fun_eq_iff prod_eq_iff)

section \<open>A call from end to end\<close>

lemma call_run:
  assumes "ident \<noteq> []" "concat (args # pieces) \<noteq> []"
  shows "\<exists>t u. fst (run_stream rnd (calls_chunk [new_call k ident name args] # map (\<lambda>p. calls_chunk [more_args k p]) pieces @ [finish_chunk ''tool_calls''])) =
    fst (message_start u) @
    [block_start 0 (JObj [(''type'', JStr ''tool_use''), (''id'', JStr ident), (''name'', JStr name)]),
     block_delta 0 (JObj [(''type'', JStr ''input_json_delta''), (''partial_json'', JStr (SanitizeToolArgs (repairToolArgs (concat (args # pieces)))))]),
     contentBlockStop 0] @ fst (message_end t) \<and> finishReason t = ''tool_calls'' \<and> streamUsage u = None"
proof -
  let ?s0 = "NewStreamState rnd"
  let ?s1 = "\<lambda>a. ?s0\<lparr>messageStartSent := True, nativeToolSeen := True, nextBlockIdx := Suc 0, openToolBlocks := [0],
      toolCalls := [(int k, \<lparr>tiID = ident, tiName = name, tiIndex = 0\<rparr>)], toolArgBufs := [(int k, a)], outputContent := a, seenIDs := [(ident, Suc 0)]\<rparr>"
  have new: "int_at (new_call k ident name args) ''index'' = int k" "is_obj (new_call k ident name args)"
    "str_at (new_call k ident name args) ''id'' = ident" "call_args (new_call k ident name args) = args"
    "str_at (fn_of (new_call k ident name args)) ''name'' = name"
    by (simp_all add: new_call_def int_at_def num_at_def trunc_of_nat str_at_def call_args_def fn_of_def obj_at_def)
  have h: "flushHold rnd False False (t\<lparr>holdBuf := []\<rparr>) = ([], t\<lparr>holdBuf := []\<rparr>)" for t by (simp add: flushHold_def)
  have 1: "ProcessChunk rnd (calls_chunk [new_call k ident name args]) ?s0 =
      (fst (message_start ?s0) @ [block_start 0 (JObj [(''type'', JStr ''tool_use''), (''id'', JStr ident), (''name'', JStr name)])], ?s1 args)"
    using assms(1)
    by (simp add: calls_chunk_step prod_eq_iff whenever_def flushHold_def handleToolCalls_def handle_call_def Let_def new start_call_def unique_id_def
        close_text_def close_thinking_def register_call_def add_args_def NewStreamState_def message_start_def)
  have 2: "forEach (ProcessChunk rnd) (map (\<lambda>p. calls_chunk [more_args k p]) ps) (?s1 a) = ([], ?s1 (a @ concat ps))" for ps a
  proof (induction ps arbitrary: a)
    case (Cons p ps)
    have "ProcessChunk rnd (calls_chunk [more_args k p]) (?s1 a) = ([], ?s1 (a @ p))"
      by (simp add: calls_chunk_step prod_eq_iff whenever_def flushHold_def handleToolCalls_def handle_more add_args_def NewStreamState_def)
    then show ?case using Cons [of "a @ p"] by (simp add: prod_eq_iff)
  qed (simp add: emit_def)
  have 3: "ProcessChunk rnd (finish_chunk ''tool_calls'') (?s1 a) = ([], (?s1 a)\<lparr>finishReason := ''tool_calls'', finishSent := True\<rparr>)" for a
    by (simp add: ProcessChunk_def finish_chunk_def arr_at_def obj_at_def prod_eq_iff whenever_def handle_delta_def delta_reasoning_def
        str_at_def set_usage_def note_finish_def NewStreamState_def Let_def)
  define a where "a = args @ concat pieces"
  have a: "a \<noteq> []" using assms(2) by (auto simp: a_def)
  have chunks: "forEach (ProcessChunk rnd) (calls_chunk [new_call k ident name args] # map (\<lambda>p. calls_chunk [more_args k p]) pieces @ [finish_chunk ''tool_calls'']) ?s0 =
      (fst (message_start ?s0) @ [block_start 0 (JObj [(''type'', JStr ''tool_use''), (''id'', JStr ident), (''name'', JStr name)])],
       (?s1 a)\<lparr>finishReason := ''tool_calls'', finishSent := True\<rparr>)"
    by (simp add: forEach_append 1 2 3 prod_eq_iff a_def)
  have fin: "fst (Finalize rnd ((?s1 a)\<lparr>finishReason := ''tool_calls'', finishSent := True\<rparr>)) =
      [block_delta 0 (JObj [(''type'', JStr ''input_json_delta''), (''partial_json'', JStr (SanitizeToolArgs (repairToolArgs a)))]),
       contentBlockStop 0] @ fst (message_end ((?s1 a)\<lparr>finishReason := ''tool_calls'', finishSent := True\<rparr>))"
    using a by (simp add: Finalize_def handleFinish_def FlushHoldAtEnd_def flushHold_def close_text_def close_thinking_def whenever_def
        closeOpenToolBlocks_def flushToolBlockArgs_def flushPendingContent_def message_end_def final_usage_def NewStreamState_def)
  show ?thesis
    unfolding run_stream_def andThen_simps(1) chunks fst_conv snd_conv fin
    by (intro exI [of _ "(?s1 a)\<lparr>finishReason := ''tool_calls'', finishSent := True\<rparr>"] exI [of _ ?s0]) (simp add: a_def NewStreamState_def)
qed

lemma call_events:
  assumes "ident \<noteq> []" "concat (args # pieces) \<noteq> []"
  shows "map (\<lambda>(name, d). (name, index_of d, case obj_at d ''delta'' of Some x \<Rightarrow> x | None \<Rightarrow> JNull))
     (fst (run_stream rnd (calls_chunk [new_call k ident name args] # map (\<lambda>p. calls_chunk [more_args k p]) pieces @ [finish_chunk ''tool_calls'']))) =
   [(''message_start'', 0, JNull), (''content_block_start'', 0, JNull),
    (''content_block_delta'', 0, JObj [(''type'', JStr ''input_json_delta''),
       (''partial_json'', JStr (SanitizeToolArgs (repairToolArgs (concat (args # pieces)))))]),
    (''content_block_stop'', 0, JNull),
    (''message_delta'', 0, JObj [(''stop_reason'', JStr ''tool_use''), (''stop_sequence'', JNull)]),
    (''message_stop'', 0, JNull)]"
  using call_run [OF assms, of rnd k name]
  by (auto simp: message_start_def message_end_def block_start_def block_delta_def contentBlockStop_def
      index_of_def num_at_def obj_at_def mapFinishReason_def)




end
