(* ===== verification/Sse.thy ===== *)
theory Sse
  imports Prelude
begin

text \<open>
  Framing of event streams (internal/translate/internal/helpers/helpers.go): cutting what has arrived at a
  separator, and a translator that is fed in pieces. What a client sees of a translator does not depend on
  how the network cut the stream; that is proved once for every translator.
\<close>

section \<open>Cutting\<close>

text \<open>The text before the first separator and the text after it (strings.Index).\<close>

fun cut_at :: "string \<Rightarrow> string \<Rightarrow> (string \<times> string) option" where
  "cut_at sep [] = (if sep = [] then Some ([], []) else None)"
| "cut_at sep (c # cs) =
     (if has_prefix (c # cs) sep then Some ([], drop (length sep) (c # cs))
      else map_option (\<lambda>(a, b). (c # a, b)) (cut_at sep cs))"

text \<open>A loop that does not end for an empty separator; the value of such a call is None.\<close>

partial_function (option) SplitSSE :: "string \<Rightarrow> string \<Rightarrow> (string list \<times> string) option" where
  "SplitSSE sep data =
     (case cut_at sep data of
        None \<Rightarrow> Some ([], data)
      | Some (a, b) \<Rightarrow> Option.bind (SplitSSE sep b) (\<lambda>(chunks, rest). Some (a # chunks, rest)))"

declare SplitSSE.simps [code]

text \<open>Feed of the stream states: the complete pieces, and what is kept for the next call.\<close>

definition feed :: "string \<Rightarrow> string \<Rightarrow> string \<Rightarrow> string list \<times> string" where
  "feed sep buf p = the (SplitSSE sep (buf @ p))"

section \<open>Translators\<close>

text \<open>A step maps a state and a piece to the text it emits and the next state.\<close>

fun steps :: "('s \<Rightarrow> string \<Rightarrow> string \<times> 's) \<Rightarrow> 's \<Rightarrow> string list \<Rightarrow> string \<times> 's" where
  "steps f s [] = ([], s)"
| "steps f s (x # xs) = (case f s x of (e, s1) \<Rightarrow> case steps f s1 xs of (es, s2) \<Rightarrow> (e @ es, s2))"

definition write_piece :: "string \<Rightarrow> ('s \<Rightarrow> string \<Rightarrow> string \<times> 's) \<Rightarrow> string \<times> 's \<Rightarrow> string \<Rightarrow> string \<times> (string \<times> 's)" where
  "write_piece sep f st p =
     (case feed sep (fst st) p of (chunks, rest) \<Rightarrow>
      case steps f (snd st) chunks of (e, s) \<Rightarrow> (e, rest, s))"

section \<open>Cutting ends and loses nothing\<close>

lemma cut_at_sound: "cut_at sep s = Some (a, b) \<Longrightarrow> s = a @ sep @ b"
  by (induction sep s arbitrary: a b rule: cut_at.induct) (auto simp: prefix_def split: if_splits)

lemma cut_at_None: "cut_at sep s = None \<longleftrightarrow> \<not> contains s sep"
  by (induction sep s rule: cut_at.induct) auto

lemma cut_at_prefix: "cut_at sep (sep @ z) = Some ([], z)"
  by (cases "sep @ z") (auto dest: arg_cong [of _ _ "drop (length sep)"] intro: prefixI [OF sym])

lemma cut_at_append: "cut_at sep s = Some (a, b) \<Longrightarrow> cut_at sep (s @ t) = Some (a, b @ t)"
proof (induction sep s arbitrary: a b rule: cut_at.induct)
  case (1 sep)
  then show ?case by (cases t) (auto split: if_splits)
next
  case (2 sep c cs)
  show ?case
  proof (cases "prefix sep (c # cs)")
    case True
    then obtain z where z: "c # cs = sep @ z" by (auto simp: prefix_def)
    then have "(c # cs) @ t = sep @ z @ t" by simp
    then show ?thesis using 2(2) z cut_at_prefix [of sep] by (simp del: cut_at.simps)
  next
    case False
    then obtain a' where a: "a = c # a'" "cut_at sep cs = Some (a', b)" using 2(2) by (auto split: if_splits)
    have len: "length sep \<le> length cs" using cut_at_sound [OF a(2)] by simp
    then have "\<not> prefix sep ((c # cs) @ t)" using False
      by (metis append_take_drop_id length_Cons le_SucI prefixE prefix_length_prefix prefixI)
    then show ?thesis using a "2.IH" [OF False a(2)] by simp
  qed
qed

lemma cut_at_piece: "cut_at sep s = Some (a, b) \<Longrightarrow> cut_at sep (a @ sep) = Some (a, [])"
proof (induction sep s arbitrary: a b rule: cut_at.induct)
  case (1 sep)
  then show ?case by (auto split: if_splits)
next
  case (2 sep c cs)
  show ?case
  proof (cases "prefix sep (c # cs)")
    case True
    then show ?thesis using 2(2) by (cases sep) (auto split: if_splits)
  next
    case False
    then obtain a' where a: "a = c # a'" "cut_at sep cs = Some (a', b)" using 2(2) by (auto split: if_splits)
    have "prefix (c # a' @ sep) (c # cs)" using cut_at_sound [OF a(2)] by (auto simp: prefix_def)
    then have "\<not> prefix sep (c # a' @ sep)" using False prefix_order.trans by blast
    then show ?thesis using a "2.IH" [OF False a(2)] by simp
  qed
qed

lemma split_exists:
  "sep \<noteq> [] \<Longrightarrow> \<exists>chunks rest. SplitSSE sep data = Some (chunks, rest) \<and>
     data = concat (map (\<lambda>c. c @ sep) chunks) @ rest \<and> \<not> contains rest sep \<and> (\<forall>c \<in> set chunks. cut_at sep (c @ sep) = Some (c, []))"
proof (induction "length data" arbitrary: data rule: less_induct)
  case less
  show ?case
  proof (cases "cut_at sep data")
    case None
    then show ?thesis by (simp add: SplitSSE.simps [of sep data] cut_at_None [symmetric])
  next
    case (Some x)
    obtain a b where x: "x = (a, b)" by (cases x)
    have d: "data = a @ sep @ b" using cut_at_sound Some x by blast
    then have "length b < length data" using less(2) by simp
    then obtain cs r where r: "SplitSSE sep b = Some (cs, r)" "b = concat (map (\<lambda>c. c @ sep) cs) @ r" "\<not> contains r sep"
      "\<forall>c \<in> set cs. cut_at sep (c @ sep) = Some (c, [])" using less(1) less(2) by blast
    have "cut_at sep (a @ sep) = Some (a, [])" using cut_at_piece Some x by blast
    moreover have "SplitSSE sep data = Some (a # cs, r)" using Some x r(1) by (simp add: SplitSSE.simps [of sep data])
    ultimately show ?thesis using r(2-4) d by (intro exI [of _ "a # cs"] exI [of _ r]) simp
  qed
qed

lemma SplitSSE_append:
  assumes "sep \<noteq> []" "SplitSSE sep x = Some (cs, r)"
  shows "SplitSSE sep (x @ y) = map_option (\<lambda>(cs', r'). (cs @ cs', r')) (SplitSSE sep (r @ y))"
  using assms(2)
proof (induction "length x" arbitrary: x cs rule: less_induct)
  case less
  show ?case
  proof (cases "cut_at sep x")
    case None
    then show ?thesis using less(2) by (cases "SplitSSE sep (x @ y)") (auto simp: SplitSSE.simps [of sep x])
  next
    case (Some z)
    obtain a b where z: "z = (a, b)" by (cases z)
    obtain cs1 where c: "SplitSSE sep b = Some (cs1, r)" "cs = a # cs1"
      using less(2) Some z by (auto simp: SplitSSE.simps [of sep x] split: Option.bind_splits)
    have "length b < length x" using cut_at_sound [of sep x a b] Some z assms(1) by simp
    then have "SplitSSE sep (b @ y) = map_option (\<lambda>(cs', r'). (cs1 @ cs', r')) (SplitSSE sep (r @ y))"
      using less(1) c(1) by blast
    then show ?thesis using Some z c(2) cut_at_append [of sep x a b y]
      by (cases "SplitSSE sep (r @ y)") (auto simp: SplitSSE.simps [of sep "x @ y"])
  qed
qed

lemma feed_append:
  assumes "sep \<noteq> []" "feed sep buf p = (cs, r)"
  shows "feed sep buf (p @ q) = (case feed sep r q of (cs', r') \<Rightarrow> (cs @ cs', r'))"
proof -
  obtain cs0 r0 where 1: "SplitSSE sep (buf @ p) = Some (cs0, r0)" using split_exists [OF assms(1)] by blast
  obtain cs1 r1 where 2: "SplitSSE sep (r0 @ q) = Some (cs1, r1)" using split_exists [OF assms(1)] by blast
  show ?thesis using assms(2) SplitSSE_append [OF assms(1) 1, of q] 1 2 by (auto simp: feed_def)
qed

lemma steps_append: "steps f s (xs @ ys) = (case steps f s xs of (e, s1) \<Rightarrow> case steps f s1 ys of (es, s2) \<Rightarrow> (e @ es, s2))"
  by (induction xs arbitrary: s) (auto split: prod.splits)

text \<open>Two writes are one write of both pieces.\<close>

lemma write_split:
  assumes "sep \<noteq> []"
  shows "write_piece sep f st (p @ q) =
    (case write_piece sep f st p of (e, st1) \<Rightarrow> case write_piece sep f st1 q of (es, st2) \<Rightarrow> (e @ es, st2))"
proof -
  obtain cs r where 1: "feed sep (fst st) p = (cs, r)" by fastforce
  obtain cs' r' where 2: "feed sep r q = (cs', r')" by fastforce
  show ?thesis using feed_append [OF assms 1, of q] 1 2 by (simp add: write_piece_def steps_append split: prod.splits)
qed

text \<open>
  C40:
  Splitting a stream ends for every separator that is not empty. The pieces with their separators and the rest
  make up the data, and no separator is left in the rest or starts inside a piece.
\<close>

theorem split_returns:
  "sep \<noteq> [] \<Longrightarrow> \<exists>chunks rest. SplitSSE sep data = Some (chunks, rest) \<and>
     data = concat (map (\<lambda>c. c @ sep) chunks) @ rest \<and> \<not> contains rest sep \<and> (\<forall>c \<in> set chunks. cut_at sep (c @ sep) = Some (c, []))"
  by (rule split_exists)

theorem split_returns_witness:
  "\<exists>chunks rest. SplitSSE ''|'' ''a|b'' = Some (chunks, rest) \<and> ''a|b'' = concat (map (\<lambda>c. c @ ''|'') chunks) @ rest"
  using split_returns [of "''|''" "''a|b''"] by blast

end
