(* ===== verification/Claude_Response.thy ===== *)
theory Claude_Response
  imports Claude_Stream Claude_Request
begin

text \<open>
  Complete answers between OpenAI and Claude (internal/translate/claude/json.go, json_to_openai.go). The
  random source is a function of the number of draws so far, which is threaded through the conversion.
\<close>

section \<open>OpenAI to Claude\<close>

definition signed_thinking :: "string \<Rightarrow> json" where
  "signed_thinking t = JObj [(''type'', JStr ''thinking''), (''thinking'', JStr t), (''signature'', JStr ''unsigned'')]"

definition tool_use :: "string \<Rightarrow> string \<Rightarrow> json \<Rightarrow> json" where
  "tool_use ident name input =
     JObj [(''type'', JStr ''tool_use''), (''id'', JStr ident), (''name'', JStr name), (''input'', input)]"

definition thinking_content :: "json \<Rightarrow> json list" where
  "thinking_content msg =
     (let t = SanitizeAssistantText (delta_reasoning msg) in if t = [] then [] else [signed_thinking t])"

text \<open>An encoded value put into a document as it is; the text of a recovered call always decodes.\<close>

definition raw_message :: "string \<Rightarrow> json" where
  "raw_message s = (case json_parse s of Some v \<Rightarrow> v | None \<Rightarrow> JNull)"

definition orphanCallsFor :: "string \<Rightarrow> orphan_call list" where
  "orphanCallsFor text = fst (snd (ExtractOrphanInvokes text))"

fun recovered_uses :: "(nat \<Rightarrow> string) \<Rightarrow> nat \<Rightarrow> orphan_call list \<Rightarrow> json list \<times> nat" where
  "recovered_uses rnd n [] = ([], n)"
| "recovered_uses rnd n (c # cs) =
     (case recovered_uses rnd (Suc n) cs of (us, n') \<Rightarrow>
        (tool_use (''toolu_'' @ rnd n) (ocName c) (raw_message (ocInput c)) # us, n'))"

text \<open>A content part is cleaned in place; one that only held scaffolding is dropped.\<close>

definition clean_part :: "json \<Rightarrow> json option" where
  "clean_part p =
     (let t = str_at p ''text''; cleaned = SanitizeAssistantText t
      in if t = [] \<or> cleaned = t then Some p else if cleaned = [] then None else Some (jset ''text'' (JStr cleaned) p))"

definition part_text :: "json \<Rightarrow> string" where
  "part_text p = str_at (case clean_part p of Some q \<Rightarrow> q | None \<Rightarrow> p) ''text''"

definition text_content :: "(nat \<Rightarrow> string) \<Rightarrow> nat \<Rightarrow> bool \<Rightarrow> json \<Rightarrow> json list \<times> nat" where
  "text_content rnd n native msg =
     (let orphans = (\<lambda>texts. if native then ([], n) else recovered_uses rnd n (concat (map orphanCallsFor texts)))
      in case jget msg ''content'' of
           Some (JStr c) \<Rightarrow>
             (case orphans [c] of (us, n') \<Rightarrow>
                ((if SanitizeAssistantText c = [] then [] else [text_block (SanitizeAssistantText c)]) @ us, n'))
         | Some (JArr ps) \<Rightarrow> (case orphans (map part_text ps) of (us, n') \<Rightarrow> (List.map_filter clean_part ps @ us, n'))
         | _ \<Rightarrow> ([], n))"

definition call_parts :: "json \<Rightarrow> string list" where
  "call_parts fn =
     (case jget fn ''arguments'' of
        Some (JStr a) \<Rightarrow> if a = [] then [] else map SanitizeToolArgs (splitToolArgs a)
      | Some (JObj m) \<Rightarrow> [json_print (JObj m)]
      | _ \<Rightarrow> [])"

definition part_input :: "string \<Rightarrow> json" where
  "part_input part =
     (case (if part = [] then None else json_parse part) of None \<Rightarrow> JObj [] | Some JNull \<Rightarrow> JObj [] | Some v \<Rightarrow> v)"

text \<open>The id of the part at a position, and the uses of the ids so far.\<close>

definition part_id :: "string \<Rightarrow> nat \<Rightarrow> (string, nat) gomap \<Rightarrow> string \<times> (string, nat) gomap" where
  "part_id base i seen =
     (case map_of seen base of
        Some k \<Rightarrow> (base @ ''_'' @ show_nat k, mput base (k + 1) seen)
      | None \<Rightarrow> (if 0 < i then base @ ''_'' @ show_nat (i + 1) else base, mput base 1 seen))"

fun part_uses :: "string \<Rightarrow> string \<Rightarrow> nat \<Rightarrow> (string, nat) gomap \<Rightarrow> string list \<Rightarrow> json list \<times> (string, nat) gomap" where
  "part_uses base name i seen [] = ([], seen)"
| "part_uses base name i seen (p # ps) =
     (case part_id base i seen of (ident, seen1) \<Rightarrow>
      case part_uses base name (Suc i) seen1 ps of (us, seen2) \<Rightarrow> (tool_use ident name (part_input p) # us, seen2))"

fun call_uses :: "(nat \<Rightarrow> string) \<Rightarrow> nat \<Rightarrow> (string, nat) gomap \<Rightarrow> json list \<Rightarrow> json list \<times> nat" where
  "call_uses rnd n seen [] = ([], n)"
| "call_uses rnd n seen (tc # tcs) =
     (case obj_at tc ''function'' of
        None \<Rightarrow> call_uses rnd n seen tcs
      | Some fn \<Rightarrow>
          (case (if str_at tc ''id'' = [] then (''toolu_'' @ rnd n, Suc n) else (str_at tc ''id'', n)) of (base, n1) \<Rightarrow>
           case part_uses base (str_at fn ''name'') 0 seen (call_parts fn) of (us, seen1) \<Rightarrow>
           case call_uses rnd n1 seen1 tcs of (vs, n2) \<Rightarrow> (us @ vs, n2)))"

definition native_calls :: "json \<Rightarrow> json list" where
  "native_calls msg = (case arr_at msg ''tool_calls'' of Some tcs \<Rightarrow> tcs | None \<Rightarrow> [])"

definition convertOpenAIMessage :: "(nat \<Rightarrow> string) \<Rightarrow> nat \<Rightarrow> json \<Rightarrow> json list \<times> nat" where
  "convertOpenAIMessage rnd n msg =
     (case text_content rnd n (native_calls msg \<noteq> []) msg of (texts, n1) \<Rightarrow>
      case call_uses rnd n1 [] (native_calls msg) of (calls, n2) \<Rightarrow>
        (let content = thinking_content msg @ texts @ calls
         in (if content = [] then [text_block []] else content, n2)))"

definition claude_usage :: "json \<Rightarrow> json" where
  "claude_usage resp = usage_json (case obj_at resp ''usage'' of Some u \<Rightarrow> extractUsage u | None \<Rightarrow> no_usage)"

definition first_choice :: "json \<Rightarrow> json option" where
  "first_choice resp = (case arr_at resp ''choices'' of Some (JObj m # _) \<Rightarrow> Some (JObj m) | _ \<Rightarrow> None)"

text \<open>The Claude message for a decoded answer.\<close>

definition claude_message :: "(nat \<Rightarrow> string) \<Rightarrow> json \<Rightarrow> json" where
  "claude_message rnd resp =
     (let choice = first_choice resp;
          stop = (case choice of
              None \<Rightarrow> JNull
            | Some c \<Rightarrow> (case jget c ''finish_reason'' of Some (JStr fr) \<Rightarrow> JStr (mapFinishReason fr) | _ \<Rightarrow> JStr []));
          content = (case choice of
              None \<Rightarrow> []
            | Some c \<Rightarrow> (case obj_at c ''message'' of Some msg \<Rightarrow> fst (convertOpenAIMessage rnd 1 msg) | None \<Rightarrow> []))
      in JObj [(''id'', JStr (''msg_'' @ rnd 0)), (''type'', JStr ''message''), (''role'', JStr ''assistant''),
           (''content'', JArr content), (''model'', nil_at resp ''model''), (''stop_reason'', stop), (''stop_sequence'', JNull),
           (''usage'', claude_usage resp)])"

definition JSONToClaude :: "(nat \<Rightarrow> string) \<Rightarrow> string \<Rightarrow> string res" where
  "JSONToClaude rnd body =
     (case unmarshal_map body of
        None \<Rightarrow> Inl ''json''
      | Some resp \<Rightarrow> Inr (json_print (claude_message rnd resp)))"

section \<open>Claude to OpenAI\<close>

definition extractTextFromBlocks :: "json list \<Rightarrow> string" where
  "extractTextFromBlocks blocks = concat (map (\<lambda>b. if str_at b ''type'' = ''text'' then str_at b ''text'' else []) blocks)"

text \<open>The calls from a position on, and the draws.\<close>

fun extract_calls :: "(nat \<Rightarrow> string) \<Rightarrow> nat \<Rightarrow> nat \<Rightarrow> json list \<Rightarrow> json list" where
  "extract_calls rnd n i [] = []"
| "extract_calls rnd n i (b # blocks) =
     (if str_at b ''type'' \<noteq> ''tool_use'' then extract_calls rnd n i blocks
      else let fresh = (str_at b ''id'' = [])
           in JObj [(''id'', JStr (if fresh then ''toolu_'' @ rnd n else str_at b ''id'')), (''type'', JStr ''function''),
                (''index'', JNum (of_nat i)),
                (''function'', JObj [(''name'', JStr (str_at b ''name'')), (''arguments'', JStr (mustJSON (nil_at b ''input'')))])]
              # extract_calls rnd (if fresh then Suc n else n) (Suc i) blocks)"

definition positive :: "string \<Rightarrow> int \<Rightarrow> (string \<times> json) list" where
  "positive k i = (if 0 < i then [(k, JNum (of_int i))] else [])"

text \<open>The usage of an OpenAI answer from its four counts.\<close>

definition usage_fields :: "int \<Rightarrow> int \<Rightarrow> int \<Rightarrow> int \<Rightarrow> int \<Rightarrow> json" where
  "usage_fields prompt completion altogether cacheRead cacheCreate =
     JObj ([(''prompt_tokens'', JNum (of_int prompt)), (''completion_tokens'', JNum (of_int completion)),
            (''total_tokens'', JNum (of_int altogether))] @
       (if 0 < cacheRead \<or> 0 < cacheCreate
        then [(''prompt_tokens_details'', JObj (positive ''cached_tokens'' cacheRead @ positive ''cache_creation_tokens'' cacheCreate))]
        else []))"

definition convertUsageOpenAI :: "json \<Rightarrow> json" where
  "convertUsageOpenAI u =
     (let cacheRead = int_at u ''cache_read_input_tokens''; cacheCreate = int_at u ''cache_creation_input_tokens'';
          prompt = int_at u ''input_tokens'' + cacheRead + cacheCreate; out = int_at u ''output_tokens''
      in usage_fields prompt out (prompt + out) cacheRead cacheCreate)"

definition convertStopReasonOpenAI :: "string \<Rightarrow> string" where
  "convertStopReasonOpenAI reason =
     (if reason = ''max_tokens'' then ''length'' else if reason = ''tool_use'' then ''tool_calls'' else ''stop'')"

definition completion_id :: "string \<Rightarrow> string \<Rightarrow> string" where
  "completion_id generated ident =
     (if ident = [] then ''chatcmpl-'' @ generated else if has_prefix ident ''chatcmpl-'' then ident else ''chatcmpl-'' @ ident)"

text \<open>The OpenAI answer for a decoded Claude message.\<close>

definition openai_answer :: "(nat \<Rightarrow> string) \<Rightarrow> json \<Rightarrow> json" where
  "openai_answer rnd claude =
     (let content = (case arr_at claude ''content'' of Some bl \<Rightarrow> bl | None \<Rightarrow> []);
          n = (if str_at claude ''id'' = [] then 1 else 0);
          calls = extract_calls rnd n 0 content;
          msg = JObj ([(''role'', JStr ''assistant''), (''content'', JStr (extractTextFromBlocks content))] @
                      (if calls = [] then [] else [(''tool_calls'', JArr calls)]))
      in JObj [(''id'', JStr (completion_id (rnd 0) (str_at claude ''id''))), (''object'', JStr ''chat.completion''),
           (''model'', JStr (str_at claude ''model'')),
           (''choices'', JArr [JObj [(''index'', JNum 0), (''message'', msg),
              (''finish_reason'', JStr (convertStopReasonOpenAI (str_at claude ''stop_reason'')))]]),
           (''usage'', case obj_at claude ''usage'' of Some u \<Rightarrow> convertUsageOpenAI u | None \<Rightarrow> usage_fields 0 0 0 0 0)])"

definition claude_JSONToOpenAI :: "(nat \<Rightarrow> string) \<Rightarrow> string \<Rightarrow> string res" where
  "claude_JSONToOpenAI rnd body =
     (case unmarshal_map body of
        None \<Rightarrow> Inl ''claude: invalid JSONToOpenAI body''
      | Some claude \<Rightarrow> Inr (json_print (openai_answer rnd claude)))"

section \<open>Specifications\<close>

definition partial_json :: "sse list \<Rightarrow> string" where
  "partial_json es = concat (map (\<lambda>(name, d). case obj_at d ''delta'' of Some x \<Rightarrow> str_at x ''partial_json'' | None \<Rightarrow> []) es)"

definition dsml_call :: string where
  "dsml_call = ''<|DSML|invoke name='' @ [dq] @ ''ls'' @ [dq] @ ''></|DSML|invoke>''"

definition indexed :: "nat \<Rightarrow> string \<times> string \<times> json \<Rightarrow> json" where
  "indexed i c =
     JObj [(''id'', JStr (fst c)), (''type'', JStr ''function''), (''index'', JNum (of_nat i)),
       (''function'', JObj [(''name'', JStr (fst (snd c))), (''arguments'', JStr (json_print (snd (snd c))))])]"

definition sendable :: "string \<times> string \<times> json \<Rightarrow> bool" where
  "sendable c =
     (case c of (ident, name, v) \<Rightarrow>
        ident \<noteq> [] \<and> wf_json v \<and> is_obj v \<and> jget v ''__unparsedToolInput'' = None \<and> \<not> match_string dsmlSigilRe (json_print v))"

lemma sanitized_object:
  assumes "wf_json v" "is_obj v"
  shows "\<exists>w. json_parse (SanitizeToolArgs (json_print v)) = Some w \<and> is_obj w"
  using sanitize_printed [OF assms(1)] assms(2) by metis

lemma one_part:
  assumes "wf_json v" "is_obj v"
  shows "call_parts (JObj [(''name'', JStr nm), (''arguments'', JStr (json_print v))]) = [SanitizeToolArgs (json_print v)]"
  using split_one_object [OF assms] json_print_not_Nil [OF assms(1)] by (simp add: call_parts_def)

lemma input_of_object: "json_parse s = Some w \<Longrightarrow> is_obj w \<Longrightarrow> part_input s = w"
proof -
  assume a: "json_parse s = Some w" "is_obj w"
  have "json_parse [] = None" by code_simp
  then have "s \<noteq> []" using a by auto
  then show ?thesis using a by (cases w) (simp_all add: part_input_def)
qed

lemma partial_json_events:
  "partial_json es = concat (map (\<lambda>d. str_at d ''partial_json'') (map (snd \<circ> snd)
     (map (\<lambda>(name, d). (name, index_of d, case obj_at d ''delta'' of Some x \<Rightarrow> x | None \<Rightarrow> JNull)) es)))"
  by (induction es) (auto simp: partial_json_def str_at_def split: option.split)

text \<open>
  A streamed answer and a complete one agree on a tool call: the input of the block in the complete answer is
  what the client decodes from the partial JSON of the stream, however the arguments were cut.
\<close>

theorem stream_and_json_agree:
  assumes "wf_json v" "is_obj v" "ident \<noteq> []" "concat (args # pieces) = json_print v"
  shows "\<exists>w. convertOpenAIMessage rnd n (JObj [(''tool_calls'', JArr [new_call k ident name (json_print v)])]) = ([tool_use ident name w], n) \<and>
    json_parse (partial_json (fst (run_stream rnd' (calls_chunk [new_call k ident name args] #
      map (\<lambda>p. calls_chunk [more_args k p]) pieces @ [finish_chunk ''tool_calls''])))) = Some w"
proof -
  obtain w where w: "json_parse (SanitizeToolArgs (json_print v)) = Some w" "is_obj w"
    using sanitized_object assms by blast
  have "concat (args # pieces) \<noteq> []" using assms json_print_not_Nil by simp
  then have "partial_json (fst (run_stream rnd' (calls_chunk [new_call k ident name args] #
      map (\<lambda>p. calls_chunk [more_args k p]) pieces @ [finish_chunk ''tool_calls'']))) = SanitizeToolArgs (json_print v)"
    unfolding partial_json_events call_events [OF assms(3) \<open>concat (args # pieces) \<noteq> []\<close>] assms(4) repair_object [OF assms(1,2)]
    by (simp add: str_at_def)
  moreover have "convertOpenAIMessage rnd n (JObj [(''tool_calls'', JArr [new_call k ident name (json_print v)])]) = ([tool_use ident name w], n)"
    using assms(3) input_of_object [OF w] one_part [OF assms(1,2)]
    by (simp add: convertOpenAIMessage_def text_content_def native_calls_def arr_at_def new_call_def obj_at_def str_at_def
        part_id_def thinking_content_def delta_reasoning_def SanitizeAssistantText_def Let_def)
  ultimately show ?thesis using w by auto
qed

lemma text_append: "extractTextFromBlocks (xs @ ys) = extractTextFromBlocks xs @ extractTextFromBlocks ys"
  by (simp add: extractTextFromBlocks_def)

lemma text_of_block [simp]: "extractTextFromBlocks [] = []"
  "extractTextFromBlocks (text_block s # bl) = s @ extractTextFromBlocks bl"
  "extractTextFromBlocks (signed_thinking s # bl) = extractTextFromBlocks bl"
  "extractTextFromBlocks (tool_use i nm v # bl) = extractTextFromBlocks bl"
  by (simp_all add: extractTextFromBlocks_def text_block_def signed_thinking_def tool_use_def str_at_def)

lemma no_text:
  "extractTextFromBlocks (fst (recovered_uses rnd n cs)) = []"
  "extractTextFromBlocks (fst (part_uses base nm i seen ps)) = []"
  by (induction rnd n cs rule: recovered_uses.induct; simp split: prod.split add: prod_eq_iff)
     (induction ps arbitrary: i seen; simp split: prod.split add: prod_eq_iff)

lemma no_text_calls: "extractTextFromBlocks (fst (call_uses rnd n seen tcs)) = []"
  by (induction tcs arbitrary: n seen) (auto simp: case_prod_unfold text_append no_text split: option.split)

text \<open>
  The text of a converted answer is the sanitized text of the message: thinking, tool calls and recovered calls
  add nothing to it.
\<close>

theorem answer_text_sanitized:
  assumes "jget msg ''content'' = Some (JStr c)"
  shows "extractTextFromBlocks (fst (convertOpenAIMessage rnd n msg)) = SanitizeAssistantText c"
  using assms
  by (auto simp: convertOpenAIMessage_def text_content_def case_prod_unfold text_append no_text no_text_calls thinking_content_def
      Let_def native_calls_def)

theorem answer_text_sanitized_witness:
  "extractTextFromBlocks (fst (convertOpenAIMessage (\<lambda>_. ''r'') 1 (JObj [(''content'', JStr ''hi<plan>'')]))) = SanitizeAssistantText ''hi<plan>''"
  by (rule answer_text_sanitized) simp

text \<open>
  A native call without arguments disappears from a complete answer; a client sees an empty text instead of
  the call that the stop reason announces.
\<close>

theorem call_without_arguments_lost:
  "claude_message (\<lambda>_. ''r'') (JObj [(''choices'', JArr [JObj [(''finish_reason'', JStr ''tool_calls''),
     (''message'', JObj [(''tool_calls'', JArr [new_call 0 ''c'' ''now'' []])])]])]) =
   JObj [(''id'', JStr ''msg_r''), (''type'', JStr ''message''), (''role'', JStr ''assistant''), (''content'', JArr [text_block []]),
     (''model'', JNull), (''stop_reason'', JStr ''tool_use''), (''stop_sequence'', JNull), (''usage'', usage_json no_usage)]"
  by code_simp

text \<open>
  A call in a DSML block is recovered from string content, but not from a content part: the part is cleaned in
  place before the recovery reads it.
\<close>

theorem recovery_depends_on_content_shape:
  "fst (convertOpenAIMessage (\<lambda>_. ''r'') 1 (JObj [(''content'', JStr (''go '' @ dsml_call))])) =
     [text_block ''go'', tool_use ''toolu_r'' ''ls'' (JObj [])] \<and>
   fst (convertOpenAIMessage (\<lambda>_. ''r'') 1 (JObj [(''content'', JArr [text_block (''go '' @ dsml_call)])])) = [text_block ''go'']"
  by code_simp

lemma int_at_eq: "int_at v k = (case jget v k of Some (JNum r) \<Rightarrow> trunc_num r | _ \<Rightarrow> 0)"
  by (simp add: int_at_def num_at_def split: option.split json.split)

lemma trunc_of_int [simp]: "trunc_num (of_int i) = i"
  by (simp add: trunc_num_def)

lemma usage_back:
  "convertUsageOpenAI (usage_json e) =
     (let prompt = inputTokens e + cacheReadTokens e + cacheCreateTokens e
      in usage_fields prompt (outputTokens e) (prompt + outputTokens e) (cacheReadTokens e) (cacheCreateTokens e))"
  by (simp add: convertUsageOpenAI_def usage_json_def Let_def int_at_eq)

text \<open>
  Token counts on the way to Claude and back: completion tokens and cached tokens return as they were, and the
  prompt tokens grow by the tokens that were written to the cache.
\<close>

theorem usage_round_trip:
  "convertUsageOpenAI (usage_json (extractUsage u)) =
     (let e = extractUsage u; prompt = int_at u ''prompt_tokens'' + cacheCreateTokens e
      in usage_fields prompt (outputTokens e) (prompt + outputTokens e) (cacheReadTokens e) (cacheCreateTokens e))"
  by (simp add: usage_back extractUsage_def Let_def)

lemma must_json_valid: "json_parse (mustJSON v) \<noteq> None"
proof -
  have r: "\<exists>y. json_parse (repairToolArgs t) = Some y" for t
    using repair_printed [of t] json_parse_print by force
  have e: "json_parse ''{}'' = Some (JObj [])" by code_simp
  show ?thesis by (auto simp: mustJSON_def r e Let_def split: json.split option.split)
qed

text \<open>
  Whatever a Claude upstream puts into a tool block, the arguments of the OpenAI call are JSON.
\<close>

theorem claude_calls_carry_json:
  "list_all (\<lambda>c. \<exists>fn. obj_at c ''function'' = Some fn \<and> json_parse (str_at fn ''arguments'') \<noteq> None) (extract_calls rnd n i blocks)"
proof (induction blocks arbitrary: n i)
  case (Cons b blocks)
  have "\<exists>fn. obj_at (JObj [(''id'', x), (''type'', y), (''index'', z), (''function'', JObj [(''name'', a), (''arguments'', JStr (mustJSON v))])]) ''function''
      = Some fn \<and> json_parse (str_at fn ''arguments'') \<noteq> None" for x y z a v
    using must_json_valid by (simp add: obj_at_def str_at_def)
  then show ?case using Cons by (simp add: Let_def del: not_None_eq)
qed simp

lemma sent_part: "sendable (ident, name, v) \<Longrightarrow> call_parts (JObj [(''name'', JStr nm), (''arguments'', JStr (json_print v))]) = [json_print v]"
  using one_part [of v nm] by (simp add: sendable_def SanitizeToolArgs_def)

lemma sent_use:
  assumes "sendable (ident, name, v)"
  shows "mustJSON (part_input (json_print v)) = json_print v"
proof -
  have v: "wf_json v" "is_obj v" "jget v ''__unparsedToolInput'' = None" using assms by (simp_all add: sendable_def)
  obtain m where m: "canon v = JObj m" using v(2) by (cases v) auto
  have "part_input (json_print v) = JObj m"
    using input_of_object [OF json_parse_print [OF v(1)]] v(2) m by simp
  moreover have "map_of m ''__unparsedToolInput'' = None" using jget_canon [OF v(1), of "''__unparsedToolInput''"] v(3) m by simp
  moreover have "repairToolArgs (json_print (JObj m)) = json_print v"
    using repair_object [OF v(1,2)] json_print_canon [OF v(1)] m by simp
  ultimately show ?thesis by (simp add: mustJSON_def)
qed

text \<open>
  Tool calls survive the way to Claude and back: names, ids, order and arguments.
\<close>

theorem calls_round_trip:
  assumes "list_all sendable cs" "distinct (map fst cs)"
  shows "extract_calls rnd' n' 0 (fst (call_uses rnd n [] (map (indexed 0) cs))) = map (\<lambda>(i, c). indexed i c) (List.enumerate 0 cs)"
proof -
  have "extract_calls rnd' n' i (fst (call_uses rnd n seen (map (indexed 0) cs))) = map (\<lambda>(i, c). indexed i c) (List.enumerate i cs)"
    if "set (map fst cs) \<inter> dom (map_of seen) = {}" for i seen
    using assms that
  proof (induction cs arbitrary: i seen)
    case (Cons c cs)
    obtain ident name v where c: "c = (ident, name, v)" by (cases c)
    have s: "sendable (ident, name, v)" "ident \<noteq> []" using Cons.prems c by (simp_all add: sendable_def)
    have f: "map_of seen ident = None" using Cons.prems c by (auto simp: dom_def)
    have d: "set (map fst cs) \<inter> dom (map_of (mput ident (1::nat) seen)) = {}"
      using Cons.prems c by (simp only: map_of_mput dom_fun_upd) simp
    have ih: "extract_calls rnd' n' (Suc i) (fst (call_uses rnd n (mput ident 1 seen) (map (indexed 0) cs))) = map (\<lambda>(i, c). indexed i c) (List.enumerate (Suc i) cs)"
      by (rule Cons.IH [OF _ _ d]) (use Cons.prems c in simp_all)
    show ?case
      using s ih f
      by (simp add: c indexed_def [of _ "(ident, name, v)"] obj_at_def str_at_def sent_part part_id_def case_prod_unfold tool_use_def nil_at_def sent_use)
  qed simp
  from this [of "[]" 0] show ?thesis by simp
qed

theorem calls_round_trip_witness:
  "extract_calls (\<lambda>_. ''r'') 0 0 (fst (call_uses (\<lambda>_. ''r'') 0 [] (map (indexed 0) [(''a'', ''ls'', JObj []), (''b'', ''cat'', JObj [(''p'', JStr ''x'')])]))) =
   map (\<lambda>(i, c). indexed i c) (List.enumerate 0 [(''a'', ''ls'', JObj []), (''b'', ''cat'', JObj [(''p'', JStr ''x'')])])"
proof (rule calls_round_trip)
  show "list_all sendable [(''a'', ''ls'', JObj []), (''b'', ''cat'', JObj [(''p'', JStr ''x'')])]"
    by code_simp
qed simp

theorem stream_and_json_agree_witness:
  "\<exists>w. convertOpenAIMessage (\<lambda>_. ''r'') 0 (JObj [(''tool_calls'', JArr [new_call 0 ''c'' ''ls'' (json_print (JObj []))])]) = ([tool_use ''c'' ''ls'' w], 0) \<and>
    json_parse (partial_json (fst (run_stream (\<lambda>_. ''r'') (calls_chunk [new_call 0 ''c'' ''ls'' ''{''] #
      map (\<lambda>p. calls_chunk [more_args 0 p]) [''}''] @ [finish_chunk ''tool_calls''])))) = Some w"
proof (rule stream_and_json_agree)
  show "concat [''{'', ''}''] = json_print (JObj [])" by code_simp
qed (simp_all add: wf_map_def)

end
