(* ===== verification/Claude_To_OpenAI.thy ===== *)
theory Claude_To_OpenAI
  imports Claude_Response
begin

text \<open>
  The translation of a Claude stream into an OpenAI stream (internal/translate/claude/stream\_claude\_to\_openai.go):
  events are decoded documents, and a handler maps the state to the chunks it emits and the next state. A
  chunk is sent as the line of its encoding, which the response writer adds. The clock and the random source
  are arguments of the constructor.
\<close>

section \<open>State\<close>

record c2o_call =
  ccIndex :: nat
  ccID :: string
  ccName :: string
  ccArgs :: string

record c2o_usage =
  PromptTokens :: int
  CompletionTokens :: int
  TotalTokens :: int
  CacheRead :: int
  CacheCreate :: int

record c2o_state =
  cMessageID :: string
  cModel :: string
  cCreated :: int
  toolCallIndex :: nat
  cToolCalls :: "(int, c2o_call) gomap"
  textStarted :: bool
  cThinkingOpen :: bool
  inThinking :: bool
  thinkingBlock :: "int option"
  cUsage :: "c2o_usage option"
  cFinishReason :: string
  cFinishSent :: bool

type_synonym c2o_handler = "c2o_state \<Rightarrow> json list \<times> c2o_state"

definition NewClaudeToOpenAIState :: "string \<Rightarrow> int \<Rightarrow> c2o_state" where
  "NewClaudeToOpenAIState random now =
     \<lparr>cMessageID = ''msg_'' @ random, cModel = [], cCreated = now, toolCallIndex = 0, cToolCalls = [], textStarted = False,
      cThinkingOpen = False, inThinking = False, thinkingBlock = None, cUsage = None, cFinishReason = [], cFinishSent = False\<rparr>"

section \<open>Chunks\<close>

definition chunk_doc :: "c2o_state \<Rightarrow> json \<Rightarrow> json \<Rightarrow> (string \<times> json) list \<Rightarrow> json" where
  "chunk_doc s delta reason extra =
     JObj ([(''id'', JStr (''chatcmpl-'' @ cMessageID s)), (''object'', JStr ''chat.completion.chunk''), (''created'', JNum (of_int (cCreated s))),
        (''model'', JStr (cModel s)),
        (''choices'', JArr [JObj [(''index'', JNum 0), (''delta'', delta), (''finish_reason'', reason)]])] @ extra)"

definition chunkLine :: "json \<Rightarrow> string option \<Rightarrow> c2o_state \<Rightarrow> json" where
  "chunkLine delta reason s = chunk_doc s delta (case reason of Some r \<Rightarrow> JStr r | None \<Rightarrow> JNull) []"

definition finalChunk :: "c2o_state \<Rightarrow> json" where
  "finalChunk s =
     chunk_doc s (JObj []) (JStr (cFinishReason s))
       [(''usage'', case cUsage s of
           Some u \<Rightarrow> usage_fields (PromptTokens u) (CompletionTokens u) (TotalTokens u) (CacheRead u) (CacheCreate u)
         | None \<Rightarrow> usage_fields 0 0 0 0 0)]"

definition parseClaudeUsage :: "json \<Rightarrow> c2o_usage" where
  "parseClaudeUsage u =
     (let r = int_at u ''cache_read_input_tokens''; c = int_at u ''cache_creation_input_tokens'';
          p = int_at u ''input_tokens'' + r + c; out = int_at u ''output_tokens''
      in \<lparr>PromptTokens = p, CompletionTokens = out, TotalTokens = p + out, CacheRead = r, CacheCreate = c\<rparr>)"

section \<open>Handlers\<close>

definition start_fields :: "json \<Rightarrow> c2o_state \<Rightarrow> c2o_state" where
  "start_fields msg s =
     (let s1 = (if str_at msg ''id'' = [] then s else s\<lparr>cMessageID := str_at msg ''id''\<rparr>);
          s2 = (if str_at msg ''model'' = [] then s1 else s1\<lparr>cModel := str_at msg ''model''\<rparr>)
      in case obj_at msg ''usage'' of Some u \<Rightarrow> s2\<lparr>cUsage := Some (parseClaudeUsage u)\<rparr> | None \<Rightarrow> s2)"

definition onMessageStart :: "json \<Rightarrow> c2o_handler" where
  "onMessageStart chunk s =
     (let s1 = (case obj_at chunk ''message'' of Some msg \<Rightarrow> start_fields msg s | None \<Rightarrow> s)
      in ([chunkLine (JObj [(''role'', JStr ''assistant'')]) None s1], s1))"

definition call_start :: "c2o_call \<Rightarrow> json" where
  "call_start tc =
     JObj [(''tool_calls'', JArr [JObj [(''index'', JNum (of_nat (ccIndex tc))), (''id'', JStr (ccID tc)), (''type'', JStr ''function''),
        (''function'', JObj [(''name'', JStr (ccName tc)), (''arguments'', JStr [])])]])]"

definition call_arguments :: "nat \<Rightarrow> string \<Rightarrow> json" where
  "call_arguments i args =
     JObj [(''tool_calls'', JArr [JObj [(''index'', JNum (of_nat i)), (''function'', JObj [(''arguments'', JStr args)])]])]"

definition onContentBlockStart :: "json \<Rightarrow> c2o_handler" where
  "onContentBlockStart chunk s =
     (let block = nil_at chunk ''content_block''; kind = str_at block ''type''; i = int_at chunk ''index''
      in if kind = ''text'' then ([], s\<lparr>textStarted := True\<rparr>)
         else if kind = ''thinking''
         then ([chunkLine (JObj [(''content'', JStr ''<think>'')]) None s], s\<lparr>inThinking := True, thinkingBlock := Some i\<rparr>)
         else if kind = ''tool_use''
         then let tc = \<lparr>ccIndex = toolCallIndex s, ccID = str_at block ''id'', ccName = str_at block ''name'', ccArgs = []\<rparr>
              in ([chunkLine (call_start tc) None s],
                  s\<lparr>cToolCalls := mput i tc (cToolCalls s), toolCallIndex := Suc (toolCallIndex s)\<rparr>)
         else ([], s))"

definition buffer_args :: "int \<Rightarrow> string \<Rightarrow> c2o_state \<Rightarrow> c2o_state" where
  "buffer_args i part s =
     (case map_of (cToolCalls s) i of
        Some tc \<Rightarrow> s\<lparr>cToolCalls := mput i (tc\<lparr>ccArgs := ccArgs tc @ part\<rparr>) (cToolCalls s)\<rparr>
      | None \<Rightarrow> s)"

definition onContentBlockDelta :: "json \<Rightarrow> c2o_handler" where
  "onContentBlockDelta chunk s =
     (let d = nil_at chunk ''delta''; kind = str_at d ''type''
      in if kind = ''text_delta''
         then (if str_at d ''text'' = [] then [] else [chunkLine (JObj [(''content'', JStr (str_at d ''text''))]) None s], s)
         else if kind = ''thinking_delta''
         then (if str_at d ''thinking'' = [] then [] else [chunkLine (JObj [(''reasoning'', JStr (str_at d ''thinking''))]) None s], s)
         else if kind = ''input_json_delta'' \<and> str_at d ''partial_json'' \<noteq> []
         then ([], buffer_args (int_at chunk ''index'') (str_at d ''partial_json'') s)
         else ([], s))"

definition close_block :: "int \<Rightarrow> c2o_handler" where
  "close_block i s =
     (if inThinking s \<and> thinkingBlock s = Some i
      then ([chunkLine (JObj [(''content'', JStr ''</think>'')]) None s], s\<lparr>inThinking := False, thinkingBlock := None\<rparr>)
      else ([], s\<lparr>textStarted := False, cThinkingOpen := False\<rparr>))"

definition onContentBlockStop :: "json \<Rightarrow> c2o_handler" where
  "onContentBlockStop chunk s =
     (let i = int_at chunk ''index''
      in case map_of (cToolCalls s) i of
           Some tc \<Rightarrow>
             if ccArgs tc = [] then close_block i s
             else ([chunkLine (call_arguments (ccIndex tc) (repairToolArgs (ccArgs tc))) None s],
                   s\<lparr>cToolCalls := mput i (tc\<lparr>ccArgs := []\<rparr>) (cToolCalls s)\<rparr>)
         | None \<Rightarrow> close_block i s)"

text \<open>The output side of a message delta joins the prompt side of the message start.\<close>

definition merge_usage :: "c2o_usage option \<Rightarrow> c2o_usage \<Rightarrow> c2o_usage" where
  "merge_usage old du =
     (case old of
        None \<Rightarrow> du
      | Some u \<Rightarrow>
          let d1 = du\<lparr>PromptTokens := PromptTokens u\<rparr>;
              d2 = (if CacheRead d1 = 0 \<and> CacheCreate d1 = 0 then d1\<lparr>CacheRead := CacheRead u, CacheCreate := CacheCreate u\<rparr> else d1)
          in d2\<lparr>TotalTokens := PromptTokens d2 + CompletionTokens d2\<rparr>)"

definition onMessageDelta :: "json \<Rightarrow> c2o_handler" where
  "onMessageDelta chunk s =
     (if cFinishSent s then ([], s)
      else let s1 = (case obj_at chunk ''usage'' of
                       Some u \<Rightarrow> s\<lparr>cUsage := Some (merge_usage (cUsage s) (parseClaudeUsage u))\<rparr>
                     | None \<Rightarrow> s);
               reason = (case obj_at chunk ''delta'' of Some d \<Rightarrow> str_at d ''stop_reason'' | None \<Rightarrow> [])
           in if reason = [] then ([], s1)
              else let s2 = s1\<lparr>cFinishReason := convertStopReasonOpenAI reason\<rparr>
                   in ([finalChunk s2], s2\<lparr>cFinishSent := True\<rparr>))"

definition onMessageStop :: c2o_handler where
  "onMessageStop s =
     (if cFinishSent s then ([], s)
      else let reason = (if cFinishReason s \<noteq> [] then cFinishReason s else if cToolCalls s \<noteq> [] then ''tool_calls'' else ''stop'')
           in ([chunkLine (JObj []) (Some reason) s], s\<lparr>cFinishSent := True\<rparr>))"

definition c2o_ProcessChunk :: "json \<Rightarrow> c2o_handler" where
  "c2o_ProcessChunk chunk s =
     (let event = str_at chunk ''type''
      in if cFinishSent s \<and> event \<noteq> ''message_stop'' then ([], s)
         else if event = ''message_start'' then onMessageStart chunk s
         else if event = ''content_block_start'' then onContentBlockStart chunk s
         else if event = ''content_block_delta'' then onContentBlockDelta chunk s
         else if event = ''content_block_stop'' then onContentBlockStop chunk s
         else if event = ''message_delta'' then onMessageDelta chunk s
         else if event = ''message_stop'' then onMessageStop s
         else ([], s))"

fun c2o_run :: "json list \<Rightarrow> c2o_handler" where
  "c2o_run [] s = ([], s)"
| "c2o_run (x # xs) s = (case c2o_ProcessChunk x s of (es, s1) \<Rightarrow> case c2o_run xs s1 of (es', s2) \<Rightarrow> (es @ es', s2))"

section \<open>Specifications\<close>

text \<open>
  An OpenAI client: it numbers the calls it has been told of, and accepts arguments for those only; a finish
  reason ends the stream.
\<close>

record openai_client =
  known :: nat
  ended :: bool

definition accept_call :: "json \<Rightarrow> nat \<Rightarrow> nat option" where
  "accept_call tc n =
     (if has_key tc ''id'' then (if int_at tc ''index'' = int n then Some (Suc n) else None)
      else if 0 \<le> int_at tc ''index'' \<and> int_at tc ''index'' < int n then Some n else None)"

definition accept_chunk :: "json \<Rightarrow> openai_client \<Rightarrow> openai_client option" where
  "accept_chunk doc c =
     (if ended c then None
      else case arr_at doc ''choices'' of
             Some [ch] \<Rightarrow>
               (case arr_at (nil_at ch ''delta'') ''tool_calls'' of
                  Some [tc] \<Rightarrow> map_option (\<lambda>n. c\<lparr>known := n\<rparr>) (accept_call tc (known c))
                | None \<Rightarrow> Some (c\<lparr>ended := (nil_at ch ''finish_reason'' \<noteq> JNull)\<rparr>)
                | _ \<Rightarrow> None)
           | _ \<Rightarrow> None)"

fun accept_chunks :: "openai_client \<Rightarrow> json list \<Rightarrow> openai_client option" where
  "accept_chunks c [] = Some c"
| "accept_chunks c (d # ds) = Option.bind (accept_chunk d c) (\<lambda>c1. accept_chunks c1 ds)"

definition view :: "c2o_state \<Rightarrow> openai_client" where
  "view s = \<lparr>known = toolCallIndex s, ended = cFinishSent s\<rparr>"

definition calls_known :: "c2o_state \<Rightarrow> bool" where
  "calls_known s = (\<forall>i tc. map_of (cToolCalls s) i = Some tc \<longrightarrow> ccIndex tc < toolCallIndex s)"

definition step_ok :: "c2o_state \<Rightarrow> json list \<times> c2o_state \<Rightarrow> bool" where
  "step_ok s r = (accept_chunks (view s) (fst r) = Some (view (snd r)) \<and> calls_known (snd r))"

lemma accept_chunks_append: "accept_chunks c (xs @ ys) = Option.bind (accept_chunks c xs) (\<lambda>c1. accept_chunks c1 ys)"
  by (induction xs arbitrary: c) (auto split: Option.bind_splits)

lemma no_calls_in [simp]:
  "arr_at (JObj [(k, JStr v)]) ''tool_calls'' = None" "arr_at (JObj []) ''tool_calls'' = None"
  by (simp_all add: arr_at_def)

lemma accept_plain:
  assumes "arr_at d ''tool_calls'' = None" "\<not> ended c"
  shows "accept_chunk (chunk_doc s d JNull extra) c = Some c"
    "accept_chunk (chunk_doc s d (JStr r) extra) c = Some (c\<lparr>ended := True\<rparr>)"
  using assms by (simp_all add: accept_chunk_def chunk_doc_def arr_at_def nil_at_def)

lemma int_at_index: "int_at (JObj ((''index'', JNum (of_nat k)) # m)) ''index'' = int k"
  by (simp add: int_at_eq trunc_of_nat)

lemma accept_call_start:
  assumes "\<not> ended c" "ccIndex tc = known c"
  shows "accept_chunk (chunk_doc s (call_start tc) JNull []) c = Some (c\<lparr>known := Suc (known c)\<rparr>)"
  using assms
  by (simp add: accept_chunk_def chunk_doc_def arr_at_def nil_at_def call_start_def accept_call_def has_key_def int_at_index)

lemma accept_arguments:
  assumes "\<not> ended c" "k < known c"
  shows "accept_chunk (chunk_doc s (call_arguments k a) JNull []) c = Some c"
  using assms
  by (simp add: accept_chunk_def chunk_doc_def arr_at_def nil_at_def call_arguments_def accept_call_def has_key_def int_at_index)

lemma view_simps [simp]:
  "view (s\<lparr>cMessageID := a\<rparr>) = view s" "view (s\<lparr>cModel := a\<rparr>) = view s" "view (s\<lparr>cUsage := u\<rparr>) = view s"
  "view (s\<lparr>textStarted := b\<rparr>) = view s" "view (s\<lparr>cThinkingOpen := b\<rparr>) = view s" "view (s\<lparr>inThinking := b\<rparr>) = view s"
  "view (s\<lparr>thinkingBlock := i\<rparr>) = view s" "view (s\<lparr>cToolCalls := m\<rparr>) = view s" "view (s\<lparr>cFinishReason := a\<rparr>) = view s"
  "view (s\<lparr>cFinishSent := f\<rparr>) = (view s)\<lparr>ended := f\<rparr>" "view (s\<lparr>toolCallIndex := k\<rparr>) = (view s)\<lparr>known := k\<rparr>"
  "known (view s) = toolCallIndex s" "ended (view s) = cFinishSent s"
  by (simp_all add: view_def)

lemma start_fields_simps [simp]:
  "view (start_fields msg s) = view s" "cToolCalls (start_fields msg s) = cToolCalls s" "toolCallIndex (start_fields msg s) = toolCallIndex s"
  by (simp_all add: start_fields_def Let_def split: option.split)

lemma known_update:
  assumes "calls_known s" "ccIndex tc < toolCallIndex s"
  shows "calls_known (s\<lparr>cToolCalls := mput i tc (cToolCalls s)\<rparr>)"
  using assms by (simp add: calls_known_def)

lemma quiet: "calls_known s \<Longrightarrow> view t = view s \<Longrightarrow> cToolCalls t = cToolCalls s \<Longrightarrow> step_ok s ([], t)"
  unfolding step_ok_def calls_known_def view_def by simp

lemma one_chunk:
  "calls_known s \<Longrightarrow> \<not> cFinishSent s \<Longrightarrow> arr_at d ''tool_calls'' = None \<Longrightarrow> view t = view s \<Longrightarrow> cToolCalls t = cToolCalls s \<Longrightarrow>
     step_ok s ([chunk_doc u d JNull extra], t)"
  by (simp add: step_ok_def accept_plain calls_known_def view_def)

lemma last_chunk:
  "calls_known s \<Longrightarrow> \<not> cFinishSent s \<Longrightarrow> arr_at d ''tool_calls'' = None \<Longrightarrow> view t = (view s)\<lparr>ended := True\<rparr> \<Longrightarrow> cToolCalls t = cToolCalls s \<Longrightarrow>
     step_ok s ([chunk_doc u d (JStr r) extra], t)"
  by (simp add: step_ok_def accept_plain calls_known_def view_def)

lemma message_start_step: "calls_known s \<Longrightarrow> \<not> cFinishSent s \<Longrightarrow> step_ok s (onMessageStart x s)"
  by (auto simp: onMessageStart_def chunkLine_def Let_def intro!: one_chunk split: option.split)

lemma block_start_step:
  assumes "calls_known s" "\<not> cFinishSent s"
  shows "step_ok s (onContentBlockStart x s)"
proof -
  have "step_ok s ([chunk_doc s (call_start tc) JNull []], s\<lparr>cToolCalls := mput i tc (cToolCalls s), toolCallIndex := Suc (toolCallIndex s)\<rparr>)"
    if "ccIndex tc = toolCallIndex s" for tc i
    using assms that by (auto simp: step_ok_def accept_call_start calls_known_def less_Suc_eq)
  then show ?thesis using assms
    by (auto simp: onContentBlockStart_def chunkLine_def Let_def intro!: one_chunk quiet)
qed

lemma block_delta_step:
  assumes "calls_known s" "\<not> cFinishSent s"
  shows "step_ok s (onContentBlockDelta x s)"
proof -
  have "step_ok s ([], buffer_args i part s)" for i part
    using assms by (auto simp: step_ok_def buffer_args_def calls_known_def split: option.split)
  then show ?thesis using assms
    by (auto simp: onContentBlockDelta_def chunkLine_def Let_def intro!: one_chunk quiet)
qed

lemma block_stop_step:
  assumes "calls_known s" "\<not> cFinishSent s"
  shows "step_ok s (onContentBlockStop x s)"
proof -
  have c: "step_ok s (close_block i s)" for i
    using assms by (auto simp: close_block_def chunkLine_def intro!: one_chunk quiet)
  have "step_ok s ([chunk_doc s (call_arguments (ccIndex tc) a) JNull []], s\<lparr>cToolCalls := mput i (tc\<lparr>ccArgs := []\<rparr>) (cToolCalls s)\<rparr>)"
    if "map_of (cToolCalls s) i = Some tc" for i tc a
    using assms that known_update [of s "tc\<lparr>ccArgs := []\<rparr>"] by (auto simp: step_ok_def accept_arguments calls_known_def)
  then show ?thesis using c
    by (auto simp: onContentBlockStop_def chunkLine_def Let_def split: option.split)
qed

lemma message_delta_step:
  assumes "calls_known s" "\<not> cFinishSent s"
  shows "step_ok s (onMessageDelta x s)"
  using assms
  by (auto simp: onMessageDelta_def finalChunk_def Let_def intro!: last_chunk quiet split: option.split)

lemma message_stop_step: "calls_known s \<Longrightarrow> step_ok s (onMessageStop s)"
  by (auto simp: onMessageStop_def chunkLine_def Let_def intro!: last_chunk quiet)

lemma c2o_step: "calls_known s \<Longrightarrow> step_ok s (c2o_ProcessChunk x s)"
  using message_start_step block_start_step block_delta_step block_stop_step message_delta_step message_stop_step quiet
  by (auto simp: c2o_ProcessChunk_def Let_def)

lemma c2o_steps: "calls_known s \<Longrightarrow> step_ok s (c2o_run xs s)"
proof (induction xs arbitrary: s)
  case (Cons x xs)
  then show ?case using c2o_step [of s x] by (simp add: step_ok_def accept_chunks_append case_prod_unfold)
qed (simp add: step_ok_def)

text \<open>
  C38:
  Whatever a Claude upstream sends, an OpenAI client accepts the chunks: calls are numbered from 0 in the
  order they start, arguments come only for calls that have started, and nothing follows the finish reason.
\<close>

theorem openai_stream_protocol:
  "accept_chunks \<lparr>known = 0, ended = False\<rparr> (fst (c2o_run xs (NewClaudeToOpenAIState random now))) =
     Some (view (snd (c2o_run xs (NewClaudeToOpenAIState random now))))"
  using c2o_steps [of "NewClaudeToOpenAIState random now" xs]
  by (simp add: step_ok_def calls_known_def NewClaudeToOpenAIState_def view_def)

definition delta_of :: "json \<Rightarrow> json \<times> json" where
  "delta_of chunk = (case arr_at chunk ''choices'' of Some [ch] \<Rightarrow> (nil_at ch ''delta'', nil_at ch ''finish_reason'') | _ \<Rightarrow> (JNull, JNull))"

lemma delta_chunk [simp]: "delta_of (chunk_doc s d r extra) = (d, r)"
  by (simp add: delta_of_def chunk_doc_def arr_at_def nil_at_def)

lemma c2o_run_append: "c2o_run (xs @ ys) s = (case c2o_run xs s of (es, s1) \<Rightarrow> case c2o_run ys s1 of (es', s2) \<Rightarrow> (es @ es', s2))"
  by (induction xs arbitrary: s) (simp_all add: case_prod_unfold)

text \<open>
  A tool call that goes through the Claude translation and back reaches an OpenAI client as the same call: one
  start with its id and name, one delta with its repaired arguments, and the finish reason for tool calls.
\<close>

theorem call_there_and_back:
  assumes "ident \<noteq> []" "concat (args # pieces) \<noteq> []" "SanitizeToolArgs (repairToolArgs (concat (args # pieces))) \<noteq> []"
  shows "map delta_of (fst (c2o_run (map snd (fst (run_stream rnd (calls_chunk [new_call k ident name args] #
      map (\<lambda>p. calls_chunk [more_args k p]) pieces @ [finish_chunk ''tool_calls''])))) (NewClaudeToOpenAIState random now))) =
    [(JObj [(''role'', JStr ''assistant'')], JNull),
     (call_start \<lparr>ccIndex = 0, ccID = ident, ccName = name, ccArgs = []\<rparr>, JNull),
     (call_arguments 0 (repairToolArgs (SanitizeToolArgs (repairToolArgs (concat (args # pieces))))), JNull),
     (JObj [], JStr ''tool_calls'')]"
proof -
  obtain t u where r: "fst (run_stream rnd (calls_chunk [new_call k ident name args] # map (\<lambda>p. calls_chunk [more_args k p]) pieces @ [finish_chunk ''tool_calls''])) =
    fst (message_start u) @
    [block_start 0 (JObj [(''type'', JStr ''tool_use''), (''id'', JStr ident), (''name'', JStr name)]),
     block_delta 0 (JObj [(''type'', JStr ''input_json_delta''), (''partial_json'', JStr (SanitizeToolArgs (repairToolArgs (concat (args # pieces)))))]),
     contentBlockStop 0] @ fst (message_end t)" "finishReason t = ''tool_calls''"
    using call_run [OF assms(1,2)] by blast
  have m: "onMessageStart x s = ([chunkLine (JObj [(''role'', JStr ''assistant'')]) None (snd (onMessageStart x s))], snd (onMessageStart x s))" for x s
    by (simp add: onMessageStart_def Let_def)
  define s1 where "s1 = snd (onMessageStart (snd (hd (fst (message_start u)))) (NewClaudeToOpenAIState random now))"
  have s1: "cToolCalls s1 = []" "toolCallIndex s1 = 0" "\<not> cFinishSent s1" "\<not> inThinking s1"
    by (auto simp: s1_def onMessageStart_def start_fields_def NewClaudeToOpenAIState_def Let_def split: option.split)
  have 1: "c2o_run (map snd (fst (message_start u))) (NewClaudeToOpenAIState random now) = ([chunkLine (JObj [(''role'', JStr ''assistant'')]) None s1], s1)"
    using m [of _ "NewClaudeToOpenAIState random now"]
    by (simp add: message_start_def c2o_ProcessChunk_def str_at_def s1_def NewClaudeToOpenAIState_def [of random now, THEN arg_cong, of cFinishSent])
  show ?thesis
    unfolding r(1) map_append c2o_run_append 1
    using s1 assms(3) r(2)
    by (simp add: c2o_ProcessChunk_def block_start_def block_delta_def contentBlockStop_def str_at_def onContentBlockStart_def nil_at_def
        onContentBlockDelta_def onContentBlockStop_def buffer_args_def int_at_eq message_end_def obj_at_def onMessageDelta_def onMessageStop_def
        chunkLine_def finalChunk_def mapFinishReason_def convertStopReasonOpenAI_def Let_def trunc_of_nat trunc_of_int [of 0, simplified] del: concat.simps)
qed

text \<open>
  The thinking of a Claude stream goes to the reasoning field, and the marks that should enclose it go to the
  content, where they enclose nothing.
\<close>

theorem think_marks_enclose_nothing:
  "map (fst \<circ> delta_of) (fst (c2o_run
     [JObj [(''type'', JStr ''content_block_start''), (''index'', JNum 0), (''content_block'', JObj [(''type'', JStr ''thinking'')])],
      JObj [(''type'', JStr ''content_block_delta''), (''index'', JNum 0), (''delta'', JObj [(''type'', JStr ''thinking_delta''), (''thinking'', JStr ''hm'')])],
      JObj [(''type'', JStr ''content_block_stop''), (''index'', JNum 0)]] (NewClaudeToOpenAIState ''r'' 0))) =
   [JObj [(''content'', JStr ''<think>'')], JObj [(''reasoning'', JStr ''hm'')], JObj [(''content'', JStr ''</think>'')]]"
  by code_simp

theorem call_there_and_back_witness:
  "map delta_of (fst (c2o_run (map snd (fst (run_stream (\<lambda>_. ''r'') (calls_chunk [new_call 0 ''c'' ''ls'' ''{''] #
      map (\<lambda>p. calls_chunk [more_args 0 p]) [''}''] @ [finish_chunk ''tool_calls''])))) (NewClaudeToOpenAIState ''r'' 0))) =
    [(JObj [(''role'', JStr ''assistant'')], JNull),
     (call_start \<lparr>ccIndex = 0, ccID = ''c'', ccName = ''ls'', ccArgs = []\<rparr>, JNull),
     (call_arguments 0 (repairToolArgs (SanitizeToolArgs (repairToolArgs (concat [''{'', ''}''])))), JNull),
     (JObj [], JStr ''tool_calls'')]"
proof (rule call_there_and_back)
  show "SanitizeToolArgs (repairToolArgs (concat [''{'', ''}''])) \<noteq> []" by code_simp
qed simp_all

end
