(* ===== verification/Gemini_Request.thy ===== *)
theory Gemini_Request
  imports Claude_Request
begin

text \<open>
  Gemini requests as OpenAI requests and back (internal/translate/gemini/request.go, fromopenai.go), as
  functions on decoded documents with the decoding and encoding around them.
\<close>

section \<open>Gemini to OpenAI\<close>

fun is_str :: "json \<Rightarrow> bool" where
  "is_str (JStr s) = True"
| "is_str _ = False"

fun is_number :: "json \<Rightarrow> bool" where
  "is_number (JNum r) = True"
| "is_number _ = False"

fun is_bool :: "json \<Rightarrow> bool" where
  "is_bool (JBool b) = True"
| "is_bool _ = False"

fun is_arr :: "json \<Rightarrow> bool" where
  "is_arr (JArr xs) = True"
| "is_arr _ = False"

text \<open>A field that is copied under another name when its value has the right type.\<close>

definition taken :: "(json \<Rightarrow> bool) \<Rightarrow> json \<Rightarrow> string \<Rightarrow> string \<Rightarrow> (string \<times> json) list" where
  "taken ok src k dst = (case jget src k of Some v \<Rightarrow> if ok v then [(dst, v)] else [] | None \<Rightarrow> [])"

text \<open>A list in a field; nil for a field of another type.\<close>

definition items_at :: "json \<Rightarrow> string \<Rightarrow> json list" where
  "items_at v k = (case arr_at v k of Some xs \<Rightarrow> xs | None \<Rightarrow> [])"

definition joinGeminiParts :: "json list \<Rightarrow> string" where
  "joinGeminiParts parts =
     join [CHR 0x0A] (concat (map (\<lambda>p. case jget p ''text'' of Some (JStr t) \<Rightarrow> [t] | _ \<Rightarrow> []) parts))"

definition geminiToolCallID :: "string \<Rightarrow> nat \<Rightarrow> string" where
  "geminiToolCallID name i =
     (let safe = scrubToolID name in ''call_gemini_'' @ (if safe = [] then ''f'' else safe) @ ''_'' @ show_nat i)"

definition extractFunctionResponseContent :: "json \<Rightarrow> json" where
  "extractFunctionResponseContent raw = (case jget raw ''result'' of Some r \<Rightarrow> r | None \<Rightarrow> raw)"

text \<open>What a part contributes: a text, an image, a call with the position of the part in its id, a response.\<close>

definition g_texts :: "json \<Rightarrow> string list" where
  "g_texts p = (if str_at p ''text'' = [] then [] else [str_at p ''text''])"

definition g_images :: "json \<Rightarrow> json list" where
  "g_images p =
     (case obj_at p ''inlineData'' of
        None \<Rightarrow> []
      | Some d \<Rightarrow>
          [JObj [(''type'', JStr ''image_url''),
             (''image_url'', JObj [(''url'', JStr (''data:'' @ (if str_at d ''mimeType'' = [] then ''image/png'' else str_at d ''mimeType'') @
                '';base64,'' @ str_at d ''data''))])]])"

definition g_args :: "json \<Rightarrow> string" where
  "g_args fc = json_print (case obj_at fc ''args'' of Some a \<Rightarrow> a | None \<Rightarrow> JObj [])"

definition g_calls :: "nat \<times> json \<Rightarrow> json list" where
  "g_calls ip =
     (case ip of (i, p) \<Rightarrow>
        (case obj_at p ''functionCall'' of
           None \<Rightarrow> []
         | Some fc \<Rightarrow>
             if str_at fc ''name'' = [] then []
             else [JObj [(''id'', JStr (geminiToolCallID (str_at fc ''name'') i)), (''type'', JStr ''function''),
                     (''function'', JObj [(''name'', JStr (str_at fc ''name'')), (''arguments'', JStr (g_args fc))])]]))"

definition response_id :: "json \<Rightarrow> string" where
  "response_id fr = (if str_at fr ''id'' = [] then str_at fr ''name'' else str_at fr ''id'')"

definition g_responses :: "json \<Rightarrow> json list" where
  "g_responses p =
     (if (case obj_at p ''functionCall'' of Some fc \<Rightarrow> str_at fc ''name'' = [] | None \<Rightarrow> False) then []
      else case obj_at p ''functionResponse'' of
             None \<Rightarrow> []
           | Some fr \<Rightarrow>
               if response_id fr = [] then []
               else [JObj [(''role'', JStr ''tool''), (''tool_call_id'', JStr (response_id fr)),
                       (''content'', JStr (json_print (extractFunctionResponseContent (nil_at fr ''response''))))]])"

definition texts_value :: "string list \<Rightarrow> json" where
  "texts_value texts = (case texts of [] \<Rightarrow> JStr [] | [t] \<Rightarrow> JStr t | ts \<Rightarrow> JArr (map JStr ts))"

definition openai_role :: "json \<Rightarrow> string" where
  "openai_role content =
     (let r = str_at content ''role'' in if r = ''model'' then ''assistant'' else if r = [] then ''user'' else r)"

definition convertGeminiContent :: "json \<Rightarrow> json list" where
  "convertGeminiContent input =
     (let role = openai_role input;
          parts = items_at input ''parts'';
          texts = concat (map g_texts parts);
          images = concat (map g_images parts);
          calls = concat (map g_calls (List.enumerate 0 parts))
      in if parts = [] then [JObj [(''role'', JStr role), (''content'', JStr [])]]
         else concat (map g_responses parts) @
           (if role = ''assistant'' \<and> calls \<noteq> []
            then [JObj [(''role'', JStr ''assistant''), (''tool_calls'', JArr calls), (''content'', texts_value texts)]]
            else [JObj [(''role'', JStr role),
                    (''content'', if images = [] then texts_value texts
                       else JArr (map (\<lambda>t. JObj [(''type'', JStr ''text''), (''text'', JStr t)]) texts @ images))]]))"

definition convertGeminiFunctionDecl :: "json \<Rightarrow> json" where
  "convertGeminiFunctionDecl fd =
     JObj [(''type'', JStr ''function''),
       (''function'', JObj [(''name'', JStr (str_at fd ''name'')), (''description'', JStr (str_at fd ''description'')),
          (''parameters'', if nil_at fd ''parameters'' = JNull
             then JObj [(''type'', JStr ''object''), (''properties'', JObj [])] else nil_at fd ''parameters'')])]"

definition system_messages :: "json \<Rightarrow> json list" where
  "system_messages gemini =
     (case obj_at gemini ''systemInstruction'' of
        None \<Rightarrow> []
      | Some sys \<Rightarrow>
          (case arr_at sys ''parts'' of
             None \<Rightarrow> []
           | Some parts \<Rightarrow>
               if joinGeminiParts parts = [] then []
               else [JObj [(''role'', JStr ''system''), (''content'', JStr (joinGeminiParts parts))]]))"

definition gemini_messages :: "json \<Rightarrow> json list" where
  "gemini_messages gemini =
     system_messages gemini @ concat (map convertGeminiContent (filter is_obj (items_at gemini ''contents'')))"

definition gemini_tools :: "json \<Rightarrow> json list" where
  "gemini_tools gemini =
     map convertGeminiFunctionDecl (filter is_obj (concat (map (\<lambda>t. items_at t ''functionDeclarations'') (items_at gemini ''tools''))))"

definition gemini_config :: "json \<Rightarrow> (string \<times> json) list" where
  "gemini_config gemini =
     (case obj_at gemini ''generationConfig'' of
        None \<Rightarrow> []
      | Some gc \<Rightarrow>
          taken is_number gc ''temperature'' ''temperature'' @ taken is_number gc ''maxOutputTokens'' ''max_tokens'' @
          taken is_number gc ''topP'' ''top_p'' @ taken is_arr gc ''stopSequences'' ''stop'')"

definition unless_empty :: "string \<Rightarrow> json list \<Rightarrow> (string \<times> json) list" where
  "unless_empty k xs = (if xs = [] then [] else [(k, JArr xs)])"

definition gemini_to_openai_doc :: "json \<Rightarrow> json" where
  "gemini_to_openai_doc gemini =
     JObj (taken is_str gemini ''model'' ''model'' @ taken is_bool gemini ''stream'' ''stream'' @
           unless_empty ''messages'' (gemini_messages gemini) @ gemini_config gemini @ unless_empty ''tools'' (gemini_tools gemini))"

definition GeminiToOpenAI :: "string \<Rightarrow> string res" where
  "GeminiToOpenAI body =
     (case unmarshal_map body of
        None \<Rightarrow> Inl ''translate: invalid request body''
      | Some gemini \<Rightarrow> Inr (json_print (gemini_to_openai_doc gemini)))"

section \<open>OpenAI to Gemini\<close>

definition text_part :: "string \<Rightarrow> json" where
  "text_part t = JObj [(''text'', JStr t)]"

text \<open>The texts of a content field, string or parts.\<close>

definition content_texts :: "json \<Rightarrow> json list" where
  "content_texts m =
     (case jget m ''content'' of
        Some (JStr c) \<Rightarrow> if c = [] then [] else [text_part c]
      | Some (JArr ps) \<Rightarrow>
          map (\<lambda>p. text_part (str_at p ''text'')) (filter (\<lambda>p. str_at p ''type'' = ''text'' \<and> str_at p ''text'' \<noteq> []) ps)
      | _ \<Rightarrow> [])"

definition buildGeminiSystemInstruction :: "json \<Rightarrow> (string \<times> json) list" where
  "buildGeminiSystemInstruction src =
     (let parts = concat (map content_texts (filter (\<lambda>m. str_at m ''role'' = ''system'') (items_at src ''messages'')))
      in if parts = [] then []
         else [(''systemInstruction'', JObj [(''role'', JStr ''user''), (''parts'', JArr parts)])])"

definition contentToStringForGemini :: "json \<Rightarrow> string" where
  "contentToStringForGemini raw = (case raw of JNull \<Rightarrow> [] | JStr s \<Rightarrow> s | v \<Rightarrow> json_print v)"

definition tryParseJSON :: "string \<Rightarrow> json" where
  "tryParseJSON s = (if s = [] then JObj [] else case json_parse s of Some v \<Rightarrow> v | None \<Rightarrow> JStr s)"

definition imageURLToInlineData :: "string \<Rightarrow> json list" where
  "imageURLToInlineData url =
     (let rest = drop 5 url; mediaType = takeWhile (\<lambda>c. c \<noteq> CHR '';'') rest; enc = drop (Suc (length mediaType)) rest
      in if \<not> has_prefix url ''data:'' \<or> CHR '';'' \<notin> set rest \<or> \<not> has_prefix enc ''base64,'' \<or> drop 7 enc = [] then []
         else [JObj [(''inlineData'', JObj [(''mimeType'', JStr mediaType), (''data'', JStr (drop 7 enc))])]])"

definition functionResponse :: "string \<Rightarrow> string \<Rightarrow> json \<Rightarrow> json" where
  "functionResponse ident name v =
     JObj [(''functionResponse'', JObj [(''id'', JStr ident), (''name'', JStr name), (''response'', JObj [(''result'', v)])])]"

definition user_part :: "json \<Rightarrow> json list" where
  "user_part p =
     (let typ = str_at p ''type''
      in if typ = ''text'' then (if str_at p ''text'' = [] then [] else [text_part (str_at p ''text'')])
         else if typ = ''image_url'' then imageURLToInlineData (str_at (nil_at p ''image_url'') ''url'')
         else if typ = ''tool_result'' \<and> str_at p ''tool_use_id'' \<noteq> []
         then [functionResponse (str_at p ''tool_use_id'') (str_at p ''tool_use_id'')
                 (tryParseJSON (contentToStringForGemini (nil_at p ''content'')))]
         else [])"

definition openaiUserContentToParts :: "json \<Rightarrow> json list" where
  "openaiUserContentToParts m =
     (case jget m ''content'' of
        Some (JStr c) \<Rightarrow> if c = [] then [] else [text_part c]
      | Some (JArr ps) \<Rightarrow> concat (map user_part ps)
      | _ \<Rightarrow> [])"

text \<open>The calls that have a name, as parts.\<close>

definition named_calls :: "json \<Rightarrow> json list" where
  "named_calls m =
     filter (\<lambda>tc. is_obj tc \<and> str_at (nil_at tc ''function'') ''name'' \<noteq> []) (items_at m ''tool_calls'')"

definition functionCall :: "json \<Rightarrow> json" where
  "functionCall tc =
     (let fn = nil_at tc ''function''
      in JObj [(''functionCall'', JObj [(''id'', JStr (str_at tc ''id'')), (''name'', JStr (str_at fn ''name'')),
           (''args'', tryParseJSON (contentToStringForGemini (nil_at fn ''arguments'')))])])"

definition openaiAssistantContentToParts :: "json \<Rightarrow> json list \<times> string list" where
  "openaiAssistantContentToParts m =
     (content_texts m @ map functionCall (named_calls m), map (\<lambda>tc. str_at tc ''id'') (named_calls m))"

text \<open>The names of the calls and the contents of the responses, by id; a later entry replaces an earlier one.\<close>

definition note_name :: "json \<Rightarrow> (string, string) gomap \<Rightarrow> (string, string) gomap" where
  "note_name tc names =
     (let name = str_at (nil_at tc ''function'') ''name''
      in if str_at tc ''id'' = [] \<or> obj_at tc ''function'' = None \<or> name = [] then names else mput (str_at tc ''id'') name names)"

definition names_of :: "json list \<Rightarrow> (string, string) gomap" where
  "names_of ms =
     fold (\<lambda>m names. if str_at m ''role'' = ''assistant'' then fold note_name (items_at m ''tool_calls'') names else names) ms []"

definition response_text :: "json \<Rightarrow> string" where
  "response_text m = (case jget m ''content'' of Some (JStr c) \<Rightarrow> c | _ \<Rightarrow> json_print (nil_at m ''content''))"

definition responses_of :: "json list \<Rightarrow> (string, string) gomap" where
  "responses_of ms =
     fold (\<lambda>m resps. if str_at m ''role'' = ''tool'' \<and> str_at m ''tool_call_id'' \<noteq> []
                     then mput (str_at m ''tool_call_id'') (response_text m) resps else resps) ms []"

definition name_for :: "(string, string) gomap \<Rightarrow> string \<Rightarrow> string" where
  "name_for names ident = (case map_of names ident of Some n \<Rightarrow> (if n = [] then ident else n) | None \<Rightarrow> ident)"

definition g_content :: "string \<Rightarrow> json list \<Rightarrow> json" where
  "g_content role parts = JObj [(''role'', JStr role), (''parts'', if parts = [] then JNull else JArr parts)]"

text \<open>The responses an assistant message finds ahead, each once.\<close>

fun ahead :: "(string, string) gomap \<Rightarrow> (string, string) gomap \<Rightarrow> string list \<Rightarrow> string list \<Rightarrow> json list \<times> string list" where
  "ahead names resps used [] = ([], used)"
| "ahead names resps used (i # ids) =
     (case map_of resps i of
        Some c \<Rightarrow>
          if i \<in> set used then ahead names resps used ids
          else (case ahead names resps (used @ [i]) ids of (ps, used') \<Rightarrow> (functionResponse i (name_for names i) (tryParseJSON c) # ps, used'))
      | None \<Rightarrow> ahead names resps used ids)"

definition tool_result_text :: "json \<Rightarrow> string" where
  "tool_result_text m = (if str_at m ''content'' = [] then json_print (nil_at m ''content'') else str_at m ''content'')"

definition g_message :: "(string, string) gomap \<Rightarrow> (string, string) gomap \<Rightarrow> string list \<Rightarrow> json \<Rightarrow> json list \<times> string list" where
  "g_message names resps used m =
     (let role = str_at m ''role''; i = str_at m ''tool_call_id''
      in if role = ''user''
         then (if openaiUserContentToParts m = [] then [] else [g_content ''user'' (openaiUserContentToParts m)], used)
         else if role = ''tool'' \<and> i \<noteq> [] \<and> i \<notin> set used
         then ([g_content ''user'' [functionResponse i (name_for names i) (tryParseJSON (tool_result_text m))]], used @ [i])
         else if role = ''assistant''
         then (case openaiAssistantContentToParts m of (parts, ids) \<Rightarrow>
               case ahead names resps used ids of (ps, used') \<Rightarrow>
                 (g_content ''model'' parts # (if ps = [] then [] else [g_content ''user'' ps]), used'))
         else ([], used))"

fun g_messages :: "(string, string) gomap \<Rightarrow> (string, string) gomap \<Rightarrow> string list \<Rightarrow> json list \<Rightarrow> json list \<times> string list" where
  "g_messages names resps used [] = ([], used)"
| "g_messages names resps used (m # ms) =
     (case g_message names resps used m of (cs, used1) \<Rightarrow>
      case g_messages names resps used1 ms of (cs', used2) \<Rightarrow> (cs @ cs', used2))"

definition remaining_responses :: "(string, string) gomap \<Rightarrow> (string, string) gomap \<Rightarrow> string list \<Rightarrow> json list" where
  "remaining_responses names resps used =
     map (\<lambda>(i, c). functionResponse i (name_for names i) (tryParseJSON c)) (filter (\<lambda>(i, c). i \<notin> set used) resps)"

definition buildGeminiContents :: "json list \<Rightarrow> json list" where
  "buildGeminiContents ms =
     (let names = names_of ms; resps = responses_of ms
      in case g_messages names resps [] ms of (cs, used) \<Rightarrow>
           cs @ (if length used < length resps \<and> remaining_responses names resps used \<noteq> []
                 then [g_content ''user'' (remaining_responses names resps used)] else []))"

text \<open>Name, description and parameters of a tool in the OpenAI form, or else in the Claude form.\<close>

definition tool_decl :: "json \<Rightarrow> json list" where
  "tool_decl t =
     (let typ = str_at t ''type''; fn = nil_at t ''function'';
          openai = (typ = ''function'' \<or> typ = []) \<and> is_obj fn \<and> str_at fn ''name'' \<noteq> [];
          name = (if openai then str_at fn ''name'' else str_at t ''name'');
          desc = (if openai then str_at fn ''description'' else str_at t ''description'');
          params = (if openai then nil_at fn ''parameters'' else nil_at t ''input_schema'')
      in if name = [] then []
         else [JObj [(''name'', JStr name), (''description'', JStr desc),
                 (''parameters'', if params = JNull then JObj [(''type'', JStr ''object''), (''properties'', JObj [])] else params)]])"

definition extractGeminiFunctionDeclarations :: "json \<Rightarrow> json list" where
  "extractGeminiFunctionDeclarations src = concat (map tool_decl (items_at src ''tools''))"

definition reasoningEffortToBudgetGemini :: "string \<Rightarrow> int" where
  "reasoningEffortToBudgetGemini effort =
     (let e = to_lower (trim_space effort)
      in if e = ''low'' then 1024 else if e = ''medium'' then 8192 else if e = ''high'' then 32768 else 0)"

definition any_value :: "json \<Rightarrow> bool" where
  "any_value v = True"

definition generation_fields :: "json \<Rightarrow> (string \<times> json) list" where
  "generation_fields src =
     taken any_value src ''temperature'' ''temperature'' @ taken any_value src ''top_p'' ''topP'' @
     taken any_value src ''max_tokens'' ''maxOutputTokens'' @ taken any_value src ''stop'' ''stopSequences''"

definition thinkingConfig :: "json \<Rightarrow> string \<times> json" where
  "thinkingConfig budget = (''thinkingConfig'', JObj [(''thinkingBudget'', budget), (''include_thoughts'', JBool True)])"

text \<open>
  The generation config of the output. The map of the plain fields is part of the output only if it was not
  empty when it was attached; the budget of a thinking object goes into that map either way.
\<close>

definition generationConfig :: "json \<Rightarrow> (string \<times> json) list" where
  "generationConfig src =
     (let gc = generation_fields src; effort = reasoningEffortToBudgetGemini (str_at src ''reasoning_effort'')
      in case obj_at src ''thinking'' of
           Some th \<Rightarrow>
             (case jget th ''budget_tokens'' of
                Some b \<Rightarrow> if gc = [] then [] else gc @ [thinkingConfig b]
              | None \<Rightarrow> gc)
         | None \<Rightarrow> if 0 < effort then gc @ [thinkingConfig (JNum (of_int effort))] else gc)"

definition gemini_from_doc :: "json \<Rightarrow> json" where
  "gemini_from_doc src =
     JObj (taken any_value src ''model'' ''model'' @ taken any_value src ''stream'' ''stream'' @
       (if generationConfig src = [] then [] else [(''generationConfig'', JObj (generationConfig src))]) @
       buildGeminiSystemInstruction src @ unless_empty ''contents'' (buildGeminiContents (items_at src ''messages'')) @
       (if extractGeminiFunctionDeclarations src = [] then []
        else [(''tools'', JArr [JObj [(''functionDeclarations'', JArr (extractGeminiFunctionDeclarations src))]])]))"

definition OpenAIToGemini :: "string \<Rightarrow> string res" where
  "OpenAIToGemini body =
     (case unmarshal_map body of
        None \<Rightarrow> Inl ''gemini: invalid FromOpenAI body''
      | Some src \<Rightarrow> Inr (json_print (gemini_from_doc src)))"

section \<open>Specifications\<close>

definition part_response_ids :: "json \<Rightarrow> string list" where
  "part_response_ids p = (case obj_at p ''functionResponse'' of Some fr \<Rightarrow> [str_at fr ''id''] | None \<Rightarrow> [])"

definition content_response_ids :: "json \<Rightarrow> string list" where
  "content_response_ids c = concat (map part_response_ids (items_at c ''parts''))"

definition tool_ids :: "json list \<Rightarrow> string list" where
  "tool_ids ms = filter (\<lambda>i. i \<noteq> []) (map (\<lambda>m. str_at m ''tool_call_id'') (filter (\<lambda>m. str_at m ''role'' = ''tool'') ms))"

definition gemini_call :: "string \<Rightarrow> json \<Rightarrow> json" where
  "gemini_call name args = JObj [(''functionCall'', JObj [(''name'', JStr name), (''args'', args)])]"

definition gemini_response :: "string \<Rightarrow> json \<Rightarrow> json" where
  "gemini_response name v = JObj [(''functionResponse'', JObj [(''name'', JStr name), (''response'', JObj [(''result'', v)])])]"

definition gemini_turns :: "json list" where
  "gemini_turns =
     [JObj [(''role'', JStr ''model''), (''parts'', JArr [gemini_call ''ls'' (JObj [])])],
      JObj [(''role'', JStr ''user''), (''parts'', JArr [gemini_response ''ls'' (JStr ''ok'')])]]"

definition openai_turns :: "json list" where
  "openai_turns =
     [JObj [(''role'', JStr ''user''), (''content'', JStr ''hi'')],
      JObj [(''role'', JStr ''assistant''), (''tool_calls'', JArr [JObj [(''id'', JStr ''c''), (''function'', JObj [(''name'', JStr ''ls'')])]])],
      JObj [(''role'', JStr ''tool''), (''tool_call_id'', JStr ''c''), (''content'', JStr ''ok'')],
      JObj [(''role'', JStr ''tool''), (''tool_call_id'', JStr ''d''), (''content'', JStr ''ok'')]]"

definition plain_user :: "json \<Rightarrow> bool" where
  "plain_user m = (str_at m ''role'' = ''user'' \<longrightarrow> arr_at m ''content'' = None)"

section \<open>Well-formed documents\<close>

lemma wf_items_at: "wf_json v \<Longrightarrow> x \<in> set (items_at v k) \<Longrightarrow> wf_json x"
  by (cases "arr_at v k") (auto simp: items_at_def dest: wf_json_arr_at)

lemma wf_taken: "wf_json src \<Longrightarrow> p \<in> set (taken ok src k d) \<Longrightarrow> wf_json (snd p)"
  by (cases "jget src k") (auto simp: taken_def split: if_splits dest: wf_json_jget)

lemma wf_result: "wf_json v \<Longrightarrow> wf_json (extractFunctionResponseContent v)"
  by (auto simp: extractFunctionResponseContent_def split: option.split dest: wf_json_jget)

lemma wf_images: "v \<in> set (g_images p) \<Longrightarrow> wf_json v"
  by (cases "obj_at p ''inlineData''") (simp_all add: g_images_def wf_map_def)

lemma wf_calls: "v \<in> set (g_calls ip) \<Longrightarrow> wf_json v"
  by (cases "obj_at (snd ip) ''functionCall''"; cases ip) (simp_all add: g_calls_def wf_map_def split: if_splits)

lemma wf_responses: "v \<in> set (g_responses p) \<Longrightarrow> wf_json v"
  by (cases "obj_at p ''functionResponse''") (simp_all add: g_responses_def wf_map_def split: if_splits)

lemma wf_texts: "wf_json (texts_value ts)"
  by (simp add: texts_value_def split: list.split)

lemma wf_gemini_content: "r \<in> set (convertGeminiContent c) \<Longrightarrow> wf_json r"
  using wf_images wf_calls wf_responses wf_texts
  by (auto simp: convertGeminiContent_def Let_def wf_map_def split: if_splits)

lemma wf_decl: "wf_json fd \<Longrightarrow> wf_json (convertGeminiFunctionDecl fd)"
  by (simp add: convertGeminiFunctionDecl_def wf_nil_at wf_map_def)

lemma wf_gemini_messages: "wf_json g \<Longrightarrow> r \<in> set (gemini_messages g) \<Longrightarrow> wf_json r"
  by (auto simp: gemini_messages_def system_messages_def wf_map_def split: option.splits if_splits intro: wf_gemini_content)

lemma wf_gemini_tools: "wf_json g \<Longrightarrow> r \<in> set (gemini_tools g) \<Longrightarrow> wf_json r"
  by (auto simp: gemini_tools_def intro!: wf_decl dest: wf_items_at)

lemma wf_config: "wf_json g \<Longrightarrow> p \<in> set (gemini_config g) \<Longrightarrow> wf_json (snd p)"
  by (cases "obj_at g ''generationConfig''") (auto simp: gemini_config_def dest: wf_obj_at wf_taken)

lemma wf_unless: "\<forall>x \<in> set xs. wf_json x \<Longrightarrow> p \<in> set (unless_empty k xs) \<Longrightarrow> wf_json (snd p)"
  by (simp add: unless_empty_def split: if_splits)

lemma distinct_subseq: "subseq xs ys \<Longrightarrow> distinct ys \<Longrightarrow> distinct xs"
  by (induction rule: list_emb.induct) (auto dest: list_emb_set)

lemma taken_keys: "subseq (map fst (taken ok src k d)) [d]"
  by (simp add: taken_def split: option.split)

lemma unless_keys: "subseq (map fst (unless_empty k xs)) [k]"
  by (simp add: unless_empty_def)

lemma config_keys: "subseq (map fst (gemini_config g)) ([''temperature''] @ [''max_tokens''] @ [''top_p''] @ [''stop''])"
  unfolding gemini_config_def by (cases "obj_at g ''generationConfig''") (simp, simp only: option.case map_append, intro list_emb_append_mono taken_keys)

lemma wf_gemini_doc:
  assumes "wf_json g"
  shows "wf_json (gemini_to_openai_doc g)"
proof -
  let ?m = "taken is_str g ''model'' ''model''" and ?s = "taken is_bool g ''stream'' ''stream''"
  let ?ms = "unless_empty ''messages'' (gemini_messages g)" and ?ts = "unless_empty ''tools'' (gemini_tools g)"
  have "distinct (map fst (?m @ ?s @ ?ms @ gemini_config g @ ?ts))"
  proof (rule distinct_subseq)
    show "subseq (map fst (?m @ ?s @ ?ms @ gemini_config g @ ?ts))
      ([''model''] @ [''stream''] @ [''messages''] @ ([''temperature''] @ [''max_tokens''] @ [''top_p''] @ [''stop'']) @ [''tools''])"
      unfolding map_append by (intro list_emb_append_mono taken_keys unless_keys config_keys)
  qed simp
  moreover have "\<forall>p \<in> set ?ms. wf_json (snd p)" "\<forall>p \<in> set ?ts. wf_json (snd p)"
    using wf_unless wf_gemini_messages [OF assms] wf_gemini_tools [OF assms] by blast+
  then have "\<forall>p \<in> set (?m @ ?s @ ?ms @ gemini_config g @ ?ts). wf_json (snd p)"
    using wf_taken [OF assms] wf_config [OF assms] unfolding set_append ball_Un by blast
  ultimately show ?thesis unfolding gemini_to_openai_doc_def by (rule wf_fields)
qed

lemma gemini_decodes:
  assumes "unmarshal_map body = Some g"
  shows "GeminiToOpenAI body = Inr (json_print (gemini_to_openai_doc g))"
    and "unmarshal_map (json_print (gemini_to_openai_doc g)) = Some (canon (gemini_to_openai_doc g))"
  using assms wf_gemini_doc [OF unmarshal_map_wf [OF assms]]
  by (simp_all add: GeminiToOpenAI_def unmarshal_map_print gemini_to_openai_doc_def)

text \<open>
  Every Gemini request whose body decodes is translated, and the request that leaves the pipeline towards an
  OpenAI upstream has every tool call answered and every tool-call id within the accepted characters.
\<close>

theorem gemini_request_ready:
  assumes "gemini_ToOpenAI tr = GeminiToOpenAI" "unmarshal_map body = Some g"
  shows "\<exists>out d. Request tr body FormatGemini FormatOpenAI = Inr out \<and> unmarshal_map out = Some d \<and>
    history_answered d \<and> request_ids_valid d"
proof -
  obtain out where "preprocess (json_print (gemini_to_openai_doc g)) = Inr out" "ready.holds_on out"
    using preprocess_ready [OF gemini_decodes(2) [OF assms(2)]] .
  then show ?thesis
    by (auto simp: Request_def sourceToOpenAI_def openAIToTarget_def assms(1) gemini_decodes(1) [OF assms(2)]
        ready.holds_on_def tools_ready_def)
qed

section \<open>Results in Gemini histories\<close>

lemma part_ids [simp]:
  "part_response_ids (text_part t) = []" "part_response_ids (functionCall tc) = []" "part_response_ids (functionResponse i nm v) = [i]"
  by (simp_all add: part_response_ids_def text_part_def functionCall_def functionResponse_def obj_at_def str_at_def Let_def)

lemma content_ids [simp]: "content_response_ids (g_content r ps) = concat (map part_response_ids ps)"
  by (simp add: content_response_ids_def g_content_def items_at_def arr_at_def)

lemma text_ids: "concat (map part_response_ids (content_texts m)) = []"
proof (cases "jget m ''content''")
  case (Some v)
  then show ?thesis by (cases v) (simp_all add: content_texts_def comp_def)
qed (simp add: content_texts_def)

lemma ahead_used:
  "ahead names resps used ids = (ps, used') \<Longrightarrow> used' = used @ concat (map part_response_ids ps) \<and>
     (distinct used \<longrightarrow> distinct used') \<and> set used' \<subseteq> set used \<union> dom (map_of resps)"
proof (induction names resps used ids arbitrary: ps used' rule: ahead.induct)
  case (2 names resps used i ids)
  show ?case
  proof (cases "map_of resps i")
    case None
    with "2.prems" have "ahead names resps used ids = (ps, used')" by simp
    then show ?thesis by (rule "2.IH"(1) [OF None])
  next
    case (Some c)
    show ?thesis
    proof (cases "i \<in> set used")
      case True
      with "2.prems" Some have "ahead names resps used ids = (ps, used')" by simp
      then show ?thesis by (rule "2.IH"(2) [OF Some True])
    next
      case False
      obtain qs u where q: "ahead names resps (used @ [i]) ids = (qs, u)" by fastforce
      then have "ps = functionResponse i (name_for names i) (tryParseJSON c) # qs" "used' = u"
        using "2.prems" Some False by simp_all
      moreover have "u = (used @ [i]) @ concat (map part_response_ids qs)" "distinct (used @ [i]) \<longrightarrow> distinct u"
        "set u \<subseteq> set (used @ [i]) \<union> dom (map_of resps)" using "2.IH"(3) [OF Some False q] by blast+
      moreover have "i \<in> dom (map_of resps)" using Some by blast
      ultimately show ?thesis using False by (simp del: distinct_append) (simp add: subset_iff, blast)
    qed
  qed
qed simp

lemma plain_user_ids:
  assumes "plain_user m" "str_at m ''role'' = ''user''"
  shows "concat (map part_response_ids (openaiUserContentToParts m)) = []"
  using assms by (auto simp: plain_user_def openaiUserContentToParts_def arr_at_def split: option.splits json.splits)

lemma message_used:
  assumes "plain_user m" "g_message names resps used m = (cs, used')" "distinct used"
    "set (tool_ids [m]) \<subseteq> dom (map_of resps)"
  shows "used' = used @ concat (map content_response_ids cs) \<and> distinct used' \<and> set used' \<subseteq> set used \<union> dom (map_of resps) \<and>
    set (tool_ids [m]) \<subseteq> set used'"
proof (cases "str_at m ''role'' = ''assistant''")
  case True
  obtain ps u where a: "ahead names resps used (snd (openaiAssistantContentToParts m)) = (ps, u)" by fastforce
  have "concat (map part_response_ids (fst (openaiAssistantContentToParts m))) = []"
    by (simp add: openaiAssistantContentToParts_def text_ids comp_def)
  then show ?thesis using True assms(2,3) a ahead_used [OF a]
    by (auto simp: g_message_def tool_ids_def case_prod_unfold split: if_splits)
next
  case False
  then show ?thesis using assms plain_user_ids [OF assms(1)]
    by (auto simp: g_message_def tool_ids_def Let_def split: if_splits)
qed

lemma tool_ids_Cons: "set (tool_ids (m # ms)) = set (tool_ids [m]) \<union> set (tool_ids ms)"
  by (auto simp: tool_ids_def)

lemma messages_used:
  assumes "list_all plain_user ms" "g_messages names resps used ms = (cs, used')" "distinct used" "set (tool_ids ms) \<subseteq> dom (map_of resps)"
  shows "used' = used @ concat (map content_response_ids cs) \<and> distinct used' \<and> set used' \<subseteq> set used \<union> dom (map_of resps) \<and>
    set (tool_ids ms) \<subseteq> set used'"
  using assms
proof (induction ms arbitrary: used cs used')
  case (Cons m ms)
  obtain c1 u1 where 1: "g_message names resps used m = (c1, u1)" by fastforce
  obtain c2 u2 where 2: "g_messages names resps u1 ms = (c2, u2)" by fastforce
  have t: "set (tool_ids [m]) \<subseteq> dom (map_of resps)" "set (tool_ids ms) \<subseteq> dom (map_of resps)"
    using Cons.prems(4) tool_ids_Cons [of m ms] by auto
  have a: "u1 = used @ concat (map content_response_ids c1) \<and> distinct u1 \<and> set u1 \<subseteq> set used \<union> dom (map_of resps) \<and> set (tool_ids [m]) \<subseteq> set u1"
    by (rule message_used [OF _ 1 Cons.prems(3) t(1)]) (use Cons.prems(1) in simp)
  have b: "u2 = u1 @ concat (map content_response_ids c2) \<and> distinct u2 \<and> set u2 \<subseteq> set u1 \<union> dom (map_of resps) \<and> set (tool_ids ms) \<subseteq> set u2"
    by (rule Cons.IH [OF _ 2 _ t(2)]) (use Cons.prems(1) in simp, use a in blast)
  have "cs = c1 @ c2" "used' = u2" using Cons.prems(2) 1 2 by simp_all
  moreover have "u2 = used @ concat (map content_response_ids (c1 @ c2))" using conjunct1 [OF a] conjunct1 [OF b] by simp
  moreover have "set u1 \<subseteq> set u2" using conjunct1 [OF b] by (simp add: subset_iff)
  ultimately show ?case using a b unfolding tool_ids_Cons [of m ms] by blast
qed (simp add: tool_ids_def)

lemma responses_dom: "dom (map_of (responses_of ms)) = set (tool_ids ms)"
proof -
  have "dom (map_of (fold (\<lambda>m resps. if str_at m ''role'' = ''tool'' \<and> str_at m ''tool_call_id'' \<noteq> []
      then mput (str_at m ''tool_call_id'') (response_text m) resps else resps) ms r)) = dom (map_of r) \<union> set (tool_ids ms)" for r
    by (induction ms arbitrary: r) (auto simp: tool_ids_def dom_def)
  then show ?thesis by (simp add: responses_of_def)
qed



section \<open>Calls\<close>

text \<open>
  A Gemini function call that is translated to OpenAI and back keeps its name and its arguments.
\<close>

theorem gemini_call_round_trip:
  assumes "name \<noteq> []" "wf_json args" "is_obj args"
  shows "map functionCall (g_calls (i, gemini_call name args)) =
    [JObj [(''functionCall'', JObj [(''id'', JStr (geminiToolCallID name i)), (''name'', JStr name), (''args'', canon args)])]]"
proof -
  obtain m where m: "args = JObj m" using assms(3) by (cases args) auto
  have "tryParseJSON (json_print args) = canon args"
    using json_parse_print [OF assms(2)] json_print_not_Nil [OF assms(2)] by (simp add: tryParseJSON_def)
  then show ?thesis using assms(1) m
    by (simp add: g_calls_def gemini_call_def functionCall_def obj_at_def str_at_def nil_at_def g_args_def contentToStringForGemini_def)
qed

theorem gemini_call_round_trip_witness:
  "map functionCall (g_calls (2, gemini_call ''ls'' (JObj [(''p'', JNum 1)]))) =
    [JObj [(''functionCall'', JObj [(''id'', JStr (geminiToolCallID ''ls'' 2)), (''name'', JStr ''ls''), (''args'', canon (JObj [(''p'', JNum 1)]))])]]"
  by (rule gemini_call_round_trip) (use is_decimal_int [of 1] in \<open>simp_all add: wf_map_def\<close>)

text \<open>
  A call and its result that Gemini matches by the function name do not match as OpenAI messages: the call gets
  an id of its own and the result keeps the name, so the history repair answers the call with a synthetic
  result, and the real one follows without a call.
\<close>

theorem gemini_result_unmatched:
  "map (\<lambda>m. (str_at m ''role'', str_at m ''tool_call_id'', str_at m ''content'')) (fix_missing (concat (map convertGeminiContent gemini_turns))) =
   [(''assistant'', [], []), (''tool'', ''call_gemini_ls_0'', SyntheticToolContent), (''tool'', ''ls'', quoted ''ok''), (''user'', [], [])]"
  by code_simp

text \<open>
  A thinking budget is dropped from a request without other generation settings: it is put into a map that is
  not part of the output.
\<close>

theorem gemini_thinking_lost:
  assumes "generation_fields src = []" "obj_at src ''thinking'' = Some th"
  shows "jget (gemini_from_doc src) ''generationConfig'' = None"
proof -
  have t: "map_of (taken ok src k d) x = None" if "d \<noteq> x" for ok k d and x :: string
    using that by (simp add: taken_def split: option.split)
  have g: "generationConfig src = []" using assms by (simp add: generationConfig_def split: option.split)
  show ?thesis
    by (simp add: gemini_from_doc_def g map_add_def t buildGeminiSystemInstruction_def unless_empty_def Let_def)
qed

theorem gemini_thinking_lost_witness:
  "jget (gemini_from_doc (JObj [(''thinking'', JObj [(''budget_tokens'', JNum 1024)])])) ''generationConfig'' = None"
  by (rule gemini_thinking_lost) (simp_all add: generation_fields_def taken_def obj_at_def)

theorem gemini_request_ready_witness:
  "\<exists>out d. Request (plain_translators\<lparr>gemini_ToOpenAI := GeminiToOpenAI\<rparr>) tools_body FormatGemini FormatOpenAI = Inr out \<and>
    unmarshal_map out = Some d \<and> history_answered d \<and> request_ids_valid d"
  by (rule gemini_request_ready [OF _ tools_body_decodes]) simp

end
