(* ===== verification/Gemini_Response.thy ===== *)
theory Gemini_Response
  imports Gemini_Request Claude_To_OpenAI
begin

text \<open>
  Gemini answers and streams to and from OpenAI (internal/translate/gemini/json.go, json\_to\_openai.go,
  stream.go, stream\_gemini\_to\_openai.go). Random identifiers are a function of the draws so far, the clock is
  an argument, and a stream is a handler from the state to the documents it emits and the next state.
\<close>

section \<open>Answers\<close>

definition MapFinishReasonGemini :: "string \<Rightarrow> string" where
  "MapFinishReasonGemini r =
     (if r = ''length'' then ''MAX_TOKENS'' else if r = ''content_filter'' then ''BLOCKED'' else ''STOP'')"

definition usageMetadata :: "json \<Rightarrow> string \<times> json" where
  "usageMetadata usage =
     (''usageMetadata'', JObj [(''promptTokenCount'', nil_at usage ''prompt_tokens''), (''candidatesTokenCount'', nil_at usage ''completion_tokens'')])"

definition gemini_candidate :: "json \<Rightarrow> json" where
  "gemini_candidate choice =
     (let txt = str_at (nil_at choice ''message'') ''content''
      in JObj [(''index'', JNum 0), (''finishReason'', JStr (MapFinishReasonGemini (str_at choice ''finish_reason''))),
           (''content'', JObj [(''parts'', JArr (if txt = [] then [] else [JObj [(''text'', JStr txt)]])), (''role'', JStr ''model'')])])"

definition gemini_answer :: "json \<Rightarrow> json" where
  "gemini_answer resp =
     JObj ((''candidates'', JArr (case first_choice resp of Some c \<Rightarrow> [gemini_candidate c] | None \<Rightarrow> [])) #
       (case obj_at resp ''usage'' of Some u \<Rightarrow> [usageMetadata u] | None \<Rightarrow> []))"

definition JSONToGemini :: "string \<Rightarrow> string res" where
  "JSONToGemini body =
     (case unmarshal_map body of
        None \<Rightarrow> Inl ''json''
      | Some resp \<Rightarrow> Inr (json_print (gemini_answer resp)))"

definition mapFinishReasonOpenAI :: "string \<Rightarrow> string" where
  "mapFinishReasonOpenAI r =
     (if r = ''MAX_TOKENS'' then ''length''
      else if r \<in> set [''BLOCKED'', ''SAFETY'', ''RECITATION'', ''LANGUAGE'', ''OTHER'', ''SPII''] then ''content_filter''
      else ''stop'')"

text \<open>The call of a part, at its number among the calls and the draws.\<close>

definition openai_call :: "(nat \<Rightarrow> string) \<Rightarrow> nat \<Rightarrow> nat \<Rightarrow> json \<Rightarrow> json" where
  "openai_call rnd n i fc =
     JObj [(''id'', JStr (''call_gemini_'' @ str_at fc ''name'' @ ''_'' @ rnd n)), (''type'', JStr ''function''), (''index'', JNum (of_nat i)),
       (''function'', JObj [(''name'', JStr (str_at fc ''name'')), (''arguments'', JStr (g_args fc))])]"

fun gemini_calls :: "(nat \<Rightarrow> string) \<Rightarrow> nat \<Rightarrow> nat \<Rightarrow> json list \<Rightarrow> json list" where
  "gemini_calls rnd n i [] = []"
| "gemini_calls rnd n i (p # ps) =
     (case obj_at p ''functionCall'' of
        None \<Rightarrow> gemini_calls rnd n i ps
      | Some fc \<Rightarrow> openai_call rnd n i fc # gemini_calls rnd (Suc n) (Suc i) ps)"

definition extractContentFromParts :: "(nat \<Rightarrow> string) \<Rightarrow> nat \<Rightarrow> json list \<Rightarrow> string \<times> json list" where
  "extractContentFromParts rnd n parts = (concat (map (\<lambda>p. str_at p ''text'') parts), gemini_calls rnd n 0 parts)"

definition buildChoiceFromCandidate :: "(nat \<Rightarrow> string) \<Rightarrow> nat \<Rightarrow> json \<Rightarrow> json" where
  "buildChoiceFromCandidate rnd n c =
     (let reason = (case jget c ''finishReason'' of Some (JStr fr) \<Rightarrow> mapFinishReasonOpenAI fr | _ \<Rightarrow> [])
      in case extractContentFromParts rnd n (items_at (nil_at c ''content'') ''parts'') of (txt, calls) \<Rightarrow>
           JObj [(''index'', JNum 0),
             (''message'', JObj ([(''role'', JStr ''assistant''), (''content'', JStr txt)] @ unless_empty ''tool_calls'' calls)),
             (''finish_reason'', JStr reason)])"

text \<open>The usage of an OpenAI answer from prompt, candidate, thought and cached tokens.\<close>

definition gemini_usage_fields :: "int \<Rightarrow> int \<Rightarrow> int \<Rightarrow> int \<Rightarrow> json" where
  "gemini_usage_fields prompt candidates thoughts cached =
     JObj ([(''prompt_tokens'', JNum (of_int prompt)), (''completion_tokens'', JNum (of_int (candidates + thoughts))),
            (''total_tokens'', JNum (of_int (prompt + (candidates + thoughts))))] @
       (if 0 < cached then [(''prompt_tokens_details'', JObj [(''cached_tokens'', JNum (of_int cached))])] else []) @
       (if 0 < thoughts then [(''completion_tokens_details'', JObj [(''reasoning_tokens'', JNum (of_int thoughts))])] else []))"

definition buildUsageOpenAI :: "json \<Rightarrow> json" where
  "buildUsageOpenAI um =
     gemini_usage_fields (int_at um ''promptTokenCount'') (int_at um ''candidatesTokenCount'') (int_at um ''thoughtsTokenCount'')
       (int_at um ''cachedContentTokenCount'')"

definition openai_from_gemini :: "(nat \<Rightarrow> string) \<Rightarrow> int \<Rightarrow> json \<Rightarrow> json" where
  "openai_from_gemini rnd now gemini =
     JObj ([(''id'', JStr (''chatcmpl-'' @ rnd 0)), (''object'', JStr ''chat.completion''), (''created'', JNum (of_int now)),
            (''choices'', JArr (case arr_at gemini ''candidates'' of
                Some (JObj m # _) \<Rightarrow> [buildChoiceFromCandidate rnd 1 (JObj m)]
              | _ \<Rightarrow> []))] @
       (case obj_at gemini ''usageMetadata'' of Some um \<Rightarrow> [(''usage'', buildUsageOpenAI um)] | None \<Rightarrow> []))"

definition gemini_JSONToOpenAI :: "(nat \<Rightarrow> string) \<Rightarrow> int \<Rightarrow> string \<Rightarrow> string res" where
  "gemini_JSONToOpenAI rnd now body =
     (case unmarshal_map body of
        None \<Rightarrow> Inl ''gemini: invalid JSONToOpenAI body''
      | Some gemini \<Rightarrow> Inr (json_print (openai_from_gemini rnd now gemini)))"

section \<open>An OpenAI stream for a Gemini client\<close>

record o2g_state =
  gTextBuffer :: string
  gFinishReason :: string
  gUsage :: "json option"
  gClosed :: bool

definition o2g_new :: o2g_state where
  "o2g_new = \<lparr>gTextBuffer = [], gFinishReason = [], gUsage = None, gClosed = False\<rparr>"

definition o2g_note :: "json \<Rightarrow> json \<Rightarrow> o2g_state \<Rightarrow> o2g_state" where
  "o2g_note chunk choice s =
     (let d = nil_at choice ''delta''; fr = str_at choice ''finish_reason'';
          s1 = s\<lparr>gTextBuffer := gTextBuffer s @ str_at d ''content'' @ delta_reasoning d\<rparr>;
          s2 = (if fr \<noteq> [] \<and> fr \<noteq> ''null'' then s1\<lparr>gFinishReason := fr\<rparr> else s1)
      in case obj_at chunk ''usage'' of Some u \<Rightarrow> s2\<lparr>gUsage := Some u\<rparr> | None \<Rightarrow> s2)"

definition o2g_parts :: "json \<Rightarrow> json list" where
  "o2g_parts choice =
     (let d = nil_at choice ''delta'';
          thought = delta_reasoning d; txt = str_at d ''content''
      in (if thought = [] then [] else [JObj [(''text'', JStr thought), (''thought'', JBool True)]]) @
         (if txt = [] then [] else [JObj [(''text'', JStr txt)]]))"

definition o2g_chunk :: "json list \<Rightarrow> o2g_state \<Rightarrow> json" where
  "o2g_chunk parts s =
     JObj ((''candidates'', JArr [JObj ([(''index'', JNum 0), (''content'', JObj [(''parts'', JArr parts), (''role'', JStr ''model'')])] @
             (if gFinishReason s = [] then [] else [(''finishReason'', JStr (MapFinishReasonGemini (gFinishReason s)))]))]) #
       (case gUsage s of Some u \<Rightarrow> [usageMetadata u] | None \<Rightarrow> []))"

definition o2g_ProcessChunk :: "json \<Rightarrow> o2g_state \<Rightarrow> json list \<times> o2g_state" where
  "o2g_ProcessChunk chunk s =
     (if gClosed s then ([], s)
      else case first_choice chunk of
             None \<Rightarrow> ([], s)
           | Some choice \<Rightarrow>
               (let s1 = o2g_note chunk choice s; parts = o2g_parts choice
                in if parts = [] \<and> gFinishReason s1 = [] then ([], s1)
                   else ([o2g_chunk parts s1], s1\<lparr>gClosed := (gFinishReason s1 \<noteq> [])\<rparr>)))"

fun o2g_run :: "json list \<Rightarrow> o2g_state \<Rightarrow> json list \<times> o2g_state" where
  "o2g_run [] s = ([], s)"
| "o2g_run (x # xs) s = (case o2g_ProcessChunk x s of (es, s1) \<Rightarrow> case o2g_run xs s1 of (es', s2) \<Rightarrow> (es @ es', s2))"

section \<open>A Gemini stream for an OpenAI client\<close>

record g2o_call =
  gcIndex :: nat
  gcID :: string
  gcName :: string

record g2o_usage =
  guPrompt :: int
  guCandidates :: int
  guThoughts :: int
  guCached :: int

record g2o_state =
  oMessageID :: string
  oModel :: string
  oCreated :: int
  oToolCallIndex :: nat
  oToolCalls :: "(nat, g2o_call) gomap"
  oTextStarted :: bool
  oUsage :: "g2o_usage option"
  oFinishReason :: string
  oFinishSent :: bool
  oClosed :: bool
  oDrawn :: nat

type_synonym g2o_handler = "g2o_state \<Rightarrow> json list \<times> g2o_state"

definition NewGeminiToOpenAIState :: "(nat \<Rightarrow> string) \<Rightarrow> int \<Rightarrow> g2o_state" where
  "NewGeminiToOpenAIState rnd now =
     \<lparr>oMessageID = rnd 0, oModel = [], oCreated = now, oToolCallIndex = 0, oToolCalls = [], oTextStarted = False, oUsage = None,
      oFinishReason = [], oFinishSent = False, oClosed = False, oDrawn = 1\<rparr>"

definition parseGeminiUsage :: "json \<Rightarrow> g2o_usage" where
  "parseGeminiUsage um =
     \<lparr>guPrompt = int_at um ''promptTokenCount'', guCandidates = int_at um ''candidatesTokenCount'', guThoughts = int_at um ''thoughtsTokenCount'',
      guCached = int_at um ''cachedContentTokenCount''\<rparr>"

definition g2o_doc :: "g2o_state \<Rightarrow> json \<Rightarrow> json \<Rightarrow> (string \<times> json) list \<Rightarrow> json" where
  "g2o_doc s delta reason extra =
     JObj ([(''id'', JStr (''chatcmpl-'' @ oMessageID s)), (''object'', JStr ''chat.completion.chunk''), (''created'', JNum (of_int (oCreated s))),
        (''model'', JStr (oModel s)),
        (''choices'', JArr [JObj [(''index'', JNum 0), (''delta'', delta), (''finish_reason'', reason)]])] @ extra)"

definition g2o_chunkLine :: "json \<Rightarrow> g2o_state \<Rightarrow> json" where
  "g2o_chunkLine delta s = g2o_doc s delta JNull []"

definition g2o_finalChunk :: "g2o_state \<Rightarrow> json" where
  "g2o_finalChunk s =
     g2o_doc s (JObj []) (JStr (oFinishReason s))
       (case oUsage s of
          Some u \<Rightarrow> [(''usage'', gemini_usage_fields (guPrompt u) (guCandidates u) (guThoughts u) (guCached u))]
        | None \<Rightarrow> [])"

definition g2o_call_delta :: "nat \<Rightarrow> string \<Rightarrow> string \<Rightarrow> string \<Rightarrow> json" where
  "g2o_call_delta i ident name args =
     JObj [(''tool_calls'', JArr [JObj [(''index'', JNum (of_nat i)), (''id'', JStr ident), (''type'', JStr ''function''),
        (''function'', JObj [(''name'', JStr name), (''arguments'', JStr args)])]])]"

definition g2o_part :: "(nat \<Rightarrow> string) \<Rightarrow> nat \<times> json \<Rightarrow> g2o_handler" where
  "g2o_part rnd ip s =
     (case ip of (i, p) \<Rightarrow>
        (case jget p ''text'' of
           Some (JStr t) \<Rightarrow>
             (if t = [] then []
              else [g2o_chunkLine (JObj [(if bool_at p ''thought'' then ''reasoning'' else ''content'', JStr t)]) s], s)
         | _ \<Rightarrow>
             (case obj_at p ''functionCall'' of
                None \<Rightarrow> ([], s)
              | Some fc \<Rightarrow>
                  let name = str_at fc ''name''; tc = \<lparr>gcIndex = oToolCallIndex s, gcID = ''call_gemini_'' @ name @ ''_'' @ rnd (oDrawn s), gcName = name\<rparr>
                  in if name = [] then ([], s)
                     else ([g2o_chunkLine (g2o_call_delta (gcIndex tc) (gcID tc) name (g_args fc)) s],
                           s\<lparr>oToolCalls := mput i tc (oToolCalls s), oToolCallIndex := Suc (oToolCallIndex s), oDrawn := Suc (oDrawn s)\<rparr>))))"

fun g2o_parts :: "(nat \<Rightarrow> string) \<Rightarrow> (nat \<times> json) list \<Rightarrow> g2o_handler" where
  "g2o_parts rnd [] s = ([], s)"
| "g2o_parts rnd (p # ps) s = (case g2o_part rnd p s of (es, s1) \<Rightarrow> case g2o_parts rnd ps s1 of (es', s2) \<Rightarrow> (es @ es', s2))"

definition g2o_finish :: g2o_handler where
  "g2o_finish s =
     (if oFinishReason s \<noteq> [] \<and> \<not> oFinishSent s then ([g2o_finalChunk s], s\<lparr>oFinishSent := True, oClosed := True\<rparr>) else ([], s))"

definition g2o_header :: "json \<Rightarrow> g2o_state \<Rightarrow> g2o_state" where
  "g2o_header chunk s =
     (let s1 = (if str_at chunk ''modelVersion'' = [] then s else s\<lparr>oModel := str_at chunk ''modelVersion''\<rparr>)
      in case obj_at chunk ''usageMetadata'' of Some um \<Rightarrow> s1\<lparr>oUsage := Some (parseGeminiUsage um)\<rparr> | None \<Rightarrow> s1)"

definition g2o_candidate :: "(nat \<Rightarrow> string) \<Rightarrow> json \<Rightarrow> g2o_handler" where
  "g2o_candidate rnd c s =
     (let parts = items_at (nil_at c ''content'') ''parts''; fr = str_at c ''finishReason'';
          s1 = s\<lparr>oTextStarted := (oTextStarted s \<or> parts \<noteq> [])\<rparr>;
          s2 = (if fr = [] then s1 else s1\<lparr>oFinishReason := mapFinishReasonOpenAI fr\<rparr>)
      in case g2o_parts rnd (List.enumerate 0 parts) s2 of (es, s3) \<Rightarrow>
         case g2o_finish s3 of (es', s4) \<Rightarrow> (es @ es', s4))"

definition g2o_ProcessChunk :: "(nat \<Rightarrow> string) \<Rightarrow> json \<Rightarrow> g2o_handler" where
  "g2o_ProcessChunk rnd chunk s =
     (if oClosed s then ([], s)
      else case arr_at chunk ''candidates'' of
             Some (JObj m # _) \<Rightarrow> g2o_candidate rnd (JObj m) (g2o_header chunk s)
           | _ \<Rightarrow> ([], g2o_header chunk s))"

fun g2o_run :: "(nat \<Rightarrow> string) \<Rightarrow> json list \<Rightarrow> g2o_handler" where
  "g2o_run rnd [] s = ([], s)"
| "g2o_run rnd (x # xs) s = (case g2o_ProcessChunk rnd x s of (es, s1) \<Rightarrow> case g2o_run rnd xs s1 of (es', s2) \<Rightarrow> (es @ es', s2))"

section \<open>Specifications\<close>

definition g2o_view :: "g2o_state \<Rightarrow> openai_client" where
  "g2o_view s = \<lparr>known = oToolCallIndex s, ended = oFinishSent s\<rparr>"

definition text_chunk :: "string \<Rightarrow> json" where
  "text_chunk t = JObj [(''choices'', JArr [JObj [(''delta'', JObj [(''content'', JStr t)])]])]"

definition usage_chunk :: json where
  "usage_chunk = JObj [(''choices'', JArr []), (''usage'', JObj [(''prompt_tokens'', JNum 7), (''completion_tokens'', JNum 2)])]"

definition g2o_ok :: "g2o_state \<Rightarrow> json list \<times> g2o_state \<Rightarrow> bool" where
  "g2o_ok s r = (accept_chunks (g2o_view s) (fst r) = Some (g2o_view (snd r)))"

definition g2o_inv :: "g2o_state \<Rightarrow> bool" where
  "g2o_inv s = (oFinishSent s \<longrightarrow> oClosed s)"

section \<open>The protocol of an OpenAI client\<close>

lemma g2o_ok_seq: "g2o_ok s (es, s1) \<Longrightarrow> g2o_ok s1 (es', s2) \<Longrightarrow> g2o_ok s (es @ es', s2)"
  by (simp add: g2o_ok_def accept_chunks_append)

lemma g2o_accept_plain:
  assumes "arr_at d ''tool_calls'' = None" "\<not> ended c"
  shows "accept_chunk (g2o_doc s d JNull extra) c = Some c"
    "accept_chunk (g2o_doc s d (JStr r) extra) c = Some (c\<lparr>ended := True\<rparr>)"
  using assms by (simp_all add: accept_chunk_def g2o_doc_def arr_at_def nil_at_def)

lemma g2o_accept_call:
  assumes "\<not> ended c" "k = known c"
  shows "accept_chunk (g2o_doc s (g2o_call_delta k i nm args) JNull []) c = Some (c\<lparr>known := Suc (known c)\<rparr>)"
  using assms
  by (simp add: accept_chunk_def g2o_doc_def arr_at_def nil_at_def g2o_call_delta_def accept_call_def has_key_def int_at_index)

lemma g2o_part_ok: "\<not> oFinishSent s \<Longrightarrow> g2o_ok s (g2o_part rnd ip s) \<and> \<not> oFinishSent (snd (g2o_part rnd ip s))"
  by (cases ip) (auto simp: g2o_part_def g2o_ok_def g2o_view_def g2o_chunkLine_def g2o_accept_plain g2o_accept_call Let_def
      split: option.split json.split)

lemma g2o_parts_ok: "\<not> oFinishSent s \<Longrightarrow> g2o_ok s (g2o_parts rnd ps s) \<and> \<not> oFinishSent (snd (g2o_parts rnd ps s))"
proof (induction ps arbitrary: s)
  case (Cons p ps)
  obtain es s1 where 1: "g2o_part rnd p s = (es, s1)" by fastforce
  obtain es' s2 where 2: "g2o_parts rnd ps s1 = (es', s2)" by fastforce
  show ?case using g2o_part_ok [OF Cons.prems, of rnd p] Cons.IH [of s1] 1 2 g2o_ok_seq by auto
qed (simp add: g2o_ok_def)

lemma g2o_finish_ok: "g2o_ok s (g2o_finish s)"
  by (auto simp: g2o_finish_def g2o_finalChunk_def g2o_ok_def g2o_view_def g2o_accept_plain)

lemma g2o_header_view: "g2o_view (g2o_header x s) = g2o_view s" "oFinishSent (g2o_header x s) = oFinishSent s"
  by (simp_all add: g2o_header_def g2o_view_def Let_def split: option.split)

lemma g2o_parts_closed: "oClosed (snd (g2o_parts rnd ps s)) = oClosed s"
proof (induction ps arbitrary: s)
  case (Cons p ps)
  have "oClosed (snd (g2o_part rnd p s)) = oClosed s"
    by (cases p) (auto simp: g2o_part_def Let_def split: option.split json.split)
  then show ?case using Cons [of "snd (g2o_part rnd p s)"] by (simp add: case_prod_unfold)
qed simp

lemma g2o_candidate_ok:
  assumes "\<not> oFinishSent s"
  shows "g2o_ok s (g2o_candidate rnd c s) \<and> g2o_inv (snd (g2o_candidate rnd c s))"
proof -
  define parts where "parts = items_at (nil_at c ''content'') ''parts''"
  define fr where "fr = str_at c ''finishReason''"
  define s2 where "s2 = (if fr = [] then s\<lparr>oTextStarted := (oTextStarted s \<or> parts \<noteq> [])\<rparr>
     else s\<lparr>oTextStarted := (oTextStarted s \<or> parts \<noteq> []), oFinishReason := mapFinishReasonOpenAI fr\<rparr>)"
  obtain es s3 where 1: "g2o_parts rnd (List.enumerate 0 parts) s2 = (es, s3)" by fastforce
  obtain es' s4 where 2: "g2o_finish s3 = (es', s4)" by fastforce
  have v: "g2o_view s2 = g2o_view s" "\<not> oFinishSent s2" using assms by (simp_all add: s2_def g2o_view_def)
  have "g2o_ok s (es, s3)" "\<not> oFinishSent s3" using g2o_parts_ok [OF v(2), of rnd "List.enumerate 0 parts"] 1 v by (auto simp: g2o_ok_def)
  moreover have "g2o_ok s3 (es', s4)" "oFinishSent s4 \<longrightarrow> oClosed s4 \<or> oFinishSent s3" using g2o_finish_ok [of s3] 2
    by (auto simp: g2o_finish_def split: if_splits)
  moreover have "g2o_candidate rnd c s = (es @ es', s4)"
    using 1 2 by (cases "fr = []") (simp_all add: g2o_candidate_def Let_def s2_def parts_def fr_def)
  ultimately show ?thesis using g2o_ok_seq by (auto simp: g2o_inv_def)
qed

lemma g2o_step: "g2o_inv s \<Longrightarrow> g2o_ok s (g2o_ProcessChunk rnd x s) \<and> g2o_inv (snd (g2o_ProcessChunk rnd x s))"
proof (cases "oClosed s")
  case False
  assume i: "g2o_inv s"
  then have "\<not> oFinishSent (g2o_header x s)" using False by (simp add: g2o_inv_def g2o_header_view)
  moreover have "g2o_ok s r = g2o_ok (g2o_header x s) r" for r by (simp add: g2o_ok_def g2o_header_view)
  moreover have "g2o_ok (g2o_header x s) ([], g2o_header x s)" "g2o_inv (g2o_header x s)"
    using calculation(1) by (simp_all add: g2o_ok_def g2o_inv_def)
  ultimately show ?thesis using False g2o_candidate_ok
    by (auto simp: g2o_ProcessChunk_def split: option.split list.split json.split)
qed (simp add: g2o_ProcessChunk_def g2o_ok_def)

lemma g2o_steps: "g2o_inv s \<Longrightarrow> g2o_ok s (g2o_run rnd xs s)"
proof (induction xs arbitrary: s)
  case (Cons x xs)
  obtain es s1 where 1: "g2o_ProcessChunk rnd x s = (es, s1)" by fastforce
  obtain es' s2 where 2: "g2o_run rnd xs s1 = (es', s2)" by fastforce
  show ?case using g2o_step [OF Cons.prems, of rnd x] Cons.IH [of s1] 1 2 g2o_ok_seq by auto
qed (simp add: g2o_ok_def)

text \<open>
  Whatever a Gemini upstream sends, an OpenAI client accepts the chunks: calls are numbered from 0 in the order
  of the parts, and nothing follows the finish reason.
\<close>

theorem gemini_stream_protocol:
  "accept_chunks \<lparr>known = 0, ended = False\<rparr> (fst (g2o_run rnd xs (NewGeminiToOpenAIState rnd now))) =
     Some (g2o_view (snd (g2o_run rnd xs (NewGeminiToOpenAIState rnd now))))"
  using g2o_steps [of "NewGeminiToOpenAIState rnd now" rnd xs]
  by (simp add: g2o_ok_def g2o_inv_def NewGeminiToOpenAIState_def g2o_view_def)

section \<open>Texts\<close>

lemma g2o_delta [simp]: "delta_of (g2o_doc s d r extra) = (d, r)"
  by (simp add: delta_of_def g2o_doc_def arr_at_def nil_at_def)

lemma o2g_text:
  assumes "\<not> gClosed s" "gFinishReason s = []" "gUsage s = None" "t \<noteq> []"
  shows "o2g_ProcessChunk (text_chunk t) s = ([o2g_chunk [JObj [(''text'', JStr t)]] s], s\<lparr>gTextBuffer := gTextBuffer s @ t\<rparr>)"
  using assms
  by (simp add: o2g_ProcessChunk_def text_chunk_def first_choice_def arr_at_def o2g_note_def nil_at_def str_at_def delta_reasoning_def
      obj_at_def o2g_parts_def o2g_chunk_def Let_def)

lemma o2g_texts:
  assumes "\<not> gClosed s" "gFinishReason s = []" "gUsage s = None" "[] \<notin> set ts"
  shows "o2g_run (map text_chunk ts) s = (map (\<lambda>t. o2g_chunk [JObj [(''text'', JStr t)]] s) ts, s\<lparr>gTextBuffer := gTextBuffer s @ concat ts\<rparr>)"
  using assms
proof (induction ts arbitrary: s)
  case (Cons t ts)
  have "o2g_chunk ps (s\<lparr>gTextBuffer := b\<rparr>) = o2g_chunk ps s" for ps b by (simp add: o2g_chunk_def)
  moreover have "t \<noteq> []" using Cons.prems by auto
  ultimately show ?case using Cons.prems Cons.IH [of "s\<lparr>gTextBuffer := gTextBuffer s @ t\<rparr>"] by (simp add: o2g_text)
qed simp

lemma g2o_text:
  assumes "\<not> oClosed s" "oFinishReason s = []" "gFinishReason g = []" "gUsage g = None" "t \<noteq> []"
  shows "g2o_ProcessChunk rnd (o2g_chunk [JObj [(''text'', JStr t)]] g) s =
    ([g2o_chunkLine (JObj [(''content'', JStr t)]) (s\<lparr>oTextStarted := True\<rparr>)], s\<lparr>oTextStarted := True\<rparr>)"
  using assms
  by (simp add: g2o_ProcessChunk_def o2g_chunk_def arr_at_def g2o_header_def str_at_def obj_at_def g2o_candidate_def nil_at_def items_at_def
      g2o_part_def bool_at_def g2o_finish_def Let_def)

lemma g2o_texts:
  assumes "\<not> oClosed s" "oFinishReason s = []" "gFinishReason g = []" "gUsage g = None" "[] \<notin> set ts" "ts \<noteq> []"
  shows "g2o_run rnd (map (\<lambda>t. o2g_chunk [JObj [(''text'', JStr t)]] g) ts) s =
    (map (\<lambda>t. g2o_chunkLine (JObj [(''content'', JStr t)]) (s\<lparr>oTextStarted := True\<rparr>)) ts, s\<lparr>oTextStarted := True\<rparr>)"
  using assms
proof (induction ts arbitrary: s)
  case (Cons t ts)
  have "t \<noteq> []" using Cons.prems by auto
  then show ?case using Cons.prems Cons.IH [of "s\<lparr>oTextStarted := True\<rparr>"] by (cases "ts = []") (simp_all add: g2o_text)
qed simp

lemma run_append:
  "o2g_run (xs @ ys) g = (case o2g_run xs g of (es, g1) \<Rightarrow> case o2g_run ys g1 of (es', g2) \<Rightarrow> (es @ es', g2))"
  "g2o_run rnd (xs @ ys) s = (case g2o_run rnd xs s of (es, s1) \<Rightarrow> case g2o_run rnd ys s1 of (es', s2) \<Rightarrow> (es @ es', s2))"
  by (induction xs arbitrary: g s) (simp_all add: case_prod_unfold)

text \<open>
  A streamed text that goes to the Gemini form and back arrives piece by piece as it was sent, followed by the
  same finish reason.
\<close>

theorem text_through_gemini:
  assumes "ts \<noteq> []" "[] \<notin> set ts" "reason \<in> set [''stop'', ''length'', ''content_filter'']"
  shows "map delta_of (fst (g2o_run rnd (fst (o2g_run (map text_chunk ts @ [finish_chunk reason]) o2g_new)) (NewGeminiToOpenAIState rnd now))) =
    map (\<lambda>t. (JObj [(''content'', JStr t)], JNull)) ts @ [(JObj [], JStr reason)]"
proof -
  let ?g = "o2g_new\<lparr>gTextBuffer := concat ts\<rparr>"
  let ?s = "(NewGeminiToOpenAIState rnd now)\<lparr>oTextStarted := True\<rparr>"
  have r: "reason \<noteq> []" "reason \<noteq> ''null''" "mapFinishReasonOpenAI (MapFinishReasonGemini reason) = reason" "MapFinishReasonGemini reason \<noteq> []"
    using assms(3) by (auto simp: MapFinishReasonGemini_def mapFinishReasonOpenAI_def)
  have 1: "o2g_run (map text_chunk ts) o2g_new = (map (\<lambda>t. o2g_chunk [JObj [(''text'', JStr t)]] o2g_new) ts, ?g)"
    using assms(2) by (subst o2g_texts) (simp_all add: o2g_new_def)
  have 2: "o2g_run [finish_chunk reason] ?g = ([o2g_chunk [] (?g\<lparr>gFinishReason := reason\<rparr>)], ?g\<lparr>gFinishReason := reason, gClosed := True\<rparr>)"
    using r by (simp add: o2g_ProcessChunk_def finish_chunk_def first_choice_def arr_at_def o2g_note_def nil_at_def str_at_def delta_reasoning_def
        obj_at_def o2g_parts_def o2g_chunk_def Let_def o2g_new_def)
  have 3: "g2o_run rnd (map (\<lambda>t. o2g_chunk [JObj [(''text'', JStr t)]] o2g_new) ts) (NewGeminiToOpenAIState rnd now) =
      (map (\<lambda>t. g2o_chunkLine (JObj [(''content'', JStr t)]) ?s) ts, ?s)"
    using assms(1,2) by (subst g2o_texts) (simp_all add: o2g_new_def NewGeminiToOpenAIState_def)
  have 4: "g2o_run rnd [o2g_chunk [] (?g\<lparr>gFinishReason := reason\<rparr>)] ?s =
      ([g2o_finalChunk (?s\<lparr>oFinishReason := reason\<rparr>)], ?s\<lparr>oFinishReason := reason, oFinishSent := True, oClosed := True\<rparr>)"
    using r by (simp add: g2o_ProcessChunk_def o2g_chunk_def arr_at_def g2o_header_def str_at_def obj_at_def g2o_candidate_def nil_at_def
        items_at_def g2o_finish_def Let_def o2g_new_def NewGeminiToOpenAIState_def)
  show ?thesis by (simp only: run_append 1 2 3 4 split_conv fst_conv) (simp add: g2o_chunkLine_def g2o_finalChunk_def comp_def)
qed

theorem text_through_gemini_witness:
  "map delta_of (fst (g2o_run (\<lambda>_. ''r'') (fst (o2g_run (map text_chunk [''he'', ''y''] @ [finish_chunk ''length'']) o2g_new)) (NewGeminiToOpenAIState (\<lambda>_. ''r'') 0))) =
    map (\<lambda>t. (JObj [(''content'', JStr t)], JNull)) [''he'', ''y''] @ [(JObj [], JStr ''length'')]"
  by (rule text_through_gemini) simp_all

section \<open>What a Gemini client misses\<close>

text \<open>
  A Gemini client never learns of a tool call: a chunk that carries calls only is not passed on, whatever the
  calls and the state.
\<close>

theorem gemini_stream_drops_calls: "o2g_ProcessChunk (calls_chunk tcs) s = (if gClosed s \<or> gFinishReason s = [] then [] else
    [o2g_chunk [] s], if gClosed s then s else s\<lparr>gClosed := (gFinishReason s \<noteq> [])\<rparr>)"
  by (auto simp: o2g_ProcessChunk_def calls_chunk_def first_choice_def arr_at_def o2g_note_def nil_at_def str_at_def delta_reasoning_def
      obj_at_def o2g_parts_def o2g_chunk_def Let_def)

text \<open>
  Nor does it from a complete answer: the candidate is the same with and without the calls.
\<close>

theorem gemini_answer_drops_calls:
  "gemini_candidate (JObj [(''finish_reason'', r), (''message'', JObj [(''content'', c), (''tool_calls'', JArr tcs)])]) =
   gemini_candidate (JObj [(''finish_reason'', r), (''message'', JObj [(''content'', c)])])"
  by (simp add: gemini_candidate_def nil_at_def str_at_def)

text \<open>
  The usage that an upstream sends after the finish reason does not reach a Gemini client.
\<close>

theorem gemini_stream_drops_usage:
  "fst (o2g_run [text_chunk ''hi'', finish_chunk ''stop'', usage_chunk] o2g_new) = fst (o2g_run [text_chunk ''hi'', finish_chunk ''stop''] o2g_new)"
  by code_simp

end
