(* ===== verification/Responses_Request.thy ===== *)
theory Responses_Request
  imports Gemini_Request
begin

text \<open>
  Requests of the Responses API as chat requests and back (internal/translate/responses/request.go), as
  functions on decoded documents with the decoding and encoding around them.
\<close>

section \<open>Shared helpers\<close>

definition clampCallID :: "string \<Rightarrow> string" where
  "clampCallID ident = (if 64 < length ident then take 64 ident else ident)"

text \<open>
  json.Decoder.Decode: the first value of the text, whatever follows it. A number ends before a digit after
  a leading zero.
\<close>

definition leading_zero :: "string \<Rightarrow> bool" where
  "leading_zero s =
     (let t = skip_ws s; u = (if take 1 t = ''-'' then drop 1 t else t)
      in take 1 u = ''0'' \<and> list_all is_digit (take 2 u) \<and> 1 < length u)"

definition decode_first :: "string \<Rightarrow> json option" where
  "decode_first s =
     (case parse_value (Suc (length s)) s of
        Some (v, r) \<Rightarrow> Some v
      | None \<Rightarrow> if leading_zero s then Some (JNum 0) else None)"

definition sanitizeArgs :: "string \<Rightarrow> string" where
  "sanitizeArgs s =
     (if trim_space s = [] then ''{}''
      else if json_parse s \<noteq> None then s
      else case decode_first s of Some v \<Rightarrow> json_print v | None \<Rightarrow> ''{}'')"

definition strOr :: "json \<Rightarrow> string \<Rightarrow> string \<Rightarrow> string" where
  "strOr v k def = (if str_at v k = [] then def else str_at v k)"

definition isNoneEffort :: "string \<Rightarrow> bool" where
  "isNoneEffort s = (to_lower (trim_space s) = ''none'')"

definition isNoneReasoning :: "json \<Rightarrow> bool" where
  "isNoneReasoning v =
     (case v of
        JStr s \<Rightarrow> isNoneEffort s
      | JObj m \<Rightarrow> (case jget v ''effort'' of Some (JStr e) \<Rightarrow> isNoneEffort e | _ \<Rightarrow> False)
      | _ \<Rightarrow> False)"

text \<open>The verb v of fmt on a decoded value; the keys of a map are written in order.\<close>

fun go_show :: "json \<Rightarrow> string" where
  "go_show JNull = ''<nil>''"
| "go_show (JBool b) = (if b then ''true'' else ''false'')"
| "go_show (JNum r) = print_num r"
| "go_show (JStr s) = s"
| "go_show (JArr xs) = ''['' @ join '' '' (map go_show xs) @ '']''"
| "go_show (JObj m) = ''map['' @ join '' '' (map snd (sort_key fst (map (\<lambda>(k, v). (k, k @ '':'' @ go_show v)) m))) @ '']''"

definition user_text :: "string \<Rightarrow> json" where
  "user_text t = JObj [(''type'', JStr ''message''), (''role'', JStr ''user''),
     (''content'', JArr [JObj [(''type'', JStr ''input_text''), (''text'', JStr t)]])]"

definition normalizeInput :: "json \<Rightarrow> json list option" where
  "normalizeInput v =
     (case v of
        JStr s \<Rightarrow> Some [user_text (if trim_space s = [] then ''...'' else trim_space s)]
      | JArr xs \<Rightarrow> Some (if xs = [] then [user_text ''...''] else xs)
      | _ \<Rightarrow> None)"

section \<open>Responses to chat\<close>

text \<open>The non-empty texts of the objects of a list.\<close>

definition part_texts :: "json list \<Rightarrow> string list" where
  "part_texts ps = filter (\<lambda>t. t \<noteq> []) (map (\<lambda>p. str_at p ''text'') ps)"

definition extractReasoning :: "json \<Rightarrow> string" where
  "extractReasoning item =
     (let s = part_texts (items_at item ''summary''); c = part_texts (items_at item ''content'')
      in join [CHR 0x0A] (if s = [] then c else s))"

definition image_of :: "json \<Rightarrow> string" where
  "image_of c = (case jget c ''image_url'' of Some (JStr u) \<Rightarrow> u | _ \<Rightarrow> str_at c ''file_id'')"

definition conv_part :: "json \<Rightarrow> json" where
  "conv_part c =
     (let t = str_at c ''type''
      in if t = ''input_text'' \<or> t = ''output_text'' then JObj [(''type'', JStr ''text''), (''text'', nil_at c ''text'')]
         else if t = ''input_image''
         then JObj [(''type'', JStr ''image_url''),
                (''image_url'', JObj [(''url'', JStr (image_of c)), (''detail'', JStr (strOr c ''detail'' ''auto''))])]
         else c)"

text \<open>The content of a message: a single text part becomes its text, no part at all null.\<close>

definition conv_content :: "json \<Rightarrow> json" where
  "conv_content item =
     (case arr_at item ''content'' of
        None \<Rightarrow> nil_at item ''content''
      | Some ps \<Rightarrow>
          (case map conv_part (filter is_obj ps) of
             [] \<Rightarrow> JNull
           | [p] \<Rightarrow> (if str_at p ''type'' = ''text'' then (case jget p ''text'' of Some (JStr t) \<Rightarrow> JStr t | _ \<Rightarrow> JArr [p]) else JArr [p])
           | qs \<Rightarrow> JArr qs))"

text \<open>The variables of the walk over the input.\<close>

record input_walk =
  wMessages :: "json list"
  wCurrent :: "json option"
  wReasoning :: string
  wEncrypted :: string

definition put_text :: "string \<Rightarrow> string \<Rightarrow> json \<Rightarrow> json" where
  "put_text k s v = (if s = [] then v else jset k (JStr s) v)"

definition with_reasoning :: "input_walk \<Rightarrow> json \<Rightarrow> json" where
  "with_reasoning w m = put_text ''encrypted_content'' (wEncrypted w) (put_text ''reasoning_content'' (wReasoning w) m)"

definition flushAssistant :: "input_walk \<Rightarrow> input_walk" where
  "flushAssistant w =
     (case wCurrent w of
        None \<Rightarrow> w
      | Some a \<Rightarrow> w\<lparr>wMessages := wMessages w @ [with_reasoning w a], wCurrent := None, wReasoning := [], wEncrypted := []\<rparr>)"

definition walk_message :: "json \<Rightarrow> input_walk \<Rightarrow> input_walk" where
  "walk_message item w0 =
     (let w = flushAssistant w0; role = str_at item ''role'';
          msg = JObj [(''role'', JStr role), (''content'', conv_content item)]
      in if role = ''assistant'' \<and> wReasoning w \<noteq> []
         then w\<lparr>wMessages := wMessages w @ [with_reasoning w msg], wReasoning := [], wEncrypted := []\<rparr>
         else if role = ''assistant'' then w\<lparr>wMessages := wMessages w @ [msg]\<rparr>
         else w\<lparr>wMessages := wMessages w @ [msg], wReasoning := [], wEncrypted := []\<rparr>)"

definition item_arguments :: "json \<Rightarrow> string" where
  "item_arguments item =
     (if str_at item ''type'' = ''custom_tool_call''
      then json_print (JObj [(''input'', JStr (case jget item ''input'' of Some (JStr s) \<Rightarrow> s | _ \<Rightarrow> go_show (nil_at item ''input'')))])
      else case jget item ''arguments'' of Some (JStr s) \<Rightarrow> sanitizeArgs s | _ \<Rightarrow> json_print (nil_at item ''arguments''))"

definition chat_call :: "json \<Rightarrow> json" where
  "chat_call item =
     JObj [(''id'', JStr (clampCallID (str_at item ''call_id''))), (''type'', JStr ''function''),
       (''function'', JObj [(''name'', JStr (str_at item ''name'')), (''arguments'', JStr (item_arguments item))])]"

definition new_assistant :: json where
  "new_assistant = JObj [(''role'', JStr ''assistant''), (''content'', JNull), (''tool_calls'', JArr [])]"

definition add_call :: "json \<Rightarrow> json \<Rightarrow> json" where
  "add_call tc a = jset ''tool_calls'' (JArr (items_at a ''tool_calls'' @ [tc])) a"

definition walk_call :: "json \<Rightarrow> input_walk \<Rightarrow> input_walk" where
  "walk_call item w0 =
     (let w = (case wCurrent w0 of
                 None \<Rightarrow> w0\<lparr>wCurrent := Some (with_reasoning w0 new_assistant), wReasoning := [], wEncrypted := []\<rparr>
               | Some a \<Rightarrow> w0)
      in if trim_space (str_at item ''name'') = [] then w
         else w\<lparr>wCurrent := map_option (add_call (chat_call item)) (wCurrent w)\<rparr>)"

definition string_or_json :: "json \<Rightarrow> string" where
  "string_or_json v = (case v of JStr s \<Rightarrow> s | _ \<Rightarrow> json_print v)"

definition result_message :: "json \<Rightarrow> json" where
  "result_message item =
     JObj [(''role'', JStr ''tool''), (''tool_call_id'', JStr (clampCallID (str_at item ''call_id''))),
       (''content'', JStr (string_or_json (nil_at item ''output'')))]"

definition walk_output :: "json \<Rightarrow> input_walk \<Rightarrow> input_walk" where
  "walk_output item w0 = (let w = flushAssistant w0 in w\<lparr>wMessages := wMessages w @ [result_message item]\<rparr>)"

definition walk_reasoning :: "json \<Rightarrow> input_walk \<Rightarrow> input_walk" where
  "walk_reasoning item w =
     (let txt = extractReasoning item; enc = str_at item ''encrypted_content''
      in w\<lparr>wReasoning := (if txt = [] then wReasoning w else if wReasoning w = [] then txt else wReasoning w @ CHR 0x0A # txt),
           wEncrypted := (if enc = [] then wEncrypted w else enc)\<rparr>)"

definition item_type :: "json \<Rightarrow> string" where
  "item_type item =
     (let t = str_at item ''type'' in if t = [] \<and> has_key item ''role'' then ''message'' else t)"

definition walk_item :: "json \<Rightarrow> input_walk \<Rightarrow> input_walk" where
  "walk_item item w =
     (let t = item_type item
      in if \<not> is_obj item then w
         else if t = ''message'' then walk_message item w
         else if t = ''function_call'' \<or> t = ''custom_tool_call'' then walk_call item w
         else if t = ''function_call_output'' \<or> t = ''custom_tool_call_output'' then walk_output item w
         else if t = ''reasoning'' then walk_reasoning item w
         else w)"

definition instruction_messages :: "json \<Rightarrow> json list" where
  "instruction_messages raw =
     (if str_at raw ''instructions'' = [] then []
      else [JObj [(''role'', JStr ''system''), (''content'', JStr (str_at raw ''instructions''))]])"

definition walk_start :: "json list \<Rightarrow> input_walk" where
  "walk_start ms = \<lparr>wMessages = ms, wCurrent = None, wReasoning = [], wEncrypted = []\<rparr>"

definition input_messages :: "json list \<Rightarrow> json list \<Rightarrow> json list" where
  "input_messages ms items = wMessages (flushAssistant (fold walk_item items (walk_start ms)))"

subsection \<open>Tools\<close>

definition no_parameters :: json where
  "no_parameters = JObj [(''type'', JStr ''object''), (''properties'', JObj [])]"

definition tool_parameters :: "json \<Rightarrow> json" where
  "tool_parameters t =
     (let p = nil_at t ''parameters''
      in if p = JNull then no_parameters
         else if jget p ''type'' = Some (JStr ''object'') \<and> nil_at p ''properties'' = JNull
         then jset ''properties'' (JObj []) p else p)"

definition format_hint :: "json \<Rightarrow> string" where
  "format_hint t =
     (case obj_at t ''format'' of
        None \<Rightarrow> []
      | Some fm \<Rightarrow>
          (let s = str_at fm ''syntax''
           in case jget fm ''definition'' of
                Some (JStr d) \<Rightarrow> (if s = [] then d else s @ CHR 0x0A # d)
              | _ \<Rightarrow> s))"

definition custom_description :: "json \<Rightarrow> string" where
  "custom_description t =
     (let d = str_at t ''description''; h = format_hint t
      in if h = [] then d else if d = [] then h else d @ [CHR 0x0A, CHR 0x0A] @ h)"

definition custom_tool :: "json \<Rightarrow> json" where
  "custom_tool t =
     JObj [(''type'', JStr ''function''),
       (''function'', JObj [(''name'', JStr (str_at t ''name'')), (''description'', JStr (custom_description t)),
          (''parameters'', JObj [(''type'', JStr ''object''),
             (''properties'', JObj [(''input'', JObj [(''type'', JStr ''string''), (''description'', JStr ''Raw freeform input for this custom tool'')])]),
             (''required'', JArr [JStr ''input'']), (''additionalProperties'', JBool False)])])]"

definition function_tool :: "json \<Rightarrow> json" where
  "function_tool t =
     JObj [(''type'', JStr ''function''),
       (''function'', JObj [(''name'', JStr (str_at t ''name'')), (''description'', JStr (str_at t ''description'')),
          (''parameters'', tool_parameters t), (''strict'', nil_at t ''strict'')])]"

definition conv_tool :: "json \<Rightarrow> json list" where
  "conv_tool t =
     (if \<not> is_obj t then []
      else if has_key t ''function'' then [t]
      else if trim_space (str_at t ''name'') = [] then []
      else if str_at t ''type'' = ''custom'' then [custom_tool t]
      else [function_tool t])"

subsection \<open>The document\<close>

definition handled_fields :: "string list" where
  "handled_fields = [''input'', ''instructions'', ''prompt_cache_key'', ''store'', ''include'', ''reasoning'', ''client_metadata'']"

definition put_json :: "string \<Rightarrow> json list \<Rightarrow> json \<Rightarrow> json" where
  "put_json k xs v = (if xs = [] then v else jset k (JArr xs) v)"

definition passed_fields :: "json \<Rightarrow> json" where
  "passed_fields raw = (case raw of JObj m \<Rightarrow> JObj (filter (\<lambda>(k, v). k \<notin> set handled_fields) m) | _ \<Rightarrow> JObj [])"

definition chat_limits :: "json \<Rightarrow> json \<Rightarrow> json" where
  "chat_limits raw out =
     (case jget raw ''max_output_tokens'' of
        Some v \<Rightarrow> (if has_key out ''max_tokens'' then out else jset ''max_tokens'' v out)
      | None \<Rightarrow> out)"

definition chat_effort :: "json \<Rightarrow> json \<Rightarrow> json" where
  "chat_effort raw out =
     (let e = (case obj_at raw ''reasoning'' of Some r \<Rightarrow> str_at r ''effort'' | None \<Rightarrow> [])
      in if e = [] \<or> isNoneEffort e then out else jset ''reasoning_effort'' (JStr e) out)"

definition chat_document :: "json \<Rightarrow> json list \<Rightarrow> json" where
  "chat_document raw items =
     (let ms = input_messages (instruction_messages raw) items
      in jset ''messages'' (if ms = [] then JNull else JArr ms)
           (put_json ''tools'' (concat (map conv_tool (items_at raw ''tools'')))
             (chat_effort raw (chat_limits raw (passed_fields raw)))))"

definition ResponsesToOpenAI :: "string \<Rightarrow> string res" where
  "ResponsesToOpenAI body =
     (case unmarshal_map body of
        None \<Rightarrow> Inl ''responses: invalid body''
      | Some raw \<Rightarrow>
          (case jget raw ''input'' of
             None \<Rightarrow> Inr body
           | Some inp \<Rightarrow>
               (case normalizeInput inp of
                  None \<Rightarrow> Inr body
                | Some items \<Rightarrow> Inr (json_print (chat_document raw items)))))"

section \<open>Chat to Responses\<close>

definition first_text :: "string list \<Rightarrow> string" where
  "first_text ss = (case filter (\<lambda>s. s \<noteq> []) ss of [] \<Rightarrow> [] | s # _ \<Rightarrow> s)"

definition nonblank_at :: "json \<Rightarrow> string \<Rightarrow> string" where
  "nonblank_at v k = (if trim_space (str_at v k) = [] then [] else str_at v k)"

definition detail_texts :: "json list \<Rightarrow> string list" where
  "detail_texts ds = filter (\<lambda>t. t \<noteq> []) (map (\<lambda>d. if str_at d ''text'' \<noteq> [] then str_at d ''text'' else str_at d ''content'') ds)"

definition reasoning_encrypted :: "json \<Rightarrow> string" where
  "reasoning_encrypted m =
     first_text [str_at m ''encrypted_content'', str_at m ''reasoning_encrypted_content'',
       case obj_at m ''reasoning'' of Some r \<Rightarrow> str_at r ''encrypted_content'' | None \<Rightarrow> []]"

definition reasoning_summary :: "json \<Rightarrow> string" where
  "reasoning_summary m =
     first_text [nonblank_at m ''reasoning_content'', nonblank_at m ''reasoning'',
       join [CHR 0x0A] (detail_texts (items_at m ''reasoning_details''))]"

definition summary_part :: "string \<Rightarrow> json" where
  "summary_part t = JObj [(''type'', JStr ''summary_text''), (''text'', JStr t)]"

definition buildReasoningInput :: "json \<Rightarrow> json list" where
  "buildReasoningInput m =
     (let e = reasoning_encrypted m; s = reasoning_summary m
      in if e = [] \<and> s = [] then []
         else [JObj ((''type'', JStr ''reasoning'') # (if s = [] then [] else [(''summary'', JArr [summary_part s])]) @
                 (if e = [] then [] else [(''encrypted_content'', JStr e)]))])"

definition typed_text :: "string \<Rightarrow> json \<Rightarrow> json" where
  "typed_text typ t = JObj [(''type'', JStr typ), (''text'', t)]"

definition input_image :: "json \<Rightarrow> json" where
  "input_image p =
     (let (url, detail) = (case jget p ''image_url'' of
            Some (JObj m) \<Rightarrow> (str_at (JObj m) ''url'', str_at (JObj m) ''detail'')
          | Some (JStr u) \<Rightarrow> (u, [])
          | _ \<Rightarrow> ([], []))
      in JObj [(''type'', JStr ''input_image''), (''image_url'', JStr url), (''detail'', JStr (if detail = [] then ''auto'' else detail))])"

definition other_text :: "json \<Rightarrow> string" where
  "other_text p =
     (case jget p ''text'' of
        Some (JStr t) \<Rightarrow> t
      | _ \<Rightarrow> (case jget p ''content'' of Some (JStr c) \<Rightarrow> c | _ \<Rightarrow> json_print p))"

definition input_part :: "string \<Rightarrow> json \<Rightarrow> json" where
  "input_part typ p =
     (let ct = str_at p ''type''
      in if ct = ''text'' then typed_text typ (nil_at p ''text'')
         else if ct = ''image_url'' then input_image p
         else if ct = ''input_image'' then p
         else typed_text typ (JStr (other_text p)))"

definition input_content :: "string \<Rightarrow> json \<Rightarrow> json list" where
  "input_content typ m =
     (case jget m ''content'' of
        Some (JStr s) \<Rightarrow> if s = [] then [] else [typed_text typ (JStr s)]
      | Some (JArr ps) \<Rightarrow> map (input_part typ) (filter is_obj ps)
      | _ \<Rightarrow> [])"

definition message_item :: "json \<Rightarrow> json list" where
  "message_item m =
     (let role = str_at m ''role''; content = input_content (if role = ''assistant'' then ''output_text'' else ''input_text'') m
      in if content = [] then []
         else [JObj [(''type'', JStr ''message''), (''role'', JStr role), (''content'', JArr content)]])"

definition call_item :: "json \<Rightarrow> json" where
  "call_item tc =
     (let fn = nil_at tc ''function''
      in JObj [(''type'', JStr ''function_call''), (''call_id'', JStr (clampCallID (str_at tc ''id''))),
           (''name'', JStr (strOr fn ''name'' ''_unknown'')), (''arguments'', JStr (sanitizeArgs (str_at fn ''arguments'')))])"

definition output_text :: "json \<Rightarrow> string" where
  "output_text m =
     (case nil_at m ''content'' of
        JStr s \<Rightarrow> s
      | JArr ps \<Rightarrow> concat (part_texts ps)
      | v \<Rightarrow> json_print v)"

definition output_item :: "json \<Rightarrow> json" where
  "output_item m =
     JObj [(''type'', JStr ''function_call_output''), (''call_id'', JStr (clampCallID (str_at m ''tool_call_id''))),
       (''output'', JStr (output_text m))]"

definition message_items :: "json \<Rightarrow> json list" where
  "message_items m =
     (let role = str_at m ''role''
      in if role = ''user'' then message_item m
         else if role = ''assistant''
         then buildReasoningInput m @ message_item m @ map call_item (filter is_obj (items_at m ''tool_calls''))
         else if role = ''tool'' then [output_item m]
         else [])"

definition is_system :: "json \<Rightarrow> bool" where
  "is_system m = (str_at m ''role'' = ''system'' \<or> str_at m ''role'' = ''developer'')"

definition instructions_of :: "json list \<Rightarrow> string" where
  "instructions_of ms =
     (case filter is_system ms of
        [] \<Rightarrow> []
      | m # _ \<Rightarrow>
          (case jget m ''content'' of
             Some (JStr c) \<Rightarrow> c
           | Some (JArr ps) \<Rightarrow> join [CHR 0x0A] (part_texts ps)
           | _ \<Rightarrow> []))"

definition response_tool :: "json \<Rightarrow> json list" where
  "response_tool t =
     (if \<not> is_obj t then []
      else if str_at t ''type'' \<noteq> ''function'' then [t]
      else case obj_at t ''function'' of
             None \<Rightarrow> []
           | Some fn \<Rightarrow>
               [JObj [(''type'', JStr ''function''), (''name'', JStr (str_at fn ''name'')), (''description'', JStr (str_at fn ''description'')),
                  (''parameters'', tool_parameters fn), (''strict'', nil_at fn ''strict'')]])"

definition passed_through :: "string list" where
  "passed_through = [''temperature'', ''top_p'', ''service_tier'', ''prompt_cache_key'', ''parallel_tool_calls'', ''truncation'',
     ''tool_choice'', ''response_format'', ''seed'', ''user'', ''store'', ''include'']"

definition copy_field :: "json \<Rightarrow> string \<Rightarrow> json \<Rightarrow> json" where
  "copy_field raw k out = (case jget raw k of Some v \<Rightarrow> jset k v out | None \<Rightarrow> out)"

text \<open>The first of the three limits that is given.\<close>

definition output_limit :: "json \<Rightarrow> string list \<Rightarrow> json \<Rightarrow> json" where
  "output_limit raw ks out =
     (case List.map_filter (jget raw) ks of [] \<Rightarrow> out | v # _ \<Rightarrow> jset ''max_output_tokens'' v out)"

definition response_reasoning :: "json \<Rightarrow> json \<Rightarrow> json" where
  "response_reasoning raw out =
     (case jget raw ''reasoning'' of
        Some v \<Rightarrow> if isNoneReasoning v then out else jset ''reasoning'' v out
      | None \<Rightarrow>
          (let e = str_at raw ''reasoning_effort''
           in if e = [] \<or> isNoneEffort e then out
              else jset ''reasoning'' (JObj [(''effort'', JStr e), (''summary'', JStr ''auto'')]) out))"

definition response_document :: "json \<Rightarrow> json" where
  "response_document raw =
     (let ms = filter is_obj (items_at raw ''messages'');
          out = JObj [(''model'', nil_at raw ''model''), (''stream'', JBool (bool_at raw ''stream'')), (''store'', JBool False),
                  (''instructions'', JStr (instructions_of ms)), (''input'', JArr (concat (map message_items ms)))];
          out = put_json ''tools'' (concat (map response_tool (items_at raw ''tools''))) out;
          out = fold (copy_field raw) passed_through out;
          out = output_limit raw [''max_output_tokens'', ''max_completion_tokens'', ''max_tokens''] out
      in response_reasoning raw out)"

text \<open>A body that has an input already only gets its limits renamed.\<close>

definition shaped_document :: "json \<Rightarrow> json" where
  "shaped_document raw =
     jdel ''max_completion_tokens'' (jdel ''max_tokens''
       (if has_key raw ''max_output_tokens'' then raw else output_limit raw [''max_completion_tokens'', ''max_tokens''] raw))"

definition OpenAIToResponses :: "string \<Rightarrow> string res" where
  "OpenAIToResponses body =
     (case unmarshal_map body of
        None \<Rightarrow> Inl ''responses: invalid body''
      | Some raw \<Rightarrow> Inr (json_print (if has_key raw ''input'' then shaped_document raw else response_document raw)))"

section \<open>Specifications\<close>

definition input_walk_ok :: "input_walk \<Rightarrow> bool" where
  "input_walk_ok w = (list_all wf_json (wMessages w) \<and> list_all wf_json (case wCurrent w of Some a \<Rightarrow> [a] | None \<Rightarrow> []))"

datatype chat_turn =
    Said string
  | Called string string "(string \<times> string \<times> string) list" "(string \<times> string) list"

definition chat_tool_call :: "string \<times> string \<times> string \<Rightarrow> json" where
  "chat_tool_call c =
     (case c of (ident, name, args) \<Rightarrow>
        JObj [(''id'', JStr ident), (''type'', JStr ''function''), (''function'', JObj [(''name'', JStr name), (''arguments'', JStr args)])])"

definition chat_result :: "string \<times> string \<Rightarrow> json" where
  "chat_result r =
     (case r of (ident, out) \<Rightarrow> JObj [(''role'', JStr ''tool''), (''tool_call_id'', JStr ident), (''content'', JStr out)])"

definition calling_message :: "string \<Rightarrow> string \<Rightarrow> json list \<Rightarrow> json" where
  "calling_message r e calls =
     JObj ([(''role'', JStr ''assistant''), (''content'', JNull), (''tool_calls'', JArr calls)] @
       (if r = [] then [] else [(''reasoning_content'', JStr r)]) @ (if e = [] then [] else [(''encrypted_content'', JStr e)]))"

fun chat_of :: "chat_turn \<Rightarrow> json list" where
  "chat_of (Said t) = [JObj [(''role'', JStr ''user''), (''content'', JStr t)]]"
| "chat_of (Called r e calls results) = calling_message r e (map chat_tool_call calls) # map chat_result results"

definition clean_call :: "string \<times> string \<times> string \<Rightarrow> bool" where
  "clean_call c =
     (case c of (ident, name, args) \<Rightarrow> length ident \<le> 64 \<and> trim_space name \<noteq> [] \<and> trim_space args \<noteq> [] \<and> json_parse args \<noteq> None)"

fun clean_turn :: "chat_turn \<Rightarrow> bool" where
  "clean_turn (Said t) = (t \<noteq> [])"
| "clean_turn (Called r e calls results) =
     ((r = [] \<or> trim_space r \<noteq> []) \<and> calls \<noteq> [] \<and> list_all clean_call calls \<and>
      results \<noteq> [] \<and> list_all (\<lambda>(ident, out). length ident \<le> 64) results)"

definition sample_turns :: "chat_turn list" where
  "sample_turns = [Said ''hi'', Called ''think'' ''xyz'' [(''c1'', ''ls'', ''{}''), (''c2'', ''pwd'', ''{}'')] [(''c1'', ''a''), (''c2'', ''b'')]]"

definition broken_call :: json where
  "broken_call = JObj [(''type'', JStr ''function_call''), (''arguments'', JStr ''{'')]"

definition reasoning_item :: "string \<Rightarrow> string \<Rightarrow> json" where
  "reasoning_item r e = JObj [(''type'', JStr ''reasoning''), (''summary'', JArr [summary_part r]), (''encrypted_content'', JStr e)]"

definition said_item :: "string \<Rightarrow> json" where
  "said_item t = JObj [(''type'', JStr ''message''), (''role'', JStr ''assistant''), (''content'', JStr t)]"

definition ls_item :: json where
  "ls_item = JObj [(''type'', JStr ''function_call''), (''call_id'', JStr ''c''), (''name'', JStr ''ls''), (''arguments'', JStr ''{}'')]"

section \<open>Well-formed documents\<close>

lemma wf_put_text: "wf_json v \<Longrightarrow> wf_json (put_text k s v)"
  by (auto simp: put_text_def)

lemma wf_with_reasoning: "wf_json m \<Longrightarrow> wf_json (with_reasoning w m)"
  by (simp add: with_reasoning_def wf_put_text)

lemma wf_add_call: "wf_json a \<Longrightarrow> wf_json tc \<Longrightarrow> wf_json (add_call tc a)"
  by (auto simp: add_call_def intro!: wf_json_jset dest: wf_items_at)

lemma wf_chat_call: "wf_json (chat_call item)"
  by (simp add: chat_call_def wf_map_def)

lemma wf_conv_part: "wf_json p \<Longrightarrow> wf_json (conv_part p)"
  by (simp add: conv_part_def Let_def wf_map_def wf_nil_at)

lemma wf_conv_content:
  assumes "wf_json item"
  shows "wf_json (conv_content item)"
proof (cases "arr_at item ''content''")
  case (Some ps)
  define qs where "qs = map conv_part (filter is_obj ps)"
  have "list_all wf_json qs"
    using wf_json_arr_at [OF assms Some] by (auto simp: list_all_iff wf_conv_part qs_def)
  then show ?thesis
    by (auto simp: conv_content_def Some list_all_iff qs_def [symmetric] split: option.split json.split list.split)
qed (simp add: conv_content_def wf_nil_at assms)

lemma flush_ok: "input_walk_ok w \<Longrightarrow> input_walk_ok (flushAssistant w)"
  by (auto simp: input_walk_ok_def flushAssistant_def wf_with_reasoning split: option.splits)

lemma walk_item_ok:
  assumes "wf_json item" "input_walk_ok w"
  shows "input_walk_ok (walk_item item w)"
proof -
  have "wf_json (JObj [(''role'', JStr (str_at item ''role'')), (''content'', conv_content item)])"
    using wf_conv_content [OF assms(1)] by (simp add: wf_map_def)
  then have "input_walk_ok (walk_message item w)"
    using flush_ok [OF assms(2)] by (auto simp: input_walk_ok_def walk_message_def Let_def wf_with_reasoning)
  moreover have "wf_json new_assistant" by (simp add: new_assistant_def wf_map_def)
  then have "input_walk_ok (walk_call item w)" using assms(2)
    by (auto simp: input_walk_ok_def walk_call_def Let_def wf_with_reasoning wf_add_call wf_chat_call split: option.splits)
  moreover have "wf_json (result_message item)" by (simp add: result_message_def wf_map_def)
  then have "input_walk_ok (walk_output item w)" using flush_ok [OF assms(2)] by (auto simp: input_walk_ok_def walk_output_def Let_def)
  moreover have "input_walk_ok (walk_reasoning item w)" using assms(2) by (simp add: input_walk_ok_def walk_reasoning_def Let_def)
  ultimately show ?thesis using assms(2) by (simp add: walk_item_def Let_def)
qed

lemma walk_items_ok: "list_all wf_json items \<Longrightarrow> input_walk_ok w \<Longrightarrow> input_walk_ok (fold walk_item items w)"
  by (induction items arbitrary: w) (simp_all add: walk_item_ok)

lemma wf_input_messages:
  assumes "list_all wf_json items"
  shows "list_all wf_json (input_messages (instruction_messages raw) items)"
proof -
  have "input_walk_ok (walk_start (instruction_messages raw))"
    by (simp add: input_walk_ok_def walk_start_def instruction_messages_def wf_map_def)
  then show ?thesis using flush_ok [OF walk_items_ok [OF assms]] by (simp add: input_messages_def input_walk_ok_def)
qed

lemma wf_tool_parameters: "wf_json t \<Longrightarrow> wf_json (tool_parameters t)"
  by (auto simp: tool_parameters_def no_parameters_def Let_def wf_nil_at wf_map_def intro!: wf_json_jset)

lemma wf_conv_tool: "wf_json t \<Longrightarrow> list_all wf_json (conv_tool t)"
  using wf_tool_parameters [of t] wf_nil_at [of t "''strict''"]
  by (simp add: conv_tool_def custom_tool_def function_tool_def wf_map_def)

lemma wf_passed: "wf_json raw \<Longrightarrow> wf_json (passed_fields raw)"
  by (cases raw) (auto simp: passed_fields_def wf_map_def distinct_map_filter)

lemma wf_chat_document:
  assumes "wf_json raw" "list_all wf_json items"
  shows "wf_json (chat_document raw items)"
proof -
  have "wf_json (chat_effort raw (chat_limits raw (passed_fields raw)))"
    using wf_passed [OF assms(1)] assms(1)
    by (auto simp: chat_effort_def chat_limits_def Let_def split: option.split dest: wf_json_jget intro!: wf_json_jset)
  moreover have "list_all wf_json (concat (map conv_tool (items_at raw ''tools'')))"
    using wf_items_at [OF assms(1)] wf_conv_tool by (auto simp: list_all_iff)
  ultimately show ?thesis using wf_input_messages [OF assms(2)]
    by (auto simp: chat_document_def put_json_def Let_def list_all_iff intro!: wf_json_jset)
qed

lemma is_obj_chat_document: "is_obj (chat_document raw items)"
proof -
  have "is_obj (passed_fields raw)" by (cases raw) (simp_all add: passed_fields_def)
  then show ?thesis
    by (simp add: chat_document_def put_json_def chat_effort_def chat_limits_def Let_def split: option.split)
qed

lemma wf_normalized:
  assumes "wf_json v" "normalizeInput v = Some items"
  shows "list_all wf_json items"
  using assms by (cases v) (auto simp: normalizeInput_def user_text_def wf_map_def list_all_iff split: if_splits)

lemma responses_decodes:
  assumes "unmarshal_map body = Some raw"
  obtains d where "unmarshal_map (case ResponsesToOpenAI body of Inr out \<Rightarrow> out | Inl e \<Rightarrow> []) = Some d"
    "\<exists>out. ResponsesToOpenAI body = Inr out"
proof -
  note wf = unmarshal_map_wf [OF assms]
  show ?thesis
  proof (cases "\<exists>items. (case jget raw ''input'' of None \<Rightarrow> None | Some inp \<Rightarrow> normalizeInput inp) = Some items")
    case True
    then obtain inp items where i: "jget raw ''input'' = Some inp" "normalizeInput inp = Some items" by (auto split: option.splits)
    have "wf_json (chat_document raw items)" using wf_chat_document [OF wf wf_normalized [OF wf_json_jget [OF wf i(1)] i(2)]] .
    then show ?thesis using that i assms is_obj_chat_document [of raw items]
      by (cases "chat_document raw items") (auto simp: ResponsesToOpenAI_def unmarshal_map_print)
  next
    case False
    then show ?thesis using that assms by (auto simp: ResponsesToOpenAI_def split: option.splits)
  qed
qed

text \<open>
  C22:
  Every Responses request whose body decodes is translated, also one without a usable input, and the request
  that leaves the pipeline towards an OpenAI upstream has every tool call answered and every tool-call id within
  the accepted characters.
\<close>

theorem responses_request_ready:
  assumes "responses_ToOpenAI tr = ResponsesToOpenAI" "unmarshal_map body = Some raw"
  shows "\<exists>out d. Request tr body FormatOpenAIResponses FormatOpenAI = Inr out \<and> unmarshal_map out = Some d \<and>
    history_answered d \<and> request_ids_valid d"
proof -
  obtain b d where b: "ResponsesToOpenAI body = Inr b" "unmarshal_map b = Some d"
    using responses_decodes [OF assms(2)] by (metis old.sum.simps(6))
  obtain out where "preprocess b = Inr out" "ready.holds_on out"
    using preprocess_ready [OF b(2)] .
  then show ?thesis
    by (auto simp: Request_def sourceToOpenAI_def openAIToTarget_def assms(1) b(1) ready.holds_on_def tools_ready_def)
qed

theorem responses_request_ready_witness:
  "\<exists>out d. Request (plain_translators\<lparr>responses_ToOpenAI := ResponsesToOpenAI\<rparr>) tools_body FormatOpenAIResponses FormatOpenAI = Inr out \<and>
    unmarshal_map out = Some d \<and> history_answered d \<and> request_ids_valid d"
  by (rule responses_request_ready [OF _ tools_body_decodes]) simp

section \<open>Histories there and back\<close>

lemma filter_objs: "list_all is_obj xs \<Longrightarrow> filter is_obj xs = xs"
  by (simp add: list_all_iff)

lemma call_there_back:
  assumes "clean_call c"
  shows "chat_call (call_item (chat_tool_call c)) = chat_tool_call c"
    and "item_type (call_item (chat_tool_call c)) = ''function_call''"
    and "trim_space (str_at (call_item (chat_tool_call c)) ''name'') \<noteq> []"
  using assms by (cases c; auto simp: clean_call_def chat_tool_call_def chat_call_def call_item_def item_arguments_def
      nil_at_def str_at_def strOr_def sanitizeArgs_def clampCallID_def item_type_def Let_def)+

lemma is_obj_call: "is_obj (call_item tc)"
  by (simp add: call_item_def Let_def)

lemma more_calls:
  assumes "list_all clean_call cs" "wCurrent w = Some (calling_message r e calls)"
  shows "fold walk_item (map (call_item \<circ> chat_tool_call) cs) w =
    w\<lparr>wCurrent := Some (calling_message r e (calls @ map chat_tool_call cs))\<rparr>"
  using assms
proof (induction cs arbitrary: w calls)
  case (Cons c cs)
  have "walk_item (call_item (chat_tool_call c)) w = w\<lparr>wCurrent := Some (calling_message r e (calls @ [chat_tool_call c]))\<rparr>"
    using Cons.prems call_there_back [of c]
    by (simp add: walk_item_def is_obj_call walk_call_def Let_def add_call_def calling_message_def items_at_def arr_at_def)
  then show ?case using Cons.prems Cons.IH [of "walk_item (call_item (chat_tool_call c)) w" "calls @ [chat_tool_call c]"] by simp
qed simp

lemma first_call:
  assumes "clean_call c" "wCurrent w = None"
  shows "walk_item (call_item (chat_tool_call c)) w =
    w\<lparr>wCurrent := Some (calling_message (wReasoning w) (wEncrypted w) [chat_tool_call c]), wReasoning := [], wEncrypted := []\<rparr>"
  using assms call_there_back [OF assms(1)]
  by (simp add: walk_item_def is_obj_call walk_call_def Let_def add_call_def calling_message_def items_at_def arr_at_def
      with_reasoning_def put_text_def new_assistant_def)

lemma more_results:
  assumes "list_all (\<lambda>(ident, out). length ident \<le> 64) rs" "wCurrent w = None"
  shows "fold walk_item (map (output_item \<circ> chat_result) rs) w = w\<lparr>wMessages := wMessages w @ map chat_result rs\<rparr>"
  using assms
proof (induction rs arbitrary: w)
  case (Cons x rs)
  have "walk_item (output_item (chat_result x)) w = w\<lparr>wMessages := wMessages w @ [chat_result x]\<rparr>"
    using Cons.prems by (cases x) (simp add: walk_item_def output_item_def chat_result_def item_type_def str_at_def nil_at_def
        walk_output_def flushAssistant_def result_message_def clampCallID_def string_or_json_def output_text_def Let_def)
  then show ?case using Cons by simp
qed simp

lemma turn_items:
  "concat (map message_items (chat_of (Called r e cs rs))) =
     buildReasoningInput (calling_message r e (map chat_tool_call cs)) @ map (call_item \<circ> chat_tool_call) cs @
     map (output_item \<circ> chat_result) rs"
proof -
  have "message_items (chat_result x) = [output_item (chat_result x)]" for x
    by (cases x) (simp add: message_items_def chat_result_def str_at_def Let_def)
  then have "concat (map message_items (map chat_result rs)) = map (output_item \<circ> chat_result) rs"
    by (induction rs) simp_all
  moreover have "filter is_obj (map chat_tool_call cs) = map chat_tool_call cs"
    by (rule filter_objs) (auto simp: list_all_iff chat_tool_call_def)
  then have "message_items (calling_message r e (map chat_tool_call cs)) =
     buildReasoningInput (calling_message r e (map chat_tool_call cs)) @ map (call_item \<circ> chat_tool_call) cs"
    by (simp add: message_items_def calling_message_def str_at_def message_item_def input_content_def items_at_def arr_at_def Let_def)
  ultimately show ?thesis by simp
qed

lemma reasoning_there_back:
  assumes "r = [] \<or> trim_space r \<noteq> []" "wReasoning w = []" "wEncrypted w = []"
  shows "fold walk_item (buildReasoningInput (calling_message r e calls)) w = w\<lparr>wReasoning := r, wEncrypted := e\<rparr>"
proof -
  have "buildReasoningInput (calling_message r e calls) = (if e = [] \<and> r = [] then []
      else [JObj ((''type'', JStr ''reasoning'') # (if r = [] then [] else [(''summary'', JArr [summary_part r])]) @
                 (if e = [] then [] else [(''encrypted_content'', JStr e)]))])"
    using assms(1) by (cases "r = []"; cases "e = []") (simp_all add: buildReasoningInput_def reasoning_encrypted_def
        reasoning_summary_def calling_message_def nonblank_at_def str_at_def obj_at_def first_text_def items_at_def arr_at_def
        detail_texts_def Let_def)
  then show ?thesis using assms(2,3)
    by (cases "r = []"; cases "e = []"; cases w) (simp_all add: walk_item_def item_type_def walk_reasoning_def str_at_def
        items_at_def arr_at_def extractReasoning_def part_texts_def summary_part_def Let_def)
qed

lemma nothing_pending:
  "wReasoning w = [] \<Longrightarrow> wEncrypted w = [] \<Longrightarrow> w\<lparr>wCurrent := c, wReasoning := [], wEncrypted := []\<rparr> = w\<lparr>wCurrent := c\<rparr>"
  by (cases w) simp

lemma walk_turn:
  assumes "clean_turn t" "wCurrent w = None" "wReasoning w = []" "wEncrypted w = []"
  shows "fold walk_item (concat (map message_items (chat_of t))) w = w\<lparr>wMessages := wMessages w @ chat_of t\<rparr>"
proof (cases t)
  case (Said s)
  then show ?thesis using assms
    by (simp add: message_items_def str_at_def message_item_def input_content_def walk_item_def item_type_def walk_message_def
        flushAssistant_def conv_content_def conv_part_def typed_text_def arr_at_def nil_at_def Let_def)
next
  case (Called r e cs rs)
  obtain c ds where c: "cs = c # ds" using assms(1) Called by (cases cs) auto
  obtain x ys where x: "rs = x # ys" using assms(1) Called by (cases rs) auto
  let ?a = "calling_message r e (map chat_tool_call cs)"
  have "fold walk_item (map (call_item \<circ> chat_tool_call) cs) (w\<lparr>wReasoning := r, wEncrypted := e\<rparr>) =
      w\<lparr>wCurrent := Some ?a\<rparr>"
    using assms Called more_calls [of ds "w\<lparr>wCurrent := Some (calling_message r e [chat_tool_call c])\<rparr>" r e "[chat_tool_call c]"]
      first_call [of c "w\<lparr>wReasoning := r, wEncrypted := e\<rparr>"] by (simp add: c nothing_pending)
  moreover have "walk_item (output_item (chat_result x)) (w\<lparr>wCurrent := Some ?a\<rparr>) =
      w\<lparr>wMessages := wMessages w @ [?a, chat_result x]\<rparr>"
    using assms Called x by (cases x) (auto simp: walk_item_def output_item_def chat_result_def item_type_def str_at_def nil_at_def
        walk_output_def flushAssistant_def result_message_def clampCallID_def string_or_json_def output_text_def with_reasoning_def put_text_def Let_def)
  ultimately show ?thesis
    using assms Called more_results [of ys "w\<lparr>wMessages := wMessages w @ [?a, chat_result x]\<rparr>"] reasoning_there_back [of r w e]
    unfolding Called turn_items by (simp add: x)
qed

lemma walk_turns:
  assumes "list_all clean_turn ts" "wCurrent w = None" "wReasoning w = []" "wEncrypted w = []"
  shows "fold walk_item (concat (map message_items (concat (map chat_of ts)))) w =
    w\<lparr>wMessages := wMessages w @ concat (map chat_of ts)\<rparr>"
  using assms
proof (induction ts arbitrary: w)
  case (Cons t ts)
  then show ?case using walk_turn [of t w] by simp
qed simp



section \<open>Arguments\<close>

lemma decode_first_wf: "decode_first s = Some v \<Longrightarrow> wf_json v"
  using parse_wf(1) [of "Suc (length s)" s] is_decimal_int [of 0]
  by (auto simp: decode_first_def simp del: parse_value.simps split: option.splits if_splits)

lemma empty_object_parses: "json_parse ''{}'' = Some (JObj [])"
  by code_simp

lemma sanitized_parses: "json_parse (sanitizeArgs s) \<noteq> None"
  using decode_first_wf by (auto simp: sanitizeArgs_def empty_object_parses json_parse_print simp del: parse_value.simps split: option.split)

text \<open>
  The arguments of every tool call that a Responses request is translated to are a JSON text, whatever the input
  item holds: broken text, a value of another type, free-form input of a custom tool or nothing at all.
\<close>

theorem item_arguments_are_json:
  assumes "wf_json item"
  shows "json_parse (item_arguments item) \<noteq> None"
proof (cases "str_at item ''type'' = ''custom_tool_call''")
  case True
  then show ?thesis by (simp add: item_arguments_def json_parse_print wf_map_def)
next
  case False
  then show ?thesis using sanitized_parses wf_nil_at [OF assms]
    by (auto simp: item_arguments_def json_parse_print split: option.split json.split)
qed

theorem item_arguments_are_json_witness: "json_parse (item_arguments broken_call) \<noteq> None"
  by (rule item_arguments_are_json) (simp add: broken_call_def wf_map_def)

section \<open>What gets lost\<close>

text \<open>
  Reasoning that comes in its encrypted form only is not attached to the assistant message that follows it; it
  stays pending and ends up on the next tool calls instead.
\<close>

theorem encrypted_reasoning_moves:
  "map (\<lambda>m. str_at m ''encrypted_content'') (input_messages [] [reasoning_item [] ''xyz'', said_item ''hi'', ls_item]) = [[], ''xyz'']"
  by code_simp

text \<open>
  Reasoning between two parallel calls replaces the reasoning before them: the message that collects the calls
  keeps only the last one.
\<close>

theorem interleaved_reasoning_lost:
  "map (\<lambda>m. str_at m ''reasoning_content'') (input_messages [] [reasoning_item ''first'' [], ls_item, reasoning_item ''second'' [], ls_item]) =
   [''second'']"
  by code_simp

text \<open>A call without a name leaves an assistant message with an empty list of calls.\<close>

theorem nameless_call_leaves_message:
  "map (\<lambda>m. arr_at m ''tool_calls'') (input_messages [] [jdel ''name'' ls_item]) = [Some []]"
  by code_simp

text \<open>Only the first system message becomes the instructions; no other one is an input item.\<close>

theorem later_system_messages_lost:
  assumes "is_system m"
  shows "instructions_of (m # ms) = instructions_of [m]" and "message_items m = []"
  using assms by (auto simp: instructions_of_def message_items_def is_system_def Let_def)

end
