(* ===== verification/Responses_Response.thy ===== *)
theory Responses_Response
  imports Responses_Request Claude_Response
begin

text \<open>
  Complete answers between the Responses API and chat (internal/translate/responses/response.go), as functions
  on decoded documents with the decoding and encoding around them.
\<close>

section \<open>Responses to chat\<close>

definition joinStrings :: "string list \<Rightarrow> string" where
  "joinStrings parts = join [CHR 0x0A] parts"

definition completion_of :: "string \<Rightarrow> string" where
  "completion_of s = (if 5 < length s \<and> take 5 s = ''resp_'' then ''chatcmpl-'' @ drop 5 s else s)"

definition answer_id :: "json \<Rightarrow> json" where
  "answer_id raw = (case jget raw ''id'' of Some (JStr s) \<Rightarrow> JStr (completion_of s) | _ \<Rightarrow> nil_at raw ''id'')"

definition r_texts :: "json \<Rightarrow> string list" where
  "r_texts item =
     (if str_at item ''type'' = ''message''
      then part_texts (filter (\<lambda>c. str_at c ''type'' = ''output_text'') (items_at item ''content'')) else [])"

definition r_call :: "string \<Rightarrow> string \<Rightarrow> string \<Rightarrow> json" where
  "r_call ident name args =
     JObj [(''id'', JStr ident), (''type'', JStr ''function''), (''function'', JObj [(''name'', JStr name), (''arguments'', JStr args)])]"

definition r_calls :: "json \<Rightarrow> json list" where
  "r_calls item =
     (let t = str_at item ''type''
      in if t = ''function_call'' then [r_call (str_at item ''call_id'') (str_at item ''name'') (strOr item ''arguments'' ''{}'')]
         else if t = ''custom_tool_call''
         then [r_call (str_at item ''call_id'') (str_at item ''name'') (json_print (JObj [(''input'', JStr (str_at item ''input''))]))]
         else [])"

definition r_reasoning :: "json \<Rightarrow> string list" where
  "r_reasoning item = (if str_at item ''type'' = ''reasoning'' then part_texts (items_at item ''summary'') else [])"

definition chat_message :: "json list \<Rightarrow> json" where
  "chat_message items =
     (let texts = concat (map r_texts items); calls = concat (map r_calls items); reasoning = join [CHR 0x0A] (concat (map r_reasoning items))
      in JObj ([(''role'', JStr ''assistant''),
           (''content'', if texts \<noteq> [] then JStr (joinStrings texts) else if calls = [] then JStr [] else JNull)] @
           unless_empty ''tool_calls'' calls @ (if reasoning = [] then [] else [(''reasoning'', JStr reasoning)])))"

definition count_or :: "json \<Rightarrow> string \<Rightarrow> string \<Rightarrow> int" where
  "count_or u k alt = (if int_at u k = 0 then int_at u alt else int_at u k)"

definition chat_usage :: "json \<Rightarrow> (string \<times> json) list" where
  "chat_usage raw =
     (case obj_at raw ''usage'' of
        None \<Rightarrow> []
      | Some u \<Rightarrow>
          (let i = count_or u ''input_tokens'' ''prompt_tokens''; j = count_or u ''output_tokens'' ''completion_tokens''
           in [(''usage'', JObj [(''prompt_tokens'', JNum (of_int i)), (''completion_tokens'', JNum (of_int j)),
                 (''total_tokens'', JNum (of_int (i + j)))])]))"

definition given_first :: "json \<Rightarrow> string list \<Rightarrow> string \<Rightarrow> (string \<times> json) list" where
  "given_first raw ks dst = (case List.map_filter (jget raw) ks of [] \<Rightarrow> [] | v # _ \<Rightarrow> [(dst, v)])"

definition chat_answer :: "json \<Rightarrow> json" where
  "chat_answer raw =
     (let items = filter is_obj (items_at raw ''output''); msg = chat_message items
      in JObj ([(''id'', answer_id raw), (''object'', JStr ''chat.completion'')] @
           given_first raw [''created_at'', ''created''] ''created'' @ taken any_value raw ''model'' ''model'' @
           [(''choices'', JArr [JObj [(''index'', JNum 0), (''message'', msg),
              (''finish_reason'', JStr (if concat (map r_calls items) = [] then ''stop'' else ''tool_calls''))]])] @
           chat_usage raw))"

definition responses_JSONToOpenAI :: "string \<Rightarrow> string res" where
  "responses_JSONToOpenAI body =
     (case unmarshal_map body of
        None \<Rightarrow> Inl ''responses: invalid json''
      | Some raw \<Rightarrow>
          if has_key raw ''choices'' \<or> (jget raw ''object'' \<noteq> Some (JStr ''response'') \<and> nil_at raw ''output'' = JNull)
          then Inr body
          else Inr (json_print (chat_answer raw)))"

section \<open>Chat to Responses\<close>

definition response_of :: "json \<Rightarrow> string" where
  "response_of raw =
     (case jget raw ''id'' of
        Some (JStr s) \<Rightarrow> ''resp_'' @ (if 9 < length s \<and> take 9 s = ''chatcmpl-'' then drop 9 s else s)
      | _ \<Rightarrow> ''resp_0'')"

definition reasoning_output :: "json \<Rightarrow> json list" where
  "reasoning_output msg =
     (let text = first_text [str_at msg ''reasoning'', str_at msg ''reasoning_content'']; e = str_at msg ''encrypted_content''
      in if text = [] \<and> e = [] then []
         else [JObj ([(''type'', JStr ''reasoning''), (''id'', JStr ''rs_0''), (''summary'', JArr (if text = [] then [] else [summary_part text]))] @
                 (if e = [] then [] else [(''encrypted_content'', JStr e)]))])"

definition message_text :: "json \<Rightarrow> string" where
  "message_text msg = (case nil_at msg ''content'' of JNull \<Rightarrow> [] | v \<Rightarrow> string_or_json v)"

definition message_output :: "json \<Rightarrow> json list" where
  "message_output msg =
     (if message_text msg = [] then []
      else [JObj [(''type'', JStr ''message''), (''id'', JStr ''msg_0''), (''role'', JStr ''assistant''),
              (''content'', JArr [typed_text ''output_text'' (JStr (message_text msg))])]])"

definition call_output :: "json \<Rightarrow> json" where
  "call_output tc =
     (let ident = str_at tc ''id''; fn = nil_at tc ''function''
      in JObj [(''type'', JStr ''function_call''), (''id'', JStr (''fc_'' @ ident)), (''call_id'', JStr ident),
           (''name'', JStr (str_at fn ''name'')), (''arguments'', JStr (str_at fn ''arguments''))])"

definition output_items :: "json \<Rightarrow> json list" where
  "output_items msg =
     reasoning_output msg @ message_output msg @ map call_output (filter is_obj (items_at msg ''tool_calls''))"

definition choice_message :: "json \<Rightarrow> json" where
  "choice_message ch =
     (case obj_at ch ''message'' of
        Some m \<Rightarrow> m
      | None \<Rightarrow> (case obj_at ch ''delta'' of Some d \<Rightarrow> d | None \<Rightarrow> JNull))"

definition response_usage :: "json \<Rightarrow> (string \<times> json) list" where
  "response_usage raw =
     (case obj_at raw ''usage'' of
        None \<Rightarrow> []
      | Some u \<Rightarrow> [(''usage'', JObj [(''input_tokens'', JNum (of_int (int_at u ''prompt_tokens''))),
                     (''output_tokens'', JNum (of_int (int_at u ''completion_tokens'')))])])"

definition response_answer :: "json \<Rightarrow> json \<Rightarrow> json" where
  "response_answer raw ch =
     (let items = output_items (choice_message ch)
      in JObj ([(''id'', JStr (response_of raw)), (''object'', JStr ''response''), (''status'', JStr ''completed''),
           (''output'', if items = [] then JNull else JArr items)] @
           taken any_value raw ''created'' ''created_at'' @ taken any_value raw ''model'' ''model'' @ response_usage raw))"

definition JSONToResponses :: "string \<Rightarrow> string res" where
  "JSONToResponses body =
     (case unmarshal_map body of
        None \<Rightarrow> Inl ''responses: invalid json''
      | Some raw \<Rightarrow>
          if jget raw ''object'' = Some (JStr ''response'') \<or> \<not> has_key raw ''choices'' then Inr body
          else case items_at raw ''choices'' of
                 [] \<Rightarrow> Inr body
               | ch # _ \<Rightarrow> Inr (json_print (response_answer raw ch)))"

section \<open>Specifications\<close>

definition spoken :: "string \<Rightarrow> string \<Rightarrow> (string \<times> string \<times> string) list \<Rightarrow> json" where
  "spoken t r calls =
     JObj ([(''role'', JStr ''assistant''), (''content'', if t \<noteq> [] then JStr t else if calls = [] then JStr [] else JNull)] @
       unless_empty ''tool_calls'' (map chat_tool_call calls) @ (if r = [] then [] else [(''reasoning'', JStr r)]))"

definition has_arguments :: "string \<times> string \<times> string \<Rightarrow> bool" where
  "has_arguments c = (snd (snd c) \<noteq> [])"

definition sample_answer_calls :: "(string \<times> string \<times> string) list" where
  "sample_answer_calls = [(''a'', ''ls'', ''{}''), (''b'', ''pwd'', ''{}'')]"

section \<open>Answers there and back\<close>

lemma spoken_fields:
  "str_at (spoken t r calls) ''reasoning'' = r" "str_at (spoken t r calls) ''reasoning_content'' = []"
  "str_at (spoken t r calls) ''encrypted_content'' = []" "items_at (spoken t r calls) ''tool_calls'' = map chat_tool_call calls"
  "message_text (spoken t r calls) = t"
  by (simp_all add: spoken_def str_at_def items_at_def arr_at_def unless_empty_def message_text_def string_or_json_def nil_at_def)

lemma call_output_back:
  assumes "has_arguments c"
  shows "r_calls (call_output (chat_tool_call c)) = [chat_tool_call c]" "r_texts (call_output (chat_tool_call c)) = []"
    "r_reasoning (call_output (chat_tool_call c)) = []"
  using assms by (cases c; simp add: has_arguments_def r_calls_def r_texts_def r_reasoning_def call_output_def chat_tool_call_def
      str_at_def nil_at_def r_call_def strOr_def Let_def)+

lemma calls_output_back:
  assumes "list_all has_arguments cs"
  shows "concat (map r_calls (map (call_output \<circ> chat_tool_call) cs)) = map chat_tool_call cs"
    "concat (map r_texts (map (call_output \<circ> chat_tool_call) cs)) = []"
    "concat (map r_reasoning (map (call_output \<circ> chat_tool_call) cs)) = []"
  using assms by (induction cs) (simp_all add: call_output_back)

lemma message_output_back:
  "concat (map r_texts (message_output (spoken t r cs))) = (if t = [] then [] else [t])"
  "concat (map r_calls (message_output (spoken t r cs))) = []"
  "concat (map r_reasoning (message_output (spoken t r cs))) = []"
proof -
  have "message_output (spoken t r cs) = (if t = [] then []
    else [JObj [(''type'', JStr ''message''), (''id'', JStr ''msg_0''), (''role'', JStr ''assistant''),
            (''content'', JArr [typed_text ''output_text'' (JStr t)])]])"
    by (simp add: message_output_def spoken_fields)
  then show "concat (map r_texts (message_output (spoken t r cs))) = (if t = [] then [] else [t])"
    "concat (map r_calls (message_output (spoken t r cs))) = []" "concat (map r_reasoning (message_output (spoken t r cs))) = []"
    by (simp_all add: r_texts_def r_calls_def r_reasoning_def str_at_def items_at_def arr_at_def typed_text_def part_texts_def Let_def)
qed

lemma reasoning_output_back:
  "concat (map r_reasoning (reasoning_output (spoken t r cs))) = (if r = [] then [] else [r])"
  "concat (map r_calls (reasoning_output (spoken t r cs))) = []"
  "concat (map r_texts (reasoning_output (spoken t r cs))) = []"
proof -
  have "reasoning_output (spoken t r cs) = (if r = [] then []
    else [JObj [(''type'', JStr ''reasoning''), (''id'', JStr ''rs_0''), (''summary'', JArr [summary_part r])]])"
    by (simp add: reasoning_output_def spoken_fields first_text_def Let_def)
  then show "concat (map r_reasoning (reasoning_output (spoken t r cs))) = (if r = [] then [] else [r])"
    "concat (map r_calls (reasoning_output (spoken t r cs))) = []" "concat (map r_texts (reasoning_output (spoken t r cs))) = []"
    by (simp_all add: r_texts_def r_calls_def r_reasoning_def str_at_def items_at_def arr_at_def summary_part_def part_texts_def Let_def)
qed

text \<open>
  A chat answer that is turned into a Responses answer and back is the same message: its text, its reasoning and
  its tool calls in their order.
\<close>

theorem answer_through_responses:
  assumes "list_all has_arguments calls"
  shows "chat_message (output_items (spoken t r calls)) = spoken t r calls"
proof -
  have o: "output_items (spoken t r calls) =
      reasoning_output (spoken t r calls) @ message_output (spoken t r calls) @ map (call_output \<circ> chat_tool_call) calls"
    by (simp add: output_items_def spoken_fields filter_objs list_all_iff chat_tool_call_def case_prod_unfold)
  have "concat (map r_texts (output_items (spoken t r calls))) = (if t = [] then [] else [t])"
    "concat (map r_calls (output_items (spoken t r calls))) = map chat_tool_call calls"
    "concat (map r_reasoning (output_items (spoken t r calls))) = (if r = [] then [] else [r])"
    unfolding o map_append concat_append message_output_back reasoning_output_back calls_output_back [OF assms] by simp_all
  then show ?thesis by (simp add: chat_message_def Let_def spoken_def joinStrings_def)
qed

theorem answer_through_responses_witness:
  "chat_message (output_items (spoken ''hi'' ''why'' sample_answer_calls)) = spoken ''hi'' ''why'' sample_answer_calls"
  by (rule answer_through_responses) (simp add: sample_answer_calls_def has_arguments_def)

text \<open>An answer without text, reasoning and calls has null instead of an empty list as its output.\<close>

theorem silent_answer_null_output:
  "jget (response_answer raw (JObj [(''message'', JObj [(''content'', JStr [])])])) ''output'' = Some JNull"
  by (simp add: response_answer_def choice_message_def obj_at_def output_items_def reasoning_output_def message_output_def
      message_text_def string_or_json_def nil_at_def items_at_def arr_at_def str_at_def first_text_def Let_def)

text \<open>A content that is a list of parts becomes the text of its encoding.\<close>

theorem content_parts_become_json:
  assumes "jget msg ''content'' = Some (JArr ps)" "wf_json (JArr ps)"
  shows "message_output msg =
    [JObj [(''type'', JStr ''message''), (''id'', JStr ''msg_0''), (''role'', JStr ''assistant''),
       (''content'', JArr [typed_text ''output_text'' (JStr (json_print (JArr ps)))])]]"
  using assms json_print_not_Nil [OF assms(2)] by (simp add: message_output_def message_text_def nil_at_def string_or_json_def)

text \<open>Parts of text that a Responses answer has side by side get a line break between them.\<close>

theorem text_parts_get_line_break:
  "str_at (chat_message [JObj [(''type'', JStr ''message''),
     (''content'', JArr [typed_text ''output_text'' (JStr ''ab''), typed_text ''output_text'' (JStr ''cd'')])]]) ''content'' =
   ''ab'' @ CHR 0x0A # ''cd''"
  by code_simp

end
