(* ===== verification/Responses_Stream.thy ===== *)
theory Responses_Stream
  imports Sse Gemini_Response Responses_Response
begin

text \<open>
  Streams between the Responses API and chat (internal/translate/responses/stream.go): a chat stream for a
  Responses client, a Responses stream for a chat client. Events are pairs of a name and a document, chunks are
  documents; a handler maps the state to what it emits and the next state. Go visits the entries of a map in an
  order of its choice: \<open>ord\<close> gives, for every point of the stream and every size of the map, the
  positions in the order of the visit.
\<close>

section \<open>A chat stream for a Responses client\<close>

record o2r_state =
  rsSeq :: nat
  rsID :: string
  rsCreated :: int
  rsStarted :: bool
  rsCompleted :: bool
  msgTextBuf :: "(string, string) gomap"
  msgItemAdded :: "string list"
  msgContentAdded :: "string list"
  msgItemDone :: "string list"
  reasoningID :: string
  reasoningIdx :: int
  reasoningBuf :: string
  reasoningEncrypted :: string
  reasoningDone :: bool
  rsThinking :: bool
  funcArgsBuf :: "(int, string) gomap"
  funcNames :: "(int, string) gomap"
  funcCallIDs :: "(int, string) gomap"
  funcItemAdded :: "int list"
  funcItemDone :: "int list"

type_synonym o2r_handler = "o2r_state \<Rightarrow> sse list \<times> o2r_state"

definition o2r_new :: o2r_state where
  "o2r_new =
     \<lparr>rsSeq = 0, rsID = [], rsCreated = 0, rsStarted = False, rsCompleted = False, msgTextBuf = [], msgItemAdded = [],
      msgContentAdded = [], msgItemDone = [], reasoningID = [], reasoningIdx = 0, reasoningBuf = [], reasoningEncrypted = [],
      reasoningDone = False, rsThinking = False, funcArgsBuf = [], funcNames = [], funcCallIDs = [], funcItemAdded = [],
      funcItemDone = []\<rparr>"

definition o2r_seq :: "o2r_handler \<Rightarrow> o2r_handler \<Rightarrow> o2r_handler" where
  "o2r_seq f g s = (case f s of (es, s1) \<Rightarrow> case g s1 of (es', s2) \<Rightarrow> (es @ es', s2))"

definition o2r_if :: "(o2r_state \<Rightarrow> bool) \<Rightarrow> o2r_handler \<Rightarrow> o2r_handler" where
  "o2r_if P f s = (if P s then f s else ([], s))"

definition o2r_set :: "(o2r_state \<Rightarrow> o2r_state) \<Rightarrow> o2r_handler" where
  "o2r_set f s = ([], f s)"

fun o2r_each :: "('a \<Rightarrow> o2r_handler) \<Rightarrow> 'a list \<Rightarrow> o2r_handler" where
  "o2r_each f [] s = ([], s)"
| "o2r_each f (x # xs) s = o2r_seq (f x) (o2r_each f xs) s"

type_synonym visit_order = "nat \<Rightarrow> nat \<Rightarrow> nat list"

definition visited :: "visit_order \<Rightarrow> nat \<Rightarrow> 'a list \<Rightarrow> 'a list" where
  "visited ord k xs = map (\<lambda>i. xs ! i) (ord k (length xs))"

text \<open>An event with its type and the next sequence number; the further fields may depend on the state.\<close>

definition o2r_event :: "string \<Rightarrow> (o2r_state \<Rightarrow> (string \<times> json) list) \<Rightarrow> o2r_handler" where
  "o2r_event name extra s =
     ([(name, JObj ([(''type'', JStr name), (''sequence_number'', JNum (of_nat (Suc (rsSeq s))))] @ extra s))],
      s\<lparr>rsSeq := Suc (rsSeq s)\<rparr>)"

definition response_field :: "string \<Rightarrow> o2r_state \<Rightarrow> (string \<times> json) list" where
  "response_field status s =
     [(''response'', JObj [(''id'', JStr (rsID s)), (''object'', JStr ''response''), (''created_at'', JNum (of_int (rsCreated s))),
        (''status'', JStr status)])]"

definition index_field :: "int \<Rightarrow> string \<times> json" where
  "index_field i = (''output_index'', JNum (of_int i))"

subsection \<open>Reasoning\<close>

definition startReasoning :: "int \<Rightarrow> o2r_handler" where
  "startReasoning i =
     o2r_if (\<lambda>s. reasoningID s = [])
       (o2r_seq (o2r_set (\<lambda>s. s\<lparr>reasoningID := ''rs_'' @ rsID s @ ''_'' @ show_int i, reasoningIdx := i\<rparr>))
       (o2r_seq (o2r_event ''response.output_item.added''
          (\<lambda>s. [index_field i, (''item'', JObj [(''id'', JStr (reasoningID s)), (''type'', JStr ''reasoning''), (''summary'', JArr [])])]))
        (o2r_event ''response.reasoning_summary_part.added''
          (\<lambda>s. [(''item_id'', JStr (reasoningID s)), index_field i, (''summary_index'', JNum 0), (''part'', summary_part [])]))))"

definition emitReasoningDelta :: "string \<Rightarrow> o2r_handler" where
  "emitReasoningDelta t =
     o2r_if (\<lambda>s. t \<noteq> [])
       (o2r_seq (o2r_set (\<lambda>s. s\<lparr>reasoningBuf := reasoningBuf s @ t\<rparr>))
         (o2r_event ''response.reasoning_summary_text.delta''
           (\<lambda>s. [(''item_id'', JStr (reasoningID s)), index_field (reasoningIdx s), (''summary_index'', JNum 0), (''delta'', JStr t)])))"

definition reasoning_done_item :: "o2r_state \<Rightarrow> json" where
  "reasoning_done_item s =
     JObj ([(''id'', JStr (reasoningID s)), (''type'', JStr ''reasoning''), (''summary'', JArr [summary_part (reasoningBuf s)])] @
       (if reasoningEncrypted s = [] then [] else [(''encrypted_content'', JStr (reasoningEncrypted s))]))"

definition closeReasoning :: o2r_handler where
  "closeReasoning =
     o2r_if (\<lambda>s. reasoningID s \<noteq> [] \<and> \<not> reasoningDone s)
       (o2r_seq (o2r_set (\<lambda>s. s\<lparr>reasoningDone := True\<rparr>))
       (o2r_seq (o2r_event ''response.reasoning_summary_text.done''
          (\<lambda>s. [(''item_id'', JStr (reasoningID s)), index_field (reasoningIdx s), (''summary_index'', JNum 0), (''text'', JStr (reasoningBuf s))]))
       (o2r_seq (o2r_event ''response.reasoning_summary_part.done''
          (\<lambda>s. [(''item_id'', JStr (reasoningID s)), index_field (reasoningIdx s), (''summary_index'', JNum 0), (''part'', summary_part (reasoningBuf s))]))
        (o2r_event ''response.output_item.done''
          (\<lambda>s. [index_field (reasoningIdx s), (''item'', reasoning_done_item s)])))))"

subsection \<open>Text\<close>

definition msg_id :: "string \<Rightarrow> o2r_state \<Rightarrow> string" where
  "msg_id k s = ''msg_'' @ rsID s @ ''_'' @ k"

definition msg_part :: "string \<Rightarrow> json" where
  "msg_part t = typed_text ''output_text'' (JStr t)"

definition buffered :: "'a \<Rightarrow> ('a, string) gomap \<Rightarrow> string" where
  "buffered k m = (case map_of m k of Some t \<Rightarrow> t | None \<Rightarrow> [])"

definition emitTextContent :: "int \<Rightarrow> string \<Rightarrow> o2r_handler" where
  "emitTextContent i t =
     (let k = show_int i
      in o2r_seq (o2r_if (\<lambda>s. k \<notin> set (msgItemAdded s))
           (o2r_seq (o2r_set (\<lambda>s. s\<lparr>msgItemAdded := msgItemAdded s @ [k]\<rparr>))
             (o2r_event ''response.output_item.added''
               (\<lambda>s. [index_field i, (''item'', JObj [(''id'', JStr (msg_id k s)), (''type'', JStr ''message''), (''role'', JStr ''assistant''),
                  (''content'', JArr [])])]))))
        (o2r_seq (o2r_if (\<lambda>s. k \<notin> set (msgContentAdded s))
           (o2r_seq (o2r_set (\<lambda>s. s\<lparr>msgContentAdded := msgContentAdded s @ [k]\<rparr>))
             (o2r_event ''response.content_part.added''
               (\<lambda>s. [(''item_id'', JStr (msg_id k s)), index_field i, (''content_index'', JNum 0), (''part'', msg_part [])]))))
        (o2r_seq (o2r_event ''response.output_text.delta''
            (\<lambda>s. [(''item_id'', JStr (msg_id k s)), index_field i, (''content_index'', JNum 0), (''delta'', JStr t)]))
          (o2r_set (\<lambda>s. s\<lparr>msgTextBuf := mput k (buffered k (msgTextBuf s) @ t) (msgTextBuf s)\<rparr>)))))"

text \<open>The number that a key was written from (fmt.Sscanf).\<close>

definition parseIdx :: "string \<Rightarrow> int" where
  "parseIdx k =
     (if take 1 k = ''-'' then - int (nat_of_digits (takeWhile is_digit (drop 1 k))) else int (nat_of_digits (takeWhile is_digit k)))"

definition closeMessage :: "string \<Rightarrow> o2r_handler" where
  "closeMessage k =
     o2r_if (\<lambda>s. k \<in> set (msgItemAdded s) \<and> k \<notin> set (msgItemDone s))
       (o2r_seq (o2r_set (\<lambda>s. s\<lparr>msgItemDone := msgItemDone s @ [k]\<rparr>))
       (o2r_seq (o2r_event ''response.output_text.done''
          (\<lambda>s. [(''item_id'', JStr (msg_id k s)), index_field (parseIdx k), (''content_index'', JNum 0), (''text'', JStr (buffered k (msgTextBuf s)))]))
       (o2r_seq (o2r_event ''response.content_part.done''
          (\<lambda>s. [(''item_id'', JStr (msg_id k s)), index_field (parseIdx k), (''content_index'', JNum 0), (''part'', msg_part (buffered k (msgTextBuf s)))]))
        (o2r_event ''response.output_item.done''
          (\<lambda>s. [index_field (parseIdx k), (''item'', JObj [(''id'', JStr (msg_id k s)), (''type'', JStr ''message''), (''role'', JStr ''assistant''),
             (''content'', JArr [msg_part (buffered k (msgTextBuf s))])])])))))"

subsection \<open>Tool calls\<close>

definition call_name_id :: "json \<Rightarrow> int \<Rightarrow> o2r_state \<Rightarrow> o2r_state" where
  "call_name_id tc i s =
     (let name = str_at (nil_at tc ''function'') ''name'';
          s1 = (if name = [] then s else s\<lparr>funcNames := mput i name (funcNames s)\<rparr>)
      in if str_at tc ''id'' = [] then s1 else s1\<lparr>funcCallIDs := mput i (str_at tc ''id'') (funcCallIDs s1)\<rparr>)"

definition call_announced :: "int \<Rightarrow> o2r_handler" where
  "call_announced i =
     o2r_seq (o2r_set (\<lambda>s. s\<lparr>funcItemAdded := funcItemAdded s @ [i]\<rparr>))
       (o2r_event ''response.output_item.added''
         (\<lambda>s. [index_field i, (''item'', JObj [(''id'', JStr (''fc_'' @ buffered i (funcCallIDs s))), (''type'', JStr ''function_call''),
            (''call_id'', JStr (buffered i (funcCallIDs s))), (''name'', JStr (buffered i (funcNames s))), (''arguments'', JStr [])])]))"

definition call_more :: "int \<Rightarrow> string \<Rightarrow> o2r_handler" where
  "call_more i args =
     o2r_if (\<lambda>s. args \<noteq> [])
       (o2r_seq (o2r_set (\<lambda>s. s\<lparr>funcArgsBuf := mput i (buffered i (funcArgsBuf s) @ args) (funcArgsBuf s)\<rparr>))
         (o2r_if (\<lambda>s. i \<in> set (funcItemAdded s))
           (o2r_event ''response.function_call_arguments.delta''
             (\<lambda>s. [(''item_id'', JStr (''fc_'' @ buffered i (funcCallIDs s))), index_field i, (''delta'', JStr args)]))))"

definition emitToolCall :: "json \<Rightarrow> o2r_handler" where
  "emitToolCall tc s =
     (let i = int_at tc ''index''; s1 = call_name_id tc i s
      in if i \<notin> set (funcItemAdded s1) \<and> buffered i (funcCallIDs s1) \<noteq> [] \<and> buffered i (funcNames s1) \<noteq> []
         then call_announced i s1
         else call_more i (str_at (nil_at tc ''function'') ''arguments'') s1)"

definition final_args :: "int \<Rightarrow> o2r_state \<Rightarrow> string" where
  "final_args i s = (if buffered i (funcArgsBuf s) = [] then ''{}'' else buffered i (funcArgsBuf s))"

definition closeToolCall :: "int \<Rightarrow> o2r_handler" where
  "closeToolCall i =
     o2r_if (\<lambda>s. buffered i (funcCallIDs s) \<noteq> [] \<and> i \<notin> set (funcItemDone s))
       (o2r_seq (o2r_set (\<lambda>s. s\<lparr>funcItemDone := funcItemDone s @ [i]\<rparr>))
       (o2r_seq (o2r_event ''response.function_call_arguments.done''
          (\<lambda>s. [(''item_id'', JStr (''fc_'' @ buffered i (funcCallIDs s))), index_field i, (''arguments'', JStr (final_args i s))]))
        (o2r_event ''response.output_item.done''
          (\<lambda>s. [index_field i, (''item'', JObj [(''id'', JStr (''fc_'' @ buffered i (funcCallIDs s))), (''type'', JStr ''function_call''),
             (''call_id'', JStr (buffered i (funcCallIDs s))), (''name'', JStr (buffered i (funcNames s))), (''arguments'', JStr (final_args i s))])]))))"

subsection \<open>Chunks\<close>

definition sendCompleted :: o2r_handler where
  "sendCompleted =
     o2r_if (\<lambda>s. \<not> rsCompleted s)
       (o2r_seq (o2r_set (\<lambda>s. s\<lparr>rsCompleted := True\<rparr>)) (o2r_event ''response.completed'' (response_field ''completed'')))"

definition start_ids :: "json \<Rightarrow> o2r_state \<Rightarrow> o2r_state" where
  "start_ids chunk s =
     (let s1 = s\<lparr>rsStarted := True\<rparr>;
          s2 = (if str_at chunk ''id'' = [] then s1 else s1\<lparr>rsID := ''resp_'' @ str_at chunk ''id''\<rparr>);
          s3 = (if rsID s2 = [] then s2\<lparr>rsID := ''resp_'' @ show_int (rsCreated s2)\<rparr> else s2)
      in if rsCreated s3 = 0 then s3\<lparr>rsCreated := int_at chunk ''created''\<rparr> else s3)"

definition begin_response :: "json \<Rightarrow> o2r_handler" where
  "begin_response chunk =
     o2r_if (\<lambda>s. \<not> rsStarted s)
       (o2r_seq (o2r_set (start_ids chunk))
       (o2r_seq (o2r_event ''response.created'' (response_field ''in_progress''))
        (o2r_event ''response.in_progress'' (response_field ''in_progress''))))"

definition delta_thought :: "json \<Rightarrow> string" where
  "delta_thought d = first_text [str_at d ''reasoning'', str_at d ''reasoning_content'']"

definition o2r_reasoning :: "int \<Rightarrow> json \<Rightarrow> o2r_handler" where
  "o2r_reasoning i d =
     o2r_seq (o2r_if (\<lambda>s. delta_thought d \<noteq> []) (o2r_seq (startReasoning i) (emitReasoningDelta (delta_thought d))))
       (o2r_if (\<lambda>s. str_at d ''encrypted_content'' \<noteq> [])
         (o2r_seq (startReasoning i) (o2r_set (\<lambda>s. s\<lparr>reasoningEncrypted := reasoningEncrypted s @ str_at d ''encrypted_content''\<rparr>))))"

fun drop_all :: "string \<Rightarrow> string \<Rightarrow> string" where
  "drop_all pat [] = []"
| "drop_all pat (c # cs) =
     (if pat \<noteq> [] \<and> has_prefix (c # cs) pat then drop_all pat (drop (length pat - 1) cs) else c # drop_all pat cs)"

text \<open>Text up to the end of a thinking mark; what comes after it is left over.\<close>

definition end_thinking :: "string \<Rightarrow> o2r_handler" where
  "end_thinking before =
     o2r_seq (emitReasoningDelta before) (o2r_seq closeReasoning (o2r_set (\<lambda>s. s\<lparr>rsThinking := False\<rparr>)))"

definition after_marks :: "string \<Rightarrow> string" where
  "after_marks c = (case cut_at ''</think>'' c of Some (a, b) \<Rightarrow> b | None \<Rightarrow> c)"

definition o2r_content :: "int \<Rightarrow> string \<Rightarrow> o2r_handler" where
  "o2r_content i content =
     (let c = drop_all ''<think>'' content
      in o2r_if (\<lambda>s. content \<noteq> [])
        (o2r_seq (o2r_if (\<lambda>s. contains content ''<think>'') (o2r_seq (o2r_set (\<lambda>s. s\<lparr>rsThinking := True\<rparr>)) (startReasoning i)))
        (o2r_seq (case cut_at ''</think>'' c of Some (a, b) \<Rightarrow> end_thinking a | None \<Rightarrow> o2r_set id)
          (\<lambda>s. if rsThinking s \<and> after_marks c \<noteq> [] then emitReasoningDelta (after_marks c) s
               else if after_marks c \<noteq> [] then emitTextContent i (after_marks c) s else ([], s)))))"

definition close_messages :: "visit_order \<Rightarrow> o2r_handler" where
  "close_messages ord s = o2r_each closeMessage (visited ord (rsSeq s) (msgItemAdded s)) s"

definition close_calls :: "visit_order \<Rightarrow> o2r_handler" where
  "close_calls ord s = o2r_each closeToolCall (visited ord (rsSeq s) (map fst (funcCallIDs s))) s"

definition o2r_calls :: "visit_order \<Rightarrow> json \<Rightarrow> o2r_handler" where
  "o2r_calls ord d =
     o2r_if (\<lambda>s. items_at d ''tool_calls'' \<noteq> [])
       (o2r_seq (close_messages ord) (o2r_each emitToolCall (filter is_obj (items_at d ''tool_calls''))))"

definition o2r_finish :: "visit_order \<Rightarrow> string \<Rightarrow> o2r_handler" where
  "o2r_finish ord reason =
     o2r_if (\<lambda>s. reason \<noteq> [] \<and> reason \<noteq> ''null'')
       (o2r_seq (close_messages ord) (o2r_seq closeReasoning (o2r_seq (close_calls ord) sendCompleted)))"

definition OpenAIChunkToResponses :: "visit_order \<Rightarrow> json \<Rightarrow> o2r_handler" where
  "OpenAIChunkToResponses ord chunk s =
     (case first_choice chunk of
        None \<Rightarrow> ([], s)
      | Some choice \<Rightarrow>
          let d = nil_at choice ''delta''; i = int_at choice ''index''
          in o2r_seq (begin_response chunk)
               (o2r_seq (o2r_reasoning i d)
               (o2r_seq (o2r_content i (str_at d ''content''))
               (o2r_seq (o2r_calls ord d)
                 (o2r_finish ord (str_at choice ''finish_reason''))))) s)"

fun o2r_run :: "visit_order \<Rightarrow> json list \<Rightarrow> o2r_handler" where
  "o2r_run ord [] s = ([], s)"
| "o2r_run ord (x # xs) s = o2r_seq (OpenAIChunkToResponses ord x) (o2r_run ord xs) s"

section \<open>A Responses stream for a chat client\<close>

record r2o_state =
  roStarted :: bool
  roCreated :: int
  roChatID :: string
  roModel :: string
  roToolIndex :: nat
  roCurrentCall :: string
  roFinishSent :: bool
  idxByOutput :: "(int, nat) gomap"
  idxByItem :: "(string, nat) gomap"
  idxByCall :: "(string, nat) gomap"

type_synonym r2o_handler = "r2o_state \<Rightarrow> json list \<times> r2o_state"

definition r2o_new :: r2o_state where
  "r2o_new = \<lparr>roStarted = False, roCreated = 0, roChatID = [], roModel = [], roToolIndex = 0, roCurrentCall = [], roFinishSent = False,
     idxByOutput = [], idxByItem = [], idxByCall = []\<rparr>"

definition SetModel :: "string \<Rightarrow> r2o_state \<Rightarrow> r2o_state" where
  "SetModel m s = (if m = [] then s else s\<lparr>roModel := m\<rparr>)"

definition openAIModel :: "r2o_state \<Rightarrow> string" where
  "openAIModel s = (if roModel s = [] then ''muse-spark'' else roModel s)"

definition r2o_doc :: "r2o_state \<Rightarrow> json \<Rightarrow> string \<Rightarrow> (string \<times> json) list \<Rightarrow> json" where
  "r2o_doc s delta reason extra =
     JObj ([(''id'', JStr (roChatID s)), (''object'', JStr ''chat.completion.chunk''), (''created'', JNum (of_int (roCreated s))),
        (''model'', JStr (openAIModel s)),
        (''choices'', JArr [JObj ([(''index'', JNum 0), (''delta'', delta)] @ (if reason = [] then [] else [(''finish_reason'', JStr reason)]))])] @ extra)"

definition formatOpenAIChunk :: "json \<Rightarrow> string \<Rightarrow> r2o_state \<Rightarrow> json" where
  "formatOpenAIChunk delta reason s = r2o_doc s delta reason []"

definition responseOutputIndex :: "json \<Rightarrow> int option" where
  "responseOutputIndex d = map_option trunc_num (num_at d ''output_index'')"

text \<open>Entries under the keys that an event has.\<close>

definition put_key :: "string \<Rightarrow> nat \<Rightarrow> (string, nat) gomap \<Rightarrow> (string, nat) gomap" where
  "put_key k i m = (if k = [] then m else mput k i m)"

definition put_output :: "int option \<Rightarrow> nat \<Rightarrow> (int, nat) gomap \<Rightarrow> (int, nat) gomap" where
  "put_output out i m = (case out of Some k \<Rightarrow> mput k i m | None \<Rightarrow> m)"

definition by_key :: "string \<Rightarrow> (string, nat) gomap \<Rightarrow> nat option" where
  "by_key k m = (if k = [] then None else map_of m k)"

definition respToolIndex :: "int option \<Rightarrow> string \<Rightarrow> string \<Rightarrow> r2o_state \<Rightarrow> nat \<times> r2o_state" where
  "respToolIndex out item call s =
     (case by_key item (idxByItem s) of
        Some i \<Rightarrow> (i, s)
      | None \<Rightarrow>
          (case Option.bind out (map_of (idxByOutput s)) of
             Some i \<Rightarrow> (i, s\<lparr>idxByItem := put_key item i (idxByItem s), idxByCall := put_key call i (idxByCall s)\<rparr>)
           | None \<Rightarrow>
               (case by_key call (idxByCall s) of
                  Some i \<Rightarrow> (i, s\<lparr>idxByItem := put_key item i (idxByItem s), idxByOutput := put_output out i (idxByOutput s)\<rparr>)
                | None \<Rightarrow>
                    let i = roToolIndex s
                    in (i, s\<lparr>roToolIndex := Suc i, idxByItem := put_key item i (idxByItem s),
                             idxByOutput := put_output out i (idxByOutput s), idxByCall := put_key call i (idxByCall s)\<rparr>))))"

definition is_call_item :: "json \<Rightarrow> bool" where
  "is_call_item item = (str_at item ''type'' = ''function_call'' \<or> str_at item ''type'' = ''custom_tool_call'')"

definition call_head :: "nat \<Rightarrow> string \<Rightarrow> string \<Rightarrow> json" where
  "call_head i ident name =
     JObj [(''tool_calls'', JArr [JObj [(''index'', JNum (of_nat i)), (''id'', JStr ident), (''type'', JStr ''function''),
        (''function'', JObj [(''name'', JStr name), (''arguments'', JStr [])])]])]"

definition call_piece :: "nat \<Rightarrow> string \<Rightarrow> json" where
  "call_piece i args =
     JObj [(''tool_calls'', JArr [JObj [(''index'', JNum (of_nat i)), (''function'', JObj [(''arguments'', JStr args)])]])]"

definition r2o_delta :: "string \<Rightarrow> json \<Rightarrow> r2o_handler" where
  "r2o_delta field data s =
     (let t = str_at data ''delta'' in if t = [] then ([], s) else ([formatOpenAIChunk (JObj [(field, JStr t)]) [] s], s))"

definition r2o_item_added :: "json \<Rightarrow> r2o_handler" where
  "r2o_item_added data s =
     (let item = nil_at data ''item''
      in if \<not> is_call_item item then ([], s)
         else case respToolIndex (responseOutputIndex data) (str_at item ''id'') (str_at item ''call_id'') s of (i, s1) \<Rightarrow>
           let ident = (if str_at item ''call_id'' = [] then ''call_'' @ show_nat i else str_at item ''call_id'')
           in ([formatOpenAIChunk (call_head i ident (str_at item ''name'')) [] s1], s1\<lparr>roCurrentCall := ident\<rparr>))"

definition r2o_call_delta :: "json \<Rightarrow> r2o_handler" where
  "r2o_call_delta data s =
     (if str_at data ''delta'' = [] then ([], s)
      else case respToolIndex (responseOutputIndex data) (str_at data ''item_id'') [] s of (i, s1) \<Rightarrow>
        ([formatOpenAIChunk (call_piece i (str_at data ''delta'')) [] s1], s1))"

definition r2o_call_done :: "json \<Rightarrow> r2o_handler" where
  "r2o_call_done data s = ([], snd (respToolIndex (responseOutputIndex data) (str_at data ''item_id'') [] s))"

definition r2o_item_done :: "json \<Rightarrow> r2o_handler" where
  "r2o_item_done data s =
     (let item = nil_at data ''item''
      in ([], if is_call_item item
              then snd (respToolIndex (responseOutputIndex data) (str_at item ''id'') (str_at item ''call_id'') s) else s))"

definition given_count :: "json \<Rightarrow> string \<Rightarrow> string \<Rightarrow> int" where
  "given_count u k alt = (if num_at u k = None then int_at u alt else int_at u k)"

definition r2o_usage :: "json \<Rightarrow> (string \<times> json) list" where
  "r2o_usage data =
     (case (case obj_at data ''response'' of Some r \<Rightarrow> obj_at r ''usage'' | None \<Rightarrow> obj_at data ''usage'') of
        None \<Rightarrow> []
      | Some u \<Rightarrow>
          let p = given_count u ''input_tokens'' ''prompt_tokens''; c = given_count u ''output_tokens'' ''completion_tokens''
          in if p = 0 \<and> c = 0 then []
             else [(''usage'', JObj [(''prompt_tokens'', JNum (of_int p)), (''completion_tokens'', JNum (of_int c)),
                      (''total_tokens'', JNum (of_int (p + c)))])])"

definition r2o_completed :: "json \<Rightarrow> r2o_handler" where
  "r2o_completed data s =
     (if roFinishSent s then ([], s)
      else ([r2o_doc s (JObj []) (if 0 < roToolIndex s then ''tool_calls'' else ''stop'') (r2o_usage data)], s\<lparr>roFinishSent := True\<rparr>))"

definition r2o_failed :: "json \<Rightarrow> r2o_handler" where
  "r2o_failed data s =
     (if roFinishSent s then ([], s)
      else let msg = strOr (nil_at data ''error'') ''message'' ''upstream error''
           in ([formatOpenAIChunk (JObj [(''content'', JStr (''[Error] '' @ msg))]) ''stop'' s], s\<lparr>roFinishSent := True\<rparr>))"

definition r2o_begin :: "r2o_state \<Rightarrow> r2o_state" where
  "r2o_begin s =
     (if roStarted s then s
      else s\<lparr>roStarted := True, roChatID := ''chatcmpl-'' @ show_int (roCreated s),
             roCreated := (if roCreated s = 0 then 1 else roCreated s)\<rparr>)"

definition ResponsesEventToOpenAI :: "sse \<Rightarrow> r2o_handler" where
  "ResponsesEventToOpenAI ev s0 =
     (let name = fst ev; data = snd ev; s = r2o_begin s0
      in if name = ''response.output_text.delta'' then r2o_delta ''content'' data s
         else if name = ''response.reasoning_summary_text.delta'' then r2o_delta ''reasoning'' data s
         else if name = ''response.output_item.added'' then r2o_item_added data s
         else if name = ''response.function_call_arguments.delta'' \<or> name = ''response.custom_tool_call_input.delta'' then r2o_call_delta data s
         else if name = ''response.function_call_arguments.done'' \<or> name = ''response.custom_tool_call_input.done'' then r2o_call_done data s
         else if name = ''response.output_item.done'' then r2o_item_done data s
         else if name = ''response.completed'' \<or> name = ''response.done'' then r2o_completed data s
         else if name = ''response.failed'' \<or> name = ''error'' then r2o_failed data s
         else ([], s))"

fun r2o_run :: "sse list \<Rightarrow> r2o_handler" where
  "r2o_run [] s = ([], s)"
| "r2o_run (x # xs) s = (case ResponsesEventToOpenAI x s of (es, s1) \<Rightarrow> case r2o_run xs s1 of (es', s2) \<Rightarrow> (es @ es', s2))"

section \<open>Specifications\<close>

definition number_of :: "sse \<Rightarrow> json" where
  "number_of ev = nil_at (snd ev) ''sequence_number''"

definition numbers_kept :: "o2r_handler \<Rightarrow> bool" where
  "numbers_kept f = (\<forall>s es s'. f s = (es, s') \<longrightarrow> rsSeq s' = rsSeq s + length es \<and>
     map number_of es = map (\<lambda>n. JNum (of_nat n)) [Suc (rsSeq s)..<Suc (rsSeq s')])"

definition go_order :: "visit_order \<Rightarrow> bool" where
  "go_order ord = (\<forall>k n. mset (ord k n) = mset [0..<n])"

definition plain_text :: "string \<Rightarrow> bool" where
  "plain_text t = (t \<noteq> [] \<and> \<not> contains t ''<think>'' \<and> \<not> contains t ''</think>'')"

definition finishing :: "string \<Rightarrow> bool" where
  "finishing r = (r \<noteq> [] \<and> r \<noteq> ''null'')"

text \<open>The state of a stream that has sent a text, and the one before its completion.\<close>

definition text_state :: "nat \<Rightarrow> string \<Rightarrow> o2r_state" where
  "text_state k b =
     o2r_new\<lparr>rsSeq := k, rsID := ''resp_0'', rsStarted := True, msgItemAdded := [''0''], msgContentAdded := [''0''],
       msgTextBuf := [(''0'', b)]\<rparr>"

text \<open>What a chat client reads from a chunk: a piece of the answer, and why it ended.\<close>

definition chat_view :: "json \<Rightarrow> string \<times> string" where
  "chat_view d =
     (case first_choice d of Some ch \<Rightarrow> (str_at (nil_at ch ''delta'') ''content'', str_at ch ''finish_reason'') | None \<Rightarrow> ([], []))"

definition quiet_event :: "sse \<Rightarrow> bool" where
  "quiet_event ev =
     (fst ev \<in> {''response.created'', ''response.in_progress'', ''response.content_part.added'', ''response.output_text.done'',
        ''response.content_part.done'', ''response.output_text.delta''} \<or>
      (fst ev \<in> {''response.output_item.added'', ''response.output_item.done''} \<and> \<not> is_call_item (nil_at (snd ev) ''item'')))"

definition text_of_event :: "sse \<Rightarrow> string list" where
  "text_of_event ev =
     (if fst ev = ''response.output_text.delta'' \<and> str_at (snd ev) ''delta'' \<noteq> [] then [str_at (snd ev) ''delta''] else [])"

definition sends_text :: "string list \<Rightarrow> o2r_state \<Rightarrow> sse list \<times> o2r_state \<Rightarrow> bool" where
  "sends_text ts s r = (list_all quiet_event (fst r) \<and> concat (map text_of_event (fst r)) = ts \<and> snd r = s)"

definition text_ended :: "sse list \<Rightarrow> bool" where
  "text_ended es =
     (es \<noteq> [] \<and> fst (last es) = ''response.completed'' \<and> r2o_usage (snd (last es)) = [] \<and>
      list_all quiet_event (butlast es) \<and> concat (map text_of_event (butlast es)) = [])"

text \<open>The state of a stream that has announced one call, with what has been kept of its arguments.\<close>

definition call_state :: "nat \<Rightarrow> nat \<Rightarrow> string \<Rightarrow> string \<Rightarrow> string \<Rightarrow> o2r_state" where
  "call_state n k ident name b =
     o2r_new\<lparr>rsSeq := n, rsID := ''resp_0'', rsStarted := True, funcNames := [(int k, name)], funcCallIDs := [(int k, ident)],
       funcItemAdded := [int k], funcArgsBuf := (if b = [] then [] else [(int k, b)])\<rparr>"

definition arguments_of :: "sse \<Rightarrow> string list" where
  "arguments_of ev = (if fst ev = ''response.function_call_arguments.done'' then [str_at (snd ev) ''arguments''] else [])"

text \<open>The calls of a Responses answer: item id, output index, call id and name. The next one opens, or one that is open goes on.\<close>

type_synonym up_call = "string \<times> int \<times> string \<times> string"

datatype up_step = Open | Piece nat string

definition open_event :: "up_call \<Rightarrow> sse" where
  "open_event c =
     (case c of (item, out, call, name) \<Rightarrow>
        (''response.output_item.added'', JObj [(''output_index'', JNum (of_int out)),
           (''item'', JObj [(''type'', JStr ''function_call''), (''id'', JStr item), (''call_id'', JStr call), (''name'', JStr name)])]))"

definition piece_event :: "up_call \<Rightarrow> string \<Rightarrow> sse" where
  "piece_event c p =
     (''response.function_call_arguments.delta'', JObj [(''item_id'', JStr (fst c)), (''output_index'', JNum (of_int (fst (snd c)))), (''delta'', JStr p)])"

fun up_events :: "up_call list \<Rightarrow> nat \<Rightarrow> up_step list \<Rightarrow> sse list" where
  "up_events cs n [] = []"
| "up_events cs n (Open # us) = open_event (cs ! n) # up_events cs (Suc n) us"
| "up_events cs n (Piece i p # us) = piece_event (cs ! i) p # up_events cs n us"

fun up_valid :: "up_call list \<Rightarrow> nat \<Rightarrow> up_step list \<Rightarrow> bool" where
  "up_valid cs n [] = True"
| "up_valid cs n (Open # us) = (n < length cs \<and> up_valid cs (Suc n) us)"
| "up_valid cs n (Piece i p # us) = (i < n \<and> p \<noteq> [] \<and> up_valid cs n us)"

definition up_distinct :: "up_call list \<Rightarrow> bool" where
  "up_distinct cs =
     (distinct (map fst cs) \<and> distinct (map (fst \<circ> snd) cs) \<and> distinct (map (fst \<circ> snd \<circ> snd) cs) \<and>
      list_all (\<lambda>(item, out, call, name). item \<noteq> [] \<and> call \<noteq> []) cs)"

text \<open>What the chat client is told: the index of the call, its id when it is new, and a piece of its arguments.\<close>

definition call_view :: "json \<Rightarrow> int \<times> string \<times> string" where
  "call_view d =
     (case first_choice d of
        Some ch \<Rightarrow>
          (case items_at (nil_at ch ''delta'') ''tool_calls'' of
             [tc] \<Rightarrow> (int_at tc ''index'', str_at tc ''id'', str_at (nil_at tc ''function'') ''arguments'')
           | _ \<Rightarrow> (-1, [], []))
      | None \<Rightarrow> (-1, [], []))"

fun told :: "up_call list \<Rightarrow> nat \<Rightarrow> up_step list \<Rightarrow> (int \<times> string \<times> string) list" where
  "told cs n [] = []"
| "told cs n (Open # us) = (int n, fst (snd (snd (cs ! n))), []) # told cs (Suc n) us"
| "told cs n (Piece i p # us) = (int i, [], p) # told cs n us"

definition opened :: "up_call list \<Rightarrow> nat \<Rightarrow> r2o_state \<Rightarrow> bool" where
  "opened cs n s =
     (roToolIndex s = n \<and> (\<forall>i<n. map_of (idxByItem s) (fst (cs ! i)) = Some i) \<and>
      (\<forall>j<length cs. n \<le> j \<longrightarrow> map_of (idxByItem s) (fst (cs ! j)) = None \<and> map_of (idxByOutput s) (fst (snd (cs ! j))) = None \<and>
         map_of (idxByCall s) (fst (snd (snd (cs ! j)))) = None))"

definition sample_calls :: "up_call list" where
  "sample_calls = [(''i1'', 2, ''c1'', ''ls''), (''i2'', 3, ''c2'', ''pwd'')]"

definition ending_event :: "sse \<Rightarrow> bool" where
  "ending_event ev = (fst ev \<in> {''response.completed'', ''response.done'', ''response.failed'', ''error''})"

section \<open>Sequence numbers\<close>

lemma numberedI:
  assumes "\<And>s. rsSeq (snd (f s)) = rsSeq s + length (fst (f s))"
    "\<And>s. map number_of (fst (f s)) = map (\<lambda>n. JNum (of_nat n)) [Suc (rsSeq s)..<Suc (rsSeq (snd (f s)))]"
  shows "numbers_kept f"
  using assms by (metis fst_conv numbers_kept_def snd_conv)

lemma numbered_seq [intro]:
  assumes "numbers_kept f" "numbers_kept g"
  shows "numbers_kept (o2r_seq f g)"
  unfolding numbers_kept_def
proof (intro allI impI)
  fix s es s2 assume e: "o2r_seq f g s = (es, s2)"
  obtain xs s1 ys where x: "f s = (xs, s1)" "g s1 = (ys, s2)" "es = xs @ ys"
    using e by (auto simp: o2r_seq_def split: prod.splits)
  have a: "rsSeq s1 = rsSeq s + length xs" "map number_of xs = map (\<lambda>n. JNum (of_nat n)) [Suc (rsSeq s)..<Suc (rsSeq s1)]"
    "rsSeq s2 = rsSeq s1 + length ys" "map number_of ys = map (\<lambda>n. JNum (of_nat n)) [Suc (rsSeq s1)..<Suc (rsSeq s2)]"
    using assms x by (auto simp: numbers_kept_def)
  moreover have "[Suc (rsSeq s)..<Suc (rsSeq s2)] = [Suc (rsSeq s)..<Suc (rsSeq s1)] @ [Suc (rsSeq s1)..<Suc (rsSeq s2)]"
    using upt_add_eq_append [of "Suc (rsSeq s)" "Suc (rsSeq s1)" "length ys"] a(1,3) by simp
  ultimately show "rsSeq s2 = rsSeq s + length es \<and> map number_of es = map (\<lambda>n. JNum (of_nat n)) [Suc (rsSeq s)..<Suc (rsSeq s2)]"
    by (simp add: x(3) del: upt_Suc)
qed

lemma numbered_if [intro]: "numbers_kept f \<Longrightarrow> numbers_kept (o2r_if P f)"
  by (auto simp: numbers_kept_def o2r_if_def)

lemma numbered_set [intro]: "(\<And>s. rsSeq (f s) = rsSeq s) \<Longrightarrow> numbers_kept (o2r_set f)"
  by (auto simp: numbers_kept_def o2r_set_def)

lemma numbered_event [intro]: "numbers_kept (o2r_event name extra)"
  by (rule numberedI) (simp_all add: o2r_event_def number_of_def nil_at_def)

lemma numbered_each [intro]: "(\<And>x. numbers_kept (f x)) \<Longrightarrow> numbers_kept (o2r_each f xs)"
proof (induction xs)
  case (Cons x xs)
  have "o2r_each f (x # xs) = o2r_seq (f x) (o2r_each f xs)" by (rule ext) simp
  then show ?case using numbered_seq Cons by simp
qed (simp add: numbers_kept_def)

text \<open>A handler that is chosen by the state it starts from.\<close>

lemma numbered_by_state: "(\<And>s. numbers_kept (F s)) \<Longrightarrow> numbers_kept (\<lambda>s. F s s)"
  unfolding numbers_kept_def by blast

lemma numbered_choice: "numbers_kept f \<Longrightarrow> numbers_kept g \<Longrightarrow> numbers_kept (\<lambda>s. if P s then f s else g s)"
  unfolding numbers_kept_def by (metis (full_types))

lemma numbered_nothing [intro]: "numbers_kept (Pair [])"
  by (simp add: numbers_kept_def)

lemma numbered_parts [intro]:
  "numbers_kept (startReasoning i)" "numbers_kept (emitReasoningDelta t)" "numbers_kept closeReasoning" "numbers_kept (emitTextContent i t)"
  "numbers_kept (closeMessage k)" "numbers_kept (call_announced i)" "numbers_kept (call_more i args)" "numbers_kept (closeToolCall i)" "numbers_kept sendCompleted"
  unfolding startReasoning_def emitReasoningDelta_def closeReasoning_def emitTextContent_def closeMessage_def call_announced_def
    call_more_def closeToolCall_def sendCompleted_def Let_def by (intro numbered_if numbered_seq numbered_set numbered_event; simp)+

lemma call_name_id_seq [simp]: "rsSeq (call_name_id tc i s) = rsSeq s"
  by (simp add: call_name_id_def Let_def)

lemma start_ids_seq [simp]: "rsSeq (start_ids chunk s) = rsSeq s"
  by (simp add: start_ids_def Let_def)

lemma numbered_call: "numbers_kept (emitToolCall tc)"
proof -
  let ?i = "int_at tc ''index''"
  let ?g = "\<lambda>s. if ?i \<notin> set (funcItemAdded s) \<and> buffered ?i (funcCallIDs s) \<noteq> [] \<and> buffered ?i (funcNames s) \<noteq> []
    then call_announced ?i s else call_more ?i (str_at (nil_at tc ''function'') ''arguments'') s"
  have "emitToolCall tc = o2r_seq (o2r_set (call_name_id tc ?i)) ?g"
    by (rule ext) (simp add: emitToolCall_def o2r_seq_def o2r_set_def Let_def split: prod.split)
  moreover have "numbers_kept ?g" by (intro numbered_choice numbered_parts)
  ultimately show ?thesis using numbered_seq [OF numbered_set [of "call_name_id tc ?i"]] by simp
qed

lemma numbered_content: "numbers_kept (o2r_content i c)"
proof -
  let ?r = "after_marks (drop_all ''<think>'' c)"
  have "numbers_kept (\<lambda>s. if rsThinking s \<and> ?r \<noteq> [] then emitReasoningDelta ?r s else if ?r \<noteq> [] then emitTextContent i ?r s else ([], s))"
    by (intro numbered_choice numbered_parts numbered_nothing)
  moreover have "numbers_kept (end_thinking a)" for a
    unfolding end_thinking_def by (intro numbered_seq numbered_parts numbered_set) simp
  ultimately show ?thesis
    unfolding o2r_content_def Let_def
    by (intro numbered_if numbered_seq numbered_parts numbered_set) (auto split: option.split)
qed

lemma numbered_closing: "numbers_kept (close_messages ord)" "numbers_kept (close_calls ord)"
  using numbered_by_state [of "\<lambda>s. o2r_each closeMessage (visited ord (rsSeq s) (msgItemAdded s))"]
    numbered_by_state [of "\<lambda>s. o2r_each closeToolCall (visited ord (rsSeq s) (map fst (funcCallIDs s)))"]
  by (auto simp: close_messages_def [abs_def] close_calls_def [abs_def])

lemma numbered_chunk: "numbers_kept (OpenAIChunkToResponses ord chunk)"
proof (cases "first_choice chunk")
  case None
  then have "OpenAIChunkToResponses ord chunk = Pair []" by (simp add: OpenAIChunkToResponses_def [abs_def])
  then show ?thesis by auto
next
  case (Some choice)
  have "numbers_kept (begin_response chunk)" "numbers_kept (o2r_reasoning i d)" "numbers_kept (o2r_calls ord d)" "numbers_kept (o2r_finish ord r)" for i d r
    unfolding begin_response_def o2r_reasoning_def o2r_calls_def o2r_finish_def
    by (intro numbered_if numbered_seq numbered_set numbered_event numbered_parts numbered_closing numbered_each numbered_call; simp)+
  then show ?thesis using Some numbered_content
    by (simp add: OpenAIChunkToResponses_def [abs_def] Let_def numbered_seq)
qed

text \<open>
  C15:
  The events of a Responses stream are numbers_kept from one on without a gap, whatever the chat stream holds and in
  whatever order Go visits its maps.
\<close>

theorem response_events_numbered:
  "map number_of (fst (o2r_run ord chunks o2r_new)) =
     map (\<lambda>n. JNum (of_nat n)) [1..<Suc (length (fst (o2r_run ord chunks o2r_new)))]"
proof -
  have n: "numbers_kept (o2r_run ord chunks)"
  proof (induction chunks)
    case (Cons x xs)
    have "o2r_run ord (x # xs) = o2r_seq (OpenAIChunkToResponses ord x) (o2r_run ord xs)" by (rule ext) simp
    then show ?case using Cons numbered_chunk by auto
  qed (simp add: numbers_kept_def)
  obtain es s where e: "o2r_run ord chunks o2r_new = (es, s)" by fastforce
  then have "rsSeq s = length es \<and> map number_of es = map (\<lambda>n. JNum (of_nat n)) [Suc 0..<Suc (rsSeq s)]"
    using n [unfolded numbers_kept_def, rule_format, OF e] by (simp add: o2r_new_def del: upt_Suc)
  then show ?thesis using e by (simp del: upt_Suc)
qed

section \<open>Text there and back\<close>

lemma visited_one: "go_order ord \<Longrightarrow> visited ord k [x] = [x]"
proof -
  assume "go_order ord"
  then have "mset (ord k 1) = {#0#}" by (simp add: go_order_def)
  then have "ord k 1 = [0]" by (metis mset_single_iff mset_single_iff_right)
  then show ?thesis by (simp add: visited_def)
qed

lemma visited_none: "go_order ord \<Longrightarrow> visited ord k [] = []"
  unfolding go_order_def visited_def by (metis list.map_disc_iff list.size(3) mset_zero_iff_right upt_0 mset.simps(1))

lemma drop_all_none: "\<not> contains t pat \<Longrightarrow> drop_all pat t = t"
  by (induction pat t rule: drop_all.induct) auto

lemma show_zero: "show_int 0 = ''0''" "parseIdx ''0'' = 0"
  by code_simp+

lemma plain_marks:
  assumes "plain_text t"
  shows "drop_all ''<think>'' t = t" "cut_at ''</think>'' t = None" "after_marks t = t" "\<not> contains t ''<think>''" "t \<noteq> []"
  using assms cut_at_None [of "''</think>''" t] by (simp_all add: plain_text_def drop_all_none after_marks_def)

lemma text_chunk_reads:
  "first_choice (text_chunk t) = Some (JObj [(''delta'', JObj [(''content'', JStr t)])])"
  by (simp add: first_choice_def text_chunk_def arr_at_def)

lemma text_chunk_ids: "str_at (text_chunk t) ''id'' = []" "int_at (text_chunk t) ''created'' = 0"
  by (simp_all add: text_chunk_def str_at_def int_at_def num_at_def)

lemmas o2r_combinators = o2r_seq_def o2r_if_def o2r_set_def o2r_event_def

lemma content_chunk:
  assumes "plain_text t"
  shows "OpenAIChunkToResponses ord (text_chunk t) s = o2r_seq (begin_response (text_chunk t)) (\<lambda>s.
    if rsThinking s then emitReasoningDelta t s else emitTextContent 0 t s) s"
  using plain_marks [OF assms]
  by (simp add: OpenAIChunkToResponses_def text_chunk_reads nil_at_def str_at_def int_at_def num_at_def o2r_reasoning_def
      delta_thought_def first_text_def o2r_content_def o2r_calls_def items_at_def arr_at_def o2r_finish_def o2r_combinators
      split: prod.split)

lemma text_begin:
  "snd (begin_response (text_chunk t) o2r_new) = o2r_new\<lparr>rsSeq := 2, rsID := ''resp_0'', rsStarted := True\<rparr>"
  "map fst (fst (begin_response (text_chunk t) o2r_new)) = [''response.created'', ''response.in_progress'']"
  by (simp_all add: begin_response_def o2r_combinators start_ids_def text_chunk_ids o2r_new_def show_zero Let_def)

lemma text_open:
  assumes "t \<noteq> []"
  shows "sends_text [t] (text_state 5 t) (emitTextContent 0 t (o2r_new\<lparr>rsSeq := 2, rsID := ''resp_0'', rsStarted := True\<rparr>))"
  using assms
  by (simp add: sends_text_def o2r_combinators o2r_new_def emitTextContent_def show_zero buffered_def text_state_def quiet_event_def
      nil_at_def is_call_item_def text_of_event_def str_at_def index_field_def Let_def)

lemma named_quiet:
  "map fst es = [''response.created'', ''response.in_progress''] \<Longrightarrow> list_all quiet_event es \<and> concat (map text_of_event es) = []"
  by (auto simp: quiet_event_def text_of_event_def map_eq_Cons_conv)

lemma text_start:
  assumes "plain_text t"
  shows "sends_text [t] (text_state 5 t) (OpenAIChunkToResponses ord (text_chunk t) o2r_new)"
proof -
  obtain es s where b: "begin_response (text_chunk t) o2r_new = (es, s)" by fastforce
  have s: "s = o2r_new\<lparr>rsSeq := 2, rsID := ''resp_0'', rsStarted := True\<rparr>" "map fst es = [''response.created'', ''response.in_progress'']"
    using text_begin [of t] b by simp_all
  have "\<not> rsThinking s" by (simp add: s(1) o2r_new_def)
  then show ?thesis using text_open [OF plain_marks(5) [OF assms]] named_quiet [OF s(2)]
    by (simp add: content_chunk [OF assms] o2r_seq_def b sends_text_def s(1) [symmetric] case_prod_unfold)
qed

lemma text_more:
  assumes "plain_text t"
  shows "sends_text [t] (text_state (Suc k) (b @ t)) (OpenAIChunkToResponses ord (text_chunk t) (text_state k b))"
  using plain_marks(5) [OF assms]
  by (simp add: sends_text_def content_chunk [OF assms] o2r_combinators begin_response_def o2r_new_def str_at_def
      emitTextContent_def show_zero buffered_def text_state_def quiet_event_def text_of_event_def index_field_def Let_def)

lemma text_rest:
  assumes "list_all plain_text ts"
  shows "sends_text ts (text_state (k + length ts) (b @ concat ts)) (o2r_run ord (map text_chunk ts) (text_state k b))"
  using assms
proof (induction ts arbitrary: k b)
  case (Cons t ts)
  obtain es s1 where 1: "OpenAIChunkToResponses ord (text_chunk t) (text_state k b) = (es, s1)" by fastforce
  then have "list_all quiet_event es" "concat (map text_of_event es) = [t]" "s1 = text_state (Suc k) (b @ t)"
    using text_more [of t k b ord] Cons.prems by (auto simp: sends_text_def)
  then show ?case using Cons.IH [of "Suc k" "b @ t"] Cons.prems 1 by (auto simp: o2r_seq_def sends_text_def split: prod.split)
qed (simp add: sends_text_def)

lemma finish_reads:
  "first_choice (finish_chunk r) = Some (JObj [(''delta'', JObj []), (''finish_reason'', JStr r)])"
  by (simp add: first_choice_def finish_chunk_def arr_at_def)

lemma finish_frame:
  assumes "finishing r"
  shows "OpenAIChunkToResponses ord (finish_chunk r) s = o2r_seq (begin_response (finish_chunk r))
    (o2r_seq (close_messages ord) (o2r_seq closeReasoning (o2r_seq (close_calls ord) sendCompleted))) s"
  using assms
  by (simp add: OpenAIChunkToResponses_def finish_reads nil_at_def str_at_def int_at_def num_at_def o2r_reasoning_def
      delta_thought_def first_text_def o2r_content_def o2r_calls_def items_at_def arr_at_def o2r_finish_def finishing_def
      o2r_combinators split: prod.split)

lemma text_finish:
  assumes "go_order ord" "finishing r"
  shows "text_ended (fst (OpenAIChunkToResponses ord (finish_chunk r) (text_state k b)))"
  by (simp add: visited_one [OF assms(1)] visited_none [OF assms(1)] text_ended_def finish_frame [OF assms(2)] o2r_combinators begin_response_def text_state_def o2r_new_def close_messages_def
      closeMessage_def closeReasoning_def close_calls_def sendCompleted_def quiet_event_def text_of_event_def nil_at_def is_call_item_def
      str_at_def response_field_def obj_at_def index_field_def r2o_usage_def)

lemma view_text: "chat_view (formatOpenAIChunk (JObj [(''content'', JStr t)]) [] s) = (t, [])"
  by (simp add: chat_view_def formatOpenAIChunk_def r2o_doc_def first_choice_def arr_at_def nil_at_def str_at_def)

lemma begin_keeps: "roFinishSent (r2o_begin s) = roFinishSent s" "roToolIndex (r2o_begin s) = roToolIndex s"
  by (simp_all add: r2o_begin_def)

lemma r2o_quiet:
  assumes "quiet_event ev"
  shows "ResponsesEventToOpenAI ev s =
    (map (\<lambda>t. formatOpenAIChunk (JObj [(''content'', JStr t)]) [] (r2o_begin s)) (text_of_event ev), r2o_begin s)"
  using assms by (auto simp: quiet_event_def ResponsesEventToOpenAI_def text_of_event_def r2o_delta_def r2o_item_added_def
      r2o_item_done_def Let_def)

lemma r2o_quiet_run:
  assumes "list_all quiet_event es"
  shows "map chat_view (fst (r2o_run es s)) = map (\<lambda>t. (t, [])) (concat (map text_of_event es)) \<and>
    roFinishSent (snd (r2o_run es s)) = roFinishSent s \<and> roToolIndex (snd (r2o_run es s)) = roToolIndex s"
  using assms
proof (induction es arbitrary: s)
  case (Cons ev es)
  then show ?case using Cons.IH [of "r2o_begin s"]
    by (simp add: r2o_quiet begin_keeps comp_def view_text case_prod_unfold)
qed simp

lemma r2o_run_append:
  "r2o_run (xs @ ys) s = (case r2o_run xs s of (es, s1) \<Rightarrow> case r2o_run ys s1 of (es', s2) \<Rightarrow> (es @ es', s2))"
  by (induction xs arbitrary: s) (simp_all add: case_prod_unfold)

lemma o2r_run_append: "o2r_run ord (xs @ ys) s = o2r_seq (o2r_run ord xs) (o2r_run ord ys) s"
  by (induction xs arbitrary: s) (simp_all add: o2r_seq_def case_prod_unfold)

lemma r2o_ended:
  assumes "fst ev = ''response.completed''" "r2o_usage (snd ev) = []" "\<not> roFinishSent s" "roToolIndex s = 0"
  shows "map chat_view (fst (ResponsesEventToOpenAI ev s)) = [([], ''stop'')]"
  using assms by (simp add: ResponsesEventToOpenAI_def r2o_completed_def begin_keeps chat_view_def r2o_doc_def first_choice_def
      arr_at_def nil_at_def str_at_def Let_def)

lemma text_stream:
  assumes "list_all plain_text (t # ts)" "go_order ord" "finishing r"
  obtains es ev where "fst (o2r_run ord (map text_chunk (t # ts) @ [finish_chunk r]) o2r_new) = es @ [ev]"
    "list_all quiet_event es" "concat (map text_of_event es) = t # ts" "fst ev = ''response.completed''" "r2o_usage (snd ev) = []"
proof -
  obtain es1 s1 where 1: "OpenAIChunkToResponses ord (text_chunk t) o2r_new = (es1, s1)" by fastforce
  then have a: "list_all quiet_event es1" "concat (map text_of_event es1) = [t]" "s1 = text_state 5 t"
    using text_start [of t ord] assms(1) by (simp_all add: sends_text_def)
  obtain es2 s2 where 2: "o2r_run ord (map text_chunk ts) s1 = (es2, s2)" by fastforce
  then have b: "list_all quiet_event es2" "concat (map text_of_event es2) = ts" "s2 = text_state (5 + length ts) (t @ concat ts)"
    using text_rest [of ts 5 t ord] assms(1) by (simp_all add: sends_text_def a(3))
  obtain es3 s3 where 3: "OpenAIChunkToResponses ord (finish_chunk r) s2 = (es3, s3)" by fastforce
  then have c: "text_ended es3" using text_finish [OF assms(2,3)] b(3) by (metis fst_conv)
  have "fst (o2r_run ord (map text_chunk (t # ts) @ [finish_chunk r]) o2r_new) = (es1 @ es2 @ butlast es3) @ [last es3]"
    using c 1 2 3 by (simp add: o2r_seq_def o2r_run_append text_ended_def case_prod_unfold)
  then show ?thesis using that a(1,2) b(1,2) c by (simp add: text_ended_def)
qed

text \<open>
  A text that is streamed to a Responses client arrives piece by piece, and when that stream is turned back into
  a chat stream the pieces are the same, followed by one finish. The finish reason is not kept: it is stop
  whatever it was, also for an answer that was cut off at its length limit.
\<close>

theorem text_through_responses:
  assumes "list_all plain_text (t # ts)" "go_order ord" "finishing r"
  shows "map chat_view (fst (r2o_run (fst (o2r_run ord (map text_chunk (t # ts) @ [finish_chunk r]) o2r_new)) r2o_new)) =
    map (\<lambda>x. (x, [])) (t # ts) @ [([], ''stop'')]"
proof -
  obtain es ev where e: "fst (o2r_run ord (map text_chunk (t # ts) @ [finish_chunk r]) o2r_new) = es @ [ev]"
    "list_all quiet_event es" "concat (map text_of_event es) = t # ts" "fst ev = ''response.completed''" "r2o_usage (snd ev) = []"
    using text_stream [OF assms] .
  obtain cs s where r: "r2o_run es r2o_new = (cs, s)" by fastforce
  have "map chat_view cs = map (\<lambda>x. (x, [])) (t # ts)" "\<not> roFinishSent s" "roToolIndex s = 0"
    using r2o_quiet_run [OF e(2), of r2o_new] r e(3) by (simp_all add: r2o_new_def)
  then show ?thesis using r2o_ended [OF e(4,5), of s] unfolding e(1) r2o_run_append r by (simp add: case_prod_unfold)
qed

theorem text_through_responses_witness:
  "map chat_view (fst (r2o_run (fst (o2r_run (\<lambda>k n. [0..<n]) (map text_chunk [''Hel'', ''lo''] @ [finish_chunk ''length'']) o2r_new)) r2o_new)) =
    map (\<lambda>x. (x, [])) [''Hel'', ''lo''] @ [([], ''stop'')]"
proof (rule text_through_responses)
  show "list_all plain_text [''Hel'', ''lo'']" by code_simp
qed (simp_all add: go_order_def finishing_def)

section \<open>Calls of a chat stream\<close>

lemma calls_chunk_reads:
  "first_choice (calls_chunk tcs) = Some (JObj [(''delta'', JObj [(''tool_calls'', JArr tcs)])])"
  "str_at (calls_chunk tcs) ''id'' = []" "int_at (calls_chunk tcs) ''created'' = 0"
  by (simp_all add: first_choice_def calls_chunk_def arr_at_def str_at_def int_at_def num_at_def)

lemma call_chunk_frame:
  assumes "is_obj tc"
  shows "OpenAIChunkToResponses ord (calls_chunk [tc]) s = o2r_seq (begin_response (calls_chunk [tc]))
    (o2r_seq (close_messages ord) (emitToolCall tc)) s"
  using assms
  by (simp add: OpenAIChunkToResponses_def calls_chunk_reads nil_at_def str_at_def int_at_def num_at_def o2r_reasoning_def
      delta_thought_def first_text_def o2r_content_def o2r_calls_def items_at_def arr_at_def o2r_finish_def o2r_combinators
      split: prod.split)

lemma call_begin:
  "snd (begin_response (calls_chunk tcs) o2r_new) = o2r_new\<lparr>rsSeq := 2, rsID := ''resp_'' @ show_int 0, rsStarted := True\<rparr>"
  "concat (map arguments_of (fst (begin_response (calls_chunk tcs) o2r_new))) = []"
  by (simp_all add: begin_response_def o2r_combinators start_ids_def calls_chunk_reads o2r_new_def arguments_of_def Let_def)

lemma new_call_reads:
  "int_at (new_call k i nm a) ''index'' = int k" "str_at (new_call k i nm a) ''id'' = i" "str_at (nil_at (new_call k i nm a) ''function'') ''name'' = nm"
  "str_at (nil_at (new_call k i nm a) ''function'') ''arguments'' = a" "is_obj (new_call k i nm a)"
  by (simp_all add: new_call_def int_at_index str_at_def nil_at_def)

lemma more_args_reads:
  "int_at (more_args k a) ''index'' = int k" "str_at (more_args k a) ''id'' = []" "str_at (nil_at (more_args k a) ''function'') ''name'' = []"
  "str_at (nil_at (more_args k a) ''function'') ''arguments'' = a" "is_obj (more_args k a)"
  by (simp_all add: more_args_def int_at_index str_at_def nil_at_def)

lemma show_zero': "show_int 0 = ''0''" by code_simp

lemma call_start:
  assumes "ident \<noteq> []" "name \<noteq> []" "go_order ord"
  shows "snd (OpenAIChunkToResponses ord (calls_chunk [new_call k ident name args]) o2r_new) = call_state 3 k ident name [] \<and>
    concat (map arguments_of (fst (OpenAIChunkToResponses ord (calls_chunk [new_call k ident name args]) o2r_new))) = []"
proof -
  obtain es s where b: "begin_response (calls_chunk [new_call k ident name args]) o2r_new = (es, s)" by fastforce
  have s: "s = o2r_new\<lparr>rsSeq := 2, rsID := ''resp_0'', rsStarted := True\<rparr>" "concat (map arguments_of es) = []"
    using call_begin [of "[new_call k ident name args]"] b by (simp_all add: show_zero')
  have "snd (o2r_seq (close_messages ord) (emitToolCall (new_call k ident name args)) s) = call_state 3 k ident name [] \<and>
    concat (map arguments_of (fst (o2r_seq (close_messages ord) (emitToolCall (new_call k ident name args)) s))) = []"
    using assms
    by (simp add: s(1) o2r_combinators close_messages_def visited_none o2r_new_def emitToolCall_def new_call_reads call_name_id_def
        call_announced_def buffered_def call_state_def arguments_of_def Let_def)
  then show ?thesis using s(2) by (simp add: call_chunk_frame new_call_reads o2r_seq_def b case_prod_unfold)
qed

lemma call_next:
  assumes "ident \<noteq> []" "name \<noteq> []" "go_order ord"
  shows "\<exists>n'. snd (OpenAIChunkToResponses ord (calls_chunk [more_args k p]) (call_state n k ident name b)) = call_state n' k ident name (b @ p) \<and>
    concat (map arguments_of (fst (OpenAIChunkToResponses ord (calls_chunk [more_args k p]) (call_state n k ident name b)))) = []"
  using assms
  by (cases "p = []"; cases "b = []") (auto simp: call_chunk_frame more_args_reads o2r_combinators begin_response_def close_messages_def visited_none o2r_new_def
      emitToolCall_def call_name_id_def call_more_def buffered_def call_state_def arguments_of_def Let_def)

lemma call_rest:
  assumes "ident \<noteq> []" "name \<noteq> []" "go_order ord"
  shows "\<exists>n'. snd (o2r_run ord (map (\<lambda>p. calls_chunk [more_args k p]) ps) (call_state n k ident name b)) = call_state n' k ident name (b @ concat ps) \<and>
    concat (map arguments_of (fst (o2r_run ord (map (\<lambda>p. calls_chunk [more_args k p]) ps) (call_state n k ident name b)))) = []"
proof (induction ps arbitrary: n b)
  case (Cons p ps)
  obtain es s1 where 1: "OpenAIChunkToResponses ord (calls_chunk [more_args k p]) (call_state n k ident name b) = (es, s1)" by fastforce
  then obtain n' where "s1 = call_state n' k ident name (b @ p)" "concat (map arguments_of es) = []"
    using call_next [OF assms, of k p n b] by auto
  then show ?case using Cons [of n' "b @ p"] 1 by (simp add: o2r_seq_def case_prod_unfold)
qed (auto)

lemma call_finish:
  assumes "ident \<noteq> []" "name \<noteq> []" "go_order ord" "finishing r"
  shows "concat (map arguments_of (fst (OpenAIChunkToResponses ord (finish_chunk r) (call_state n k ident name b)))) =
    [if b = [] then ''{}'' else b]"
  using assms
  by (simp add: visited_one [OF assms(3)] visited_none [OF assms(3)] finish_frame [OF assms(4)] o2r_combinators begin_response_def
      call_state_def o2r_new_def close_messages_def closeReasoning_def close_calls_def closeToolCall_def sendCompleted_def arguments_of_def
      buffered_def final_args_def str_at_def index_field_def)



section \<open>Parallel calls of a Responses stream\<close>

lemma call_views:
  "call_view (formatOpenAIChunk (call_head i ident nm) [] s) = (int i, ident, [])"
  "call_view (formatOpenAIChunk (call_piece i p) [] s) = (int i, [], p)"
  by (simp_all add: call_view_def formatOpenAIChunk_def r2o_doc_def first_choice_def arr_at_def nil_at_def items_at_def call_head_def
      call_piece_def int_at_index str_at_def)

lemma opened_begin [simp]: "opened cs n (r2o_begin s) = opened cs n s"
  by (simp add: opened_def r2o_begin_def)

lemma opened_current [simp]: "opened cs n (s\<lparr>roCurrentCall := x\<rparr>) = opened cs n s"
  by (simp add: opened_def)

lemma distinct_nth: "distinct (map f xs) \<Longrightarrow> i < length xs \<Longrightarrow> j < length xs \<Longrightarrow> f (xs ! i) = f (xs ! j) \<Longrightarrow> i = j"
  using nth_eq_iff_index_eq [of "map f xs" i j] by simp

lemma opened_next:
  assumes "up_distinct cs" "opened cs n s" "n < length cs" "cs ! n = (item, out, call, name)"
  shows "respToolIndex (Some out) item call s = (n, s\<lparr>roToolIndex := Suc n, idxByItem := mput item n (idxByItem s),
      idxByOutput := mput out n (idxByOutput s), idxByCall := mput call n (idxByCall s)\<rparr>)"
    and "opened cs (Suc n) (s\<lparr>roToolIndex := Suc n, idxByItem := mput item n (idxByItem s),
      idxByOutput := mput out n (idxByOutput s), idxByCall := mput call n (idxByCall s)\<rparr>)"
proof -
  have ne: "item \<noteq> []" "call \<noteq> []"
    using assms(1,3,4) nth_mem [of n cs] by (auto simp: up_distinct_def list_all_iff)
  have "roToolIndex s = n" "map_of (idxByItem s) item = None" "map_of (idxByOutput s) out = None" "map_of (idxByCall s) call = None"
    using assms(2-4) unfolding opened_def by (metis fst_conv snd_conv order_refl)+
  then show "respToolIndex (Some out) item call s = (n, s\<lparr>roToolIndex := Suc n, idxByItem := mput item n (idxByItem s),
      idxByOutput := mput out n (idxByOutput s), idxByCall := mput call n (idxByCall s)\<rparr>)"
    using ne by (simp add: respToolIndex_def by_key_def put_key_def put_output_def)
  have "fst (cs ! i) \<noteq> item" "fst (snd (cs ! i)) \<noteq> out" "fst (snd (snd (cs ! i))) \<noteq> call" if "i < length cs" "i \<noteq> n" for i
    using assms(1) that distinct_nth [of _ cs i n] assms(3,4) by (fastforce simp: up_distinct_def)+
  then show "opened cs (Suc n) (s\<lparr>roToolIndex := Suc n, idxByItem := mput item n (idxByItem s),
      idxByOutput := mput out n (idxByOutput s), idxByCall := mput call n (idxByCall s)\<rparr>)"
    using assms(2-4) by (auto simp: opened_def less_Suc_eq)
qed

lemma open_step:
  assumes "up_distinct cs" "opened cs n s" "n < length cs"
  shows "map call_view (fst (ResponsesEventToOpenAI (open_event (cs ! n)) s)) = [(int n, fst (snd (snd (cs ! n))), [])] \<and>
    opened cs (Suc n) (snd (ResponsesEventToOpenAI (open_event (cs ! n)) s))"
proof -
  obtain item out call name where c: "cs ! n = (item, out, call, name)" using prod_cases4 by blast
  have "call \<noteq> []" using assms(1,3) nth_mem [of n cs] by (auto simp: up_distinct_def list_all_iff c)
  moreover have "opened cs n (r2o_begin s)" using assms(2) by simp
  note n = opened_next [OF assms(1) this assms(3) c]
  ultimately show ?thesis using n(2)
    by (simp add: ResponsesEventToOpenAI_def open_event_def c r2o_item_added_def is_call_item_def str_at_def nil_at_def
        responseOutputIndex_def num_at_def trunc_of_int n(1) call_views Let_def)
qed

lemma piece_step:
  assumes "up_distinct cs" "opened cs n s" "i < n" "n \<le> length cs" "p \<noteq> []"
  shows "map call_view (fst (ResponsesEventToOpenAI (piece_event (cs ! i) p) s)) = [(int i, [], p)] \<and>
    opened cs n (snd (ResponsesEventToOpenAI (piece_event (cs ! i) p) s))"
proof -
  have "cs ! i \<in> set cs" using assms(3,4) by simp
  then have "fst (cs ! i) \<noteq> []" using assms(1) unfolding up_distinct_def list_all_iff by fastforce
  moreover have "map_of (idxByItem (r2o_begin s)) (fst (cs ! i)) = Some i" using assms(2,3) by (simp add: opened_def r2o_begin_def)
  ultimately have "respToolIndex out (fst (cs ! i)) [] (r2o_begin s) = (i, r2o_begin s)" for out
    by (simp add: respToolIndex_def by_key_def)
  then show ?thesis using assms(2,5)
    by (simp add: ResponsesEventToOpenAI_def piece_event_def r2o_call_delta_def str_at_def call_views Let_def)
qed

text \<open>
  C4:
  Parallel tool calls of a Responses stream stay apart: however the pieces of their arguments are interleaved,
  each call gets the next free index when it opens, and every piece is sent under the index of its own call.
\<close>

theorem parallel_calls_kept_apart:
  assumes "up_distinct cs" "up_valid cs 0 us"
  shows "map call_view (fst (r2o_run (up_events cs 0 us) r2o_new)) = told cs 0 us"
proof -
  have "map call_view (fst (r2o_run (up_events cs n us) s)) = told cs n us" if "opened cs n s" "n \<le> length cs" "up_valid cs n us" for n s
    using that
  proof (induction us arbitrary: n s)
    case (Cons u us)
    show ?case
    proof (cases u)
      case Open
      then have "n < length cs" "up_valid cs (Suc n) us" using Cons.prems(3) by simp_all
      then show ?thesis using open_step [OF assms(1) Cons.prems(1)] Cons.IH [of "Suc n"] Open by (simp add: case_prod_unfold)
    next
      case (Piece i p)
      then show ?thesis using piece_step [OF assms(1) Cons.prems(1) _ Cons.prems(2)] Cons.IH [of n] Cons.prems
        by (simp add: case_prod_unfold)
    qed
  qed simp
  moreover have "opened cs 0 r2o_new" by (simp add: opened_def r2o_new_def)
  ultimately show ?thesis using assms(2) by simp
qed

theorem parallel_calls_kept_apart_witness:
  "map call_view (fst (r2o_run (up_events sample_calls 0 [Open, Open, Piece 1 ''{'', Piece 0 ''{'', Piece 1 ''}'']) r2o_new)) =
    told sample_calls 0 [Open, Open, Piece 1 ''{'', Piece 0 ''{'', Piece 1 ''}'']"
  by (rule parallel_calls_kept_apart) (simp_all add: up_distinct_def sample_calls_def)

section \<open>Streams that never end\<close>

lemma unfinished_chunk: "snd (chat_view (formatOpenAIChunk d [] s)) = []"
  by (simp add: chat_view_def formatOpenAIChunk_def r2o_doc_def first_choice_def arr_at_def nil_at_def str_at_def)

lemma unfinished_step: "\<not> ending_event ev \<Longrightarrow> list_all (\<lambda>d. snd (chat_view d) = []) (fst (ResponsesEventToOpenAI ev s))"
  by (auto simp: ending_event_def ResponsesEventToOpenAI_def r2o_delta_def r2o_item_added_def r2o_call_delta_def r2o_call_done_def
      r2o_item_done_def unfinished_chunk case_prod_unfold Let_def)

text \<open>
  A chat client never gets a finish reason from a Responses stream without one of the four ending events; a stream
  that the upstream ends as incomplete is such a stream.
\<close>

theorem incomplete_never_finishes:
  assumes "list_all (\<lambda>ev. \<not> ending_event ev) evs"
  shows "list_all (\<lambda>d. snd (chat_view d) = []) (fst (r2o_run evs s))"
  using assms unfinished_step by (induction evs arbitrary: s) (auto simp: case_prod_unfold)

theorem incomplete_never_finishes_witness:
  "list_all (\<lambda>d. snd (chat_view d) = []) (fst (r2o_run
     [(''response.output_text.delta'', JObj [(''delta'', JStr ''Hel'')]), (''response.incomplete'', JObj [])] r2o_new))"
  by (rule incomplete_never_finishes) (simp add: ending_event_def)

text \<open>Every chat stream that is made from a Responses stream has the same id.\<close>

lemma doc_id: "str_at (r2o_doc s d r x) ''id'' = roChatID s"
  by (simp add: r2o_doc_def str_at_def)

lemma resp_index_id: "roChatID (snd (respToolIndex out item call s)) = roChatID s" "roStarted (snd (respToolIndex out item call s)) = roStarted s"
  by (simp_all add: respToolIndex_def Let_def split: option.split)

lemma step_id:
  "list_all (\<lambda>d. str_at d ''id'' = roChatID (r2o_begin s)) (fst (ResponsesEventToOpenAI ev s)) \<and>
   roChatID (snd (ResponsesEventToOpenAI ev s)) = roChatID (r2o_begin s) \<and> roStarted (snd (ResponsesEventToOpenAI ev s))"
proof -
  have "roStarted (r2o_begin s)" by (simp add: r2o_begin_def)
  then show ?thesis
    by (simp add: ResponsesEventToOpenAI_def r2o_delta_def r2o_item_added_def r2o_call_delta_def r2o_call_done_def r2o_item_done_def
        r2o_completed_def r2o_failed_def formatOpenAIChunk_def doc_id resp_index_id case_prod_unfold Let_def)
qed

theorem constant_stream_id: "list_all (\<lambda>d. str_at d ''id'' = ''chatcmpl-0'') (fst (r2o_run evs r2o_new))"
proof -
  have "list_all (\<lambda>d. str_at d ''id'' = ''chatcmpl-0'') (fst (r2o_run evs s))" if "roChatID (r2o_begin s) = ''chatcmpl-0''" for s
    using that
  proof (induction evs arbitrary: s)
    case (Cons ev evs)
    then show ?case using step_id [of s ev] Cons.IH [of "snd (ResponsesEventToOpenAI ev s)"] by (simp add: case_prod_unfold r2o_begin_def)
  qed simp
  moreover have "roChatID (r2o_begin r2o_new) = ''chatcmpl-0''" by code_simp
  ultimately show ?thesis by blast
qed

text \<open>
  A text that goes on after a tool call is sent for a message that the client has been told is done; it is never
  announced again and never done again.
\<close>

theorem text_after_done:
  "map fst (fst (o2r_run (\<lambda>k n. [0..<n]) [text_chunk ''a'', calls_chunk [new_call 0 ''c'' ''ls'' []], text_chunk ''b'', finish_chunk ''stop''] o2r_new)) =
    [''response.created'', ''response.in_progress'', ''response.output_item.added'', ''response.content_part.added'', ''response.output_text.delta'',
     ''response.output_text.done'', ''response.content_part.done'', ''response.output_item.done'', ''response.output_item.added'',
     ''response.output_text.delta'', ''response.function_call_arguments.done'', ''response.output_item.done'', ''response.completed'']"
  by code_simp

text \<open>The end of a thinking mark without a beginning sends reasoning for an item without an id that was never announced.\<close>

theorem stray_mark_has_no_item:
  "map (\<lambda>(name, d). (name, str_at d ''item_id'')) (drop 2 (fst (o2r_run (\<lambda>k n. [0..<n]) [text_chunk ''a</think>''] o2r_new))) =
    [(''response.reasoning_summary_text.delta'', [])]"
  by code_simp

end
