(* ===== verification/Response_Writer.thy ===== *)
theory Response_Writer
  imports Responses_Stream Translate
begin

text \<open>
  The writer that translates the answer of an upstream for the client (internal/translate/response.go,
  response\_writer.go). The inner http.ResponseWriter is the status codes, the header and the bytes it was given;
  flushing is not kept, and its writes do not fail. The random source, the clock and the order in which Go visits
  a map are in the record \<open>writer_env\<close>.
\<close>

section \<open>Complete answers (response.go)\<close>

record writer_env =
  envRnd :: "nat \<Rightarrow> string"
  envNow :: int
  envOrd :: visit_order

definition sourceJSONToOpenAI :: "writer_env \<Rightarrow> string \<Rightarrow> fmt \<Rightarrow> string res" where
  "sourceJSONToOpenAI e body source =
     (case source of
        FormatClaude \<Rightarrow> claude_JSONToOpenAI (envRnd e) body
      | FormatGemini \<Rightarrow> gemini_JSONToOpenAI (envRnd e) (envNow e) body
      | FormatOpenAIResponses \<Rightarrow> responses_JSONToOpenAI body
      | FormatOpenAI \<Rightarrow> Inr body)"

definition openAIJSONToTarget :: "writer_env \<Rightarrow> string \<Rightarrow> fmt \<Rightarrow> string res" where
  "openAIJSONToTarget e body target =
     (case target of
        FormatClaude \<Rightarrow> JSONToClaude (envRnd e) body
      | FormatGemini \<Rightarrow> JSONToGemini body
      | FormatOpenAIResponses \<Rightarrow> JSONToResponses body
      | FormatOpenAI \<Rightarrow> Inr body)"

definition ResponseJSON :: "writer_env \<Rightarrow> string \<Rightarrow> fmt \<Rightarrow> fmt \<Rightarrow> string res" where
  "ResponseJSON e body source target =
     (if source = target then Inr body
      else bind_res (sourceJSONToOpenAI e body source) (\<lambda>out. openAIJSONToTarget e out target))"

section \<open>Records of an event stream\<close>

abbreviation nl :: string where "nl \<equiv> [CHR 0x0A]"

definition data_record :: "json \<Rightarrow> string" where
  "data_record d = ''data: '' @ json_print d @ nl @ nl"

definition event_record :: "sse \<Rightarrow> string" where
  "event_record ev = ''event: '' @ fst ev @ nl @ data_record (snd ev)"

definition done_record :: string where
  "done_record = ''data: [DONE]'' @ nl @ nl"

definition trim_end :: "string \<Rightarrow> string \<Rightarrow> string" where
  "trim_end cutset s = rev (dropWhile (\<lambda>c. c \<in> set cutset) (rev s))"

definition ending_chars :: string where
  "ending_chars = [CHR 0x0D, CHR 0x0A, CHR '' '']"

text \<open>The data of a line, and of the first and the last line of a block that have some.\<close>

definition line_data :: "string \<Rightarrow> string" where
  "line_data line = trim_end ending_chars (trim_prefix line ''data: '')"

definition data_lines :: "string \<Rightarrow> string list" where
  "data_lines block = filter (\<lambda>l. has_prefix l ''data: '') (split_on (CHR 0x0A) block)"

definition first_data :: "string \<Rightarrow> string" where
  "first_data block = (case data_lines block of [] \<Rightarrow> [] | l # _ \<Rightarrow> drop 6 l)"

definition last_data :: "string \<Rightarrow> string" where
  "last_data block = (case rev (data_lines block) of [] \<Rightarrow> [] | l # _ \<Rightarrow> drop 6 l)"

definition event_name :: "string \<Rightarrow> string" where
  "event_name block =
     (case rev (filter (\<lambda>l. has_prefix l ''event: '') (split_on (CHR 0x0A) block)) of [] \<Rightarrow> [] | l # _ \<Rightarrow> drop 7 l)"

section \<open>Streams, line by line\<close>

subsection \<open>OpenAI to Claude\<close>

definition claude_text :: "sse list \<times> stream_state \<Rightarrow> string \<times> stream_state" where
  "claude_text r = (concat (map event_record (fst r)), snd r)"

text \<open>The flag tells that the end of the upstream stream was seen.\<close>

definition claude_line :: "writer_env \<Rightarrow> string \<Rightarrow> stream_state \<Rightarrow> bool \<times> string \<times> stream_state" where
  "claude_line e line s =
     (if \<not> has_prefix line ''data: '' then (False, [], s)
      else if line_data line = ''[DONE]'' then (True, claude_text (Finalize (envRnd e) s))
      else case unmarshal_map (line_data line) of
             None \<Rightarrow> (False, line @ nl, s)
           | Some chunk \<Rightarrow> (False, claude_text (ProcessChunk (envRnd e) chunk s)))"

fun claude_lines :: "writer_env \<Rightarrow> string list \<Rightarrow> stream_state \<Rightarrow> string \<times> stream_state" where
  "claude_lines e [] s = ([], s)"
| "claude_lines e (l # ls) s =
     (case claude_line e l s of (over, out, s1) \<Rightarrow>
        if over then (out, s1) else case claude_lines e ls s1 of (out', s2) \<Rightarrow> (out @ out', s2))"

definition streamOpenAIToClaude :: "writer_env \<Rightarrow> string \<Rightarrow> string \<times> stream_state \<Rightarrow> string \<times> string \<times> stream_state" where
  "streamOpenAIToClaude e p st =
     (if streamClosed (snd st) then ([], st)
      else case feed nl (fst st) p of (ls, rest) \<Rightarrow>
           case claude_lines e ls (snd st) of (out, s1) \<Rightarrow> (out, rest, s1))"

subsection \<open>Claude to OpenAI\<close>

definition records :: "json list \<times> 's \<Rightarrow> string \<times> 's" where
  "records r = (concat (map data_record (fst r)), snd r)"

text \<open>The flag is \<^verbatim>\<open>doneSent\<close> of the bundle of states.\<close>

definition c2o_line :: "c2o_state \<times> bool \<Rightarrow> string \<Rightarrow> string \<times> (c2o_state \<times> bool)" where
  "c2o_line st line =
     (case st of (s, over) \<Rightarrow>
        if \<not> has_prefix line ''data: '' \<or> line_data line = ''[DONE]'' then ([], st)
        else case unmarshal_map (line_data line) of
               None \<Rightarrow> (line @ nl, st)
             | Some chunk \<Rightarrow>
                 (case records (c2o_ProcessChunk chunk s) of (out, s1) \<Rightarrow>
                    if str_at chunk ''type'' = ''message_stop'' \<and> \<not> over then (out @ done_record, s1, True) else (out, s1, over)))"

subsection \<open>OpenAI to Gemini and back\<close>

definition o2g_line :: "o2g_state \<Rightarrow> string \<Rightarrow> string \<times> o2g_state" where
  "o2g_line s line =
     (if \<not> has_prefix line ''data: '' \<or> line_data line = ''[DONE]'' then ([], s)
      else case unmarshal_map (line_data line) of
             None \<Rightarrow> (line @ nl, s)
           | Some chunk \<Rightarrow> records (o2g_ProcessChunk chunk s))"

definition g2o_line :: "writer_env \<Rightarrow> g2o_state \<Rightarrow> string \<Rightarrow> string \<times> g2o_state" where
  "g2o_line e s line0 =
     (let line = trim_prefix (trim_end [CHR 0x0D, CHR 0x0A] line0) ''data: ''
      in if line = [] \<or> line = ''[DONE]'' then ([], s)
         else case unmarshal_map line of
                None \<Rightarrow> (line @ nl, s)
              | Some chunk \<Rightarrow> records (g2o_ProcessChunk (envRnd e) chunk s))"

subsection \<open>OpenAI to Responses and back\<close>

definition o2r_text :: "sse list \<times> o2r_state \<Rightarrow> string \<times> o2r_state" where
  "o2r_text r = (concat (map event_record (fst r)), snd r)"

definition o2r_block :: "writer_env \<Rightarrow> o2r_state \<Rightarrow> string \<Rightarrow> string \<times> o2r_state" where
  "o2r_block e s block =
     (let d = trim_end ending_chars (first_data block)
      in if d = [] then ([], s)
         else if d = ''[DONE]''
         then o2r_text (OpenAIChunkToResponses (envOrd e) (JObj [(''choices'', JArr [JObj [(''finish_reason'', JStr ''stop'')]])]) s)
         else case unmarshal_map d of
                None \<Rightarrow> (block @ nl @ nl, s)
              | Some chunk \<Rightarrow> o2r_text (OpenAIChunkToResponses (envOrd e) chunk s))"

definition streamOpenAIToResponses :: "writer_env \<Rightarrow> string \<Rightarrow> string \<times> o2r_state \<Rightarrow> string \<times> string \<times> o2r_state" where
  "streamOpenAIToResponses e p st = (if rsCompleted (snd st) then ([], st) else write_piece (nl @ nl) (o2r_block e) st p)"

definition named_event :: "string \<Rightarrow> json \<Rightarrow> sse" where
  "named_event name d = (if name = [] then str_at d ''type'' else name, d)"

definition r2o_block :: "r2o_state \<Rightarrow> string \<Rightarrow> string \<times> r2o_state" where
  "r2o_block s block =
     (let d = trim_end ending_chars (last_data block)
      in if last_data block = [] \<or> d = ''[DONE]'' then ([], s)
         else case unmarshal_map d of
                None \<Rightarrow> (block @ nl @ nl, s)
              | Some data \<Rightarrow> records (ResponsesEventToOpenAI (named_event (event_name block) data) s))"

subsection \<open>Two hops through OpenAI\<close>

text \<open>A record that the first hop emits, as the second hop decodes it again.\<close>

definition hop_chunk :: "json \<Rightarrow> json option" where
  "hop_chunk d =
     (let t = first_data (data_record d) in if t = [] \<or> t = ''[DONE]'' then None else unmarshal_map t)"

fun hop :: "(json \<Rightarrow> 's \<Rightarrow> string \<times> 's) \<Rightarrow> json list \<Rightarrow> 's \<Rightarrow> string \<times> 's" where
  "hop f [] s = ([], s)"
| "hop f (d # ds) s =
     (case (case hop_chunk d of Some c \<Rightarrow> f c s | None \<Rightarrow> ([], s)) of (out, s1) \<Rightarrow>
      case hop f ds s1 of (out', s2) \<Rightarrow> (out @ out', s2))"

definition c2r_line :: "writer_env \<Rightarrow> c2o_state \<times> o2r_state \<Rightarrow> string \<Rightarrow> string \<times> (c2o_state \<times> o2r_state)" where
  "c2r_line e st line =
     (case st of (s, r) \<Rightarrow>
        let t = first_data line; d = trim_end ending_chars (if t = [] then trim_prefix line ''data: '' else t)
        in if (\<not> has_prefix line ''data: '' \<and> \<not> has_prefix line ''event: '') \<or> d = ''[DONE]'' \<or> d = [] then ([], st)
           else case unmarshal_map d of
                  None \<Rightarrow> ([], st)
                | Some chunk \<Rightarrow>
                    (case c2o_ProcessChunk chunk s of (docs, s1) \<Rightarrow>
                     case hop (\<lambda>c r. o2r_text (OpenAIChunkToResponses (envOrd e) c r)) docs r of (out, r1) \<Rightarrow> (out, s1, r1)))"

definition r2c_block :: "writer_env \<Rightarrow> r2o_state \<times> stream_state \<Rightarrow> string \<Rightarrow> string \<times> (r2o_state \<times> stream_state)" where
  "r2c_block e st block =
     (case st of (s, c) \<Rightarrow>
        let d = last_data block
        in if d = [] \<or> d = ''[DONE]'' then ([], st)
           else case unmarshal_map d of
                  None \<Rightarrow> ([], st)
                | Some data \<Rightarrow>
                    (case ResponsesEventToOpenAI (named_event (event_name block) data) s of (docs, s1) \<Rightarrow>
                     case hop (\<lambda>x c. claude_text (ProcessChunk (envRnd e) x c)) docs c of (out, c1) \<Rightarrow> (out, s1, c1)))"

section \<open>The writer (response_writer.go)\<close>

text \<open>The streaming state of the one direction that a writer has, with the text that waits for its end.\<close>

datatype direction =
    Unused
  | ToClaude string stream_state
  | FromClaude string "c2o_state \<times> bool"
  | ToGemini string o2g_state
  | FromGemini string g2o_state
  | ToResponses string o2r_state
  | FromResponses string r2o_state
  | ClaudeToResponses string "c2o_state \<times> o2r_state"
  | ResponsesToClaude string "r2o_state \<times> stream_state"
  | Passing

record writer =
  wSrc :: fmt
  wDst :: fmt
  wModel :: string
  isStream :: bool
  statusCode :: nat
  wBuf :: string
  wState :: direction
  headerWritten :: bool
  doneSent :: bool
  innerType :: string
  innerCodes :: "nat list"
  innerBody :: string

definition NewResponseWriterWithDst :: "fmt \<Rightarrow> fmt \<Rightarrow> writer" where
  "NewResponseWriterWithDst src dst =
     \<lparr>wSrc = src, wDst = dst, wModel = [], isStream = False, statusCode = 0, wBuf = [], wState = Unused, headerWritten = False,
      doneSent = False, innerType = [], innerCodes = [], innerBody = []\<rparr>"

definition WithModel :: "string \<Rightarrow> writer \<Rightarrow> writer" where
  "WithModel m w = (if m = [] then w else w\<lparr>wModel := m\<rparr>)"

definition set_header :: "string \<Rightarrow> writer \<Rightarrow> writer" where
  "set_header ct w = w\<lparr>innerType := ct\<rparr>"

definition WriteHeader :: "nat \<Rightarrow> writer \<Rightarrow> writer" where
  "WriteHeader code w =
     (let w1 = w\<lparr>statusCode := code, headerWritten := True\<rparr>
      in if code \<noteq> 200 then w1\<lparr>innerCodes := innerCodes w1 @ [code]\<rparr> else w1)"

definition send_body :: "string \<Rightarrow> writer \<Rightarrow> writer" where
  "send_body s w = w\<lparr>innerBody := innerBody w @ s\<rparr>"

definition stream_header :: "writer \<Rightarrow> writer" where
  "stream_header w =
     (if headerWritten w then w
      else w\<lparr>innerType := ''text/event-stream'', innerCodes := innerCodes w @ [200], headerWritten := True\<rparr>)"

text \<open>The lines of a step go out together; the header goes out with the first of them.\<close>

definition writeLines :: "string \<Rightarrow> writer \<Rightarrow> writer" where
  "writeLines s w = (if s = [] then w else send_body s (stream_header w))"

definition passThrough :: "string \<Rightarrow> writer \<Rightarrow> writer" where
  "passThrough p w = send_body p (stream_header w)"

definition first_state :: "writer_env \<Rightarrow> fmt \<Rightarrow> fmt \<Rightarrow> direction" where
  "first_state e src dst =
     (if src = FormatOpenAI \<and> dst = FormatClaude then ToClaude [] (NewStreamState (envRnd e))
      else if src = FormatClaude \<and> dst = FormatOpenAI then FromClaude [] (NewClaudeToOpenAIState (envRnd e 0) (envNow e), False)
      else if src = FormatOpenAI \<and> dst = FormatGemini then ToGemini [] o2g_new
      else if src = FormatGemini \<and> dst = FormatOpenAI then FromGemini [] (NewGeminiToOpenAIState (envRnd e) (envNow e))
      else if src = FormatOpenAI \<and> dst = FormatOpenAIResponses then ToResponses [] o2r_new
      else if src = FormatOpenAIResponses \<and> dst = FormatOpenAI then FromResponses [] r2o_new
      else if src = FormatClaude \<and> dst = FormatOpenAIResponses
      then ClaudeToResponses [] (NewClaudeToOpenAIState (envRnd e 0) (envNow e), o2r_new)
      else if src = FormatOpenAIResponses \<and> dst = FormatClaude then ResponsesToClaude [] (r2o_new, NewStreamState (envRnd e))
      else Passing)"

text \<open>The text that a direction emits for a piece, and its next state.\<close>

definition stream_piece :: "writer_env \<Rightarrow> string \<Rightarrow> string \<Rightarrow> direction \<Rightarrow> string \<times> direction" where
  "stream_piece e model p d =
     (case d of
        ToClaude b s \<Rightarrow> (case streamOpenAIToClaude e p (b, s) of (out, b1, s1) \<Rightarrow> (out, ToClaude b1 s1))
      | FromClaude b s \<Rightarrow> (case write_piece nl c2o_line (b, s) p of (out, b1, s1) \<Rightarrow> (out, FromClaude b1 s1))
      | ToGemini b s \<Rightarrow> (case write_piece nl o2g_line (b, s) p of (out, b1, s1) \<Rightarrow> (out, ToGemini b1 s1))
      | FromGemini b s \<Rightarrow> (case write_piece nl (g2o_line e) (b, s) p of (out, b1, s1) \<Rightarrow> (out, FromGemini b1 s1))
      | ToResponses b s \<Rightarrow> (case streamOpenAIToResponses e p (b, s) of (out, b1, s1) \<Rightarrow> (out, ToResponses b1 s1))
      | FromResponses b s \<Rightarrow> (case write_piece (nl @ nl) r2o_block (b, SetModel model s) p of (out, b1, s1) \<Rightarrow> (out, FromResponses b1 s1))
      | ClaudeToResponses b s \<Rightarrow> (case write_piece nl (c2r_line e) (b, s) p of (out, b1, s1) \<Rightarrow> (out, ClaudeToResponses b1 s1))
      | ResponsesToClaude b s \<Rightarrow> (case write_piece (nl @ nl) (r2c_block e) (b, s) p of (out, b1, s1) \<Rightarrow> (out, ResponsesToClaude b1 s1))
      | _ \<Rightarrow> ([], d))"

definition sent_done :: "direction \<Rightarrow> bool" where
  "sent_done d = (case d of FromClaude b s \<Rightarrow> snd s | _ \<Rightarrow> False)"

definition writeStream :: "writer_env \<Rightarrow> string \<Rightarrow> writer \<Rightarrow> writer" where
  "writeStream e p w =
     (let d = (if wState w = Unused then first_state e (wSrc w) (wDst w) else wState w)
      in if d = Passing then passThrough p (w\<lparr>wState := d\<rparr>)
         else case stream_piece e (wModel w) p d of (out, d1) \<Rightarrow> writeLines out (w\<lparr>wState := d1, doneSent := (doneSent w \<or> sent_done d1)\<rparr>))"

definition Write :: "writer_env \<Rightarrow> string \<Rightarrow> writer \<Rightarrow> writer" where
  "Write e p w0 =
     (let w = (if statusCode w0 = 0 then w0\<lparr>statusCode := 200\<rparr> else w0)
      in if statusCode w \<noteq> 200
         then send_body p (if headerWritten w then w else w\<lparr>innerCodes := innerCodes w @ [statusCode w]\<rparr>)
         else let w1 = w\<lparr>isStream := isStream w \<or> contains (innerType w) ''text/event-stream''\<rparr>
              in if isStream w1 then writeStream e p w1 else w1\<lparr>wBuf := wBuf w1 @ p\<rparr>)"

definition close_claude :: "writer_env \<Rightarrow> writer \<Rightarrow> writer" where
  "close_claude e w =
     (case wState w of
        ToClaude b s \<Rightarrow> (case claude_text (Finalize (envRnd e) s) of (out, s1) \<Rightarrow> writeLines out (w\<lparr>wState := ToClaude b s1\<rparr>))
      | ResponsesToClaude b (r, s) \<Rightarrow>
          (case claude_text (Finalize (envRnd e) s) of (out, s1) \<Rightarrow> writeLines out (w\<lparr>wState := ResponsesToClaude b (r, s1)\<rparr>))
      | _ \<Rightarrow> w)"

definition Close :: "writer_env \<Rightarrow> writer \<Rightarrow> writer" where
  "Close e w =
     (if statusCode w \<noteq> 200 then w
      else if isStream w
      then close_claude e (if wState w \<noteq> Unused \<and> wSrc w \<noteq> FormatOpenAI \<and> wDst w = FormatOpenAI \<and> \<not> doneSent w
             then writeLines done_record (w\<lparr>doneSent := True\<rparr>) else w)
      else if wBuf w = [] then w
      else let translated = (case ResponseJSON e (wBuf w) (wSrc w) (wDst w) of Inr out \<Rightarrow> out | Inl _ \<Rightarrow> wBuf w)
           in send_body translated (if headerWritten w then w else w\<lparr>innerCodes := innerCodes w @ [200]\<rparr>))"

section \<open>Specifications\<close>

text \<open>One write to a stream, on its state alone.\<close>

definition dir_piece :: "writer_env \<Rightarrow> string \<Rightarrow> string \<Rightarrow> direction \<Rightarrow> string \<times> direction" where
  "dir_piece e m p d = (if d = Passing then (p, d) else stream_piece e m p d)"

definition dir_of :: "writer_env \<Rightarrow> writer \<Rightarrow> direction" where
  "dir_of e w = (if wState w = Unused then first_state e (wSrc w) (wDst w) else wState w)"

text \<open>An answer that the upstream has announced as an event stream.\<close>

definition streaming :: "writer \<Rightarrow> bool" where
  "streaming w = (statusCode w = 200 \<and> headerWritten w \<and> contains (innerType w) ''text/event-stream'')"

definition any_cut :: "direction \<Rightarrow> bool" where
  "any_cut d =
     (case d of ToResponses b s \<Rightarrow> False | ToClaude b s \<Rightarrow> stream_inv s \<or> streamClosed s | Unused \<Rightarrow> False | _ \<Rightarrow> True)"

definition dir_ready :: "writer \<Rightarrow> bool" where
  "dir_ready w = (wState w = Unused \<and> \<not> (wSrc w = FormatOpenAI \<and> wDst w = FormatOpenAIResponses))"

definition stream_answer :: "fmt \<Rightarrow> fmt \<Rightarrow> writer" where
  "stream_answer src dst = WriteHeader 200 (set_header ''text/event-stream'' (NewResponseWriterWithDst src dst))"

text \<open>
  A text after the finish of an OpenAI stream reaches a Responses client, after the end of the response, or is
  dropped: it depends on whether the network brought it with the finish.
\<close>

definition late_env :: writer_env where
  "late_env = \<lparr>envRnd = (\<lambda>_. ''r''), envNow = 0, envOrd = (\<lambda>k n. [0..<n])\<rparr>"

definition late_text :: "string list" where
  "late_text = [data_record (finish_chunk ''stop''), data_record (text_chunk ''more'')]"

text \<open>How a Claude client of an OpenAI upstream gets its stream, from bytes to bytes.\<close>

definition whole_stream :: "writer_env \<Rightarrow> json list \<Rightarrow> string" where
  "whole_stream e docs = concat (map event_record (fst (run_stream (envRnd e) docs)))"

section \<open>The cutting of a stream\<close>

lemma new_inv: "stream_inv (NewStreamState rnd)"
  by (simp add: NewStreamState_def stream_inv_def)

lemma inv_open: "stream_inv s \<Longrightarrow> \<not> streamClosed s"
  by (simp add: stream_inv_def)

lemma finalize_closes: "streamClosed (snd (Finalize rnd s))"
  by (cases "streamClosed s") (simp_all add: Finalize_def andThen_def update_def case_prod_unfold Let_def)

lemma finalize_closed: "streamClosed s \<Longrightarrow> Finalize rnd s = ([], s)"
  by (simp add: Finalize_def)

lemma claude_line_state:
  assumes "stream_inv s" "claude_line e l s = (over, out, s1)"
  shows "if over then streamClosed s1 else stream_inv s1"
  using assms chunk_ok [of s] finalize_closes
  by (auto simp: claude_line_def claude_text_def split: if_splits option.splits)

lemma claude_lines_state:
  assumes "stream_inv s" "claude_lines e ls s = (out, s1)"
  shows "stream_inv s1 \<or> streamClosed s1"
  using assms
proof (induction ls arbitrary: s out)
  case (Cons l ls)
  obtain over o1 s2 where l: "claude_line e l s = (over, o1, s2)" using prod_cases3 by blast
  show ?case using claude_line_state [OF Cons.prems(1) l] Cons l by (cases over) (auto split: prod.splits)
qed simp

lemma claude_lines_append:
  assumes "stream_inv s"
  shows "claude_lines e (xs @ ys) s = (case claude_lines e xs s of (out, s1) \<Rightarrow>
    if streamClosed s1 then (out, s1) else case claude_lines e ys s1 of (out', s2) \<Rightarrow> (out @ out', s2))"
  using assms
proof (induction xs arbitrary: s)
  case Nil
  then show ?case using inv_open by simp
next
  case (Cons x xs)
  obtain over o1 s2 where l: "claude_line e x s = (over, o1, s2)" using prod_cases3 by blast
  show ?case using claude_line_state [OF Cons.prems l] Cons.IH [of s2] by (cases over) (simp_all add: l case_prod_unfold)
qed

lemma claude_cut:
  assumes "stream_inv s \<or> streamClosed s"
  shows "fst (streamOpenAIToClaude e (p @ q) (b, s)) =
    fst (streamOpenAIToClaude e p (b, s)) @ fst (streamOpenAIToClaude e q (snd (streamOpenAIToClaude e p (b, s))))"
proof (cases "streamClosed s")
  case True
  then show ?thesis by (simp add: streamOpenAIToClaude_def)
next
  case False
  with assms have i: "stream_inv s" by simp
  obtain cs r where 1: "feed nl b p = (cs, r)" by fastforce
  obtain cs' r' where 2: "feed nl r q = (cs', r')" by fastforce
  have 3: "feed nl b (p @ q) = (cs @ cs', r')" using feed_append [OF _ 1, of q] 2 by simp
  show ?thesis using False 1 2 3 by (simp add: streamOpenAIToClaude_def claude_lines_append [OF i] split: prod.split)
qed

lemma claude_piece_state:
  assumes "stream_inv s \<or> streamClosed s" "streamOpenAIToClaude e p (b, s) = (out, b1, s1)"
  shows "stream_inv s1 \<or> streamClosed s1"
  using assms claude_lines_state [of s e] by (auto simp: streamOpenAIToClaude_def split: if_splits prod.splits)

lemma write_cut:
  "sep \<noteq> [] \<Longrightarrow> fst (write_piece sep f st (p @ q)) = fst (write_piece sep f st p) @ fst (write_piece sep f (snd (write_piece sep f st p)) q)"
  by (simp add: write_split case_prod_unfold)

lemma set_model_again: "roModel s = m \<or> m = [] \<Longrightarrow> SetModel m s = s"
  by (auto simp: SetModel_def)

lemma resp_index_model: "roModel (snd (respToolIndex out item call s)) = roModel s"
  by (simp add: respToolIndex_def Let_def split: option.split)

lemma r2o_model: "roModel (snd (ResponsesEventToOpenAI ev s)) = roModel s"
proof -
  have "roModel (r2o_begin s) = roModel s" by (simp add: r2o_begin_def)
  then show ?thesis
    by (simp add: ResponsesEventToOpenAI_def r2o_delta_def r2o_item_added_def r2o_call_delta_def r2o_call_done_def r2o_item_done_def
        r2o_completed_def r2o_failed_def resp_index_model case_prod_unfold Let_def)
qed

lemma r2o_block_model: "roModel (snd (r2o_block s l)) = roModel s"
  by (simp add: r2o_block_def records_def r2o_model Let_def split: option.split)

lemma steps_model: "roModel (snd (steps r2o_block s ls)) = roModel s"
  by (induction ls arbitrary: s) (simp_all add: case_prod_unfold r2o_block_model)

lemma write_model: "roModel (snd (snd (write_piece sep r2o_block (b, s) p))) = roModel s"
  by (simp add: write_piece_def case_prod_unfold steps_model)

lemma dir_cut:
  assumes "any_cut d"
  shows "fst (dir_piece e m (p @ q) d) = fst (dir_piece e m p d) @ fst (dir_piece e m q (snd (dir_piece e m p d)))"
    and "any_cut (snd (dir_piece e m p d))"
proof -
  have c: "any_cut (snd (dir_piece e m p d)) \<and>
    fst (dir_piece e m (p @ q) d) = fst (dir_piece e m p d) @ fst (dir_piece e m q (snd (dir_piece e m p d)))"
  proof (cases d)
    case (ToClaude b s)
    obtain out b1 s1 where o: "streamOpenAIToClaude e p (b, s) = (out, b1, s1)" using prod_cases3 by blast
    have s: "stream_inv s \<or> streamClosed s" using assms ToClaude by (simp add: any_cut_def)
    show ?thesis using claude_cut [OF s, of e p q b] claude_piece_state [OF s o] o ToClaude
      by (simp add: dir_piece_def stream_piece_def any_cut_def case_prod_unfold)
  next
    case (FromResponses b s)
    have "SetModel m (snd (snd (write_piece (nl @ nl) r2o_block (b, SetModel m s) p))) = snd (snd (write_piece (nl @ nl) r2o_block (b, SetModel m s) p))"
      by (rule set_model_again) (simp only: write_model, simp add: SetModel_def)
    then show ?thesis using FromResponses write_cut [of "nl @ nl" r2o_block "(b, SetModel m s)" p q]
      by (simp add: dir_piece_def stream_piece_def any_cut_def case_prod_unfold)
  next
    case (ToResponses b s)
    with assms show ?thesis by (simp add: any_cut_def)
  qed (use assms in \<open>simp_all add: dir_piece_def stream_piece_def any_cut_def case_prod_unfold write_cut\<close>)
  then show "fst (dir_piece e m (p @ q) d) = fst (dir_piece e m p d) @ fst (dir_piece e m q (snd (dir_piece e m p d)))"
    "any_cut (snd (dir_piece e m p d))" by simp_all
qed

lemma pieces_cut:
  "any_cut d \<Longrightarrow> fst (steps (\<lambda>d p. dir_piece e m p d) d (p # ps)) = fst (dir_piece e m (concat (p # ps)) d)"
proof (induction ps arbitrary: p d)
  case (Cons q ps)
  have "fst (dir_piece e m (p @ concat (q # ps)) d) =
      fst (dir_piece e m p d) @ fst (dir_piece e m (concat (q # ps)) (snd (dir_piece e m p d)))"
    using dir_cut(1) [OF Cons.prems] .
  then show ?case using Cons.IH [OF dir_cut(2) [OF Cons.prems, of e m p], of q] by (simp add: case_prod_unfold)
qed (simp add: case_prod_unfold)

lemma first_any_cut: "\<not> (src = FormatOpenAI \<and> dst = FormatOpenAIResponses) \<Longrightarrow> any_cut (first_state e src dst)"
  by (auto simp: first_state_def any_cut_def new_inv)

lemma dir_not_unused: "dir_piece e m p d = (out, d1) \<Longrightarrow> d \<noteq> Unused \<Longrightarrow> d1 \<noteq> Unused"
  by (cases d) (auto simp: dir_piece_def stream_piece_def split: prod.splits)

lemma first_not_unused: "first_state e src dst \<noteq> Unused"
  by (simp add: first_state_def)

lemma dir_of_used: "dir_of e w \<noteq> Unused"
  by (simp add: dir_of_def first_not_unused)

lemma writeLines_written: "headerWritten w \<Longrightarrow> writeLines out w = w\<lparr>innerBody := innerBody w @ out\<rparr>"
  by (simp add: writeLines_def send_body_def stream_header_def)

lemma Write_streaming:
  assumes "streaming w"
  shows "innerBody (Write e p w) = innerBody w @ fst (dir_piece e (wModel w) p (dir_of e w))"
    "wState (Write e p w) = snd (dir_piece e (wModel w) p (dir_of e w))" "streaming (Write e p w)" "wModel (Write e p w) = wModel w"
    "isStream (Write e p w)" "wSrc (Write e p w) = wSrc w" "wDst (Write e p w) = wDst w"
  using assms
  by (simp_all add: streaming_def Write_def writeStream_def dir_of_def dir_piece_def passThrough_def send_body_def stream_header_def
      writeLines_written Let_def case_prod_unfold)

lemma Write_dir:
  assumes "streaming w"
  shows "dir_of e (Write e p w) = snd (dir_piece e (wModel w) p (dir_of e w))"
  using dir_not_unused [OF prod.collapse [symmetric] dir_of_used] by (simp add: dir_of_def [of e "Write e p w"] Write_streaming [OF assms])

lemma Write_pieces:
  assumes "streaming w"
  shows "innerBody (fold (Write e) ps w) = innerBody w @ fst (steps (\<lambda>d p. dir_piece e (wModel w) p d) (dir_of e w) ps) \<and>
    streaming (fold (Write e) ps w)"
  using assms
proof (induction ps arbitrary: w)
  case (Cons p ps)
  then show ?case using Cons.IH [OF Write_streaming(3) [OF Cons.prems, of e p]]
    by (simp add: Write_streaming [OF Cons.prems] Write_dir [OF Cons.prems] case_prod_unfold)
qed simp

text \<open>
  C14:
  What a client has received does not depend on how the network cut the stream of the upstream into writes, for
  every pair of formats but one: two-hop translations, raw pass-through and broken lines included. The exception
  is an OpenAI stream for a Responses client.
\<close>

theorem client_output_ignores_cuts:
  assumes "streaming w" "dir_ready w" "ps \<noteq> []"
  shows "innerBody (fold (Write e) ps w) = innerBody (Write e (concat ps) w)"
proof -
  obtain p qs where p: "ps = p # qs" using assms(3) by (cases ps) auto
  have "any_cut (dir_of e w)" using assms(2) first_any_cut by (simp add: dir_ready_def dir_of_def)
  then show ?thesis using Write_pieces [OF assms(1), of e ps] pieces_cut [of "dir_of e w" e "wModel w" p qs]
    by (simp add: p Write_streaming(1) [OF assms(1)])
qed

lemma stream_answer_ready:
  "streaming (stream_answer src dst)" "wState (stream_answer src dst) = Unused" "wSrc (stream_answer src dst) = src" "wDst (stream_answer src dst) = dst"
  "innerBody (stream_answer src dst) = []"
  by (simp_all add: stream_answer_def streaming_def WriteHeader_def set_header_def NewResponseWriterWithDst_def contains_iff_sublist)

theorem client_output_ignores_cuts_witness:
  "\<forall>e. innerBody (fold (Write e) [''da'', ''ta: x'', nl] (stream_answer FormatOpenAI FormatClaude)) =
    innerBody (Write e (concat [''da'', ''ta: x'', nl]) (stream_answer FormatOpenAI FormatClaude))"
  by (intro allI client_output_ignores_cuts) (simp_all add: stream_answer_ready dir_ready_def)

theorem responses_output_depends_on_cuts:
  "contains (innerBody (Write late_env (concat late_text) (stream_answer FormatOpenAI FormatOpenAIResponses))) ''more''"
  "\<not> contains (innerBody (fold (Write late_env) late_text (stream_answer FormatOpenAI FormatOpenAIResponses))) ''more''"
  by code_simp+

section \<open>From bytes to bytes\<close>

lemma contains_char: "contains s [c] \<longleftrightarrow> c \<in> set s"
  by (induction s) auto

lemma in_join: "c \<in> set (join sep ws) \<Longrightarrow> c \<in> set sep \<or> (\<exists>w \<in> set ws. c \<in> set w)"
  by (induction sep ws rule: join.induct) auto

lemma hex_char_visible: "d < 16 \<Longrightarrow> hex_char d \<noteq> CHR 0x0A"
proof -
  assume "d < 16"
  then have "48 \<le> (of_char (hex_char d) :: nat)" by (auto simp: hex_char_def)
  then show ?thesis by auto
qed

lemma u_escape_visible: "CHR 0x0A \<notin> set (u_escape n)"
  using hex_char_visible [of "n div 4096 mod 16"] hex_char_visible [of "n div 256 mod 16"] hex_char_visible [of "n div 16 mod 16"]
    hex_char_visible [of "n mod 16"] by (simp add: u_escape_def eq_commute)

lemma esc_visible: "CHR 0x0A \<notin> set (esc_char c)"
  using u_escape_visible by (auto simp: esc_char_def)

lemma esc_str_visible: "CHR 0x0A \<notin> set (esc_str s)"
  by (induction s rule: esc_str.induct) (auto simp: esc_visible u_escape_visible)

lemma digit_visible: "CHR 0x0A \<notin> set (show_nat n)"
  using show_nat_digits [of "CHR 0x0A" n] by (auto simp: is_digit_def less_eq_char_def)

lemma print_num_visible: "CHR 0x0A \<notin> set (print_num r)"
  using digit_visible by (auto simp: print_num_def Let_def case_prod_unfold dest!: in_set_takeD in_set_dropD)

lemma print_raw_visible: "CHR 0x0A \<notin> set (print_raw v)"
proof (induction v rule: print_raw.induct)
  case (5 xs)
  then show ?case by (auto dest!: in_join)
next
  case (6 kvs)
  then show ?case using esc_str_visible by (fastforce simp: print_str_def dest!: in_join)
qed (use print_num_visible esc_str_visible in \<open>auto simp: print_str_def\<close>)

lemma json_print_visible: "CHR 0x0A \<notin> set (json_print v)"
  by (simp add: json_print_def print_raw_visible)

lemma split_line: "CHR 0x0A \<notin> set a \<Longrightarrow> cut_at nl (a @ CHR 0x0A # b) = Some (a, b)"
  by (induction a) auto

lemma feed_line:
  assumes "CHR 0x0A \<notin> set a"
  shows "feed nl [] (a @ CHR 0x0A # b) = (case feed nl [] b of (ls, r) \<Rightarrow> (a # ls, r))"
proof -
  obtain cs r where "SplitSSE nl b = Some (cs, r)" using split_exists [of nl b] by blast
  then show ?thesis using split_line [OF assms, of b] by (simp add: feed_def SplitSSE.simps [of nl "a @ CHR 0x0A # b"])
qed

lemma feed_empty: "feed nl [] [] = ([], [])"
  by (simp add: feed_def SplitSSE.simps)

lemma object_text:
  assumes "is_obj v"
  obtains m where "json_print v = CHR ''{'' # m @ ''}''"
proof -
  obtain kvs where "canon v = JObj kvs" using assms by (cases v) auto
  then show ?thesis using that by (simp add: json_print_def)
qed

lemma record_line:
  assumes "is_obj v"
  shows "line_data (''data: '' @ json_print v) = json_print v" "json_print v \<noteq> ''[DONE]''"
proof -
  obtain m where m: "json_print v = CHR ''{'' # m @ ''}''" using object_text [OF assms] .
  show "line_data (''data: '' @ json_print v) = json_print v" "json_print v \<noteq> ''[DONE]''"
    by (simp_all add: m line_data_def trim_prefix_def trim_end_def ending_chars_def)
qed

lemma claude_record:
  assumes "wf_json v" "is_obj v"
  shows "claude_lines e ((''data: '' @ json_print v) # [] # ls) s =
    (case ProcessChunk (envRnd e) (canon v) s of (es, s1) \<Rightarrow>
     case claude_lines e ls s1 of (out, s2) \<Rightarrow> (concat (map event_record es) @ out, s2))"
  using record_line [OF assms(2)] assms
  by (simp add: claude_line_def unmarshal_map_print claude_text_def case_prod_unfold)

lemma feed_records:
  "feed nl [] (concat (map data_record docs) @ t) =
     (case feed nl [] t of (ls, r) \<Rightarrow> (concat (map (\<lambda>d. [''data: '' @ json_print d, []]) docs) @ ls, r))"
proof (induction docs)
  case (Cons d docs)
  have v: "CHR 0x0A \<notin> set (''data: '' @ json_print d)" "CHR 0x0A \<notin> set []" using json_print_visible by auto
  have "concat (map data_record (d # docs)) @ t =
      (''data: '' @ json_print d) @ CHR 0x0A # [] @ CHR 0x0A # concat (map data_record docs) @ t" by (simp add: data_record_def)
  then show ?case unfolding feed_line [OF v(1)] feed_line [OF v(2)]
    using Cons by (simp add: feed_line [OF v(1), simplified] feed_line [OF v(2), simplified] case_prod_unfold)
qed (simp add: case_prod_unfold)

lemma claude_records:
  assumes "list_all (\<lambda>d. wf_json d \<and> is_obj d) docs"
  shows "claude_lines e (concat (map (\<lambda>d. [''data: '' @ json_print d, []]) docs) @ ls) s =
    (case forEach (ProcessChunk (envRnd e)) (map canon docs) s of (es, s1) \<Rightarrow>
     case claude_lines e ls s1 of (out, s2) \<Rightarrow> (concat (map event_record es) @ out, s2))"
  using assms
proof (induction docs arbitrary: s)
  case (Cons d docs)
  then show ?case using claude_record [of d e _ s] by (simp add: andThen_def emit_def case_prod_unfold Let_def)
qed (simp add: emit_def)

lemma feed_done: "feed nl [] done_record = ([''data: [DONE]'', []], [])"
  using feed_line [of "''data: [DONE]''" nl] feed_line [of "[]" "[]"] by (simp add: done_record_def feed_empty)

lemma done_line: "claude_lines e [''data: [DONE]'', []] s = claude_text (Finalize (envRnd e) s)"
  by (simp add: claude_line_def line_data_def trim_prefix_def trim_end_def ending_chars_def case_prod_unfold)

lemma Close_claude:
  assumes "streaming w" "isStream w" "wState w = ToClaude b s" "wSrc w = FormatOpenAI"
  shows "innerBody (Close e w) = innerBody w @ concat (map event_record (fst (Finalize (envRnd e) s)))"
  using assms by (simp add: Close_def streaming_def close_claude_def claude_text_def writeLines_written)

lemma claude_cut_state:
  assumes "stream_inv s \<or> streamClosed s"
  shows "snd (snd (streamOpenAIToClaude e (p @ q) (b, s))) =
    snd (snd (streamOpenAIToClaude e q (snd (streamOpenAIToClaude e p (b, s)))))"
proof (cases "streamClosed s")
  case False
  with assms have i: "stream_inv s" by simp
  obtain cs r where 1: "feed nl b p = (cs, r)" by fastforce
  obtain cs' r' where 2: "feed nl r q = (cs', r')" by fastforce
  have 3: "feed nl b (p @ q) = (cs @ cs', r')" using feed_append [OF _ 1, of q] 2 by simp
  show ?thesis using False 1 2 3 by (simp add: streamOpenAIToClaude_def claude_lines_append [OF i] case_prod_unfold)
qed (simp add: streamOpenAIToClaude_def)

lemma claude_pieces:
  assumes "stream_inv s \<or> streamClosed s"
  shows "\<exists>b'. snd (steps (\<lambda>d p. dir_piece e m p d) (ToClaude b s) (p # ps)) =
    ToClaude b' (snd (snd (streamOpenAIToClaude e (concat (p # ps)) (b, s))))"
  using assms
proof (induction ps arbitrary: p b s)
  case Nil
  then show ?case by (simp add: dir_piece_def stream_piece_def case_prod_unfold)
next
  case (Cons q ps)
  obtain out b1 s1 where o: "streamOpenAIToClaude e p (b, s) = (out, b1, s1)" using prod_cases3 by blast
  have "stream_inv s1 \<or> streamClosed s1" using claude_piece_state [OF Cons.prems o] .
  then show ?case using Cons.IH [of s1 b1 q] claude_cut_state [OF Cons.prems, of e p "concat (q # ps)" b] o
    by (simp add: dir_piece_def stream_piece_def case_prod_unfold)
qed

lemma writes_state:
  assumes "streaming w"
  shows "dir_of e (fold (Write e) ps w) = snd (steps (\<lambda>d p. dir_piece e (wModel w) p d) (dir_of e w) ps) \<and>
    wSrc (fold (Write e) ps w) = wSrc w \<and> (ps \<noteq> [] \<longrightarrow> isStream (fold (Write e) ps w) \<and> wState (fold (Write e) ps w) = dir_of e (fold (Write e) ps w))"
  using assms
proof (induction ps arbitrary: w)
  case (Cons p ps)
  have "wState (Write e p w) = dir_of e (Write e p w)" using Write_streaming(2) Write_dir Cons.prems by metis
  then show ?case using Cons.IH [OF Write_streaming(3) [OF Cons.prems, of e p]]
    by (cases "ps = []") (simp_all add: Write_streaming [OF Cons.prems] Write_dir [OF Cons.prems] case_prod_unfold)
qed simp

lemma whole_write:
  assumes "list_all (\<lambda>d. wf_json d \<and> is_obj d) docs" "t = [] \<or> t = done_record"
  shows "case streamOpenAIToClaude e (concat (map data_record docs) @ t) ([], NewStreamState (envRnd e)) of (out, b, s) \<Rightarrow>
    out @ concat (map event_record (fst (Finalize (envRnd e) s))) = whole_stream e (map canon docs)"
proof -
  obtain es s where f: "forEach (ProcessChunk (envRnd e)) (map canon docs) (NewStreamState (envRnd e)) = (es, s)" by fastforce
  have w: "whole_stream e (map canon docs) = concat (map event_record es) @ concat (map event_record (fst (Finalize (envRnd e) s)))"
    by (simp add: whole_stream_def run_stream_def andThen_def f case_prod_unfold Let_def)
  have "claude_lines e (concat (map (\<lambda>d. [''data: '' @ json_print d, []]) docs)) (NewStreamState (envRnd e)) = (concat (map event_record es), s)"
    using claude_records [OF assms(1), of e "[]"] by (simp add: f)
  moreover have "claude_lines e (concat (map (\<lambda>d. [''data: '' @ json_print d, []]) docs) @ [''data: [DONE]'', []]) (NewStreamState (envRnd e)) =
      (concat (map event_record es) @ concat (map event_record (fst (Finalize (envRnd e) s))), snd (Finalize (envRnd e) s))"
    unfolding claude_records [OF assms(1)] f done_line by (simp add: claude_text_def)
  ultimately show ?thesis using assms(2) inv_open [OF new_inv] finalize_closed [OF finalize_closes]
    by (auto simp: streamOpenAIToClaude_def feed_records feed_empty feed_done w)
qed

text \<open>
  C3:
  From bytes to bytes: an OpenAI stream of encoded chunks, cut into writes in any way and with or without its end
  mark, reaches a Claude client as the records of exactly the events that the stream state produces for the
  decoded chunks.
\<close>

theorem claude_bytes_end_to_end:
  assumes "list_all (\<lambda>d. wf_json d \<and> is_obj d) docs" "concat ps = concat (map data_record docs) @ t" "t = [] \<or> t = done_record" "ps \<noteq> []"
  shows "innerBody (Close e (fold (Write e) ps (stream_answer FormatOpenAI FormatClaude))) = whole_stream e (map canon docs)"
proof -
  let ?w = "stream_answer FormatOpenAI FormatClaude" and ?s0 = "NewStreamState (envRnd e)"
  obtain p qs where p: "ps = p # qs" using assms(4) by (cases ps) auto
  obtain out b s where o: "streamOpenAIToClaude e (concat ps) ([], ?s0) = (out, b, s)" using prod_cases3 by blast
  have d: "dir_of e ?w = ToClaude [] ?s0" by (simp add: dir_of_def stream_answer_ready first_state_def)
  have st: "streaming ?w" by (rule stream_answer_ready)
  have body: "innerBody (fold (Write e) ps ?w) = out" "streaming (fold (Write e) ps ?w)"
    using Write_pieces [OF st, of e ps] pieces_cut [of "dir_of e ?w" e "wModel ?w" p qs] o new_inv [of "envRnd e"]
    by (simp_all add: p d any_cut_def dir_piece_def stream_piece_def stream_answer_ready)
  obtain b' where "wState (fold (Write e) ps ?w) = ToClaude b' s" "isStream (fold (Write e) ps ?w)" "wSrc (fold (Write e) ps ?w) = FormatOpenAI"
    using writes_state [OF st, of e ps] claude_pieces [of ?s0 e "wModel ?w" "[]" p qs] new_inv [of "envRnd e"] o
    by (auto simp: p d stream_answer_ready)
  then have "innerBody (Close e (fold (Write e) ps ?w)) = out @ concat (map event_record (fst (Finalize (envRnd e) s)))"
    using Close_claude [OF body(2)] body(1) by simp
  then show ?thesis using whole_write [OF assms(1,3), of e] o by (simp add: assms(2))
qed

theorem claude_bytes_end_to_end_witness:
  "innerBody (Close late_env (fold (Write late_env) [''data'', drop 4 (data_record (finish_chunk ''stop'')), done_record] (stream_answer FormatOpenAI FormatClaude))) =
    whole_stream late_env (map canon [finish_chunk ''stop''])"
proof (rule claude_bytes_end_to_end [where t = done_record])
  show "list_all (\<lambda>d. wf_json d \<and> is_obj d) [finish_chunk ''stop'']" by (simp add: finish_chunk_def wf_map_def)
  show "concat [''data'', drop 4 (data_record (finish_chunk ''stop'')), done_record] = concat (map data_record [finish_chunk ''stop'']) @ done_record"
    by (simp add: data_record_def)
qed simp_all

text \<open>A last line without its line break is never read.\<close>

theorem unterminated_line_lost:
  "innerBody (Close e (Write e (''data: '' @ json_print d) (stream_answer FormatOpenAI FormatClaude))) = whole_stream e []"
proof -
  have "cut_at nl (''data: '' @ json_print d) = None"
    using json_print_visible [of d] by (subst cut_at_None) (simp add: contains_char)
  then have f: "feed nl [] (''data: '' @ json_print d) = ([], ''data: '' @ json_print d)"
    unfolding feed_def append_Nil by (subst SplitSSE.simps) simp
  let ?w = "stream_answer FormatOpenAI FormatClaude" and ?s0 = "NewStreamState (envRnd e)"
  have d: "dir_of e ?w = ToClaude [] ?s0" by (simp add: dir_of_def stream_answer_ready first_state_def)
  have st: "streaming ?w" by (rule stream_answer_ready)
  have "dir_piece e m (''data: '' @ json_print d) (ToClaude [] ?s0) = ([], ToClaude (''data: '' @ json_print d) ?s0)" for m
    using f inv_open [OF new_inv, of "envRnd e"] by (simp add: dir_piece_def stream_piece_def streamOpenAIToClaude_def)
  then show ?thesis
    by (simp add: Close_claude [OF Write_streaming(3,5) [OF st], of e _ "''data: '' @ json_print d" ?s0] Write_streaming [OF st] d
        stream_answer_ready whole_stream_def run_stream_def andThen_def emit_def case_prod_unfold Let_def)
qed

end
