(* ===== verification/Claude_From_OpenAI.thy ===== *)
theory Claude_From_OpenAI
  imports Responses_Request Translate Tool_Args
begin

text \<open>
  OpenAI requests as Claude requests (internal/translate/claude/fromopenai.go). The code decodes into structs:
  a key matches a field up to the case of its letters, a value of the wrong type is an error, null leaves the
  zero value, and a \<^verbatim>\<open>json.RawMessage\<close> is the text of the value. Here that text is the plain encoding of
  the decoded value, with the keys in the order they came. Numbers are whole when their value is.
\<close>

section \<open>Struct decoding\<close>

text \<open>Fields of which every matching value has to decode; the last one stands.\<close>

definition typed_field :: "string \<Rightarrow> (json \<Rightarrow> 'a option) \<Rightarrow> 'a \<Rightarrow> json \<Rightarrow> 'a option" where
  "typed_field name dec def v =
     fold (\<lambda>x acc. case acc of None \<Rightarrow> None | Some _ \<Rightarrow> dec x) (field_values name v) (Some def)"

definition pointer :: "(json \<Rightarrow> 'a option) \<Rightarrow> json \<Rightarrow> 'a option option" where
  "pointer dec v = (if v = JNull then Some None else map_option Some (dec v))"

fun decode_all :: "(json \<Rightarrow> 'a option) \<Rightarrow> json list \<Rightarrow> 'a list option" where
  "decode_all dec [] = Some []"
| "decode_all dec (x # xs) =
     (case dec x of None \<Rightarrow> None | Some y \<Rightarrow> map_option (\<lambda>ys. y # ys) (decode_all dec xs))"

definition slice :: "(json \<Rightarrow> 'a option) \<Rightarrow> json \<Rightarrow> 'a list option" where
  "slice dec v = (case v of JNull \<Rightarrow> Some [] | JArr xs \<Rightarrow> decode_all dec xs | _ \<Rightarrow> None)"

definition a_string :: "json \<Rightarrow> string option" where
  "a_string v = (case v of JStr s \<Rightarrow> Some s | JNull \<Rightarrow> Some [] | _ \<Rightarrow> None)"

definition a_bool :: "json \<Rightarrow> bool option" where
  "a_bool v = (case v of JBool b \<Rightarrow> Some b | _ \<Rightarrow> None)"

definition a_number :: "json \<Rightarrow> rat option" where
  "a_number v = (case v of JNum r \<Rightarrow> Some r | _ \<Rightarrow> None)"

definition an_int :: "json \<Rightarrow> int option" where
  "an_int v =
     (case v of
        JNum r \<Rightarrow> (case quotient_of r of (p, q) \<Rightarrow> if q = 1 \<and> - (2 ^ 63) \<le> p \<and> p < 2 ^ 63 then Some p else None)
      | _ \<Rightarrow> None)"

text \<open>The text of a raw field, empty when the key is missing.\<close>

definition raw_field :: "string \<Rightarrow> json \<Rightarrow> string" where
  "raw_field name v = (case struct_field name v of Some x \<Rightarrow> print_raw x | None \<Rightarrow> [])"

text \<open>A struct from its object, its zero value from null.\<close>

definition struct_value :: "(json \<Rightarrow> 'a option) \<Rightarrow> json \<Rightarrow> 'a option" where
  "struct_value dec v = (case v of JObj m \<Rightarrow> dec v | JNull \<Rightarrow> dec (JObj []) | _ \<Rightarrow> None)"

section \<open>The input\<close>

record content_part =
  pType :: string
  pText :: string
  pImageURL :: "string option"
  pSource :: string
  pToolUseID :: string
  pToolCallID :: string
  pIsError :: "bool option"
  pContent :: string
  pID :: string
  pName :: string
  pInput :: string
  pThinking :: string
  pSignature :: string

text \<open>Applicative decoding of several fields.\<close>

definition also_field :: "('a \<Rightarrow> 'b) option \<Rightarrow> 'a option \<Rightarrow> 'b option" where
  "also_field f x = (case f of None \<Rightarrow> None | Some g \<Rightarrow> map_option g x)"

definition image_url :: "json \<Rightarrow> string option" where
  "image_url = struct_value (string_field ''url'')"

definition decode_part :: "json \<Rightarrow> content_part option" where
  "decode_part = struct_value (\<lambda>v.
     also_field (also_field (also_field (also_field (also_field (also_field (also_field (also_field (also_field (also_field
       (Some (\<lambda>ty txt url uid cid err i n th sg.
          \<lparr>pType = ty, pText = txt, pImageURL = url, pSource = raw_field ''source'' v, pToolUseID = uid, pToolCallID = cid,
           pIsError = err, pContent = raw_field ''content'' v, pID = i, pName = n, pInput = raw_field ''input'' v,
           pThinking = th, pSignature = sg\<rparr>))
       (string_field ''type'' v)) (string_field ''text'' v)) (typed_field ''image_url'' (pointer image_url) None v))
       (string_field ''tool_use_id'' v)) (string_field ''tool_call_id'' v)) (typed_field ''is_error'' (pointer a_bool) None v))
       (string_field ''id'' v)) (string_field ''name'' v)) (string_field ''thinking'' v)) (string_field ''signature'' v))"

record call_in =
  tcID :: string
  tcName :: string
  tcArguments :: string

definition decode_function :: "json \<Rightarrow> (string \<times> string) option" where
  "decode_function = struct_value (\<lambda>v. also_field (also_field (Some Pair) (string_field ''name'' v)) (string_field ''arguments'' v))"

definition decode_call :: "json \<Rightarrow> call_in option" where
  "decode_call = struct_value (\<lambda>v.
     also_field (also_field (also_field (Some (\<lambda>i ty fn. \<lparr>tcID = i, tcName = fst fn, tcArguments = snd fn\<rparr>))
       (string_field ''id'' v)) (string_field ''type'' v)) (typed_field ''function'' decode_function ([], []) v))"

record message_in =
  mRole :: string
  mContent :: string
  mToolCallID :: string
  mToolCalls :: "call_in list"

definition decode_message :: "json \<Rightarrow> message_in option" where
  "decode_message = struct_value (\<lambda>v.
     also_field (also_field (also_field (also_field
       (Some (\<lambda>r c n tcs. \<lparr>mRole = r, mContent = raw_field ''content'' v, mToolCallID = c, mToolCalls = tcs\<rparr>))
       (string_field ''role'' v)) (string_field ''tool_call_id'' v)) (string_field ''name'' v))
       (typed_field ''tool_calls'' (slice decode_call) [] v))"

record tool_in =
  tType :: string
  tFunction :: "(string \<times> string \<times> string) option"
  tName :: string
  tDescription :: string
  tInputSchema :: string
  tParameters :: string

definition decode_tool_function :: "json \<Rightarrow> (string \<times> string \<times> string) option" where
  "decode_tool_function = struct_value (\<lambda>v.
     also_field (also_field (Some (\<lambda>n d. (n, d, raw_field ''parameters'' v))) (string_field ''name'' v)) (string_field ''description'' v))"

definition decode_tool :: "json \<Rightarrow> tool_in option" where
  "decode_tool = struct_value (\<lambda>v.
     also_field (also_field (also_field (also_field
       (Some (\<lambda>ty fn n d. \<lparr>tType = ty, tFunction = fn, tName = n, tDescription = d, tInputSchema = raw_field ''input_schema'' v,
          tParameters = raw_field ''parameters'' v\<rparr>))
       (string_field ''type'' v)) (typed_field ''function'' (pointer decode_tool_function) None v))
       (string_field ''name'' v)) (string_field ''description'' v))"

definition decode_schema :: "json \<Rightarrow> string option" where
  "decode_schema = struct_value (\<lambda>v. Some (raw_field ''schema'' v))"

definition decode_response_format :: "json \<Rightarrow> (string \<times> string option) option" where
  "decode_response_format = struct_value (\<lambda>v.
     also_field (also_field (Some Pair) (string_field ''type'' v)) (typed_field ''json_schema'' (pointer decode_schema) None v))"

record request_in =
  inModel :: string
  inMaxTokens :: "int option"
  inMaxCompletionTokens :: "int option"
  inTemperature :: "rat option"
  inTopP :: "rat option"
  inStream :: "bool option"
  inMetadata :: string
  inStopSequences :: "string list"
  inStop :: string
  inTopK :: "int option"
  inMessages :: "message_in list"
  inTools :: "tool_in list"
  inToolChoice :: string
  inThinkingRaw :: string
  inEffort :: string
  inResponseFormat :: "(string \<times> string option) option"

definition decode_request :: "json \<Rightarrow> request_in option" where
  "decode_request = struct_value (\<lambda>v.
     also_field (also_field (also_field (also_field (also_field (also_field (also_field (also_field (also_field (also_field (also_field (also_field
       (Some (\<lambda>md mt mc te tp st ss tk ms ts ef rf.
          \<lparr>inModel = md, inMaxTokens = mt, inMaxCompletionTokens = mc, inTemperature = te, inTopP = tp, inStream = st,
           inMetadata = raw_field ''metadata'' v, inStopSequences = ss, inStop = raw_field ''stop'' v, inTopK = tk, inMessages = ms,
           inTools = ts, inToolChoice = raw_field ''tool_choice'' v, inThinkingRaw = raw_field ''thinking'' v, inEffort = ef,
           inResponseFormat = rf\<rparr>))
       (string_field ''model'' v)) (typed_field ''max_tokens'' (pointer an_int) None v))
       (typed_field ''max_completion_tokens'' (pointer an_int) None v)) (typed_field ''temperature'' (pointer a_number) None v))
       (typed_field ''top_p'' (pointer a_number) None v)) (typed_field ''stream'' (pointer a_bool) None v))
       (typed_field ''stop_sequences'' (slice a_string) [] v)) (typed_field ''top_k'' (pointer an_int) None v))
       (typed_field ''messages'' (slice decode_message) [] v)) (typed_field ''tools'' (slice decode_tool) [] v))
       (string_field ''reasoning_effort'' v)) (typed_field ''response_format'' (pointer decode_response_format) None v))"

section \<open>Content\<close>

definition unmarshal :: "(json \<Rightarrow> 'a option) \<Rightarrow> string \<Rightarrow> 'a option" where
  "unmarshal dec raw = Option.bind (json_parse raw) dec"

definition splitContent :: "string \<Rightarrow> (string \<times> content_part list) option" where
  "splitContent raw =
     (if raw = [] then Some ([], [])
      else case unmarshal a_string raw of
             Some s \<Rightarrow> Some (s, [])
           | None \<Rightarrow> map_option (\<lambda>ps. ([], ps)) (unmarshal (slice decode_part) raw))"

definition contentToStringRaw :: "string \<Rightarrow> string" where
  "contentToStringRaw raw =
     (if raw = [] then []
      else case unmarshal a_string raw of
             Some s \<Rightarrow> s
           | None \<Rightarrow>
               (case unmarshal (slice decode_part) raw of
                  Some ps \<Rightarrow> join [CHR 0x0A] (filter (\<lambda>t. t \<noteq> []) (map pText ps))
                | None \<Rightarrow>
                    (case unmarshal decode_part raw of
                       Some p \<Rightarrow> if pText p = [] then raw else pText p
                     | None \<Rightarrow> raw)))"

text \<open>A block of the output; raw fields are texts.\<close>

record block =
  bType :: string
  bText :: string
  bSource :: string
  bToolUseID :: string
  bContent :: string
  bIsError :: bool
  bID :: string
  bName :: string
  bInput :: string
  bThinking :: string
  bSignature :: string

definition plain_block :: "string \<Rightarrow> block" where
  "plain_block t = \<lparr>bType = t, bText = [], bSource = [], bToolUseID = [], bContent = [], bIsError = False, bID = [], bName = [],
     bInput = [], bThinking = [], bSignature = []\<rparr>"

definition text_out :: "string \<Rightarrow> block list" where
  "text_out t = (if t = [] then [] else [(plain_block ''text'')\<lparr>bText := t\<rparr>])"

text \<open>The verb q of fmt: quoting as in Go source. Bytes above ASCII are taken to be part of printable runes.\<close>

definition hex2 :: "char \<Rightarrow> string" where
  "hex2 c = [hex_char (of_char c div 16), hex_char (of_char c mod 16)]"

definition go_quote_char :: "char \<Rightarrow> string" where
  "go_quote_char c =
     (if c = dq then [bs, dq] else if c = bs then [bs, bs]
      else if c = CHR 0x07 then [bs, CHR ''a''] else if c = CHR 0x08 then [bs, CHR ''b''] else if c = CHR 0x0C then [bs, CHR ''f'']
      else if c = CHR 0x0A then [bs, CHR ''n''] else if c = CHR 0x0D then [bs, CHR ''r''] else if c = CHR 0x09 then [bs, CHR ''t'']
      else if c = CHR 0x0B then [bs, CHR ''v'']
      else if of_char c < (32::nat) \<or> c = CHR 0x7F then [bs, CHR ''x''] @ hex2 c
      else [c])"

definition go_quote :: "string \<Rightarrow> string" where
  "go_quote s = dq # concat (map go_quote_char s) @ [dq]"

definition member_text :: "string \<Rightarrow> string \<Rightarrow> string" where
  "member_text k v = print_str k @ CHR '':'' # v"

definition imageURLToImageBlock :: "string \<Rightarrow> block list" where
  "imageURLToImageBlock url =
     (let rest = drop 5 url; mediaType = takeWhile (\<lambda>c. c \<noteq> CHR '';'') rest; enc = drop (Suc (length mediaType)) rest;
          image = (\<lambda>ms. [(plain_block ''image'')\<lparr>bSource := CHR ''{'' # join '','' ms @ ''}''\<rparr>])
      in if \<not> has_prefix url ''data:''
         then (if has_prefix url ''http://'' \<or> has_prefix url ''https://''
               then image [member_text ''type'' (print_str ''url''), member_text ''url'' (go_quote url)] else [])
         else if CHR '';'' \<notin> set rest \<or> \<not> has_prefix enc ''base64,'' \<or> drop 7 enc = [] then []
         else image [member_text ''type'' (print_str ''base64''), member_text ''media_type'' (go_quote mediaType),
                member_text ''data'' (go_quote (drop 7 enc))])"

definition user_block :: "content_part \<Rightarrow> block list" where
  "user_block p =
     (let t = pType p
      in if t = ''text'' then text_out (pText p)
         else if t = ''tool_result''
         then [(plain_block ''tool_result'')\<lparr>bToolUseID := pToolUseID p, bContent := contentToStringRaw (pContent p),
                 bIsError := (pIsError p = Some True)\<rparr>]
         else if t = ''image_url''
         then (case pImageURL p of Some u \<Rightarrow> if u = [] then [] else imageURLToImageBlock u | None \<Rightarrow> [])
         else if t = ''image'' \<and> pSource p \<noteq> [] then [(plain_block ''image'')\<lparr>bSource := pSource p\<rparr>]
         else [])"

definition userContentToBlocks :: "message_in \<Rightarrow> block list" where
  "userContentToBlocks m =
     (case splitContent (mContent m) of
        None \<Rightarrow> []
      | Some (s, parts) \<Rightarrow> if s \<noteq> [] then text_out s else concat (map user_block parts))"

definition assistant_block :: "content_part \<Rightarrow> block list" where
  "assistant_block p =
     (let t = pType p
      in if t = ''text'' then text_out (pText p)
         else if t = ''tool_use''
         then [(plain_block ''tool_use'')\<lparr>bID := pID p, bName := pName p, bInput := (if pInput p = [] then ''{}'' else pInput p)\<rparr>]
         else if t = ''thinking'' then [(plain_block ''thinking'')\<lparr>bThinking := pThinking p, bSignature := pSignature p\<rparr>]
         else [])"

definition parseToolArgs :: "string \<Rightarrow> string res" where
  "parseToolArgs s =
     (if s = [] \<or> s = ''null'' then Inr ''{}''
      else if json_parse s = None then Inl ''parse tool arguments: invalid JSON''
      else if take 1 (trim_space s) \<noteq> ''{'' then Inr ''{}''
      else Inr s)"

text \<open>
  The input of the part at a position: the first one is checked, the arguments as they came when it is the only
  one; a further one has to start with a brace.
\<close>

definition part_arguments :: "string \<Rightarrow> nat \<Rightarrow> nat \<times> string \<Rightarrow> string res" where
  "part_arguments args n ip =
     (case ip of (i, part) \<Rightarrow>
        if i = 0 then parseToolArgs (if n = 1 then args else part)
        else Inr (if part = [] \<or> part = ''null'' \<or> take 1 part \<noteq> ''{'' then ''{}'' else part))"

text \<open>The uses of an id by the calls so far.\<close>

definition count_of :: "string \<Rightarrow> (string, nat) gomap \<Rightarrow> nat" where
  "count_of k m = (case map_of m k of Some n \<Rightarrow> n | None \<Rightarrow> 0)"

fun split_blocks :: "call_in \<Rightarrow> nat \<Rightarrow> (nat \<times> string) list \<Rightarrow> (string, nat) gomap \<Rightarrow> string + block list \<times> (string, nat) gomap" where
  "split_blocks tc n [] seen = Inr ([], seen)"
| "split_blocks tc n (ip # ips) seen =
     (let k = Suc (count_of (tcID tc) seen);
          seen1 = (if 1 < n then mput (tcID tc) k seen else seen);
          ident = (if 1 < n then tcID tc @ ''_'' @ show_nat k else tcID tc)
      in bind_res (part_arguments (tcArguments tc) n ip) (\<lambda>input.
         bind_res (split_blocks tc n ips seen1) (\<lambda>(bls, seen2).
         Inr ((plain_block ''tool_use'')\<lparr>bID := ident, bName := tcName tc, bInput := input\<rparr> # bls, seen2))))"

fun call_blocks :: "call_in list \<Rightarrow> (string, nat) gomap \<Rightarrow> string + block list" where
  "call_blocks [] seen = Inr []"
| "call_blocks (tc # tcs) seen =
     (let parts = splitToolArgs (tcArguments tc)
      in bind_res (split_blocks tc (length parts) (List.enumerate 0 parts) seen) (\<lambda>(bls, seen1).
         bind_res (call_blocks tcs seen1) (\<lambda>more. Inr (bls @ more))))"

definition assistantContentToBlocks :: "message_in \<Rightarrow> string + block list" where
  "assistantContentToBlocks m =
     bind_res (call_blocks (mToolCalls m) []) (\<lambda>calls.
       Inr ((case splitContent (mContent m) of
               None \<Rightarrow> []
             | Some (s, parts) \<Rightarrow> text_out s @ concat (map assistant_block parts)) @ calls))"

definition openaiMessageToBlocks :: "message_in \<Rightarrow> string + block list" where
  "openaiMessageToBlocks m =
     (if mRole m = ''tool''
      then Inr [(plain_block ''tool_result'')\<lparr>bToolUseID := mToolCallID m, bContent := contentToStringRaw (mContent m)\<rparr>]
      else if mRole m = ''user'' then Inr (userContentToBlocks m)
      else if mRole m = ''assistant'' then assistantContentToBlocks m
      else Inl (''unsupported role '' @ go_quote (mRole m)))"

section \<open>Messages\<close>

type_synonym out_message = "string \<times> block list"

definition is_result :: "block \<Rightarrow> bool" where
  "is_result b = (bType b = ''tool_result'')"

definition isAllToolResults :: "block list \<Rightarrow> bool" where
  "isAllToolResults bls = list_all is_result bls"

definition pushOrMergeToolResults :: "out_message list \<Rightarrow> block list \<Rightarrow> out_message list" where
  "pushOrMergeToolResults out results =
     (if out \<noteq> [] \<and> fst (last out) = ''user'' \<and> isAllToolResults (snd (last out))
      then butlast out @ [(''user'', snd (last out) @ results)]
      else out @ [(''user'', results)])"

record building =
  bdOut :: "out_message list"
  bdRole :: string
  bdBlocks :: "block list"

definition flush_message :: "building \<Rightarrow> building" where
  "flush_message s =
     \<lparr>bdOut = bdOut s @ (if bdRole s \<noteq> [] \<and> bdBlocks s \<noteq> [] then [(bdRole s, bdBlocks s)] else []), bdRole = [], bdBlocks = []\<rparr>"

definition claude_role :: "message_in \<Rightarrow> string" where
  "claude_role m = (if mRole m = ''tool'' then ''user'' else mRole m)"

definition add_blocks :: "string \<Rightarrow> block list \<Rightarrow> building \<Rightarrow> building" where
  "add_blocks role bls s =
     (if list_ex is_result bls
      then let s1 = flush_message s; s2 = s1\<lparr>bdOut := pushOrMergeToolResults (bdOut s1) (filter is_result bls)\<rparr>;
               others = filter (\<lambda>b. \<not> is_result b) bls
           in if others = [] then s2 else s2\<lparr>bdRole := role, bdBlocks := others\<rparr>
      else let s1 = (if bdRole s \<noteq> role then (flush_message s)\<lparr>bdRole := role\<rparr> else s);
               s2 = s1\<lparr>bdBlocks := bdBlocks s1 @ bls\<rparr>
           in if list_ex (\<lambda>b. bType b = ''tool_use'') bls then flush_message s2 else s2)"

fun add_messages :: "message_in list \<Rightarrow> building \<Rightarrow> string + building" where
  "add_messages [] s = Inr s"
| "add_messages (m # ms) s =
     (if mRole m = ''system'' then add_messages ms s
      else bind_res (openaiMessageToBlocks m) (\<lambda>bls. add_messages ms (add_blocks (claude_role m) bls s)))"

definition buildClaudeMessages :: "message_in list \<Rightarrow> string + out_message list" where
  "buildClaudeMessages ms =
     bind_res (add_messages ms \<lparr>bdOut = [], bdRole = [], bdBlocks = []\<rparr>) (\<lambda>s. Inr (bdOut (flush_message s)))"

section \<open>System prompt, tools and settings\<close>

definition system_texts :: "message_in \<Rightarrow> string list" where
  "system_texts m =
     (case splitContent (mContent m) of
        None \<Rightarrow> []
      | Some (s, parts) \<Rightarrow>
          if s \<noteq> [] then [s] else map pText (filter (\<lambda>p. pType p = ''text'' \<and> pText p \<noteq> []) parts))"

definition collectSystemParts :: "message_in list \<Rightarrow> string list" where
  "collectSystemParts ms = concat (map system_texts (filter (\<lambda>m. mRole m = ''system'') ms))"

definition schema_prompt :: "string \<Rightarrow> string" where
  "schema_prompt schema =
     ''You must respond with valid JSON that strictly follows this JSON schema:'' @ CHR 0x0A #
     replicate 3 (CHR 0x60) @ ''json'' @ CHR 0x0A # schema @ CHR 0x0A #
     replicate 3 (CHR 0x60) @ CHR 0x0A # ''Respond ONLY with the JSON object, no other text.''"

text \<open>The text of a decoded schema is always valid, so the branch for an invalid one is never taken.\<close>

definition convertResponseFormatToSystem :: "string \<times> string option \<Rightarrow> string" where
  "convertResponseFormatToSystem rf =
     (case rf of (typ, schema) \<Rightarrow>
        if typ = ''json_object'' then ''You must respond with valid JSON. Respond ONLY with a JSON object, no other text.''
        else if typ = ''json_schema''
        then (case schema of Some sc \<Rightarrow> if sc = [] then [] else schema_prompt sc | None \<Rightarrow> [])
        else [])"

definition convertOaiTool :: "tool_in \<Rightarrow> (string \<times> string \<times> string) list" where
  "convertOaiTool t =
     (let (name, desc, params) = (case tFunction t of Some f \<Rightarrow> f | None \<Rightarrow> (tName t, tDescription t, tInputSchema t))
      in if (tType t \<noteq> [] \<and> tType t \<noteq> ''function'') \<or> name = [] then []
         else [(name, desc, if params \<noteq> [] then params else if tParameters t \<noteq> [] then tParameters t
                  else print_raw no_parameters)])"

definition isToolChoiceNone :: "string \<Rightarrow> bool" where
  "isToolChoiceNone raw = (unmarshal a_string raw = Some ''none'')"

definition decode_choice :: "json \<Rightarrow> (string \<times> string \<times> string option) option" where
  "decode_choice = struct_value (\<lambda>v.
     also_field (also_field (also_field (Some (\<lambda>t n f. (t, n, f))) (string_field ''type'' v)) (string_field ''name'' v))
       (typed_field ''function'' (pointer (struct_value (string_field ''name''))) None v))"

definition choice_out :: "string \<Rightarrow> string \<Rightarrow> json" where
  "choice_out t n = JObj ((''type'', JStr t) # (if n = [] then [] else [(''name'', JStr n)]))"

definition convertOpenAIToolChoice :: "string \<Rightarrow> json" where
  "convertOpenAIToolChoice raw =
     (case unmarshal a_string raw of
        Some s \<Rightarrow> choice_out (if s = ''required'' then ''any'' else ''auto'') []
      | None \<Rightarrow>
          (case unmarshal decode_choice raw of
             None \<Rightarrow> choice_out ''auto'' []
           | Some (t, n, f) \<Rightarrow>
               if t = ''auto'' \<or> t = ''any'' then choice_out t []
               else if t = ''tool'' then (if n = [] then choice_out ''auto'' [] else choice_out ''tool'' n)
               else (case f of Some g \<Rightarrow> if g = [] then choice_out ''auto'' [] else choice_out ''tool'' g | None \<Rightarrow> choice_out ''auto'' [])))"

definition mergeStop :: "string list \<Rightarrow> string \<Rightarrow> string list" where
  "mergeStop seqs stop =
     (if stop = [] then seqs
      else case unmarshal a_string stop of
             Some s \<Rightarrow> [s]
           | None \<Rightarrow> (case unmarshal (slice a_string) stop of Some ss \<Rightarrow> ss | None \<Rightarrow> seqs))"

definition reasoningEffortToBudget :: "string \<Rightarrow> int" where
  "reasoningEffortToBudget effort =
     (let e = to_lower (trim_space effort)
      in if e = ''xhigh'' then 32768 else if e = ''high'' then 16384 else if e = ''medium'' then 8192 else if e = ''low'' then 4096 else 0)"

definition decode_thinking :: "json \<Rightarrow> (string \<times> int) option" where
  "decode_thinking = struct_value (\<lambda>v.
     also_field (also_field (Some Pair) (string_field ''type'' v))
       (typed_field ''budget_tokens'' (\<lambda>x. if x = JNull then Some 0 else an_int x) 0 v))"

definition thinking_out :: "request_in \<Rightarrow> (string \<times> int) option" where
  "thinking_out src =
     (if inThinkingRaw src \<noteq> [] then unmarshal decode_thinking (inThinkingRaw src)
      else if inEffort src \<noteq> [] \<and> 0 < reasoningEffortToBudget (inEffort src)
      then Some (''enabled'', reasoningEffortToBudget (inEffort src))
      else None)"

section \<open>The output\<close>

text \<open>Encoding of raw fields, which fails when one of them is not JSON.\<close>

definition raw_out :: "string \<Rightarrow> string \<Rightarrow> (string \<times> json) list option" where
  "raw_out k raw = (if raw = [] then Some [] else map_option (\<lambda>v. [(k, v)]) (json_parse raw))"

definition some_text :: "string \<Rightarrow> string \<Rightarrow> (string \<times> json) list option" where
  "some_text k s = Some (if s = [] then [] else [(k, JStr s)])"

definition some_value :: "string \<Rightarrow> ('a \<Rightarrow> json) \<Rightarrow> 'a option \<Rightarrow> (string \<times> json) list option" where
  "some_value k f v = Some (case v of None \<Rightarrow> [] | Some x \<Rightarrow> [(k, f x)])"

definition some_list :: "string \<Rightarrow> json list \<Rightarrow> (string \<times> json) list option" where
  "some_list k xs = Some (unless_empty k xs)"

fun all_fields :: "(string \<times> json) list option list \<Rightarrow> (string \<times> json) list option" where
  "all_fields [] = Some []"
| "all_fields (f # fs) = (case f of None \<Rightarrow> None | Some kvs \<Rightarrow> map_option (\<lambda>rest. kvs @ rest) (all_fields fs))"

definition block_out :: "block \<Rightarrow> json option" where
  "block_out b =
     map_option JObj (all_fields [Some [(''type'', JStr (bType b))], some_text ''text'' (bText b), raw_out ''source'' (bSource b),
       some_text ''tool_use_id'' (bToolUseID b), some_text ''content'' (bContent b),
       Some (if bIsError b then [(''is_error'', JBool True)] else []), some_text ''id'' (bID b), some_text ''name'' (bName b),
       raw_out ''input'' (bInput b), some_text ''thinking'' (bThinking b), some_text ''signature'' (bSignature b)])"

fun all_some :: "'a option list \<Rightarrow> 'a list option" where
  "all_some [] = Some []"
| "all_some (x # xs) = (case x of None \<Rightarrow> None | Some y \<Rightarrow> map_option (\<lambda>ys. y # ys) (all_some xs))"

definition message_out :: "out_message \<Rightarrow> json option" where
  "message_out m =
     map_option (\<lambda>bls. JObj [(''role'', JStr (fst m)), (''content'', JArr bls)]) (all_some (map block_out (snd m)))"

definition tool_out :: "string \<times> string \<times> string \<Rightarrow> json option" where
  "tool_out t =
     (case t of (name, desc, schema) \<Rightarrow>
        map_option JObj (all_fields [Some [(''name'', JStr name)], some_text ''description'' desc, raw_out ''input_schema'' schema]))"

definition system_block :: "string \<Rightarrow> json" where
  "system_block t = JObj [(''type'', JStr ''text''), (''text'', JStr t)]"

definition system_parts :: "request_in \<Rightarrow> string list" where
  "system_parts src =
     collectSystemParts (inMessages src) @
     (case inResponseFormat src of
        None \<Rightarrow> []
      | Some rf \<Rightarrow> if convertResponseFormatToSystem rf = [] then [] else [convertResponseFormatToSystem rf])"

definition tools_out :: "request_in \<Rightarrow> (string \<times> string \<times> string) list" where
  "tools_out src = (if isToolChoiceNone (inToolChoice src) then [] else concat (map convertOaiTool (inTools src)))"

definition list_out :: "string \<Rightarrow> json option list \<Rightarrow> (string \<times> json) list option" where
  "list_out k xs = map_option (unless_empty k) (all_some xs)"

definition int_out :: "int \<Rightarrow> json" where
  "int_out i = JNum (of_int i)"

definition claude_document :: "request_in \<Rightarrow> out_message list \<Rightarrow> json option" where
  "claude_document src msgs =
     map_option JObj (all_fields
       [some_text ''model'' (inModel src),
        some_value ''max_tokens'' int_out (case inMaxCompletionTokens src of Some n \<Rightarrow> Some n | None \<Rightarrow> inMaxTokens src),
        some_value ''temperature'' JNum (inTemperature src), some_value ''top_p'' JNum (inTopP src),
        some_value ''stream'' JBool (inStream src), raw_out ''metadata'' (inMetadata src),
        some_list ''stop_sequences'' (map JStr (mergeStop (inStopSequences src) (inStop src))),
        some_value ''top_k'' int_out (inTopK src), some_list ''system'' (map system_block (system_parts src)),
        list_out ''messages'' (map message_out msgs), list_out ''tools'' (map tool_out (tools_out src)),
        Some (if inToolChoice src = [] then [] else [(''tool_choice'', convertOpenAIToolChoice (inToolChoice src))]),
        some_value ''thinking'' (\<lambda>(t, b). JObj [(''type'', JStr t), (''budget_tokens'', int_out b)]) (thinking_out src)])"

definition claude_from_src :: "request_in \<Rightarrow> string + json" where
  "claude_from_src src =
     bind_res (buildClaudeMessages (inMessages src)) (\<lambda>msgs.
       case claude_document src msgs of None \<Rightarrow> Inl ''claude: marshal FromOpenAI'' | Some d \<Rightarrow> Inr d)"

definition OpenAIToClaude :: "string \<Rightarrow> string res" where
  "OpenAIToClaude body =
     (case unmarshal decode_request body of
        None \<Rightarrow> Inl ''claude: invalid FromOpenAI body''
      | Some src \<Rightarrow> map_sum id print_raw (claude_from_src src))"

section \<open>Specifications\<close>

text \<open>The blocks of a history in their order.\<close>

fun source_blocks :: "message_in list \<Rightarrow> block list" where
  "source_blocks [] = []"
| "source_blocks (m # ms) =
     (if mRole m = ''system'' then []
      else case openaiMessageToBlocks m of Inr bls \<Rightarrow> bls | Inl _ \<Rightarrow> []) @ source_blocks ms"

definition results_message :: "out_message \<Rightarrow> bool" where
  "results_message x = (fst x = ''user'' \<and> list_all is_result (snd x))"

definition well_placed :: "out_message \<Rightarrow> bool" where
  "well_placed x = (snd x \<noteq> [] \<and> fst x \<in> {''user'', ''assistant''} \<and> (results_message x \<or> \<not> list_ex is_result (snd x)))"

fun apart :: "out_message list \<Rightarrow> bool" where
  "apart (x # y # xs) = (\<not> (results_message x \<and> results_message y) \<and> apart (y # xs))"
| "apart _ = True"

definition build_inv :: "building \<Rightarrow> bool" where
  "build_inv s =
     (list_all well_placed (bdOut s) \<and> apart (bdOut s) \<and> \<not> list_ex is_result (bdBlocks s) \<and>
      (bdBlocks s \<noteq> [] \<longrightarrow> bdRole s \<in> {''user'', ''assistant''}))"

definition built_blocks :: "building \<Rightarrow> block list" where
  "built_blocks s = concat (map snd (bdOut s)) @ bdBlocks s"

definition said_in :: "string \<Rightarrow> string \<Rightarrow> message_in" where
  "said_in role t = \<lparr>mRole = role, mContent = print_str t, mToolCallID = [], mToolCalls = []\<rparr>"

definition result_in :: "string \<Rightarrow> string \<Rightarrow> message_in" where
  "result_in i t = (said_in ''tool'' t)\<lparr>mToolCallID := i\<rparr>"

definition calling_in :: "string \<Rightarrow> string \<Rightarrow> string \<Rightarrow> message_in" where
  "calling_in i name args = \<lparr>mRole = ''assistant'', mContent = [], mToolCallID = [], mToolCalls = [\<lparr>tcID = i, tcName = name, tcArguments = args\<rparr>]\<rparr>"

definition sample_history :: "message_in list" where
  "sample_history = [said_in ''user'' ''hi'', calling_in ''a'' ''ls'' ''{}'', result_in ''a'' ''x'', result_in ''b'' ''y'', said_in ''user'' ''go'']"

definition sample_out :: "out_message list" where
  "sample_out = (case buildClaudeMessages sample_history of Inr out \<Rightarrow> out | Inl _ \<Rightarrow> [])"

section \<open>Tool results stand alone\<close>

lemma apart_snoc: "apart (xs @ [y]) \<longleftrightarrow> apart xs \<and> (xs \<noteq> [] \<longrightarrow> \<not> (results_message (last xs) \<and> results_message y))"
  by (induction xs rule: apart.induct) auto

lemma no_results_filter: "\<not> list_ex is_result bls \<Longrightarrow> filter is_result bls = [] \<and> filter (\<lambda>b. \<not> is_result b) bls = bls"
  by (induction bls) auto

lemma flush_inv:
  assumes "build_inv s"
  shows "build_inv (flush_message s)" "built_blocks (flush_message s) = built_blocks s" "bdBlocks (flush_message s) = []"
proof -
  have "\<not> results_message (bdRole s, bdBlocks s)" if "bdBlocks s \<noteq> []"
    using assms that by (cases "bdBlocks s") (auto simp: build_inv_def results_message_def)
  then show "build_inv (flush_message s)" "built_blocks (flush_message s) = built_blocks s" "bdBlocks (flush_message s) = []"
    using assms by (auto simp: build_inv_def flush_message_def built_blocks_def apart_snoc well_placed_def)
qed

lemma push_inv:
  assumes "list_all well_placed out" "apart out" "results \<noteq> []" "list_all is_result results"
  shows "list_all well_placed (pushOrMergeToolResults out results) \<and> apart (pushOrMergeToolResults out results) \<and>
    filter is_result (concat (map snd (pushOrMergeToolResults out results))) = filter is_result (concat (map snd out)) @ results \<and>
    filter (\<lambda>b. \<not> is_result b) (concat (map snd (pushOrMergeToolResults out results))) = filter (\<lambda>b. \<not> is_result b) (concat (map snd out))"
proof -
  have r: "filter is_result results = results" "filter (\<lambda>b. \<not> is_result b) results = []"
    using assms(4) by (auto simp: list_all_iff filter_empty_conv)
  have wp: "well_placed (''user'', xs @ results) \<and> results_message (''user'', xs @ results)" if "list_all is_result xs" for xs
    using that assms(3,4) by (simp add: well_placed_def results_message_def)
  show ?thesis
  proof (cases "out \<noteq> [] \<and> fst (last out) = ''user'' \<and> isAllToolResults (snd (last out))")
    case True
    then obtain ys xs where y: "out = ys @ [(''user'', xs)]" "list_all is_result xs"
      by (cases out rule: rev_cases) (auto simp: isAllToolResults_def)
    have "results_message (''user'', xs)" using y(2) by (simp add: results_message_def)
    then have "apart (ys @ [(''user'', xs @ results)])" using assms(2) y(1) wp [OF y(2)] by (auto simp: apart_snoc)
    moreover have "filter is_result xs = xs" "filter (\<lambda>b. \<not> is_result b) xs = []" using y(2) by (auto simp: list_all_iff filter_empty_conv)
    ultimately show ?thesis using assms(1) wp [OF y(2)] r y(2)
      by (simp add: pushOrMergeToolResults_def y(1) isAllToolResults_def)
  next
    case False
    have "\<not> results_message (last out)" if "out \<noteq> []" using False that by (auto simp: results_message_def isAllToolResults_def)
    then show ?thesis using False assms(1,2) wp [of "[]"] r by (auto simp: pushOrMergeToolResults_def apart_snoc)
  qed
qed

lemma add_blocks_inv:
  assumes "build_inv s" "role \<in> {''user'', ''assistant''}"
  shows "build_inv (add_blocks role bls s)"
    "filter is_result (built_blocks (add_blocks role bls s)) = filter is_result (built_blocks s) @ filter is_result bls"
    "filter (\<lambda>b. \<not> is_result b) (built_blocks (add_blocks role bls s)) = filter (\<lambda>b. \<not> is_result b) (built_blocks s @ bls)"
proof -
  note f = flush_inv [OF assms(1)]
  have "build_inv (add_blocks role bls s) \<and>
    filter is_result (built_blocks (add_blocks role bls s)) = filter is_result (built_blocks s) @ filter is_result bls \<and>
    filter (\<lambda>b. \<not> is_result b) (built_blocks (add_blocks role bls s)) = filter (\<lambda>b. \<not> is_result b) (built_blocks s @ bls)"
  proof (cases "list_ex is_result bls")
    case True
    let ?out = "bdOut (flush_message s)" and ?r = "filter is_result bls" and ?o = "filter (\<lambda>b. \<not> is_result b) bls"
    have r: "?r \<noteq> []" "list_all is_result ?r" "\<not> list_ex is_result ?o"
      using True by (auto simp: filter_empty_conv list_ex_iff list_all_iff)
    have p: "list_all well_placed ?out" "apart ?out" using f(1) by (simp_all add: build_inv_def)
    have b: "concat (map snd ?out) = built_blocks s" using f(2,3) by (simp add: built_blocks_def)
    show ?thesis using push_inv [OF p r(1,2)] r(3) assms(2) f(3) no_results_filter [OF r(3)]
      by (auto simp: add_blocks_def True Let_def build_inv_def built_blocks_def b [unfolded built_blocks_def])
  next
    case False
    define s1 where "s1 = (if bdRole s \<noteq> role then (flush_message s)\<lparr>bdRole := role\<rparr> else s)"
    have 1: "build_inv s1" "built_blocks s1 = built_blocks s" "bdRole s1 = role"
      using f assms by (auto simp: s1_def build_inv_def built_blocks_def)
    define s2 where "s2 = s1\<lparr>bdBlocks := bdBlocks s1 @ bls\<rparr>"
    have 2: "build_inv s2" "built_blocks s2 = built_blocks s @ bls"
      using 1 False assms(2) by (auto simp: s2_def build_inv_def built_blocks_def)
    have "add_blocks role bls s = (if list_ex (\<lambda>b. bType b = ''tool_use'') bls then flush_message s2 else s2)"
      using False by (simp add: add_blocks_def Let_def s1_def s2_def)
    then show ?thesis using flush_inv [OF 2(1)] 2 by simp
  qed
  then show "build_inv (add_blocks role bls s)"
    "filter is_result (built_blocks (add_blocks role bls s)) = filter is_result (built_blocks s) @ filter is_result bls"
    "filter (\<lambda>b. \<not> is_result b) (built_blocks (add_blocks role bls s)) = filter (\<lambda>b. \<not> is_result b) (built_blocks s @ bls)"
    by simp_all
qed

lemma known_role: "openaiMessageToBlocks m = Inr bls \<Longrightarrow> claude_role m \<in> {''user'', ''assistant''}"
  by (auto simp: openaiMessageToBlocks_def claude_role_def split: if_splits)

lemma add_messages_inv:
  assumes "build_inv s" "add_messages ms s = Inr t"
  shows "build_inv t \<and>
    filter is_result (built_blocks t) = filter is_result (built_blocks s @ source_blocks ms) \<and>
    filter (\<lambda>b. \<not> is_result b) (built_blocks t) = filter (\<lambda>b. \<not> is_result b) (built_blocks s @ source_blocks ms)"
  using assms
proof (induction ms arbitrary: s)
  case (Cons m ms)
  show ?case
  proof (cases "mRole m = ''system''")
    case True
    then show ?thesis using Cons by simp
  next
    case False
    then obtain bls where b: "openaiMessageToBlocks m = Inr bls" "add_messages ms (add_blocks (claude_role m) bls s) = Inr t"
      using Cons.prems(2) by (cases "openaiMessageToBlocks m") auto
    note a = add_blocks_inv [OF Cons.prems(1) known_role [OF b(1)], of bls]
    show ?thesis using Cons.IH [OF a(1) b(2)] a(2,3) False b(1) by simp
  qed
qed simp

text \<open>
  C12:
  In a history for Claude, tool results are never mixed with anything else: a message is a user message of
  nothing but results, or has none. All the results of a turn are in one such message, since two of them never
  follow each other; no message is empty; and every block of the history is there, results and other blocks
  each in their order.
\<close>

theorem claude_results_alone:
  assumes "buildClaudeMessages ms = Inr out"
  shows "list_all well_placed out \<and> apart out \<and>
    filter is_result (concat (map snd out)) = filter is_result (source_blocks ms) \<and>
    filter (\<lambda>b. \<not> is_result b) (concat (map snd out)) = filter (\<lambda>b. \<not> is_result b) (source_blocks ms)"
proof -
  let ?s = "\<lparr>bdOut = [], bdRole = [], bdBlocks = []\<rparr>"
  obtain t where t: "add_messages ms ?s = Inr t" "out = bdOut (flush_message t)"
    using assms by (cases "add_messages ms ?s") (auto simp: buildClaudeMessages_def)
  have "build_inv ?s" by (simp add: build_inv_def)
  note a = add_messages_inv [OF this t(1)]
  note f = flush_inv [OF conjunct1 [OF a]]
  have "concat (map snd out) = built_blocks t" using f(2,3) t(2) by (simp add: built_blocks_def)
  then show ?thesis using a f(1) t(2) by (simp add: build_inv_def built_blocks_def [of ?s])
qed

theorem claude_results_alone_witness:
  "list_all well_placed sample_out \<and> apart sample_out \<and>
    filter is_result (concat (map snd sample_out)) = filter is_result (source_blocks sample_history) \<and>
    filter (\<lambda>b. \<not> is_result b) (concat (map snd sample_out)) = filter (\<lambda>b. \<not> is_result b) (source_blocks sample_history)"
proof (rule claude_results_alone)
  have "case buildClaudeMessages sample_history of Inr x \<Rightarrow> True | Inl e \<Rightarrow> False" by code_simp
  then show "buildClaudeMessages sample_history = Inr sample_out" by (simp add: sample_out_def split: sum.splits)
qed

section \<open>What goes wrong\<close>

text \<open>The parts of a call with concatenated arguments get ids of their own, which the result of the call does not have.\<close>

theorem split_call_unanswered:
  "map (\<lambda>x. map (\<lambda>b. (bType b, bID b, bToolUseID b)) (snd x)) (case buildClaudeMessages [calling_in ''a'' ''sh'' ''{\"x\":1}{\"x\":2}'', result_in ''a'' ''ok''] of Inr out \<Rightarrow> out | Inl _ \<Rightarrow> []) =
   [[(''tool_use'', ''a_1'', []), (''tool_use'', ''a_2'', [])], [(''tool_result'', [], ''a'')]]"
  by code_simp

text \<open>A null stop becomes a stop sequence that is empty.\<close>

theorem null_stop_is_sequence: "mergeStop seqs ''null'' = [[]]"
proof -
  have "json_parse ''null'' = Some JNull" by code_simp
  then show ?thesis by (simp add: mergeStop_def unmarshal_def a_string_def)
qed

text \<open>A null thinking field becomes a thinking object without a type.\<close>

theorem null_thinking_is_object: "inThinkingRaw src = ''null'' \<Longrightarrow> thinking_out src = Some ([], 0)"
proof -
  have "unmarshal decode_thinking ''null'' = Some ([], 0)" by code_simp
  then show "inThinkingRaw src = ''null'' \<Longrightarrow> thinking_out src = Some ([], 0)" by (simp add: thinking_out_def)
qed

text \<open>The choice of no tool removes the tools and keeps a choice among them.\<close>

theorem no_tools_but_choice:
  assumes "inToolChoice src = print_str ''none''"
  shows "tools_out src = []" "convertOpenAIToolChoice (inToolChoice src) = JObj [(''type'', JStr ''auto'')]"
proof -
  have "unmarshal a_string (print_str ''none'') = Some ''none''" by code_simp
  then show "tools_out src = []" "convertOpenAIToolChoice (inToolChoice src) = JObj [(''type'', JStr ''auto'')]"
    by (simp_all add: tools_out_def isToolChoiceNone_def convertOpenAIToolChoice_def choice_out_def assms)
qed

end
