(* ===== verification/Proxy_Normalize.thy ===== *)
theory Proxy_Normalize
  imports Response_Writer Claude_From_OpenAI
begin

text \<open>
  Normalisation of upstream answers (internal/infrastructure/proxy): complete answers and streams of an
  OpenAI upstream, a Claude stream turned into an OpenAI one, and answers passed through with their token
  usage read on the side. What is written is a list of lines and documents; a write that fails ends a loop of
  the code and is not modelled, nor are the warnings in the log. A body is what could be read of it and how
  reading ended. The order in which Go visits a map is an argument.
\<close>

section \<open>Bodies and token counts\<close>

datatype body_end = AtEOF | ReadError string | Cancelled

record upstream_body =
  ubPieces :: "string list"
  ubEnd :: body_end

definition body_text :: "upstream_body \<Rightarrow> string" where
  "body_text b = concat (ubPieces b)"

record token_usage =
  tuPrompt :: int
  tuCompletion :: int
  tuTotal :: int

definition zero_usage :: token_usage where
  "zero_usage = \<lparr>tuPrompt = 0, tuCompletion = 0, tuTotal = 0\<rparr>"

definition extractUsageFromMap :: "json \<Rightarrow> token_usage" where
  "extractUsageFromMap u =
     (let p = given_count u ''input_tokens'' ''prompt_tokens''; c = given_count u ''output_tokens'' ''completion_tokens''
      in \<lparr>tuPrompt = p, tuCompletion = c, tuTotal = (if num_at u ''total_tokens'' = None then p + c else int_at u ''total_tokens'')\<rparr>)"

definition extractClaudeUsage :: "json \<Rightarrow> token_usage \<Rightarrow> token_usage" where
  "extractClaudeUsage m current =
     (let p = (if num_at m ''input_tokens'' = None then tuPrompt current else int_at m ''input_tokens'');
          c = (if num_at m ''output_tokens'' = None then tuCompletion current else int_at m ''output_tokens'')
      in \<lparr>tuPrompt = p, tuCompletion = c, tuTotal = p + c\<rparr>)"

text \<open>The text of a data line without its prefix and line end.\<close>

definition crlf :: string where
  "crlf = [CHR 0x0D, CHR 0x0A]"

definition payload_of :: "string \<Rightarrow> string" where
  "payload_of line = trim_end crlf (trim_prefix line ''data: '')"

definition claude_event_usage :: "json \<Rightarrow> token_usage \<Rightarrow> token_usage" where
  "claude_event_usage evt current =
     (let u = (if str_at evt ''type'' = ''message_start'' then Option.bind (obj_at evt ''message'') (\<lambda>m. obj_at m ''usage'')
               else if str_at evt ''type'' = ''message_delta'' then obj_at evt ''usage'' else None)
      in case u of None \<Rightarrow> current | Some m \<Rightarrow> extractClaudeUsage m current)"

definition extractClaudeUsageFromSSELine :: "string \<Rightarrow> token_usage \<Rightarrow> token_usage" where
  "extractClaudeUsageFromSSELine line current =
     (if \<not> has_prefix line ''data: '' then current
      else case unmarshal_map (payload_of line) of None \<Rightarrow> current | Some evt \<Rightarrow> claude_event_usage evt current)"

definition completed_usage :: "json \<Rightarrow> json option" where
  "completed_usage evt =
     (if str_at evt ''type'' \<noteq> ''response.completed'' then None
      else case obj_at evt ''response'' of Some r \<Rightarrow> obj_at r ''usage'' | None \<Rightarrow> obj_at evt ''usage'')"

definition extractUsageFromCompletedLine :: "string \<Rightarrow> token_usage option" where
  "extractUsageFromCompletedLine line =
     (let d = payload_of line
      in if \<not> has_prefix line ''data: '' \<or> take 1 d \<noteq> ''{'' \<or> \<not> contains d ''response.completed'' then None
         else map_option extractUsageFromMap (Option.bind (unmarshal_map d) completed_usage))"

text \<open>The typed counts of an OpenAI chunk: a member that is no integer makes the whole decoding fail.\<close>

definition count_field :: "string \<Rightarrow> json \<Rightarrow> int option" where
  "count_field name v = typed_field name (\<lambda>x. if x = JNull then Some 0 else an_int x) 0 v"

definition decode_usage :: "json \<Rightarrow> token_usage option" where
  "decode_usage = struct_value (\<lambda>v.
     also_field (also_field (also_field (also_field (also_field
       (Some (\<lambda>p c t i j.
          let p' = (if 0 < p then p else i); c' = (if 0 < c then c else j)
          in \<lparr>tuPrompt = p', tuCompletion = c', tuTotal = (if 0 < t then t else p' + c')\<rparr>))
       (count_field ''prompt_tokens'' v)) (count_field ''completion_tokens'' v)) (count_field ''total_tokens'' v))
       (count_field ''input_tokens'' v)) (count_field ''output_tokens'' v))"

definition extractUsageFromSSE :: "string \<Rightarrow> token_usage \<Rightarrow> token_usage" where
  "extractUsageFromSSE line current =
     (if \<not> has_prefix line ''data: '' \<or> payload_of line = ''[DONE]'' then current
      else case unmarshal (struct_value (typed_field ''usage'' (pointer decode_usage) None)) (payload_of line) of
             Some (Some u) \<Rightarrow> u
           | _ \<Rightarrow> current)"

section \<open>Changes in place\<close>

definition map_at :: "string \<Rightarrow> (json \<Rightarrow> json) \<Rightarrow> json \<Rightarrow> json" where
  "map_at k f v = (case jget v k of Some x \<Rightarrow> jset k (f x) v | None \<Rightarrow> v)"

definition in_object :: "(json \<Rightarrow> json) \<Rightarrow> json \<Rightarrow> json" where
  "in_object f v = (if is_obj v then f v else v)"

definition each_item :: "(json \<Rightarrow> json) \<Rightarrow> json \<Rightarrow> json" where
  "each_item f v = (case v of JArr xs \<Rightarrow> JArr (map (in_object f) xs) | _ \<Rightarrow> v)"

definition each_choice :: "(json \<Rightarrow> json) \<Rightarrow> json \<Rightarrow> json" where
  "each_choice f = map_at ''choices'' (each_item f)"

definition each_message :: "(json \<Rightarrow> json) \<Rightarrow> json \<Rightarrow> json" where
  "each_message f = each_choice (map_at ''message'' (in_object f))"

definition clean_value :: "json \<Rightarrow> json" where
  "clean_value v = (case v of JStr s \<Rightarrow> JStr (SanitizeAssistantText s) | _ \<Rightarrow> v)"

definition text_keys :: "string list" where
  "text_keys = [''content'', ''reasoning_content'', ''reasoning'']"

definition sanitizeDeltaText :: "json \<Rightarrow> json" where
  "sanitizeDeltaText d = fold (\<lambda>k. map_at k clean_value) text_keys d"

definition clean_text :: "json \<Rightarrow> json" where
  "clean_text v = (case v of JArr ps \<Rightarrow> each_item (map_at ''text'' clean_value) v | _ \<Rightarrow> clean_value v)"

definition sanitizeMessageText :: "json \<Rightarrow> json" where
  "sanitizeMessageText m = fold (\<lambda>k. map_at k clean_text) text_keys m"

definition syncReasoning :: "json \<Rightarrow> json" where
  "syncReasoning m =
     jdel ''reasoning_content''
       (case (jget m ''reasoning_content'', jget m ''reasoning'') of
          (Some rc, None) \<Rightarrow> jset ''reasoning'' rc m
        | (None, None) \<Rightarrow> jset ''reasoning'' JNull m
        | _ \<Rightarrow> m)"

definition sync_message :: "json \<Rightarrow> json" where
  "sync_message msg =
     (let m = syncReasoning (sanitizeMessageText msg)
      in if has_key m ''content'' \<or> has_key m ''tool_calls'' then m else jset ''content'' JNull m)"

definition syncMessageReasoning :: "json \<Rightarrow> json" where
  "syncMessageReasoning = each_message sync_message"

definition syncDeltaReasoning :: "json \<Rightarrow> json" where
  "syncDeltaReasoning = each_choice (map_at ''delta'' (in_object syncReasoning))"

section \<open>Complete answers (normalize\_json.go)\<close>

definition repaired_value :: "json \<Rightarrow> json" where
  "repaired_value v = (case v of JStr s \<Rightarrow> if s = [] then v else JStr (SanitizeToolArgs (repairToolArgs s)) | _ \<Rightarrow> v)"

definition each_call :: "(json \<Rightarrow> json) \<Rightarrow> json \<Rightarrow> json" where
  "each_call f = map_at ''tool_calls'' (each_item (map_at ''function'' (in_object f)))"

definition repairToolCallsJSON :: "json \<Rightarrow> json" where
  "repairToolCallsJSON = each_message (each_call (map_at ''arguments'' repaired_value))"

definition with_finish :: "json \<Rightarrow> json" where
  "with_finish c =
     (let called = (case obj_at c ''message'' of Some m \<Rightarrow> has_key m ''tool_calls'' | None \<Rightarrow> False)
      in if str_at c ''finish_reason'' \<noteq> [] then c
         else jset ''finish_reason'' (JStr (if called then ''tool_calls'' else ''stop'')) c)"

definition ensureFinishReason :: "json \<Rightarrow> json" where
  "ensureFinishReason = each_choice with_finish"

definition message_payload :: "json \<Rightarrow> bool" where
  "message_payload msg =
     (trim_space (str_at msg ''content'') \<noteq> [] \<or> items_at msg ''tool_calls'' \<noteq> [] \<or> str_at msg ''reasoning'' \<noteq> [])"

fun no_payload :: "json list \<Rightarrow> bool" where
  "no_payload [] = True"
| "no_payload (c # cs) =
     (case obj_at c ''message'' of None \<Rightarrow> True | Some msg \<Rightarrow> \<not> message_payload msg \<and> no_payload cs)"

definition isEmptyJSONCompletion :: "json \<Rightarrow> bool" where
  "isEmptyJSONCompletion resp = (\<not> has_key resp ''error'' \<and> no_payload (items_at resp ''choices''))"

definition unwrapped_data :: "json \<Rightarrow> json" where
  "unwrapped_data resp =
     (if has_key resp ''choices'' then resp
      else case obj_at resp ''data'' of Some d \<Rightarrow> if has_key d ''choices'' then d else resp | None \<Rightarrow> resp)"

definition normal_document :: "json \<Rightarrow> json" where
  "normal_document resp = ensureFinishReason (repairToolCallsJSON (syncMessageReasoning resp))"

text \<open>The first value of the body; what follows it is dropped.\<close>

definition first_object :: "string \<Rightarrow> json option" where
  "first_object body =
     (case parse_value (Suc (length body)) body of
        Some (v, r) \<Rightarrow> if is_obj v \<or> v = JNull then Some v else None
      | None \<Rightarrow> None)"

definition unread_answer :: string where
  "unread_answer = json_print (JObj [(''error'', JObj [(''type'', JStr ''upstream_error''), (''message'', JStr ''failed to read upstream response'')])])"

definition normalizeJSONWithMeta :: "string \<Rightarrow> string \<times> token_usage" where
  "normalizeJSONWithMeta body =
     (case first_object body of
        None \<Rightarrow> (body, zero_usage)
      | Some v \<Rightarrow>
          let resp = unwrapped_data v
          in (json_print (normal_document resp),
              case obj_at resp ''usage'' of Some u \<Rightarrow> extractUsageFromMap u | None \<Rightarrow> zero_usage))"

section \<open>OpenAI streams (normalize\_openai.go)\<close>

datatype sent = SentLine string | SentDoc json | SentDone

fun sent_text :: "sent \<Rightarrow> string" where
  "sent_text (SentLine s) = s"
| "sent_text (SentDoc d) = data_record d"
| "sent_text SentDone = done_record"

record norm_state =
  nsUsage :: token_usage
  nsArgs :: "(int, string) gomap"
  nsSeen :: "int list"
  nsID :: string
  nsModel :: string
  nsCreated :: int
  nsCaptured :: bool
  nsFlushed :: bool
  nsFinish :: bool
  nsPayload :: bool

definition norm_new :: norm_state where
  "norm_new = \<lparr>nsUsage = zero_usage, nsArgs = [], nsSeen = [], nsID = [], nsModel = [], nsCreated = 0, nsCaptured = False,
     nsFlushed = False, nsFinish = False, nsPayload = False\<rparr>"

definition buildOpenAIChunk :: "norm_state \<Rightarrow> json \<Rightarrow> json \<Rightarrow> json" where
  "buildOpenAIChunk s delta reason =
     JObj [(''id'', JStr (nsID s)), (''object'', JStr ''chat.completion.chunk''), (''created'', JNum (of_int (nsCreated s))),
       (''model'', JStr (nsModel s)),
       (''choices'', JArr [JObj [(''index'', JNum 0), (''delta'', delta), (''finish_reason'', reason)]])]"

definition repaired_chunk :: "norm_state \<Rightarrow> int \<Rightarrow> sent list" where
  "repaired_chunk s i =
     (if buffered i (nsArgs s) = [] then []
      else [SentDoc (buildOpenAIChunk s (JObj [(''tool_calls'', JArr [JObj [(''index'', JNum (of_int i)),
              (''function'', JObj [(''arguments'', JStr (SanitizeToolArgs (repairToolArgs (buffered i (nsArgs s)))))])]])]) JNull)])"

definition emitRepaired :: "visit_order \<Rightarrow> norm_state \<Rightarrow> sent list \<times> norm_state" where
  "emitRepaired ord s =
     (if nsFlushed s then ([], s)
      else (concat (map (repaired_chunk s) (visited ord 0 (nsSeen s))), s\<lparr>nsFlushed := True\<rparr>))"

definition final_reason :: "norm_state \<Rightarrow> json" where
  "final_reason s = JStr (if nsSeen s = [] then ''stop'' else ''tool_calls'')"

definition emitTerminalChunk :: "norm_state \<Rightarrow> json" where
  "emitTerminalChunk s = buildOpenAIChunk s (JObj []) (final_reason s)"

definition unfinished :: "norm_state \<Rightarrow> bool" where
  "unfinished s = (\<not> nsFinish s \<and> (nsCaptured s \<or> nsSeen s \<noteq> []))"

text \<open>The chunk that stands in for a missing finish before the end mark.\<close>

definition done_chunk :: "norm_state \<Rightarrow> json" where
  "done_chunk s =
     JObj ([(''choices'', JArr [JObj [(''index'', JNum 0), (''delta'', JObj []), (''finish_reason'', final_reason s)]])] @
       (if nsID s = [] then [] else [(''id'', JStr (nsID s))]) @ (if nsModel s = [] then [] else [(''model'', JStr (nsModel s))]) @
       (if nsCreated s = 0 then [] else [(''created'', JNum (of_int (nsCreated s)))]) @ [(''object'', JStr ''chat.completion.chunk'')])"

definition norm_done :: "visit_order \<Rightarrow> norm_state \<Rightarrow> sent list \<times> norm_state" where
  "norm_done ord s =
     (case emitRepaired ord s of (es, s1) \<Rightarrow> (es @ (if unfinished s then [SentDoc (done_chunk s)] else []) @ [SentDone], s1))"

definition capture :: "json \<Rightarrow> norm_state \<Rightarrow> norm_state" where
  "capture chunk s =
     (if nsCaptured s then s
      else s\<lparr>nsID := str_at chunk ''id'', nsModel := str_at chunk ''model'', nsCreated := int_at chunk ''created'', nsCaptured := True\<rparr>)"

definition buffer_call :: "json \<Rightarrow> norm_state \<Rightarrow> norm_state" where
  "buffer_call tc s =
     (let i = int_at tc ''index''; s1 = (if i \<in> set (nsSeen s) then s else s\<lparr>nsSeen := nsSeen s @ [i]\<rparr>);
          args = (case obj_at tc ''function'' of Some fn \<Rightarrow> str_at fn ''arguments'' | None \<Rightarrow> [])
      in if args = [] then s1 else s1\<lparr>nsArgs := mput i (buffered i (nsArgs s1) @ args) (nsArgs s1)\<rparr>)"

definition bufferToolArgs :: "json \<Rightarrow> norm_state \<Rightarrow> norm_state" where
  "bufferToolArgs d s = fold buffer_call (filter is_obj (items_at d ''tool_calls'')) s"

definition delta_payload :: "json \<Rightarrow> bool" where
  "delta_payload d =
     (str_at d ''content'' \<noteq> [] \<or> str_at d ''reasoning_content'' \<noteq> [] \<or> str_at d ''reasoning'' \<noteq> [] \<or> items_at d ''tool_calls'' \<noteq> [])"

definition clean_delta :: "json \<Rightarrow> json" where
  "clean_delta d = sanitizeDeltaText (each_call (jdel ''arguments'') d)"

definition first_item :: "(json \<Rightarrow> json) \<Rightarrow> json \<Rightarrow> json" where
  "first_item f v = (case v of JArr (x # xs) \<Rightarrow> JArr (f x # xs) | _ \<Rightarrow> v)"

definition first_delta :: "json \<Rightarrow> json option" where
  "first_delta chunk = Option.bind (first_choice chunk) (\<lambda>c. obj_at c ''delta'')"

definition clean_chunk :: "json \<Rightarrow> json" where
  "clean_chunk chunk =
     (if first_delta chunk = None then chunk
      else syncDeltaReasoning (map_at ''choices'' (first_item (map_at ''delta'' clean_delta)) chunk))"

definition finish_of :: "json \<Rightarrow> string" where
  "finish_of chunk = (case first_choice chunk of Some c \<Rightarrow> str_at c ''finish_reason'' | None \<Rightarrow> [])"

definition note_chunk :: "json \<Rightarrow> norm_state \<Rightarrow> norm_state" where
  "note_chunk chunk s =
     (let s1 = capture chunk s;
          s2 = (case first_delta chunk of None \<Rightarrow> s1 | Some d \<Rightarrow> bufferToolArgs d (s1\<lparr>nsPayload := (nsPayload s1 \<or> delta_payload d)\<rparr>))
      in if finish_of chunk = [] then s2 else s2\<lparr>nsFinish := True\<rparr>)"

definition norm_chunk :: "visit_order \<Rightarrow> json \<Rightarrow> norm_state \<Rightarrow> sent list \<times> norm_state" where
  "norm_chunk ord chunk s =
     (case (if finish_of chunk = [] then ([], note_chunk chunk s) else emitRepaired ord (note_chunk chunk s)) of
        (es, s1) \<Rightarrow> (es @ [SentDoc (clean_chunk chunk)], s1))"

definition note_usage :: "string \<Rightarrow> norm_state \<Rightarrow> norm_state" where
  "note_usage raw s = (if contains raw (quoted ''usage'') then s\<lparr>nsUsage := extractUsageFromSSE raw (nsUsage s)\<rparr> else s)"

definition norm_line :: "visit_order \<Rightarrow> string \<Rightarrow> norm_state \<Rightarrow> sent list \<times> norm_state" where
  "norm_line ord raw s0 =
     (let trimmed = trim_end crlf raw; data = line_data trimmed; s = note_usage raw s0
      in if trimmed = [] then ([], s0)
         else if \<not> has_prefix trimmed ''data: '' then ([SentLine raw], s)
         else if data = ''[DONE]'' then norm_done ord s
         else case unmarshal_map data of
                None \<Rightarrow> ([SentLine (''data: '' @ data @ nl @ nl)], s)
              | Some chunk \<Rightarrow> norm_chunk ord chunk s)"

fun norm_lines :: "visit_order \<Rightarrow> string list \<Rightarrow> norm_state \<Rightarrow> sent list \<times> norm_state" where
  "norm_lines ord [] s = ([], s)"
| "norm_lines ord (l # ls) s =
     (case norm_line ord l s of (es, s1) \<Rightarrow> case norm_lines ord ls s1 of (es', s2) \<Rightarrow> (es @ es', s2))"

text \<open>The lines that ReadString returns: a last line without a line break only at the end of the body.\<close>

definition body_lines :: "upstream_body \<Rightarrow> string list" where
  "body_lines b =
     (case feed nl [] (body_text b) of (ls, rest) \<Rightarrow>
        map (\<lambda>l. l @ nl) ls @ (if rest \<noteq> [] \<and> ubEnd b = AtEOF then [rest] else []))"

definition norm_end :: "visit_order \<Rightarrow> norm_state \<Rightarrow> sent list" where
  "norm_end ord s = (if unfinished s then fst (emitRepaired ord s) @ [SentDoc (emitTerminalChunk s)] else [])"

definition normalizeOpenAIStream :: "visit_order \<Rightarrow> upstream_body \<Rightarrow> sent list \<times> token_usage" where
  "normalizeOpenAIStream ord b =
     (case norm_lines ord (body_lines b) norm_new of (es, s) \<Rightarrow>
        (es @ (if ubEnd b = Cancelled then [] else norm_end ord s), nsUsage s))"

section \<open>Claude streams (normalize\_claude.go)\<close>

type_synonym claude_norm = "c2o_state \<times> token_usage \<times> bool"

definition claude_chunk_usage :: "json \<Rightarrow> token_usage \<Rightarrow> token_usage" where
  "claude_chunk_usage chunk current =
     (let t = str_at chunk ''type'';
          m = (if t = ''message_start'' then obj_at chunk ''message'' else if t = ''message_delta'' then obj_at chunk ''usage'' else None)
      in case m of None \<Rightarrow> current | Some u \<Rightarrow> extractClaudeUsage u current)"

definition claude_norm_line :: "claude_norm \<Rightarrow> string \<Rightarrow> string \<times> claude_norm" where
  "claude_norm_line st raw =
     (case st of (s, usage, stopped) \<Rightarrow>
        let line = trim_end crlf raw
        in if line = [] \<or> stopped \<or> \<not> has_prefix line ''data: '' then ([], st)
           else case unmarshal_map (line_data line) of
                  None \<Rightarrow> ([], st)
                | Some chunk \<Rightarrow>
                    (case records (c2o_ProcessChunk chunk s) of (out, s1) \<Rightarrow>
                       (out, s1, claude_chunk_usage chunk usage, str_at chunk ''type'' = ''message_stop'')))"

definition normalizeClaudeStream :: "writer_env \<Rightarrow> upstream_body \<Rightarrow> string \<times> token_usage" where
  "normalizeClaudeStream e b =
     (case steps claude_norm_line (NewClaudeToOpenAIState (envRnd e 0) (envNow e), zero_usage, False) (body_lines b) of
        (out, s, usage, stopped) \<Rightarrow> (out @ (if ubEnd b = Cancelled then [] else done_record), usage))"

section \<open>Answers passed through (normalize\_domain.go)\<close>

fun pass_pieces :: "(string \<Rightarrow> token_usage \<Rightarrow> token_usage) \<Rightarrow> string \<Rightarrow> token_usage \<Rightarrow> string list \<Rightarrow> string \<times> token_usage" where
  "pass_pieces f buf u [] = ([], u)"
| "pass_pieces f buf u (p # ps) =
     (case feed nl buf p of (ls, rest) \<Rightarrow>
      case pass_pieces f rest (fold f ls u) ps of (out, u1) \<Rightarrow> (p @ out, u1))"

definition completed_line :: "string \<Rightarrow> token_usage \<Rightarrow> token_usage" where
  "completed_line line u = (case extractUsageFromCompletedLine line of Some v \<Rightarrow> v | None \<Rightarrow> u)"

definition copyPassthroughStream :: "upstream_body \<Rightarrow> string \<times> token_usage" where
  "copyPassthroughStream b = pass_pieces completed_line [] zero_usage (ubPieces b)"

definition claude_usage_line :: "string \<Rightarrow> token_usage \<Rightarrow> token_usage" where
  "claude_usage_line line u = (if contains line (quoted ''usage'') then extractClaudeUsageFromSSELine line u else u)"

definition copyPassthroughClaudeStream :: "upstream_body \<Rightarrow> string \<times> token_usage" where
  "copyPassthroughClaudeStream b = pass_pieces claude_usage_line [] zero_usage (ubPieces b)"

definition copyPassthroughJSON :: "upstream_body \<Rightarrow> string \<times> token_usage" where
  "copyPassthroughJSON b =
     (if ubEnd b \<noteq> AtEOF then ([], zero_usage)
      else (body_text b,
            case Option.bind (unmarshal_map (body_text b)) (\<lambda>resp. obj_at resp ''usage'') of
              Some u \<Rightarrow> extractUsageFromMap u
            | None \<Rightarrow> zero_usage))"

definition isResponsesSSE :: "string \<Rightarrow> bool" where
  "isResponsesSSE text =
     (contains (take 512 text) ''event: response.'' \<or> contains (take 512 text) (quoted ''type'' @ '':'' @ dq # ''response.''))"

definition isAnthropicSSE :: "string \<Rightarrow> bool" where
  "isAnthropicSSE text = has_prefix text ''event:''"

definition isResponsesJSONBytes :: "string \<Rightarrow> token_usage option" where
  "isResponsesJSONBytes body =
     (case unmarshal (struct_value (\<lambda>v. map_option (\<lambda>t. (t, raw_field ''output'' v, raw_field ''usage'' v)) (string_field ''object'' v))) body of
        None \<Rightarrow> None
      | Some (typ, out, raw) \<Rightarrow>
          if typ \<noteq> ''response'' \<or> out = [] then None
          else Some (case (if raw = [] then None else unmarshal_map raw) of Some u \<Rightarrow> extractUsageFromMap u | None \<Rightarrow> zero_usage))"

definition maxNonStreamingBodySize :: nat where
  "maxNonStreamingBodySize = 10 * 2 ^ 20"

record domain_response =
  drHeader :: "(string, string list) gomap"
  drStatus :: nat
  drFormat :: string
  drBody :: upstream_body

definition header_first :: "string \<Rightarrow> (string, string list) gomap \<Rightarrow> string" where
  "header_first k h = (case map_of h k of Some (v # _) \<Rightarrow> v | _ \<Rightarrow> [])"

text \<open>What is written, the usage, and the error that is returned.\<close>

definition copyNormalizedDomain :: "writer_env \<Rightarrow> domain_response \<Rightarrow> string \<times> token_usage \<times> string option" where
  "copyNormalizedDomain e resp =
     (let b = drBody resp; text = body_text b; streaming = contains (header_first ''content-type'' (drHeader resp)) ''text/event-stream'';
          fine = (\<lambda>r :: string \<times> token_usage. (fst r, snd r, None));
          head = take (Suc maxNonStreamingBodySize) text
      in if drFormat resp = ''claude'' then fine (if streaming then copyPassthroughClaudeStream b else copyPassthroughJSON b)
         else if streaming
         then fine (if isResponsesSSE text then copyPassthroughStream b
                    else if isAnthropicSSE text then normalizeClaudeStream e b
                    else case normalizeOpenAIStream (envOrd e) b of (es, u) \<Rightarrow> (concat (map sent_text es), u))
         else case (if length text \<le> maxNonStreamingBodySize then ubEnd b else AtEOF) of
                AtEOF \<Rightarrow> (case isResponsesJSONBytes head of Some u \<Rightarrow> (head, u, None) | None \<Rightarrow> fine (normalizeJSONWithMeta head))
              | ReadError err \<Rightarrow> ([], zero_usage, Some err)
              | Cancelled \<Rightarrow> ([], zero_usage, Some ''context canceled''))"

definition hopByHopHeaders :: "string list" where
  "hopByHopHeaders = [''connection'', ''keep-alive'', ''proxy-authenticate'', ''proxy-authorization'', ''te'', ''trailer'',
     ''transfer-encoding'', ''upgrade'']"

text \<open>Header names are canonicalised by net/http: a map is keyed by the name in lower case.\<close>

definition add_values :: "string \<times> string list \<Rightarrow> (string, string list) gomap \<Rightarrow> (string, string list) gomap" where
  "add_values kv h =
     (case kv of (k, vs) \<Rightarrow>
        if to_lower k \<in> set hopByHopHeaders \<or> vs = [] then h
        else mput (to_lower k) ((case map_of h (to_lower k) of Some old \<Rightarrow> old | None \<Rightarrow> []) @ vs) h)"

definition CopyHeaders :: "(string, string list) gomap \<Rightarrow> (string, string list) gomap \<Rightarrow> (string, string list) gomap" where
  "CopyHeaders dst src = fold add_values src dst"

record client_answer =
  caHeader :: "(string, string list) gomap"
  caStatus :: nat
  caBody :: string

definition NormalizeDomainResponse :: "writer_env \<Rightarrow> (string, string list) gomap \<Rightarrow> domain_response \<Rightarrow> client_answer \<times> token_usage \<times> string option" where
  "NormalizeDomainResponse e own resp =
     (case copyNormalizedDomain e resp of (out, usage, err) \<Rightarrow>
        (\<lparr>caHeader = fold mdel [''x-fg-model'', ''x-fg-request-id'', ''content-length''] (CopyHeaders own (drHeader resp)),
          caStatus = drStatus resp, caBody = out\<rparr>, usage, err))"

definition truncateMessage :: "string \<Rightarrow> string" where
  "truncateMessage s = (if length s \<le> 300 then s else take 300 s @ [CHR 0xE2, CHR 0x80, CHR 0xA6])"

definition decode_error :: "json \<Rightarrow> (string \<times> string) option" where
  "decode_error = struct_value (\<lambda>v.
     also_field (also_field (Some Pair) (typed_field ''error'' (struct_value (string_field ''message'')) [] v)) (string_field ''message'' v))"

definition extractErrorMessage :: "string \<Rightarrow> string" where
  "extractErrorMessage body0 =
     (let body = trim_space body0;
          said = (case unmarshal decode_error body of Some (inner, outer) \<Rightarrow> if inner \<noteq> [] then inner else outer | None \<Rightarrow> [])
      in if body = [] then []
         else if said \<noteq> [] then truncateMessage said
         else if length body \<le> 512 then truncateMessage body else [])"

definition maxErrorBodySize :: nat where
  "maxErrorBodySize = 2 ^ 20"

definition PassThroughDomainError :: "(string, string list) gomap \<Rightarrow> domain_response \<Rightarrow> client_answer \<times> string" where
  "PassThroughDomainError own resp =
     (let body = take maxErrorBodySize (body_text (drBody resp))
      in (\<lparr>caHeader = mdel ''content-length'' (CopyHeaders own (drHeader resp)), caStatus = drStatus resp, caBody = body\<rparr>,
          extractErrorMessage body))"

section \<open>Specifications\<close>

definition finished :: "sent list \<Rightarrow> bool" where
  "finished es = (\<exists>d. SentDoc d \<in> set es \<and> finish_of d \<noteq> [])"

definition documents :: "sent list \<Rightarrow> bool" where
  "documents es = (\<exists>d. SentDoc d \<in> set es)"

text \<open>What a step keeps: calls are seen in captured chunks only, and a finish that was noted was sent.\<close>

definition norm_step_ok :: "norm_state \<Rightarrow> sent list \<Rightarrow> norm_state \<Rightarrow> bool" where
  "norm_step_ok s es s' =
     ((nsSeen s' \<noteq> [] \<longrightarrow> nsCaptured s') \<and> (nsCaptured s \<or> documents es \<longrightarrow> nsCaptured s') \<and> (nsFinish s' \<longrightarrow> nsFinish s \<or> finished es))"

definition cut_body :: upstream_body where
  "cut_body = \<lparr>ubPieces = [data_record (text_chunk ''hi'')], ubEnd = ReadError ''reset''\<rparr>"

definition call_text :: "json \<Rightarrow> string" where
  "call_text tc = (case obj_at tc ''function'' of Some fn \<Rightarrow> str_at fn ''arguments'' | None \<Rightarrow> [])"

text \<open>The arguments a document has for a call, and those that were sent for it.\<close>

definition doc_args :: "int \<Rightarrow> json \<Rightarrow> string list" where
  "doc_args i d =
     (case first_delta d of
        None \<Rightarrow> []
      | Some dl \<Rightarrow> filter (\<lambda>a. a \<noteq> []) (map call_text (filter (\<lambda>tc. is_obj tc \<and> int_at tc ''index'' = i) (items_at dl ''tool_calls''))))"

fun sent_args :: "int \<Rightarrow> sent \<Rightarrow> string list" where
  "sent_args i (SentDoc d) = doc_args i d"
| "sent_args i _ = []"

definition delivered :: "int \<Rightarrow> sent list \<Rightarrow> string list" where
  "delivered i es = concat (map (sent_args i) es)"

definition whole_args :: "int \<Rightarrow> json list \<Rightarrow> string" where
  "whole_args i docs = concat (map (\<lambda>d. concat (doc_args i d)) docs)"

definition repaired_args :: "string \<Rightarrow> string list" where
  "repaired_args a = (if a = [] then [] else [SanitizeToolArgs (repairToolArgs a)])"

definition seen_ok :: "norm_state \<Rightarrow> bool" where
  "seen_ok s = (distinct (nsSeen s) \<and> (\<forall>i. buffered i (nsArgs s) \<noteq> [] \<longrightarrow> i \<in> set (nsSeen s)))"

definition record_lines :: "json \<Rightarrow> string list" where
  "record_lines d = [''data: '' @ json_print d @ nl, nl]"

definition piece_chunk :: "int \<Rightarrow> string \<Rightarrow> json" where
  "piece_chunk i a =
     JObj [(''choices'', JArr [JObj [(''delta'', JObj [(''tool_calls'', JArr [JObj [(''index'', JNum (of_int i)), (''function'', JObj [(''arguments'', JStr a)])]])])]])]"

definition split_calls :: "json list" where
  "split_calls = [piece_chunk 0 ''{\"a\"'', piece_chunk 1 ''{\"b\":2}'', piece_chunk 0 '':1''  ]"

definition calls_body :: upstream_body where
  "calls_body = \<lparr>ubPieces = [concat (map data_record (split_calls @ [finish_chunk ''tool_calls''])) @ done_record], ubEnd = AtEOF\<rparr>"

definition stop_event :: json where
  "stop_event = JObj [(''type'', JStr ''message_stop'')]"

definition strict_args :: "string \<Rightarrow> bool" where
  "strict_args a = (a = [] \<or> (case json_parse a of None \<Rightarrow> False | Some w \<Rightarrow> \<not> (is_obj w \<and> sigil_inside w)))"

definition strict_message :: "json \<Rightarrow> bool" where
  "strict_message m =
     (\<not> has_key m ''reasoning_content'' \<and> has_key m ''reasoning'' \<and> (has_key m ''content'' \<or> has_key m ''tool_calls'') \<and>
      list_all (\<lambda>tc. strict_args (call_text tc)) (filter is_obj (items_at m ''tool_calls'')))"

definition strict_choice :: "json \<Rightarrow> bool" where
  "strict_choice c =
     (str_at c ''finish_reason'' \<noteq> [] \<and> (case obj_at c ''message'' of None \<Rightarrow> True | Some m \<Rightarrow> strict_message m))"

definition done_choice :: "json \<Rightarrow> json" where
  "done_choice c =
     with_finish (map_at ''message'' (in_object (each_call (map_at ''arguments'' repaired_value))) (map_at ''message'' (in_object sync_message) c))"

definition framed_answer :: string where
  "framed_answer = ''{\"data\":{\"choices\":[{\"message\":{\"reasoning_content\":\"r\"}}]}} trailing''"

section \<open>Bytes that pass\<close>

lemma feed_nl: "feed nl buf (p @ q) = (case feed nl buf p of (ls, r) \<Rightarrow> case feed nl r q of (ls', r') \<Rightarrow> (ls @ ls', r'))"
  by (cases "feed nl buf p") (simp add: feed_append)

lemma pass_pieces_whole:
  "pass_pieces f buf u (p # ps) = (p @ concat ps, fold f (fst (feed nl buf (p @ concat ps))) u)"
proof (induction ps arbitrary: buf u p)
  case (Cons q ps)
  then show ?case by (simp add: feed_nl [of buf p] case_prod_unfold del: feed_def)
qed (simp add: case_prod_unfold)

text \<open>
  An answer in Claude's format reaches the client byte for byte, whether it is a stream or not, unless reading
  it fails; and the token usage that is read on the side of a stream does not depend on how it arrived in pieces.
\<close>

theorem claude_answer_passes:
  assumes "drFormat resp = ''claude''" "ubEnd (drBody resp) = AtEOF" "ubPieces (drBody resp) \<noteq> []"
  shows "caBody (fst (NormalizeDomainResponse e own resp)) = body_text (drBody resp) \<and>
    NormalizeDomainResponse e own (resp\<lparr>drBody := (drBody resp)\<lparr>ubPieces := [body_text (drBody resp)]\<rparr>\<rparr>) = NormalizeDomainResponse e own resp"
proof -
  obtain p ps where p: "ubPieces (drBody resp) = p # ps" using assms(3) by (cases "ubPieces (drBody resp)") auto
  note d = NormalizeDomainResponse_def copyNormalizedDomain_def Let_def copyPassthroughClaudeStream_def copyPassthroughJSON_def body_text_def
  show ?thesis using assms by (simp add: d p pass_pieces_whole case_prod_unfold del: pass_pieces.simps)
qed

theorem claude_answer_passes_witness:
  "\<forall>e own. caBody (fst (NormalizeDomainResponse e own \<lparr>drHeader = [], drStatus = 200, drFormat = ''claude'', drBody = \<lparr>ubPieces = [''{'', ''}''], ubEnd = AtEOF\<rparr>\<rparr>)) = ''{}''"
  using claude_answer_passes [of "\<lparr>drHeader = [], drStatus = 200, drFormat = ''claude'', drBody = \<lparr>ubPieces = [''{'', ''}''], ubEnd = AtEOF\<rparr>\<rparr>"]
  by (simp add: body_text_def)

section \<open>A finish for every client\<close>

lemma map_at_other: "k' \<noteq> k \<Longrightarrow> jget (map_at k f v) k' = jget v k'"
  by (cases "jget v k") (auto simp: map_at_def jget_jset jget_is_obj)

lemma map_at_same: "jget (map_at k f v) k = map_option f (jget v k)"
  by (cases "jget v k") (auto simp: map_at_def jget_jset jget_is_obj)

lemma first_choice_get:
  "first_choice v = (case jget v ''choices'' of Some (JArr (x # xs)) \<Rightarrow> if is_obj x then Some x else None | _ \<Rightarrow> None)"
proof (cases "jget v ''choices''")
  case (Some a)
  show ?thesis
  proof (cases a)
    case (JArr xs)
    show ?thesis
    proof (cases xs)
      case (Cons y ys)
      then show ?thesis using Some JArr by (cases y) (simp_all add: first_choice_def arr_at_def)
    qed (simp add: first_choice_def arr_at_def Some JArr)
  qed (simp_all add: first_choice_def arr_at_def Some)
qed (simp add: first_choice_def arr_at_def)

lemma first_choice_at:
  "first_choice (map_at ''choices'' (first_item (map_at k f)) v) = map_option (map_at k f) (first_choice v)"
  "first_choice (each_choice (map_at k f) v) = map_option (map_at k f) (first_choice v)"
proof -
  have o: "is_obj (map_at k f x) = is_obj x" for x by (simp add: map_at_def split: option.splits)
  have n: "\<not> is_obj x \<Longrightarrow> map_at k f x = x" for x by (cases x) (simp_all add: map_at_def)
  show "first_choice (map_at ''choices'' (first_item (map_at k f)) v) = map_option (map_at k f) (first_choice v)"
    by (simp add: first_choice_get map_at_same first_item_def o split: option.split json.split list.split)
  show "first_choice (each_choice (map_at k f) v) = map_option (map_at k f) (first_choice v)"
    by (simp add: first_choice_get each_choice_def map_at_same each_item_def in_object_def o split: option.split json.split list.split)
qed

lemma is_obj_map_at [simp]: "is_obj (map_at k f v) = is_obj v"
  by (simp add: map_at_def split: option.splits)

lemma finish_clean [simp]: "finish_of (clean_chunk chunk) = finish_of chunk"
  by (simp add: finish_of_def clean_chunk_def syncDeltaReasoning_def first_choice_at str_at_def map_at_other map_option_case
      split: option.splits)

lemma finished_simps [simp]:
  "finished (xs @ ys) = (finished xs \<or> finished ys)" "\<not> finished []" "finished (SentDoc d # xs) = (finish_of d \<noteq> [] \<or> finished xs)"
  "finished (SentLine l # xs) = finished xs" "finished (SentDone # xs) = finished xs"
  "documents (xs @ ys) = (documents xs \<or> documents ys)" "\<not> documents []" "documents (SentDoc d # xs)"
  "documents (SentLine l # xs) = documents xs" "documents (SentDone # xs) = documents xs"
  by (auto simp: finished_def documents_def)

lemma finish_built [simp]: "finish_of (buildOpenAIChunk s delta reason) = (case reason of JStr t \<Rightarrow> t | _ \<Rightarrow> [])"
  by (simp add: finish_of_def first_choice_def arr_at_def buildOpenAIChunk_def str_at_def)

lemma final_reason_text: "final_reason s = JStr r \<Longrightarrow> r \<noteq> []"
  by (auto simp: final_reason_def split: if_splits)

lemma finish_terminal: "finish_of (emitTerminalChunk s) \<noteq> []" "finish_of (done_chunk s) \<noteq> []"
proof -
  show "finish_of (emitTerminalChunk s) \<noteq> []" by (simp add: emitTerminalChunk_def final_reason_def)
  show "finish_of (done_chunk s) \<noteq> []"
    by (simp add: final_reason_def finish_of_def first_choice_def arr_at_def done_chunk_def str_at_def)
qed

lemma emitted_ok:
  assumes "nsSeen s \<noteq> [] \<longrightarrow> nsCaptured s" "emitRepaired ord s = (es, s')" "go_order ord"
  shows "nsSeen s' = nsSeen s \<and> nsCaptured s' = nsCaptured s \<and> nsFinish s' = nsFinish s \<and> (documents es \<longrightarrow> nsCaptured s)"
proof -
  have v: "visited ord 0 ([] :: int list) = []" by (rule visited_none [OF assms(3)])
  have "es = (if nsFlushed s then [] else concat (map (repaired_chunk s) (visited ord 0 (nsSeen s))))"
    using assms(2) by (auto simp: emitRepaired_def split: if_splits)
  then have "nsSeen s = [] \<Longrightarrow> es = []" using v by simp
  then have "documents es \<longrightarrow> nsCaptured s" using assms(1) by auto
  then show ?thesis using assms(2) by (auto simp: emitRepaired_def split: if_splits)
qed

lemma note_state:
  "nsCaptured (note_chunk chunk s)" "nsFinish (note_chunk chunk s) = (nsFinish s \<or> finish_of chunk \<noteq> [])"
proof -
  have b: "nsCaptured (buffer_call tc t) = nsCaptured t" "nsFinish (buffer_call tc t) = nsFinish t" for tc t
    by (simp_all add: buffer_call_def Let_def)
  have f: "nsCaptured (fold buffer_call tcs t) = nsCaptured t" "nsFinish (fold buffer_call tcs t) = nsFinish t" for tcs t
    by (induction tcs arbitrary: t) (simp_all add: b)
  show "nsCaptured (note_chunk chunk s)" "nsFinish (note_chunk chunk s) = (nsFinish s \<or> finish_of chunk \<noteq> [])"
    by (auto simp: note_chunk_def bufferToolArgs_def f capture_def Let_def split: option.splits)
qed

lemma norm_chunk_ok:
  assumes "go_order ord" "norm_chunk ord chunk s = (es, s')"
  shows "norm_step_ok s es s'"
proof -
  obtain es1 where e: "es = es1 @ [SentDoc (clean_chunk chunk)]"
    "(if finish_of chunk = [] then ([], note_chunk chunk s) else emitRepaired ord (note_chunk chunk s)) = (es1, s')"
    using assms(2) by (auto simp: norm_chunk_def split: prod.splits)
  have "nsCaptured s' \<and> nsFinish s' = (nsFinish s \<or> finish_of chunk \<noteq> [])"
    using e(2) emitted_ok [of "note_chunk chunk s" ord es1 s'] assms(1) note_state [of chunk s] by (auto split: if_splits)
  then show ?thesis by (auto simp: norm_step_ok_def e(1))
qed

lemma norm_line_ok:
  assumes "go_order ord" "norm_line ord raw s = (es, s')" "nsSeen s \<noteq> [] \<longrightarrow> nsCaptured s"
  shows "norm_step_ok s es s'"
proof -
  let ?s = "note_usage raw s"
  have n: "nsSeen ?s = nsSeen s" "nsCaptured ?s = nsCaptured s" "nsFinish ?s = nsFinish s" by (simp_all add: note_usage_def)
  consider "es = []" "s' = s" | l where "es = [SentLine l]" "s' = ?s" | "norm_done ord ?s = (es, s')"
    | chunk where "norm_chunk ord chunk ?s = (es, s')"
  proof (cases "trim_end crlf raw = []")
    case True
    then show ?thesis using that(1) assms(2) by (simp add: norm_line_def)
  next
    case f1: False
    show ?thesis
    proof (cases "has_prefix (trim_end crlf raw) ''data: ''")
      case True
      then show ?thesis using that f1 assms(2)
        by (cases "line_data (trim_end crlf raw) = ''[DONE]''"; cases "unmarshal_map (line_data (trim_end crlf raw))")
          (auto simp: norm_line_def Let_def)
    next
      case False
      then show ?thesis using that(2) f1 assms(2) by (auto simp: norm_line_def Let_def)
    qed
  qed
  then show ?thesis
  proof cases
    case 3
    then obtain es1 where e: "emitRepaired ord ?s = (es1, s')" "es = es1 @ (if unfinished ?s then [SentDoc (done_chunk ?s)] else []) @ [SentDone]"
      by (auto simp: norm_done_def split: prod.splits)
    show ?thesis using emitted_ok [OF _ e(1) assms(1)] assms(3) e(2) by (auto simp: norm_step_ok_def n unfinished_def)
  next
    case 4
    then show ?thesis using norm_chunk_ok [OF assms(1) 4] by (simp add: norm_step_ok_def n)
  qed (use assms(3) in \<open>auto simp: norm_step_ok_def n\<close>)
qed

lemma norm_lines_ok:
  assumes "go_order ord" "norm_lines ord ls s = (es, s')" "nsSeen s \<noteq> [] \<longrightarrow> nsCaptured s"
  shows "norm_step_ok s es s'"
  using assms(2,3)
proof (induction ls arbitrary: s es)
  case (Cons l ls)
  obtain es1 s1 es2 where e: "norm_line ord l s = (es1, s1)" "norm_lines ord ls s1 = (es2, s')" "es = es1 @ es2"
    using Cons(2) by (auto split: prod.splits)
  have 1: "norm_step_ok s es1 s1" by (rule norm_line_ok [OF assms(1) e(1) Cons(3)])
  then have "norm_step_ok s1 es2 s'" using Cons(1) [OF e(2)] by (simp add: norm_step_ok_def)
  with 1 show ?case by (auto simp: norm_step_ok_def e(3))
qed (auto simp: norm_step_ok_def)

text \<open>
  C16:
  A client that receives a document of a normalised stream also receives a finish reason, whatever the upstream
  sent: broken lines, a stream that was cut, null reasons, an end mark without a finish. Only a request that was
  cancelled goes without.
\<close>

theorem normalized_stream_finishes:
  assumes "go_order ord" "ubEnd b \<noteq> Cancelled" "documents (fst (normalizeOpenAIStream ord b))"
  shows "finished (fst (normalizeOpenAIStream ord b))"
proof -
  obtain es s where e: "norm_lines ord (body_lines b) norm_new = (es, s)" by (cases "norm_lines ord (body_lines b) norm_new")
  have ok: "norm_step_ok norm_new es s" by (rule norm_lines_ok [OF assms(1) e]) (simp add: norm_new_def)
  have out: "fst (normalizeOpenAIStream ord b) = es @ norm_end ord s" using e assms(2) by (simp add: normalizeOpenAIStream_def)
  show ?thesis
  proof (cases "unfinished s")
    case True
    then show ?thesis by (simp add: out norm_end_def finish_terminal)
  next
    case False
    then have "documents es" using assms(3) by (simp add: out norm_end_def)
    then have "nsFinish s" using False ok by (auto simp: unfinished_def norm_step_ok_def)
    then show ?thesis using ok by (simp add: out norm_step_ok_def norm_new_def)
  qed
qed

theorem normalized_stream_finishes_witness: "finished (fst (normalizeOpenAIStream (\<lambda>k n. [0..<n]) cut_body))"
proof (rule normalized_stream_finishes)
  show "go_order (\<lambda>k n. [0..<n])" by (simp add: go_order_def)
  show "ubEnd cut_body \<noteq> Cancelled" by (simp add: cut_body_def)
  have "list_ex (\<lambda>x. case x of SentDoc d \<Rightarrow> True | _ \<Rightarrow> False) (fst (normalizeOpenAIStream (\<lambda>k n. [0..<n]) cut_body))" by code_simp
  then show "documents (fst (normalizeOpenAIStream (\<lambda>k n. [0..<n]) cut_body))"
    unfolding documents_def list_ex_iff by (metis (no_types, lifting) sent.case sent.exhaust)
qed

section \<open>Arguments that arrive once\<close>

lemma buffered_mput: "buffered i (mput j x m) = (if i = j then x else buffered i m)"
  by (simp add: buffered_def)

lemma buffer_call_state:
  "buffered i (nsArgs (buffer_call tc s)) = buffered i (nsArgs s) @ (if int_at tc ''index'' = i then call_text tc else [])"
  "seen_ok s \<Longrightarrow> seen_ok (buffer_call tc s)" "nsFlushed (buffer_call tc s) = nsFlushed s"
  by (auto simp: buffer_call_def call_text_def Let_def buffered_mput seen_ok_def)

lemma buffer_calls_state:
  "buffered i (nsArgs (fold buffer_call tcs s)) = buffered i (nsArgs s) @ concat (map call_text (filter (\<lambda>tc. int_at tc ''index'' = i) tcs))"
  "seen_ok s \<Longrightarrow> seen_ok (fold buffer_call tcs s)" "nsFlushed (fold buffer_call tcs s) = nsFlushed s"
  by (induction tcs arbitrary: s) (simp_all add: buffer_call_state)

lemma concat_filter_empty: "concat (filter (\<lambda>a. a \<noteq> []) xs) = concat xs"
  by (induction xs) auto

lemma note_chunk_args:
  "buffered i (nsArgs (note_chunk chunk s)) = buffered i (nsArgs s) @ concat (doc_args i chunk)"
  "seen_ok s \<Longrightarrow> seen_ok (note_chunk chunk s)" "nsFlushed (note_chunk chunk s) = nsFlushed s"
proof -
  have c: "nsArgs (capture chunk s) = nsArgs s" "nsSeen (capture chunk s) = nsSeen s" "nsFlushed (capture chunk s) = nsFlushed s"
    by (simp_all add: capture_def)
  have f: "filter (\<lambda>tc. int_at tc ''index'' = i) (filter is_obj xs) = filter (\<lambda>tc. is_obj tc \<and> int_at tc ''index'' = i) xs" for xs
    by (auto intro: filter_cong)
  show "buffered i (nsArgs (note_chunk chunk s)) = buffered i (nsArgs s) @ concat (doc_args i chunk)"
    by (simp add: note_chunk_def Let_def c bufferToolArgs_def buffer_calls_state doc_args_def concat_filter_empty f split: option.split)
  show "nsFlushed (note_chunk chunk s) = nsFlushed s"
    by (simp add: note_chunk_def Let_def c bufferToolArgs_def buffer_calls_state split: option.split)
  assume "seen_ok s"
  then have "seen_ok (capture chunk s)" "seen_ok ((capture chunk s)\<lparr>nsPayload := p\<rparr>)" for p by (simp_all add: seen_ok_def c)
  then show "seen_ok (note_chunk chunk s)"
    using buffer_calls_state(2) by (auto simp: note_chunk_def Let_def bufferToolArgs_def seen_ok_def split: option.split)
qed

lemma items_at_map: "items_at (map_at k (each_item f) v) k = map (in_object f) (items_at v k)"
  by (auto simp: items_at_def arr_at_def map_at_same each_item_def split: option.splits json.splits)

lemma items_at_other: "k' \<noteq> k \<Longrightarrow> items_at (map_at k f v) k' = items_at v k'"
  by (simp add: items_at_def arr_at_def map_at_other)

lemma obj_at_get: "obj_at v k = (case jget v k of Some x \<Rightarrow> if is_obj x then Some x else None | None \<Rightarrow> None)"
proof (cases "jget v k")
  case (Some x)
  then show ?thesis by (cases x) (simp_all add: obj_at_def)
qed (simp add: obj_at_def)

lemma is_obj_cleaners [simp]:
  "is_obj (sanitizeDeltaText d) = is_obj d" "is_obj (each_call f d) = is_obj d" "is_obj (clean_delta d) = is_obj d"
  "is_obj (syncReasoning d) = is_obj d"
  by (simp_all add: sanitizeDeltaText_def text_keys_def each_call_def clean_delta_def syncReasoning_def split: option.splits)

lemma first_delta_clean:
  "first_delta (clean_chunk chunk) = map_option (\<lambda>d. syncReasoning (clean_delta d)) (first_delta chunk)"
proof (cases "first_delta chunk")
  case None
  then show ?thesis by (simp add: clean_chunk_def)
next
  case (Some d)
  then obtain c where c: "first_choice chunk = Some c" "obj_at c ''delta'' = Some d" by (auto simp: first_delta_def split: Option.bind_splits)
  have d: "is_obj d" "jget c ''delta'' = Some d" using c(2) by (auto simp: obj_at_get split: option.splits if_splits)
  have "obj_at (map_at ''delta'' (in_object syncReasoning) (map_at ''delta'' clean_delta c)) ''delta'' = Some (syncReasoning (clean_delta d))"
    using d by (simp add: obj_at_get map_at_same in_object_def)
  then show ?thesis using Some c(1) by (simp add: clean_chunk_def first_delta_def syncDeltaReasoning_def first_choice_at)
qed

lemma items_at_sync: "items_at (syncReasoning d) ''tool_calls'' = items_at d ''tool_calls''"
  by (cases d) (auto simp: items_at_def arr_at_def syncReasoning_def jget_jdel jget_jset split: option.splits)

lemma no_args_left: "call_text (map_at ''function'' (in_object (jdel ''arguments'')) tc) = []"
  by (cases "jget tc ''function''") (simp_all add: call_text_def obj_at_get map_at_same in_object_def str_at_def jget_jdel)

lemma doc_args_clean: "doc_args i (clean_chunk chunk) = []"
proof -
  let ?f = "map_at ''function'' (in_object (jdel ''arguments''))"
  have o: "is_obj (in_object ?f x) = is_obj x" for x by (simp add: in_object_def)
  have "items_at (syncReasoning (clean_delta d)) ''tool_calls'' = map (in_object ?f) (items_at d ''tool_calls'')" for d
    by (simp add: items_at_sync clean_delta_def sanitizeDeltaText_def text_keys_def items_at_other each_call_def items_at_map)
  moreover have "call_text (in_object ?f x) = []" if "is_obj x" for x using that no_args_left by (simp add: in_object_def)
  ultimately show ?thesis
    by (auto simp: doc_args_def first_delta_clean filter_empty_conv o split: option.splits)
qed

lemma args_not_empty: "SanitizeToolArgs (repairToolArgs a) \<noteq> []"
proof -
  obtain v where "wf_json v" "repairToolArgs a = json_print v" using repair_printed by blast
  then have "json_parse (SanitizeToolArgs (repairToolArgs a)) \<noteq> None" using sanitize_printed [of v] by auto
  moreover have "json_parse [] = None" by code_simp
  ultimately show ?thesis by metis
qed

lemma doc_args_built:
  "concat (map (sent_args i) (repaired_chunk s j)) = (if i = j then repaired_args (buffered j (nsArgs s)) else [])"
proof (cases "buffered j (nsArgs s) = []")
  case False
  have t: "trunc_num (of_int j) = j" by (simp add: trunc_num_def)
  show ?thesis using False args_not_empty
    by (simp add: repaired_chunk_def repaired_args_def doc_args_def first_delta_def first_choice_def arr_at_def buildOpenAIChunk_def
        obj_at_def items_at_def int_at_def num_at_def call_text_def str_at_def t)
qed (simp add: repaired_chunk_def repaired_args_def)

lemma visited_perm: "go_order ord \<Longrightarrow> mset (visited ord k xs) = mset xs"
proof -
  assume "go_order ord"
  then have "mset (ord k (length xs)) = mset [0..<length xs]" by (simp add: go_order_def)
  then have "image_mset ((!) xs) (mset (ord k (length xs))) = image_mset ((!) xs) (mset [0..<length xs])" by simp
  then show ?thesis by (metis map_nth mset_map visited_def)
qed

lemma concat_one: "distinct xs \<Longrightarrow> concat (map (\<lambda>j. if i = j then f j else []) xs) = (if i \<in> set xs then f i else [])"
  by (induction xs) auto

lemma emitted_args:
  assumes "go_order ord" "seen_ok s" "\<not> nsFlushed s"
  shows "delivered i (fst (emitRepaired ord s)) = repaired_args (buffered i (nsArgs s))"
proof -
  let ?v = "visited ord 0 (nsSeen s)"
  have m: "mset ?v = mset (nsSeen s)" by (rule visited_perm [OF assms(1)])
  then have v: "distinct ?v" "set ?v = set (nsSeen s)"
    using assms(2) by (auto simp: seen_ok_def dest: mset_eq_setD) (metis mset_eq_imp_distinct_iff)
  have c: "concat (map (sent_args i) (concat (map f xs))) = concat (map (\<lambda>j. concat (map (sent_args i) (f j))) xs)" for f xs
    by (induction xs) auto
  have "delivered i (fst (emitRepaired ord s)) = concat (map (\<lambda>j. concat (map (sent_args i) (repaired_chunk s j))) ?v)"
    using assms(3) by (simp add: delivered_def emitRepaired_def c)
  also have "\<dots> = (if i \<in> set ?v then repaired_args (buffered i (nsArgs s)) else [])"
    by (simp only: doc_args_built concat_one [OF v(1)])
  also have "\<dots> = repaired_args (buffered i (nsArgs s))"
    using assms(2) v(2) by (auto simp: seen_ok_def repaired_args_def)
  finally show ?thesis .
qed

lemma first_choice_canon:
  assumes "wf_json d"
  shows "first_choice (canon d) = map_option canon (first_choice d)" "first_choice d = Some c \<Longrightarrow> wf_json c"
proof -
  show "first_choice (canon d) = map_option canon (first_choice d)"
  proof (cases "jget d ''choices''")
    case (Some a)
    then show ?thesis by (cases a) (auto simp: first_choice_get jget_canon [OF assms] split: list.split)
  qed (simp add: first_choice_get jget_canon [OF assms])
  assume "first_choice d = Some c"
  then obtain cs where "jget d ''choices'' = Some (JArr (c # cs))"
    by (auto simp: first_choice_get split: option.splits json.splits list.splits if_splits)
  then show "wf_json c" using wf_json_jget [OF assms] by fastforce
qed

lemma finish_canon: "wf_json d \<Longrightarrow> finish_of (canon d) = finish_of d"
  using first_choice_canon by (cases "first_choice d") (simp_all add: finish_of_def str_at_canon)

lemma int_at_canon: "wf_json v \<Longrightarrow> int_at (canon v) k = int_at v k"
  by (simp add: int_at_def num_at_canon)

lemma call_text_canon: "wf_json tc \<Longrightarrow> call_text (canon tc) = call_text tc"
proof (cases "obj_at tc ''function''")
  case (Some fn)
  assume w: "wf_json tc"
  then have "wf_json fn" using Some by (auto simp: obj_at_get split: option.splits if_splits intro: wf_json_jget)
  then show ?thesis using Some w by (simp add: call_text_def obj_at_canon str_at_canon)
qed (simp add: call_text_def obj_at_canon)

lemma doc_args_canon:
  assumes "wf_json d"
  shows "doc_args i (canon d) = doc_args i d"
proof (cases "first_delta d")
  case None
  then show ?thesis using first_choice_canon [OF assms]
    by (cases "first_choice d") (auto simp: doc_args_def first_delta_def obj_at_canon)
next
  case (Some dl)
  then obtain c where c: "first_choice d = Some c" "obj_at c ''delta'' = Some dl" by (auto simp: first_delta_def split: Option.bind_splits)
  have w: "wf_json c" using first_choice_canon(2) [OF assms c(1)] .
  then have wd: "wf_json dl" using c(2) by (auto simp: obj_at_get split: option.splits if_splits intro: wf_json_jget)
  have items: "items_at (canon dl) ''tool_calls'' = map canon (items_at dl ''tool_calls'')"
    by (simp add: items_at_def arr_at_canon [OF wd] split: option.split)
  have wt: "wf_json tc" if "tc \<in> set (items_at dl ''tool_calls'')" for tc using that wf_items_at [OF wd] by simp
  have "filter (\<lambda>tc. is_obj tc \<and> int_at tc ''index'' = i) (map canon (items_at dl ''tool_calls'')) =
      map canon (filter (\<lambda>tc. is_obj tc \<and> int_at tc ''index'' = i) (items_at dl ''tool_calls''))"
    using wt by (auto simp: filter_map comp_def int_at_canon intro!: arg_cong [of _ _ "map canon"] filter_cong)
  moreover have "map call_text (map canon (filter P (items_at dl ''tool_calls''))) = map call_text (filter P (items_at dl ''tool_calls''))" for P
    using wt by (auto simp: call_text_canon)
  moreover have "first_delta (canon d) = Some (canon dl)"
    using c w by (simp add: first_delta_def first_choice_canon(1) [OF assms] obj_at_canon)
  ultimately show ?thesis using Some by (simp add: doc_args_def items del: map_map)
qed

lemma trim_record:
  assumes "is_obj d"
  shows "trim_end crlf (''data: '' @ json_print d @ nl) = ''data: '' @ json_print d"
proof -
  obtain m where "json_print d = CHR ''{'' # m @ ''}''" using object_text [OF assms] .
  then show ?thesis by (simp add: trim_end_def crlf_def)
qed

lemma norm_record:
  assumes "wf_json d" "is_obj d"
  shows "norm_lines ord (record_lines d @ ls) s =
    (case norm_chunk ord (canon d) (note_usage (''data: '' @ json_print d @ nl) s) of (es, s1) \<Rightarrow>
     case norm_lines ord ls s1 of (es', s2) \<Rightarrow> (es @ es', s2))"
proof -
  have e: "norm_line ord nl t = ([], t)" for t by (simp add: norm_line_def trim_end_def crlf_def)
  have l: "norm_line ord (''data: '' @ json_print d @ nl) s = norm_chunk ord (canon d) (note_usage (''data: '' @ json_print d @ nl) s)"
    using record_line [OF assms(2)] unmarshal_map_print [of d] assms trim_record [OF assms(2)] by (simp add: norm_line_def Let_def)
  show ?thesis by (simp add: record_lines_def l [simplified] e case_prod_unfold)
qed

lemma note_usage_args:
  "nsArgs (note_usage raw s) = nsArgs s" "nsFlushed (note_usage raw s) = nsFlushed s" "seen_ok (note_usage raw s) = seen_ok s"
  "nsFinish (note_usage raw s) = nsFinish s"
  by (simp_all add: note_usage_def seen_ok_def)

lemma open_chunks:
  assumes "list_all (\<lambda>d. wf_json d \<and> is_obj d \<and> finish_of d = []) docs" "seen_ok s" "\<not> nsFlushed s"
  shows "\<exists>s1. norm_lines ord (concat (map record_lines docs) @ ls) s =
      (case norm_lines ord ls s1 of (es, s2) \<Rightarrow> (map (\<lambda>d. SentDoc (clean_chunk (canon d))) docs @ es, s2)) \<and>
    seen_ok s1 \<and> \<not> nsFlushed s1 \<and> (\<forall>i. buffered i (nsArgs s1) = buffered i (nsArgs s) @ whole_args i docs)"
  using assms
proof (induction docs arbitrary: s)
  case (Cons d docs)
  let ?t = "note_usage (''data: '' @ json_print d @ nl) s"
  have d: "wf_json d" "is_obj d" "finish_of (canon d) = []" using Cons(2) by (simp_all add: finish_canon)
  have c: "norm_chunk ord (canon d) ?t = ([SentDoc (clean_chunk (canon d))], note_chunk (canon d) ?t)" using d(3) by (simp add: norm_chunk_def)
  have "seen_ok (note_chunk (canon d) ?t)" "\<not> nsFlushed (note_chunk (canon d) ?t)"
    using Cons(3,4) by (simp_all add: note_chunk_args note_usage_args)
  then obtain s1 where s1: "norm_lines ord (concat (map record_lines docs) @ ls) (note_chunk (canon d) ?t) =
      (case norm_lines ord ls s1 of (es, s2) \<Rightarrow> (map (\<lambda>d. SentDoc (clean_chunk (canon d))) docs @ es, s2))"
    "seen_ok s1" "\<not> nsFlushed s1" "\<forall>i. buffered i (nsArgs s1) = buffered i (nsArgs (note_chunk (canon d) ?t)) @ whole_args i docs"
    using Cons(1) [of "note_chunk (canon d) ?t"] Cons(2) by auto
  have "norm_lines ord (concat (map record_lines (d # docs)) @ ls) s =
      (case norm_lines ord ls s1 of (es, s2) \<Rightarrow> (map (\<lambda>d. SentDoc (clean_chunk (canon d))) (d # docs) @ es, s2))"
    using norm_record [OF d(1,2)] c s1(1) by (simp add: case_prod_unfold)
  moreover have "\<forall>i. buffered i (nsArgs s1) = buffered i (nsArgs s) @ whole_args i (d # docs)"
    using s1(4) by (simp add: note_chunk_args note_usage_args doc_args_canon [OF d(1)] whole_args_def)
  ultimately show ?case using s1(2,3) by blast
qed (auto simp: whole_args_def case_prod_unfold)

lemma body_records:
  "map (\<lambda>l. l @ nl) (concat (map (\<lambda>d. [''data: '' @ json_print d, []]) docs)) = concat (map record_lines docs)"
  by (induction docs) (simp_all add: record_lines_def)

text \<open>
  C5:
  Tool arguments arrive once, repaired and in time. From the bytes of a stream whose last chunk has the finish
  reason: every chunk is sent on without the arguments it had, and before the finish the client gets, for every
  call and in whatever order, exactly one text with all of its arguments, repaired and cleaned of markup; a call
  without arguments gets none.
\<close>

theorem arguments_delivered_once:
  assumes "go_order ord" "list_all (\<lambda>d. wf_json d \<and> is_obj d \<and> finish_of d = []) docs" "wf_json f" "finish_of f \<noteq> []"
    "ubEnd b = AtEOF" "body_text b = concat (map data_record (docs @ [f])) @ done_record"
  shows "\<exists>reps. fst (normalizeOpenAIStream ord b) =
      map (\<lambda>d. SentDoc (clean_chunk (canon d))) docs @ reps @ [SentDoc (clean_chunk (canon f)), SentDone] \<and>
    (\<forall>i. delivered i reps = repaired_args (whole_args i (docs @ [f])) \<and>
         delivered i (fst (normalizeOpenAIStream ord b)) = delivered i reps)"
proof -
  have "jget f ''choices'' \<noteq> None" using assms(4) by (cases "jget f ''choices''") (simp_all add: finish_of_def first_choice_get)
  then have f: "is_obj f" "finish_of (canon f) \<noteq> []" using assms(3,4) jget_is_obj by (auto simp: finish_canon)
  have lines: "body_lines b = concat (map record_lines docs) @ record_lines f @ [''data: [DONE]'' @ nl, nl]"
    using feed_records [of "docs @ [f]" done_record] assms(6)
    by (simp add: body_lines_def feed_done body_records [symmetric] record_lines_def)
  have new: "seen_ok norm_new" "\<not> nsFlushed norm_new" "buffered i (nsArgs norm_new) = []" for i
    by (simp_all add: seen_ok_def norm_new_def buffered_def)
  obtain s1 where s1: "norm_lines ord (body_lines b) norm_new =
      (case norm_lines ord (record_lines f @ [''data: [DONE]'' @ nl, nl]) s1 of (es, s2) \<Rightarrow> (map (\<lambda>d. SentDoc (clean_chunk (canon d))) docs @ es, s2))"
    "seen_ok s1" "\<not> nsFlushed s1" "\<And>i. buffered i (nsArgs s1) = whole_args i docs"
    using open_chunks [OF assms(2) new(1,2), of ord "record_lines f @ [''data: [DONE]'' @ nl, nl]"] new(3) by (auto simp: lines)
  let ?t = "note_usage (''data: '' @ json_print f @ nl) s1"
  let ?u = "note_chunk (canon f) ?t"
  obtain reps s2 where e: "emitRepaired ord ?u = (reps, s2)" by fastforce
  have u: "seen_ok ?u" "\<not> nsFlushed ?u" "buffered i (nsArgs ?u) = whole_args i (docs @ [f])" for i
    using s1(2-4) by (simp_all add: note_chunk_args note_usage_args doc_args_canon [OF assms(3)] whole_args_def)
  have reps: "delivered i reps = repaired_args (whole_args i (docs @ [f]))" for i
    using emitted_args [OF assms(1) u(1,2), of i] by (simp only: e fst_conv u(3))
  have s2: "nsFlushed s2" "nsFinish s2" using e note_state(2) [of "canon f" ?t] f(2) u(2) by (auto simp: emitRepaired_def)
  have chunk: "norm_chunk ord (canon f) ?t = (reps @ [SentDoc (clean_chunk (canon f))], s2)" using f(2) e by (simp add: norm_chunk_def)
  have end_line: "norm_lines ord [''data: [DONE]'' @ nl, nl] s2 = ([SentDone], s2)"
    using s2 by (simp add: norm_line_def trim_end_def crlf_def line_data_def trim_prefix_def ending_chars_def Let_def note_usage_def
        norm_done_def emitRepaired_def unfinished_def quoted_def)
  have out: "fst (normalizeOpenAIStream ord b) = map (\<lambda>d. SentDoc (clean_chunk (canon d))) docs @ reps @ [SentDoc (clean_chunk (canon f)), SentDone]"
    using s1(1) norm_record [OF assms(3) f(1)] chunk end_line s2 assms(5)
    by (simp add: normalizeOpenAIStream_def norm_end_def unfinished_def case_prod_unfold)
  have "delivered i (map (\<lambda>d. SentDoc (clean_chunk (canon d))) docs @ reps @ [SentDoc (clean_chunk (canon f)), SentDone]) = delivered i reps" for i
    by (simp add: delivered_def doc_args_clean comp_def)
  then show ?thesis using out reps by auto
qed

theorem arguments_delivered_once_witness:
  "delivered 0 (fst (normalizeOpenAIStream (\<lambda>k n. [0..<n]) calls_body)) = [''{\"a\":1}'']"
proof -
  have b: "ubEnd calls_body = AtEOF" "body_text calls_body = concat (map data_record (split_calls @ [finish_chunk ''tool_calls''])) @ done_record"
    by (simp_all add: calls_body_def body_text_def)
  have o: "go_order (\<lambda>k n. [0..<n])" by (simp add: go_order_def)
  have d: "list_all (\<lambda>d. wf_json d \<and> is_obj d \<and> finish_of d = []) split_calls"
    by (simp add: split_calls_def piece_chunk_def wf_map_def is_decimal_int [of 0, simplified] is_decimal_int [of 1, simplified] finish_of_def first_choice_def arr_at_def str_at_def)
  have f: "wf_json (finish_chunk ''tool_calls'')" "finish_of (finish_chunk ''tool_calls'') \<noteq> []"
    by (simp_all add: finish_chunk_def wf_map_def finish_of_def first_choice_def arr_at_def str_at_def)
  have "repaired_args (whole_args 0 (split_calls @ [finish_chunk ''tool_calls''])) = [''{\"a\":1}'']" by code_simp
  then show ?thesis using arguments_delivered_once [OF o d f b] by auto
qed

section \<open>Claude streams end at their stop\<close>

lemma claude_stopped: "steps claude_norm_line (s, u, True) ls = ([], s, u, True)"
  by (induction ls) (simp_all add: claude_norm_line_def)

lemma feed_complete: "snd (feed nl buf (t @ nl)) = []"
proof -
  obtain cs r where c: "SplitSSE nl (buf @ t @ nl) = Some (cs, r)" "buf @ t @ nl = concat (map (\<lambda>c. c @ nl) cs) @ r" "\<not> contains r nl"
    using split_exists [of nl "buf @ t @ nl"] by auto
  have "r = []"
  proof (rule ccontr)
    assume r: "r \<noteq> []"
    have "last (buf @ t @ nl) = CHR 0x0A" by simp
    then have "last r = CHR 0x0A" using c(2) r by (metis last_appendR)
    then have "contains r nl" using r by (metis append_butlast_last_id contains_appendI2 contains_self)
    with c(3) show False by simp
  qed
  then show ?thesis using c(1) by (simp add: feed_def)
qed

lemma claude_stop_line:
  assumes "wf_json d" "is_obj d" "str_at d ''type'' = ''message_stop''"
  shows "\<exists>out s u. claude_norm_line st (''data: '' @ json_print d @ nl) = (out, s, u, True)"
proof -
  obtain s u stopped where st: "st = (s, u, stopped)" by (cases st)
  have "unmarshal_map (line_data (''data: '' @ json_print d)) = Some (canon d)" using record_line [OF assms(2)] unmarshal_map_print [of d] assms by simp
  then show ?thesis using trim_record [OF assms(2)] assms(1,3)
    by (cases stopped) (auto simp: st claude_norm_line_def Let_def str_at_canon split: prod.split)
qed

text \<open>
  C17:
  A Claude stream ends for the client with its message_stop: what an upstream sends after it, a replay of the
  last tool call included, changes nothing of what the client gets or of the usage that is counted.
\<close>

theorem claude_stream_ends_at_stop:
  assumes "wf_json d" "is_obj d" "str_at d ''type'' = ''message_stop''"
    "body_text b = t @ nl @ data_record d @ rest" "body_text b' = t @ nl @ data_record d" "ubEnd b' = ubEnd b"
  shows "normalizeClaudeStream e b = normalizeClaudeStream e b'"
proof -
  let ?p = "t @ nl @ data_record d"
  obtain ls where ls: "feed nl [] ?p = (ls, [])"
    using feed_complete [of "[]" "t @ nl @ ''data: '' @ json_print d @ nl"] by (cases "feed nl [] ?p") (simp add: data_record_def)
  obtain l0 where l0: "feed nl [] (t @ nl) = (l0, [])" using feed_complete [of "[]" t] by (cases "feed nl [] (t @ nl)") simp
  have "ls = l0 @ [''data: '' @ json_print d, []]"
    using ls l0 feed_nl [of "[]" "t @ nl" "data_record d"] feed_records [of "[d]" "[]"] by (simp add: feed_empty)
  then have mapped: "map (\<lambda>l. l @ nl) ls = map (\<lambda>l. l @ nl) l0 @ [''data: '' @ json_print d @ nl, nl]" by simp
  obtain l1 r1 where r: "feed nl [] rest = (l1, r1)" by fastforce
  have whole: "feed nl [] (?p @ rest) = (ls @ l1, r1)" using feed_nl [of "[]" ?p rest] ls r by simp
  have lines: "body_lines b' = map (\<lambda>l. l @ nl) ls" "\<exists>more. body_lines b = map (\<lambda>l. l @ nl) ls @ more"
    using ls whole assms(4,5) by (simp_all add: body_lines_def)
  have stop: "\<exists>out s u. steps claude_norm_line st (map (\<lambda>l. l @ nl) ls) = (out, s, u, True)" for st
  proof -
    obtain o1 st1 where 1: "steps claude_norm_line st (map (\<lambda>l. l @ nl) l0) = (o1, st1)"
      by (cases "steps claude_norm_line st (map (\<lambda>l. l @ nl) l0)")
    obtain o2 s u where 2: "claude_norm_line st1 (''data: '' @ json_print d @ nl) = (o2, s, u, True)" using claude_stop_line [OF assms(1-3)] by blast
    show ?thesis using 1 2 by (simp add: mapped steps_append claude_norm_line_def [of _ nl] trim_end_def crlf_def)
  qed
  obtain out s u where o: "steps claude_norm_line (NewClaudeToOpenAIState (envRnd e 0) (envNow e), zero_usage, False) (map (\<lambda>l. l @ nl) ls) = (out, s, u, True)"
    using stop by blast
  obtain more where m: "body_lines b = map (\<lambda>l. l @ nl) ls @ more" using lines(2) by blast
  show ?thesis using assms(6) by (simp add: normalizeClaudeStream_def steps_append lines(1) m o claude_stopped)
qed

theorem claude_stream_ends_at_stop_witness:
  "\<forall>e. normalizeClaudeStream e \<lparr>ubPieces = [nl @ data_record stop_event @ ''data: {}''], ubEnd = AtEOF\<rparr> =
     normalizeClaudeStream e \<lparr>ubPieces = [nl @ data_record stop_event], ubEnd = AtEOF\<rparr>"
  by (intro allI claude_stream_ends_at_stop [where d = stop_event and t = "[]" and rest = "''data: {}''"])
    (simp_all add: stop_event_def wf_map_def str_at_def body_text_def)

section \<open>The shape of complete answers\<close>

lemma has_key_map_at [simp]: "has_key (map_at k f v) k' = has_key v k'"
  by (cases "k' = k") (auto simp: has_key_def map_at_same map_at_other)

lemma has_key_text [simp]: "has_key (sanitizeMessageText m) k = has_key m k"
  by (simp add: sanitizeMessageText_def text_keys_def)

lemma has_key_sync:
  "is_obj m \<Longrightarrow> has_key (syncReasoning m) k = (k \<noteq> ''reasoning_content'' \<and> (k = ''reasoning'' \<or> has_key m k))"
  by (auto simp: syncReasoning_def has_key_jdel has_key_jset has_key_def jget_jdel jget_jset split: option.splits)

lemma is_obj_message [simp]: "is_obj (sanitizeMessageText m) = is_obj m" "is_obj (sync_message m) = is_obj m"
  by (simp_all add: sanitizeMessageText_def text_keys_def sync_message_def Let_def)

lemma sync_message_keys:
  assumes "is_obj m"
  shows "\<not> has_key (sync_message m) ''reasoning_content''" "has_key (sync_message m) ''reasoning''"
    "has_key (sync_message m) ''content'' \<or> has_key (sync_message m) ''tool_calls''"
  using assms by (auto simp: sync_message_def Let_def has_key_sync has_key_jset)

lemma strict_args_repaired: "call_text (map_at ''function'' (in_object (map_at ''arguments'' repaired_value)) tc) = a \<Longrightarrow> strict_args a"
proof -
  let ?fn = "obj_at tc ''function''"
  have g: "strict_args (SanitizeToolArgs (repairToolArgs t))" for t
  proof -
    obtain v where "wf_json v" "repairToolArgs t = json_print v" using repair_printed by blast
    then show ?thesis using sanitize_printed [of v] by (auto simp: strict_args_def)
  qed
  assume a: "call_text (map_at ''function'' (in_object (map_at ''arguments'' repaired_value)) tc) = a"
  show "strict_args a"
  proof (cases "jget tc ''function''")
    case (Some fn)
    show ?thesis
    proof (cases "is_obj fn")
      case True
      then have "call_text (map_at ''function'' (in_object (map_at ''arguments'' repaired_value)) tc) = str_at (map_at ''arguments'' repaired_value fn) ''arguments''"
        using Some by (simp add: call_text_def obj_at_get map_at_same in_object_def)
      then show ?thesis using a g
        by (cases "jget fn ''arguments''") (auto simp: str_at_def map_at_same repaired_value_def strict_args_def split: json.splits if_splits)
    qed (use a Some in \<open>simp add: call_text_def obj_at_get map_at_same in_object_def strict_args_def\<close>)
  qed (use a in \<open>simp add: call_text_def obj_at_get map_at_same strict_args_def\<close>)
qed

lemma strict_message_done:
  assumes "is_obj m"
  shows "strict_message (each_call (map_at ''arguments'' repaired_value) (sync_message m))"
proof -
  let ?f = "map_at ''function'' (in_object (map_at ''arguments'' repaired_value))"
  have "strict_args (call_text (in_object ?f x))" if "is_obj x" for x using that strict_args_repaired by (simp add: in_object_def)
  moreover have "is_obj (in_object ?f x) = is_obj x" for x by (simp add: in_object_def)
  ultimately have "list_all (\<lambda>tc. strict_args (call_text tc)) (filter is_obj (items_at (each_call (map_at ''arguments'' repaired_value) (sync_message m)) ''tool_calls''))"
    by (auto simp: each_call_def items_at_map list_all_iff)
  then show ?thesis using sync_message_keys [OF assms] by (auto simp: strict_message_def each_call_def)
qed

lemma strict_choice_done:
  assumes "is_obj c"
  shows "strict_choice (done_choice c)"
proof -
  let ?f = "in_object (each_call (map_at ''arguments'' repaired_value))" and ?g = "in_object sync_message"
  let ?c = "map_at ''message'' ?f (map_at ''message'' ?g c)"
  have other: "jget (done_choice c) ''message'' = jget ?c ''message''"
    by (cases ?c) (auto simp: done_choice_def with_finish_def Let_def jget_jset)
  have msg: "obj_at (done_choice c) ''message'' = map_option (\<lambda>m. ?f (?g m)) (obj_at c ''message'')"
    by (simp add: obj_at_get other map_at_same in_object_def split: option.split)
  have "is_obj m" if "obj_at c ''message'' = Some m" for m using that by (auto simp: obj_at_get split: option.splits if_splits)
  then have "case obj_at (done_choice c) ''message'' of None \<Rightarrow> True | Some m \<Rightarrow> strict_message m"
    using strict_message_done by (auto simp: msg in_object_def split: option.split)
  moreover have "str_at (done_choice c) ''finish_reason'' \<noteq> []"
    using assms by (auto simp: done_choice_def with_finish_def Let_def str_at_jset)
  ultimately show ?thesis by (simp add: strict_choice_def)
qed

lemma items_done: "filter is_obj (items_at (normal_document v) ''choices'') = map done_choice (filter is_obj (items_at v ''choices''))"
proof -
  have o: "is_obj (in_object f x) = is_obj x" if "\<And>y. is_obj (f y) = is_obj y" for f x using that by (simp add: in_object_def)
  have "items_at (normal_document v) ''choices'' =
      map (\<lambda>x. if is_obj x then done_choice x else x) (items_at v ''choices'')"
    by (simp add: normal_document_def ensureFinishReason_def repairToolCallsJSON_def syncMessageReasoning_def each_message_def each_choice_def
        items_at_map in_object_def done_choice_def)
  moreover have "is_obj (done_choice x) = is_obj x" for x by (simp add: done_choice_def with_finish_def Let_def)
  ultimately show ?thesis by (induction "items_at v ''choices''" arbitrary: v) (auto simp: filter_map comp_def intro!: map_cong filter_cong)
qed

lemma wf_map_at [intro]: "wf_json v \<Longrightarrow> (\<And>x. wf_json x \<Longrightarrow> wf_json (f x)) \<Longrightarrow> wf_json (map_at k f v)"
  by (auto simp: map_at_def split: option.splits dest: wf_json_jget)

lemma wf_each_item [intro]: "wf_json v \<Longrightarrow> (\<And>x. wf_json x \<Longrightarrow> wf_json (f x)) \<Longrightarrow> wf_json (each_item f v)"
  by (cases v) (auto simp: each_item_def in_object_def)

lemma wf_in_object [intro]: "wf_json v \<Longrightarrow> (\<And>x. wf_json x \<Longrightarrow> wf_json (f x)) \<Longrightarrow> wf_json (in_object f v)"
  by (simp add: in_object_def)

lemma wf_values: "wf_json v \<Longrightarrow> wf_json (clean_value v)" "wf_json v \<Longrightarrow> wf_json (clean_text v)" "wf_json v \<Longrightarrow> wf_json (repaired_value v)"
proof -
  show c: "wf_json v \<Longrightarrow> wf_json (clean_value v)" for v by (cases v) (simp_all add: clean_value_def)
  show "wf_json v \<Longrightarrow> wf_json (clean_text v)"
    using c wf_each_item [of v "map_at ''text'' clean_value"] wf_map_at [of _ clean_value] by (cases v) (simp_all add: clean_text_def clean_value_def)
  show "wf_json v \<Longrightarrow> wf_json (repaired_value v)" by (cases v) (simp_all add: repaired_value_def)
qed

lemma wf_sync: "wf_json m \<Longrightarrow> wf_json (syncReasoning m)"
  unfolding syncReasoning_def
  by (rule wf_json_jdel) (auto split: option.split intro!: wf_json_jset intro: wf_json_jget)

lemma wf_sync_message: "wf_json m \<Longrightarrow> wf_json (sync_message m)"
proof -
  assume m: "wf_json m"
  then have "wf_json (sanitizeMessageText m)" by (auto simp: sanitizeMessageText_def text_keys_def intro!: wf_map_at wf_values)
  then have "wf_json (syncReasoning (sanitizeMessageText m))" by (rule wf_sync)
  then show ?thesis by (auto simp: sync_message_def Let_def)
qed

lemma wf_with_finish: "wf_json c \<Longrightarrow> wf_json (with_finish c)"
  by (auto simp: with_finish_def Let_def)

lemma wf_normal: "wf_json v \<Longrightarrow> wf_json (normal_document v)"
  unfolding normal_document_def ensureFinishReason_def repairToolCallsJSON_def syncMessageReasoning_def each_message_def each_choice_def each_call_def
  by (intro wf_map_at wf_each_item wf_in_object wf_with_finish wf_sync_message wf_values)

lemma items_at_canon: "wf_json v \<Longrightarrow> items_at (canon v) k = map canon (items_at v k)"
  by (simp add: items_at_def arr_at_canon split: option.split)

lemma strict_choice_canon:
  assumes "wf_json c"
  shows "strict_choice (canon c) = strict_choice c"
proof -
  have "strict_message (canon m) = strict_message m" if m: "wf_json m" for m
  proof -
    have "filter is_obj (map canon xs) = map canon (filter is_obj xs)" for xs by (simp add: filter_map comp_def)
    moreover have "list_all (\<lambda>tc. strict_args (call_text tc)) (map canon (filter is_obj (items_at m ''tool_calls''))) =
        list_all (\<lambda>tc. strict_args (call_text tc)) (filter is_obj (items_at m ''tool_calls''))"
      using wf_items_at [OF m] by (auto simp: list_all_iff call_text_canon)
    ultimately show ?thesis by (simp add: strict_message_def has_key_canon [OF m] items_at_canon [OF m])
  qed
  then show ?thesis using assms
    by (cases "jget c ''message''") (auto simp: strict_choice_def str_at_canon obj_at_get jget_canon intro: wf_json_jget)
qed



section \<open>What goes wrong\<close>

text \<open>A stream with an end mark and no finish gets two finishes, the second after the mark.\<close>

theorem second_finish_after_done:
  "map (\<lambda>x. case x of SentDoc d \<Rightarrow> finish_of d | SentLine l \<Rightarrow> ''line'' | SentDone \<Rightarrow> ''done'')
     (fst (normalizeOpenAIStream (\<lambda>k n. [0..<n]) \<lparr>ubPieces = [data_record (piece_chunk 0 []), done_record], ubEnd = AtEOF\<rparr>)) =
   [[], ''tool_calls'', ''done'', ''tool_calls'']"
  by code_simp

text \<open>Arguments that arrive after the finish reason are taken out of their chunk and never sent.\<close>

theorem late_arguments_lost:
  "delivered 0 (fst (normalizeOpenAIStream (\<lambda>k n. [0..<n])
     \<lparr>ubPieces = [data_record (finish_chunk ''tool_calls''), data_record (piece_chunk 0 ''{}''), done_record], ubEnd = AtEOF\<rparr>)) = []"
  by code_simp

text \<open>The counts of a message\_start stand in its usage; the translated stream looks for them in the message.\<close>

theorem claude_prompt_tokens_lost:
  assumes "str_at evt ''type'' = ''message_start''" "obj_at evt ''message'' = Some m"
    "num_at m ''input_tokens'' = None" "num_at m ''output_tokens'' = None" "tuTotal current = tuPrompt current + tuCompletion current"
  shows "claude_chunk_usage evt current = current"
  using assms by (cases current) (simp add: claude_chunk_usage_def extractClaudeUsage_def Let_def)

text \<open>An answer above the limit is cut, and the client gets the cut text with the status of the whole.\<close>

theorem long_answer_cut:
  assumes "drFormat resp = ''openai''" "\<not> contains (header_first ''content-type'' (drHeader resp)) ''text/event-stream''"
    "maxNonStreamingBodySize < length (body_text (drBody resp))"
    "json_parse (take (Suc maxNonStreamingBodySize) (body_text (drBody resp))) = None"
    "first_object (take (Suc maxNonStreamingBodySize) (body_text (drBody resp))) = None"
  shows "fst (NormalizeDomainResponse e own resp) =
    \<lparr>caHeader = fold mdel [''x-fg-model'', ''x-fg-request-id'', ''content-length''] (CopyHeaders own (drHeader resp)), caStatus = drStatus resp,
     caBody = take (Suc maxNonStreamingBodySize) (body_text (drBody resp))\<rparr>"
  using assms
  by (simp add: NormalizeDomainResponse_def copyNormalizedDomain_def Let_def isResponsesJSONBytes_def unmarshal_def normalizeJSONWithMeta_def
      case_prod_unfold)

text \<open>An answer whose body cannot be read is logged as an error after its status went out with nothing behind it.\<close>

theorem unreadable_answer_empty:
  assumes "drFormat resp = ''openai''" "\<not> contains (header_first ''content-type'' (drHeader resp)) ''text/event-stream''"
    "ubEnd (drBody resp) = ReadError err" "length (body_text (drBody resp)) \<le> maxNonStreamingBodySize"
  shows "caStatus (fst (NormalizeDomainResponse e own resp)) = drStatus resp \<and> caBody (fst (NormalizeDomainResponse e own resp)) = [] \<and>
    snd (snd (NormalizeDomainResponse e own resp)) = Some err"
  using assms by (simp add: NormalizeDomainResponse_def copyNormalizedDomain_def Let_def)

text \<open>The message that is logged for an upstream error is short.\<close>

theorem error_message_short: "length (extractErrorMessage body) \<le> 303"
  by (simp add: extractErrorMessage_def truncateMessage_def Let_def)

end
