(* ===== verification/OpenCode_Tools.thy ===== *)
theory OpenCode_Tools
  imports Proxy_Normalize
begin

text \<open>
  The tools that the OpenCode gateway expects (internal/infrastructure/upstream/opencode\_tools.go). A request
  gets the gateway's own definitions of read and shell; a caller's tool of such a name travels under an alias,
  which the answer side undoes, in complete bodies and in streams that arrive in pieces. The working directory
  and the platform of the process are arguments, and so is the size of a read. A source delivers its chunks and
  then its end in a read of its own. The aliases of a request are restored in the order in which they were made;
  Go visits them in any order, which gives the same text, as no alias is part of another's original.
\<close>

section \<open>The definitions that are expected\<close>

definition fingerprintToolNames :: "string list" where
  "fingerprintToolNames = [''read'', ''shell'']"

definition fingerprintReadDescription :: string where
  "fingerprintReadDescription = ''Read the contents of a file or directory. '' @
     ''Supports text files, images, and PDFs. '' @
     ''Images and PDFs are presented directly to the model. '' @
     ''Each text line is prefixed by its 1-based line number as <line>: <content>. '' @
     ''The prefix is for reference and is not part of the file content. '' @
     ''Directory entries are returned one per line. '' @
     ''Use offset and limit to read large files or directories in sections. '' @
     ''Prefer one larger read over many small slices, '' @
     ''and use grep to find specific content in large files.''"

definition fingerprintShellDescription :: string where
  "fingerprintShellDescription = ''Execute a shell command and return its output. '' @
     ''Commands run on Linux using bash. '' @
     ''Quote file paths containing spaces or special characters. '' @
     ''Prefer dedicated tools over shell commands when possible. '' @
     ''When output is large, the full result is saved to a file and a truncated preview is returned. '' @
     ''Rely on automatic truncation unless filtering the output is more useful. '' @
     ''Commands accept an optional timeout, background commands have no timeout by default. '' @
     ''Background commands return immediately, and you will be notified when they complete.''"

definition fingerprintReadOffsetDesc :: string where
  "fingerprintReadOffsetDesc = ''The line or directory entry to start reading from (1-based)''"

definition fingerprintReadLimitDesc :: string where
  "fingerprintReadLimitDesc = ''The maximum number of lines or directory entries to read '' @ ''(defaults to and capped at 2000)''"

definition fingerprintShellWorkdirDesc :: string where
  "fingerprintShellWorkdirDesc = ''Working directory to execute the command in. '' @
     ''Defaults to the current working directory. When possible, avoid changing directories '' @
     ''in the command and set the working directory here instead.''"

definition fingerprintShellTimeoutDesc :: string where
  "fingerprintShellTimeoutDesc = ''Timeout in milliseconds. Set to 0 to disable the timeout. '' @
     ''Defaults to 120000 for foreground commands. Background commands have no timeout by default.''"

definition fingerprintShellBackgroundDesc :: string where
  "fingerprintShellBackgroundDesc = ''Run the command in the background and return immediately '' @
     ''(useful for dev servers and long-running builds). You do not need to use '' @ [CHR 0x27, CHR ''&'', CHR 0x27] @ '' at the end '' @
     ''of the command when using this parameter. You will be notified when it completes. '' @
     ''DO NOT poll for completion.''"

definition typed_parameter :: "string \<Rightarrow> string \<Rightarrow> json" where
  "typed_parameter typ desc = JObj [(''type'', JStr typ), (''description'', JStr desc)]"

definition count_parameter :: "string \<Rightarrow> json" where
  "count_parameter desc = JObj [(''type'', JStr ''integer''), (''minimum'', JNum 0), (''description'', JStr desc)]"

definition parameters_of :: "(string \<times> json) list \<Rightarrow> string \<Rightarrow> json" where
  "parameters_of props req =
     JObj [(''type'', JStr ''object''), (''properties'', JObj props), (''required'', JArr [JStr req]), (''additionalProperties'', JBool False)]"

definition fingerprintReadParameters :: json where
  "fingerprintReadParameters = parameters_of
     [(''path'', typed_parameter ''string'' ''File or directory to read''), (''offset'', count_parameter fingerprintReadOffsetDesc),
      (''limit'', count_parameter fingerprintReadLimitDesc)] ''path''"

definition fingerprintShellParameters :: json where
  "fingerprintShellParameters = parameters_of
     [(''command'', typed_parameter ''string'' ''Shell command string to execute''), (''workdir'', typed_parameter ''string'' fingerprintShellWorkdirDesc),
      (''timeout'', count_parameter fingerprintShellTimeoutDesc), (''background'', typed_parameter ''boolean'' fingerprintShellBackgroundDesc)] ''command''"

definition fingerprintWant :: "string \<Rightarrow> string \<times> json" where
  "fingerprintWant name =
     (if name = ''read'' then (fingerprintReadDescription, fingerprintReadParameters)
      else (fingerprintShellDescription, fingerprintShellParameters))"

definition fingerprintToolKey :: "string \<Rightarrow> string" where
  "fingerprintToolKey name = (if trim_space name \<in> set fingerprintToolNames then trim_space name else [])"

section \<open>Tools in any shape\<close>

definition upstreamToolName :: "json \<Rightarrow> string" where
  "upstreamToolName item =
     (let n = (case obj_at item ''function'' of Some fn \<Rightarrow> trim_space (str_at fn ''name'') | None \<Rightarrow> [])
      in if n \<noteq> [] then n else trim_space (str_at item ''name''))"

definition toolDescriptionOf :: "json \<Rightarrow> string" where
  "toolDescriptionOf item =
     (let d = (case obj_at item ''function'' of Some fn \<Rightarrow> str_at fn ''description'' | None \<Rightarrow> [])
      in if d \<noteq> [] then d else str_at item ''description'')"

definition toolParametersOf :: "json \<Rightarrow> json" where
  "toolParametersOf item =
     (case Option.bind (obj_at item ''function'') (\<lambda>fn. jget fn ''parameters'') of
        Some p \<Rightarrow> p
      | None \<Rightarrow> (case jget item ''parameters'' of Some p \<Rightarrow> p | None \<Rightarrow> nil_at item ''input_schema''))"

definition isFingerprintDefinition :: "json \<Rightarrow> string \<Rightarrow> bool" where
  "isFingerprintDefinition tool key =
     (case fingerprintWant key of (desc, params) \<Rightarrow> toolDescriptionOf tool = desc \<and> canon (toolParametersOf tool) = canon params)"

definition withToolName :: "json \<Rightarrow> string \<Rightarrow> json" where
  "withToolName tool name =
     (if obj_at tool ''function'' \<noteq> None then map_at ''function'' (jset ''name'' (JStr name)) tool else jset ''name'' (JStr name) tool)"

section \<open>Aliases\<close>

definition alias_name :: "string \<Rightarrow> nat \<Rightarrow> string" where
  "alias_name key i = key @ ''_client'' @ (if i < 2 then [] else show_nat i)"

lemma alias_name_inj: "2 \<le> i \<Longrightarrow> 2 \<le> j \<Longrightarrow> alias_name key i = alias_name key j \<Longrightarrow> i = j"
  by (simp add: alias_name_def)

lemma aliases_finite: "finite {j. i \<le> j \<and> alias_name key j \<in> set names}"
proof -
  have "inj_on (alias_name key) {j. 2 \<le> j \<and> alias_name key j \<in> set names}" using alias_name_inj by (auto simp: inj_on_def)
  moreover have "alias_name key ` {j. 2 \<le> j \<and> alias_name key j \<in> set names} \<subseteq> set names" by auto
  ultimately have "finite {j. 2 \<le> j \<and> alias_name key j \<in> set names}" by (meson finite_set inj_on_finite)
  moreover have "{j. i \<le> j \<and> alias_name key j \<in> set names} \<subseteq> {0, 1} \<union> {j. 2 \<le> j \<and> alias_name key j \<in> set names}" by auto
  ultimately show ?thesis by (meson finite.emptyI finite_UnI finite_insert finite_subset)
qed

text \<open>The loop over candidates ends: finitely many names are names.\<close>

function free_alias :: "string \<Rightarrow> string list \<Rightarrow> nat \<Rightarrow> string" where
  "free_alias key names i =
     (if alias_name key i \<in> set names then free_alias key names (Suc i) else alias_name key i)"
  by pat_completeness auto

termination
proof (relation "measure (\<lambda>(key, names, i). card {j. i \<le> j \<and> alias_name key j \<in> set names})")
  fix key names i assume "alias_name key i \<in> set names"
  then have "i \<in> {j. i \<le> j \<and> alias_name key j \<in> set names}" "i \<notin> {j. Suc i \<le> j \<and> alias_name key j \<in> set names}" by auto
  moreover have "{j. Suc i \<le> j \<and> alias_name key j \<in> set names} \<subseteq> {j. i \<le> j \<and> alias_name key j \<in> set names}" by auto
  ultimately have "{j. Suc i \<le> j \<and> alias_name key j \<in> set names} \<subset> {j. i \<le> j \<and> alias_name key j \<in> set names}" by blast
  then have "card {j. Suc i \<le> j \<and> alias_name key j \<in> set names} < card {j. i \<le> j \<and> alias_name key j \<in> set names}"
    using psubset_card_mono [OF aliases_finite] by blast
  then show "((key, names, Suc i), key, names, i) \<in> measure (\<lambda>(key, names, i). card {j. i \<le> j \<and> alias_name key j \<in> set names})"
    by simp
qed simp

type_synonym aliases = "(string, string) gomap"

record conceal =
  coTaken :: "string list"
  coSeen :: "string list"
  coOut :: "json list"
  coAliases :: aliases

definition conceal_tool :: "json \<Rightarrow> conceal \<Rightarrow> conceal" where
  "conceal_tool tool s =
     (let key = fingerprintToolKey (upstreamToolName tool);
          alias = free_alias key (coTaken s) 1
      in if \<not> is_obj tool \<or> key = [] then s\<lparr>coOut := coOut s @ [tool]\<rparr>
         else if key \<in> set (coSeen s) then s
         else if isFingerprintDefinition tool key then s\<lparr>coSeen := key # coSeen s, coOut := coOut s @ [tool]\<rparr>
         else s\<lparr>coTaken := alias # coTaken s, coSeen := key # coSeen s, coOut := coOut s @ [withToolName tool alias],
                coAliases := coAliases s @ [(alias, key)]\<rparr>)"

definition concealFingerprintToolNames :: "json list \<Rightarrow> json list \<times> aliases" where
  "concealFingerprintToolNames tools =
     (let s = fold conceal_tool tools
                \<lparr>coTaken = filter (\<lambda>n. n \<noteq> []) (map upstreamToolName tools), coSeen = [], coOut = [], coAliases = []\<rparr>
      in (coOut s, coAliases s))"

definition fingerprintStub :: "string \<Rightarrow> string \<Rightarrow> json" where
  "fingerprintStub endpoint name =
     (case fingerprintWant name of (desc, params) \<Rightarrow>
        if has_suffix endpoint ''/messages''
        then JObj [(''name'', JStr name), (''description'', JStr desc), (''input_schema'', params)]
        else if has_suffix endpoint ''/responses''
        then JObj [(''type'', JStr ''function''), (''name'', JStr name), (''description'', JStr desc), (''parameters'', params), (''strict'', JBool False)]
        else JObj [(''type'', JStr ''function''),
               (''function'', JObj [(''name'', JStr name), (''description'', JStr desc), (''parameters'', params)])])"

definition declared :: "string \<Rightarrow> json list \<Rightarrow> bool" where
  "declared name tools = list_ex (\<lambda>t. fingerprintToolKey (upstreamToolName t) = name) tools"

fun append_missing :: "string \<Rightarrow> string list \<Rightarrow> json list \<Rightarrow> json list \<times> string list" where
  "append_missing endpoint [] tools = (tools, [])"
| "append_missing endpoint (n # ns) tools =
     (if declared n tools then append_missing endpoint ns tools
      else case append_missing endpoint ns (tools @ [fingerprintStub endpoint n]) of (out, added) \<Rightarrow> (out, n # added))"

definition appendMissingFingerprintTools :: "json list \<Rightarrow> string \<Rightarrow> json list \<times> string list" where
  "appendMissingFingerprintTools tools endpoint = append_missing endpoint fingerprintToolNames tools"

definition aliasesByOriginal :: "aliases \<Rightarrow> aliases" where
  "aliasesByOriginal al = fold (\<lambda>(alias, original). mput original alias) al []"

definition alias_value :: "aliases \<Rightarrow> json \<Rightarrow> json" where
  "alias_value by_original v =
     (case v of JStr n \<Rightarrow> (case map_of by_original (trim_space n) of Some a \<Rightarrow> if n = [] then v else JStr a | None \<Rightarrow> v) | _ \<Rightarrow> v)"

definition retargetToolChoice :: "aliases \<Rightarrow> json \<Rightarrow> json" where
  "retargetToolChoice al raw =
     (let rename = map_at ''name'' (alias_value (aliasesByOriginal al))
      in if al = [] then raw
         else map_at ''tool_choice'' (in_object (\<lambda>c. if trim_space (str_at c ''name'') \<noteq> [] then rename c
                else map_at ''function'' (in_object rename) c)) raw)"

definition history_call :: "(json \<Rightarrow> json) \<Rightarrow> json \<Rightarrow> json" where
  "history_call rename m = (if str_at m ''type'' = ''function_call'' then rename m else m)"

definition aliasHistoryToolCalls :: "aliases \<Rightarrow> json \<Rightarrow> json" where
  "aliasHistoryToolCalls al raw =
     (let rename = map_at ''name'' (alias_value (aliasesByOriginal al))
      in if al = [] then raw
         else map_at ''messages'' (each_item (each_call rename)) (map_at ''input'' (each_item (history_call rename)) raw))"

section \<open>Prompts\<close>

definition appendPromptBlock :: "string \<Rightarrow> string \<Rightarrow> string" where
  "appendPromptBlock existing block = (if trim_space existing = [] then block else trim_end crlf existing @ nl @ nl @ block)"

definition prompt_block :: "string \<Rightarrow> json" where
  "prompt_block t = JObj [(''type'', JStr ''text''), (''text'', JStr t)]"

definition add_prompt :: "string \<Rightarrow> json \<Rightarrow> json option" where
  "add_prompt t v =
     (case v of
        JStr s \<Rightarrow> Some (JStr (appendPromptBlock s t))
      | JArr ps \<Rightarrow> Some (JArr (ps @ [prompt_block t]))
      | JNull \<Rightarrow> Some (JStr t)
      | _ \<Rightarrow> None)"

definition system_message :: "string \<Rightarrow> json" where
  "system_message t = JObj [(''role'', JStr ''system''), (''content'', JStr t)]"

definition starts_system :: "json list \<Rightarrow> bool" where
  "starts_system msgs = (case msgs of m # _ \<Rightarrow> str_at m ''role'' = ''system'' | [] \<Rightarrow> False)"

definition ticked :: "string \<Rightarrow> string" where
  "ticked n = CHR 0x60 # n @ [CHR 0x60]"

definition tools_note :: "string list \<Rightarrow> string" where
  "tools_note names =
     (if 1 < length names
      then ''Do not call the '' @ join '' or '' (map ticked names) @ '' tools; they are placeholders that do nothing. '' @
             ''Use the other tools you have been given instead.''
      else ''Do not call the '' @ join '' or '' (map ticked names) @ '' tool; it is a placeholder that does nothing. '' @
             ''Use the other tools you have been given instead.'')"

text \<open>The first message when it is a system message, and a new one before the others when it cannot be extended.\<close>

definition note_messages :: "string \<Rightarrow> json list \<Rightarrow> json list" where
  "note_messages note msgs =
     (case msgs of
        m # ms \<Rightarrow>
          if starts_system msgs
          then (case add_prompt note (nil_at m ''content'') of Some c \<Rightarrow> jset ''content'' c m # ms | None \<Rightarrow> system_message note # msgs)
          else system_message note # msgs
      | [] \<Rightarrow> [system_message note])"

definition noteUnavailableTools :: "string \<Rightarrow> string list \<Rightarrow> json \<Rightarrow> json" where
  "noteUnavailableTools endpoint names raw =
     (let note = tools_note names; said = str_at raw ''instructions''
      in if names = [] then raw
         else if has_suffix endpoint ''/responses''
         then jset ''instructions'' (JStr (if trim_space said = [] then note else said @ nl @ nl @ note)) raw
         else if has_suffix endpoint ''/messages''
         then jset ''system'' (case add_prompt note (nil_at raw ''system'') of Some v \<Rightarrow> v | None \<Rightarrow> JStr note) raw
         else if has_key raw ''system'' then raw
         else case arr_at raw ''messages'' of None \<Rightarrow> raw | Some msgs \<Rightarrow> jset ''messages'' (JArr (note_messages note msgs)) raw)"

definition appendSystemEnv :: "string \<Rightarrow> json \<Rightarrow> json" where
  "appendSystemEnv block raw = (case add_prompt block (nil_at raw ''system'') of Some v \<Rightarrow> jset ''system'' v raw | None \<Rightarrow> raw)"

definition env_messages :: "string \<Rightarrow> json list \<Rightarrow> json list" where
  "env_messages block msgs =
     (case msgs of
        m # ms \<Rightarrow>
          if starts_system msgs
          then (case add_prompt block (nil_at m ''content'') of Some c \<Rightarrow> jset ''content'' c m # ms | None \<Rightarrow> msgs)
          else system_message block # msgs
      | [] \<Rightarrow> [system_message block])"

definition appendChatEnv :: "string \<Rightarrow> json \<Rightarrow> json" where
  "appendChatEnv block raw =
     (case arr_at raw ''messages'' of None \<Rightarrow> raw | Some msgs \<Rightarrow> jset ''messages'' (JArr (env_messages block msgs)) raw)"

definition part_has_env :: "json \<Rightarrow> bool" where
  "part_has_env p = (case p of JStr t \<Rightarrow> contains t ''<env>'' | _ \<Rightarrow> contains (str_at p ''text'') ''<env>'')"

definition promptValueHasEnv :: "json \<Rightarrow> bool" where
  "promptValueHasEnv v = (case v of JStr s \<Rightarrow> contains s ''<env>'' | JArr ps \<Rightarrow> list_ex part_has_env ps | _ \<Rightarrow> False)"

definition hasOpenCodeEnv :: "json \<Rightarrow> bool" where
  "hasOpenCodeEnv raw =
     (promptValueHasEnv (nil_at raw ''instructions'') \<or> promptValueHasEnv (nil_at raw ''system'') \<or>
      (case items_at raw ''messages'' of
         m # ms \<Rightarrow> starts_system (m # ms) \<and> promptValueHasEnv (nil_at m ''content'')
       | [] \<Rightarrow> False))"

definition openCodeEnvBlock :: "string \<Rightarrow> string \<Rightarrow> string" where
  "openCodeEnvBlock cwd os =
     ''<env>'' @ nl @ ''  Working directory: '' @ (if cwd = [] then ''/'' else cwd) @ nl @ ''  Platform: '' @ os @ nl @ ''</env>''"

definition instructions_env :: "string \<Rightarrow> json \<Rightarrow> json" where
  "instructions_env block raw =
     (case nil_at raw ''instructions'' of
        JNull \<Rightarrow> jset ''instructions'' (JStr block) raw
      | JStr s \<Rightarrow> jset ''instructions'' (JStr (appendPromptBlock s block)) raw
      | _ \<Rightarrow> raw)"

definition ensureOpenCodeEnv :: "string \<Rightarrow> string \<Rightarrow> json \<Rightarrow> json" where
  "ensureOpenCodeEnv block endpoint raw =
     (if hasOpenCodeEnv raw then raw
      else if has_suffix endpoint ''/responses'' then instructions_env block raw
      else if has_suffix endpoint ''/messages'' \<or> has_key raw ''system'' then appendSystemEnv block raw
      else appendChatEnv block raw)"

section \<open>Requests\<close>

definition is_none :: "string \<Rightarrow> bool" where
  "is_none s = (to_lower (trim_space s) = ''none'')"

definition stripNoneToolChoice :: "json \<Rightarrow> json" where
  "stripNoneToolChoice raw =
     (let none = (case nil_at raw ''tool_choice'' of JStr s \<Rightarrow> is_none s | JObj m \<Rightarrow> is_none (str_at (JObj m) ''type'') | _ \<Rightarrow> False)
      in if none then jdel ''tool_choice'' raw else raw)"

definition default_choice :: "string \<Rightarrow> json \<Rightarrow> json" where
  "default_choice endpoint raw =
     (if \<not> has_key raw ''tool_choice'' \<and> has_suffix endpoint ''/responses'' then jset ''tool_choice'' (JStr ''auto'') raw else raw)"

text \<open>A tools value that is no list passes through.\<close>

definition odd_tools :: "json \<Rightarrow> bool" where
  "odd_tools raw = (nil_at raw ''tools'' \<noteq> JNull \<and> arr_at raw ''tools'' = None)"

definition applyFingerprintTools :: "string \<Rightarrow> string \<Rightarrow> json \<Rightarrow> json \<times> aliases" where
  "applyFingerprintTools block endpoint raw0 =
     (let raw = stripNoneToolChoice raw0
      in if raw0 = JNull then (raw0, [])
         else if odd_tools raw then (raw, [])
         else case concealFingerprintToolNames (items_at raw ''tools'') of (concealed, al) \<Rightarrow>
              case appendMissingFingerprintTools concealed endpoint of (tools, added) \<Rightarrow>
              let raw1 = aliasHistoryToolCalls al (retargetToolChoice al (jset ''tools'' (JArr tools) raw));
                  raw2 = default_choice endpoint (noteUnavailableTools endpoint added raw1)
              in (ensureOpenCodeEnv block endpoint raw2, al))"

definition ensureUpstreamTools :: "string \<Rightarrow> string \<Rightarrow> string \<Rightarrow> string \<times> aliases" where
  "ensureUpstreamTools block endpoint body =
     (case unmarshal_map body of
        None \<Rightarrow> (body, [])
      | Some raw \<Rightarrow>
          if odd_tools raw then (body, [])
          else case applyFingerprintTools block endpoint raw of (out, al) \<Rightarrow> (json_print out, al))"

section \<open>Answers\<close>

definition original_value :: "aliases \<Rightarrow> json \<Rightarrow> json" where
  "original_value al v = (case v of JStr n \<Rightarrow> (case map_of al n of Some o' \<Rightarrow> if n = [] then v else JStr o' | None \<Rightarrow> v) | _ \<Rightarrow> v)"

definition restore_typed :: "aliases \<Rightarrow> string \<Rightarrow> json \<Rightarrow> json" where
  "restore_typed al typ m = (if str_at m ''type'' = typ then map_at ''name'' (original_value al) m else m)"

definition restore_choice :: "aliases \<Rightarrow> json \<Rightarrow> json" where
  "restore_choice al c =
     (let f = in_object (each_call (map_at ''name'' (original_value al))) in map_at ''delta'' f (map_at ''message'' f c))"

definition restoreToolNamesInJSON :: "aliases \<Rightarrow> json \<Rightarrow> json" where
  "restoreToolNamesInJSON al raw =
     map_at ''content'' (each_item (restore_typed al ''tool_use''))
       (map_at ''output'' (each_item (restore_typed al ''function_call'')) (each_choice (restore_choice al) raw))"

definition restoreUpstreamBody :: "aliases \<Rightarrow> string \<Rightarrow> string" where
  "restoreUpstreamBody al body =
     (if al = [] \<or> body = [] then body
      else case unmarshal_map body of None \<Rightarrow> body | Some raw \<Rightarrow> json_print (restoreToolNamesInJSON al raw))"

section \<open>Streams\<close>

fun replace_all :: "string \<Rightarrow> string \<Rightarrow> string \<Rightarrow> string" where
  "replace_all old new [] = []"
| "replace_all old new (c # cs) =
     (if old \<noteq> [] \<and> has_prefix (c # cs) old then new @ replace_all old new (drop (length old - 1) cs)
      else c # replace_all old new cs)"

record restore_reader =
  rrAliases :: aliases
  rrPending :: string
  rrOverlap :: nat
  rrDone :: bool

definition new_restore_reader :: "aliases \<Rightarrow> restore_reader" where
  "new_restore_reader al =
     \<lparr>rrAliases = al, rrPending = [], rrOverlap = fold max (map (\<lambda>(a, b). length a + 2) al) 0 + 8, rrDone = False\<rparr>"

text \<open>Without aliases the source itself is returned.\<close>

definition wrapAliasRestoreStream :: "aliases \<Rightarrow> restore_reader option" where
  "wrapAliasRestoreStream al = (if al = [] then None else Some (new_restore_reader al))"

definition restoreChunk :: "aliases \<Rightarrow> string \<Rightarrow> string" where
  "restoreChunk al chunk = fold (\<lambda>(alias, original). replace_all (quoted alias) (quoted original)) al chunk"

text \<open>What a read returns: bytes, or the end, or the error of the source.\<close>

datatype read_result = Bytes string | AtEnd | Broken string

definition emit_read :: "nat \<Rightarrow> string \<Rightarrow> restore_reader \<Rightarrow> read_result \<times> restore_reader" where
  "emit_read n data r =
     (let keep = length data - rrOverlap r; out = restoreChunk (rrAliases r) (take keep data)
      in (Bytes (take n out), r\<lparr>rrPending := drop n out @ drop keep data\<rparr>))"

definition last_read :: "body_end \<Rightarrow> nat \<Rightarrow> restore_reader \<Rightarrow> read_result \<times> restore_reader" where
  "last_read e n r =
     (let data = rrPending r; out = restoreChunk (rrAliases r) data
      in case e of
           ReadError err \<Rightarrow> if data = [] then (Broken err, r) else (Bytes (take n out), r\<lparr>rrDone := True, rrPending := []\<rparr>)
         | _ \<Rightarrow> if data = [] then (AtEnd, r\<lparr>rrDone := True\<rparr>) else (Bytes (take n out), r\<lparr>rrDone := True, rrPending := drop n out\<rparr>))"

text \<open>A read of at most n bytes from a source that delivers its chunks one by one; a chunk that does not fit is read in part.\<close>

fun alias_read :: "body_end \<Rightarrow> nat \<Rightarrow> string list \<Rightarrow> restore_reader \<Rightarrow> read_result \<times> string list \<times> restore_reader" where
  "alias_read e n [] r =
     (if rrDone r \<and> rrPending r = [] then (AtEnd, [], r) else case last_read e n r of (x, r1) \<Rightarrow> (x, [], r1))"
| "alias_read e n (c # cs) r =
     (let room = n + rrOverlap r + 4096; data = rrPending r @ take room c; r0 = r\<lparr>rrPending := []\<rparr>;
          rest = (if length c \<le> room then cs else drop room c # cs)
      in if rrDone r \<and> rrPending r = [] then (AtEnd, c # cs, r)
         else if data = [] then (AtEnd, rest, r0\<lparr>rrDone := True\<rparr>)
         else if length data \<le> rrOverlap r then alias_read e n cs (r\<lparr>rrPending := data\<rparr>)
         else case emit_read n data r0 of (x, r1) \<Rightarrow> (x, rest, r1))"

text \<open>A client that reads until the end or an error, at most k times.\<close>

fun read_stream :: "nat \<Rightarrow> body_end \<Rightarrow> nat \<Rightarrow> string list \<Rightarrow> restore_reader \<Rightarrow> string \<times> read_result" where
  "read_stream 0 e n src r = ([], AtEnd)"
| "read_stream (Suc k) e n src r =
     (case alias_read e n src r of
        (Bytes s, src1, r1) \<Rightarrow> (case read_stream k e n src1 r1 of (out, x) \<Rightarrow> (s @ out, x))
      | (x, src1, r1) \<Rightarrow> ([], x))"


section \<open>Fresh names\<close>

declare free_alias.simps [simp del]

lemma free_alias_fresh: "free_alias key names i \<notin> set names \<and> (\<exists>j. free_alias key names i = alias_name key j)"
proof (induction key names i rule: free_alias.induct)
  case (1 key names i)
  then show ?case by (cases "alias_name key i \<in> set names") (auto simp: free_alias.simps [of key names i])
qed

lemma no_space_trim: "list_all (\<lambda>c. \<not> is_space c) s \<Longrightarrow> trim_space s = s"
proof -
  assume s: "list_all (\<lambda>c. \<not> is_space c) s"
  have d: "list_all (\<lambda>c. \<not> is_space c) t \<Longrightarrow> dropWhile is_space t = t" for t by (cases t) auto
  have "list_all (\<lambda>c. \<not> is_space c) (rev s)" using s by (simp add: list_all_iff)
  then show ?thesis using d [OF s] d [of "rev s"] by (simp add: trim_space_def)
qed

lemma digits_no_space: "list_all (\<lambda>c. \<not> is_space c) (show_nat n)"
proof -
  have "is_digit c \<Longrightarrow> \<not> is_space c" for c by (auto simp: is_digit_def is_space_def less_eq_char_def)
  then show ?thesis using show_nat_digits by (simp add: list_all_iff)
qed

lemma alias_plain:
  assumes "key \<in> set fingerprintToolNames"
  shows "trim_space (alias_name key j) = alias_name key j" "fingerprintToolKey (alias_name key j) = []" "alias_name key j \<noteq> []"
proof -
  have "list_all (\<lambda>c. \<not> is_space c) (alias_name key j)"
    using assms digits_no_space by (auto simp: alias_name_def fingerprintToolNames_def is_space_def)
  then show t: "trim_space (alias_name key j) = alias_name key j" by (rule no_space_trim)
  show "fingerprintToolKey (alias_name key j) = []"
    unfolding fingerprintToolKey_def t using assms by (auto simp: fingerprintToolNames_def alias_name_def)
  show "alias_name key j \<noteq> []" by (simp add: alias_name_def)
qed

lemma key_cases: "fingerprintToolKey n = [] \<or> (fingerprintToolKey n \<in> set fingerprintToolNames \<and> fingerprintToolKey n = trim_space n)"
  by (simp add: fingerprintToolKey_def)

lemma renamed_tool: "is_obj t \<Longrightarrow> trim_space a = a \<Longrightarrow> a \<noteq> [] \<Longrightarrow> upstreamToolName (withToolName t a) = a"
  by (cases "jget t ''function''")
    (auto simp: withToolName_def upstreamToolName_def obj_at_get map_at_same str_at_jset jget_jset Let_def split: if_splits)

abbreviation tool_key :: "json \<Rightarrow> string" where
  "tool_key t \<equiv> fingerprintToolKey (upstreamToolName t)"

text \<open>The tools that have a fingerprint name are the gateway's own, one of each name.\<close>

definition exact_tools :: "json list \<Rightarrow> bool" where
  "exact_tools ts =
     (distinct (filter (\<lambda>k. k \<noteq> []) (map tool_key ts)) \<and>
      list_all (\<lambda>t. tool_key t = [] \<or> isFingerprintDefinition t (tool_key t)) ts)"

definition conceal_inv :: "string list \<Rightarrow> conceal \<Rightarrow> bool" where
  "conceal_inv names s =
     (exact_tools (coOut s) \<and> (\<forall>k \<in> set (map tool_key (coOut s)). k \<noteq> [] \<longrightarrow> k \<in> set (coSeen s)) \<and>
      set names \<subseteq> set (coTaken s) \<and> fst ` set (coAliases s) \<subseteq> set (coTaken s) \<and> snd ` set (coAliases s) \<subseteq> set (coSeen s) \<and>
      distinct (map fst (coAliases s)) \<and> distinct (map snd (coAliases s)) \<and>
      (\<forall>(a, k) \<in> set (coAliases s). a \<notin> set names \<and> a \<noteq> [] \<and> trim_space a = a \<and> k \<in> set fingerprintToolNames))"

lemma non_object_key: "\<not> is_obj t \<Longrightarrow> tool_key t = []"
  by (cases t) (simp_all add: upstreamToolName_def obj_at_def str_at_def Let_def fingerprintToolKey_def fingerprintToolNames_def)

lemma conceal_step:
  assumes "conceal_inv names s"
  shows "conceal_inv names (conceal_tool t s)"
proof -
  let ?key = "tool_key t" and ?fresh = "free_alias (tool_key t) (coTaken s) 1"
  consider "\<not> is_obj t \<or> ?key = []" | "is_obj t" "?key \<noteq> []" "?key \<in> set (coSeen s)"
    | "is_obj t" "?key \<noteq> []" "?key \<notin> set (coSeen s)" "isFingerprintDefinition t ?key"
    | "is_obj t" "?key \<noteq> []" "?key \<notin> set (coSeen s)" "\<not> isFingerprintDefinition t ?key" by blast
  then show ?thesis
  proof cases
    case 1
    then have "?key = []" using non_object_key by blast
    then show ?thesis using assms 1 by (auto simp: conceal_tool_def conceal_inv_def exact_tools_def Let_def)
  next
    case 2
    then show ?thesis using assms by (simp add: conceal_tool_def Let_def)
  next
    case 3
    then show ?thesis using assms by (auto simp: conceal_tool_def conceal_inv_def exact_tools_def Let_def)
  next
    case 4
    have k: "?key \<in> set fingerprintToolNames" using 4(2) key_cases by metis
    obtain j where j: "?fresh = alias_name ?key j" and f: "?fresh \<notin> set (coTaken s)" using free_alias_fresh by metis
    have a: "trim_space ?fresh = ?fresh" "fingerprintToolKey ?fresh = []" "?fresh \<noteq> []" unfolding j by (rule alias_plain [OF k])+
    have w: "tool_key (withToolName t ?fresh) = []" using renamed_tool [OF 4(1) a(1,3)] a(2) by simp
    show ?thesis using assms 4 w a f k
      by (auto simp: conceal_tool_def conceal_inv_def exact_tools_def Let_def)
  qed
qed

lemma conceal_all:
  assumes "concealFingerprintToolNames tools = (out, al)"
  shows "\<exists>s. conceal_inv (filter (\<lambda>n. n \<noteq> []) (map upstreamToolName tools)) s \<and> out = coOut s \<and> al = coAliases s"
proof -
  let ?names = "filter (\<lambda>n. n \<noteq> []) (map upstreamToolName tools)"
  have "conceal_inv ?names s \<Longrightarrow> conceal_inv ?names (fold conceal_tool ts s)" for ts s
    by (induction ts arbitrary: s) (simp_all add: conceal_step)
  moreover have "conceal_inv ?names \<lparr>coTaken = ?names, coSeen = [], coOut = [], coAliases = []\<rparr>"
    by (simp add: conceal_inv_def exact_tools_def)
  ultimately show ?thesis using assms by (auto simp: concealFingerprintToolNames_def Let_def)
qed

lemma inverted:
  assumes "distinct (map snd al)"
  shows "map_of (aliasesByOriginal al) k = map_of (map (\<lambda>(a, b). (b, a)) al) k"
proof -
  have "map_of (fold (\<lambda>(alias, original). mput original alias) al m) k = (case map_of (map (\<lambda>(a, b). (b, a)) al) k of Some a \<Rightarrow> Some a | None \<Rightarrow> map_of m k)" for m
    using assms
  proof (induction al arbitrary: m)
    case (Cons p al)
    obtain a b where p: "p = (a, b)" by (cases p)
    show ?case
    proof (cases "k = b")
      case True
      then have "map_of (map (\<lambda>(a, b). (b, a)) al) k = None" using Cons(2) p by (force simp: map_of_eq_None_iff)
      then show ?thesis using Cons p True by simp
    qed (use Cons p in \<open>simp split: option.split\<close>)
  qed simp
  then show ?thesis by (simp add: aliasesByOriginal_def split: option.split)
qed

text \<open>
  C19:
  The names of a caller's tools survive the trip: a name that the caller declared, sent to the gateway under its
  alias where it has one, comes back from the restoration of the answer as it was. Aliases are new names, each
  for one tool, so no other tool of the caller is renamed with it.
\<close>

theorem names_round_trip:
  assumes "concealFingerprintToolNames tools = (out, al)" "n \<in> upstreamToolName ` set tools"
  shows "original_value al (alias_value (aliasesByOriginal al) (JStr n)) = JStr n \<and> distinct (map fst al) \<and> distinct (map snd al)"
proof -
  obtain s where s: "conceal_inv (filter (\<lambda>n. n \<noteq> []) (map upstreamToolName tools)) s" "al = coAliases s" using conceal_all [OF assms(1)] by blast
  have d: "distinct (map fst al)" "distinct (map snd al)" and
    a: "\<And>a k. (a, k) \<in> set al \<Longrightarrow> a \<notin> upstreamToolName ` set tools \<and> a \<noteq> []" and
    k: "\<And>a k. (a, k) \<in> set al \<Longrightarrow> k \<in> set fingerprintToolNames" using s by (auto simp: conceal_inv_def)
  have t: "trim_space n = n" using assms(2) by (auto simp: upstreamToolName_def Let_def split: option.splits)
  have "original_value al (alias_value (aliasesByOriginal al) (JStr n)) = JStr n"
  proof (cases "map_of (aliasesByOriginal al) n")
    case None
    have "map_of al n = None" using a assms(2) by (force simp: map_of_eq_None_iff)
    then show ?thesis using None by (simp add: alias_value_def original_value_def t)
  next
    case (Some x)
    then have x: "(x, n) \<in> set al" by (auto simp: inverted [OF d(2)] dest!: map_of_SomeD)
    then have "map_of al x = Some n" using d(1) by simp
    moreover have "x \<noteq> []" using a [OF x] by simp
    moreover have "n \<noteq> []" using k [OF x] by (auto simp: fingerprintToolNames_def)
    ultimately show ?thesis using Some by (simp add: alias_value_def original_value_def t)
  qed
  then show ?thesis using d by blast
qed

definition own_read :: json where
  "own_read = JObj [(''name'', JStr ''read''), (''description'', JStr ''Reads a page'')]"

theorem names_round_trip_witness:
  "let al = snd (concealFingerprintToolNames [own_read]) in
     alias_value (aliasesByOriginal al) (JStr ''read'') = JStr ''read_client'' \<and>
     original_value al (alias_value (aliasesByOriginal al) (JStr ''read'')) = JStr ''read''"
proof -
  obtain out al where o: "concealFingerprintToolNames [own_read] = (out, al)" by fastforce
  have "''read'' \<in> upstreamToolName ` set [own_read]" by code_simp
  from names_round_trip [OF o this] have r: "original_value al (alias_value (aliasesByOriginal al) (JStr ''read'')) = JStr ''read''" by blast
  have "alias_value (aliasesByOriginal (snd (concealFingerprintToolNames [own_read]))) (JStr ''read'') = JStr ''read_client''" by code_simp
  then show ?thesis using o r by (simp add: Let_def)
qed

section \<open>Reading a stream\<close>

lemma replace_none: "\<not> contains s old \<Longrightarrow> replace_all old new s = s"
  by (induction old new s rule: replace_all.induct) auto

lemma restore_none:
  assumes "\<forall>(a, b) \<in> set al. \<not> contains s (quoted a)"
  shows "restoreChunk al s = s"
  using assms by (induction al) (auto simp: restoreChunk_def replace_none)

lemma contains_take: "contains (take k s) t \<Longrightarrow> contains s t"
  by (metis append_take_drop_id contains_appendI1)

definition free_of :: "aliases \<Rightarrow> string \<Rightarrow> bool" where
  "free_of al s = (\<forall>(a, b) \<in> set al. \<not> contains s (quoted a))"

lemma free_of_part: "free_of al (s @ t) \<Longrightarrow> free_of al s" "free_of al s \<Longrightarrow> free_of al (take k s)"
  by (auto simp: free_of_def dest: contains_appendI1 contains_take)

lemma free_of_tail: "free_of al (s @ t) \<Longrightarrow> free_of al t"
  by (auto simp: free_of_def dest: contains_appendI2)

lemma alias_read_keeps:
  assumes "0 < n" "\<forall>c \<in> set src. c \<noteq> []" "free_of (rrAliases r) (rrPending r @ concat src)" "rrDone r \<longrightarrow> src = []"
  shows "(rrPending r @ concat src = [] \<and> fst (alias_read AtEOF n src r) = AtEnd) \<or>
    (\<exists>s src1 r1. alias_read AtEOF n src r = (Bytes s, src1, r1) \<and> s \<noteq> [] \<and> s @ rrPending r1 @ concat src1 = rrPending r @ concat src \<and>
       (\<forall>c \<in> set src1. c \<noteq> []) \<and> rrAliases r1 = rrAliases r \<and> (rrDone r1 \<longrightarrow> src1 = []))"
  using assms(2-4)
proof (induction src arbitrary: r)
  case Nil
  then have "restoreChunk (rrAliases r) (rrPending r) = rrPending r" using restore_none by (simp add: free_of_def)
  then show ?case using assms(1) by (cases "rrPending r") (auto simp: last_read_def Let_def)
next
  case (Cons c cs)
  let ?room = "n + rrOverlap r + 4096"
  let ?data = "rrPending r @ take ?room c" and ?rest = "if length c \<le> ?room then cs else drop ?room c # cs"
  have nd: "\<not> rrDone r" using Cons(4) by auto
  have c: "c \<noteq> []" "?data \<noteq> []" using Cons(2) by auto
  show ?case
  proof (cases "length ?data \<le> rrOverlap r")
    case True
    then have l: "length c \<le> ?room" "length (rrPending r) + length c \<le> rrOverlap r" by (auto simp: min_def split: if_splits)
    then have whole: "take ?room c = c" by simp
    have "alias_read AtEOF n (c # cs) r = alias_read AtEOF n cs (r\<lparr>rrPending := ?data\<rparr>)" using nd c l by (simp add: whole Let_def)
    then show ?thesis using Cons(1) [of "r\<lparr>rrPending := ?data\<rparr>"] Cons(2,3) nd by (simp add: whole)
  next
    case False
    let ?keep = "length ?data - rrOverlap r"
    have d: "?data @ drop ?room c @ concat cs = rrPending r @ concat (c # cs)" by (metis append_assoc append_take_drop_id concat.simps(2))
    have "free_of (rrAliases r) (?data @ drop ?room c @ concat cs)" unfolding d by (rule Cons(3))
    then have "free_of (rrAliases r) (take ?keep ?data)" using free_of_part by blast
    then have out: "restoreChunk (rrAliases r) (take ?keep ?data) = take ?keep ?data" using restore_none by (simp add: free_of_def)
    have e: "alias_read AtEOF n (c # cs) r =
        (Bytes (take n (take ?keep ?data)), ?rest, r\<lparr>rrPending := drop n (take ?keep ?data) @ drop ?keep ?data\<rparr>)"
      using False nd c out by (simp add: Let_def emit_read_def)
    let ?s = "take n (take ?keep ?data)" and ?p = "drop n (take ?keep ?data) @ drop ?keep ?data"
    have p: "?s @ ?p = ?data" by (metis append_assoc append_take_drop_id)
    have "concat ?rest = drop ?room c @ concat cs" by simp
    then have w: "?s @ ?p @ concat ?rest = rrPending r @ concat (c # cs)" using p d by (metis append_assoc)
    show ?thesis
    proof (intro disjI2 exI conjI)
      show "alias_read AtEOF n (c # cs) r = (Bytes ?s, ?rest, r\<lparr>rrPending := ?p\<rparr>)" by (rule e)
      show "?s \<noteq> []" using assms(1) False by auto
      show "?s @ rrPending (r\<lparr>rrPending := ?p\<rparr>) @ concat ?rest = rrPending r @ concat (c # cs)" using w by simp
      show "\<forall>x \<in> set ?rest. x \<noteq> []" using Cons(2) by auto
      show "rrDone (r\<lparr>rrPending := ?p\<rparr>) \<longrightarrow> ?rest = []" using nd by simp
    qed simp
  qed
qed

lemma read_all:
  assumes "0 < n" "\<forall>c \<in> set src. c \<noteq> []" "free_of (rrAliases r) (rrPending r @ concat src)" "rrDone r \<longrightarrow> src = []"
    "length (rrPending r @ concat src) < k"
  shows "read_stream k AtEOF n src r = (rrPending r @ concat src, AtEnd)"
  using assms(2-5)
proof (induction k arbitrary: src r)
  case (Suc k)
  consider "rrPending r @ concat src = []" "fst (alias_read AtEOF n src r) = AtEnd"
    | s src1 r1 where "alias_read AtEOF n src r = (Bytes s, src1, r1)" "s \<noteq> []" "s @ rrPending r1 @ concat src1 = rrPending r @ concat src"
        "\<forall>c \<in> set src1. c \<noteq> []" "rrAliases r1 = rrAliases r" "rrDone r1 \<longrightarrow> src1 = []"
    using alias_read_keeps [OF assms(1) Suc(2,3,4)] by blast
  then show ?case
  proof cases
    case 1
    then show ?thesis by (cases "alias_read AtEOF n src r") simp
  next
    case 2
    have "free_of (rrAliases r) (s @ rrPending r1 @ concat src1)" using Suc(3) 2(3) by simp
    then have f: "free_of (rrAliases r1) (rrPending r1 @ concat src1)" using 2(5) free_of_tail by simp
    have "length s + length (rrPending r1 @ concat src1) = length (rrPending r @ concat src)" using 2(3) by (metis length_append)
    then have "length (rrPending r1 @ concat src1) < k" using Suc(5) 2(2) by (cases s) auto
    then have "read_stream k AtEOF n src1 r1 = (rrPending r1 @ concat src1, AtEnd)" using Suc(1) [OF 2(4) f 2(6)] by simp
    then show ?thesis using 2(1,3) by simp
  qed
qed simp



section \<open>Exactly one of each\<close>

lemma one_of_key:
  assumes "distinct (filter (\<lambda>k. k \<noteq> []) (map f ts))" "n \<noteq> []" "n \<in> f ` set ts"
  shows "\<exists>t. filter (\<lambda>t. f t = n) ts = [t]"
  using assms
proof (induction ts)
  case (Cons t ts)
  show ?case
  proof (cases "f t = n")
    case True
    then have "n \<notin> f ` set ts" using Cons(2,3) by auto
    then have "filter (\<lambda>t. f t = n) ts = []" by (auto simp: filter_empty_conv)
    then show ?thesis using True by simp
  qed (use Cons in \<open>auto split: if_splits\<close>)
qed simp

lemma stub_name: "upstreamToolName (fingerprintStub endpoint n) = trim_space n"
proof -
  obtain d p where "fingerprintWant n = (d, p)" by fastforce
  then show ?thesis by (simp add: fingerprintStub_def upstreamToolName_def obj_at_def str_at_def Let_def)
qed

lemma stub_key: "n \<in> set fingerprintToolNames \<Longrightarrow> tool_key (fingerprintStub endpoint n) = n"
  by (auto simp: fingerprintToolNames_def stub_name fingerprintToolKey_def trim_space_def is_space_def)

lemma want_text: "fst (fingerprintWant n) \<noteq> []"
  by (simp add: fingerprintWant_def fingerprintReadDescription_def fingerprintShellDescription_def)

lemma stub_exact: "isFingerprintDefinition (fingerprintStub endpoint n) n"
proof -
  obtain d p where w: "fingerprintWant n = (d, p)" by fastforce
  then have "d \<noteq> []" using want_text [of n] by simp
  then show ?thesis
    by (simp add: isFingerprintDefinition_def fingerprintStub_def w toolDescriptionOf_def toolParametersOf_def obj_at_def str_at_def nil_at_def Let_def)
qed

lemma append_missing_exact:
  assumes "exact_tools ts" "set ns \<subseteq> set fingerprintToolNames" "append_missing endpoint ns ts = (out, added)"
  shows "exact_tools out \<and> set ts \<subseteq> set out \<and> set ns \<subseteq> tool_key ` set out"
  using assms
proof (induction endpoint ns ts arbitrary: out added rule: append_missing.induct)
  case (2 endpoint n ns ts)
  show ?case
  proof (cases "declared n ts")
    case True
    then have "n \<in> tool_key ` set ts" by (auto simp: declared_def list_ex_iff)
    then show ?thesis using 2 True by fastforce
  next
    case False
    let ?ts = "ts @ [fingerprintStub endpoint n]"
    have n: "tool_key (fingerprintStub endpoint n) = n" using 2(4) stub_key by simp
    have "n \<notin> tool_key ` set ts" using False by (auto simp: declared_def list_ex_iff)
    then have "exact_tools ?ts" using 2(3) stub_exact n by (auto simp: exact_tools_def)
    moreover obtain a where "append_missing endpoint ns ?ts = (out, a)" using 2(5) False by (auto split: prod.splits)
    ultimately have "exact_tools out \<and> set ?ts \<subseteq> set out \<and> set ns \<subseteq> tool_key ` set out" using 2(2) [OF False] 2(4) by simp
    then show ?thesis using n by force
  qed
qed simp

lemma jget_other: "k' \<noteq> k \<Longrightarrow> jget (jset k x v) k' = jget v k'"
  by (cases v) (simp_all add: map_of_mput)

lemma tools_untouched:
  "jget (aliasHistoryToolCalls al v) ''tools'' = jget v ''tools''"
  "jget (retargetToolChoice al v) ''tools'' = jget v ''tools''"
  "jget (noteUnavailableTools endpoint names v) ''tools'' = jget v ''tools''"
  "jget (default_choice endpoint v) ''tools'' = jget v ''tools''"
proof -
  show "jget (aliasHistoryToolCalls al v) ''tools'' = jget v ''tools''" by (simp add: aliasHistoryToolCalls_def map_at_other Let_def)
  show "jget (retargetToolChoice al v) ''tools'' = jget v ''tools''" by (simp add: retargetToolChoice_def map_at_other Let_def)
  show "jget (noteUnavailableTools endpoint names v) ''tools'' = jget v ''tools''"
    by (cases "arr_at v ''messages''") (simp_all add: noteUnavailableTools_def jget_other Let_def)
  show "jget (default_choice endpoint v) ''tools'' = jget v ''tools''" by (simp add: default_choice_def jget_other)
qed

lemma env_untouched: "jget (ensureOpenCodeEnv block endpoint v) ''tools'' = jget v ''tools''"
proof -
  have "jget (instructions_env block v) ''tools'' = jget v ''tools''" by (cases "nil_at v ''instructions''") (simp_all add: instructions_env_def jget_other)
  moreover have "jget (appendSystemEnv block v) ''tools'' = jget v ''tools''"
    by (cases "add_prompt block (nil_at v ''system'')") (simp_all add: appendSystemEnv_def jget_other)
  moreover have "jget (appendChatEnv block v) ''tools'' = jget v ''tools''"
    by (cases "arr_at v ''messages''") (simp_all add: appendChatEnv_def jget_other)
  ultimately show ?thesis by (simp add: ensureOpenCodeEnv_def)
qed


definition own_request :: json where
  "own_request = JObj [(''tools'', JArr [own_read]), (''messages'', JArr [])]"


section \<open>The environment marker\<close>

lemma env_in_prompt: "contains block ''<env>'' \<Longrightarrow> add_prompt block v = Some w \<Longrightarrow> promptValueHasEnv w"
  by (auto simp: add_prompt_def promptValueHasEnv_def prompt_block_def part_has_env_def appendPromptBlock_def str_at_def contains_appendI2
      contains_ConsI split: json.splits if_splits)

lemma env_instructions:
  assumes "is_obj v" "contains block ''<env>''"
  shows "hasOpenCodeEnv (instructions_env block v) \<or> instructions_env block v = v"
  using assms env_in_prompt [OF assms(2), of "nil_at v ''instructions''"]
  by (cases "nil_at v ''instructions''") (simp_all add: instructions_env_def hasOpenCodeEnv_def nil_at_def jget_jset add_prompt_def)

lemma env_system:
  assumes "is_obj v" "contains block ''<env>''"
  shows "hasOpenCodeEnv (appendSystemEnv block v) \<or> appendSystemEnv block v = v"
  using assms env_in_prompt [OF assms(2), of "nil_at v ''system''"]
  by (cases "add_prompt block (nil_at v ''system'')") (simp_all add: appendSystemEnv_def hasOpenCodeEnv_def nil_at_def jget_jset)

definition first_has_env :: "json list \<Rightarrow> bool" where
  "first_has_env msgs = (starts_system msgs \<and> promptValueHasEnv (nil_at (hd msgs) ''content''))"

lemma env_first:
  assumes "contains block ''<env>''"
  shows "first_has_env (env_messages block msgs) \<or> env_messages block msgs = msgs"
proof -
  have new: "first_has_env (system_message block # ms)" for ms
    using assms by (simp add: first_has_env_def starts_system_def system_message_def str_at_def nil_at_def promptValueHasEnv_def)
  show ?thesis
  proof (cases "starts_system msgs")
    case True
    then obtain m ms where m: "msgs = m # ms" by (auto simp: starts_system_def split: list.splits)
    then have o: "is_obj m" using True str_at_obj [of m "''role''"] by (auto simp: starts_system_def)
    show ?thesis using True o env_in_prompt [OF assms, of "nil_at m ''content''"]
      by (cases "add_prompt block (nil_at m ''content'')") (auto simp: m env_messages_def first_has_env_def starts_system_def nil_at_def jget_jset str_at_jset)
  qed (use new in \<open>auto simp: env_messages_def split: list.splits\<close>)
qed

lemma env_chat:
  assumes "is_obj v" "contains block ''<env>''"
  shows "hasOpenCodeEnv (appendChatEnv block v) \<or> appendChatEnv block v = v"
proof (cases "arr_at v ''messages''")
  case (Some msgs)
  then have same: "jset ''messages'' (JArr msgs) v = v" by (rule arr_at_same)
  have "first_has_env xs \<Longrightarrow> hasOpenCodeEnv (jset ''messages'' (JArr xs) v)" for xs
    using assms(1) by (cases xs) (auto simp: first_has_env_def hasOpenCodeEnv_def items_at_def arr_at_def jget_jset starts_system_def)
  then show ?thesis using env_first [OF assms(2), of msgs] Some same by (auto simp: appendChatEnv_def)
qed (simp add: appendChatEnv_def)

lemma block_marked: "contains (openCodeEnvBlock cwd os) ''<env>''"
  by (simp add: openCodeEnvBlock_def)

text \<open>
  The environment marker is written at most once: afterwards the prompt of the request carries it, unless the
  prompt has a shape that the code leaves alone, and a second pass over the result changes nothing.
\<close>

theorem env_marked_once:
  assumes "is_obj raw" "out = ensureOpenCodeEnv (openCodeEnvBlock cwd os) endpoint raw"
  shows "(hasOpenCodeEnv out \<or> out = raw) \<and> ensureOpenCodeEnv (openCodeEnvBlock cwd os) endpoint out = out"
proof -
  have "hasOpenCodeEnv out \<or> out = raw"
    using assms env_instructions [OF assms(1) block_marked] env_system [OF assms(1) block_marked] env_chat [OF assms(1) block_marked]
    by (auto simp: ensureOpenCodeEnv_def)
  then show ?thesis using assms(2) by (auto simp: ensureOpenCodeEnv_def)
qed

section \<open>Where aliases leak\<close>

definition client_alias :: aliases where
  "client_alias = [(''read_client'', ''read'')]"

text \<open>The end of the held-back part may cut a name: what was emitted and what was kept are restored apart.\<close>

theorem alias_cut_by_overlap:
  "read_stream 5 AtEOF 64 [quoted ''read_client'' @ replicate 15 CHR ''x''] (new_restore_reader client_alias) =
     (quoted ''read_client'' @ replicate 15 CHR ''x'', AtEnd)"
  by code_simp

theorem stream_error_swallowed:
  "read_stream 5 (ReadError ''reset'') 64 [''data''] (new_restore_reader client_alias) = (''data'', AtEnd)"
  "read_stream 5 (ReadError ''reset'') 3 [''data''] (new_restore_reader client_alias) = (''dat'', AtEnd)"
  by code_simp+

definition used_before :: json where
  "used_before = JObj [(''tools'', JArr [own_read]), (''messages'', JArr [JObj [(''role'', JStr ''assistant''),
     (''content'', JArr [JObj [(''type'', JStr ''tool_use''), (''id'', JStr ''t1''), (''name'', JStr ''read'')]])]])]"

theorem claude_history_not_aliased:
  "let (out, al) = applyFingerprintTools (openCodeEnvBlock ''/srv'' ''linux'') ''/v1/messages'' used_before
   in al = client_alias \<and> jget out ''messages'' = jget used_before ''messages''"
  by code_simp

end
