(* ===== verification/Spec2Isabelle.thy ===== *)
theory Spec2Isabelle
  imports Prelude GoJson Prepost_OpenAI Prepost_Claude Prepost_Tools Translate Observability Middleware
    Client_Keys Database Registry_Models Registry Registry_Invariant Client_Key_Admin Catalog Http_Client
    Failover Chat_Service Manager Tool_Args Claude_Request Go_Regexp Json_Encoder
    Claude_Sanitize Claude_Stream Sse Claude_Response Claude_To_OpenAI Gemini_Request Gemini_Response
    Responses_Request Responses_Response Responses_Stream Response_Writer Claude_From_OpenAI
    Proxy_Normalize
    OpenCode_Tools
begin

text \<open>
  FreeGate is a gateway in Go: clients speak the OpenAI, Claude, Gemini or Responses API to it, and it
  forwards their chat requests to free upstream providers. A request passes the gates of
  internal/delivery/middleware, the chat handler settles its formats and prepares the body
  (internal/delivery/handler, internal/translate), the chat service picks candidates from the router and
  walks them (internal/application), a candidate may be a combo of tiers or a custom provider with rotated
  keys and edge relays (internal/infrastructure/upstream), and what happened is counted and logged
  (metrics, recorder, ringbuffer). Providers, combos, pools and client keys live in a database
  (internal/infrastructure/registry), from which the provider manager rebuilds the routing.

  \<^bold>\<open>Foundations.\<close>
  \<^item> Prelude: Go strings, results, maps as association lists, the deduplicating loop, numbers as text.
  \<^item> GoJson: encoding/json as the program uses it: values, encoder with sorted keys and HTML escapes,
    decoder with fuel one above the length of the input (every recursive call consumes a byte, and the
    round trip is proved for every well-formed value), type assertions; the locales \<open>doc_stage\<close>,
    \<open>message_stage\<close> and \<open>doc_contract\<close> that lift facts on decoded documents to facts on bodies.
  \<^item> Database: error wrapping of store.go and the laws of the GORM operations as the locale
    \<open>gorm_laws\<close>, with a concrete table that satisfies them.

  \<^bold>\<open>Requests.\<close>
  \<^item> Prepost\_OpenAI, Prepost\_Claude, Prepost\_Tools (internal/translate/internal/prepost): every stage on
    body bytes and on documents, fast paths and error returns included. They show that the single-pass
    preparation equals its stages, what each stage guarantees, and idempotence.
  \<^item> Translate (detect.go, request.go, translate.go, handler/chat.go): format detection and the
    single-pass probe with their equivalence, the request pipeline and what holds of its results, the
    handler's plan for a request. The translators between formats are fields of a record and arbitrary.
  \<^item> Tool\_Args (translate/claude/stream.go): splitting of concatenated tool arguments and the repairs of
    broken JSON, with what they guarantee and where they lose data.
  \<^item> Claude\_Request (translate/claude/request.go): a Claude request as an OpenAI one; every decodable body
    is translated, calls stay answered, tool inputs round-trip.
  \<^item> Claude\_From\_OpenAI (translate/claude/fromopenai.go): typed decoding of an OpenAI request and its
    translation to Claude. Tool results stand in user messages of their own, merged, and no block is lost.
  \<^item> Responses\_Request (translate/responses/request.go): the walk over input items and the way back. A
    history goes through both unchanged, and what is sent is ready for an OpenAI upstream.

  \<^bold>\<open>Answers.\<close>
  \<^item> Go\_Regexp: the regular expressions of the sanitizers, with leftmost search as Go's regexp has it.
    Json\_Encoder: the encoder of GoJson with and without HTML escapes as two instances of one locale.
  \<^item> Claude\_Sanitize (translate/claude/sanitize\_response.go, sanitize\_args.go, orphan\_invoke.go): removal
    of leaked scaffolding from text and arguments, and recovery of tool calls from DSML blocks.
  \<^item> Claude\_Stream (translate/claude/stream.go): an OpenAI stream as Claude events. The events are those
    a client with the block protocol accepts, and the arguments of a call arrive complete and repaired. Chunks
    and events are documents; the random identifiers are a function of their position.
  \<^item> Claude\_Response (translate/claude/json.go, json\_to\_openai.go): complete answers in both directions; they
    agree with the stream on a tool call. Claude\_To\_OpenAI (stream\_claude\_to\_openai.go): a Claude stream as
    chunks that an OpenAI client accepts.
  \<^item> Gemini\_Request, Gemini\_Response (translate/gemini): requests, answers and streams in both directions.
  \<^item> Responses\_Response, Responses\_Stream (translate/responses/response.go, stream.go): answers and
    streams in both directions: numbered events, parallel calls that keep their own index, text that goes
    through both directions, and what the stream loses. The order in which Go visits a map is an argument.
  \<^item> Response\_Writer (translate/response.go, response\_writer.go): the writer between upstream and client,
    in every direction, from the bytes of the upstream to the bytes of the client.
  \<^item> Proxy\_Normalize (internal/infrastructure/proxy, httputil/header.go): what happens to an upstream's answer
    before it is translated: complete answers get the shape strict clients accept, streams get their arguments
    repaired and a finish, and pass-through leaves the bytes alone while it reads the token usage.
  \<^item> Sse (translate/internal/helpers/helpers.go): cutting a stream into pieces, which ends for every separator
    that is not empty and does not depend on how the network cut the stream.

  \<^bold>\<open>Gates and keys.\<close>
  \<^item> Middleware (httputil/ip.go, throttle.go, session.go, middleware.go): client address, exponential
    back-off, signed sessions over an abstract MAC, the two authentication gates, the sharded rate limiter
    with its window bound.
  \<^item> Client\_Keys, Client\_Key\_Admin (apikey\_cache.go, apikeys.go): the verification cache with its
    generation counter as a transition system with concurrent queries, the usage recorder, and the key
    operations as refinements of operations on a set of keys. Hash and random source are parameters.

  \<^bold>\<open>Registry and routing.\<close>
  \<^item> Registry\_Models, Registry, Registry\_Invariant (models.go, validation.go, providers.go, combos.go,
    pools.go): every store operation as a transaction; the invariant that pins and tiers refer to existing
    rows, rollback on error, effects on several tables. \<open>registry_db\<close> is the locale of a database and a
    validator that keep their documented laws.
  \<^item> Catalog (model.go, cache.go, custom.go, upstream.go, combo.go, application/models.go): catalogues,
    selections and routers; what is listed is what would serve, except behind a provider in legacy mode.
  \<^item> Http\_Client (client.go, relay.go, refresher.go): key rotation on 64-bit counters, cooldowns, relays,
    429 failover over a network that is any function of the requests so far, refresh back-off.
  \<^item> Manager (manager.go): the custom upstreams rebuilt from the registry, and the running refreshers.
  \<^item> OpenCode\_Tools (opencode\_tools.go): the tools and the marker that this gateway expects, aliases for a caller's
    tools of the same names, and their restoration in answers and streams.

  \<^bold>\<open>Failover and accounting.\<close>
  \<^item> Failover (response.go, combo\_upstream.go): retryable answers, the lossless body probe, the tier walk
    with cooldowns and a ghost trace of calls, responses and closes.
  \<^item> Chat\_Service (application/chat.go): the candidate walk with counters and the log entry.
  \<^item> Observability (ringbuffer, metrics, recorder): the bounded log as a locale with the ring buffer as its
    instance, counters, samples.

  \<^bold>\<open>Conventions.\<close> Times are integers in nanoseconds or seconds as the code has them and the clock is an
  argument. Counters are 64-bit words. Maps are association lists; their order stands for Go's unspecified
  iteration order. Locks make a method one step; where two steps of a method can interleave with others
  (client-key verification) the steps are separate transitions. JSON numbers are decimals kept by value.
  Error texts that only reach a log are left out. Letter case is that of ASCII.

  \<^bold>\<open>Not modelled.\<close> The HTTP clients for OpenCode, Kilo and LLM7 and the TLS fingerprint; the admin API, the pages and the server wiring, which decode requests and call the
  operations modelled here; configuration from the environment; opening and migrating the database.
\<close>

end
